(* ===== verification/Prelude.thy ===== *)
theory Prelude
  imports Main "HOL-Library.Word" "HOL-Library.Multiset" "HOL-Library.AList"
begin

text \<open>
  Shared vocabulary of the development: machine-integer types, the result type that makes
  every Rust panic a value, its combinators and their rewrite rules, the run of a
  fallible step function over a list of inputs, a contract for components whose
  operations keep an invariant, and the standard library's binary search.

  The model is that of a build with debug assertions: integer overflow, a failed
  \<^verbatim>\<open>assert!\<close> or \<^verbatim>\<open>debug_assert!\<close>, \<^verbatim>\<open>unwrap\<close> of \<^verbatim>\<open>None\<close> and an index out of range
  all end the operation in \<open>Panic\<close>.
\<close>

section \<open>Machine integers\<close>

type_synonym u8 = "8 word"
type_synonym u32 = "32 word"
type_synonym u64 = "64 word"

section \<open>Panics as values\<close>

datatype panic =
    AssertFailed
  | UnwrapNone
  | UnwrapErr
  | IndexOutOfRange
  | Overflow
  | ExplicitPanic
  | Unimplemented
  | OutOfFuel

text \<open>
  \<open>OutOfFuel\<close> is no panic of the program: it marks a loop of the model that used up
  its bound, and each such loop is proved never to reach it.
\<close>

datatype 'a res = Ok 'a | Panic panic

named_theorems res_simps \<open>rewrite rules that open up a successful computation\<close>

primrec res_bind :: "'a res \<Rightarrow> ('a \<Rightarrow> 'b res) \<Rightarrow> 'b res" where
  "res_bind (Ok x) f = f x"
| "res_bind (Panic p) f = Panic p"

definition check :: "bool \<Rightarrow> panic \<Rightarrow> 'a res \<Rightarrow> 'a res" where
  "check b p r = (if b then r else Panic p)"

definition unwrap :: "'a option \<Rightarrow> ('a \<Rightarrow> 'b res) \<Rightarrow> 'b res" where
  "unwrap x f = (case x of None \<Rightarrow> Panic UnwrapNone | Some y \<Rightarrow> f y)"

definition is_ok :: "'a res \<Rightarrow> bool" where
  "is_ok r = (case r of Ok _ \<Rightarrow> True | Panic _ \<Rightarrow> False)"

definition checked_add :: "'a::len word \<Rightarrow> 'a word \<Rightarrow> 'a word res" where
  "checked_add a b =
     (if unat a + unat b < 2 ^ LENGTH('a) then Ok (a + b) else Panic Overflow)"

text \<open>
  Where an unsigned integer of width \<open>w\<close> is kept as a natural number, its addition and
  subtraction carry the overflow check.
\<close>

definition add_width :: "nat \<Rightarrow> nat \<Rightarrow> nat \<Rightarrow> nat res" where
  "add_width w a b = (if a + b < 2 ^ w then Ok (a + b) else Panic Overflow)"

definition sub_checked :: "nat \<Rightarrow> nat \<Rightarrow> nat res" where
  "sub_checked a b = (if b \<le> a then Ok (a - b) else Panic Overflow)"

definition index_res :: "'a list \<Rightarrow> nat \<Rightarrow> 'a res" where
  "index_res xs i = (if i < length xs then Ok (xs ! i) else Panic IndexOutOfRange)"

fun res_map :: "('a \<Rightarrow> 'b res) \<Rightarrow> 'a list \<Rightarrow> 'b list res" where
  "res_map f [] = Ok []"
| "res_map f (x # xs) = res_bind (f x) (\<lambda>y. res_bind (res_map f xs) (\<lambda>ys. Ok (y # ys)))"

lemma res_bind_eq_Ok [simp, res_simps]:
  "res_bind m f = Ok y \<longleftrightarrow> (\<exists>x. m = Ok x \<and> f x = Ok y)"
  by (cases m) auto

lemma check_eq_Ok [simp, res_simps]: "check b p r = Ok y \<longleftrightarrow> b \<and> r = Ok y"
  by (simp add: check_def)

lemma check_True [simp]: "check True p r = r"
  by (simp add: check_def)

lemma check_False [simp]: "check False p r = Panic p"
  by (simp add: check_def)

lemma check_cong [cong]: "b = b' \<Longrightarrow> (b' \<Longrightarrow> r = r') \<Longrightarrow> check b p r = check b' p r'"
  by (simp add: check_def)

lemma unwrap_eq_Ok [simp, res_simps]:
  "unwrap x f = Ok y \<longleftrightarrow> (\<exists>z. x = Some z \<and> f z = Ok y)"
  by (cases x) (auto simp: unwrap_def)

lemma unwrap_Some [simp]: "unwrap (Some x) f = f x"
  by (simp add: unwrap_def)

lemma unwrap_None [simp]: "unwrap None f = Panic UnwrapNone"
  by (simp add: unwrap_def)

lemma is_ok_simps [simp]: "is_ok (Ok x)" "\<not> is_ok (Panic p)"
  by (simp_all add: is_ok_def)

lemma is_ok_iff: "is_ok r \<longleftrightarrow> (\<exists>x. r = Ok x)"
  by (cases r) auto

lemma is_ok_bind [simp]: "is_ok (res_bind m f) \<longleftrightarrow> (\<exists>x. m = Ok x \<and> is_ok (f x))"
  by (cases m) auto

lemma is_ok_check [simp]: "is_ok (check b p r) \<longleftrightarrow> b \<and> is_ok r"
  by (simp add: check_def)

lemma res_bind_assoc: "res_bind (res_bind m f) g = res_bind m (\<lambda>x. res_bind (f x) g)"
  by (cases m) auto

lemma res_bind_Ok_right [simp]: "res_bind m Ok = m"
  by (cases m) auto

lemma res_split:
  "P (case_res f g r) \<longleftrightarrow> (\<forall>x. r = Ok x \<longrightarrow> P (f x)) \<and> (\<forall>p. r = Panic p \<longrightarrow> P (g p))"
  by (cases r) auto

lemma index_res_eq_Ok [simp, res_simps]:
  "index_res xs i = Ok x \<longleftrightarrow> i < length xs \<and> xs ! i = x"
  by (auto simp: index_res_def)

lemma add_width_eq_Ok [simp, res_simps]:
  "add_width w a b = Ok c \<longleftrightarrow> a + b < 2 ^ w \<and> c = a + b"
  by (auto simp: add_width_def)

lemma sub_checked_eq_Ok [simp, res_simps]:
  "sub_checked a b = Ok c \<longleftrightarrow> b \<le> a \<and> c = a - b"
  by (auto simp: sub_checked_def)

lemma checked_add_eq_Ok [simp, res_simps]:
  "checked_add a b = Ok c \<longleftrightarrow> unat a + unat b < 2 ^ LENGTH('a) \<and> c = a + b"
  for a :: "'a::len word"
  by (auto simp: checked_add_def)

lemma unat_checked_add:
  "checked_add a b = Ok c \<Longrightarrow> unat c = unat a + unat b"
  for a :: "'a::len word"
  by (auto simp: unat_word_ariths)

lemma res_map_Ok_iff:
  "res_map f xs = Ok ys \<longleftrightarrow> list_all2 (\<lambda>x y. f x = Ok y) xs ys"
  by (induction xs arbitrary: ys) (auto simp: list_all2_Cons1)

section \<open>Fallible results that may also panic\<close>

text \<open>
  A \<^verbatim>\<open>Result\<close> computed by code that may panic is an \<open>('e + 'a) res\<close>; \<open>try_bind\<close> is the
  \<^verbatim>\<open>?\<close> operator, which returns an error to the caller.
\<close>

definition try_bind :: "('e + 'a) res \<Rightarrow> ('a \<Rightarrow> ('e + 'b) res) \<Rightarrow> ('e + 'b) res" where
  "try_bind m f = res_bind m (\<lambda>r. case r of Inl e \<Rightarrow> Ok (Inl e) | Inr x \<Rightarrow> f x)"

lemma try_bind_Ok [simp]:
  "try_bind (Ok (Inr x)) f = f x" "try_bind (Ok (Inl e)) f = Ok (Inl e)"
  "try_bind (Panic p) f = Panic p"
  by (simp_all add: try_bind_def)

lemma try_bind_eq_Inr [simp, res_simps]:
  "try_bind m f = Ok (Inr y) \<longleftrightarrow> (\<exists>x. m = Ok (Inr x) \<and> f x = Ok (Inr y))"
  by (cases m) (auto simp: try_bind_def split: sum.splits)

lemma try_bind_eq_Inl [res_simps]:
  "try_bind m f = Ok (Inl e) \<longleftrightarrow> m = Ok (Inl e) \<or> (\<exists>x. m = Ok (Inr x) \<and> f x = Ok (Inl e))"
  by (cases m) (auto simp: try_bind_def split: sum.splits)

lemma is_ok_try_bind [simp]:
  "is_ok (try_bind m f) \<longleftrightarrow> (\<exists>e. m = Ok (Inl e)) \<or> (\<exists>x. m = Ok (Inr x) \<and> is_ok (f x))"
  by (cases m) (auto simp: try_bind_def split: sum.splits)

lemma try_bind_assoc: "try_bind (try_bind m f) g = try_bind m (\<lambda>x. try_bind (f x) g)"
  by (cases m) (auto simp: try_bind_def split: sum.splits)

section \<open>Hash maps as association lists\<close>

text \<open>
  A \<^verbatim>\<open>HashMap\<close> is an association list with distinct keys; the order of the list stands
  for the unspecified iteration order. \<open>total f\<close> sums a measure over the values.
\<close>

definition total :: "('v \<Rightarrow> nat) \<Rightarrow> ('k \<times> 'v) list \<Rightarrow> nat" where
  "total f al = (\<Sum>(k, v) \<leftarrow> al. f v)"

lemma total_simps [simp]:
  "total f [] = 0" "total f ((k, v) # al) = f v + total f al"
  "total f (xs @ ys) = total f xs + total f ys"
  by (simp_all add: total_def)

lemma total_rev [simp]: "total f (rev al) = total f al"
  by (induction al) auto

lemma delete_absent: "k \<notin> fst ` set al \<Longrightarrow> AList.delete k al = al"
  by (auto simp: AList.delete_eq filter_id_conv image_iff)

lemma total_delete:
  "distinct (map fst al) \<Longrightarrow> map_of al k = Some v \<Longrightarrow>
   total f al = f v + total f (AList.delete k al)"
  by (induction al) (auto simp: delete_absent)

lemma update_absent: "k \<notin> fst ` set al \<Longrightarrow> AList.update k v al = al @ [(k, v)]"
  by (induction al) auto

lemma delete_update_same: "AList.delete k (AList.update k v al) = AList.delete k al"
  by (induction al) auto

lemma total_update:
  "distinct (map fst al) \<Longrightarrow> map_of al k = Some v \<Longrightarrow>
   total f (AList.update k w al) = f w + total f (AList.delete k al)"
  by (induction al) (auto simp: delete_absent)

lemma set_delete: "set (AList.delete k al) = {p \<in> set al. fst p \<noteq> k}"
  by (auto simp: AList.delete_eq)

lemma set_update:
  "distinct (map fst al) \<Longrightarrow>
   set (AList.update k v al) = insert (k, v) {p \<in> set al. fst p \<noteq> k}"
  by (induction al) (auto simp: image_iff)

lemma map_of_None_fst: "map_of al k = None \<longleftrightarrow> k \<notin> fst ` set al"
  by (simp add: map_of_eq_None_iff)

section \<open>Runs of a fallible step function\<close>

fun res_fold :: "('s \<Rightarrow> 'e \<Rightarrow> 's res) \<Rightarrow> 's \<Rightarrow> 'e list \<Rightarrow> 's res" where
  "res_fold f s [] = Ok s"
| "res_fold f s (e # es) = res_bind (f s e) (\<lambda>t. res_fold f t es)"

lemma res_fold_append:
  "res_fold f s (xs @ ys) = res_bind (res_fold f s xs) (\<lambda>t. res_fold f t ys)"
  by (induction xs arbitrary: s) (auto simp: res_bind_assoc)

lemma res_fold_snoc:
  "res_fold f s (xs @ [x]) = res_bind (res_fold f s xs) (\<lambda>t. f t x)"
  by (simp add: res_fold_append)

text \<open>
  The contract of a component with state: \<open>step\<close> is one operation (with its
  arguments packed in \<open>'e\<close>), \<open>guard\<close> what its callers ensure before the call, and
  \<open>inv\<close> what every completed operation keeps.
\<close>

locale stateful_component =
  fixes step :: "'s \<Rightarrow> 'e \<Rightarrow> 's res"
    and guard :: "'s \<Rightarrow> 'e \<Rightarrow> bool"
    and inv :: "'s \<Rightarrow> bool"
  assumes step_inv: "inv s \<Longrightarrow> guard s e \<Longrightarrow> step s e = Ok t \<Longrightarrow> inv t"
begin

fun guarded :: "'s \<Rightarrow> 'e list \<Rightarrow> bool" where
  "guarded s [] = True"
| "guarded s (e # es) = (guard s e \<and> (\<forall>t. step s e = Ok t \<longrightarrow> guarded t es))"

lemma run_inv:
  assumes "inv s" and "guarded s es" and "res_fold step s es = Ok t"
  shows "inv t"
  using assms
proof (induction es arbitrary: s)
  case Nil
  then show ?case by simp
next
  case (Cons e es)
  from Cons.prems(3) obtain u where u: "step s e = Ok u" "res_fold step u es = Ok t"
    by auto
  with Cons.prems have "inv u" and "guarded u es"
    by (auto intro: step_inv)
  then show ?case using u(2) by (rule Cons.IH)
qed

lemma guarded_all: "\<forall>e \<in> set es. \<forall>s. guard s e \<Longrightarrow> guarded s es"
  by (induction es arbitrary: s) auto

lemma run_inv_unguarded:
  assumes "\<And>s e. guard s e" and "inv s" and "res_fold step s es = Ok t"
  shows "inv t"
  using run_inv[OF assms(2) guarded_all assms(3)] assms(1) by blast

end

text \<open>A component whose guarded operations never panic: every guarded run completes.\<close>

locale progressing_component = stateful_component +
  assumes step_ok: "inv s \<Longrightarrow> guard s e \<Longrightarrow> is_ok (step s e)"
begin

lemma run_completes:
  assumes "inv s" and "guarded s es"
  obtains t where "res_fold step s es = Ok t" "inv t"
  using assms
proof (induction es arbitrary: s thesis)
  case Nil
  then show ?case by simp
next
  case (Cons e es)
  from Cons.prems(2,3) have "is_ok (step s e)" by (auto intro: step_ok)
  then obtain u where u: "step s e = Ok u" by (auto simp: is_ok_iff)
  with Cons.prems(2,3) have "inv u" "guarded u es" by (auto intro: step_inv)
  then obtain t where "res_fold step u es = Ok t" "inv t" by (rule Cons.IH[rotated])
  with u show ?case by (intro Cons.prems(1)) auto
qed

end

section \<open>Binary search, as in the standard library\<close>

text \<open>
  \<^verbatim>\<open>slice::binary_search_by_key\<close>: the loop halves \<open>sz\<close> and moves \<open>base\<close> to the
  middle unless the middle key is greater; the final comparison decides between
  \<open>Ok\<close> (here \<open>Some\<close> index) and \<open>Err\<close> (here \<open>None\<close>; its callers ignore the
  insertion point).
\<close>

function bsearch_loop :: "'k::linorder list \<Rightarrow> 'k \<Rightarrow> nat \<Rightarrow> nat \<Rightarrow> nat" where
  "bsearch_loop ks k base sz =
     (if sz > 1 then
        let half = sz div 2; mid = base + half
        in bsearch_loop ks k (if ks ! mid > k then base else mid) (sz - half)
      else base)"
  by pat_completeness auto
termination
  by (relation "measure (\<lambda>(ks, k, base, sz). sz)") auto

declare bsearch_loop.simps [simp del]

definition binary_search :: "'k::linorder list \<Rightarrow> 'k \<Rightarrow> nat option" where
  "binary_search ks k =
     (if ks = [] then None
      else let i = bsearch_loop ks k 0 (length ks)
           in if ks ! i = k then Some i else None)"

lemma bsearch_loop_correct:
  assumes "sorted_wrt (<) ks" and "base + sz \<le> length ks" and "0 < sz"
    and "\<exists>j. base \<le> j \<and> j < base + sz \<and> ks ! j = k"
  shows "ks ! (bsearch_loop ks k base sz) = k
    \<and> bsearch_loop ks k base sz < length ks"
  using assms
proof (induction ks k base sz rule: bsearch_loop.induct)
  case (1 ks k base sz)
  show ?case
  proof (cases "sz > 1")
    case False
    with "1.prems"(3) have "sz = 1" by simp
    with "1.prems"(4) have "ks ! base = k" by (metis Suc_eq_plus1 le_less_Suc_eq)
    moreover have "bsearch_loop ks k base sz = base"
      using False by (subst bsearch_loop.simps) simp
    ultimately show ?thesis using "1.prems"(2,3) by simp
  next
    case True
    define half where "half = sz div 2"
    define mid where "mid = base + half"
    from "1.prems"(4) obtain j where j: "base \<le> j" "j < base + sz" "ks ! j = k" by blast
    have half: "0 < half" "half < sz" using True by (auto simp: half_def)
    have mid: "mid < length ks" using "1.prems"(2) half by (simp add: mid_def)
    have lt: "ks ! a < ks ! b" if "a < b" "b < length ks" for a b
      using "1.prems"(1) that by (simp add: sorted_wrt_iff_nth_less)
    define base' where "base' = (if ks ! mid > k then base else mid)"
    have jlen: "j < length ks" using j "1.prems"(2) by simp
    have "base' \<le> j \<and> j < base' + (sz - half)"
    proof (cases "ks ! mid > k")
      case True
      then have "j < mid" using lt j(3) jlen by (metis linorder_neqE_nat order_less_asym)
      then show ?thesis using True j half by (auto simp: base'_def mid_def half_def)
    next
      case False
      then have "mid \<le> j" using lt j(3) mid by (metis not_le)
      then show ?thesis using False j half by (auto simp: base'_def mid_def)
    qed
    moreover have "base' + (sz - half) \<le> length ks"
      using "1.prems"(2) half by (auto simp: base'_def mid_def)
    moreover have "0 < sz - half" using half by simp
    ultimately have "ks ! bsearch_loop ks k base' (sz - half) = k
      \<and> bsearch_loop ks k base' (sz - half) < length ks"
      using "1.IH"[OF True half_def mid_def] "1.prems"(1) j(3) unfolding base'_def by blast
    moreover have "bsearch_loop ks k base sz = bsearch_loop ks k base' (sz - half)"
      using True by (subst bsearch_loop.simps) (simp add: base'_def mid_def half_def Let_def)
    ultimately show ?thesis by simp
  qed
qed

lemma bsearch_loop_range:
  "0 < sz \<Longrightarrow> base + sz \<le> length ks \<Longrightarrow> bsearch_loop ks k base sz < length ks"
proof (induction ks k base sz rule: bsearch_loop.induct)
  case (1 ks k base sz)
  then show ?case
    by (subst bsearch_loop.simps) (auto simp: Let_def)
qed

lemma binary_search_Some:
  "binary_search ks k = Some i \<Longrightarrow> i < length ks \<and> ks ! i = k"
  using bsearch_loop_range[of "length ks" 0 ks k]
  by (auto simp: binary_search_def Let_def split: if_splits)

lemma binary_search_found:
  assumes "sorted_wrt (<) ks" and "i < length ks"
  shows "binary_search ks (ks ! i) = Some i"
proof -
  let ?r = "bsearch_loop ks (ks ! i) 0 (length ks)"
  have r: "ks ! ?r = ks ! i" "?r < length ks"
    using bsearch_loop_correct[OF assms(1), of 0 "length ks" "ks ! i"] assms(2)
    by (auto dest: length_pos_if_in_set[OF nth_mem])
  have "?r = i"
    using assms(1) r assms(2)
    by (metis linorder_neqE_nat order_less_irrefl sorted_wrt_nth_less)
  with r assms(2) show ?thesis by (auto simp: binary_search_def Let_def)
qed

lemma binary_search_None:
  assumes "sorted_wrt (<) ks"
  shows "binary_search ks k = None \<longleftrightarrow> k \<notin> set ks"
proof
  assume "binary_search ks k = None"
  then show "k \<notin> set ks"
    using binary_search_found[OF assms] by (metis in_set_conv_nth option.distinct(1))
next
  assume "k \<notin> set ks"
  then show "binary_search ks k = None"
    using binary_search_Some[of ks k] by (cases "binary_search ks k") auto
qed

end
