(* ===== verification/Row_Types.thy ===== *)
theory Row_Types
  imports Prelude
begin

text \<open>
  Rows, row identities and record locations (\<^verbatim>\<open>row/moonlink_type.rs\<close>,
  \<^verbatim>\<open>row/moonlink_row.rs\<close>, \<^verbatim>\<open>storage/storage_utils.rs\<close>). Floats are kept as their bit
  patterns, with the IEEE equality of \<^verbatim>\<open>PartialEq\<close> written out. The \<^verbatim>\<open>AHasher\<close> of the
  ahash crate is a parameter: a function from the sequence of items that the
  \<^verbatim>\<open>Hash\<close> implementations feed to it.
\<close>

unbundle bit_operations_syntax

section \<open>Row values\<close>

datatype row_value =
    Int32 "32 word"
  | Int64 "64 word"
  | Float32 "32 word"
  | Float64 "64 word"
  | Decimal "128 word"
  | RowBool bool
  | ByteArray "u8 list"
  | FixedLenByteArray "u8 list"
  | RowArray "row_value list"
  | RowStruct "row_value list"
  | RowNull

definition f32_is_nan :: "32 word \<Rightarrow> bool" where
  "f32_is_nan w \<longleftrightarrow> (w AND 0x7FFFFFFF) > 0x7F800000"

definition f64_is_nan :: "64 word \<Rightarrow> bool" where
  "f64_is_nan w \<longleftrightarrow> (w AND 0x7FFFFFFFFFFFFFFF) > 0x7FF0000000000000"

definition f32_eq :: "32 word \<Rightarrow> 32 word \<Rightarrow> bool" where
  "f32_eq a b \<longleftrightarrow> \<not> f32_is_nan a \<and> \<not> f32_is_nan b
     \<and> (a = b \<or> (a AND 0x7FFFFFFF) = 0 \<and> (b AND 0x7FFFFFFF) = 0)"

definition f64_eq :: "64 word \<Rightarrow> 64 word \<Rightarrow> bool" where
  "f64_eq a b \<longleftrightarrow> \<not> f64_is_nan a \<and> \<not> f64_is_nan b
     \<and> (a = b \<or> (a AND 0x7FFFFFFFFFFFFFFF) = 0 \<and> (b AND 0x7FFFFFFFFFFFFFFF) = 0)"

text \<open>The derived \<^verbatim>\<open>PartialEq\<close>: structural, except for the floats.\<close>

fun row_value_eq :: "row_value \<Rightarrow> row_value \<Rightarrow> bool"
  and row_values_eq :: "row_value list \<Rightarrow> row_value list \<Rightarrow> bool" where
  "row_value_eq (Float32 a) w = (case w of Float32 b \<Rightarrow> f32_eq a b | _ \<Rightarrow> False)"
| "row_value_eq (Float64 a) w = (case w of Float64 b \<Rightarrow> f64_eq a b | _ \<Rightarrow> False)"
| "row_value_eq (RowArray xs) w = (case w of RowArray ys \<Rightarrow> row_values_eq xs ys | _ \<Rightarrow> False)"
| "row_value_eq (RowStruct xs) w = (case w of RowStruct ys \<Rightarrow> row_values_eq xs ys | _ \<Rightarrow> False)"
| "row_value_eq v w = (v = w)"
| "row_values_eq [] ys = (ys = [])"
| "row_values_eq (x # xs) ys =
     (case ys of [] \<Rightarrow> False | y # ys' \<Rightarrow> row_value_eq x y \<and> row_values_eq xs ys')"

definition to_u64_key :: "row_value \<Rightarrow> u64 res" where
  "to_u64_key v = (case v of
       Int32 x \<Rightarrow> Ok (scast x)
     | Int64 x \<Rightarrow> Ok x
     | Float32 x \<Rightarrow> Ok (ucast x)
     | Float64 x \<Rightarrow> Ok x
     | RowBool b \<Rightarrow> Ok (if b then 1 else 0)
     | _ \<Rightarrow> Panic ExplicitPanic)"

text \<open>What \<^verbatim>\<open>Hash for RowValue\<close> feeds to the hasher, item by item.\<close>

datatype hash_item =
    HDiscriminant nat
  | HI32 "32 word"
  | HI64 "64 word"
  | HU32 "32 word"
  | HU64 "64 word"
  | HI128 "128 word"
  | HBool bool
  | HLen nat
  | HBytes "u8 list"

fun hash_row_value :: "row_value \<Rightarrow> hash_item list" where
  "hash_row_value (Int32 x) = [HDiscriminant 0, HI32 x]"
| "hash_row_value (Int64 x) = [HDiscriminant 1, HI64 x]"
| "hash_row_value (Float32 x) = [HDiscriminant 2, HU32 x]"
| "hash_row_value (Float64 x) = [HDiscriminant 3, HU64 x]"
| "hash_row_value (Decimal x) = [HDiscriminant 4, HI128 x]"
| "hash_row_value (RowBool b) = [HDiscriminant 5, HBool b]"
| "hash_row_value (ByteArray bs) = [HDiscriminant 6, HLen (length bs), HBytes bs]"
| "hash_row_value (FixedLenByteArray bs) = [HDiscriminant 7, HLen (length bs), HBytes bs]"
| "hash_row_value (RowArray vs) =
     HDiscriminant 8 # HLen (length vs) # concat (map hash_row_value vs)"
| "hash_row_value (RowStruct vs) =
     HDiscriminant 9 # HLen (length vs) # concat (map hash_row_value vs)"
| "hash_row_value RowNull = [HDiscriminant 10]"

section \<open>Rows and identities\<close>

record moonlink_row =
  row_values :: "row_value list"

datatype identity_prop =
    SinglePrimitiveKey nat
  | Keys "nat list"
  | FullRow
  | IdentityNone

definition is_extracted_identity_row :: "moonlink_row \<Rightarrow> identity_prop \<Rightarrow> bool res" where
  "is_extracted_identity_row row ident = (case ident of
       SinglePrimitiveKey _ \<Rightarrow> Panic ExplicitPanic
     | Keys indices \<Rightarrow> Ok (length (row_values row) = length indices)
     | FullRow \<Rightarrow> Ok True
     | IdentityNone \<Rightarrow> Panic ExplicitPanic)"

text \<open>
  \<^verbatim>\<open>Iterator::eq\<close> on the identity values and the lazily projected columns: it stops at
  the first difference, so a later key index that is out of range is only reached when
  everything before it matched.
\<close>

fun eq_projected :: "row_value list \<Rightarrow> row_value list \<Rightarrow> nat list \<Rightarrow> bool res" where
  "eq_projected [] other [] = Ok True"
| "eq_projected [] other (k # ks) = res_bind (index_res other k) (\<lambda>_. Ok False)"
| "eq_projected (v # vs) other [] = Ok False"
| "eq_projected (v # vs) other (k # ks) =
     res_bind (index_res other k) (\<lambda>w.
       if row_value_eq v w then eq_projected vs other ks else Ok False)"

definition equals_moonlink_row ::
    "moonlink_row \<Rightarrow> moonlink_row \<Rightarrow> identity_prop \<Rightarrow> bool res" where
  "equals_moonlink_row self other ident = (case ident of
       Keys keys \<Rightarrow>
         check (length (row_values self) = length keys) AssertFailed
           (eq_projected (row_values self) (row_values other) keys)
     | FullRow \<Rightarrow> Ok (row_values_eq (row_values self) (row_values other))
     | SinglePrimitiveKey _ \<Rightarrow> Panic ExplicitPanic
     | IdentityNone \<Rightarrow> Panic ExplicitPanic)"

definition get_key_indices :: "identity_prop \<Rightarrow> nat \<Rightarrow> nat list res" where
  "get_key_indices ident col_num = (case ident of
       SinglePrimitiveKey index \<Rightarrow> Ok [index]
     | Keys key_indices \<Rightarrow> Ok key_indices
     | FullRow \<Rightarrow> Ok [0..<col_num]
     | IdentityNone \<Rightarrow> Panic ExplicitPanic)"

text \<open>
  \<^verbatim>\<open>IdentityProp::new_key\<close>; \<open>width i\<close> is the primitive width arrow reports for
  column \<open>i\<close>, \<open>None\<close> for a column that is not of a primitive type.
\<close>

definition new_key :: "nat list \<Rightarrow> (nat \<Rightarrow> nat option) \<Rightarrow> identity_prop" where
  "new_key columns width =
     (let columns = sort columns
      in if length columns = 1 then
           (if width (columns ! 0) \<in> {Some 1, Some 2, Some 4, Some 8}
            then SinglePrimitiveKey (columns ! 0) else Keys columns)
         else Keys columns)"

text \<open>
  \<^verbatim>\<open>extract_identity_columns\<close> moves each value out of the row with \<^verbatim>\<open>take\<close>, which
  leaves the default \<^verbatim>\<open>Null\<close> behind.
\<close>

fun take_columns :: "row_value list \<Rightarrow> nat list \<Rightarrow> row_value list res" where
  "take_columns vs [] = Ok []"
| "take_columns vs (k # ks) =
     res_bind (index_res vs k) (\<lambda>v.
     res_bind (take_columns (vs[k := RowNull]) ks) (\<lambda>rest. Ok (v # rest)))"

definition extract_identity_columns ::
    "identity_prop \<Rightarrow> moonlink_row \<Rightarrow> moonlink_row option res" where
  "extract_identity_columns ident row = (case ident of
       SinglePrimitiveKey _ \<Rightarrow> Ok None
     | Keys keys \<Rightarrow>
         res_bind (take_columns (row_values row) keys) (\<lambda>vs. Ok (Some \<lparr>row_values = vs\<rparr>))
     | FullRow \<Rightarrow> Ok (Some row)
     | IdentityNone \<Rightarrow> Panic ExplicitPanic)"

definition extract_identity_for_key ::
    "identity_prop \<Rightarrow> moonlink_row \<Rightarrow> moonlink_row option res" where
  "extract_identity_for_key ident row = (case ident of
       Keys keys \<Rightarrow>
         res_bind (res_map (index_res (row_values row)) keys)
           (\<lambda>vs. Ok (Some \<lparr>row_values = vs\<rparr>))
     | _ \<Rightarrow> Ok None)"

definition get_lookup_key ::
    "(hash_item list \<Rightarrow> u64) \<Rightarrow> identity_prop \<Rightarrow> moonlink_row \<Rightarrow> u64 res" where
  "get_lookup_key ahash ident row = (case ident of
       SinglePrimitiveKey key \<Rightarrow> res_bind (index_res (row_values row) key) to_u64_key
     | Keys keys \<Rightarrow>
         res_bind (res_map (index_res (row_values row)) keys)
           (\<lambda>vs. Ok (ahash (concat (map hash_row_value vs))))
     | FullRow \<Rightarrow> Ok (ahash (concat (map hash_row_value (row_values row))))
     | IdentityNone \<Rightarrow> Ok 0)"

definition get_lookup_key_from_identity_row ::
    "(hash_item list \<Rightarrow> u64) \<Rightarrow> identity_prop \<Rightarrow> moonlink_row \<Rightarrow> u64 res" where
  "get_lookup_key_from_identity_row ahash ident row = (case ident of
       SinglePrimitiveKey _ \<Rightarrow> res_bind (index_res (row_values row) 0) to_u64_key
     | Keys keys \<Rightarrow>
         check (length (row_values row) = length keys) AssertFailed
           (res_bind (res_map (index_res (row_values row)) [0..<length keys])
             (\<lambda>vs. Ok (ahash (concat (map hash_row_value vs)))))
     | FullRow \<Rightarrow> Ok (ahash (concat (map hash_row_value (row_values row))))
     | IdentityNone \<Rightarrow> Ok 0)"

definition requires_identity_check_in_mem_slice :: "identity_prop \<Rightarrow> bool res" where
  "requires_identity_check_in_mem_slice ident = (case ident of
       SinglePrimitiveKey _ \<Rightarrow> Ok False
     | Keys _ \<Rightarrow> Ok False
     | FullRow \<Rightarrow> Ok True
     | IdentityNone \<Rightarrow> Panic ExplicitPanic)"

section \<open>Files, record locations and deletion records\<close>

datatype file_id = FileId u64

datatype table_id = TableId u32

record table_unique_file_id =
  tuf_table_id :: table_id
  tuf_file_id :: file_id

record mooncake_data_file =
  file_id :: file_id
  file_path :: string

text \<open>\<^verbatim>\<open>MooncakeDataFile\<close> compares by file id only.\<close>

definition data_file_eq :: "mooncake_data_file \<Rightarrow> mooncake_data_file \<Rightarrow> bool" where
  "data_file_eq a b \<longleftrightarrow> file_id a = file_id b"

definition LOCAL_FILE_ID_BASE :: u64 where
  "LOCAL_FILE_ID_BASE = 10000000000000000"

definition NUM_FILES_PER_FLUSH :: u64 where
  "NUM_FILES_PER_FLUSH = 100"

text \<open>The product and the sums are \<^verbatim>\<open>u64\<close> operations that panic on overflow.\<close>

definition checked_mul :: "'a::len word \<Rightarrow> 'a word \<Rightarrow> 'a word res" where
  "checked_mul a b =
     (if unat a * unat b < 2 ^ LENGTH('a) then Ok (a * b) else Panic Overflow)"

definition get_unique_file_id_for_flush :: "u64 \<Rightarrow> u64 \<Rightarrow> u64 res" where
  "get_unique_file_id_for_flush table_auto_incr_id file_idx =
     check (file_idx < NUM_FILES_PER_FLUSH) AssertFailed
       (res_bind (checked_mul table_auto_incr_id NUM_FILES_PER_FLUSH) (\<lambda>m.
        res_bind (checked_add LOCAL_FILE_ID_BASE m) (\<lambda>b. checked_add b file_idx)))"

definition create_data_file :: "u64 \<Rightarrow> string \<Rightarrow> mooncake_data_file" where
  "create_data_file fid path = \<lparr>file_id = FileId fid, file_path = path\<rparr>"

datatype record_location =
    MemoryBatch u64 nat
  | DiskFile file_id nat

definition get_file_id :: "record_location \<Rightarrow> file_id option" where
  "get_file_id loc = (case loc of DiskFile f _ \<Rightarrow> Some f | MemoryBatch _ _ \<Rightarrow> None)"

definition get_row_idx :: "record_location \<Rightarrow> nat" where
  "get_row_idx loc = (case loc of DiskFile _ r \<Rightarrow> r | MemoryBatch _ r \<Rightarrow> r)"

text \<open>The two conversions between locations in memory and \<^verbatim>\<open>(u64, usize)\<close> pairs.\<close>

definition location_into_pair :: "record_location \<Rightarrow> (u64 \<times> nat) res" where
  "location_into_pair loc =
     (case loc of MemoryBatch b r \<Rightarrow> Ok (b, r) | DiskFile _ _ \<Rightarrow> Panic ExplicitPanic)"

definition location_from_pair :: "u64 \<times> nat \<Rightarrow> record_location" where
  "location_from_pair p = MemoryBatch (fst p) (snd p)"

record raw_deletion_record =
  rd_lookup_key :: u64
  rd_row_identity :: "moonlink_row option"
  rd_pos :: "(u64 \<times> nat) option"
  rd_lsn :: nat
  rd_delete_if_exists :: bool

record processed_deletion_record =
  pd_pos :: record_location
  pd_lsn :: nat

section \<open>Lemmas\<close>

lemma checked_mul_eq_Ok [simp, res_simps]:
  "checked_mul a b = Ok c \<longleftrightarrow> unat a * unat b < 2 ^ LENGTH('a) \<and> c = a * b"
  for a :: "'a::len word"
  by (auto simp: checked_mul_def)

lemma res_map_index_res:
  "(\<forall>k \<in> set ks. k < length vs) \<Longrightarrow> res_map (index_res vs) ks = Ok (map ((!) vs) ks)"
  by (induction ks) auto

lemma take_columns_distinct:
  "distinct ks \<Longrightarrow> take_columns vs ks = res_map (index_res vs) ks"
proof (induction ks arbitrary: vs)
  case Nil
  then show ?case by simp
next
  case (Cons k ks)
  have *: "res_map (index_res (vs[k := RowNull])) ks = res_map (index_res vs) ks"
    if "k \<notin> set ks" for ks
    using that by (induction ks) (auto simp: index_res_def)
  from Cons show ?case by (simp add: *)
qed

lemma map_nth_self: "map ((!) vs) [0..<length vs] = vs"
  by (rule map_nth)

lemma eq_projected_map:
  "(\<forall>k \<in> set ks. k < length other) \<Longrightarrow>
   eq_projected (map ((!) other) ks) other ks =
   Ok (\<forall>k \<in> set ks. row_value_eq (other ! k) (other ! k))"
  by (induction ks) auto

text \<open>
  The two ways of projecting a row to its identity agree. For a key identity with
  distinct in-range columns, moving the columns out of a deleted row gives the same
  identity row as copying them from an appended row, and hashing that projected row
  gives the lookup key of the whole row: a delete looks up the key its insert used.
\<close>

lemma identity_projection_consistent:
  assumes "distinct keys" and "\<forall>k \<in> set keys. k < length (row_values row)"
  shows "\<exists>ir. extract_identity_columns (Keys keys) row = Ok (Some ir)
    \<and> extract_identity_for_key (Keys keys) row = Ok (Some ir)
    \<and> row_values ir = map ((!) (row_values row)) keys
    \<and> get_lookup_key_from_identity_row ahash (Keys keys) ir
        = get_lookup_key ahash (Keys keys) row
    \<and> is_ok (get_lookup_key ahash (Keys keys) row)"
proof -
  let ?vs = "map ((!) (row_values row)) keys"
  have "res_map (index_res ?vs) [0..<length keys] = Ok ?vs"
    using map_nth_self[of ?vs] by (subst res_map_index_res) auto
  then have "get_lookup_key_from_identity_row ahash (Keys keys) \<lparr>row_values = ?vs\<rparr>
      = Ok (ahash (concat (map hash_row_value ?vs)))"
    by (simp add: get_lookup_key_from_identity_row_def)
  with assms show ?thesis
    by (simp add: extract_identity_columns_def extract_identity_for_key_def
        get_lookup_key_def take_columns_distinct res_map_index_res)
qed

lemma identity_projection_consistent_witness:
  "\<exists>ir. extract_identity_columns (Keys [0, 2]) \<lparr>row_values = [Int32 7, RowNull, Int64 9]\<rparr>
      = Ok (Some ir) \<and> row_values ir = [Int32 7, Int64 9]"
  using identity_projection_consistent[of "[0, 2]"
      "\<lparr>row_values = [Int32 7, RowNull, Int64 9]\<rparr>" "\<lambda>_. 0"]
  by auto

end
