(* ===== verification/Batch_Id.thy ===== *)
theory Batch_Id
  imports Prelude
begin

text \<open>
  The two batch-id counters (\<^verbatim>\<open>storage/mooncake_table/batch_id_counter.rs\<close>). A counter
  is an atomic \<^verbatim>\<open>u64\<close>; the streaming one starts at 0 and must stay below \<open>2 ^ 63\<close>, the
  non-streaming one starts there. The contract \<open>id_source\<close> is what the column store
  relies on when it names its batches.
\<close>

section \<open>Model\<close>

definition STREAMING_BATCH_ID_MAX :: u64 where
  "STREAMING_BATCH_ID_MAX = 2 ^ 63"

record batch_id_counter =
  counter :: u64
  is_streaming :: bool

definition new_batch_id_counter :: "bool \<Rightarrow> batch_id_counter" where
  "new_batch_id_counter streaming =
     \<lparr>counter = (if streaming then 0 else STREAMING_BATCH_ID_MAX), is_streaming = streaming\<rparr>"

definition load_counter :: "batch_id_counter \<Rightarrow> u64" where
  "load_counter c = counter c"

text \<open>The limit check on the loaded value, and the atomic increment, which wraps.\<close>

definition below_limit :: "bool \<Rightarrow> u64 \<Rightarrow> bool" where
  "below_limit streaming current \<longleftrightarrow>
     (if streaming then current < STREAMING_BATCH_ID_MAX else current < - 1)"

definition fetch_add :: "batch_id_counter \<Rightarrow> u64 \<times> batch_id_counter" where
  "fetch_add c = (counter c, c\<lparr>counter := counter c + 1\<rparr>)"

definition get_and_next :: "batch_id_counter \<Rightarrow> (u64 \<times> batch_id_counter) res" where
  "get_and_next c =
     (let current = load_counter c
      in check (below_limit (is_streaming c) current) AssertFailed (Ok (fetch_add c)))"

section \<open>The contract of an id source\<close>

locale id_source =
  fixes next_id :: "'c \<Rightarrow> (u64 \<times> 'c) res"
    and position :: "'c \<Rightarrow> nat"
  assumes next_id_position: "next_id c = Ok (i, c') \<Longrightarrow> unat i = position c"
    and next_id_advance: "next_id c = Ok (i, c') \<Longrightarrow> position c' = Suc (position c)"
    and next_id_bound: "next_id c = Ok (i, c') \<Longrightarrow> Suc (position c) < 2 ^ 64"
begin

fun draw :: "nat \<Rightarrow> 'c \<Rightarrow> (u64 list \<times> 'c) res" where
  "draw 0 c = Ok ([], c)"
| "draw (Suc n) c =
     res_bind (next_id c) (\<lambda>(i, c').
     res_bind (draw n c') (\<lambda>(is, c''). Ok (i # is, c'')))"

lemma draw_consecutive:
  "draw n c = Ok (ids, c') \<Longrightarrow>
   map unat ids = [position c ..< position c + n] \<and> position c' = position c + n"
proof (induction n arbitrary: c ids)
  case 0
  then show ?case by simp
next
  case (Suc n)
  from Suc.prems obtain i d js where
    step: "next_id c = Ok (i, d)" "draw n d = Ok (js, c')" "ids = i # js"
    by (auto split: prod.splits)
  from Suc.IH[OF step(2)] next_id_position[OF step(1)] next_id_advance[OF step(1)] step(3)
  show ?case by (simp add: upt_conv_Cons)
qed

lemma draw_distinct:
  assumes "draw n c = Ok (ids, c')"
  shows "distinct ids \<and> sorted_wrt (<) ids"
proof -
  have *: "map unat ids = [position c ..< position c + n]"
    using draw_consecutive[OF assms] by simp
  have "sorted_wrt (<) (map unat ids)" unfolding * by simp
  then have "sorted_wrt (<) ids"
    by (rule sorted_wrt_mono_rel[rotated, OF iffD1[OF sorted_wrt_map]])
      (simp add: word_less_nat_alt)
  then show ?thesis by (simp add: strict_sorted_iff)
qed

lemma next_id_plus_one:
  assumes "next_id c = Ok (i, c')"
  shows "checked_add i 1 = Ok (i + 1)" and "unat (i + 1) = position c'"
proof -
  have "unat i + 1 < 2 ^ 64"
    using next_id_position[OF assms] next_id_bound[OF assms] by simp
  then show "checked_add i 1 = Ok (i + 1)" by simp
  then show "unat (i + 1) = position c'"
    using next_id_position[OF assms] next_id_advance[OF assms]
      unat_checked_add[of i 1 "i + 1"] by simp
qed

end

section \<open>The counter is an id source\<close>

lemma unat_u64_max: "unat (- 1 :: u64) = 18446744073709551615"
  by (simp add: unsigned_minus_1_eq_mask mask_eq_exp_minus_1)

lemma unat_u64_of_nat: "k < 2 ^ 64 \<Longrightarrow> unat (word_of_nat k :: u64) = k"
  by (simp add: unsigned_of_nat take_bit_nat_eq_self)

lemma get_and_next_facts:
  assumes "get_and_next c = Ok (i, c')"
  shows "i = counter c" and "unat (counter c') = Suc (unat (counter c))"
    and "is_streaming c' = is_streaming c"
    and "is_streaming c \<Longrightarrow> unat i < 2 ^ 63"
    and "Suc (unat (counter c)) < 2 ^ 64"
proof -
  have lim: "below_limit (is_streaming c) (counter c)" and
    eqs: "i = counter c" "c' = c\<lparr>counter := counter c + 1\<rparr>"
    using assms by (auto simp: get_and_next_def Let_def load_counter_def fetch_add_def)
  show "i = counter c" "is_streaming c' = is_streaming c" using eqs by simp_all
  show str: "unat i < 2 ^ 63" if "is_streaming c"
    using lim that eqs(1)
    by (simp add: below_limit_def STREAMING_BATCH_ID_MAX_def word_less_nat_alt)
  show bound: "Suc (unat (counter c)) < 2 ^ 64"
  proof (cases "is_streaming c")
    case True
    then show ?thesis using str eqs(1) by simp
  next
    case False
    then show ?thesis
      using lim by (simp add: below_limit_def word_less_nat_alt unat_u64_max)
  qed
  then show "unat (counter c') = Suc (unat (counter c))"
    using eqs(2) by (simp add: unat_word_ariths)
qed

interpretation batch_ids: id_source get_and_next "\<lambda>c. unat (counter c)"
  by unfold_locales (auto dest: get_and_next_facts(1,2,5))

lemma streaming_draw_bound:
  "batch_ids.draw n c = Ok (ids, c') \<Longrightarrow> is_streaming c \<Longrightarrow>
   \<forall>i \<in> set ids. i < STREAMING_BATCH_ID_MAX"
proof (induction n arbitrary: c ids)
  case 0
  then show ?case by simp
next
  case (Suc n)
  from Suc.prems obtain i d js where
    step: "get_and_next c = Ok (i, d)" "batch_ids.draw n d = Ok (js, c')" "ids = i # js"
    by (auto split: prod.splits)
  have "i < STREAMING_BATCH_ID_MAX"
    using get_and_next_facts(4)[OF step(1)] Suc.prems(2)
    by (simp add: STREAMING_BATCH_ID_MAX_def word_less_nat_alt)
  with Suc.IH[OF step(2)] get_and_next_facts(3)[OF step(1)] Suc.prems(2) step(3)
  show ?case by simp
qed

lemma draw_from_new:
  "batch_ids.draw n (new_batch_id_counter s) = Ok (ids, c') \<Longrightarrow>
   \<forall>i \<in> set ids. (i < STREAMING_BATCH_ID_MAX) = s"
proof (cases s)
  case True
  assume "batch_ids.draw n (new_batch_id_counter s) = Ok (ids, c')"
  with True show ?thesis
    using streaming_draw_bound by (auto simp: new_batch_id_counter_def)
next
  case False
  assume "batch_ids.draw n (new_batch_id_counter s) = Ok (ids, c')"
  then have "set (map unat ids) \<subseteq> {2 ^ 63..}"
    using False batch_ids.draw_consecutive
    by (fastforce simp: new_batch_id_counter_def STREAMING_BATCH_ID_MAX_def)
  with False show ?thesis
    by (auto simp: STREAMING_BATCH_ID_MAX_def word_less_nat_alt)
qed

text \<open>
  C27: ids never collide. Whatever numbers of ids are drawn from a fresh streaming and
  a fresh non-streaming counter, each sequence is strictly increasing, the two share no
  id, and every streaming id is smaller than every non-streaming one.
\<close>

theorem batch_ids_partitioned:
  assumes "batch_ids.draw m (new_batch_id_counter True) = Ok (xs, c)"
    and "batch_ids.draw n (new_batch_id_counter False) = Ok (ys, d)"
  shows "sorted_wrt (<) xs \<and> sorted_wrt (<) ys \<and> distinct (xs @ ys)
    \<and> (\<forall>x \<in> set xs. \<forall>y \<in> set ys. x < y)"
proof -
  have x: "\<forall>i \<in> set xs. i < STREAMING_BATCH_ID_MAX" and
    y: "\<forall>i \<in> set ys. \<not> i < STREAMING_BATCH_ID_MAX"
    using draw_from_new[OF assms(1)] draw_from_new[OF assms(2)] by simp_all
  have lt: "\<forall>x \<in> set xs. \<forall>y \<in> set ys. x < y"
    using x y by (meson linorder_not_less order_less_le_trans)
  then have "set xs \<inter> set ys = {}" by auto
  with lt show ?thesis
    using batch_ids.draw_distinct[OF assms(1)] batch_ids.draw_distinct[OF assms(2)] by simp
qed

theorem batch_ids_partitioned_witness:
  "distinct ([0, 1] @ [2 ^ 63 :: u64]) \<and> (0 :: u64) < 2 ^ 63"
proof -
  have "batch_ids.draw (Suc (Suc 0)) (new_batch_id_counter True) =
      Ok ([0, 1], \<lparr>counter = 2, is_streaming = True\<rparr>)"
    and "batch_ids.draw (Suc 0) (new_batch_id_counter False) =
      Ok ([2 ^ 63], \<lparr>counter = 2 ^ 63 + 1, is_streaming = False\<rparr>)"
    by (simp_all add: get_and_next_def load_counter_def fetch_add_def
        below_limit_def STREAMING_BATCH_ID_MAX_def new_batch_id_counter_def)
  from batch_ids_partitioned[OF this] show ?thesis by simp
qed

section \<open>Interleaved callers\<close>

text \<open>
  The load and the increment are separate atomic operations. In the step relation below,
  a caller first loads (and passes the check), and later increments; other callers may
  act in between. \<open>pending\<close> counts the callers between the two operations.
\<close>

record counter_run =
  cell :: batch_id_counter
  pending :: nat
  issued :: "u64 list"

inductive counter_step :: "counter_run \<Rightarrow> counter_run \<Rightarrow> bool" where
  load_step: "below_limit (is_streaming (cell r)) (load_counter (cell r)) \<Longrightarrow>
     counter_step r (r\<lparr>pending := Suc (pending r)\<rparr>)"
| add_step: "pending r = Suc k \<Longrightarrow> fetch_add (cell r) = (i, c') \<Longrightarrow>
     counter_step r (r\<lparr>cell := c', pending := k, issued := i # issued r\<rparr>)"

definition run_start :: "bool \<Rightarrow> counter_run" where
  "run_start s = \<lparr>cell = new_batch_id_counter s, pending = 0, issued = []\<rparr>"

lemma counter_run_issued:
  "counter_step\<^sup>*\<^sup>* (run_start s) r \<Longrightarrow>
   issued r = rev (map (\<lambda>k. counter (new_batch_id_counter s) + word_of_nat k)
     [0..<length (issued r)])
   \<and> counter (cell r) = counter (new_batch_id_counter s) + word_of_nat (length (issued r))"
proof (induction rule: rtranclp_induct)
  case base
  then show ?case by (simp add: run_start_def)
next
  case (step r t)
  from step(2) show ?case
  proof cases
    case load_step
    then show ?thesis using step.IH by simp
  next
    case (add_step k i c')
    then have t: "issued t = counter (cell r) # issued r"
      and c: "counter (cell t) = counter (cell r) + 1"
      by (auto simp: fetch_add_def)
    show ?thesis
      unfolding t c using step.IH by (simp add: algebra_simps)
  qed
qed

text \<open>
  C28: also when callers interleave between the load and the increment, no id is issued
  twice, as long as fewer than \<open>2 ^ 64\<close> ids are issued in all.
\<close>

theorem interleaved_ids_distinct:
  assumes "counter_step\<^sup>*\<^sup>* (run_start s) r" and "length (issued r) < 2 ^ 64"
  shows "distinct (issued r)"
proof -
  let ?b = "counter (new_batch_id_counter s)"
  have "inj_on (\<lambda>k. ?b + word_of_nat k) {0..<length (issued r)}"
  proof (rule inj_onI)
    fix x y
    assume "x \<in> {0..<length (issued r)}" "y \<in> {0..<length (issued r)}"
      and "?b + word_of_nat x = ?b + (word_of_nat y :: u64)"
    then have "(word_of_nat x :: u64) = word_of_nat y" "x < 2 ^ 64" "y < 2 ^ 64"
      using assms(2) by auto
    then show "x = y" by (metis unat_u64_of_nat)
  qed
  then have "distinct (map (\<lambda>k. ?b + word_of_nat k) [0..<length (issued r)])"
    by (simp add: distinct_map)
  then show ?thesis
    using counter_run_issued[OF assms(1)] by (metis distinct_rev)
qed

theorem interleaved_ids_distinct_witness:
  "distinct (issued \<lparr>cell = \<lparr>counter = 2, is_streaming = True\<rparr>, pending = 0,
      issued = [1, 0 :: u64]\<rparr>)"
proof (rule interleaved_ids_distinct)
  let ?c = "\<lambda>k. \<lparr>counter = k, is_streaming = True\<rparr>"
  have "counter_step (run_start True) \<lparr>cell = ?c 0, pending = Suc 0, issued = []\<rparr>"
    using counter_step.load_step[of "run_start True"]
    by (simp add: run_start_def new_batch_id_counter_def below_limit_def load_counter_def
        STREAMING_BATCH_ID_MAX_def)
  moreover have "counter_step \<lparr>cell = ?c 0, pending = Suc 0, issued = []\<rparr>
      \<lparr>cell = ?c 0, pending = Suc (Suc 0), issued = []\<rparr>"
    using counter_step.load_step[of "\<lparr>cell = ?c 0, pending = Suc 0, issued = []\<rparr>"]
    by (simp add: below_limit_def load_counter_def STREAMING_BATCH_ID_MAX_def)
  moreover have "counter_step \<lparr>cell = ?c 0, pending = Suc (Suc 0), issued = []\<rparr>
      \<lparr>cell = ?c 1, pending = Suc 0, issued = [0]\<rparr>"
    using counter_step.add_step[of "\<lparr>cell = ?c 0, pending = Suc (Suc 0), issued = []\<rparr>" "Suc 0"]
    by (simp add: fetch_add_def)
  moreover have "counter_step \<lparr>cell = ?c 1, pending = Suc 0, issued = [0]\<rparr>
      \<lparr>cell = ?c 2, pending = 0, issued = [1, 0]\<rparr>"
    using counter_step.add_step[of "\<lparr>cell = ?c 1, pending = Suc 0, issued = [0]\<rparr>" 0]
    by (simp add: fetch_add_def)
  ultimately show "counter_step\<^sup>*\<^sup>* (run_start True)
      \<lparr>cell = ?c 2, pending = 0, issued = [1, 0]\<rparr>"
    by (meson converse_rtranclp_into_rtranclp rtranclp.rtrancl_refl)
qed simp

end
