(* ===== verification/Deletion_Vector.thy ===== *)
theory Deletion_Vector
  imports Row_Types
begin

text \<open>
  The batch deletion vector (\<^verbatim>\<open>storage/mooncake_table/delete_vector.rs\<close>): a lazily
  allocated bitmap in which a cleared bit marks a deleted row. The bit accessors and the
  batch filter belong to the arrow crate; they are fields of the records
  \<open>arrow_bits\<close> and \<open>arrow_batches\<close>, and what the code relies on is stated in
  \<open>arrow_bits_ok\<close> and \<open>arrow_batches_ok\<close>. The contract \<open>deletion_set\<close> is the
  abstract view the column store uses: a set of row numbers below a capacity.
\<close>

section \<open>Arrow operations\<close>

record arrow_bits =
  get_bit :: "u8 list \<Rightarrow> nat \<Rightarrow> bool res"
  unset_bit :: "u8 list \<Rightarrow> nat \<Rightarrow> u8 list res"

text \<open>A batch \<open>'b\<close>; \<open>None\<close> stands for an \<^verbatim>\<open>ArrowError\<close>.\<close>

record 'b arrow_batches = arrow_bits +
  num_rows :: "'b \<Rightarrow> nat"
  batch_slice :: "'b \<Rightarrow> nat \<Rightarrow> nat \<Rightarrow> 'b res"
  new_from_u8 :: "u8 list \<Rightarrow> bool list"
  bools_slice :: "bool list \<Rightarrow> nat \<Rightarrow> nat \<Rightarrow> bool list res"
  filter_record_batch :: "'b \<Rightarrow> bool list \<Rightarrow> 'b option"

definition byte_bit :: "u8 list \<Rightarrow> nat \<Rightarrow> bool" where
  "byte_bit v i = bit (v ! (i div 8)) (i mod 8)"

definition arrow_bits_ok :: "'z arrow_bits_scheme \<Rightarrow> bool" where
  "arrow_bits_ok ar \<longleftrightarrow>
     (\<forall>v i. i < 8 * length v \<longrightarrow> get_bit ar v i = Ok (byte_bit v i)) \<and>
     (\<forall>v i. i < 8 * length v \<longrightarrow> (\<exists>w. unset_bit ar v i = Ok w \<and> length w = length v \<and>
        (\<forall>j < 8 * length v. byte_bit w j = (j \<noteq> i \<and> byte_bit v j))))"

text \<open>\<open>rows b\<close> is the content of a batch, as a list of rows.\<close>

definition arrow_batches_ok :: "('b, 'z) arrow_batches_scheme \<Rightarrow> ('b \<Rightarrow> 'r list) \<Rightarrow> bool" where
  "arrow_batches_ok ar rows \<longleftrightarrow> arrow_bits_ok ar \<and>
     (\<forall>b. num_rows ar b = length (rows b)) \<and>
     (\<forall>b i n. i + n \<le> length (rows b) \<longrightarrow>
        (\<exists>c. batch_slice ar b i n = Ok c \<and> rows c = take n (drop i (rows b)))) \<and>
     (\<forall>v. new_from_u8 ar v = map (byte_bit v) [0..<8 * length v]) \<and>
     (\<forall>bs i n. i + n \<le> length bs \<longrightarrow> bools_slice ar bs i n = Ok (take n (drop i bs))) \<and>
     (\<forall>b bs. length bs = length (rows b) \<longrightarrow> (\<exists>c. filter_record_batch ar b bs = Some c \<and>
        rows c = map fst (filter snd (zip (rows b) bs))))"

section \<open>Model\<close>

record batch_deletion_vector =
  deletion_vector :: "u8 list option"
  max_rows :: nat

definition new_deletion_vector :: "nat \<Rightarrow> batch_deletion_vector" where
  "new_deletion_vector n = \<lparr>deletion_vector = None, max_rows = n\<rparr>"

definition get_max_rows :: "batch_deletion_vector \<Rightarrow> nat" where
  "get_max_rows d = max_rows d"

definition initialize_vector_for_once ::
    "'z arrow_bits_scheme \<Rightarrow> batch_deletion_vector \<Rightarrow> batch_deletion_vector res" where
  "initialize_vector_for_once ar d =
     (if deletion_vector d \<noteq> None then Ok d
      else let n = max_rows d div 8 + 1
           in res_bind (res_fold (unset_bit ar) (replicate n 0xFF) [max_rows d ..< n * 8])
                (\<lambda>v. Ok (d\<lparr>deletion_vector := Some v\<rparr>)))"

definition delete_row ::
    "'z arrow_bits_scheme \<Rightarrow> batch_deletion_vector \<Rightarrow> nat \<Rightarrow> (bool \<times> batch_deletion_vector) res"
  where
  "delete_row ar d row_idx =
     check (max_rows d > 0) AssertFailed (check (row_idx < max_rows d) AssertFailed (
       res_bind (initialize_vector_for_once ar d) (\<lambda>d.
       unwrap (deletion_vector d) (\<lambda>v.
       res_bind (get_bit ar v row_idx) (\<lambda>exist.
       if exist then
         res_bind (unset_bit ar v row_idx) (\<lambda>w. Ok (exist, d\<lparr>deletion_vector := Some w\<rparr>))
       else Ok (exist, d))))))"

text \<open>The loop over the own bytes, each with the byte of the other vector at its index.\<close>

definition and_bytes :: "u8 list \<Rightarrow> u8 list \<Rightarrow> u8 list res" where
  "and_bytes v w =
     res_map (\<lambda>(i, x). res_bind (index_res w i) (\<lambda>y. Ok (x AND y))) (enumerate 0 v)"

definition merge_with ::
    "'z arrow_bits_scheme \<Rightarrow> batch_deletion_vector \<Rightarrow> batch_deletion_vector \<Rightarrow>
     batch_deletion_vector res" where
  "merge_with ar d rhs =
     check (max_rows d = max_rows rhs) AssertFailed (
       case deletion_vector rhs of
         None \<Rightarrow> Ok d
       | Some w \<Rightarrow>
           res_bind (initialize_vector_for_once ar d) (\<lambda>d.
           unwrap (deletion_vector d) (\<lambda>v.
           res_bind (and_bytes v w) (\<lambda>u. Ok (d\<lparr>deletion_vector := Some u\<rparr>)))))"

definition apply_to_batch_with_slice ::
    "('b, 'z) arrow_batches_scheme \<Rightarrow> batch_deletion_vector \<Rightarrow> 'b \<Rightarrow> nat \<Rightarrow> 'b option res" where
  "apply_to_batch_with_slice ar d batch start_row_idx =
     (case deletion_vector d of
        None \<Rightarrow> Ok (Some batch)
      | Some v \<Rightarrow>
          let end_row_idx = start_row_idx + num_rows ar batch
          in check (end_row_idx \<le> max_rows d) AssertFailed (
               res_bind (bools_slice ar (new_from_u8 ar v) start_row_idx (num_rows ar batch))
                 (\<lambda>flt. Ok (filter_record_batch ar batch flt))))"

definition apply_to_batch ::
    "('b, 'z) arrow_batches_scheme \<Rightarrow> batch_deletion_vector \<Rightarrow> 'b \<Rightarrow> 'b option res" where
  "apply_to_batch ar d batch = apply_to_batch_with_slice ar d batch 0"

definition is_deleted :: "'z arrow_bits_scheme \<Rightarrow> batch_deletion_vector \<Rightarrow> nat \<Rightarrow> bool res" where
  "is_deleted ar d row_idx =
     (case deletion_vector d of
        None \<Rightarrow> Ok False
      | Some v \<Rightarrow> res_bind (get_bit ar v row_idx) (\<lambda>b. Ok (\<not> b)))"

fun filter_res :: "('a \<Rightarrow> bool res) \<Rightarrow> 'a list \<Rightarrow> 'a list res" where
  "filter_res p [] = Ok []"
| "filter_res p (x # xs) =
     res_bind (p x) (\<lambda>b. res_bind (filter_res p xs) (\<lambda>ys. Ok (if b then x # ys else ys)))"

definition collect_active_rows ::
    "'z arrow_bits_scheme \<Rightarrow> batch_deletion_vector \<Rightarrow> nat \<Rightarrow> nat list res" where
  "collect_active_rows ar d total_rows =
     (case deletion_vector d of
        None \<Rightarrow> Ok [0..<total_rows]
      | Some v \<Rightarrow> filter_res (get_bit ar v) [0..<total_rows])"

text \<open>
  The scan of the bitmap: a byte without deletions is skipped, and the bit loop breaks at
  the first row number past the capacity.
\<close>

fun deleted_in_byte :: "nat \<Rightarrow> nat \<Rightarrow> u8 \<Rightarrow> nat list \<Rightarrow> nat list" where
  "deleted_in_byte n byte_idx b [] = []"
| "deleted_in_byte n byte_idx b (k # ks) =
     (let row_idx = byte_idx * 8 + k
      in if row_idx \<ge> n then []
         else if b AND push_bit k 1 = 0 then row_idx # deleted_in_byte n byte_idx b ks
         else deleted_in_byte n byte_idx b ks)"

fun deleted_from :: "nat \<Rightarrow> nat \<Rightarrow> u8 list \<Rightarrow> nat list" where
  "deleted_from n byte_idx [] = []"
| "deleted_from n byte_idx (b # bs) =
     (if b = 0xFF then deleted_from n (Suc byte_idx) bs
      else deleted_in_byte n byte_idx b [0..<8] @ deleted_from n (Suc byte_idx) bs)"

definition collect_deleted_rows :: "batch_deletion_vector \<Rightarrow> nat list" where
  "collect_deleted_rows d =
     (case deletion_vector d of None \<Rightarrow> [] | Some v \<Rightarrow> deleted_from (max_rows d) 0 v)"

fun count_in_byte :: "nat \<Rightarrow> nat \<Rightarrow> u8 \<Rightarrow> nat list \<Rightarrow> nat \<Rightarrow> nat" where
  "count_in_byte n byte_idx b [] deleted = deleted"
| "count_in_byte n byte_idx b (k # ks) deleted =
     (let row_idx = byte_idx * 8 + k
      in if row_idx \<ge> n then deleted
         else count_in_byte n byte_idx b ks
                (if b AND push_bit k 1 = 0 then deleted + 1 else deleted))"

fun count_from :: "nat \<Rightarrow> nat \<Rightarrow> u8 list \<Rightarrow> nat \<Rightarrow> nat" where
  "count_from n byte_idx [] deleted = deleted"
| "count_from n byte_idx (b # bs) deleted =
     count_from n (Suc byte_idx) bs
       (if b = 0xFF then deleted else count_in_byte n byte_idx b [0..<8] deleted)"

definition get_num_rows_deleted :: "batch_deletion_vector \<Rightarrow> nat" where
  "get_num_rows_deleted d =
     (case deletion_vector d of None \<Rightarrow> 0 | Some v \<Rightarrow> count_from (max_rows d) 0 v 0)"

definition deletion_vector_is_empty :: "batch_deletion_vector \<Rightarrow> bool" where
  "deletion_vector_is_empty d \<longleftrightarrow> deletion_vector d = None \<or> collect_deleted_rows d = []"

section \<open>Abstraction and invariant\<close>

definition dv_wf :: "batch_deletion_vector \<Rightarrow> bool" where
  "dv_wf d = (case deletion_vector d of
       None \<Rightarrow> True
     | Some v \<Rightarrow> length v = max_rows d div 8 + 1 \<and>
         (\<forall>i \<in> {max_rows d ..< 8 * length v}. \<not> byte_bit v i))"

definition deleted_rows :: "batch_deletion_vector \<Rightarrow> nat set" where
  "deleted_rows d = (case deletion_vector d of
       None \<Rightarrow> {}
     | Some v \<Rightarrow> {i. i < max_rows d \<and> \<not> byte_bit v i})"

text \<open>Marking a list of rows with an operation that reports success, counting the successes.\<close>

fun mark_all :: "('d \<Rightarrow> nat \<Rightarrow> (bool \<times> 'd) res) \<Rightarrow> 'd \<Rightarrow> nat list \<Rightarrow> (nat \<times> 'd) res" where
  "mark_all mark d [] = Ok (0, d)"
| "mark_all mark d (i # is) =
     res_bind (mark d i) (\<lambda>(b, d').
     res_bind (mark_all mark d' is) (\<lambda>(k, d''). Ok ((if b then Suc k else k), d'')))"

locale deletion_set =
  fixes wf :: "'d \<Rightarrow> bool"
    and capacity :: "'d \<Rightarrow> nat"
    and members :: "'d \<Rightarrow> nat set"
    and mark :: "'d \<Rightarrow> nat \<Rightarrow> (bool \<times> 'd) res"
    and marked :: "'d \<Rightarrow> nat \<Rightarrow> bool res"
  assumes members_bound: "wf d \<Longrightarrow> members d \<subseteq> {..<capacity d}"
    and mark_spec: "wf d \<Longrightarrow> i < capacity d \<Longrightarrow>
      \<exists>d'. mark d i = Ok (i \<notin> members d, d') \<and> wf d' \<and> capacity d' = capacity d \<and>
        members d' = insert i (members d)"
    and mark_range: "mark d i = Ok r \<Longrightarrow> i < capacity d"
    and marked_spec: "wf d \<Longrightarrow> i < capacity d \<Longrightarrow> marked d i = Ok (i \<in> members d)"
begin

lemma mark_all_spec:
  "wf d \<Longrightarrow> \<forall>i \<in> set is. i < capacity d \<Longrightarrow>
   \<exists>d'. mark_all mark d is = Ok (card (set is - members d), d') \<and> wf d'
     \<and> capacity d' = capacity d \<and> members d' = members d \<union> set is"
proof (induction "is" arbitrary: d)
  case Nil
  then show ?case by simp
next
  case (Cons i "is")
  obtain d1 where d1: "mark d i = Ok (i \<notin> members d, d1)" "wf d1"
    "capacity d1 = capacity d" "members d1 = insert i (members d)"
    using mark_spec[OF Cons.prems(1), of i] Cons.prems(2) by auto
  obtain d2 where d2: "mark_all mark d1 is = Ok (card (set is - members d1), d2)" "wf d2"
    "capacity d2 = capacity d1" "members d2 = members d1 \<union> set is"
    using Cons.IH[OF d1(2)] Cons.prems(2) d1(3) by auto
  have "(if i \<notin> members d then Suc (card (set is - members d1))
         else card (set is - members d1)) = card (set (i # is) - members d)"
  proof (cases "i \<in> members d")
    case True
    then have "set (i # is) - members d = set is - members d1" using d1(4) by auto
    then show ?thesis using True by simp
  next
    case False
    then have "set (i # is) - members d = insert i (set is - members d1)" using d1(4) by auto
    then show ?thesis using False d1(4) by simp
  qed
  then show ?case using d1 d2 by auto
qed

lemma mark_twice:
  assumes "wf d" and "mark d i = Ok (b, d')"
  shows "\<exists>d''. mark d' i = Ok (False, d'') \<and> members d'' = members d'"
proof -
  have i: "i < capacity d" using assms(2) by (rule mark_range)
  obtain e where e: "mark d i = Ok (i \<notin> members d, e)" "wf e" "capacity e = capacity d"
    "members e = insert i (members d)"
    using mark_spec[OF assms(1) i] by blast
  then have "e = d'" using assms(2) by simp
  then show ?thesis using mark_spec[of d' i] e i by auto
qed

end

section \<open>The bitmap represents a set\<close>

lemma bit_all_ones: "k < 8 \<Longrightarrow> bit (0xFF :: u8) k"
proof -
  assume "k < 8"
  have "(0xFF :: u8) = mask 8" by (simp add: mask_eq_exp_minus_1)
  with \<open>k < 8\<close> show ?thesis by (simp only: bit_mask_iff) simp
qed

lemma byte_bit_replicate: "i < 8 * n \<Longrightarrow> byte_bit (replicate n 0xFF) i"
proof -
  assume "i < 8 * n"
  then have "i div 8 < n" by auto
  moreover have "bit (0xFF :: u8) (i mod 8)" by (rule bit_all_ones) simp
  ultimately show ?thesis by (simp add: byte_bit_def)
qed

lemma unset_range:
  assumes "arrow_bits_ok ar"
  shows "\<forall>i \<in> set is. i < 8 * length v \<Longrightarrow>
    \<exists>w. res_fold (unset_bit ar) v is = Ok w \<and> length w = length v \<and>
      (\<forall>j < 8 * length v. byte_bit w j = (j \<notin> set is \<and> byte_bit v j))"
proof (induction "is" arbitrary: v)
  case Nil
  then show ?case by simp
next
  case (Cons i "is")
  obtain u where u: "unset_bit ar v i = Ok u" "length u = length v"
    "\<forall>j < 8 * length v. byte_bit u j = (j \<noteq> i \<and> byte_bit v j)"
    using assms Cons.prems unfolding arrow_bits_ok_def by (metis list.set_intros(1))
  obtain w where "res_fold (unset_bit ar) u is = Ok w" "length w = length u"
    "\<forall>j < 8 * length u. byte_bit w j = (j \<notin> set is \<and> byte_bit u j)"
    using Cons.IH[of u] Cons.prems u(2) by auto
  with u show ?case by auto
qed

text \<open>After initialisation the vector exists, is well formed and represents the same set.\<close>

lemma initialize_vector_for_once_ok:
  assumes "arrow_bits_ok ar" and "dv_wf d"
  shows "\<exists>d' v. initialize_vector_for_once ar d = Ok d' \<and> deletion_vector d' = Some v \<and>
    dv_wf d' \<and> max_rows d' = max_rows d \<and> deleted_rows d' = deleted_rows d"
proof (cases "deletion_vector d")
  case (Some v)
  then show ?thesis using assms(2) by (simp add: initialize_vector_for_once_def)
next
  case None
  let ?n = "max_rows d div 8 + 1"
  have lt: "max_rows d < ?n * 8" by simp
  obtain w where w: "res_fold (unset_bit ar) (replicate ?n 0xFF) [max_rows d ..< ?n * 8] = Ok w"
    "length w = ?n"
    "\<forall>j < 8 * ?n. byte_bit w j = (j \<notin> set [max_rows d ..< ?n * 8] \<and> byte_bit (replicate ?n 0xFF) j)"
    using unset_range[OF assms(1), of "[max_rows d ..< ?n * 8]" "replicate ?n 0xFF"] by auto
  have bit: "byte_bit w j = (j < max_rows d)" if "j < 8 * ?n" for j
    using w(3) that byte_bit_replicate[OF that] by auto
  have "j < 8 * ?n" if "j < max_rows d" for j using that lt by simp
  then show ?thesis
    using None w(1,2) bit
    by (auto simp: initialize_vector_for_once_def Let_def dv_wf_def deleted_rows_def)
qed

lemma delete_row_spec:
  assumes "arrow_bits_ok ar" and "dv_wf d" and "i < max_rows d"
  shows "\<exists>d'. delete_row ar d i = Ok (i \<notin> deleted_rows d, d') \<and> dv_wf d' \<and>
    max_rows d' = max_rows d \<and> deleted_rows d' = insert i (deleted_rows d)"
proof -
  obtain e v where e: "initialize_vector_for_once ar d = Ok e" "deletion_vector e = Some v"
    "dv_wf e" "max_rows e = max_rows d" "deleted_rows e = deleted_rows d"
    using initialize_vector_for_once_ok[OF assms(1,2)] by blast
  have len: "max_rows d < 8 * length v" and iv: "i < 8 * length v"
    using e(2-4) assms(3) by (auto simp: dv_wf_def)
  have get: "get_bit ar v i = Ok (byte_bit v i)" and
    mem: "i \<in> deleted_rows d \<longleftrightarrow> \<not> byte_bit v i"
    using assms(1,3) iv e(2,4,5) by (auto simp: arrow_bits_ok_def deleted_rows_def)
  obtain w where w: "unset_bit ar v i = Ok w" "length w = length v"
    "\<forall>j < 8 * length v. byte_bit w j = (j \<noteq> i \<and> byte_bit v j)"
    using assms(1) iv unfolding arrow_bits_ok_def by blast
  show ?thesis
  proof (cases "byte_bit v i")
    case True
    let ?d = "e\<lparr>deletion_vector := Some w\<rparr>"
    have "delete_row ar d i = Ok (True, ?d)"
      using True assms(3) e(1,2) get w(1) by (simp add: delete_row_def)
    moreover have "dv_wf ?d" using e(2,3) w len e(4) by (auto simp: dv_wf_def)
    moreover have "deleted_rows ?d = insert i (deleted_rows e)"
      using e(2,4) w(3) len assms(3) by (auto simp: deleted_rows_def)
    ultimately show ?thesis using True mem e(4,5) by auto
  next
    case False
    have "delete_row ar d i = Ok (False, e)"
      using False assms(3) e(1,2) get by (simp add: delete_row_def)
    then show ?thesis using False mem e by (auto simp: insert_absorb)
  qed
qed

lemma is_deleted_spec:
  "arrow_bits_ok ar \<Longrightarrow> dv_wf d \<Longrightarrow> i < max_rows d \<Longrightarrow>
   is_deleted ar d i = Ok (i \<in> deleted_rows d)"
  by (auto simp: is_deleted_def deleted_rows_def dv_wf_def arrow_bits_ok_def
      split: option.splits)

interpretation bdv: deletion_set "\<lambda>d. arrow_bits_ok ar \<and> dv_wf d" max_rows deleted_rows
    "delete_row ar" "is_deleted ar"
  for ar
proof unfold_locales
  fix d i r
  show "deleted_rows d \<subseteq> {..<max_rows d}"
    by (auto simp: deleted_rows_def split: option.splits)
  show "\<exists>d'. delete_row ar d i = Ok (i \<notin> deleted_rows d, d') \<and>
      (arrow_bits_ok ar \<and> dv_wf d') \<and>
      max_rows d' = max_rows d \<and> deleted_rows d' = insert i (deleted_rows d)"
    if "arrow_bits_ok ar \<and> dv_wf d" and "i < max_rows d"
    using that delete_row_spec[of ar d i] by blast
  show "i < max_rows d" if "delete_row ar d i = Ok r"
    using that by (auto simp: delete_row_def)
  show "is_deleted ar d i = Ok (i \<in> deleted_rows d)"
    if "arrow_bits_ok ar \<and> dv_wf d" and "i < max_rows d"
    using that by (simp add: is_deleted_spec)
qed

section \<open>Merging and scanning\<close>

lemma and_bytes_spec:
  "length w = length v \<Longrightarrow> and_bytes v w = Ok (map2 (AND) v w)"
proof -
  assume len: "length w = length v"
  have "list_all2 (\<lambda>p y. (case p of (i, x) \<Rightarrow> res_bind (index_res w i) (\<lambda>y. Ok (x AND y))) = Ok y)
      (enumerate 0 v) (map2 (AND) v w)"
    using len by (auto simp: list_all2_conv_all_nth nth_enumerate_eq)
  then show ?thesis by (simp add: and_bytes_def res_map_Ok_iff)
qed

lemma merge_with_spec:
  assumes "arrow_bits_ok ar" and "dv_wf d" and "dv_wf rhs" and "max_rows d = max_rows rhs"
  shows "\<exists>d'. merge_with ar d rhs = Ok d' \<and> dv_wf d' \<and> max_rows d' = max_rows d \<and>
    deleted_rows d' = deleted_rows d \<union> deleted_rows rhs"
proof (cases "deletion_vector rhs")
  case None
  then show ?thesis using assms by (simp add: merge_with_def deleted_rows_def)
next
  case (Some w)
  obtain e v where e: "initialize_vector_for_once ar d = Ok e" "deletion_vector e = Some v"
    "dv_wf e" "max_rows e = max_rows d" "deleted_rows e = deleted_rows d"
    using initialize_vector_for_once_ok[OF assms(1,2)] by blast
  have len: "length w = length v" "length v = max_rows d div 8 + 1"
    using e(2-4) Some assms(3,4) by (auto simp: dv_wf_def)
  then have lt: "max_rows d < 8 * length v" by auto
  let ?u = "map2 (AND) v w"
  have bit: "byte_bit ?u j = (byte_bit v j \<and> byte_bit w j)" if "j < 8 * length v" for j
  proof -
    have "j div 8 < length v" using that by auto
    then show ?thesis using len by (simp add: byte_bit_def bit_and_iff)
  qed
  let ?d = "e\<lparr>deletion_vector := Some ?u\<rparr>"
  have "merge_with ar d rhs = Ok ?d"
    using Some assms(4) e(1,2) and_bytes_spec[OF len(1)] by (simp add: merge_with_def)
  moreover have "dv_wf ?d"
    using e(2-4) len bit by (auto simp: dv_wf_def)
  moreover have "deleted_rows ?d = deleted_rows e \<union> deleted_rows rhs"
    using e(2,4) Some assms(4) bit lt by (auto simp: deleted_rows_def)
  ultimately show ?thesis using e(4,5) by auto
qed

lemma bit_test: "(b AND 2 ^ k = 0) \<longleftrightarrow> \<not> bit b k" for b :: u8
  by (rule and_exp_eq_0_iff_not_bit)

lemma deleted_in_byte_filter:
  "sorted_wrt (<) ks \<Longrightarrow>
   deleted_in_byte n i b ks = filter (\<lambda>r. r < n \<and> \<not> bit b (r - i * 8)) (map ((+) (i * 8)) ks)"
proof (induction ks)
  case Nil
  then show ?case by simp
next
  case (Cons k ks)
  show ?case
  proof (cases "i * 8 + k \<ge> n")
    case True
    then have "\<forall>r \<in> set ks. \<not> i * 8 + r < n" using Cons.prems by auto
    then show ?thesis using True by (auto simp: filter_empty_conv)
  next
    case False
    then show ?thesis using Cons by (simp add: Let_def bit_test)
  qed
qed

lemma deleted_from_filter:
  "deleted_from n i bs =
   filter (\<lambda>r. r < n \<and> \<not> bit (bs ! (r div 8 - i)) (r mod 8)) [i * 8 ..< (i + length bs) * 8]"
proof (induction bs arbitrary: i)
  case Nil
  then show ?case by simp
next
  case (Cons b bs)
  let ?P = "\<lambda>r. r < n \<and> \<not> bit ((b # bs) ! (r div 8 - i)) (r mod 8)"
  have split: "[i * 8 ..< (i + length (b # bs)) * 8] =
      [i * 8 ..< i * 8 + 8] @ [Suc i * 8 ..< (Suc i + length bs) * 8]"
    using upt_add_eq_append[of "i * 8" "i * 8 + 8" "length bs * 8"]
    by (simp add: algebra_simps)
  have fst: "filter ?P [i * 8 ..< i * 8 + 8] =
      (if b = 0xFF then [] else deleted_in_byte n i b [0..<8])"
  proof -
    have r: "r div 8 = i \<and> r mod 8 = r - i * 8" if "r \<in> set [i * 8 ..< i * 8 + 8]" for r
      using that div_nat_eqI[of 8 i r] by (auto simp: modulo_nat_def)
    have eq: "filter ?P [i * 8 ..< i * 8 + 8] =
        filter (\<lambda>r. r < n \<and> \<not> bit b (r - i * 8)) [i * 8 ..< i * 8 + 8]"
      by (rule filter_cong[OF refl]) (use r in simp)
    have "map ((+) (i * 8)) [0..<8] = [i * 8 ..< i * 8 + 8]"
      by (rule nth_equalityI) (simp_all del: upt_rec_numeral)
    then have "deleted_in_byte n i b [0..<8] =
        filter (\<lambda>r. r < n \<and> \<not> bit b (r - i * 8)) [i * 8 ..< i * 8 + 8]"
      by (subst deleted_in_byte_filter) (simp_all del: upt_rec_numeral)
    moreover have "filter (\<lambda>r. r < n \<and> \<not> bit b (r - i * 8)) [i * 8 ..< i * 8 + 8] = []"
      if "b = 0xFF"
      using that bit_all_ones by (auto simp: filter_empty_conv)
    ultimately show ?thesis using eq by auto
  qed
  have snd: "filter ?P [Suc i * 8 ..< (Suc i + length bs) * 8] = deleted_from n (Suc i) bs"
    unfolding Cons.IH
  proof (rule filter_cong[OF refl])
    fix r assume "r \<in> set [Suc i * 8 ..< (Suc i + length bs) * 8]"
    then have "r div 8 - i = Suc (r div 8 - Suc i)" by auto
    then show "?P r = (r < n \<and> \<not> bit (bs ! (r div 8 - Suc i)) (r mod 8))" by simp
  qed
  show ?case
    unfolding split filter_append fst snd by simp
qed

lemma count_in_byte_length:
  "count_in_byte n i b ks k0 = k0 + length (deleted_in_byte n i b ks)"
  by (induction n i b ks arbitrary: k0 rule: deleted_in_byte.induct) (auto simp: Let_def)

lemma count_from_length: "count_from n i bs k0 = k0 + length (deleted_from n i bs)"
  by (induction n i bs arbitrary: k0 rule: deleted_from.induct)
    (auto simp: count_in_byte_length)

lemma collect_deleted_rows_filter:
  "dv_wf d \<Longrightarrow> collect_deleted_rows d = filter (\<lambda>r. r \<in> deleted_rows d) [0..<max_rows d]"
proof (cases "deletion_vector d")
  case None
  then show ?thesis by (simp add: collect_deleted_rows_def deleted_rows_def)
next
  case (Some v)
  assume "dv_wf d"
  then have "max_rows d \<le> length v * 8" using Some by (auto simp: dv_wf_def)
  then have up: "[0 ..< length v * 8] = [0..<max_rows d] @ [max_rows d ..< length v * 8]"
    using upt_add_eq_append[of 0 "max_rows d" "length v * 8 - max_rows d"] by simp
  have "collect_deleted_rows d =
      filter (\<lambda>r. r < max_rows d \<and> \<not> byte_bit v r) [0 ..< length v * 8]"
    using Some by (simp add: collect_deleted_rows_def deleted_from_filter byte_bit_def)
  also have "\<dots> = filter (\<lambda>r. r < max_rows d \<and> \<not> byte_bit v r) [0..<max_rows d]"
    unfolding up filter_append by (auto simp: filter_empty_conv)
  finally show ?thesis using Some by (simp add: deleted_rows_def)
qed

lemma filter_res_Ok:
  "\<forall>x \<in> set xs. p x = Ok (q x) \<Longrightarrow> filter_res p xs = Ok (filter q xs)"
  by (induction xs) auto

lemma collect_active_rows_filter:
  assumes "arrow_bits_ok ar" and "dv_wf d" and "n \<le> max_rows d"
  shows "collect_active_rows ar d n = Ok (filter (\<lambda>r. r \<notin> deleted_rows d) [0..<n])"
proof (cases "deletion_vector d")
  case None
  then show ?thesis by (simp add: collect_active_rows_def deleted_rows_def)
next
  case (Some v)
  have "\<forall>r \<in> set [0..<n]. get_bit ar v r = Ok (r \<notin> deleted_rows d)"
    using assms Some by (auto simp: arrow_bits_ok_def dv_wf_def deleted_rows_def)
  then show ?thesis using Some by (simp add: collect_active_rows_def filter_res_Ok)
qed

lemma zip_filter_upt:
  "map fst (filter snd (zip xs (map f [a ..< a + length xs]))) =
   map ((!) xs) (filter (\<lambda>k. f (a + k)) [0..<length xs])"
proof (induction xs arbitrary: a)
  case Nil
  then show ?case by simp
next
  case (Cons x xs)
  have up: "[a ..< a + length (x # xs)] = a # [Suc a ..< Suc a + length xs]"
    using upt_conv_Cons[of a "a + length (x # xs)"] by simp
  have "[0..<length (x # xs)] = 0 # map Suc [0..<length xs]"
    using upt_conv_Cons[of 0 "length (x # xs)"] by (simp add: map_Suc_upt)
  then have "map ((!) (x # xs)) (filter (\<lambda>k. f (a + k)) [0..<length (x # xs)]) =
      (if f a then [x] else []) @
      map ((!) xs) (filter (\<lambda>k. f (Suc a + k)) [0..<length xs])"
    by (simp add: filter_map comp_def)
  with Cons.IH[of "Suc a"] show ?case unfolding up by simp
qed

lemma take_drop_upt:
  "a + n \<le> m \<Longrightarrow> take n (drop a (map f [0..<m])) = map f [a ..< a + n]"
  by (simp add: drop_map take_map)

section \<open>Properties\<close>

text \<open>
  C11: a deletion vector is a set of row numbers. Deleting any rows below the capacity,
  in any order and with repetitions, from a new vector never panics and reports success
  exactly once per distinct row; afterwards the ascending scan returns exactly those
  rows, the counter their number, and the scan for active rows exactly the others.
\<close>

theorem deletion_vector_is_set:
  assumes "arrow_bits_ok ar" and "\<forall>i \<in> set is. i < n"
  shows "\<exists>d. mark_all (delete_row ar) (new_deletion_vector n) is = Ok (card (set is), d)
    \<and> collect_deleted_rows d = sorted_list_of_set (set is)
    \<and> get_num_rows_deleted d = card (set is)
    \<and> collect_active_rows ar d n = Ok (filter (\<lambda>i. i \<notin> set is) [0..<n])
    \<and> (deletion_vector_is_empty d \<longleftrightarrow> is = [])"
proof -
  have new: "dv_wf (new_deletion_vector n)" "deleted_rows (new_deletion_vector n) = {}"
    "max_rows (new_deletion_vector n) = n"
    by (simp_all add: new_deletion_vector_def dv_wf_def deleted_rows_def)
  obtain d where d: "mark_all (delete_row ar) (new_deletion_vector n) is = Ok (card (set is), d)"
    "dv_wf d" "max_rows d = n" "deleted_rows d = set is"
    using bdv.mark_all_spec[of ar "new_deletion_vector n" "is"] assms new by auto
  have coll: "collect_deleted_rows d = filter (\<lambda>i. i \<in> set is) [0..<n]"
    using collect_deleted_rows_filter[OF d(2)] d(3,4) by simp
  also have "\<dots> = sorted_list_of_set (set is)"
    by (rule sorted_distinct_set_unique) (use assms(2) in \<open>auto simp: sorted_wrt_filter\<close>)
  finally have sorted: "collect_deleted_rows d = sorted_list_of_set (set is)" .
  moreover have "get_num_rows_deleted d = length (collect_deleted_rows d)"
    by (simp add: get_num_rows_deleted_def collect_deleted_rows_def count_from_length
        split: option.splits)
  moreover have "deletion_vector_is_empty d \<longleftrightarrow> is = []"
  proof -
    have "deletion_vector_is_empty d \<longleftrightarrow> collect_deleted_rows d = []"
      by (auto simp: deletion_vector_is_empty_def collect_deleted_rows_def)
    then show ?thesis using sorted by (simp add: sorted_list_of_set_eq_Nil_iff)
  qed
  ultimately show ?thesis
    using d(1) collect_active_rows_filter[OF assms(1) d(2), of n] d(3,4) by simp
qed

text \<open>The accessors of the crate, written out, satisfy the assumption.\<close>

definition slice_bits :: arrow_bits where
  "slice_bits = \<lparr>
     get_bit = (\<lambda>v i. res_bind (index_res v (i div 8)) (\<lambda>b. Ok (bit b (i mod 8)))),
     unset_bit = (\<lambda>v i. res_bind (index_res v (i div 8))
       (\<lambda>b. Ok (v[i div 8 := b AND NOT (push_bit (i mod 8) 1)])))\<rparr>"

lemma byte_bit_update:
  assumes "i < 8 * length v" and "j < 8 * length v"
  shows "byte_bit (v[i div 8 := v ! (i div 8) AND NOT (push_bit (i mod 8) 1)]) j =
    (j \<noteq> i \<and> byte_bit v j)"
proof (cases "j div 8 = i div 8")
  case True
  have "i div 8 < length v" using assms(1) by auto
  have ij: "j = i \<longleftrightarrow> j mod 8 = i mod 8" using True by (metis div_mult_mod_eq)
  have "j mod 8 < 8" by simp
  with True \<open>i div 8 < length v\<close> show ?thesis
    by (auto simp: byte_bit_def bit_and_iff bit_not_iff bit_push_bit_iff ij bit_1_iff
        bit_exp_iff)
next
  case False
  then show ?thesis by (auto simp: byte_bit_def)
qed

lemma slice_bits_ok: "arrow_bits_ok slice_bits"
  unfolding arrow_bits_ok_def slice_bits_def
  using byte_bit_update by (auto simp: byte_bit_def)

theorem deletion_vector_is_set_witness:
  "\<exists>d. mark_all (delete_row slice_bits) (new_deletion_vector 10) [9, 2, 9] = Ok (2, d)
    \<and> collect_deleted_rows d = [2, 9] \<and> get_num_rows_deleted d = 2"
proof -
  have "card (set [9, 2, 9 :: nat]) = 2" and "sorted_list_of_set (set [9, 2, 9 :: nat]) = [2, 9]"
    by code_simp+
  moreover have "\<forall>i \<in> set [9, 2, 9 :: nat]. i < 10" by simp
  ultimately show ?thesis
    using deletion_vector_is_set[OF slice_bits_ok, of "[9, 2, 9]" 10] by metis
qed

text \<open>
  merging two well-formed vectors of the same capacity never panics and deletes
  the union: a row is reported deleted afterwards exactly when one of them had it.
\<close>

lemma merge_with_union:
  assumes "arrow_bits_ok ar" and "dv_wf d" and "dv_wf rhs" and "max_rows d = max_rows rhs"
  shows "\<exists>e. merge_with ar d rhs = Ok e \<and> dv_wf e
    \<and> (\<forall>i < max_rows d. \<exists>x y. is_deleted ar d i = Ok x \<and> is_deleted ar rhs i = Ok y
        \<and> is_deleted ar e i = Ok (x \<or> y))
    \<and> set (collect_deleted_rows e) = set (collect_deleted_rows d) \<union> set (collect_deleted_rows rhs)"
proof -
  obtain e where e: "merge_with ar d rhs = Ok e" "dv_wf e" "max_rows e = max_rows d"
    "deleted_rows e = deleted_rows d \<union> deleted_rows rhs"
    using merge_with_spec[OF assms] by blast
  then show ?thesis
    using assms by (auto simp: is_deleted_spec collect_deleted_rows_filter)
qed

lemma merge_with_union_witness:
  "\<exists>e. merge_with slice_bits (new_deletion_vector 4)
      \<lparr>deletion_vector = Some [0x0D], max_rows = 4\<rparr> = Ok e
    \<and> set (collect_deleted_rows e) = {1}"
proof -
  let ?r = "\<lparr>deletion_vector = Some [0x0D], max_rows = 4\<rparr>"
  have wf: "dv_wf ?r" "dv_wf (new_deletion_vector 4)" by code_simp+
  have scan: "collect_deleted_rows ?r = [1]" "collect_deleted_rows (new_deletion_vector 4) = []"
    by code_simp+
  have cap: "max_rows (new_deletion_vector 4) = max_rows ?r"
    by (simp add: new_deletion_vector_def)
  show ?thesis
    using merge_with_union[OF slice_bits_ok wf(2,1) cap] unfolding scan by auto
qed

text \<open>
  Filtering a batch through a slice of the vector keeps exactly the rows that are
  not deleted, in order, for every slice that fits the capacity; with no deletion
  recorded the batch is returned as it is.
\<close>

lemma apply_to_batch_keeps_active:
  assumes "arrow_batches_ok ar rows" and "dv_wf d"
    and "start + length (rows b) \<le> max_rows d"
  shows "\<exists>c. apply_to_batch_with_slice ar d b start = Ok (Some c)
    \<and> rows c = map ((!) (rows b))
        (filter (\<lambda>k. start + k \<notin> deleted_rows d) [0..<length (rows b)])"
proof (cases "deletion_vector d")
  case None
  then show ?thesis
    by (simp add: apply_to_batch_with_slice_def deleted_rows_def map_nth)
next
  case (Some v)
  let ?n = "length (rows b)"
  let ?f = "map (byte_bit v) [start ..< start + ?n]"
  have len: "start + ?n \<le> 8 * length v"
    using assms(2,3) Some by (auto simp: dv_wf_def)
  have n: "num_rows ar b = ?n" and
    sl: "bools_slice ar (new_from_u8 ar v) start ?n = Ok ?f"
    using assms(1) len by (auto simp: arrow_batches_ok_def take_drop_upt)
  have flt: "\<forall>b bs. length bs = length (rows b) \<longrightarrow> (\<exists>c. filter_record_batch ar b bs = Some c \<and>
      rows c = map fst (filter snd (zip (rows b) bs)))"
    using assms(1) unfolding arrow_batches_ok_def by blast
  obtain c where c: "filter_record_batch ar b ?f = Some c"
    "rows c = map fst (filter snd (zip (rows b) ?f))"
    using flt[rule_format, of ?f b] by auto
  have "filter (\<lambda>k. byte_bit v (start + k)) [0..<?n] =
      filter (\<lambda>k. start + k \<notin> deleted_rows d) [0..<?n]"
    by (rule filter_cong[OF refl]) (use Some assms(3) in \<open>auto simp: deleted_rows_def\<close>)
  then show ?thesis
    using Some n sl c assms(3)
    by (simp add: apply_to_batch_with_slice_def Let_def zip_filter_upt)
qed

text \<open>Batches as plain lists of rows satisfy the assumption on the crate.\<close>

definition list_batches :: "'r list arrow_batches" where
  "list_batches = arrow_bits.extend slice_bits \<lparr>
     num_rows = length,
     batch_slice = (\<lambda>b i n. check (i + n \<le> length b) AssertFailed (Ok (take n (drop i b)))),
     new_from_u8 = (\<lambda>v. map (byte_bit v) [0..<8 * length v]),
     bools_slice = (\<lambda>b i n. check (i + n \<le> length b) AssertFailed (Ok (take n (drop i b)))),
     filter_record_batch = (\<lambda>b bs. Some (map fst (filter snd (zip b bs))))\<rparr>"

lemma list_batches_ok: "arrow_batches_ok list_batches (\<lambda>b. b)"
proof -
  have "arrow_bits_ok list_batches"
    using slice_bits_ok by (simp add: arrow_bits_ok_def list_batches_def arrow_bits.defs)
  then show ?thesis
    by (simp add: arrow_batches_ok_def list_batches_def arrow_bits.defs)
qed

end
