(* ===== verification/Object_Cache.thy ===== *)
theory Object_Cache
  imports Row_Types
begin

text \<open>
  The object storage cache (\<^verbatim>\<open>storage/cache/object_storage/\<close>): local copies of remote
  files, reference counted while pinned, evicted in LRU order when the byte budget is
  exceeded. \<^verbatim>\<open>LruCache\<close> is a container of the lru crate: its operations are the fields of
  \<open>lru_ops\<close>, and \<open>lru_ok\<close> states their documented behaviour in terms of the entries
  in order of recency. Each operation below is one critical section of the cache lock;
  \<^verbatim>\<open>get_cache_entry\<close> has two, with the transfer in between.
\<close>

section \<open>Entries and configuration\<close>

record cache_entry =
  cache_filepath :: string
  file_size :: nat

record cache_entry_wrapper =
  cache_entry :: cache_entry
  reference_count :: nat
  deletable :: bool

abbreviation wrapper_size :: "cache_entry_wrapper \<Rightarrow> nat" where
  "wrapper_size w \<equiv> file_size (cache_entry w)"

abbreviation wrapper_path :: "cache_entry_wrapper \<Rightarrow> string" where
  "wrapper_path w \<equiv> cache_filepath (cache_entry w)"

record object_storage_cache_config =
  max_bytes :: nat
  cache_directory :: string
  optimize_local_filesystem :: bool

type_synonym cache_key = table_unique_file_id
type_synonym cache_alist = "(cache_key \<times> cache_entry_wrapper) list"

record 'l lru_ops =
  lru_unbounded :: 'l
  lru_is_empty :: "'l \<Rightarrow> bool"
  lru_len :: "'l \<Rightarrow> nat"
  lru_get :: "'l \<Rightarrow> cache_key \<Rightarrow> cache_entry_wrapper option \<times> 'l"
  lru_get_mut :: "'l \<Rightarrow> cache_key \<Rightarrow> (cache_entry_wrapper \<Rightarrow> cache_entry_wrapper) \<Rightarrow>
    cache_entry_wrapper option \<times> 'l"
  lru_push :: "'l \<Rightarrow> cache_key \<Rightarrow> cache_entry_wrapper \<Rightarrow> 'l"
  lru_pop :: "'l \<Rightarrow> cache_key \<Rightarrow> cache_entry_wrapper option \<times> 'l"
  lru_pop_lru :: "'l \<Rightarrow> ((cache_key \<times> cache_entry_wrapper) \<times> 'l) option"

text \<open>
  \<open>entries l\<close> lists the content, most recently used first. \<open>lru_get_mut\<close> stands for
  \<^verbatim>\<open>get_mut\<close> followed by a write through the reference it returned.
\<close>

definition touch ::
    "cache_key \<Rightarrow> (cache_entry_wrapper \<Rightarrow> cache_entry_wrapper) \<Rightarrow> cache_alist \<Rightarrow> cache_alist" where
  "touch k f al = (case map_of al k of None \<Rightarrow> al | Some w \<Rightarrow> (k, f w) # AList.delete k al)"

definition lru_ok :: "'l lru_ops \<Rightarrow> ('l \<Rightarrow> cache_alist) \<Rightarrow> bool" where
  "lru_ok ops entries \<longleftrightarrow>
     entries (lru_unbounded ops) = [] \<and>
     (\<forall>l. lru_is_empty ops l \<longleftrightarrow> entries l = []) \<and>
     (\<forall>l. lru_len ops l = length (entries l)) \<and>
     (\<forall>l k. fst (lru_get ops l k) = map_of (entries l) k \<and>
        entries (snd (lru_get ops l k)) = touch k (\<lambda>w. w) (entries l)) \<and>
     (\<forall>l k f. fst (lru_get_mut ops l k f) = map_of (entries l) k \<and>
        entries (snd (lru_get_mut ops l k f)) = touch k f (entries l)) \<and>
     (\<forall>l k w. entries (lru_push ops l k w) = (k, w) # AList.delete k (entries l)) \<and>
     (\<forall>l k. fst (lru_pop ops l k) = map_of (entries l) k \<and>
        entries (snd (lru_pop ops l k)) = AList.delete k (entries l)) \<and>
     (\<forall>l. case lru_pop_lru ops l of
            None \<Rightarrow> entries l = []
          | Some (p, l') \<Rightarrow> entries l = entries l' @ [p])"

section \<open>The cache\<close>

record 'l object_storage_cache =
  config :: object_storage_cache_config
  cur_bytes :: nat
  evicted_entries :: "cache_key set"
  evictable_cache :: 'l
  non_evictable_cache :: cache_alist

record non_evictable_handle =
  handle_file_id :: cache_key
  handle_cache_entry :: cache_entry

definition new_object_storage_cache ::
    "'l lru_ops \<Rightarrow> object_storage_cache_config \<Rightarrow> 'l object_storage_cache" where
  "new_object_storage_cache ops cfg =
     \<lparr>config = cfg, cur_bytes = 0, evicted_entries = {},
      evictable_cache = lru_unbounded ops, non_evictable_cache = []\<rparr>"

text \<open>
  The eviction loop. Its bound, one more than the number of evictable entries, is enough
  because every iteration removes one.
\<close>

fun evict_loop ::
    "'l lru_ops \<Rightarrow> nat \<Rightarrow> nat \<Rightarrow> bool \<Rightarrow> string list \<Rightarrow> 'l object_storage_cache \<Rightarrow>
     (bool \<times> string list \<times> 'l object_storage_cache) res" where
  "evict_loop ops 0 limit tolerate files c = Panic OutOfFuel"
| "evict_loop ops (Suc fuel) limit tolerate files c =
     (if cur_bytes c > limit then
        (if lru_is_empty ops (evictable_cache c) then
           check tolerate AssertFailed (Ok (False, files, c))
         else unwrap (lru_pop_lru ops (evictable_cache c)) (\<lambda>((k, w), l).
           check (reference_count w = 0) AssertFailed (
           res_bind (sub_checked (cur_bytes c) (wrapper_size w)) (\<lambda>bytes.
           evict_loop ops fuel limit tolerate
             (if deletable w then files @ [wrapper_path w] else files)
             (c\<lparr>evictable_cache := l, cur_bytes := bytes\<rparr>)))))
      else Ok (True, files, c))"

definition evict_cache_entries ::
    "'l lru_ops \<Rightarrow> 'l object_storage_cache \<Rightarrow> nat \<Rightarrow> bool \<Rightarrow>
     (bool \<times> string list \<times> 'l object_storage_cache) res" where
  "evict_cache_entries ops c limit tolerate =
     evict_loop ops (Suc (lru_len ops (evictable_cache c))) limit tolerate [] c"

definition insert_non_evictable ::
    "'l lru_ops \<Rightarrow> 'l object_storage_cache \<Rightarrow> cache_key \<Rightarrow> cache_entry_wrapper \<Rightarrow> nat \<Rightarrow> bool \<Rightarrow>
     (bool \<times> string list \<times> 'l object_storage_cache) res" where
  "insert_non_evictable ops c k w limit tolerate =
     (let (old, l) = lru_get ops (evictable_cache c) k;
          c = c\<lparr>evictable_cache := l\<rparr>
      in check (old = None) AssertFailed (
         check (map_of (non_evictable_cache c) k = None) AssertFailed (
         res_bind (evict_cache_entries ops
             (c\<lparr>non_evictable_cache := AList.update k w (non_evictable_cache c)\<rparr>) limit tolerate)
           (\<lambda>(evict_succ, files, c).
           if evict_succ then Ok (True, files, c)
           else check (map_of (non_evictable_cache c) k \<noteq> None) AssertFailed (
             Ok (False, files,
                 c\<lparr>non_evictable_cache := AList.delete k (non_evictable_cache c)\<rparr>))))))"

definition delete_cache_entry ::
    "'l lru_ops \<Rightarrow> 'l object_storage_cache \<Rightarrow> cache_key \<Rightarrow> bool \<Rightarrow>
     (string list \<times> 'l object_storage_cache) res" where
  "delete_cache_entry ops c k panic_if_non_existent =
     (case lru_pop ops (evictable_cache c) k of
        (Some w, l) \<Rightarrow>
          check (reference_count w = 0) AssertFailed (
          res_bind (sub_checked (cur_bytes c) (wrapper_size w)) (\<lambda>bytes.
          Ok (if deletable w then [wrapper_path w] else [],
              c\<lparr>evictable_cache := l, cur_bytes := bytes\<rparr>)))
      | (None, l) \<Rightarrow>
          (let c = c\<lparr>evictable_cache := l\<rparr>
           in if map_of (non_evictable_cache c) k \<noteq> None then
                check (k \<notin> evicted_entries c) AssertFailed (
                  Ok ([], c\<lparr>evicted_entries := insert k (evicted_entries c)\<rparr>))
              else if panic_if_non_existent then Panic ExplicitPanic
              else Ok ([], c)))"

definition unreference ::
    "'l lru_ops \<Rightarrow> 'l object_storage_cache \<Rightarrow> cache_key \<Rightarrow>
     (string list \<times> 'l object_storage_cache) res" where
  "unreference ops c k =
     (case map_of (non_evictable_cache c) k of
        None \<Rightarrow> Panic ExplicitPanic
      | Some w \<Rightarrow>
          res_bind (sub_checked (reference_count w) 1) (\<lambda>n.
          let w = w\<lparr>reference_count := n\<rparr>
          in if n = 0 then
               let c = c\<lparr>non_evictable_cache := AList.delete k (non_evictable_cache c)\<rparr>
               in if k \<in> evicted_entries c then
                    check (cur_bytes c \<ge> wrapper_size w) AssertFailed (
                      Ok (if deletable w then [wrapper_path w] else [],
                          c\<lparr>evicted_entries := evicted_entries c - {k},
                            cur_bytes := cur_bytes c - wrapper_size w\<rparr>))
                  else Ok ([], c\<lparr>evictable_cache := lru_push ops (evictable_cache c) k w\<rparr>)
             else Ok ([], c\<lparr>non_evictable_cache := AList.update k w (non_evictable_cache c)\<rparr>)))"

text \<open>\<open>is_local\<close> is \<^verbatim>\<open>path_utils::is_local_filepath\<close>, which asks the url crate.\<close>

definition with_remote_path :: "string \<Rightarrow> cache_entry_wrapper \<Rightarrow> cache_entry_wrapper" where
  "with_remote_path remote_path w =
     w\<lparr>cache_entry := (cache_entry w)\<lparr>cache_filepath := remote_path\<rparr>, deletable := False\<rparr>"

definition try_replace_evictable_with_remote ::
    "'l lru_ops \<Rightarrow> (string \<Rightarrow> bool) \<Rightarrow> 'l object_storage_cache \<Rightarrow> cache_key \<Rightarrow> string \<Rightarrow>
     string list \<times> 'l object_storage_cache" where
  "try_replace_evictable_with_remote ops is_local c k remote_path =
     (if \<not> optimize_local_filesystem (config c) then ([], c)
      else if \<not> is_local remote_path then ([], c)
      else case lru_get_mut ops (evictable_cache c) k (with_remote_path remote_path) of
             (Some w, l) \<Rightarrow> ([wrapper_path w], c\<lparr>evictable_cache := l\<rparr>)
           | (None, l) \<Rightarrow> ([], c\<lparr>evictable_cache := l\<rparr>))"

definition try_replace_only_reference_count_with_remote ::
    "(string \<Rightarrow> bool) \<Rightarrow> 'l object_storage_cache \<Rightarrow> cache_key \<Rightarrow> string \<Rightarrow>
     (string list \<times> 'l object_storage_cache) res" where
  "try_replace_only_reference_count_with_remote is_local c k remote_path =
     (if \<not> optimize_local_filesystem (config c) then Ok ([], c)
      else if \<not> is_local remote_path then Ok ([], c)
      else if k \<in> evicted_entries c then Ok ([], c)
      else case map_of (non_evictable_cache c) k of
             None \<Rightarrow> Ok ([], c)
           | Some w \<Rightarrow>
               check (reference_count w \<ge> 1) AssertFailed (
                 if reference_count w > 1 then Ok ([], c)
                 else Ok ([wrapper_path w],
                   c\<lparr>non_evictable_cache :=
                     AList.update k (with_remote_path remote_path w) (non_evictable_cache c)\<rparr>)))"

section \<open>The cache trait\<close>

definition import_cache_entry ::
    "'l lru_ops \<Rightarrow> 'l object_storage_cache \<Rightarrow> cache_key \<Rightarrow> cache_entry \<Rightarrow>
     (non_evictable_handle \<times> string list \<times> 'l object_storage_cache) res" where
  "import_cache_entry ops c k entry =
     res_bind (add_width 64 (cur_bytes c) (file_size entry)) (\<lambda>bytes.
     res_bind (insert_non_evictable ops (c\<lparr>cur_bytes := bytes\<rparr>) k
         \<lparr>cache_entry = entry, reference_count = 1, deletable = True\<rparr>
         (max_bytes (config c)) False)
       (\<lambda>(_, files, c). Ok (\<lparr>handle_file_id = k, handle_cache_entry = entry\<rparr>, files, c)))"

text \<open>
  What a fetch of the remote file yields: with the local filesystem optimisation the
  remote file itself, \<open>local_size\<close> being its size if it can be read; otherwise the copy
  that \<^verbatim>\<open>load_from_remote\<close> made. \<open>None\<close> is the error of the transfer.
\<close>

definition get_cache_handle_from_remote ::
    "object_storage_cache_config \<Rightarrow> (string \<Rightarrow> bool) \<Rightarrow> (string \<Rightarrow> nat option) \<Rightarrow>
     (string \<Rightarrow> cache_entry option) \<Rightarrow> string \<Rightarrow> cache_entry_wrapper option" where
  "get_cache_handle_from_remote cfg is_local local_size load_from_remote src =
     (if optimize_local_filesystem cfg \<and> is_local src then
        map_option (\<lambda>size. \<lparr>cache_entry = \<lparr>cache_filepath = src, file_size = size\<rparr>,
          reference_count = 1, deletable = False\<rparr>) (local_size src)
      else map_option (\<lambda>entry. \<lparr>cache_entry = entry, reference_count = 1, deletable = True\<rparr>)
          (load_from_remote src))"

text \<open>The first critical section: a hit returns a handle, a miss returns \<open>None\<close>.\<close>

definition get_cache_entry_lookup ::
    "'l lru_ops \<Rightarrow> 'l object_storage_cache \<Rightarrow> cache_key \<Rightarrow>
     (non_evictable_handle option \<times> 'l object_storage_cache) res" where
  "get_cache_entry_lookup ops c k =
     (case map_of (non_evictable_cache c) k of
        Some w \<Rightarrow>
          check (reference_count w > 0) AssertFailed (
          res_bind (add_width 32 (reference_count w) 1) (\<lambda>n.
          Ok (Some \<lparr>handle_file_id = k, handle_cache_entry = cache_entry w\<rparr>,
              c\<lparr>non_evictable_cache :=
                AList.update k (w\<lparr>reference_count := n\<rparr>) (non_evictable_cache c)\<rparr>)))
      | None \<Rightarrow>
          (case lru_pop ops (evictable_cache c) k of
             (Some w, l) \<Rightarrow>
               check (reference_count w = 0) AssertFailed (
               res_bind (insert_non_evictable ops (c\<lparr>evictable_cache := l\<rparr>) k
                   (w\<lparr>reference_count := 1\<rparr>) (max_bytes (config c)) True)
                 (\<lambda>(_, files, c).
                 check (files = []) AssertFailed (
                   Ok (Some \<lparr>handle_file_id = k, handle_cache_entry = cache_entry w\<rparr>, c))))
           | (None, l) \<Rightarrow> Ok (None, c\<lparr>evictable_cache := l\<rparr>)))"

text \<open>The second critical section: the fetched file is inserted.\<close>

definition get_cache_entry_insert ::
    "'l lru_ops \<Rightarrow> 'l object_storage_cache \<Rightarrow> cache_key \<Rightarrow> cache_entry_wrapper \<Rightarrow>
     (non_evictable_handle option \<times> string list \<times> 'l object_storage_cache) res" where
  "get_cache_entry_insert ops c k w =
     (let size = wrapper_size w
      in res_bind (add_width 64 (cur_bytes c) size) (\<lambda>bytes.
         res_bind (insert_non_evictable ops (c\<lparr>cur_bytes := bytes\<rparr>) k w
             (max_bytes (config c)) True)
           (\<lambda>(cache_succ, files, c).
           if cache_succ then
             Ok (Some \<lparr>handle_file_id = k, handle_cache_entry = cache_entry w\<rparr>, files, c)
           else check (cur_bytes c \<ge> size) AssertFailed (
             Ok (None, files, c\<lparr>cur_bytes := cur_bytes c - size\<rparr>)))))"

text \<open>The whole call when no other one comes in between; the outer \<open>None\<close> is its error.\<close>

definition get_cache_entry ::
    "'l lru_ops \<Rightarrow> (string \<Rightarrow> bool) \<Rightarrow> (string \<Rightarrow> nat option) \<Rightarrow>
     (string \<Rightarrow> cache_entry option) \<Rightarrow> 'l object_storage_cache \<Rightarrow> cache_key \<Rightarrow> string \<Rightarrow>
     ((non_evictable_handle option \<times> string list) option \<times> 'l object_storage_cache) res" where
  "get_cache_entry ops is_local local_size load_from_remote c k remote_filepath =
     res_bind (get_cache_entry_lookup ops c k) (\<lambda>(hit, c).
     case hit of
       Some h \<Rightarrow> Ok (Some (Some h, []), c)
     | None \<Rightarrow>
         (case get_cache_handle_from_remote (config c) is_local local_size load_from_remote
             remote_filepath of
            None \<Rightarrow> Ok (None, c)
          | Some w \<Rightarrow> res_bind (get_cache_entry_insert ops c k w)
              (\<lambda>(h, files, c). Ok (Some (h, files), c))))"

definition try_delete_cache_entry ::
    "'l lru_ops \<Rightarrow> 'l object_storage_cache \<Rightarrow> cache_key \<Rightarrow>
     (string list \<times> 'l object_storage_cache) res" where
  "try_delete_cache_entry ops c k = delete_cache_entry ops c k False"

definition increment_reference_count ::
    "'l object_storage_cache \<Rightarrow> non_evictable_handle \<Rightarrow> 'l object_storage_cache res" where
  "increment_reference_count c h =
     (case map_of (non_evictable_cache c) (handle_file_id h) of
        None \<Rightarrow> Panic ExplicitPanic
      | Some w \<Rightarrow>
          check (reference_count w > 0) AssertFailed (
          res_bind (add_width 32 (reference_count w) 1) (\<lambda>n.
          Ok (c\<lparr>non_evictable_cache :=
            AList.update (handle_file_id h) (w\<lparr>reference_count := n\<rparr>)
              (non_evictable_cache c)\<rparr>))))"

section \<open>Handles\<close>

definition handle_unreference ::
    "'l lru_ops \<Rightarrow> 'l object_storage_cache \<Rightarrow> non_evictable_handle \<Rightarrow>
     (string list \<times> 'l object_storage_cache) res" where
  "handle_unreference ops c h = unreference ops c (handle_file_id h)"

definition unreference_and_delete ::
    "'l lru_ops \<Rightarrow> 'l object_storage_cache \<Rightarrow> non_evictable_handle \<Rightarrow>
     (string list \<times> 'l object_storage_cache) res" where
  "unreference_and_delete ops c h =
     res_bind (unreference ops c (handle_file_id h)) (\<lambda>(files, c).
     check (files = []) AssertFailed (delete_cache_entry ops c (handle_file_id h) True))"

definition unreference_and_replace_with_remote ::
    "'l lru_ops \<Rightarrow> (string \<Rightarrow> bool) \<Rightarrow> 'l object_storage_cache \<Rightarrow> non_evictable_handle \<Rightarrow>
     string \<Rightarrow> (string list \<times> 'l object_storage_cache) res" where
  "unreference_and_replace_with_remote ops is_local c h remote_filepath =
     res_bind (unreference ops c (handle_file_id h)) (\<lambda>(files, c).
     check (files = []) AssertFailed (
       Ok (try_replace_evictable_with_remote ops is_local c (handle_file_id h) remote_filepath)))"

definition replace_with_remote ::
    "(string \<Rightarrow> bool) \<Rightarrow> 'l object_storage_cache \<Rightarrow> non_evictable_handle \<Rightarrow> string \<Rightarrow>
     (string list \<times> non_evictable_handle \<times> 'l object_storage_cache) res" where
  "replace_with_remote is_local c h remote_filepath =
     res_bind (try_replace_only_reference_count_with_remote is_local c (handle_file_id h)
         remote_filepath)
       (\<lambda>(files, c).
       Ok (files,
           if files \<noteq> [] then
             h\<lparr>handle_cache_entry := (handle_cache_entry h)\<lparr>cache_filepath := remote_filepath\<rparr>\<rparr>
           else h,
           c))"

section \<open>Contract of the LRU container\<close>

lemma lru_okD:
  assumes "lru_ok ops entries"
  shows "entries (lru_unbounded ops) = []"
    and "lru_is_empty ops l \<longleftrightarrow> entries l = []"
    and "lru_len ops l = length (entries l)"
    and "lru_get ops l k = (v, l1) \<Longrightarrow>
      v = map_of (entries l) k \<and> entries l1 = touch k (\<lambda>w. w) (entries l)"
    and "lru_get_mut ops l k f = (v, l1) \<Longrightarrow>
      v = map_of (entries l) k \<and> entries l1 = touch k f (entries l)"
    and "entries (lru_push ops l k w) = (k, w) # AList.delete k (entries l)"
    and "lru_pop ops l k = (v, l1) \<Longrightarrow>
      v = map_of (entries l) k \<and> entries l1 = AList.delete k (entries l)"
    and "entries l \<noteq> [] \<Longrightarrow>
      \<exists>p l1. lru_pop_lru ops l = Some (p, l1) \<and> entries l = entries l1 @ [p]"
proof -
  note ok = assms[unfolded lru_ok_def]
  show "entries (lru_unbounded ops) = []" "lru_is_empty ops l \<longleftrightarrow> entries l = []"
    "lru_len ops l = length (entries l)"
    "entries (lru_push ops l k w) = (k, w) # AList.delete k (entries l)"
    using ok by simp_all
  show "v = map_of (entries l) k \<and> entries l1 = touch k (\<lambda>w. w) (entries l)"
    if "lru_get ops l k = (v, l1)" using ok that by (metis fst_conv snd_conv)
  show "v = map_of (entries l) k \<and> entries l1 = touch k f (entries l)"
    if "lru_get_mut ops l k f = (v, l1)" using ok that by (metis fst_conv snd_conv)
  show "v = map_of (entries l) k \<and> entries l1 = AList.delete k (entries l)"
    if "lru_pop ops l k = (v, l1)" using ok that by (metis fst_conv snd_conv)
  show "\<exists>p l1. lru_pop_lru ops l = Some (p, l1) \<and> entries l = entries l1 @ [p]"
    if "entries l \<noteq> []"
  proof -
    have "case lru_pop_lru ops l of None \<Rightarrow> entries l = []
      | Some (p, l1) \<Rightarrow> entries l = entries l1 @ [p]" using ok by blast
    with that show ?thesis by (auto split: option.splits)
  qed
qed

lemma touch_absent: "k \<notin> fst ` set al \<Longrightarrow> touch k f al = al"
  by (auto simp: touch_def map_of_None_fst[symmetric])

section \<open>Eviction\<close>

definition evicted_paths :: "cache_alist \<Rightarrow> string list" where
  "evicted_paths dropped = map (\<lambda>p. wrapper_path (snd p)) (filter (\<lambda>p. deletable (snd p)) (rev dropped))"

lemma evict_loop_spec:
  assumes "lru_ok ops entries"
  shows "entries (evictable_cache c) = ev \<Longrightarrow> length ev < fuel \<Longrightarrow>
    \<forall>p \<in> set ev. reference_count (snd p) = 0 \<Longrightarrow> total wrapper_size ev \<le> cur_bytes c \<Longrightarrow>
    \<exists>kept dropped l. ev = kept @ dropped \<and> entries l = kept \<and>
      evict_loop ops fuel limit tolerate files c =
        (if cur_bytes c - total wrapper_size dropped \<le> limit \<or> tolerate
         then Ok (cur_bytes c - total wrapper_size dropped \<le> limit, files @ evicted_paths dropped,
           c\<lparr>evictable_cache := l, cur_bytes := cur_bytes c - total wrapper_size dropped\<rparr>)
         else Panic AssertFailed) \<and>
      (cur_bytes c - total wrapper_size dropped > limit \<longrightarrow> kept = []) \<and>
      (dropped \<noteq> [] \<longrightarrow> cur_bytes c - total wrapper_size (tl dropped) > limit)"
proof (induction ev arbitrary: c fuel files rule: rev_induct)
  case Nil
  then obtain n where n: "fuel = Suc n" by (cases fuel) auto
  have "lru_is_empty ops (evictable_cache c)" using Nil(1) lru_okD(2)[OF assms] by simp
  then show ?case
    using Nil(1) n
    by (intro exI[of _ "[]"] exI[of _ "evictable_cache c"])
      (auto simp: evicted_paths_def check_def)
next
  case (snoc p ev)
  obtain n where n: "fuel = Suc n" using snoc.prems(2) by (cases fuel) auto
  show ?case
  proof (cases "cur_bytes c > limit")
    case False
    then show ?thesis
      using snoc.prems(1) n
      by (intro exI[of _ "ev @ [p]"] exI[of _ "[]"] exI[of _ "evictable_cache c"])
        (simp add: evicted_paths_def)
  next
    case True
    obtain k w where p: "p = (k, w)" by (cases p)
    obtain q l where q: "lru_pop_lru ops (evictable_cache c) = Some (q, l)"
      "entries (evictable_cache c) = entries l @ [q]"
      using lru_okD(8)[OF assms, of "evictable_cache c"] snoc.prems(1) by auto
    have l: "entries l = ev" "q = (k, w)" using q(2) snoc.prems(1) p by auto
    let ?c = "c\<lparr>evictable_cache := l, cur_bytes := cur_bytes c - wrapper_size w\<rparr>"
    let ?files = "if deletable w then files @ [wrapper_path w] else files"
    have step: "evict_loop ops fuel limit tolerate files c =
        evict_loop ops n limit tolerate ?files ?c"
      using True q(1) l snoc.prems(1,3,4) n p lru_okD(2)[OF assms, of "evictable_cache c"]
      by (simp add: sub_checked_def)
    have prem: "entries (evictable_cache ?c) = ev" "length ev < n"
      "\<forall>p \<in> set ev. reference_count (snd p) = 0" "total wrapper_size ev \<le> cur_bytes ?c"
      using l(1) snoc.prems n p by auto
    obtain kept dropped l' where ih: "ev = kept @ dropped" "entries l' = kept"
      "evict_loop ops n limit tolerate ?files ?c =
        (if cur_bytes ?c - total wrapper_size dropped \<le> limit \<or> tolerate
         then Ok (cur_bytes ?c - total wrapper_size dropped \<le> limit, ?files @ evicted_paths dropped,
           ?c\<lparr>evictable_cache := l', cur_bytes := cur_bytes ?c - total wrapper_size dropped\<rparr>)
         else Panic AssertFailed)"
      "cur_bytes ?c - total wrapper_size dropped > limit \<longrightarrow> kept = []"
      "dropped \<noteq> [] \<longrightarrow> cur_bytes ?c - total wrapper_size (tl dropped) > limit"
      using snoc.IH[OF prem, of ?files] by blast
    have arith: "cur_bytes c - wrapper_size w - total wrapper_size xs =
        cur_bytes c - total wrapper_size (xs @ [p])" for xs
      by (simp add: p)
    have paths: "?files @ evicted_paths dropped = files @ evicted_paths (dropped @ [p])"
      by (simp add: evicted_paths_def p)
    have tl: "dropped @ [p] \<noteq> [] \<longrightarrow> cur_bytes c - total wrapper_size (tl (dropped @ [p])) > limit"
      using ih(5) True by (cases dropped) (simp_all add: arith[symmetric] p)
    have bytes: "cur_bytes ?c - total wrapper_size dropped =
        cur_bytes c - total wrapper_size (dropped @ [p])"
      using arith[of dropped] by simp
    have upd: "?c\<lparr>evictable_cache := l', cur_bytes := b\<rparr> = c\<lparr>evictable_cache := l', cur_bytes := b\<rparr>"
      for b by simp
    have app: "ev @ [p] = kept @ (dropped @ [p])" using ih(1) by simp
    show ?thesis
      by (rule exI[of _ kept], rule exI[of _ "dropped @ [p]"], rule exI[of _ l'], intro conjI)
        (rule app ih(2) ih(3)[unfolded bytes paths upd, folded step] ih(4)[unfolded bytes] tl)+
  qed
qed

lemma insert_non_evictable_spec:
  assumes ok: "lru_ok ops entries"
    and fresh: "k \<notin> fst ` set (entries (evictable_cache c))"
    and zero: "\<forall>p \<in> set (entries (evictable_cache c)). reference_count (snd p) = 0"
    and bytes: "total wrapper_size (entries (evictable_cache c)) \<le> cur_bytes c"
  shows "\<exists>kept dropped l. entries (evictable_cache c) = kept @ dropped \<and> entries l = kept \<and>
    (cur_bytes c - total wrapper_size dropped > limit \<longrightarrow> kept = []) \<and>
    (dropped \<noteq> [] \<longrightarrow> cur_bytes c - total wrapper_size (tl dropped) > limit) \<and>
    insert_non_evictable ops c k w limit tolerate =
      (if k \<in> fst ` set (non_evictable_cache c) then Panic AssertFailed
       else if cur_bytes c - total wrapper_size dropped \<le> limit then
         Ok (True, evicted_paths dropped,
           c\<lparr>evictable_cache := l, cur_bytes := cur_bytes c - total wrapper_size dropped,
             non_evictable_cache := non_evictable_cache c @ [(k, w)]\<rparr>)
       else if tolerate then
         Ok (False, evicted_paths dropped,
           c\<lparr>evictable_cache := l, cur_bytes := cur_bytes c - total wrapper_size dropped\<rparr>)
       else Panic AssertFailed)"
proof -
  obtain old l0 where get: "lru_get ops (evictable_cache c) k = (old, l0)" by fastforce
  have l0: "old = None" "entries l0 = entries (evictable_cache c)"
    using lru_okD(4)[OF ok get] fresh by (auto simp: touch_absent map_of_eq_None_iff)
  let ?c = "c\<lparr>evictable_cache := l0, non_evictable_cache := AList.update k w (non_evictable_cache c)\<rparr>"
  have len: "length (entries (evictable_cache c)) < Suc (lru_len ops l0)"
    using lru_okD(3)[OF ok, of l0] l0(2) by simp
  have pre: "entries (evictable_cache ?c) = entries (evictable_cache c)"
    "total wrapper_size (entries (evictable_cache c)) \<le> cur_bytes ?c"
    using l0(2) bytes by simp_all
  obtain kept dropped l where ev: "entries (evictable_cache c) = kept @ dropped" "entries l = kept"
    "evict_loop ops (Suc (lru_len ops l0)) limit tolerate [] ?c =
        (if cur_bytes ?c - total wrapper_size dropped \<le> limit \<or> tolerate
         then Ok (cur_bytes ?c - total wrapper_size dropped \<le> limit, [] @ evicted_paths dropped,
           ?c\<lparr>evictable_cache := l, cur_bytes := cur_bytes ?c - total wrapper_size dropped\<rparr>)
         else Panic AssertFailed)"
    "cur_bytes ?c - total wrapper_size dropped > limit \<longrightarrow> kept = []"
    "dropped \<noteq> [] \<longrightarrow> cur_bytes ?c - total wrapper_size (tl dropped) > limit"
    using evict_loop_spec[OF ok pre(1) len zero pre(2), of limit tolerate "[]"] by blast
  have "insert_non_evictable ops c k w limit tolerate =
      (if k \<in> fst ` set (non_evictable_cache c) then Panic AssertFailed
       else if cur_bytes c - total wrapper_size dropped \<le> limit then
         Ok (True, evicted_paths dropped,
           c\<lparr>evictable_cache := l, cur_bytes := cur_bytes c - total wrapper_size dropped,
             non_evictable_cache := non_evictable_cache c @ [(k, w)]\<rparr>)
       else if tolerate then
         Ok (False, evicted_paths dropped,
           c\<lparr>evictable_cache := l, cur_bytes := cur_bytes c - total wrapper_size dropped\<rparr>)
       else Panic AssertFailed)"
  proof (cases "k \<in> fst ` set (non_evictable_cache c)")
    case True
    then show ?thesis
      using get l0(1) by (simp add: insert_non_evictable_def map_of_eq_None_iff)
  next
    case False
    have del: "AList.delete k (non_evictable_cache c @ [(k, w)]) = non_evictable_cache c"
      using delete_absent[OF False] by (simp add: AList.delete_eq)
    have look: "map_of (non_evictable_cache c) k = None"
      using False by (simp add: map_of_eq_None_iff)
    have "insert_non_evictable ops c k w limit tolerate =
        res_bind (evict_loop ops (Suc (lru_len ops l0)) limit tolerate [] ?c)
          (\<lambda>(evict_succ, files, c).
           if evict_succ then Ok (True, files, c)
           else check (map_of (non_evictable_cache c) k \<noteq> None) AssertFailed (
             Ok (False, files,
                 c\<lparr>non_evictable_cache := AList.delete k (non_evictable_cache c)\<rparr>)))"
      using get l0(1) look
      by (simp add: insert_non_evictable_def evict_cache_entries_def del: evict_loop.simps)
    also have "\<dots> = (if cur_bytes c - total wrapper_size dropped \<le> limit then
         Ok (True, evicted_paths dropped,
           c\<lparr>evictable_cache := l, cur_bytes := cur_bytes c - total wrapper_size dropped,
             non_evictable_cache := non_evictable_cache c @ [(k, w)]\<rparr>)
       else if tolerate then
         Ok (False, evicted_paths dropped,
           c\<lparr>evictable_cache := l, cur_bytes := cur_bytes c - total wrapper_size dropped\<rparr>)
       else Panic AssertFailed)"
      unfolding ev(3) using look by (simp add: update_absent[OF False] del map_add_def)
    finally show ?thesis using False by simp
  qed
  with ev(1,2,4,5) show ?thesis by auto
qed

section \<open>The invariant\<close>

text \<open>
  What the cache keeps, on its content: no key twice, the byte count exact and within the
  budget, evictable entries unreferenced and pinned ones referenced, and deletion markers
  only on pinned entries.
\<close>

definition content_ok ::
    "cache_alist \<Rightarrow> cache_alist \<Rightarrow> nat \<Rightarrow> cache_key set \<Rightarrow> nat \<Rightarrow> bool" where
  "content_ok ev pinned bytes marked limit \<longleftrightarrow>
     distinct (map fst (ev @ pinned)) \<and>
     bytes = total wrapper_size (ev @ pinned) \<and> bytes \<le> limit \<and>
     (\<forall>p \<in> set ev. reference_count (snd p) = 0) \<and>
     (\<forall>p \<in> set pinned. 0 < reference_count (snd p)) \<and>
     marked \<subseteq> fst ` set pinned"

definition cache_inv :: "('l \<Rightarrow> cache_alist) \<Rightarrow> 'l object_storage_cache \<Rightarrow> bool" where
  "cache_inv entries c = content_ok (entries (evictable_cache c)) (non_evictable_cache c)
     (cur_bytes c) (evicted_entries c) (max_bytes (config c))"

lemma content_okD:
  assumes "content_ok ev ne b m lim"
  shows "distinct (map fst ev)" "distinct (map fst ne)" "fst ` set ev \<inter> fst ` set ne = {}"
    "b = total wrapper_size ev + total wrapper_size ne" "b \<le> lim"
    "\<And>p. p \<in> set ev \<Longrightarrow> reference_count (snd p) = 0"
    "\<And>p. p \<in> set ne \<Longrightarrow> 0 < reference_count (snd p)" "m \<subseteq> fst ` set ne"
  using assms by (simp_all add: content_ok_def)

lemma content_okI:
  assumes "distinct (map fst ev)" "distinct (map fst ne)" "fst ` set ev \<inter> fst ` set ne = {}"
    "b = total wrapper_size ev + total wrapper_size ne" "b \<le> lim"
    "\<And>p. p \<in> set ev \<Longrightarrow> reference_count (snd p) = 0"
    "\<And>p. p \<in> set ne \<Longrightarrow> 0 < reference_count (snd p)" "m \<subseteq> fst ` set ne"
  shows "content_ok ev ne b m lim"
  using assms by (simp add: content_ok_def)

lemma map_of_key: "map_of al k = Some v \<Longrightarrow> k \<in> fst ` set al"
  by (metis map_of_None_fst option.distinct(1))

text \<open>Each way the content changes keeps it well formed.\<close>

lemma content_drop:
  "content_ok (kept @ dropped) ne b m lim \<Longrightarrow>
   content_ok kept ne (b - total wrapper_size dropped) m lim"
  by (auto simp: content_ok_def)

lemma content_pop:
  assumes "content_ok ev ne b m lim" and "map_of ev k = Some w"
  shows "content_ok (AList.delete k ev) ne (b - wrapper_size w) m lim"
    and "wrapper_size w \<le> b" and "reference_count w = 0"
    and "k \<notin> fst ` set ne" and "k \<notin> fst ` set (AList.delete k ev)"
proof -
  note c = content_okD[OF assms(1)]
  have t: "total wrapper_size ev = wrapper_size w + total wrapper_size (AList.delete k ev)"
    using total_delete[OF c(1) assms(2)] .
  show "k \<notin> fst ` set (AList.delete k ev)" by (auto simp: set_delete)
  show "wrapper_size w \<le> b" using t c(4) by simp
  show "reference_count w = 0" using c(6) map_of_SomeD[OF assms(2)] by fastforce
  show "k \<notin> fst ` set ne" using c(3) map_of_key[OF assms(2)] by blast
  show "content_ok (AList.delete k ev) ne (b - wrapper_size w) m lim"
  proof (rule content_okI)
    show "fst ` set (AList.delete k ev) \<inter> fst ` set ne = {}"
      using c(3) by (auto simp: set_delete)
    show "b - wrapper_size w = total wrapper_size (AList.delete k ev) + total wrapper_size ne"
      using t c(4) by simp
  qed (use c in \<open>auto simp: set_delete AList.distinct_delete\<close>)
qed

lemma content_touch:
  assumes "content_ok ev ne b m lim"
    and "\<And>w. wrapper_size (f w) = wrapper_size w" and "\<And>w. reference_count (f w) = reference_count w"
  shows "content_ok (touch k f ev) ne b m lim"
proof (cases "map_of ev k")
  case None
  then show ?thesis using assms(1) by (simp add: touch_def)
next
  case (Some w)
  note pop = content_pop[OF assms(1) Some] and c = content_okD[OF assms(1)]
  note d = content_okD[OF pop(1)]
  have b: "b = wrapper_size w + total wrapper_size (AList.delete k ev) + total wrapper_size ne"
    using d(4) pop(2) by simp
  show ?thesis
    unfolding touch_def Some option.case
    by (rule content_okI)
      (use c(5) d(1-3,5-8) b pop(2-5) assms(2,3) in auto)
qed

lemma content_pin:
  "content_ok ev ne b m lim \<Longrightarrow> k \<notin> fst ` set (ev @ ne) \<Longrightarrow> 0 < reference_count w \<Longrightarrow>
   b + wrapper_size w \<le> lim \<Longrightarrow>
   content_ok ev (ne @ [(k, w)]) (b + wrapper_size w) m lim"
  by (auto simp: content_ok_def)

lemma content_recount:
  assumes "content_ok ev ne b m lim" and "map_of ne k = Some w"
    and "wrapper_size v = wrapper_size w" and "0 < reference_count v"
  shows "content_ok ev (AList.update k v ne) b m lim"
proof -
  note c = content_okD[OF assms(1)]
  have t: "total wrapper_size (AList.update k v ne) = total wrapper_size ne"
    using total_update[OF c(2) assms(2), of wrapper_size v]
      total_delete[OF c(2) assms(2), of wrapper_size] assms(3) by simp
  have keys: "fst ` set (AList.update k v ne) = fst ` set ne"
    using map_of_key[OF assms(2)] by (auto simp: set_update[OF c(2)])
  show ?thesis
  proof (rule content_okI)
    show "fst ` set ev \<inter> fst ` set (AList.update k v ne) = {}" "m \<subseteq> fst ` set (AList.update k v ne)"
      unfolding keys using c(3,8) by simp_all
  qed (use c assms(4) in \<open>auto simp: t set_update[OF c(2)] AList.distinct_update\<close>)
qed

lemma content_mark:
  "content_ok ev ne b m lim \<Longrightarrow> k \<in> fst ` set ne \<Longrightarrow> content_ok ev ne b (insert k m) lim"
  by (simp add: content_ok_def)

lemma content_unpin:
  assumes "content_ok ev ne b m lim" and "map_of ne k = Some w"
  shows "content_ok ev (AList.delete k ne) (b - wrapper_size w) (m - {k}) lim"
    and "wrapper_size w \<le> b" and "k \<notin> fst ` set ev" and "0 < reference_count w"
    and "k \<notin> fst ` set (AList.delete k ne)"
proof -
  note c = content_okD[OF assms(1)]
  have t: "total wrapper_size ne = wrapper_size w + total wrapper_size (AList.delete k ne)"
    using total_delete[OF c(2) assms(2)] .
  show "k \<notin> fst ` set (AList.delete k ne)" by (auto simp: set_delete)
  show "wrapper_size w \<le> b" using t c(4) by simp
  show "0 < reference_count w" using c(7) map_of_SomeD[OF assms(2)] by fastforce
  show "k \<notin> fst ` set ev" using c(3) map_of_key[OF assms(2)] by blast
  have keys: "fst ` set (AList.delete k ne) = fst ` set ne - {k}" by (auto simp: set_delete)
  show "content_ok ev (AList.delete k ne) (b - wrapper_size w) (m - {k}) lim"
  proof (rule content_okI)
    show "b - wrapper_size w = total wrapper_size ev + total wrapper_size (AList.delete k ne)"
      using t c(4) by simp
  qed (use c in \<open>auto simp: keys set_delete AList.distinct_delete\<close>)
qed

lemma content_demote:
  assumes "content_ok ev ne b m lim" and "map_of ne k = Some w" and "k \<notin> m"
    and "wrapper_size v = wrapper_size w" and "reference_count v = 0"
  shows "content_ok ((k, v) # AList.delete k ev) (AList.delete k ne) b m lim"
proof -
  note u = content_unpin[OF assms(1,2)] and c = content_okD[OF assms(1)]
  note d = content_okD[OF u(1)]
  have b: "b = wrapper_size w + (total wrapper_size ev + total wrapper_size (AList.delete k ne))"
    using d(4) u(2) by simp
  have m: "m \<subseteq> fst ` set (AList.delete k ne)" using d(8) assms(3) by simp
  show ?thesis
    unfolding delete_absent[OF u(3)]
    by (rule content_okI) (use c(5) d(1-3,6,7) u(3,5) assms(4,5) b m in auto)
qed

section \<open>Effect of each operation\<close>

lemma evict_loop_strict: "evict_loop ops fuel lim False fs c = Ok (succ, files, c') \<Longrightarrow> succ"
  by (induction fuel arbitrary: fs c) (auto split: if_splits prod.splits)

definition refs :: "'l object_storage_cache \<Rightarrow> cache_key \<Rightarrow> nat" where
  "refs c k = (case map_of (non_evictable_cache c) k of None \<Rightarrow> 0 | Some w \<Rightarrow> reference_count w)"

definition cached_paths :: "('l \<Rightarrow> cache_alist) \<Rightarrow> 'l object_storage_cache \<Rightarrow> string list" where
  "cached_paths entries c =
     map (\<lambda>p. wrapper_path (snd p)) (entries (evictable_cache c) @ non_evictable_cache c)"

text \<open>
  \<open>effect entries c files gained lost fresh c'\<close>: the operation kept the invariant, pinned
  \<open>gained\<close> once more and \<open>lost\<close> once less, cached no path beyond the old ones and
  \<open>fresh\<close>, and, if the cached paths were distinct and the
  path \<open>fresh\<close> it introduces was not among them, the cached paths are again distinct and
  none of the \<open>files\<close> it releases for deletion is still cached.
\<close>

definition effect ::
    "('l \<Rightarrow> cache_alist) \<Rightarrow> 'l object_storage_cache \<Rightarrow> string list \<Rightarrow> cache_key option \<Rightarrow>
     cache_key option \<Rightarrow> string option \<Rightarrow> 'l object_storage_cache \<Rightarrow> bool" where
  "effect entries c files gained lost fresh c' \<longleftrightarrow>
     cache_inv entries c' \<and> config c' = config c \<and>
     set (cached_paths entries c') \<subseteq> set (cached_paths entries c) \<union> set_option fresh \<and>
     (\<forall>k. refs c' k + (if lost = Some k then 1 else 0) =
          refs c k + (if gained = Some k then 1 else 0)) \<and>
     (distinct (cached_paths entries c) \<longrightarrow> set_option fresh \<inter> set (cached_paths entries c) = {} \<longrightarrow>
        distinct (cached_paths entries c') \<and> set files \<inter> set (cached_paths entries c') = {})"

lemma effectI:
  assumes "cache_inv entries c'" and "config c' = config c"
    and "set (cached_paths entries c') \<subseteq> set (cached_paths entries c) \<union> set_option fresh"
    and "\<And>k. refs c' k + (if lost = Some k then 1 else 0) =
          refs c k + (if gained = Some k then 1 else 0)"
    and "distinct (cached_paths entries c) \<Longrightarrow> set_option fresh \<inter> set (cached_paths entries c) = {} \<Longrightarrow>
        distinct (cached_paths entries c')"
    and "distinct (cached_paths entries c) \<Longrightarrow> set_option fresh \<inter> set (cached_paths entries c) = {} \<Longrightarrow>
        set files \<inter> set (cached_paths entries c') = {}"
  shows "effect entries c files gained lost fresh c'"
  using assms by (simp add: effect_def)

lemma map_of_snoc:
  "k \<notin> fst ` set al \<Longrightarrow> map_of (al @ [(k, w)]) x = (if x = k then Some w else map_of al x)"
  by (induction al) auto

lemma disjoint_middle:
  "distinct (map f (xs @ ys @ zs)) \<Longrightarrow> A \<subseteq> f ` set ys \<Longrightarrow> A \<inter> f ` (set xs \<union> set zs) = {}"
proof -
  assume d: "distinct (map f (xs @ ys @ zs))" and A: "A \<subseteq> f ` set ys"
  have "set (map f xs) \<inter> (set (map f ys) \<union> set (map f zs)) = {}"
    and "set (map f ys) \<inter> set (map f zs) = {}"
    using d unfolding map_append distinct_append set_append by (iprover)+
  then have "f ` set ys \<inter> (f ` set xs \<union> f ` set zs) = {}"
    unfolding set_map Int_Un_distrib Un_empty by (simp add: Int_commute)
  then show ?thesis using A unfolding image_Un by (metis disjoint_iff subset_iff)
qed

lemma evicted_paths_subset: "set (evicted_paths d) \<subseteq> (\<lambda>p. wrapper_path (snd p)) ` set d"
  by (auto simp: evicted_paths_def)

lemma evicted_paths_Nil [simp]: "evicted_paths [] = []"
  by (simp add: evicted_paths_def)

text \<open>
  Inserting a pinned entry whose size is already in the byte count: used by the import,
  by the second half of a read, and by the hit on an evictable entry.
\<close>

lemma insert_non_evictable_effect:
  assumes ok: "lru_ok ops entries" and inv: "cache_inv entries c"
    and k: "k \<notin> fst ` set (entries (evictable_cache c))"
    and w: "reference_count w = 1"
    and step: "insert_non_evictable ops (c\<lparr>cur_bytes := cur_bytes c + wrapper_size w\<rparr>) k w
        (max_bytes (config c)) tolerate = Ok (succ, files, c')"
  shows "succ \<Longrightarrow> effect entries c files (Some k) None (Some (wrapper_path w)) c'"
    and "\<not> succ \<Longrightarrow> wrapper_size w \<le> cur_bytes c' \<and> effect entries c files None None None
        (c'\<lparr>cur_bytes := cur_bytes c' - wrapper_size w\<rparr>)"
    and "cur_bytes c + wrapper_size w \<le> max_bytes (config c) \<Longrightarrow> succ \<and> files = []"
proof -
  let ?c = "c\<lparr>cur_bytes := cur_bytes c + wrapper_size w\<rparr>"
  let ?lim = "max_bytes (config c)"
  note content = inv[unfolded cache_inv_def] and facts = content_okD[OF inv[unfolded cache_inv_def]]
  have pre: "k \<notin> fst ` set (entries (evictable_cache ?c))"
    "\<forall>p \<in> set (entries (evictable_cache ?c)). reference_count (snd p) = 0"
    "total wrapper_size (entries (evictable_cache ?c)) \<le> cur_bytes ?c"
    using k facts(4,6) by simp_all
  have split0: "evictable_cache ?c = evictable_cache c" by simp
  obtain kept dropped l where
    split: "entries (evictable_cache c) = kept @ dropped" "entries l = kept"
    and minimal: "dropped \<noteq> [] \<longrightarrow> cur_bytes ?c - total wrapper_size (tl dropped) > ?lim"
    and eq: "insert_non_evictable ops ?c k w ?lim tolerate =
      (if k \<in> fst ` set (non_evictable_cache ?c) then Panic AssertFailed
       else if cur_bytes ?c - total wrapper_size dropped \<le> ?lim then
         Ok (True, evicted_paths dropped,
           ?c\<lparr>evictable_cache := l, cur_bytes := cur_bytes ?c - total wrapper_size dropped,
             non_evictable_cache := non_evictable_cache ?c @ [(k, w)]\<rparr>)
       else if tolerate then
         Ok (False, evicted_paths dropped,
           ?c\<lparr>evictable_cache := l, cur_bytes := cur_bytes ?c - total wrapper_size dropped\<rparr>)
       else Panic AssertFailed)"
    using insert_non_evictable_spec[OF ok pre, of ?lim w tolerate] split0 by metis
  have kne: "k \<notin> fst ` set (non_evictable_cache c)"
    using step eq by (auto split: if_splits)
  have bytes: "total wrapper_size dropped \<le> cur_bytes c" using facts(4) split(1) by simp
  note kept = content_drop[OF content[unfolded split(1)]]
  have old: "cached_paths entries c =
      map (\<lambda>p. wrapper_path (snd p)) (kept @ dropped @ non_evictable_cache c)"
    by (simp add: cached_paths_def split(1))
  have gone: "set (evicted_paths dropped) \<inter>
      (\<lambda>p. wrapper_path (snd p)) ` (set kept \<union> set (non_evictable_cache c)) = {}"
    if "distinct (cached_paths entries c)"
    using disjoint_middle[OF that[unfolded old] evicted_paths_subset] .
  have files: "files = evicted_paths dropped"
    using step eq kne by (auto split: if_splits)
  show "effect entries c files (Some k) None (Some (wrapper_path w)) c'" if succ
  proof -
    have c': "c' = ?c\<lparr>evictable_cache := l, cur_bytes := cur_bytes ?c - total wrapper_size dropped,
        non_evictable_cache := non_evictable_cache c @ [(k, w)]\<rparr>"
      and le: "cur_bytes ?c - total wrapper_size dropped \<le> ?lim"
      using step eq kne that by (auto split: if_splits)
    have "content_ok kept (non_evictable_cache c @ [(k, w)])
        (cur_bytes c - total wrapper_size dropped + wrapper_size w) (evicted_entries c) ?lim"
      using kept k split(1) kne w le bytes by (intro content_pin) auto
    then have inv': "cache_inv entries c'"
      using bytes by (simp add: cache_inv_def c' split(2))
    have new: "cached_paths entries c' =
        map (\<lambda>p. wrapper_path (snd p)) (kept @ non_evictable_cache c) @ [wrapper_path w]"
      by (simp add: cached_paths_def c' split(2))
    show ?thesis
    proof (rule effectI)
      show "refs c' x + (if None = Some x then 1 else 0) =
          refs c x + (if Some k = Some x then 1 else 0)" for x
        using kne w by (auto simp: refs_def c' map_of_snoc map_of_eq_None_iff
            split: option.splits dest: map_of_key)
      show "set (cached_paths entries c') \<subseteq>
          set (cached_paths entries c) \<union> set_option (Some (wrapper_path w))"
        unfolding new old by auto
    next
      assume d: "distinct (cached_paths entries c)"
        and f: "set_option (Some (wrapper_path w)) \<inter> set (cached_paths entries c) = {}"
      show "distinct (cached_paths entries c')"
        using d f unfolding new old by auto
      show "set files \<inter> set (cached_paths entries c') = {}"
        using gone[OF d] f evicted_paths_subset[of dropped] unfolding new old files by auto
    qed (use inv' c' in simp_all)
  qed
  show "wrapper_size w \<le> cur_bytes c' \<and> effect entries c files None None None
        (c'\<lparr>cur_bytes := cur_bytes c' - wrapper_size w\<rparr>)" if "\<not> succ"
  proof -
    have c': "c' = ?c\<lparr>evictable_cache := l, cur_bytes := cur_bytes ?c - total wrapper_size dropped\<rparr>"
      using step eq kne that by (auto split: if_splits)
    let ?d = "c'\<lparr>cur_bytes := cur_bytes c' - wrapper_size w\<rparr>"
    have "cache_inv entries ?d"
      using kept by (simp add: cache_inv_def c' split(2))
    moreover have new: "cached_paths entries ?d =
        map (\<lambda>p. wrapper_path (snd p)) (kept @ non_evictable_cache c)"
      by (simp add: cached_paths_def c' split(2))
    moreover have "effect entries c files None None None ?d"
    proof (rule effectI)
      show "set (cached_paths entries ?d) \<subseteq> set (cached_paths entries c) \<union> set_option None"
        unfolding new old by auto
    next
      assume d: "distinct (cached_paths entries c)"
      show "distinct (cached_paths entries ?d)"
        using d unfolding new old by auto
      show "set files \<inter> set (cached_paths entries ?d) = {}"
        using gone[OF d] unfolding new files by (simp add: image_Un)
    qed (use calculation(1) in \<open>simp_all add: c' refs_def\<close>)
    ultimately show ?thesis using bytes by (simp add: c')
  qed
  show "succ \<and> files = []" if "cur_bytes c + wrapper_size w \<le> ?lim"
  proof -
    have "dropped = []" using minimal that by (cases dropped) auto
    then show ?thesis using step eq kne that by auto
  qed
qed

lemma insert_key_fresh:
  assumes "lru_ok ops entries" and "insert_non_evictable ops c k w lim tol = Ok r"
  shows "k \<notin> fst ` set (entries (evictable_cache c))"
proof -
  obtain old l where get: "lru_get ops (evictable_cache c) k = (old, l)" by fastforce
  then have "old = None" using assms(2) by (auto simp: insert_non_evictable_def)
  then show ?thesis using lru_okD(4)[OF assms(1) get] by (simp add: map_of_None_fst)
qed

lemma import_effect:
  assumes "lru_ok ops entries" and "cache_inv entries c"
    and "import_cache_entry ops c k e = Ok (h, files, c')"
  shows "effect entries c files (Some k) None (Some (cache_filepath e)) c'"
proof -
  let ?w = "\<lparr>cache_entry = e, reference_count = 1, deletable = True\<rparr>"
  obtain succ where step: "insert_non_evictable ops (c\<lparr>cur_bytes := cur_bytes c + wrapper_size ?w\<rparr>)
      k ?w (max_bytes (config c)) False = Ok (succ, files, c')"
    using assms(3) by (auto simp: import_cache_entry_def split: prod.splits)
  have k: "k \<notin> fst ` set (entries (evictable_cache c))"
    using insert_key_fresh[OF assms(1) step] by simp
  have succ
    using step by (auto simp: insert_non_evictable_def evict_cache_entries_def check_def Let_def
        split: prod.splits if_splits dest: evict_loop_strict)
  then show ?thesis
    using insert_non_evictable_effect(1)[OF assms(1,2) k _ step] by simp
qed

lemma fetched_effect:
  assumes "lru_ok ops entries" and "cache_inv entries c" and "reference_count w = 1"
    and "get_cache_entry_insert ops c k w = Ok (h, files, c')"
  shows "effect entries c files (if h = None then None else Some k) None
    (Some (wrapper_path w)) c'"
proof -
  obtain succ d where step: "insert_non_evictable ops (c\<lparr>cur_bytes := cur_bytes c + wrapper_size w\<rparr>)
      k w (max_bytes (config c)) True = Ok (succ, files, d)"
    and h: "succ \<Longrightarrow> h \<noteq> None \<and> c' = d"
      "\<not> succ \<Longrightarrow> h = None \<and> c' = d\<lparr>cur_bytes := cur_bytes d - wrapper_size w\<rparr>"
    using assms(4)
    by (auto simp: get_cache_entry_insert_def Let_def split: prod.splits if_splits)
  have k: "k \<notin> fst ` set (entries (evictable_cache c))"
    using insert_key_fresh[OF assms(1) step] by simp
  note eff = insert_non_evictable_effect[OF assms(1,2) k assms(3) step]
  show ?thesis
    using eff(1,2) h by (cases succ) (auto simp: effect_def)
qed

text \<open>
  A lookup on a cached key is a hit: it never evicts, its assertions hold, and the handle
  carries the cached entry.
\<close>

lemma lookup_pinned:
  assumes "map_of (non_evictable_cache c) k = Some w"
    and "get_cache_entry_lookup ops c k = Ok (h, c')"
  shows "h = Some \<lparr>handle_file_id = k, handle_cache_entry = cache_entry w\<rparr>"
    and "c' = c\<lparr>non_evictable_cache := AList.update k
      (w\<lparr>reference_count := Suc (reference_count w)\<rparr>) (non_evictable_cache c)\<rparr>"
  using assms by (auto simp: get_cache_entry_lookup_def)

lemma update_same_field:
  "map_of al k = Some w \<Longrightarrow> f v = f w \<Longrightarrow>
   map (\<lambda>p. f (snd p)) (AList.update k v al) = map (\<lambda>p. f (snd p)) al"
  by (induction al) auto

lemma recount_effect:
  assumes "cache_inv entries c" and "map_of (non_evictable_cache c) k = Some w"
    and "wrapper_size v = wrapper_size w" and "wrapper_path v = wrapper_path w"
    and "0 < reference_count v"
    and "\<And>x. (if x = k then reference_count v else refs c x) + (if lost = Some x then 1 else 0) =
      refs c x + (if gained = Some x then 1 else 0)"
  shows "effect entries c [] gained lost None
    (c\<lparr>non_evictable_cache := AList.update k v (non_evictable_cache c)\<rparr>)"
proof -
  let ?ne = "non_evictable_cache c"
  have paths: "map (\<lambda>p. wrapper_path (snd p)) (AList.update k v ?ne) =
      map (\<lambda>p. wrapper_path (snd p)) ?ne"
    using update_same_field[of ?ne k w wrapper_path v] assms(2,4) by simp
  show ?thesis
  proof (rule effectI)
    show "cache_inv entries (c\<lparr>non_evictable_cache := AList.update k v ?ne\<rparr>)"
      using content_recount[OF assms(1)[unfolded cache_inv_def] assms(2,3,5)]
      by (simp add: cache_inv_def)
    show "refs (c\<lparr>non_evictable_cache := AList.update k v ?ne\<rparr>) x + (if lost = Some x then 1 else 0) =
        refs c x + (if gained = Some x then 1 else 0)" for x
      using assms(6)[of x] by (auto simp: refs_def AList.update_conv' split: if_splits)
  qed (simp_all add: cached_paths_def paths)
qed

lemma paths_delete:
  assumes "map_of al k = Some w" and "distinct (map fst al)"
  shows "mset (map (\<lambda>p. f (snd p)) al) = add_mset (f w) (mset (map (\<lambda>p. f (snd p)) (AList.delete k al)))"
  using assms by (induction al) (auto simp: delete_absent)

lemma lookup_effect:
  assumes ok: "lru_ok ops entries" and inv: "cache_inv entries c"
    and step: "get_cache_entry_lookup ops c k = Ok (h, c')"
  shows "effect entries c [] (if h = None then None else Some k) None None c'"
proof (cases "map_of (non_evictable_cache c) k")
  case (Some w)
  note look = lookup_pinned[OF Some step]
  show ?thesis
    unfolding look
    using Some by (auto intro!: recount_effect[OF inv Some] simp: refs_def)
next
  case None
  obtain v l where pop: "lru_pop ops (evictable_cache c) k = (v, l)" by fastforce
  note v = lru_okD(7)[OF ok pop]
  show ?thesis
  proof (cases v)
    case None
    then have "k \<notin> fst ` set (entries (evictable_cache c))"
      using v by (simp add: map_of_None_fst)
    then have l: "entries l = entries (evictable_cache c)" using v by (simp add: delete_absent)
    have "h = None" "c' = c\<lparr>evictable_cache := l\<rparr>"
      using step None \<open>map_of (non_evictable_cache c) k = None\<close> pop
      by (auto simp: get_cache_entry_lookup_def)
    then show ?thesis using inv l
      by (auto simp: effect_def cache_inv_def cached_paths_def refs_def)
  next
    case (Some w)
    have mo: "map_of (entries (evictable_cache c)) k = Some w" using v Some by simp
    note content = inv[unfolded cache_inv_def]
    note p = content_pop[OF content mo]
    let ?d = "c\<lparr>evictable_cache := l, cur_bytes := cur_bytes c - wrapper_size w\<rparr>"
    let ?w = "w\<lparr>reference_count := 1\<rparr>"
    obtain succ files where ins: "insert_non_evictable ops (c\<lparr>evictable_cache := l\<rparr>) k ?w
        (max_bytes (config c)) True = Ok (succ, files, c')" and h: "h \<noteq> None"
      using step Some \<open>map_of (non_evictable_cache c) k = None\<close> pop
      by (auto simp: get_cache_entry_lookup_def split: prod.splits)
    have eq: "c\<lparr>evictable_cache := l\<rparr> = ?d\<lparr>cur_bytes := cur_bytes ?d + wrapper_size ?w\<rparr>"
      using p(2) by simp
    have cfg: "config ?d = config c" by simp
    have d: "cache_inv entries ?d" using p(1) v by (simp add: cache_inv_def)
    have kd: "k \<notin> fst ` set (entries (evictable_cache ?d))" using p(5) v by simp
    have le: "cur_bytes ?d + wrapper_size ?w \<le> max_bytes (config ?d)"
      using p(2) content_okD(5)[OF content] by simp
    have ins': "insert_non_evictable ops (?d\<lparr>cur_bytes := cur_bytes ?d + wrapper_size ?w\<rparr>) k ?w
        (max_bytes (config ?d)) True = Ok (succ, files, c')"
      using ins eq by (metis cfg)
    note eff = insert_non_evictable_effect[OF ok d kd _ ins']
    have succ: succ and files: "files = []" using eff(3) le by auto
    have e: "effect entries ?d [] (Some k) None (Some (wrapper_path w)) c'"
      using eff(1) succ files by simp
    have paths: "mset (cached_paths entries c) = add_mset (wrapper_path w) (mset (cached_paths entries ?d))"
      using paths_delete[OF mo content_okD(1)[OF content], of wrapper_path] v
      by (simp add: cached_paths_def)
    have "distinct (cached_paths entries c) \<Longrightarrow> distinct (cached_paths entries ?d)
        \<and> wrapper_path w \<notin> set (cached_paths entries ?d)"
      using paths by (metis distinct.simps(2) mset.simps(2) mset_eq_imp_distinct_iff)
    moreover have "set (cached_paths entries c) = insert (wrapper_path w) (set (cached_paths entries ?d))"
      using paths by (metis list.simps(15) mset.simps(2) mset_eq_setD)
    ultimately show ?thesis
      using e h by (auto simp: effect_def refs_def)
  qed
qed

text \<open>
  Two ways the cached paths shrink or change place: an entry leaves and its path is the
  only one released, or an entry moves between the two caches.
\<close>

lemma paths_leave:
  assumes "mset (cached_paths entries c) = add_mset (wrapper_path w) (mset (cached_paths entries c'))"
    and "set files \<subseteq> {wrapper_path w}" and "distinct (cached_paths entries c)"
  shows "distinct (cached_paths entries c')" and "set files \<inter> set (cached_paths entries c') = {}"
proof -
  have "distinct (wrapper_path w # cached_paths entries c')"
    using assms(1,3) by (metis mset.simps(2) mset_eq_imp_distinct_iff)
  then show "distinct (cached_paths entries c')" "set files \<inter> set (cached_paths entries c') = {}"
    using assms(2) by auto
qed

lemma paths_leave_subset:
  "mset (cached_paths entries c) = add_mset a (mset (cached_paths entries c')) \<Longrightarrow>
   set (cached_paths entries c') \<subseteq> set (cached_paths entries c)"
  by (metis mset.simps(2) mset_eq_setD set_subset_Cons)

lemma effect_same:
  "cache_inv entries c' \<Longrightarrow> config c' = config c \<Longrightarrow> refs c' = refs c \<Longrightarrow>
   cached_paths entries c' = cached_paths entries c \<Longrightarrow> effect entries c [] None None None c'"
  by (simp add: effect_def)

lemma delete_effect:
  assumes ok: "lru_ok ops entries" and inv: "cache_inv entries c"
    and step: "delete_cache_entry ops c k panic = Ok (files, c')"
  shows "effect entries c files None None None c'"
proof -
  note content = inv[unfolded cache_inv_def]
  obtain v l where pop: "lru_pop ops (evictable_cache c) k = (v, l)" by fastforce
  note v = lru_okD(7)[OF ok pop]
  show ?thesis
  proof (cases v)
    case None
    then have "k \<notin> fst ` set (entries (evictable_cache c))"
      using v by (simp add: map_of_None_fst)
    then have l: "entries l = entries (evictable_cache c)" using v by (simp add: delete_absent)
    show ?thesis
    proof (cases "map_of (non_evictable_cache c) k")
      case mo: None
      then have "files = []" "c' = c\<lparr>evictable_cache := l\<rparr>"
        using step pop None by (auto simp: delete_cache_entry_def split: if_splits)
      then show ?thesis
        using inv l by (auto intro!: effect_same simp: cache_inv_def cached_paths_def refs_def)
    next
      case mo: (Some w)
      then have "files = []"
        "c' = c\<lparr>evictable_cache := l, evicted_entries := insert k (evicted_entries c)\<rparr>"
        using step pop None by (auto simp: delete_cache_entry_def)
      then show ?thesis
        using l content_mark[OF content map_of_key[OF mo]]
        by (auto intro!: effect_same simp: cache_inv_def cached_paths_def refs_def)
    qed
  next
    case (Some w)
    have mo: "map_of (entries (evictable_cache c)) k = Some w" using v Some by simp
    note p = content_pop[OF content mo]
    have c': "c' = c\<lparr>evictable_cache := l, cur_bytes := cur_bytes c - wrapper_size w\<rparr>"
      and files: "set files \<subseteq> {wrapper_path w}"
      using step pop Some by (auto simp: delete_cache_entry_def split: if_splits)
    have paths: "mset (cached_paths entries c) = add_mset (wrapper_path w) (mset (cached_paths entries c'))"
      using paths_delete[OF mo content_okD(1)[OF content], of wrapper_path] v
      by (simp add: cached_paths_def c')
    show ?thesis
      using p(1) v paths_leave[OF paths files] paths_leave_subset[OF paths]
      by (intro effectI) (simp_all add: c' cache_inv_def refs_def)
  qed
qed

lemma unreference_effect:
  assumes ok: "lru_ok ops entries" and inv: "cache_inv entries c"
    and step: "unreference ops c k = Ok (files, c')"
  shows "effect entries c files None (Some k) None c'"
proof -
  note content = inv[unfolded cache_inv_def]
  obtain w where mo: "map_of (non_evictable_cache c) k = Some w"
    using step by (auto simp: unreference_def split: option.splits)
  note u = content_unpin[OF content mo]
  define n where "n = reference_count w - 1"
  have rc: "reference_count w = Suc n" using u(4) by (simp add: n_def)
  have paths: "mset (map (\<lambda>p. wrapper_path (snd p)) (non_evictable_cache c)) =
      add_mset (wrapper_path w)
        (mset (map (\<lambda>p. wrapper_path (snd p)) (AList.delete k (non_evictable_cache c))))"
    using paths_delete[OF mo content_okD(2)[OF content]] .
  consider (keep) "n \<noteq> 0" | (drop) "n = 0" "k \<in> evicted_entries c" | (demote) "n = 0" "k \<notin> evicted_entries c"
    by blast
  then show ?thesis
  proof cases
    case keep
    then have eq: "files = []" "c' = c\<lparr>non_evictable_cache :=
        AList.update k (w\<lparr>reference_count := n\<rparr>) (non_evictable_cache c)\<rparr>"
      using step mo rc by (auto simp: unreference_def)
    show ?thesis
      unfolding eq using keep mo rc
      by (intro recount_effect[OF inv mo]) (auto simp: refs_def)
  next
    case drop
    then have c': "c' = c\<lparr>non_evictable_cache := AList.delete k (non_evictable_cache c),
        evicted_entries := evicted_entries c - {k}, cur_bytes := cur_bytes c - wrapper_size w\<rparr>"
      and files: "set files \<subseteq> {wrapper_path w}"
      using step mo rc by (auto simp: unreference_def Let_def split: if_splits)
    have all: "mset (cached_paths entries c) = add_mset (wrapper_path w) (mset (cached_paths entries c'))"
      using paths by (simp add: cached_paths_def c')
    show ?thesis
      using u(1) mo rc drop(1) paths_leave[OF all files] paths_leave_subset[OF all]
      by (intro effectI) (auto simp: c' cache_inv_def refs_def AList.delete_conv')
  next
    case demote
    let ?v = "w\<lparr>reference_count := 0\<rparr>"
    have eq: "files = []" "c' = c\<lparr>non_evictable_cache := AList.delete k (non_evictable_cache c),
        evictable_cache := lru_push ops (evictable_cache c) k ?v\<rparr>"
      using step mo rc demote by (auto simp: unreference_def Let_def)
    have push: "entries (evictable_cache c') = (k, ?v) # AList.delete k (entries (evictable_cache c))"
      using lru_okD(6)[OF ok] by (simp add: eq(2))
    have ms: "mset (cached_paths entries c) = mset (cached_paths entries c')"
      using paths u(3) by (simp add: cached_paths_def push delete_absent) (simp add: eq(2))
    then have same: "distinct (cached_paths entries c) = distinct (cached_paths entries c')"
      by (rule mset_eq_imp_distinct_iff)
    have sub: "set (cached_paths entries c') \<subseteq> set (cached_paths entries c) \<union> set_option None"
      using mset_eq_setD[OF ms] by simp
    show ?thesis
    proof (rule effectI)
      have "content_ok ((k, ?v) # AList.delete k (entries (evictable_cache c)))
          (AList.delete k (non_evictable_cache c)) (cur_bytes c) (evicted_entries c)
          (max_bytes (config c))"
        by (rule content_demote[OF content mo demote(2)]) simp_all
      then show "cache_inv entries c'" by (simp add: cache_inv_def push) (simp add: eq(2))
      show "refs c' x + (if Some k = Some x then 1 else 0) = refs c x + (if None = Some x then 1 else 0)"
        for x
        using mo rc demote(1) by (auto simp: eq(2) refs_def AList.delete_conv')
    qed (use sub in \<open>simp_all add: eq same\<close>)
  qed
qed

lemma paths_replaced:
  assumes "mset old = add_mset a m" and "mset new = add_mset b m"
    and "distinct old" and "b \<notin> set old"
  shows "distinct new" and "a \<notin> set new"
proof -
  obtain xs where xs: "mset xs = m" using ex_mset by blast
  have o: "mset old = mset (a # xs)" and n: "mset new = mset (b # xs)"
    using assms(1,2) xs by simp_all
  have "distinct (a # xs)" using o assms(3) by (metis mset_eq_imp_distinct_iff)
  moreover have "b \<notin> set (a # xs)" using o assms(4) by (metis mset_eq_setD)
  ultimately have "distinct (b # xs)" "a \<notin> set (b # xs)" by auto
  then show "distinct new" "a \<notin> set new"
    using n by (metis mset_eq_imp_distinct_iff, metis mset_eq_setD)
qed

lemma paths_replaced_subset:
  "mset old = add_mset a m \<Longrightarrow> mset new = add_mset b m \<Longrightarrow> set new \<subseteq> set old \<union> {b}"
  by (metis Un_insert_right insertCI insertE insert_absorb2 set_mset_add_mset_insert set_mset_mset
      subsetI sup_bot.right_neutral)

lemma with_remote_path_simps [simp]:
  "wrapper_size (with_remote_path r w) = wrapper_size w"
  "reference_count (with_remote_path r w) = reference_count w"
  "wrapper_path (with_remote_path r w) = r"
  "\<not> deletable (with_remote_path r w)"
  by (simp_all add: with_remote_path_def)

lemma replace_evictable_effect:
  assumes ok: "lru_ok ops entries" and inv: "cache_inv entries c"
    and step: "try_replace_evictable_with_remote ops is_local c k r = (files, c')"
  shows "effect entries c files None None (Some r) c'"
proof -
  note content = inv[unfolded cache_inv_def]
  obtain v l where get: "lru_get_mut ops (evictable_cache c) k (with_remote_path r) = (v, l)"
    by fastforce
  note v = lru_okD(5)[OF ok get]
  have skip: "effect entries c [] None None (Some r) c" using inv by (auto simp: effect_def)
  have inv': "cache_inv entries (c\<lparr>evictable_cache := l\<rparr>)"
    using content_touch[OF content, of "with_remote_path r" k] v by (simp add: cache_inv_def)
  show ?thesis
  proof (cases "optimize_local_filesystem (config c) \<and> is_local r")
    case False
    then show ?thesis
      using step skip by (auto simp: try_replace_evictable_with_remote_def split: if_splits)
  next
    case True
    show ?thesis
    proof (cases v)
      case None
      then have eq: "files = []" "c' = c\<lparr>evictable_cache := l\<rparr>"
        using step True get by (auto simp: try_replace_evictable_with_remote_def)
      have "k \<notin> fst ` set (entries (evictable_cache c))"
        using v None by (metis map_of_None_fst)
      then have "entries l = entries (evictable_cache c)" using v by (simp add: touch_absent)
      then show ?thesis
        unfolding eq using inv' by (auto simp: effect_def refs_def cached_paths_def)
    next
      case (Some w)
      then have eq: "files = [wrapper_path w]" "c' = c\<lparr>evictable_cache := l\<rparr>"
        using step True get by (auto simp: try_replace_evictable_with_remote_def)
      have mo: "map_of (entries (evictable_cache c)) k = Some w" using v Some by simp
      let ?m = "mset (map (\<lambda>p. wrapper_path (snd p))
          (AList.delete k (entries (evictable_cache c)) @ non_evictable_cache c))"
      have old: "mset (cached_paths entries c) = add_mset (wrapper_path w) ?m"
        using paths_delete[OF mo content_okD(1)[OF content], of wrapper_path]
        by (simp add: cached_paths_def)
      have new: "mset (cached_paths entries c') = add_mset r ?m"
        using v mo by (simp add: cached_paths_def eq(2) touch_def)
      show ?thesis
        using inv' paths_replaced[OF old new] paths_replaced_subset[OF old new]
        by (intro effectI) (auto simp: eq refs_def)
    qed
  qed
qed

lemma replace_only_reference_effect:
  assumes inv: "cache_inv entries c"
    and step: "try_replace_only_reference_count_with_remote is_local c k r = Ok (files, c')"
  shows "effect entries c files None None (Some r) c'"
proof -
  note content = inv[unfolded cache_inv_def]
  have skip: "effect entries c [] None None (Some r) c" using inv by (auto simp: effect_def)
  show ?thesis
  proof (cases "files = []")
    case True
    then show ?thesis
      using step skip
      by (auto simp: try_replace_only_reference_count_with_remote_def split: if_splits option.splits)
  next
    case False
    then obtain w where mo: "map_of (non_evictable_cache c) k = Some w"
      and eq: "files = [wrapper_path w]" "c' = c\<lparr>non_evictable_cache :=
          AList.update k (with_remote_path r w) (non_evictable_cache c)\<rparr>"
      using step
      by (auto simp: try_replace_only_reference_count_with_remote_def split: if_splits option.splits)
    let ?ne = "non_evictable_cache c"
    let ?m = "mset (map (\<lambda>p. wrapper_path (snd p))
        (entries (evictable_cache c) @ AList.delete k ?ne))"
    have d: "distinct (map fst ?ne)" using content_okD(2)[OF content] .
    have old: "mset (cached_paths entries c) = add_mset (wrapper_path w) ?m"
      using paths_delete[OF mo d, of wrapper_path] by (simp add: cached_paths_def)
    have upd: "map_of (AList.update k (with_remote_path r w) ?ne) k = Some (with_remote_path r w)"
      by (simp add: AList.update_conv')
    have del: "AList.delete k (AList.update k (with_remote_path r w) ?ne) = AList.delete k ?ne"
      by (rule delete_update_same)
    have new: "mset (cached_paths entries c') = add_mset r ?m"
      using paths_delete[OF upd AList.distinct_update[OF d], of wrapper_path]
      by (simp add: cached_paths_def eq(2) del)
    have pos: "0 < reference_count w" using content_unpin(4)[OF content mo] .
    have inv': "cache_inv entries c'"
      using content_recount[OF content mo, of "with_remote_path r w"] pos
      by (simp add: cache_inv_def eq(2))
    show ?thesis
      using inv' paths_replaced[OF old new] paths_replaced_subset[OF old new] mo
      by (intro effectI) (auto simp: eq refs_def AList.update_conv')
  qed
qed

lemma effect_trans:
  "effect entries c [] None lost None d \<Longrightarrow> effect entries d files None None fresh c' \<Longrightarrow>
   effect entries c files None lost fresh c'"
  unfolding effect_def by (simp add: disjoint_iff) blast

section \<open>Callers of the cache\<close>

text \<open>
  A step of the system is one critical section entered by some caller. \<open>held\<close> is the
  multiset of keys of the handles that callers hold: a handle is gained when a call
  returns one (or by \<^verbatim>\<open>increment_reference_count\<close>) and given up by the calls that
  unreference. The calls that release a handle need one (\<open>caller_ok\<close>).
\<close>

datatype cache_op =
    ImportEntry cache_key cache_entry
  | LookupEntry cache_key
  | InsertFetched cache_key cache_entry_wrapper
  | TryDelete cache_key
  | Increment non_evictable_handle
  | Unreference non_evictable_handle
  | UnreferenceAndDelete non_evictable_handle
  | UnreferenceAndReplace non_evictable_handle string
  | ReplaceWithRemote non_evictable_handle string

definition cache_step ::
    "'l lru_ops \<Rightarrow> (string \<Rightarrow> bool) \<Rightarrow> 'l object_storage_cache \<Rightarrow> cache_op \<Rightarrow>
     (string list \<times> cache_key option \<times> 'l object_storage_cache) res" where
  "cache_step ops is_local c op = (case op of
       ImportEntry k e \<Rightarrow>
         res_bind (import_cache_entry ops c k e) (\<lambda>(h, files, c). Ok (files, Some k, c))
     | LookupEntry k \<Rightarrow>
         res_bind (get_cache_entry_lookup ops c k)
           (\<lambda>(h, c). Ok ([], if h = None then None else Some k, c))
     | InsertFetched k w \<Rightarrow>
         res_bind (get_cache_entry_insert ops c k w)
           (\<lambda>(h, files, c). Ok (files, if h = None then None else Some k, c))
     | TryDelete k \<Rightarrow>
         res_bind (try_delete_cache_entry ops c k) (\<lambda>(files, c). Ok (files, None, c))
     | Increment h \<Rightarrow>
         res_bind (increment_reference_count c h) (\<lambda>c. Ok ([], Some (handle_file_id h), c))
     | Unreference h \<Rightarrow>
         res_bind (handle_unreference ops c h) (\<lambda>(files, c). Ok (files, None, c))
     | UnreferenceAndDelete h \<Rightarrow>
         res_bind (unreference_and_delete ops c h) (\<lambda>(files, c). Ok (files, None, c))
     | UnreferenceAndReplace h r \<Rightarrow>
         res_bind (unreference_and_replace_with_remote ops is_local c h r)
           (\<lambda>(files, c). Ok (files, None, c))
     | ReplaceWithRemote h r \<Rightarrow>
         res_bind (replace_with_remote is_local c h r) (\<lambda>(files, _, c). Ok (files, None, c)))"

definition released :: "cache_op \<Rightarrow> cache_key option" where
  "released op = (case op of
       Unreference h \<Rightarrow> Some (handle_file_id h)
     | UnreferenceAndDelete h \<Rightarrow> Some (handle_file_id h)
     | UnreferenceAndReplace h _ \<Rightarrow> Some (handle_file_id h)
     | _ \<Rightarrow> None)"

definition new_path :: "cache_op \<Rightarrow> string option" where
  "new_path op = (case op of
       ImportEntry _ e \<Rightarrow> Some (cache_filepath e)
     | InsertFetched _ w \<Rightarrow> Some (wrapper_path w)
     | UnreferenceAndReplace _ r \<Rightarrow> Some r
     | ReplaceWithRemote _ r \<Rightarrow> Some r
     | _ \<Rightarrow> None)"

lemma cache_step_effect:
  assumes ok: "lru_ok ops entries" and inv: "cache_inv entries c"
    and fetched: "\<And>k w. op = InsertFetched k w \<Longrightarrow> reference_count w = 1"
    and step: "cache_step ops is_local c op = Ok (files, gained, c')"
  shows "effect entries c files gained (released op) (new_path op) c'"
proof (cases op)
  case (ImportEntry k e)
  then show ?thesis
    using step import_effect[OF ok inv]
    by (auto simp: cache_step_def released_def new_path_def split: prod.splits)
next
  case (LookupEntry k)
  then show ?thesis
    using step lookup_effect[OF ok inv]
    by (auto simp: cache_step_def released_def new_path_def split: prod.splits)
next
  case (InsertFetched k w)
  then show ?thesis
    using step fetched_effect[OF ok inv fetched[OF InsertFetched]]
    by (auto simp: cache_step_def released_def new_path_def split: prod.splits)
next
  case (TryDelete k)
  then show ?thesis
    using step delete_effect[OF ok inv]
    by (auto simp: cache_step_def released_def new_path_def try_delete_cache_entry_def
        split: prod.splits)
next
  case (Increment h)
  then obtain w where mo: "map_of (non_evictable_cache c) (handle_file_id h) = Some w"
    and eq: "files = []" "gained = Some (handle_file_id h)"
      "c' = c\<lparr>non_evictable_cache := AList.update (handle_file_id h)
        (w\<lparr>reference_count := Suc (reference_count w)\<rparr>) (non_evictable_cache c)\<rparr>"
    using step by (auto simp: cache_step_def increment_reference_count_def split: option.splits)
  show ?thesis
    unfolding eq using mo Increment
    by (auto intro!: recount_effect[OF inv mo] simp: released_def new_path_def refs_def)
next
  case (Unreference h)
  then show ?thesis
    using step unreference_effect[OF ok inv]
    by (auto simp: cache_step_def released_def new_path_def handle_unreference_def
        split: prod.splits)
next
  case (UnreferenceAndDelete h)
  then obtain d where u: "unreference ops c (handle_file_id h) = Ok ([], d)"
    and d: "delete_cache_entry ops d (handle_file_id h) True = Ok (files, c')" "gained = None"
    using step by (auto simp: cache_step_def unreference_and_delete_def split: prod.splits)
  note e = unreference_effect[OF ok inv u]
  have "cache_inv entries d" using e by (simp add: effect_def)
  from effect_trans[OF e delete_effect[OF ok this d(1)]] show ?thesis
    using UnreferenceAndDelete d(2) by (simp add: released_def new_path_def)
next
  case (UnreferenceAndReplace h r)
  then obtain d where u: "unreference ops c (handle_file_id h) = Ok ([], d)"
    and d: "try_replace_evictable_with_remote ops is_local d (handle_file_id h) r = (files, c')"
      "gained = None"
    using step
    by (auto simp: cache_step_def unreference_and_replace_with_remote_def split: prod.splits)
  note e = unreference_effect[OF ok inv u]
  have "cache_inv entries d" using e by (simp add: effect_def)
  from effect_trans[OF e replace_evictable_effect[OF ok this d(1)]] show ?thesis
    using UnreferenceAndReplace d(2) by (simp add: released_def new_path_def)
next
  case (ReplaceWithRemote h r)
  then show ?thesis
    using step replace_only_reference_effect[OF inv]
    by (auto simp: cache_step_def released_def new_path_def replace_with_remote_def
        split: prod.splits)
qed

record 'l cache_system =
  cache :: "'l object_storage_cache"
  held :: "cache_key multiset"
  to_delete :: "string list"

definition opt_mset :: "'a option \<Rightarrow> 'a multiset" where
  "opt_mset x = (case x of None \<Rightarrow> {#} | Some a \<Rightarrow> {#a#})"

definition system_step ::
    "'l lru_ops \<Rightarrow> (string \<Rightarrow> bool) \<Rightarrow> 'l cache_system \<Rightarrow> cache_op \<Rightarrow> 'l cache_system res" where
  "system_step ops is_local s op =
     res_bind (cache_step ops is_local (cache s) op) (\<lambda>(files, gained, c).
       Ok \<lparr>cache = c, held = held s + opt_mset gained - opt_mset (released op),
           to_delete = to_delete s @ files\<rparr>)"

text \<open>
  What callers ensure: they release only handles they hold, a fetched file comes with one
  reference, and the local path of a new file has not been used before (the program
  names them with fresh UUIDs).
\<close>

definition caller_ok :: "('l \<Rightarrow> cache_alist) \<Rightarrow> 'l cache_system \<Rightarrow> cache_op \<Rightarrow> bool" where
  "caller_ok entries s op \<longleftrightarrow>
     set_option (released op) \<subseteq> set_mset (held s) \<and>
     (case op of InsertFetched _ w \<Rightarrow> reference_count w = 1 | _ \<Rightarrow> True) \<and>
     set_option (new_path op) \<inter> (set (cached_paths entries (cache s)) \<union> set (to_delete s)) = {}"

definition system_inv :: "'l lru_ops \<Rightarrow> ('l \<Rightarrow> cache_alist) \<Rightarrow> 'l cache_system \<Rightarrow> bool" where
  "system_inv ops entries s \<longleftrightarrow> lru_ok ops entries \<and> cache_inv entries (cache s) \<and>
     (\<forall>k. count (held s) k = refs (cache s) k) \<and>
     distinct (cached_paths entries (cache s)) \<and>
     set (to_delete s) \<inter> set (cached_paths entries (cache s)) = {}"

lemma system_step_inv:
  assumes inv: "system_inv ops entries s" and caller: "caller_ok entries s op"
    and step: "system_step ops is_local s op = Ok t"
  shows "system_inv ops entries t"
proof -
  obtain files gained c where c: "cache_step ops is_local (cache s) op = Ok (files, gained, c)"
    and t: "t = \<lparr>cache = c, held = held s + opt_mset gained - opt_mset (released op),
        to_delete = to_delete s @ files\<rparr>"
    using step by (auto simp: system_step_def split: prod.splits)
  have e: "effect entries (cache s) files gained (released op) (new_path op) c"
    by (rule cache_step_effect[OF _ _ _ c])
      (use inv caller in \<open>auto simp: system_inv_def caller_ok_def\<close>)
  have "count (held t) k = refs c k" for k
  proof -
    have "refs c k + (if released op = Some k then 1 else 0) =
        refs (cache s) k + (if gained = Some k then 1 else 0)"
      using e by (simp add: effect_def)
    then show ?thesis
      using inv unfolding t system_inv_def opt_mset_def
      by (auto split: option.splits if_splits)
  qed
  moreover have "set (to_delete t) \<inter> set (cached_paths entries c) = {}"
  proof -
    have "set (cached_paths entries c) \<subseteq>
        set (cached_paths entries (cache s)) \<union> set_option (new_path op)"
      using e by (simp add: effect_def)
    then have "set (to_delete s) \<inter> set (cached_paths entries c) = {}"
      using inv caller unfolding system_inv_def caller_ok_def by blast
    then show ?thesis
      using e inv caller unfolding t effect_def system_inv_def caller_ok_def by auto
  qed
  ultimately show ?thesis
    using e inv caller unfolding system_inv_def caller_ok_def effect_def
    by (auto simp: t)
qed

interpretation cache_callers: stateful_component "system_step ops is_local" "caller_ok entries"
    "system_inv ops entries"
  for ops is_local entries
  by unfold_locales (rule system_step_inv)

section \<open>Properties\<close>

text \<open>The recency list itself is a container that satisfies the assumption on the crate.\<close>

definition list_lru :: "cache_alist lru_ops" where
  "list_lru = \<lparr>
     lru_unbounded = [],
     lru_is_empty = (\<lambda>l. l = []),
     lru_len = length,
     lru_get = (\<lambda>l k. (map_of l k, touch k (\<lambda>w. w) l)),
     lru_get_mut = (\<lambda>l k f. (map_of l k, touch k f l)),
     lru_push = (\<lambda>l k w. (k, w) # AList.delete k l),
     lru_pop = (\<lambda>l k. (map_of l k, AList.delete k l)),
     lru_pop_lru = (\<lambda>l. if l = [] then None else Some (last l, butlast l))\<rparr>"

lemma list_lru_ok: "lru_ok list_lru (\<lambda>l. l)"
  by (simp add: lru_ok_def list_lru_def)

definition start_system :: "'l lru_ops \<Rightarrow> object_storage_cache_config \<Rightarrow> 'l cache_system" where
  "start_system ops cfg =
     \<lparr>cache = new_object_storage_cache ops cfg, held = {#}, to_delete = []\<rparr>"

lemma start_system_inv: "lru_ok ops entries \<Longrightarrow> system_inv ops entries (start_system ops cfg)"
  by (simp add: lru_okD(1)[of ops entries] system_inv_def start_system_def
      new_object_storage_cache_def cache_inv_def content_ok_def refs_def cached_paths_def)

lemma cache_run_facts:
  assumes "lru_ok ops entries"
    and "cache_callers.guarded ops is_local entries (start_system ops cfg) es"
    and "res_fold (system_step ops is_local) (start_system ops cfg) es = Ok s"
  shows "cur_bytes (cache s) =
      total wrapper_size (entries (evictable_cache (cache s)) @ non_evictable_cache (cache s))"
    and "cur_bytes (cache s) \<le> max_bytes (config (cache s))"
    and "\<forall>k. count (held s) k = refs (cache s) k"
    and "\<forall>k \<in># held s. map_of (non_evictable_cache (cache s)) k \<noteq> None
      \<and> map_of (entries (evictable_cache (cache s))) k = None"
    and "set (to_delete s) \<inter> set (cached_paths entries (cache s)) = {}"
proof -
  have inv: "system_inv ops entries s"
    using cache_callers.run_inv[OF start_system_inv[OF assms(1)] assms(2,3)] .
  have content: "content_ok (entries (evictable_cache (cache s))) (non_evictable_cache (cache s))
      (cur_bytes (cache s)) (evicted_entries (cache s)) (max_bytes (config (cache s)))"
    using inv by (simp add: system_inv_def cache_inv_def)
  note c = content_okD[OF content]
  show "cur_bytes (cache s) =
      total wrapper_size (entries (evictable_cache (cache s)) @ non_evictable_cache (cache s))"
    using c(4) by simp
  show "cur_bytes (cache s) \<le> max_bytes (config (cache s))" by (rule c(5))
  show refs: "\<forall>k. count (held s) k = refs (cache s) k"
    and "set (to_delete s) \<inter> set (cached_paths entries (cache s)) = {}"
    using inv by (auto simp: system_inv_def)
  show "\<forall>k \<in># held s. map_of (non_evictable_cache (cache s)) k \<noteq> None
      \<and> map_of (entries (evictable_cache (cache s))) k = None"
  proof
    fix k assume "k \<in># held s"
    then have "refs (cache s) k \<noteq> 0" using refs by (metis count_eq_zero_iff)
    then have pin: "map_of (non_evictable_cache (cache s)) k \<noteq> None"
      by (auto simp: refs_def split: option.splits)
    then have "k \<in> fst ` set (non_evictable_cache (cache s))" by (simp add: map_of_None_fst)
    then show "map_of (non_evictable_cache (cache s)) k \<noteq> None
        \<and> map_of (entries (evictable_cache (cache s))) k = None"
      using pin c(3) by (auto simp: map_of_None_fst)
  qed
qed

text \<open>
  C4: safety of the cache under any interleaving of callers. After every run of critical
  sections from an empty cache in which callers release only handles they hold, the byte
  count is exact and within the budget, the reference count of every key is the number
  of handles held on it, a key with a handle is pinned and not evictable, and no file
  that was ever handed out for deletion is the local path of an entry still cached.
\<close>

theorem cache_run_safe:
  assumes "lru_ok ops entries"
    and "cache_callers.guarded ops is_local entries (start_system ops cfg) es"
    and "res_fold (system_step ops is_local) (start_system ops cfg) es = Ok s"
  shows "cur_bytes (cache s) =
      total wrapper_size (entries (evictable_cache (cache s)) @ non_evictable_cache (cache s))
    \<and> cur_bytes (cache s) \<le> max_bytes (config (cache s))
    \<and> (\<forall>k. count (held s) k = refs (cache s) k)
    \<and> (\<forall>k \<in># held s. map_of (non_evictable_cache (cache s)) k \<noteq> None
        \<and> map_of (entries (evictable_cache (cache s))) k = None)
    \<and> set (to_delete s) \<inter> set (cached_paths entries (cache s)) = {}"
  using cache_run_facts[OF assms] by blast

definition sample_key :: cache_key where
  "sample_key = \<lparr>tuf_table_id = TableId 1, tuf_file_id = FileId 7\<rparr>"

definition sample_entry :: cache_entry where
  "sample_entry = \<lparr>cache_filepath = ''a.parquet'', file_size = 3\<rparr>"

definition sample_config :: object_storage_cache_config where
  "sample_config = \<lparr>max_bytes = 10, cache_directory = ''/tmp'', optimize_local_filesystem = True\<rparr>"

definition sample_handle :: non_evictable_handle where
  "sample_handle = \<lparr>handle_file_id = sample_key, handle_cache_entry = sample_entry\<rparr>"

lemmas cache_evals = system_step_def cache_step_def import_cache_entry_def
  insert_non_evictable_def evict_cache_entries_def handle_unreference_def unreference_def
  get_cache_entry_lookup_def delete_cache_entry_def try_delete_cache_entry_def
  caller_ok_def released_def new_path_def opt_mset_def touch_def
  list_lru_def start_system_def new_object_storage_cache_def cached_paths_def
  sample_key_def sample_entry_def sample_config_def sample_handle_def add_width_def sub_checked_def

theorem cache_run_safe_witness:
  "\<exists>s. res_fold (system_step list_lru (\<lambda>_. True)) (start_system list_lru sample_config)
      [ImportEntry sample_key sample_entry, Unreference sample_handle, LookupEntry sample_key]
      = Ok s
    \<and> cur_bytes (cache s) \<le> max_bytes (config (cache s)) \<and> count (held s) sample_key = 1"
proof -
  let ?es = "[ImportEntry sample_key sample_entry, Unreference sample_handle, LookupEntry sample_key]"
  obtain s where s: "res_fold (system_step list_lru (\<lambda>_. True)) (start_system list_lru sample_config)
      ?es = Ok s" and r: "refs (cache s) sample_key = 1"
    by (simp add: cache_evals refs_def)
  have g: "cache_callers.guarded list_lru (\<lambda>_. True) (\<lambda>l. l) (start_system list_lru sample_config) ?es"
    by (simp add: cache_evals)
  show ?thesis
    using cache_run_safe[OF list_lru_ok g s] s r by auto
qed

text \<open>
  C5: an import ends, and it fails only for lack of space. If the pinned bytes and the
  new file fit the budget, the import succeeds and evicts, in LRU order, only as many
  evictable entries as needed; otherwise it panics, as its documentation says.
\<close>

theorem import_evicts_minimally:
  assumes "lru_ok ops entries" and "cache_inv entries c"
    and "k \<notin> fst ` set (entries (evictable_cache c) @ non_evictable_cache c)"
    and "cur_bytes c + file_size e < 2 ^ 64"
  shows "if total wrapper_size (non_evictable_cache c) + file_size e \<le> max_bytes (config c)
    then \<exists>kept dropped c'.
      import_cache_entry ops c k e =
        Ok (\<lparr>handle_file_id = k, handle_cache_entry = e\<rparr>, evicted_paths dropped, c')
      \<and> entries (evictable_cache c) = kept @ dropped \<and> entries (evictable_cache c') = kept
      \<and> (dropped \<noteq> [] \<longrightarrow>
          total wrapper_size (kept @ [hd dropped] @ non_evictable_cache c) + file_size e
            > max_bytes (config c))
    else import_cache_entry ops c k e = Panic AssertFailed"
proof -
  let ?w = "\<lparr>cache_entry = e, reference_count = 1, deletable = True\<rparr>"
  let ?c = "c\<lparr>cur_bytes := cur_bytes c + file_size e\<rparr>"
  let ?ev = "entries (evictable_cache c)" and ?ne = "non_evictable_cache c"
  let ?lim = "max_bytes (config c)"
  note f = content_okD[OF assms(2)[unfolded cache_inv_def]]
  have pre: "k \<notin> fst ` set (entries (evictable_cache ?c))"
    "\<forall>p \<in> set (entries (evictable_cache ?c)). reference_count (snd p) = 0"
    "total wrapper_size (entries (evictable_cache ?c)) \<le> cur_bytes ?c"
    using assms(3) f(4,6) by auto
  have same: "entries (evictable_cache ?c) = ?ev" "non_evictable_cache ?c = ?ne"
    "cur_bytes ?c = cur_bytes c + file_size e" by simp_all
  obtain kept dropped l where split: "?ev = kept @ dropped" "entries l = kept"
    and none: "cur_bytes c + file_size e - total wrapper_size dropped > ?lim \<longrightarrow> kept = []"
    and minimal: "dropped \<noteq> [] \<longrightarrow>
      cur_bytes c + file_size e - total wrapper_size (tl dropped) > ?lim"
    and eq: "insert_non_evictable ops ?c k ?w ?lim False =
      (if k \<in> fst ` set ?ne then Panic AssertFailed
       else if cur_bytes c + file_size e - total wrapper_size dropped \<le> ?lim then
         Ok (True, evicted_paths dropped,
           ?c\<lparr>evictable_cache := l, cur_bytes := cur_bytes c + file_size e - total wrapper_size dropped,
             non_evictable_cache := ?ne @ [(k, ?w)]\<rparr>)
       else if False then
         Ok (False, evicted_paths dropped,
           ?c\<lparr>evictable_cache := l, cur_bytes := cur_bytes c + file_size e - total wrapper_size dropped\<rparr>)
       else Panic AssertFailed)"
    using insert_non_evictable_spec[OF assms(1) pre, of ?lim ?w False] unfolding same by blast
  have bytes: "cur_bytes c = total wrapper_size kept + total wrapper_size dropped + total wrapper_size ?ne"
    using f(4) split(1) by simp
  have fits: "cur_bytes c + file_size e - total wrapper_size dropped \<le> ?lim \<longleftrightarrow>
      total wrapper_size ?ne + file_size e \<le> ?lim"
    using none bytes by (cases "kept = []") auto
  have tight: "total wrapper_size (kept @ [hd dropped] @ ?ne) + file_size e > ?lim"
    if ne: "dropped \<noteq> []"
  proof -
    obtain p rest where "dropped = p # rest" using ne by (cases dropped) auto
    moreover obtain k' w' where "p = (k', w')" by (cases p)
    ultimately show ?thesis using minimal bytes by auto
  qed
  have kne: "k \<notin> fst ` set ?ne" using assms(3) by auto
  show ?thesis
  proof (cases "total wrapper_size ?ne + file_size e \<le> ?lim")
    case True
    let ?d = "?c\<lparr>evictable_cache := l, cur_bytes := cur_bytes c + file_size e - total wrapper_size dropped,
        non_evictable_cache := ?ne @ [(k, ?w)]\<rparr>"
    have "insert_non_evictable ops ?c k ?w ?lim False = Ok (True, evicted_paths dropped, ?d)"
      using eq fits True kne by simp
    then have "import_cache_entry ops c k e =
        Ok (\<lparr>handle_file_id = k, handle_cache_entry = e\<rparr>, evicted_paths dropped, ?d)"
      using assms(4) by (simp add: import_cache_entry_def add_width_def)
    moreover have "entries (evictable_cache ?d) = kept" using split(2) by simp
    ultimately show ?thesis unfolding if_P[OF True] using split(1) tight by blast
  next
    case False
    then have "insert_non_evictable ops ?c k ?w ?lim False = Panic AssertFailed"
      using eq fits kne by simp
    then show ?thesis
      using False assms(4) by (simp add: import_cache_entry_def add_width_def)
  qed
qed

theorem import_evicts_minimally_witness:
  "\<exists>c'. import_cache_entry list_lru (new_object_storage_cache list_lru sample_config)
      sample_key sample_entry = Ok (sample_handle, [], c')"
proof -
  have inv: "cache_inv (\<lambda>l. l) (new_object_storage_cache list_lru sample_config)"
    using start_system_inv[OF list_lru_ok, of sample_config]
    by (simp add: system_inv_def start_system_def)
  show ?thesis
    using import_evicts_minimally[OF list_lru_ok inv, of sample_key sample_entry]
    by (simp add: cache_evals)
qed

text \<open>
  a lookup on a cached key is a hit. Whether the entry is pinned or evictable, none
  of the assertions of the lookup fails, nothing is evicted, the handle carries the cached
  entry, and the entry ends up pinned with one more reference.
\<close>

lemma lookup_hits_cached:
  assumes "lru_ok ops entries" and "cache_inv entries c"
    and "map_of (entries (evictable_cache c) @ non_evictable_cache c) k = Some w"
    and "Suc (reference_count w) < 2 ^ 32"
  shows "\<exists>c'. get_cache_entry_lookup ops c k =
      Ok (Some \<lparr>handle_file_id = k, handle_cache_entry = cache_entry w\<rparr>, c')
    \<and> cache_inv entries c' \<and> refs c' k = Suc (refs c k) \<and> cur_bytes c' = cur_bytes c"
proof -
  note content = assms(2)[unfolded cache_inv_def]
  obtain c' where c': "get_cache_entry_lookup ops c k =
      Ok (Some \<lparr>handle_file_id = k, handle_cache_entry = cache_entry w\<rparr>, c')"
    and bytes: "cur_bytes c' = cur_bytes c"
  proof (cases "map_of (non_evictable_cache c) k")
    case (Some v)
    then have "k \<notin> fst ` set (entries (evictable_cache c))" using content_unpin(3)[OF content] by simp
    then have "v = w" using assms(3) Some by (simp add: map_add_def map_of_None_fst[symmetric])
    then show ?thesis
      using that Some content_unpin(4)[OF content Some] assms(4)
      by (simp add: get_cache_entry_lookup_def add_width_def)
  next
    case None
    then have mo: "map_of (entries (evictable_cache c)) k = Some w"
      using assms(3) by (auto simp: map_add_def split: option.splits)
    note p = content_pop[OF content mo]
    obtain v l where pop: "lru_pop ops (evictable_cache c) k = (v, l)" by fastforce
    have v: "v = Some w" "entries l = AList.delete k (entries (evictable_cache c))"
      using lru_okD(7)[OF assms(1) pop] mo by simp_all
    let ?d = "c\<lparr>evictable_cache := l\<rparr>" and ?w = "w\<lparr>reference_count := 1\<rparr>"
    have pre: "k \<notin> fst ` set (entries (evictable_cache ?d))"
      "\<forall>p \<in> set (entries (evictable_cache ?d)). reference_count (snd p) = 0"
      "total wrapper_size (entries (evictable_cache ?d)) \<le> cur_bytes ?d"
      using v(2) p(5) content_okD(6)[OF p(1)] content_okD(4)[OF p(1)] p(2) by auto
    have lim: "cur_bytes ?d \<le> max_bytes (config c)" using content_okD(5)[OF content] by simp
    obtain l' where "insert_non_evictable ops ?d k ?w (max_bytes (config c)) True =
        Ok (True, [], ?d\<lparr>evictable_cache := l', cur_bytes := cur_bytes c,
          non_evictable_cache := non_evictable_cache c @ [(k, ?w)]\<rparr>)"
    proof -
      obtain kept dropped l' where
        "dropped \<noteq> [] \<longrightarrow> cur_bytes ?d - total wrapper_size (tl dropped) > max_bytes (config c)"
        and eq: "insert_non_evictable ops ?d k ?w (max_bytes (config c)) True =
          (if k \<in> fst ` set (non_evictable_cache ?d) then Panic AssertFailed
           else if cur_bytes ?d - total wrapper_size dropped \<le> max_bytes (config c) then
             Ok (True, evicted_paths dropped,
               ?d\<lparr>evictable_cache := l', cur_bytes := cur_bytes ?d - total wrapper_size dropped,
                 non_evictable_cache := non_evictable_cache ?d @ [(k, ?w)]\<rparr>)
           else if True then
             Ok (False, evicted_paths dropped,
               ?d\<lparr>evictable_cache := l', cur_bytes := cur_bytes ?d - total wrapper_size dropped\<rparr>)
           else Panic AssertFailed)"
        using insert_non_evictable_spec[OF assms(1) pre, of "max_bytes (config c)" ?w True] by blast
      then have "dropped = []" using lim by (cases dropped) auto
      then show ?thesis using that eq lim p(4) by simp
    qed
    then show ?thesis
      using that None pop v(1) p(3) by (simp add: get_cache_entry_lookup_def)
  qed
  then show ?thesis
    using lookup_effect[OF assms(1,2) c'] by (auto simp: effect_def)
qed

lemma lookup_hits_cached_witness:
  "\<exists>c'. get_cache_entry_lookup list_lru
      \<lparr>config = sample_config, cur_bytes = 3, evicted_entries = {},
       evictable_cache = [(sample_key, \<lparr>cache_entry = sample_entry, reference_count = 0, deletable = True\<rparr>)],
       non_evictable_cache = []\<rparr> sample_key = Ok (Some sample_handle, c')
    \<and> refs c' sample_key = 1"
  using lookup_hits_cached[OF list_lru_ok, of "\<lparr>config = sample_config, cur_bytes = 3,
      evicted_entries = {}, evictable_cache = [(sample_key, \<lparr>cache_entry = sample_entry,
      reference_count = 0, deletable = True\<rparr>)], non_evictable_cache = []\<rparr>" sample_key]
  by (auto simp: cache_inv_def content_ok_def sample_config_def sample_entry_def sample_handle_def
      refs_def)

text \<open>
  C40: two readers that both miss the same file race. Both lookups find nothing, both
  fetch the file, the first insertion succeeds, and the second one then panics instead of
  sharing the entry.
\<close>

theorem concurrent_misses_panic:
  assumes "lru_ok ops entries" and "cache_inv entries c" and "reference_count w = 1"
    and "get_cache_entry_lookup ops c k = Ok (None, c1)"
    and "get_cache_entry_lookup ops c1 k = Ok (None, c2)"
    and "get_cache_entry_insert ops c2 k w = Ok (Some h, files, c3)"
    and "cur_bytes c3 + wrapper_size v < 2 ^ 64"
  shows "get_cache_entry_insert ops c3 k v = Panic AssertFailed"
proof -
  have inv1: "cache_inv entries c1"
    using lookup_effect[OF assms(1,2,4)] by (simp add: effect_def)
  have inv2: "cache_inv entries c2"
    using lookup_effect[OF assms(1) inv1 assms(5)] by (simp add: effect_def)
  have e: "effect entries c2 files (Some k) None (Some (wrapper_path w)) c3"
    using fetched_effect[OF assms(1) inv2 assms(3,6)] by simp
  then have "refs c3 k = Suc (refs c2 k)" and inv3: "cache_inv entries c3"
    by (auto simp: effect_def dest: spec[of _ k])
  then obtain u where u: "map_of (non_evictable_cache c3) k = Some u"
    by (auto simp: refs_def split: option.splits)
  let ?d = "c3\<lparr>cur_bytes := cur_bytes c3 + wrapper_size v\<rparr>"
  obtain old l where get: "lru_get ops (evictable_cache c3) k = (old, l)" by fastforce
  have "old = None"
    using lru_okD(4)[OF assms(1) get] content_unpin(3)[OF inv3[unfolded cache_inv_def] u]
    by (simp add: map_of_None_fst[symmetric])
  then have "insert_non_evictable ops ?d k v (max_bytes (config c3)) True = Panic AssertFailed"
    using u get by (simp add: insert_non_evictable_def)
  then show ?thesis
    using assms(7) by (simp add: get_cache_entry_insert_def add_width_def)
qed

theorem concurrent_misses_panic_witness:
  "\<exists>c3. get_cache_entry_insert list_lru (new_object_storage_cache list_lru sample_config) sample_key
      \<lparr>cache_entry = sample_entry, reference_count = 1, deletable = True\<rparr> = Ok (Some sample_handle, [], c3)
    \<and> get_cache_entry_insert list_lru c3 sample_key
      \<lparr>cache_entry = sample_entry, reference_count = 1, deletable = True\<rparr> = Panic AssertFailed"
proof -
  let ?c = "new_object_storage_cache list_lru sample_config"
  let ?w = "\<lparr>cache_entry = sample_entry, reference_count = 1, deletable = True\<rparr>"
  have inv: "cache_inv (\<lambda>l. l) ?c"
    using start_system_inv[OF list_lru_ok, of sample_config]
    by (simp add: system_inv_def start_system_def)
  have miss: "get_cache_entry_lookup list_lru ?c sample_key = Ok (None, ?c)"
    by (simp add: cache_evals)
  obtain c3 where c3: "get_cache_entry_insert list_lru ?c sample_key ?w = Ok (Some sample_handle, [], c3)"
    and b: "cur_bytes c3 = 3"
    by (simp add: cache_evals get_cache_entry_insert_def)
  show ?thesis
    using concurrent_misses_panic[OF list_lru_ok inv _ miss miss c3, of ?w] c3 b
    by (auto simp: sample_entry_def)
qed

text \<open>
  replacing a cached path by the remote one hands out the old path even when it is
  the remote file itself. When an evictable entry already uses the remote file as its
  cache file (it is not deletable), a second replacement with the same path returns that
  path for deletion although the entry still refers to it.
\<close>

lemma replace_twice_releases_remote:
  assumes "lru_ok ops entries" and "optimize_local_filesystem (config c)" and "is_local r"
    and "map_of (entries (evictable_cache c)) k = Some w"
    and "wrapper_path w = r" and "\<not> deletable w"
  shows "\<exists>c'. try_replace_evictable_with_remote ops is_local c k r = ([r], c')
    \<and> r \<in> set (cached_paths entries c')"
proof -
  obtain v l where get: "lru_get_mut ops (evictable_cache c) k (with_remote_path r) = (v, l)"
    by fastforce
  have "v = Some w" "entries l = (k, with_remote_path r w) # AList.delete k (entries (evictable_cache c))"
    using lru_okD(5)[OF assms(1) get] assms(4) by (simp_all add: touch_def)
  then show ?thesis
    using get assms(2,3,5)
    by (simp add: try_replace_evictable_with_remote_def cached_paths_def)
qed

lemma replace_twice_releases_remote_witness:
  "\<exists>c'. try_replace_evictable_with_remote list_lru (\<lambda>_. True)
      \<lparr>config = sample_config, cur_bytes = 3, evicted_entries = {},
       evictable_cache = [(sample_key, \<lparr>cache_entry = sample_entry, reference_count = 0,
         deletable = False\<rparr>)],
       non_evictable_cache = []\<rparr> sample_key ''a.parquet'' = ([''a.parquet''], c')
    \<and> ''a.parquet'' \<in> set (cached_paths (\<lambda>l. l) c')"
  by (rule replace_twice_releases_remote[OF list_lru_ok, of _ _ _ _
        "\<lparr>cache_entry = sample_entry, reference_count = 0, deletable = False\<rparr>"])
    (simp_all add: sample_config_def sample_entry_def)

end
