(* ===== verification/Table_Event.thy ===== *)
theory Table_Event
  imports Deletion_Vector Object_Cache
begin

text \<open>
  Events of a table and the payloads they carry (\<^verbatim>\<open>table_notify.rs\<close>,
  \<^verbatim>\<open>storage/mooncake_table/table_snapshot.rs\<close>, \<^verbatim>\<open>storage/snapshot_options.rs\<close>,
  \<^verbatim>\<open>storage/compaction/table_compaction.rs\<close>, the WAL records of \<^verbatim>\<open>storage/wal.rs\<close>).
  Log sequence numbers and WAL file numbers are natural numbers. Payloads that no
  component of this development inspects are type parameters: \<open>'md\<close> the table metadata,
  \<open>'dsw\<close> the disk slice writer of a flush, \<open>'snap\<close> the snapshot dump. Shared references
  to the cache and the filesystem inside payloads are left out.
\<close>

type_synonym lsn = nat
type_synonym uuid = "128 word"
type_synonym xact_id = u32

text \<open>An error of the crate, by its message.\<close>

type_synonym error = string

section \<open>File indices and blobs\<close>

record index_block =
  bucket_start_idx :: u32
  bucket_end_idx :: u32
  bucket_start_offset :: u64
  index_file :: mooncake_data_file
  index_file_size :: nat
  index_cache_handle :: "non_evictable_handle option"

record global_index =
  gi_files :: "mooncake_data_file list"
  gi_num_rows :: u32
  gi_hash_bits :: u32
  gi_hash_upper_bits :: u32
  gi_hash_lower_bits :: u32
  gi_seg_id_bits :: u32
  gi_row_id_bits :: u32
  gi_bucket_bits :: u32
  gi_index_blocks :: "index_block list"

text \<open>Indices are compared by the files they point to.\<close>

definition global_index_eq :: "global_index \<Rightarrow> global_index \<Rightarrow> bool" where
  "global_index_eq a b \<longleftrightarrow> list_all2 data_file_eq (gi_files a) (gi_files b)"

record puffin_blob_ref =
  puffin_file_cache_handle :: non_evictable_handle
  start_offset :: u32
  blob_size :: u32
  blob_num_rows :: nat

record remapped_record_location =
  remapped_location :: record_location
  new_data_file :: mooncake_data_file

type_synonym record_remap = "(record_location \<times> remapped_record_location) list"

section \<open>Payloads and results of background tasks\<close>

record persistence_snapshot_import_payload =
  import_data_files :: "mooncake_data_file list"
  new_deletion_vector_map :: "(mooncake_data_file \<times> batch_deletion_vector) list"
  import_file_indices :: "global_index list"

record persistence_snapshot_index_merge_payload =
  merge_indices_to_import :: "global_index list"
  merge_indices_to_remove :: "global_index list"

definition index_merge_payload_is_empty ::
    "persistence_snapshot_index_merge_payload \<Rightarrow> bool res" where
  "index_merge_payload_is_empty p =
     (if merge_indices_to_import p = [] then
        check (merge_indices_to_remove p = []) AssertFailed (Ok True)
      else check (merge_indices_to_remove p \<noteq> []) AssertFailed (Ok False))"

record persistence_snapshot_data_compaction_payload =
  compaction_data_files_to_import :: "mooncake_data_file list"
  compaction_data_files_to_remove :: "mooncake_data_file list"
  compaction_indices_to_import :: "global_index list"
  compaction_indices_to_remove :: "global_index list"
  compaction_records_remap :: record_remap

definition data_compaction_payload_is_empty ::
    "persistence_snapshot_data_compaction_payload \<Rightarrow> bool res" where
  "data_compaction_payload_is_empty p =
     (if compaction_data_files_to_remove p = [] then
        check (compaction_data_files_to_import p = []) AssertFailed (
        check (compaction_indices_to_import p = []) AssertFailed (
        check (compaction_indices_to_remove p = []) AssertFailed (
        check (compaction_records_remap p = []) AssertFailed (Ok True))))
      else Ok False)"

record 'md persistence_snapshot_payload =
  psp_uuid :: uuid
  psp_flush_lsn :: lsn
  psp_committed_deletion_logs :: "(file_id \<times> nat) set"
  psp_new_table_schema :: "'md option"
  psp_import_payload :: persistence_snapshot_import_payload
  psp_index_merge_payload :: persistence_snapshot_index_merge_payload
  psp_data_compaction_payload :: persistence_snapshot_data_compaction_payload

definition contains_table_maintenance_payload :: "'md persistence_snapshot_payload \<Rightarrow> bool res" where
  "contains_table_maintenance_payload p =
     res_bind (index_merge_payload_is_empty (psp_index_merge_payload p)) (\<lambda>e.
     if \<not> e then Ok True
     else res_bind (data_compaction_payload_is_empty (psp_data_compaction_payload p)) (\<lambda>e.
       if \<not> e then Ok True else Ok False))"

definition get_new_file_ids_num :: "'md persistence_snapshot_payload \<Rightarrow> u32 res" where
  "get_new_file_ids_num p =
     checked_add (word_of_nat (length (new_deletion_vector_map (psp_import_payload p))))
       (word_of_nat (length (compaction_records_remap (psp_data_compaction_payload p))))"

record persistence_snapshot_import_result =
  res_new_data_files :: "mooncake_data_file list"
  res_puffin_blob_ref :: "(file_id \<times> puffin_blob_ref) list"
  res_new_file_indices :: "global_index list"

definition import_result_is_empty :: "persistence_snapshot_import_result \<Rightarrow> bool" where
  "import_result_is_empty r \<longleftrightarrow>
     res_new_data_files r = [] \<and> res_puffin_blob_ref r = [] \<and> res_new_file_indices r = []"

record persistence_snapshot_index_merge_result =
  new_file_indices_imported :: "global_index list"
  old_file_indices_removed :: "global_index list"

definition index_merge_result_is_empty ::
    "persistence_snapshot_index_merge_result \<Rightarrow> bool res" where
  "index_merge_result_is_empty r =
     (if new_file_indices_imported r = [] then
        check (old_file_indices_removed r = []) AssertFailed (Ok True)
      else check (old_file_indices_removed r \<noteq> []) AssertFailed (Ok False))"

record persistence_snapshot_data_compaction_result =
  compacted_data_files_imported :: "mooncake_data_file list"
  compacted_data_files_removed :: "mooncake_data_file list"
  compacted_indices_imported :: "global_index list"
  compacted_indices_removed :: "global_index list"
  compacted_records_remap :: record_remap

definition data_compaction_result_is_empty ::
    "persistence_snapshot_data_compaction_result \<Rightarrow> bool res" where
  "data_compaction_result_is_empty r =
     (if compacted_data_files_removed r = [] then
        check (compacted_data_files_imported r = []) AssertFailed (
        check (compacted_indices_imported r = []) AssertFailed (
        check (compacted_indices_removed r = []) AssertFailed (
        check (compacted_records_remap r = []) AssertFailed (Ok True))))
      else check (compacted_data_files_removed r \<noteq> []) AssertFailed (Ok False))"

text \<open>The table manager that travels with the result is not part of the model.\<close>

record 'md persistence_snapshot_result =
  psr_uuid :: uuid
  psr_flush_lsn :: lsn
  psr_new_table_schema :: "'md option"
  psr_committed_deletion_logs :: "(file_id \<times> nat) set"
  psr_import_result :: persistence_snapshot_import_result
  psr_index_merge_result :: persistence_snapshot_index_merge_result
  psr_data_compaction_result :: persistence_snapshot_data_compaction_result
  psr_evicted_files_to_delete :: "string list"

definition contains_maintenance_result :: "'md persistence_snapshot_result \<Rightarrow> bool res" where
  "contains_maintenance_result r =
     res_bind (index_merge_result_is_empty (psr_index_merge_result r)) (\<lambda>e.
     if \<not> e then Ok True
     else res_bind (data_compaction_result_is_empty (psr_data_compaction_result r)) (\<lambda>e.
       if \<not> e then Ok True else Ok False))"

record file_indice_merge_payload =
  fmp_uuid :: uuid
  fmp_file_indices :: "global_index list"

record file_indice_merge_result =
  fmr_uuid :: uuid
  fmr_old_file_indices :: "global_index list"
  fmr_new_file_indices :: "global_index list"

definition file_indice_merge_result_is_empty :: "file_indice_merge_result \<Rightarrow> bool res" where
  "file_indice_merge_result_is_empty r =
     (if fmr_old_file_indices r = [] then
        check (fmr_new_file_indices r = []) AssertFailed (Ok True)
      else Ok False)"

record single_file_to_compact =
  compact_file_id :: table_unique_file_id
  data_file_cache_handle :: "non_evictable_handle option"
  compact_filepath :: string
  compact_deletion_vector :: "puffin_blob_ref option"

record data_compaction_payload =
  dcp_uuid :: uuid
  dcp_disk_files :: "single_file_to_compact list"
  dcp_file_indices :: "global_index list"

definition get_data_files :: "data_compaction_payload \<Rightarrow> file_id set" where
  "get_data_files p = set (map (\<lambda>f. tuf_file_id (compact_file_id f)) (dcp_disk_files p))"

definition get_new_compacted_data_file_ids_number :: "data_compaction_payload \<Rightarrow> u32 res" where
  "get_new_compacted_data_file_ids_number p =
     checked_mul (word_of_nat (length (dcp_disk_files p))) 2"

text \<open>The handles a compaction payload refers to: of each file, data file and blob.\<close>

definition payload_handles :: "data_compaction_payload \<Rightarrow> non_evictable_handle list" where
  "payload_handles p = concat (map (\<lambda>f.
     (case data_file_cache_handle f of None \<Rightarrow> [] | Some h \<Rightarrow> [h]) @
     (case compact_deletion_vector f of None \<Rightarrow> [] | Some b \<Rightarrow> [puffin_file_cache_handle b]))
     (dcp_disk_files p))"

definition pin_referenced_compaction_payload ::
    "'l object_storage_cache \<Rightarrow> data_compaction_payload \<Rightarrow> 'l object_storage_cache res" where
  "pin_referenced_compaction_payload c p =
     res_fold increment_reference_count c (payload_handles p)"

definition unpin_referenced_compaction_payload ::
    "'l lru_ops \<Rightarrow> 'l object_storage_cache \<Rightarrow> data_compaction_payload \<Rightarrow>
     (string list \<times> 'l object_storage_cache) res" where
  "unpin_referenced_compaction_payload ops c p =
     res_fold (\<lambda>(files, c) h. res_bind (handle_unreference ops c h)
       (\<lambda>(more, c). Ok (files @ more, c))) ([], c) (payload_handles p)"

record compacted_data_entry =
  entry_num_rows :: nat
  entry_file_size :: nat

record data_compaction_result =
  dcr_uuid :: uuid
  dcr_remapped_data_files :: record_remap
  dcr_old_data_files :: "mooncake_data_file list"
  dcr_new_data_files :: "(mooncake_data_file \<times> compacted_data_entry) list"
  dcr_old_file_indices :: "global_index list"
  dcr_new_file_indices :: "global_index list"
  dcr_evicted_files_to_delete :: "string list"

definition compaction_result_is_empty :: "data_compaction_result \<Rightarrow> bool res" where
  "compaction_result_is_empty r =
     (if dcr_old_data_files r = [] then
        check (dcr_remapped_data_files r = []) AssertFailed (
        check (dcr_old_data_files r = []) AssertFailed (
        check (dcr_old_file_indices r = []) AssertFailed (
        check (dcr_new_file_indices r = []) AssertFailed (
        check (dcr_evicted_files_to_delete r = []) AssertFailed (Ok True)))))
      else Ok False)"

text \<open>The helpers that move the file lists out of a snapshot payload.\<close>

definition take_data_files_to_import ::
    "'md persistence_snapshot_payload \<Rightarrow>
     mooncake_data_file list \<times> 'md persistence_snapshot_payload" where
  "take_data_files_to_import p =
     (import_data_files (psp_import_payload p) @
        compaction_data_files_to_import (psp_data_compaction_payload p),
      p\<lparr>psp_import_payload := (psp_import_payload p)\<lparr>import_data_files := []\<rparr>,
        psp_data_compaction_payload :=
          (psp_data_compaction_payload p)\<lparr>compaction_data_files_to_import := []\<rparr>\<rparr>)"

definition take_data_files_to_remove ::
    "'md persistence_snapshot_payload \<Rightarrow>
     mooncake_data_file list \<times> 'md persistence_snapshot_payload" where
  "take_data_files_to_remove p =
     (compaction_data_files_to_remove (psp_data_compaction_payload p),
      p\<lparr>psp_data_compaction_payload :=
          (psp_data_compaction_payload p)\<lparr>compaction_data_files_to_remove := []\<rparr>\<rparr>)"

definition take_file_indices_to_import ::
    "'md persistence_snapshot_payload \<Rightarrow> global_index list \<times> 'md persistence_snapshot_payload" where
  "take_file_indices_to_import p =
     (import_file_indices (psp_import_payload p) @
        merge_indices_to_import (psp_index_merge_payload p) @
        compaction_indices_to_import (psp_data_compaction_payload p),
      p\<lparr>psp_import_payload := (psp_import_payload p)\<lparr>import_file_indices := []\<rparr>,
        psp_index_merge_payload := (psp_index_merge_payload p)\<lparr>merge_indices_to_import := []\<rparr>,
        psp_data_compaction_payload :=
          (psp_data_compaction_payload p)\<lparr>compaction_indices_to_import := []\<rparr>\<rparr>)"

definition take_file_indices_to_remove ::
    "'md persistence_snapshot_payload \<Rightarrow> global_index list \<times> 'md persistence_snapshot_payload" where
  "take_file_indices_to_remove p =
     (merge_indices_to_remove (psp_index_merge_payload p) @
        compaction_indices_to_remove (psp_data_compaction_payload p),
      p\<lparr>psp_index_merge_payload := (psp_index_merge_payload p)\<lparr>merge_indices_to_remove := []\<rparr>,
        psp_data_compaction_payload :=
          (psp_data_compaction_payload p)\<lparr>compaction_indices_to_remove := []\<rparr>\<rparr>)"

section \<open>Options\<close>

datatype maintenance_option =
    BestEffort uuid
  | ForceRegularOption uuid
  | ForceFullOption uuid
  | SkipMaintenance

datatype iceberg_snapshot_option = SkipSnapshot | BestEffortSnapshot uuid

definition get_event_id :: "iceberg_snapshot_option \<Rightarrow> uuid option" where
  "get_event_id opt = (case opt of SkipSnapshot \<Rightarrow> None | BestEffortSnapshot u \<Rightarrow> Some u)"

record snapshot_option =
  opt_uuid :: uuid
  dump_snapshot :: bool
  force_create :: bool
  iceberg_snapshot_option :: iceberg_snapshot_option
  index_merge_option :: maintenance_option
  data_compaction_option :: maintenance_option

datatype 'p table_maintenance_status = MaintenanceUnknown | MaintenanceNothing | Payload 'p

definition is_nothing :: "'p table_maintenance_status \<Rightarrow> bool" where
  "is_nothing s = (case s of MaintenanceNothing \<Rightarrow> True | _ \<Rightarrow> False)"

definition has_payload :: "'p table_maintenance_status \<Rightarrow> bool" where
  "has_payload s = (case s of Payload _ \<Rightarrow> True | _ \<Rightarrow> False)"

definition take_payload :: "'p table_maintenance_status \<Rightarrow> 'p option" where
  "take_payload s = (case s of Payload p \<Rightarrow> Some p | _ \<Rightarrow> None)"

record ('md, 'snap) mooncake_snapshot_output =
  mso_uuid :: uuid
  mso_commit_lsn :: lsn
  mso_persistence_snapshot_payload :: "'md persistence_snapshot_payload option"
  mso_file_indices_merge_payload :: "file_indice_merge_payload table_maintenance_status"
  mso_data_compaction_payload :: "data_compaction_payload table_maintenance_status"
  mso_evicted_data_files_to_delete :: "string list"
  mso_current_snapshot :: "'snap option"

section \<open>Records of the write-ahead log\<close>

datatype wal_event =
    WalAppend moonlink_row "xact_id option" lsn
  | WalDelete moonlink_row lsn "xact_id option" bool
  | WalCommit lsn "xact_id option"
  | WalStreamAbort xact_id
  | WalStreamFlush xact_id

record wal_file_info =
  file_number :: nat
  highest_lsn :: lsn

datatype wal_transaction_state =
    XactCommit nat lsn nat
  | XactAbort nat lsn nat
  | XactOpen nat

record persistent_wal_metadata =
  md_curr_file_number :: nat
  md_highest_completion_lsn :: lsn
  md_live_wal_files_tracker :: "wal_file_info list"
  md_active_transactions :: "(xact_id \<times> wal_transaction_state) list"
  md_main_transaction_tracker :: "wal_transaction_state list"
  md_persistence_snapshot_lsn :: "lsn option"
  md_mooncake_table_id :: string

record prepare_persistent_update =
  persistent_wal_metadata :: persistent_wal_metadata
  files_to_delete :: "wal_file_info list"
  accompanying_persistence_snapshot_lsn :: "lsn option"
  files_to_persist :: "(wal_event list \<times> wal_file_info) option"

record wal_persistence_update_result =
  wal_result_uuid :: uuid
  prepare_persistent_update :: prepare_persistent_update

text \<open>
  \<open>XactCommit start_file completion_lsn file_end\<close>, and likewise for aborts; an open
  transaction has its first file only.
\<close>

section \<open>Events\<close>

text \<open>The access credentials and write options of a storage are carried along unread.\<close>

datatype storage_config =
    FileSystemStorage string "string option"
  | S3Storage string string string string "string option"
  | GcsStorage string string string string string "string option" bool

datatype ('md, 'dsw, 'snap) table_event =
    Append moonlink_row "xact_id option" lsn bool
  | Delete moonlink_row lsn "xact_id option" bool bool
  | Commit lsn "xact_id option" bool
  | StreamAbort xact_id bool bool
  | FlushResult uuid "xact_id option" "(error + 'dsw) option"
  | LoadFiles "string list" storage_config lsn
  | CommitFlush lsn "xact_id option" bool
  | StreamFlush xact_id bool
  | ForceSnapshot "lsn option"
  | ForceRegularIndexMerge
  | ForceRegularDataCompaction
  | ForceFullMaintenance
  | DropTable
  | AlterTable "string list"
  | StartInitialCopy
  | FinishInitialCopy lsn
  | PeriodicalMooncakeTableSnapshot uuid
  | MooncakeTableSnapshotResult "('md, 'snap) mooncake_snapshot_output"
  | RegularIcebergSnapshot "'md persistence_snapshot_payload"
  | PersistenceSnapshotResult "error + 'md persistence_snapshot_result"
  | IndexMergeResult "error + file_indice_merge_result"
  | DataCompactionResult "error + data_compaction_result"
  | EvictedFilesToDelete "string list"
  | PeriodicalPersistenceUpdateWal uuid
  | PeriodicalWalPersistenceUpdateResult "error + wal_persistence_update_result"
  | FinishRecovery lsn

text \<open>
  The arguments follow the source: \<open>Append row xact_id lsn is_recovery\<close>,
  \<open>Delete row lsn xact_id delete_if_exists is_recovery\<close>, \<open>Commit lsn xact_id is_recovery\<close>,
  \<open>StreamAbort xact_id is_recovery closes_incomplete_wal_transaction\<close>. Outside tests,
  \<^verbatim>\<open>CommitFlush\<close> and \<^verbatim>\<open>StreamFlush\<close> are not ingest events.
\<close>

definition is_ingest_event :: "('md, 'dsw, 'snap) table_event \<Rightarrow> bool" where
  "is_ingest_event e = (case e of
       Append _ _ _ _ \<Rightarrow> True | Delete _ _ _ _ _ \<Rightarrow> True | Commit _ _ _ \<Rightarrow> True
     | StreamAbort _ _ _ \<Rightarrow> True | _ \<Rightarrow> False)"

definition is_streaming_update :: "('md, 'dsw, 'snap) table_event \<Rightarrow> bool" where
  "is_streaming_update e = (case e of
       Append _ x _ _ \<Rightarrow> x \<noteq> None | Delete _ _ x _ _ \<Rightarrow> x \<noteq> None | StreamAbort _ _ _ \<Rightarrow> True
     | Commit _ x _ \<Rightarrow> x \<noteq> None | CommitFlush _ x _ \<Rightarrow> x \<noteq> None | StreamFlush _ _ \<Rightarrow> True
     | _ \<Rightarrow> False)"

definition get_lsn_for_ingest_event :: "('md, 'dsw, 'snap) table_event \<Rightarrow> lsn option" where
  "get_lsn_for_ingest_event e = (case e of
       Append _ _ l _ \<Rightarrow> Some l | Delete _ l _ _ _ \<Rightarrow> Some l | Commit l _ _ \<Rightarrow> Some l
     | StreamAbort _ _ _ \<Rightarrow> None | CommitFlush l _ _ \<Rightarrow> Some l | _ \<Rightarrow> None)"

definition is_recovery :: "('md, 'dsw, 'snap) table_event \<Rightarrow> bool res" where
  "is_recovery e = (case e of
       Append _ _ _ r \<Rightarrow> Ok r | Delete _ _ _ _ r \<Rightarrow> Ok r | Commit _ _ r \<Rightarrow> Ok r
     | StreamAbort _ r _ \<Rightarrow> Ok r | CommitFlush _ _ r \<Rightarrow> Ok r | StreamFlush _ r \<Rightarrow> Ok r
     | _ \<Rightarrow> Panic Unimplemented)"

definition set_is_recovery ::
    "bool \<Rightarrow> ('md, 'dsw, 'snap) table_event \<Rightarrow> ('md, 'dsw, 'snap) table_event res" where
  "set_is_recovery r e = (case e of
       Append row x l _ \<Rightarrow> Ok (Append row x l r)
     | Delete row l x d _ \<Rightarrow> Ok (Delete row l x d r)
     | Commit l x _ \<Rightarrow> Ok (Commit l x r)
     | StreamAbort x _ c \<Rightarrow> Ok (StreamAbort x r c)
     | CommitFlush l x _ \<Rightarrow> Ok (CommitFlush l x r)
     | StreamFlush x _ \<Rightarrow> Ok (StreamFlush x r)
     | _ \<Rightarrow> Panic Unimplemented)"

end
