(* ===== verification/Wal.thy ===== *)
theory Wal
  imports Table_Event
begin

text \<open>
  The write-ahead log of a table (\<^verbatim>\<open>storage/wal.rs\<close>): events are buffered in memory,
  flushed to numbered files, and truncated once the transactions they belong to are
  contained in an iceberg snapshot. The filesystem is a store from paths to contents;
  the JSON codec of serde is a record of two encoders and decoders. This theory holds the
  model; the theorems are in \<open>Wal_Truncation\<close> and \<open>Wal_Recovery\<close>.
\<close>

section \<open>Events\<close>

definition wal_event_new :: "('md, 'dsw, 'snap) table_event \<Rightarrow> wal_event res" where
  "wal_event_new e = (case e of
       Append row x l _ \<Rightarrow> Ok (WalAppend row x l)
     | Delete row l x d _ \<Rightarrow> Ok (WalDelete row l x d)
     | Commit l x _ \<Rightarrow> Ok (WalCommit l x)
     | StreamAbort x _ _ \<Rightarrow> Ok (WalStreamAbort x)
     | CommitFlush l x _ \<Rightarrow> Ok (WalCommit l x)
     | StreamFlush x _ \<Rightarrow> Ok (WalStreamFlush x)
     | _ \<Rightarrow> Panic Unimplemented)"

definition into_table_event :: "wal_event \<Rightarrow> ('md, 'dsw, 'snap) table_event" where
  "into_table_event w = (case w of
       WalAppend row x l \<Rightarrow> Append row x l False
     | WalDelete row l x d \<Rightarrow> Delete row l x d False
     | WalCommit l x \<Rightarrow> Commit l x False
     | WalStreamAbort x \<Rightarrow> StreamAbort x False False
     | WalStreamFlush x \<Rightarrow> StreamFlush x False)"

section \<open>Transaction states\<close>

definition get_start_file :: "wal_transaction_state \<Rightarrow> nat" where
  "get_start_file st = (case st of
       XactOpen f \<Rightarrow> f | XactCommit f _ _ \<Rightarrow> f | XactAbort f _ _ \<Rightarrow> f)"

definition get_completion_lsn_and_file :: "wal_transaction_state \<Rightarrow> (lsn \<times> nat) option" where
  "get_completion_lsn_and_file st = (case st of
       XactOpen _ \<Rightarrow> None | XactCommit _ l f \<Rightarrow> Some (l, f) | XactAbort _ l f \<Rightarrow> Some (l, f))"

definition is_closed :: "wal_transaction_state \<Rightarrow> bool" where
  "is_closed st \<longleftrightarrow> get_completion_lsn_and_file st \<noteq> None"

text \<open>The consistency check that debug builds run, as the value of its assertion.\<close>

definition check_completed_xact_consistent_with_iceberg_snapshot ::
    "lsn \<Rightarrow> nat \<Rightarrow> lsn \<Rightarrow> nat \<Rightarrow> bool" where
  "check_completed_xact_consistent_with_iceberg_snapshot completion_lsn completion_file_number
     persistence_snapshot_lsn lowest_file_kept \<longleftrightarrow>
     (completion_lsn > persistence_snapshot_lsn \<longrightarrow> completion_file_number \<ge> lowest_file_kept)"

definition is_captured_in_iceberg_snapshot ::
    "wal_transaction_state \<Rightarrow> lsn \<Rightarrow> nat option \<Rightarrow> bool res" where
  "is_captured_in_iceberg_snapshot st persistence_snapshot_lsn lowest_file_kept =
     (case get_completion_lsn_and_file st of
        None \<Rightarrow> Ok False
      | Some (l, f) \<Rightarrow>
          check (case lowest_file_kept of
                   None \<Rightarrow> True
                 | Some lowest \<Rightarrow> check_completed_xact_consistent_with_iceberg_snapshot l f
                     persistence_snapshot_lsn lowest) AssertFailed
            (if l \<le> persistence_snapshot_lsn then Ok True else Ok False))"

section \<open>The manager\<close>

record wal_manager =
  in_mem_buf :: "wal_event list"
  highest_completion_lsn :: lsn
  live_wal_files_tracker :: "wal_file_info list"
  curr_file_number :: nat
  active_transactions :: "(xact_id \<times> wal_transaction_state) list"
  main_transaction_tracker :: "wal_transaction_state list"
  wal_table_id :: string

definition new_wal_manager :: "string \<Rightarrow> wal_manager" where
  "new_wal_manager table_id =
     \<lparr>in_mem_buf = [], highest_completion_lsn = 0, live_wal_files_tracker = [],
      curr_file_number = 0, active_transactions = [], main_transaction_tracker = [],
      wal_table_id = table_id\<rparr>"

text \<open>Decimal printing of a number, as \<^verbatim>\<open>format!\<close> does it, and the two path formats.\<close>

fun show_nat :: "nat \<Rightarrow> string" where
  "show_nat n =
     (if n < 10 then [char_of (48 + n)] else show_nat (n div 10) @ [char_of (48 + n mod 10)])"

declare show_nat.simps [simp del]

definition DEFAULT_WAL_FOLDER :: string where
  "DEFAULT_WAL_FOLDER = ''_wal''"

definition get_wal_file_path_for_mooncake_table :: "nat \<Rightarrow> string \<Rightarrow> string" where
  "get_wal_file_path_for_mooncake_table n table_id =
     DEFAULT_WAL_FOLDER @ ''/'' @ table_id @ ''/wal_'' @ show_nat n @ ''.json''"

definition get_metadata_file_path_for_mooncake_table :: "string \<Rightarrow> string" where
  "get_metadata_file_path_for_mooncake_table table_id =
     DEFAULT_WAL_FOLDER @ ''/'' @ table_id @ ''/metadata_wal.json''"

subsection \<open>Tracking structures\<close>

definition compute_updated_live_wal_file_tracker ::
    "wal_manager \<Rightarrow> wal_file_info list \<Rightarrow> wal_file_info option \<Rightarrow> wal_file_info list" where
  "compute_updated_live_wal_file_tracker m to_delete_files to_persist_file =
     (let kept = (if to_delete_files = [] then live_wal_files_tracker m
                  else let lowest_file_to_keep = file_number (last to_delete_files) + 1
                       in filter (\<lambda>fi. file_number fi \<ge> lowest_file_to_keep)
                            (live_wal_files_tracker m))
      in case to_persist_file of None \<Rightarrow> kept | Some fi \<Rightarrow> kept @ [fi])"

text \<open>\<^verbatim>\<open>retain\<close> with a predicate that may panic.\<close>

fun retain_res :: "('a \<Rightarrow> bool res) \<Rightarrow> 'a list \<Rightarrow> 'a list res" where
  "retain_res p [] = Ok []"
| "retain_res p (x # xs) =
     res_bind (p x) (\<lambda>b. res_bind (retain_res p xs) (\<lambda>ys. Ok (if b then x # ys else ys)))"

definition compute_cleanedup_xacts ::
    "wal_manager \<Rightarrow> lsn option \<Rightarrow> wal_file_info list \<Rightarrow>
     ((xact_id \<times> wal_transaction_state) list \<times> wal_transaction_state list) res" where
  "compute_cleanedup_xacts m persistence_snapshot_lsn to_delete_files =
     (case persistence_snapshot_lsn of
        None \<Rightarrow> Ok (active_transactions m, main_transaction_tracker m)
      | Some l \<Rightarrow>
          let lowest_file_kept = (if to_delete_files = [] then None
                else Some (file_number (last to_delete_files) + 1));
              not_captured = (\<lambda>st. res_bind (is_captured_in_iceberg_snapshot st l lowest_file_kept)
                (\<lambda>b. Ok (\<not> b)))
          in res_bind (retain_res (\<lambda>(_, st). not_captured st) (active_transactions m)) (\<lambda>xacts.
             res_bind (retain_res not_captured (main_transaction_tracker m)) (\<lambda>main.
             Ok (xacts, main))))"

subsection \<open>Inserting events\<close>

definition get_updated_xact_state ::
    "('md, 'dsw, 'snap) table_event \<Rightarrow> wal_transaction_state \<Rightarrow> lsn \<Rightarrow> nat \<Rightarrow>
     wal_transaction_state res" where
  "get_updated_xact_state e st highest cur_file = (case e of
       Append _ _ _ _ \<Rightarrow> Ok (XactOpen (get_start_file st))
     | Delete _ _ _ _ _ \<Rightarrow> Ok (XactOpen (get_start_file st))
     | StreamFlush _ _ \<Rightarrow> Ok (XactOpen (get_start_file st))
     | Commit l _ _ \<Rightarrow> Ok (XactCommit (get_start_file st) l cur_file)
     | CommitFlush l _ _ \<Rightarrow> Ok (XactCommit (get_start_file st) l cur_file)
     | StreamAbort _ _ _ \<Rightarrow> Ok (XactAbort (get_start_file st) highest cur_file)
     | _ \<Rightarrow> Panic Unimplemented)"

definition event_xact_id :: "('md, 'dsw, 'snap) table_event \<Rightarrow> xact_id option" where
  "event_xact_id e = (case e of
       Append _ x _ _ \<Rightarrow> x | Delete _ _ x _ _ \<Rightarrow> x | Commit _ x _ \<Rightarrow> x
     | StreamAbort x _ _ \<Rightarrow> Some x | _ \<Rightarrow> None)"

text \<open>
  The main transaction: the open state at the end of the tracker is continued, otherwise
  a new one is started; a commit absorbs the previous commit when that one started in the
  current file.
\<close>

definition main_old_state ::
    "wal_transaction_state list \<Rightarrow> nat \<Rightarrow> wal_transaction_state \<times> wal_transaction_state list" where
  "main_old_state tracker cur_file =
     (if tracker = [] \<or> is_closed (last tracker) then (XactOpen cur_file, tracker)
      else (last tracker, butlast tracker))"

definition merge_main_commit ::
    "wal_transaction_state list \<Rightarrow> wal_transaction_state \<Rightarrow> wal_transaction_state list res" where
  "merge_main_commit tracker updated =
     (if tracker = [] then Ok tracker
      else case updated of
        XactCommit _ _ curr_file_end \<Rightarrow>
          (case last tracker of
             XactCommit prev_start_file _ _ \<Rightarrow>
               Ok (if prev_start_file = curr_file_end then butlast tracker else tracker)
           | _ \<Rightarrow> Panic AssertFailed)
      | _ \<Rightarrow> Ok tracker)"

definition update_transaction_tracking ::
    "wal_manager \<Rightarrow> ('md, 'dsw, 'snap) table_event \<Rightarrow> wal_manager res" where
  "update_transaction_tracking m e =
     (case event_xact_id e of
        Some x \<Rightarrow>
          let old = (case map_of (active_transactions m) x of
                       None \<Rightarrow> XactOpen (curr_file_number m) | Some st \<Rightarrow> st)
          in res_bind (get_updated_xact_state e old (highest_completion_lsn m) (curr_file_number m))
               (\<lambda>st. Ok (m\<lparr>active_transactions := AList.update x st (active_transactions m)\<rparr>))
      | None \<Rightarrow>
          let (old, tracker) = main_old_state (main_transaction_tracker m) (curr_file_number m)
          in res_bind (get_updated_xact_state e old (highest_completion_lsn m) (curr_file_number m))
               (\<lambda>st. res_bind (merge_main_commit tracker st)
               (\<lambda>tracker. Ok (m\<lparr>main_transaction_tracker := tracker @ [st]\<rparr>))))"

definition commit_lsn :: "('md, 'dsw, 'snap) table_event \<Rightarrow> lsn option" where
  "commit_lsn e = (case e of Commit l _ _ \<Rightarrow> Some l | CommitFlush l _ _ \<Rightarrow> Some l | _ \<Rightarrow> None)"

definition push :: "wal_manager \<Rightarrow> ('md, 'dsw, 'snap) table_event \<Rightarrow> wal_manager res" where
  "push m e =
     res_bind (is_recovery e) (\<lambda>r.
     check (\<not> r) AssertFailed (
     res_bind (wal_event_new e) (\<lambda>w.
     let m = m\<lparr>in_mem_buf := in_mem_buf m @ [w]\<rparr>
     in res_bind
          (case commit_lsn e of
             None \<Rightarrow> Ok m
           | Some l \<Rightarrow>
               check (l > 0 \<longrightarrow> highest_completion_lsn m \<le> l) AssertFailed
                 (Ok (m\<lparr>highest_completion_lsn := l\<rparr>)))
          (\<lambda>m. update_transaction_tracking m e))))"

subsection \<open>Truncation and persistence\<close>

text \<open>Without a lowest file the capture test runs no check and cannot panic.\<close>

definition uncaptured :: "lsn \<Rightarrow> wal_transaction_state \<Rightarrow> bool" where
  "uncaptured l st \<longleftrightarrow> is_captured_in_iceberg_snapshot st l None = Ok False"

definition get_lowest_file_to_keep :: "wal_manager \<Rightarrow> lsn \<Rightarrow> nat" where
  "get_lowest_file_to_keep m truncate_from_lsn =
     (let files_to_keep = map get_start_file
            (filter (uncaptured truncate_from_lsn) (map snd (active_transactions m)));
          files_to_keep = (case find (uncaptured truncate_from_lsn) (main_transaction_tracker m) of
              None \<Rightarrow> files_to_keep
            | Some st \<Rightarrow> files_to_keep @ [get_start_file st])
      in if files_to_keep = [] then curr_file_number m else Min (set files_to_keep))"

definition get_files_to_truncate :: "wal_manager \<Rightarrow> lsn \<Rightarrow> wal_file_info list res" where
  "get_files_to_truncate m persistence_snapshot_lsn =
     (let lowest_file_to_keep = get_lowest_file_to_keep m persistence_snapshot_lsn
      in check (live_wal_files_tracker m \<noteq> [] \<longrightarrow>
           lowest_file_to_keep \<ge> file_number (hd (live_wal_files_tracker m))) AssertFailed
         (Ok (filter (\<lambda>fi. file_number fi < lowest_file_to_keep) (live_wal_files_tracker m))))"

definition extract_next_persistence_file ::
    "wal_manager \<Rightarrow> (wal_event list \<times> wal_file_info) option \<times> wal_manager" where
  "extract_next_persistence_file m =
     (if in_mem_buf m = [] then (None, m)
      else (Some (in_mem_buf m,
              \<lparr>file_number = curr_file_number m, highest_lsn = highest_completion_lsn m\<rparr>),
            m\<lparr>in_mem_buf := [], curr_file_number := curr_file_number m + 1\<rparr>))"

definition prepare_metadata ::
    "wal_manager \<Rightarrow> lsn option \<Rightarrow> wal_file_info list \<Rightarrow> wal_file_info option \<Rightarrow>
     persistent_wal_metadata res" where
  "prepare_metadata m persistence_snapshot_lsn to_delete_files to_persist_file =
     res_bind (compute_cleanedup_xacts m persistence_snapshot_lsn to_delete_files)
       (\<lambda>(xacts, main). Ok
         \<lparr>md_curr_file_number = curr_file_number m,
          md_highest_completion_lsn = highest_completion_lsn m,
          md_live_wal_files_tracker =
            compute_updated_live_wal_file_tracker m to_delete_files to_persist_file,
          md_active_transactions = xacts,
          md_main_transaction_tracker = main,
          md_persistence_snapshot_lsn = persistence_snapshot_lsn,
          md_mooncake_table_id = wal_table_id m\<rparr>)"

definition prepare_update ::
    "wal_manager \<Rightarrow> lsn option \<Rightarrow> (prepare_persistent_update \<times> wal_manager) res" where
  "prepare_update m persistence_snapshot_lsn =
     res_bind (case persistence_snapshot_lsn of
                 None \<Rightarrow> Ok [] | Some l \<Rightarrow> get_files_to_truncate m l)
       (\<lambda>files_to_truncate.
       let (next_files, m) = extract_next_persistence_file m
       in res_bind (prepare_metadata m persistence_snapshot_lsn files_to_truncate
              (map_option snd next_files))
            (\<lambda>metadata. Ok (\<lparr>persistent_wal_metadata = metadata,
               files_to_delete = files_to_truncate,
               accompanying_persistence_snapshot_lsn = persistence_snapshot_lsn,
               files_to_persist = next_files\<rparr>, m)))"

definition should_do_persistence :: "prepare_persistent_update \<Rightarrow> bool" where
  "should_do_persistence u \<longleftrightarrow> files_to_persist u \<noteq> None \<or> files_to_delete u \<noteq> []"

subsection \<open>Completion\<close>

definition clean_up_xacts :: "wal_manager \<Rightarrow> lsn \<Rightarrow> wal_file_info list \<Rightarrow> wal_manager res" where
  "clean_up_xacts m l to_delete_files =
     res_bind (compute_cleanedup_xacts m (Some l) to_delete_files) (\<lambda>(xacts, main).
       Ok (m\<lparr>active_transactions := xacts, main_transaction_tracker := main\<rparr>))"

definition update_live_wal_file_tracker ::
    "wal_manager \<Rightarrow> wal_file_info list \<Rightarrow> wal_file_info option \<Rightarrow> wal_manager" where
  "update_live_wal_file_tracker m to_delete_files to_persist_file =
     m\<lparr>live_wal_files_tracker :=
       compute_updated_live_wal_file_tracker m to_delete_files to_persist_file\<rparr>"

text \<open>The assertions on each tracked transaction that debug builds run.\<close>

definition tracked_xact_consistent ::
    "prepare_persistent_update \<Rightarrow> xact_id \<times> wal_transaction_state \<Rightarrow> bool" where
  "tracked_xact_consistent u p = (case p of (x, st) \<Rightarrow>
     (case st of
        XactAbort _ _ _ \<Rightarrow> True
      | XactOpen _ \<Rightarrow> True
      | XactCommit _ l _ \<Rightarrow>
          (case accompanying_persistence_snapshot_lsn u of None \<Rightarrow> True | Some s \<Rightarrow> l > s) \<and>
          (l \<le> md_highest_completion_lsn (persistent_wal_metadata u) \<longrightarrow>
             x \<in> fst ` set (md_active_transactions (persistent_wal_metadata u)))))"

definition update_trackers_for_persistence_update_result ::
    "wal_manager \<Rightarrow> wal_persistence_update_result \<Rightarrow> wal_manager res" where
  "update_trackers_for_persistence_update_result m result =
     (let u = prepare_persistent_update result;
          m = update_live_wal_file_tracker m (files_to_delete u)
                (map_option snd (files_to_persist u))
      in res_bind (case accompanying_persistence_snapshot_lsn u of
                     None \<Rightarrow> Ok m | Some l \<Rightarrow> clean_up_xacts m l (files_to_delete u))
           (\<lambda>m. check (live_wal_files_tracker m =
                  md_live_wal_files_tracker (persistent_wal_metadata u)) AssertFailed
             (check (list_all (tracked_xact_consistent u) (active_transactions m)) AssertFailed
               (Ok m))))"

definition handle_complete_wal_persistence_update ::
    "wal_manager \<Rightarrow> wal_persistence_update_result \<Rightarrow> (lsn option \<times> wal_manager) res" where
  "handle_complete_wal_persistence_update m result =
     res_bind (update_trackers_for_persistence_update_result m result) (\<lambda>m.
       Ok (map_option (\<lambda>p. highest_lsn (snd p))
             (files_to_persist (prepare_persistent_update result)), m))"

section \<open>Persistent storage\<close>

text \<open>
  The codec is serde's; \<open>codec_ok\<close> says that what was written can be read back. The
  store maps paths to contents; the outcome of each operation on it is an input
  (\<open>io_faults\<close>), and an operation that fails changes nothing: object writes are taken to
  be atomic.
\<close>

record 'b wal_codec =
  enc_events :: "wal_event list \<Rightarrow> 'b"
  dec_events :: "'b \<Rightarrow> wal_event list option"
  enc_metadata :: "persistent_wal_metadata \<Rightarrow> 'b"
  dec_metadata :: "'b \<Rightarrow> persistent_wal_metadata option"

definition codec_ok :: "'b wal_codec \<Rightarrow> bool" where
  "codec_ok c \<longleftrightarrow> (\<forall>es. dec_events c (enc_events c es) = Some es)
     \<and> (\<forall>md. dec_metadata c (enc_metadata c md) = Some md)"

type_synonym 'b store = "string \<Rightarrow> 'b option"

record io_faults =
  file_write_error :: "error option"
  metadata_write_error :: "error option"
  delete_error :: "nat \<Rightarrow> error option"

definition persist_new_wal_file ::
    "'b wal_codec \<Rightarrow> error option \<Rightarrow> 'b store \<Rightarrow> wal_event list \<Rightarrow> wal_file_info \<Rightarrow> string \<Rightarrow>
     'b store \<times> error option" where
  "persist_new_wal_file codec fault st wal_to_persist info table_id =
     (if wal_to_persist \<noteq> [] then
        (case fault of
           Some err \<Rightarrow> (st, Some err)
         | None \<Rightarrow> (st(get_wal_file_path_for_mooncake_table (file_number info) table_id \<mapsto>
                       enc_events codec wal_to_persist), None))
      else (st, None))"

definition persist_metadata ::
    "'b wal_codec \<Rightarrow> error option \<Rightarrow> 'b store \<Rightarrow> persistent_wal_metadata \<Rightarrow>
     'b store \<times> error option" where
  "persist_metadata codec fault st md =
     (case fault of
        Some err \<Rightarrow> (st, Some err)
      | None \<Rightarrow> (st(get_metadata_file_path_for_mooncake_table (md_mooncake_table_id md) \<mapsto>
                    enc_metadata codec md), None))"

text \<open>All deletions are attempted; the first error in their order is returned.\<close>

fun delete_files ::
    "(nat \<Rightarrow> error option) \<Rightarrow> 'b store \<Rightarrow> wal_file_info list \<Rightarrow> string \<Rightarrow>
     'b store \<times> error option" where
  "delete_files fault st [] table_id = (st, None)"
| "delete_files fault st (info # infos) table_id =
     (let path = get_wal_file_path_for_mooncake_table (file_number info) table_id;
          (st', err) = delete_files fault
            (if fault (file_number info) = None then st(path := None) else st) infos table_id
      in (st', case fault (file_number info) of None \<Rightarrow> err | Some e \<Rightarrow> Some e))"

definition wal_persist_truncate_async ::
    "'b wal_codec \<Rightarrow> io_faults \<Rightarrow> uuid \<Rightarrow> prepare_persistent_update \<Rightarrow> 'b store \<Rightarrow>
     'b store \<times> (error + wal_persistence_update_result)" where
  "wal_persist_truncate_async codec faults uuid u st =
     (let table_id = md_mooncake_table_id (persistent_wal_metadata u);
          (st1, e1) = (case files_to_persist u of
              None \<Rightarrow> (st, None)
            | Some (events, info) \<Rightarrow>
                persist_new_wal_file codec (file_write_error faults) st events info table_id)
      in case e1 of
           Some err \<Rightarrow> (st1, Inl err)
         | None \<Rightarrow>
             (let (st2, e2) = persist_metadata codec (metadata_write_error faults) st1
                    (persistent_wal_metadata u)
              in case e2 of
                   Some err \<Rightarrow> (st2, Inl err)
                 | None \<Rightarrow>
                     (let (st3, e3) = (if files_to_delete u \<noteq> []
                            then delete_files (delete_error faults) st2 (files_to_delete u) table_id
                            else (st2, None))
                      in case e3 of
                           Some err \<Rightarrow> (st3, Inl err)
                         | None \<Rightarrow> (st3, Inr \<lparr>wal_result_uuid = uuid,
                             prepare_persistent_update = u\<rparr>))))"

text \<open>Dropping the log removes the whole WAL folder of the accessor's root.\<close>

definition drop_wal :: "error option \<Rightarrow> 'b store \<Rightarrow> 'b store \<times> error option" where
  "drop_wal fault st = (case fault of
       Some err \<Rightarrow> (st, Some err)
     | None \<Rightarrow> (\<lambda>path. if take 5 path = DEFAULT_WAL_FOLDER @ ''/'' then None else st path, None))"

section \<open>Recovery\<close>

definition recover_from_persistent_wal_metadata ::
    "'b wal_codec \<Rightarrow> 'b store \<Rightarrow> string \<Rightarrow> persistent_wal_metadata option res" where
  "recover_from_persistent_wal_metadata codec st table_id =
     (case st (get_metadata_file_path_for_mooncake_table table_id) of
        None \<Rightarrow> Ok None
      | Some bytes \<Rightarrow> unwrap (dec_metadata codec bytes) (\<lambda>md. Ok (Some md)))"

definition from_persistent_wal_metadata ::
    "persistent_wal_metadata \<Rightarrow> string \<Rightarrow> wal_manager res" where
  "from_persistent_wal_metadata md table_id =
     check (table_id = md_mooncake_table_id md) AssertFailed (Ok
       \<lparr>in_mem_buf = [],
        highest_completion_lsn = md_highest_completion_lsn md,
        live_wal_files_tracker = md_live_wal_files_tracker md,
        curr_file_number = md_curr_file_number md,
        active_transactions = md_active_transactions md,
        main_transaction_tracker = md_main_transaction_tracker md,
        wal_table_id = table_id\<rparr>)"

text \<open>One item per file number of the stream; an unreadable file is an error item.\<close>

definition recover_wal_file ::
    "'b wal_codec \<Rightarrow> 'b store \<Rightarrow> string \<Rightarrow> nat \<Rightarrow> error + ('md, 'dsw, 'snap) table_event list" where
  "recover_wal_file codec st table_id n =
     (case st (get_wal_file_path_for_mooncake_table n table_id) of
        None \<Rightarrow> Inl ''object not found''
      | Some bytes \<Rightarrow>
          (case dec_events codec bytes of
             None \<Rightarrow> Inl ''invalid wal file''
           | Some events \<Rightarrow> Inr (map into_table_event events)))"

definition recover_flushed_wals ::
    "'b wal_codec \<Rightarrow> 'b store \<Rightarrow> persistent_wal_metadata \<Rightarrow>
     (error + ('md, 'dsw, 'snap) table_event list) list res" where
  "recover_flushed_wals codec st md =
     (let live = md_live_wal_files_tracker md
      in check (live \<noteq> []) UnwrapNone (Ok
           (map (recover_wal_file codec st (md_mooncake_table_id md))
             [file_number (hd live) ..< Suc (file_number (last live))])))"

definition recover_flushed_wals_flat ::
    "'b wal_codec \<Rightarrow> 'b store \<Rightarrow> persistent_wal_metadata \<Rightarrow>
     (error + ('md, 'dsw, 'snap) table_event) list res" where
  "recover_flushed_wals_flat codec st md =
     res_bind (recover_flushed_wals codec st md) (\<lambda>items.
       Ok (concat (map (\<lambda>item. case item of Inr events \<Rightarrow> map Inr events | Inl e \<Rightarrow> [Inl e]) items)))"

definition event_already_captured_in_iceberg_snapshot :: "lsn \<Rightarrow> lsn option \<Rightarrow> bool" where
  "event_already_captured_in_iceberg_snapshot l last_lsn =
     (case last_lsn of Some s \<Rightarrow> l \<le> s | None \<Rightarrow> False)"

definition reapply_by_xact ::
    "('md, 'dsw, 'snap) table_event \<Rightarrow> lsn \<Rightarrow> xact_id option \<Rightarrow>
     (xact_id \<times> wal_transaction_state) list \<Rightarrow> lsn \<Rightarrow> lsn option \<Rightarrow> bool res" where
  "reapply_by_xact event l x xact_map highest last_lsn = (case x of
       Some x \<Rightarrow>
         (case map_of xact_map x of
            Some (XactCommit _ c _) \<Rightarrow> Ok (\<not> event_already_captured_in_iceberg_snapshot c last_lsn)
          | Some (XactAbort _ c _) \<Rightarrow> Ok (\<not> event_already_captured_in_iceberg_snapshot c last_lsn)
          | Some (XactOpen _) \<Rightarrow> Ok False
          | None \<Rightarrow>
              (case event of
                 Commit c _ _ \<Rightarrow>
                   check (event_already_captured_in_iceberg_snapshot c last_lsn) AssertFailed (Ok False)
               | _ \<Rightarrow> Ok False))
     | None \<Rightarrow> Ok (\<not> event_already_captured_in_iceberg_snapshot l last_lsn \<and> l \<le> highest))"

definition should_reapply_wal_event ::
    "('md, 'dsw, 'snap) table_event \<Rightarrow> (xact_id \<times> wal_transaction_state) list \<Rightarrow> lsn \<Rightarrow>
     lsn option \<Rightarrow> bool res" where
  "should_reapply_wal_event event xact_map highest last_lsn = (case event of
       Append _ x l _ \<Rightarrow> reapply_by_xact event l x xact_map highest last_lsn
     | Delete _ l x _ _ \<Rightarrow> reapply_by_xact event l x xact_map highest last_lsn
     | Commit l x _ \<Rightarrow> reapply_by_xact event l x xact_map highest last_lsn
     | CommitFlush _ _ _ \<Rightarrow> Ok False
     | StreamFlush _ _ \<Rightarrow> Ok False
     | _ \<Rightarrow> Panic Unimplemented)"

text \<open>The replay loop; the result is the sequence of events sent to the table handler.\<close>

fun replay_events ::
    "(error + ('md, 'dsw, 'snap) table_event) list \<Rightarrow> (xact_id \<times> wal_transaction_state) list \<Rightarrow>
     lsn \<Rightarrow> lsn option \<Rightarrow> ('md, 'dsw, 'snap) table_event list res" where
  "replay_events [] xact_map highest last_lsn = Ok []"
| "replay_events (Inl err # items) xact_map highest last_lsn =
     replay_events items xact_map highest last_lsn"
| "replay_events (Inr event # items) xact_map highest last_lsn =
     res_bind (should_reapply_wal_event event xact_map highest last_lsn) (\<lambda>reapply.
     if reapply then
       res_bind (set_is_recovery True event) (\<lambda>event.
       res_bind (replay_events items xact_map highest last_lsn) (\<lambda>sent. Ok (event # sent)))
     else replay_events items xact_map highest last_lsn)"

definition close_open_xacts ::
    "(xact_id \<times> wal_transaction_state) list \<Rightarrow> ('md, 'dsw, 'snap) table_event list" where
  "close_open_xacts xacts =
     concat (map (\<lambda>(x, st). case st of XactOpen _ \<Rightarrow> [StreamAbort x False True] | _ \<Rightarrow> []) xacts)"

definition replay_recovery_from_wal ::
    "'b wal_codec \<Rightarrow> 'b store \<Rightarrow> persistent_wal_metadata option \<Rightarrow> lsn option \<Rightarrow>
     ('md, 'dsw, 'snap) table_event list res" where
  "replay_recovery_from_wal codec st metadata last_lsn =
     (case metadata of
        None \<Rightarrow> Ok []
      | Some md \<Rightarrow>
          if md_live_wal_files_tracker md = [] then Ok []
          else res_bind (recover_flushed_wals_flat codec st md) (\<lambda>items.
               res_bind (replay_events items (md_active_transactions md)
                   (md_highest_completion_lsn md) last_lsn) (\<lambda>sent.
               Ok (sent @ close_open_xacts (md_active_transactions md) @
                   [FinishRecovery (md_highest_completion_lsn md)]))))"

end
