(* ===== verification/Wal_Truncation.thy ===== *)
theory Wal_Truncation
  imports Wal
begin

text \<open>
  Safety of WAL truncation. The manager is run as a transition system of pushes and
  persistence cycles, with a ghost log that remembers every event, the file it went to
  and the completion LSN at that time. The invariant says that every logged event is
  either captured by a snapshot already used for a clean-up, or covered by a tracked
  transaction that starts no later than the event's file.
\<close>

section \<open>Ghost log\<close>

record log_entry =
  le_file :: nat
  le_event :: wal_event
  le_lsn :: lsn

definition wal_xact :: "wal_event \<Rightarrow> xact_id option" where
  "wal_xact w = (case w of
       WalAppend _ x _ \<Rightarrow> x | WalDelete _ _ x _ \<Rightarrow> x | WalCommit _ x \<Rightarrow> x
     | WalStreamAbort x \<Rightarrow> Some x | WalStreamFlush _ \<Rightarrow> None)"

definition is_completion :: "wal_event \<Rightarrow> bool" where
  "is_completion w = (case w of WalCommit _ _ \<Rightarrow> True | WalStreamAbort _ \<Rightarrow> True | _ \<Rightarrow> False)"

text \<open>
  The transaction of the \<open>i\<close>-th event completed, with an LSN that a snapshot at \<open>l\<close>
  covers.
\<close>

definition captured_at :: "lsn \<Rightarrow> log_entry list \<Rightarrow> nat \<Rightarrow> bool" where
  "captured_at l log i \<longleftrightarrow> (\<exists>j. i \<le> j \<and> j < length log \<and>
     is_completion (le_event (log ! j)) \<and>
     wal_xact (le_event (log ! j)) = wal_xact (le_event (log ! i)) \<and> le_lsn (log ! j) \<le> l)"

lemma captured_at_mono: "captured_at l log i \<Longrightarrow> l \<le> l' \<Longrightarrow> captured_at l' log i"
  unfolding captured_at_def by (meson le_trans)

lemma captured_at_append: "captured_at l log i \<Longrightarrow> captured_at l (log @ xs) i"
proof -
  assume "captured_at l log i"
  then obtain j where "i \<le> j" "j < length log" "is_completion (le_event (log ! j))"
    "wal_xact (le_event (log ! j)) = wal_xact (le_event (log ! i))" "le_lsn (log ! j) \<le> l"
    unfolding captured_at_def by blast
  then show ?thesis
    unfolding captured_at_def by (intro exI[of _ j]) (simp add: nth_append)
qed

text \<open>A completion at the end of the log captures all earlier events of its transaction.\<close>

lemma captured_by_last:
  "i \<le> length log \<Longrightarrow> is_completion (le_event e) \<Longrightarrow> le_lsn e \<le> l \<Longrightarrow>
   wal_xact (le_event e) = wal_xact (le_event ((log @ [e]) ! i)) \<Longrightarrow>
   captured_at l (log @ [e]) i"
  unfolding captured_at_def by (intro exI[of _ "length log"]) simp

section \<open>The transition system\<close>

text \<open>The payloads of the other event kinds play no role here.\<close>

type_synonym ingest_event = "(unit, unit, unit) table_event"

record wal_run =
  mgr :: wal_manager
  log :: "log_entry list"
  cleaned :: "lsn option"
  pending_update :: "prepare_persistent_update option"

definition lsn_le :: "lsn option \<Rightarrow> lsn option \<Rightarrow> bool" where
  "lsn_le a b = (case a of None \<Rightarrow> True | Some x \<Rightarrow> (case b of None \<Rightarrow> False | Some y \<Rightarrow> x \<le> y))"

text \<open>
  An event is pushed; a persistence cycle is prepared with the LSN of the latest iceberg
  snapshot, which never decreases; the cycle completes. At most one cycle is under way,
  as the table handler ensures.
\<close>

inductive wal_step :: "wal_run \<Rightarrow> wal_run \<Rightarrow> bool" where
  wal_push: "is_ingest_event (e :: ingest_event) \<Longrightarrow> push (mgr r) e = Ok m \<Longrightarrow>
     wal_event_new e = Ok w \<Longrightarrow>
     wal_step r (r\<lparr>mgr := m, log := log r @
       [\<lparr>le_file = curr_file_number (mgr r), le_event = w, le_lsn = highest_completion_lsn m\<rparr>]\<rparr>)"
| wal_prepare: "pending_update r = None \<Longrightarrow> lsn_le (cleaned r) l \<Longrightarrow>
     prepare_update (mgr r) l = Ok (u, m) \<Longrightarrow> should_do_persistence u \<Longrightarrow>
     wal_step r (r\<lparr>mgr := m, pending_update := Some u\<rparr>)"
| wal_complete: "pending_update r = Some u \<Longrightarrow>
     handle_complete_wal_persistence_update (mgr r)
       \<lparr>wal_result_uuid = uuid, prepare_persistent_update = u\<rparr> = Ok (h, m) \<Longrightarrow>
     wal_step r (r\<lparr>mgr := m, pending_update := None,
       cleaned := (case accompanying_persistence_snapshot_lsn u of
                     None \<Rightarrow> cleaned r | Some l \<Rightarrow> Some l)\<rparr>)"

definition wal_start :: "string \<Rightarrow> wal_run" where
  "wal_start table_id =
     \<lparr>mgr = new_wal_manager table_id, log = [], cleaned = None, pending_update = None\<rparr>"

section \<open>What a push does\<close>

definition push_base :: "wal_manager \<Rightarrow> wal_event \<Rightarrow> lsn \<Rightarrow> wal_manager" where
  "push_base m w h = m\<lparr>in_mem_buf := in_mem_buf m @ [w], highest_completion_lsn := h\<rparr>"

definition stream_old_state :: "wal_manager \<Rightarrow> xact_id \<Rightarrow> wal_transaction_state" where
  "stream_old_state m x = (case map_of (active_transactions m) x of
       None \<Rightarrow> XactOpen (curr_file_number m) | Some st \<Rightarrow> st)"

text \<open>
  \<open>next_state w h cur_file old st\<close>: what the new state of a transaction owes to its
  old one, to the event and to the current file.
\<close>

definition next_state ::
    "wal_event \<Rightarrow> lsn \<Rightarrow> nat \<Rightarrow> wal_transaction_state \<Rightarrow> wal_transaction_state \<Rightarrow> bool" where
  "next_state w h cur_file old st \<longleftrightarrow> get_start_file st = get_start_file old \<and>
     (if is_completion w then get_completion_lsn_and_file st = Some (h, cur_file)
      else st = XactOpen (get_start_file old)) \<and>
     (wal_xact w = None \<longrightarrow> (\<forall>a b c. st \<noteq> XactAbort a b c))"

lemmas event_defs = is_ingest_event_def wal_event_new_def event_xact_id_def wal_xact_def
  is_completion_def commit_lsn_def get_updated_xact_state_def get_start_file_def
  get_completion_lsn_and_file_def is_recovery_def

lemma push_cases:
  assumes "push m e = Ok m'" and "is_ingest_event e" and "wal_event_new e = Ok w"
  obtains (stream) x st where "wal_xact w = Some x"
      "m' = (push_base m w (highest_completion_lsn m'))
         \<lparr>active_transactions := AList.update x st (active_transactions m)\<rparr>"
      "next_state w (highest_completion_lsn m') (curr_file_number m) (stream_old_state m x) st"
  | (main) old tr tr' st where "wal_xact w = None"
      "main_old_state (main_transaction_tracker m) (curr_file_number m) = (old, tr)"
      "merge_main_commit tr st = Ok tr'"
      "m' = (push_base m w (highest_completion_lsn m'))\<lparr>main_transaction_tracker := tr' @ [st]\<rparr>"
      "next_state w (highest_completion_lsn m') (curr_file_number m) old st"
proof -
  define h where "h = (case commit_lsn e of None \<Rightarrow> highest_completion_lsn m | Some l \<Rightarrow> l)"
  have upd: "update_transaction_tracking (push_base m w h) e = Ok m'"
    using assms(1,3) by (auto simp: push_def push_base_def h_def Let_def split: option.splits)
  have x: "event_xact_id e = wal_xact w"
    using assms(2,3) by (cases e) (auto simp: event_defs)
  have nx: "next_state w h (curr_file_number m) old st"
    if "get_updated_xact_state e old h (curr_file_number m) = Ok st" for old st
    using assms(2,3) that
    by (cases e) (auto simp: next_state_def event_defs h_def split: wal_transaction_state.splits)
  show ?thesis
  proof (cases "wal_xact w")
    case (Some y)
    then obtain st where st: "get_updated_xact_state e (stream_old_state m y) h (curr_file_number m) = Ok st"
      and m': "m' = (push_base m w h)\<lparr>active_transactions := AList.update y st (active_transactions m)\<rparr>"
      using upd x
      by (auto simp: update_transaction_tracking_def push_base_def stream_old_state_def Let_def
          cong: option.case_cong)
    have h: "h = highest_completion_lsn m'" by (subst m') (simp add: push_base_def)
    show ?thesis by (rule stream[OF Some m'[unfolded h] nx[OF st, unfolded h]])
  next
    case None
    obtain old tr where old: "main_old_state (main_transaction_tracker m) (curr_file_number m) = (old, tr)"
      by fastforce
    then obtain st tr' where st: "get_updated_xact_state e old h (curr_file_number m) = Ok st"
      and mg: "merge_main_commit tr st = Ok tr'"
      and m': "m' = (push_base m w h)\<lparr>main_transaction_tracker := tr' @ [st]\<rparr>"
      using upd x None
      by (auto simp: update_transaction_tracking_def push_base_def Let_def)
    have h: "h = highest_completion_lsn m'" by (subst m') (simp add: push_base_def)
    show ?thesis by (rule main[OF None old mg m'[unfolded h] nx[OF st, unfolded h]])
  qed
qed

section \<open>The invariant\<close>

definition covers :: "log_entry list \<Rightarrow> nat \<Rightarrow> wal_transaction_state \<Rightarrow> bool" where
  "covers lg i st \<longleftrightarrow> get_start_file st \<le> le_file (lg ! i) \<and>
     (\<forall>c f. get_completion_lsn_and_file st = Some (c, f) \<longrightarrow> captured_at c lg i)"

definition tracked_states :: "wal_manager \<Rightarrow> xact_id option \<Rightarrow> wal_transaction_state set" where
  "tracked_states m x = (case x of
       None \<Rightarrow> set (main_transaction_tracker m)
     | Some x \<Rightarrow> set_option (map_of (active_transactions m) x))"

definition all_states :: "wal_manager \<Rightarrow> wal_transaction_state set" where
  "all_states m = set (main_transaction_tracker m) \<union> snd ` set (active_transactions m)"

definition entry_covered :: "lsn option \<Rightarrow> log_entry list \<Rightarrow> wal_manager \<Rightarrow> nat \<Rightarrow> bool" where
  "entry_covered cl lg m i \<longleftrightarrow>
     (\<exists>c. cl = Some c \<and> captured_at c lg i) \<or>
     (\<exists>st \<in> tracked_states m (wal_xact (le_event (lg ! i))). covers lg i st)"

lemma entry_coveredI:
  "st \<in> tracked_states m (wal_xact (le_event (lg ! i))) \<Longrightarrow> covers lg i st \<Longrightarrow>
   entry_covered cl lg m i"
  by (auto simp: entry_covered_def)

text \<open>The main tracker is a sequence of commits, followed by at most one open state.\<close>

definition main_ok :: "wal_transaction_state list \<Rightarrow> bool" where
  "main_ok tr \<longleftrightarrow> (\<exists>cs os. tr = cs @ os \<and> (\<forall>st \<in> set cs. \<exists>a b c. st = XactCommit a b c) \<and>
     (os = [] \<or> (\<exists>f. os = [XactOpen f])))"

definition tracker_ok :: "wal_manager \<Rightarrow> bool" where
  "tracker_ok m \<longleftrightarrow> main_ok (main_transaction_tracker m) \<and>
     sorted (map get_start_file (main_transaction_tracker m)) \<and>
     (\<forall>st \<in> all_states m. get_start_file st \<le> curr_file_number m) \<and>
     distinct (map fst (active_transactions m))"

definition wal_inv :: "wal_run \<Rightarrow> bool" where
  "wal_inv r \<longleftrightarrow> tracker_ok (mgr r) \<and>
     (\<forall>i < length (log r). entry_covered (cleaned r) (log r) (mgr r) i) \<and>
     (\<forall>u. pending_update r = Some u \<longrightarrow>
        accompanying_persistence_snapshot_lsn u = None \<or>
        lsn_le (cleaned r) (accompanying_persistence_snapshot_lsn u))"

lemma wal_start_inv: "wal_inv (wal_start table_id)"
  by (simp add: wal_inv_def wal_start_def new_wal_manager_def tracker_ok_def main_ok_def
      all_states_def)

lemma main_old_state_cases:
  assumes "main_ok tr" and "main_old_state tr cur_file = (old, tr')"
  shows "(\<forall>st \<in> set tr'. \<exists>a b c. st = XactCommit a b c)"
    and "(old = XactOpen cur_file \<and> tr = tr') \<or> (\<exists>f. old = XactOpen f \<and> tr = tr' @ [old])"
proof -
  obtain cs os where tr: "tr = cs @ os" and cs: "\<forall>st \<in> set cs. \<exists>a b c. st = XactCommit a b c"
    and os: "os = [] \<or> (\<exists>f. os = [XactOpen f])"
    using assms(1) unfolding main_ok_def by blast
  have last: "cs \<noteq> [] \<Longrightarrow> is_closed (last cs)"
  proof -
    assume "cs \<noteq> []"
    then obtain a b c where "last cs = XactCommit a b c" using cs last_in_set by blast
    then show ?thesis by (simp add: is_closed_def get_completion_lsn_and_file_def)
  qed
  show "\<forall>st \<in> set tr'. \<exists>a b c. st = XactCommit a b c"
    and "(old = XactOpen cur_file \<and> tr = tr') \<or> (\<exists>f. old = XactOpen f \<and> tr = tr' @ [old])"
    using os cs last assms(2) unfolding tr main_old_state_def
    by (auto simp: is_closed_def get_completion_lsn_and_file_def split: if_splits)
qed

lemma merge_main_cases:
  assumes "\<forall>st \<in> set tr. \<exists>a b c. st = XactCommit a b c"
  shows "\<exists>tr'. merge_main_commit tr st = Ok tr' \<and>
    (tr' = tr \<or> (\<exists>a b cur_file l f. st = XactCommit a b cur_file \<and> tr = tr' @ [XactCommit cur_file l f]))"
proof (cases "tr = []")
  case True
  then show ?thesis by (simp add: merge_main_commit_def)
next
  case False
  then obtain a b c where "last tr = XactCommit a b c" using assms last_in_set by blast
  then have "tr = butlast tr @ [XactCommit a b c]" using append_butlast_last_id[OF False] by simp
  then show ?thesis
    using False \<open>last tr = XactCommit a b c\<close> by (cases st) (auto simp: merge_main_commit_def)
qed

text \<open>Continuing a transaction keeps every earlier event of it covered.\<close>

lemma covers_next:
  assumes "next_state w h cur_file old st" and "get_start_file old \<le> le_file (lg ! i)"
    and "i < length lg" and "wal_xact w = wal_xact (le_event (lg ! i))"
  shows "covers (lg @ [\<lparr>le_file = cur_file, le_event = w, le_lsn = h\<rparr>]) i st"
  unfolding covers_def
proof (intro conjI allI impI)
  let ?e = "\<lparr>le_file = cur_file, le_event = w, le_lsn = h\<rparr>"
  show "get_start_file st \<le> le_file ((lg @ [?e]) ! i)"
    using assms by (simp add: next_state_def nth_append)
  fix c f assume "get_completion_lsn_and_file st = Some (c, f)"
  then have "is_completion w" "c = h"
    using assms(1) by (auto simp: next_state_def get_completion_lsn_and_file_def split: if_splits)
  then show "captured_at c (lg @ [?e]) i"
    using assms(3,4) by (intro captured_by_last) (simp_all add: nth_append)
qed

lemma covers_new:
  assumes "next_state w h cur_file old st" and "get_start_file old \<le> cur_file"
  shows "covers (lg @ [\<lparr>le_file = cur_file, le_event = w, le_lsn = h\<rparr>]) (length lg) st"
  unfolding covers_def
proof (intro conjI allI impI)
  let ?e = "\<lparr>le_file = cur_file, le_event = w, le_lsn = h\<rparr>"
  show "get_start_file st \<le> le_file ((lg @ [?e]) ! length lg)"
    using assms by (simp add: next_state_def)
  fix c f assume "get_completion_lsn_and_file st = Some (c, f)"
  then have "is_completion w" "c = h"
    using assms(1) by (auto simp: next_state_def get_completion_lsn_and_file_def split: if_splits)
  then show "captured_at c (lg @ [?e]) (length lg)"
    by (intro captured_by_last) simp_all
qed

lemma covers_append:
  "covers lg i st \<Longrightarrow> i < length lg \<Longrightarrow> covers (lg @ [e]) i st"
  by (auto simp: covers_def nth_append intro: captured_at_append)

lemma stream_old_start:
  "tracker_ok m \<Longrightarrow> get_start_file (stream_old_state m x) \<le> curr_file_number m"
proof (cases "map_of (active_transactions m) x")
  case None
  then show ?thesis by (simp add: stream_old_state_def get_start_file_def)
next
  case (Some st)
  assume "tracker_ok m"
  moreover have "st \<in> all_states m" using map_of_SomeD[OF Some] by (force simp: all_states_def)
  ultimately show ?thesis using Some by (simp add: tracker_ok_def stream_old_state_def)
qed

text \<open>
  The main tracker after a push: the old one up to some point, then the new state, which
  starts no earlier than what is left and no later than what was dropped.
\<close>

lemma main_push_shape:
  assumes inv: "tracker_ok m"
    and old: "main_old_state (main_transaction_tracker m) (curr_file_number m) = (old, tr)"
    and merge: "merge_main_commit tr st = Ok tr'"
    and nxt: "next_state w h (curr_file_number m) old st" and w: "wal_xact w = None"
  shows "main_ok (tr' @ [st])" and "sorted (map get_start_file (tr' @ [st]))"
    and "get_start_file st \<le> curr_file_number m" and "set tr' \<subseteq> set (main_transaction_tracker m)"
    and "\<forall>s \<in> set (main_transaction_tracker m). s \<in> set tr' \<or> get_start_file st \<le> get_start_file s"
proof -
  let ?main = "main_transaction_tracker m" and ?cur = "curr_file_number m"
  have mo: "main_ok ?main" and srt: "sorted (map get_start_file ?main)"
    and bound: "\<forall>s \<in> set ?main. get_start_file s \<le> ?cur"
    using inv by (auto simp: tracker_ok_def all_states_def)
  note cases = main_old_state_cases[OF mo old]
  have st: "get_start_file st = get_start_file old" "\<And>a b c. st \<noteq> XactAbort a b c"
    using nxt w by (auto simp: next_state_def)
  have ordered: "sorted (map get_start_file (tr @ [st]))" and le: "get_start_file st \<le> ?cur"
    and dropped: "\<forall>s \<in> set ?main. s \<in> set tr \<or> get_start_file st \<le> get_start_file s"
    and sub: "set tr \<subseteq> set ?main"
    using cases(2) srt bound st(1) by (auto simp: sorted_append get_start_file_def)
  obtain tr2 where tr2: "merge_main_commit tr st = Ok tr2" and
    mc: "tr2 = tr \<or> (\<exists>a b cur_file l f. st = XactCommit a b cur_file \<and> tr = tr2 @ [XactCommit cur_file l f])"
    using merge_main_cases[OF cases(1), of st] by blast
  have eq: "tr2 = tr'" using tr2 merge by simp
  have end_cur: "cur_file = ?cur" if "st = XactCommit a b cur_file" for a b cur_file
    using nxt that by (auto simp: next_state_def get_completion_lsn_and_file_def split: if_splits)
  have pre: "set tr' \<subseteq> set tr" "sorted (map get_start_file (tr' @ [st]))"
    using mc ordered unfolding eq by (auto simp: sorted_append)
  have drop2: "\<forall>s \<in> set tr. s \<in> set tr' \<or> get_start_file st \<le> get_start_file s"
    using mc le end_cur unfolding eq by (auto simp: get_start_file_def split: wal_transaction_state.splits)
  show "sorted (map get_start_file (tr' @ [st]))" by (rule pre(2))
  show "get_start_file st \<le> ?cur" by (rule le)
  show "set tr' \<subseteq> set ?main" using pre(1) sub by blast
  show "\<forall>s \<in> set ?main. s \<in> set tr' \<or> get_start_file st \<le> get_start_file s"
    using dropped drop2 by blast
  have commits: "\<forall>s \<in> set tr'. \<exists>a b c. s = XactCommit a b c" using cases(1) pre(1) by blast
  show "main_ok (tr' @ [st])"
  proof (cases st)
    case (XactCommit a b c)
    then show ?thesis unfolding main_ok_def using commits
      by (intro exI[of _ "tr' @ [st]"] exI[of _ "[]"]) auto
  next
    case (XactOpen f)
    then show ?thesis unfolding main_ok_def using commits by blast
  qed (use st(2) in blast)
qed

lemma push_tracker_ok:
  assumes inv: "tracker_ok m" and step: "push m e = Ok m'"
    and e: "is_ingest_event e" "wal_event_new e = Ok w"
  shows "tracker_ok m'" and "curr_file_number m' = curr_file_number m"
proof -
  have "tracker_ok m' \<and> curr_file_number m' = curr_file_number m"
    using step e
  proof (cases rule: push_cases)
    case (stream x st)
    have st: "get_start_file st \<le> curr_file_number m"
      using stream(3) stream_old_start[OF inv] by (simp add: next_state_def)
    have fields: "main_transaction_tracker m' = main_transaction_tracker m"
      "curr_file_number m' = curr_file_number m"
      "active_transactions m' = AList.update x st (active_transactions m)"
      by (subst stream(2), simp add: push_base_def)+
    show ?thesis
      using inv st unfolding tracker_ok_def all_states_def fields
      by (auto simp: set_update AList.distinct_update)
  next
    case (main old tr tr' st)
    note shape = main_push_shape[OF inv main(2,3,5,1)]
    have fields: "main_transaction_tracker m' = tr' @ [st]"
      "curr_file_number m' = curr_file_number m" "active_transactions m' = active_transactions m"
      by (subst main(4), simp add: push_base_def)+
    show ?thesis
      using inv shape unfolding tracker_ok_def all_states_def fields by auto
  qed
  then show "tracker_ok m'" "curr_file_number m' = curr_file_number m" by simp_all
qed

lemma push_covered:
  assumes inv: "tracker_ok m" and step: "push m e = Ok m'"
    and e: "is_ingest_event e" "wal_event_new e = Ok w"
    and old: "\<forall>i < length lg. entry_covered cl lg m i"
    and i: "i < Suc (length lg)"
  shows "entry_covered cl (lg @ [\<lparr>le_file = curr_file_number m, le_event = w,
      le_lsn = highest_completion_lsn m'\<rparr>]) m' i"
proof -
  let ?e = "\<lparr>le_file = curr_file_number m, le_event = w, le_lsn = highest_completion_lsn m'\<rparr>"
  let ?lg = "lg @ [?e]"
  have track: "\<exists>old st. next_state w (highest_completion_lsn m') (curr_file_number m) old st \<and>
      get_start_file old \<le> curr_file_number m \<and> st \<in> tracked_states m' (wal_xact w) \<and>
      (\<forall>s \<in> tracked_states m (wal_xact w). s \<in> tracked_states m' (wal_xact w) \<or>
         get_start_file old \<le> get_start_file s) \<and>
      (\<forall>x. x \<noteq> wal_xact w \<longrightarrow> tracked_states m' x = tracked_states m x)"
    using step e
  proof (cases rule: push_cases)
    case (stream x st)
    have fields: "main_transaction_tracker m' = main_transaction_tracker m"
      "active_transactions m' = AList.update x st (active_transactions m)"
      by (subst stream(2), simp add: push_base_def)+
    have "tracked_states m' (Some x) = {st}"
      and "\<forall>s \<in> tracked_states m (Some x). s = stream_old_state m x"
      and "\<forall>y. y \<noteq> Some x \<longrightarrow> tracked_states m' y = tracked_states m y"
      by (auto simp: tracked_states_def fields AList.update_conv' stream_old_state_def
          split: option.splits)
    then show ?thesis
      using stream(1,3) stream_old_start[OF inv, of x]
      by (intro exI[of _ "stream_old_state m x"] exI[of _ st]) auto
  next
    case (main old tr tr' st)
    note shape = main_push_shape[OF inv main(2,3,5,1)]
    have fields: "main_transaction_tracker m' = tr' @ [st]"
      "active_transactions m' = active_transactions m"
      by (subst main(4), simp add: push_base_def)+
    have "get_start_file st = get_start_file old" using main(5) by (simp add: next_state_def)
    then show ?thesis
      using main(1,5) shape(3,5)
      by (intro exI[of _ old] exI[of _ st]) (auto simp: tracked_states_def fields)
  qed
  then obtain old st where nxt: "next_state w (highest_completion_lsn m') (curr_file_number m) old st"
    and start: "get_start_file old \<le> curr_file_number m"
    and st: "st \<in> tracked_states m' (wal_xact w)"
    and same: "\<forall>s \<in> tracked_states m (wal_xact w). s \<in> tracked_states m' (wal_xact w) \<or>
         get_start_file old \<le> get_start_file s"
    and other: "\<forall>x. x \<noteq> wal_xact w \<longrightarrow> tracked_states m' x = tracked_states m x"
    by blast
  show ?thesis
  proof (cases "i = length lg")
    case True
    then show ?thesis
      using covers_new[OF nxt start, of lg] st by (intro entry_coveredI[of st]) simp_all
  next
    case False
    then have il: "i < length lg" using i by simp
    then have ev: "?lg ! i = lg ! i" by (simp add: nth_append)
    from old il have "entry_covered cl lg m i" by blast
    then consider (cl) c where "cl = Some c" "captured_at c lg i"
      | (st) s where "s \<in> tracked_states m (wal_xact (le_event (lg ! i)))" "covers lg i s"
      unfolding entry_covered_def by blast
    then show ?thesis
    proof cases
      case cl
      then show ?thesis by (auto simp: entry_covered_def intro: captured_at_append)
    next
      case s: (st s)
      show ?thesis
      proof (cases "wal_xact (le_event (lg ! i)) = wal_xact w")
        case True
        then consider "s \<in> tracked_states m' (wal_xact w)" | "get_start_file old \<le> get_start_file s"
          using s(1) same by auto
        then show ?thesis
        proof cases
          case 1
          then show ?thesis
            using covers_append[OF s(2) il] True ev by (intro entry_coveredI[of s]) simp_all
        next
          case 2
          then have "get_start_file old \<le> le_file (lg ! i)" using s(2) by (simp add: covers_def)
          from covers_next[OF nxt this il True[symmetric]] show ?thesis
            using st True ev by (intro entry_coveredI[of st]) simp_all
        qed
      next
        case False
        then have "s \<in> tracked_states m' (wal_xact (le_event (lg ! i)))" using s(1) other by simp
        then show ?thesis
          using covers_append[OF s(2) il] ev by (intro entry_coveredI[of s]) simp_all
      qed
    qed
  qed
qed

section \<open>Persistence cycles\<close>

lemma retain_res_filter:
  assumes "retain_res p xs = Ok ys" and "\<And>x b. x \<in> set xs \<Longrightarrow> p x = Ok b \<Longrightarrow> b = q x"
  shows "ys = filter q xs"
  using assms
proof (induction xs arbitrary: ys)
  case Nil
  then show ?case by simp
next
  case (Cons x xs)
  from Cons.prems(1) obtain b zs where b: "p x = Ok b" "retain_res p xs = Ok zs"
    "ys = (if b then x # zs else zs)"
    by auto
  have "zs = filter q xs" using Cons.IH[OF b(2)] Cons.prems(2) by simp
  moreover have "b = q x" using Cons.prems(2)[OF _ b(1)] by simp
  ultimately show ?case using b(3) by simp
qed

lemma uncaptured_iff:
  "uncaptured l st \<longleftrightarrow> (\<forall>c f. get_completion_lsn_and_file st = Some (c, f) \<longrightarrow> l < c)"
  by (auto simp: uncaptured_def is_captured_in_iceberg_snapshot_def split: option.splits if_splits)

lemma captured_test:
  "is_captured_in_iceberg_snapshot st l lowest = Ok b \<Longrightarrow> b = (\<not> uncaptured l st)"
  by (auto simp: uncaptured_iff is_captured_in_iceberg_snapshot_def split: option.splits if_splits)

lemma cleanedup_filter:
  assumes "compute_cleanedup_xacts m (Some l) deleted = Ok (xacts, main)"
  shows "xacts = filter (\<lambda>p. uncaptured l (snd p)) (active_transactions m)"
    and "main = filter (uncaptured l) (main_transaction_tracker m)"
proof -
  let ?low = "if deleted = [] then None else Some (file_number (last deleted) + 1)"
  let ?p = "\<lambda>st. res_bind (is_captured_in_iceberg_snapshot st l ?low) (\<lambda>b. Ok (\<not> b))"
  have a: "retain_res (\<lambda>(_, st). ?p st) (active_transactions m) = Ok xacts"
    and b: "retain_res ?p (main_transaction_tracker m) = Ok main"
    using assms by (auto simp: compute_cleanedup_xacts_def Let_def)
  show "xacts = filter (\<lambda>p. uncaptured l (snd p)) (active_transactions m)"
    using a by (rule retain_res_filter) (auto dest: captured_test split: prod.splits)
  show "main = filter (uncaptured l) (main_transaction_tracker m)"
    using b by (rule retain_res_filter) (auto dest: captured_test)
qed

lemma main_ok_filter: "main_ok tr \<Longrightarrow> main_ok (filter (uncaptured l) tr)"
proof -
  assume "main_ok tr"
  then obtain cs os where tr: "tr = cs @ os" and cs: "\<forall>st \<in> set cs. \<exists>a b c. st = XactCommit a b c"
    and os: "os = [] \<or> (\<exists>f. os = [XactOpen f])"
    unfolding main_ok_def by blast
  have "filter (uncaptured l) os = os"
    using os by (auto simp: uncaptured_iff get_completion_lsn_and_file_def)
  then show ?thesis
    unfolding main_ok_def tr using cs os
    by (intro exI[of _ "filter (uncaptured l) cs"] exI[of _ os]) auto
qed

lemma map_of_filter_value:
  "distinct (map fst al) \<Longrightarrow>
   map_of (filter (\<lambda>p. P (snd p)) al) x =
     (case map_of al x of None \<Rightarrow> None | Some v \<Rightarrow> if P v then Some v else None)"
  by (induction al) (auto simp: map_of_eq_None_iff split: option.splits dest: map_of_SomeD
      intro: image_eqI)

definition cleaned_manager :: "wal_manager \<Rightarrow> lsn \<Rightarrow> wal_manager" where
  "cleaned_manager m l =
     m\<lparr>active_transactions := filter (\<lambda>p. uncaptured l (snd p)) (active_transactions m),
       main_transaction_tracker := filter (uncaptured l) (main_transaction_tracker m)\<rparr>"

lemma cleaned_tracker_ok: "tracker_ok m \<Longrightarrow> tracker_ok (cleaned_manager m l)"
  by (auto simp: tracker_ok_def cleaned_manager_def all_states_def main_ok_filter sorted_filter
      distinct_map_filter)

lemma cleaned_tracked:
  assumes "tracker_ok m"
  shows "tracked_states (cleaned_manager m l) x = {st \<in> tracked_states m x. uncaptured l st}"
proof -
  have d: "distinct (map fst (active_transactions m))" using assms by (simp add: tracker_ok_def)
  show ?thesis
    using map_of_filter_value[OF d, of "uncaptured l"]
    by (auto simp: tracked_states_def cleaned_manager_def split: option.splits if_splits)
qed

lemma cleaned_covered:
  assumes "tracker_ok m" and "entry_covered cl lg m i" and "lsn_le cl (Some l)"
  shows "entry_covered (Some l) lg (cleaned_manager m l) i"
proof -
  from assms(2) consider (cl) c where "cl = Some c" "captured_at c lg i"
    | (st) s where "s \<in> tracked_states m (wal_xact (le_event (lg ! i)))" "covers lg i s"
    unfolding entry_covered_def by blast
  then show ?thesis
  proof cases
    case cl
    then have "captured_at l lg i"
      using assms(3) by (auto simp: lsn_le_def intro: captured_at_mono)
    then show ?thesis by (simp add: entry_covered_def)
  next
    case (st s)
    show ?thesis
    proof (cases "uncaptured l s")
      case True
      then show ?thesis
        using st cleaned_tracked[OF assms(1)] by (intro entry_coveredI[of s]) simp_all
    next
      case False
      then obtain c f where c: "get_completion_lsn_and_file s = Some (c, f)" "c \<le> l"
        by (auto simp: uncaptured_iff)
      then have "captured_at l lg i"
        using st(2) by (auto simp: covers_def intro: captured_at_mono)
      then show ?thesis by (simp add: entry_covered_def)
    qed
  qed
qed

lemma complete_manager:
  assumes "handle_complete_wal_persistence_update m
      \<lparr>wal_result_uuid = uuid, prepare_persistent_update = u\<rparr> = Ok (h, m')"
  shows "m' = (case accompanying_persistence_snapshot_lsn u of
      None \<Rightarrow> update_live_wal_file_tracker m (files_to_delete u) (map_option snd (files_to_persist u))
    | Some l \<Rightarrow> cleaned_manager (update_live_wal_file_tracker m (files_to_delete u)
        (map_option snd (files_to_persist u))) l)"
proof -
  let ?m = "update_live_wal_file_tracker m (files_to_delete u) (map_option snd (files_to_persist u))"
  have "res_bind (case accompanying_persistence_snapshot_lsn u of None \<Rightarrow> Ok ?m
      | Some l \<Rightarrow> clean_up_xacts ?m l (files_to_delete u)) (\<lambda>m.
        check (live_wal_files_tracker m = md_live_wal_files_tracker (persistent_wal_metadata u))
          AssertFailed
          (check (list_all (tracked_xact_consistent u) (active_transactions m)) AssertFailed (Ok m)))
      = Ok m'"
    using assms
    by (auto simp: handle_complete_wal_persistence_update_def
        update_trackers_for_persistence_update_result_def Let_def)
  then show ?thesis
    using cleanedup_filter[of ?m]
    by (auto simp: clean_up_xacts_def cleaned_manager_def split: option.splits prod.splits)
qed

lemma prepare_manager:
  assumes "prepare_update m l = Ok (u, m')"
  shows "m' = snd (extract_next_persistence_file m)"
    and "accompanying_persistence_snapshot_lsn u = l"
    and "files_to_persist u = fst (extract_next_persistence_file m)"
    and "case l of None \<Rightarrow> files_to_delete u = []
      | Some s \<Rightarrow> get_files_to_truncate m s = Ok (files_to_delete u)"
proof -
  obtain nf m1 where ex: "extract_next_persistence_file m = (nf, m1)" by fastforce
  show "m' = snd (extract_next_persistence_file m)"
    "accompanying_persistence_snapshot_lsn u = l"
    "files_to_persist u = fst (extract_next_persistence_file m)"
    "case l of None \<Rightarrow> files_to_delete u = []
      | Some s \<Rightarrow> get_files_to_truncate m s = Ok (files_to_delete u)"
    using assms ex by (auto simp: prepare_update_def split: option.splits)
qed

lemma live_update_fields:
  "tracker_ok (update_live_wal_file_tracker m d p) = tracker_ok m"
  "entry_covered cl lg (update_live_wal_file_tracker m d p) i = entry_covered cl lg m i"
  by (simp_all add: update_live_wal_file_tracker_def tracker_ok_def all_states_def entry_covered_def
      tracked_states_def split: option.splits)

lemma extract_fields:
  "tracker_ok m \<Longrightarrow> tracker_ok (snd (extract_next_persistence_file m))"
  "entry_covered cl lg (snd (extract_next_persistence_file m)) i = entry_covered cl lg m i"
proof -
  show "entry_covered cl lg (snd (extract_next_persistence_file m)) i = entry_covered cl lg m i"
    by (simp add: extract_next_persistence_file_def entry_covered_def tracked_states_def
        split: option.splits)
  assume "tracker_ok m"
  moreover have "get_start_file st \<le> Suc (curr_file_number m)"
    if "get_start_file st \<le> curr_file_number m" for st using that by simp
  ultimately show "tracker_ok (snd (extract_next_persistence_file m))"
    unfolding extract_next_persistence_file_def tracker_ok_def all_states_def
    by (auto simp: ball_Un)
qed

lemma wal_step_inv:
  assumes inv: "wal_inv r" and step: "wal_step r t"
  shows "wal_inv t"
  using step
proof cases
  case (wal_push e m w)
  have ok: "tracker_ok (mgr r)" using inv by (simp add: wal_inv_def)
  have cov: "\<forall>i < length (log r). entry_covered (cleaned r) (log r) (mgr r) i"
    using inv by (simp add: wal_inv_def)
  note p = push_covered[OF ok wal_push(3,2,4) cov]
  show ?thesis
    using inv p push_tracker_ok(1)[OF ok wal_push(3,2,4)]
    by (simp add: wal_inv_def wal_push(1))
next
  case (wal_prepare l u m)
  show ?thesis
    using inv wal_prepare prepare_manager(1,2)[OF wal_prepare(4)]
    by (simp add: wal_inv_def extract_fields)
next
  case (wal_complete u uuid h m)
  note m = complete_manager[OF wal_complete(3)]
  show ?thesis
  proof (cases "accompanying_persistence_snapshot_lsn u")
    case None
    then show ?thesis
      using inv m by (simp add: wal_inv_def wal_complete(1) live_update_fields)
  next
    case (Some l)
    have le: "lsn_le (cleaned r) (Some l)" and ok: "tracker_ok (mgr r)"
      using inv wal_complete(2) Some by (auto simp: wal_inv_def)
    let ?m = "update_live_wal_file_tracker (mgr r) (files_to_delete u) (map_option snd (files_to_persist u))"
    have ok': "tracker_ok ?m" using ok by (simp add: live_update_fields)
    show ?thesis
      using inv m Some cleaned_tracker_ok[OF ok'] cleaned_covered[OF ok' _ le]
      by (simp add: wal_inv_def wal_complete(1) live_update_fields)
  qed
qed

lemma wal_reachable_inv: "wal_step\<^sup>*\<^sup>* (wal_start table_id) r \<Longrightarrow> wal_inv r"
  by (induction rule: rtranclp_induct) (auto intro: wal_start_inv wal_step_inv)

section \<open>Truncation never loses an uncaptured event\<close>

lemma lowest_le_tracked:
  assumes "tracker_ok m" and "st \<in> tracked_states m x" and "uncaptured l st"
  shows "get_lowest_file_to_keep m l \<le> get_start_file st"
proof -
  define ks where "ks = map get_start_file (filter (uncaptured l) (map snd (active_transactions m)))"
  define fs where "fs = (case find (uncaptured l) (main_transaction_tracker m) of
      None \<Rightarrow> ks | Some s \<Rightarrow> ks @ [get_start_file s])"
  have low: "get_lowest_file_to_keep m l = (if fs = [] then curr_file_number m else Min (set fs))"
    unfolding get_lowest_file_to_keep_def Let_def ks_def fs_def by (rule refl)
  have "\<exists>f \<in> set fs. f \<le> get_start_file st"
  proof (cases x)
    case None
    then have st: "st \<in> set (main_transaction_tracker m)" using assms(2) by (simp add: tracked_states_def)
    then obtain s where s: "find (uncaptured l) (main_transaction_tracker m) = Some s"
      using assms(3) by (metis find_None_iff not_None_eq)
    then obtain i where i: "i < length (main_transaction_tracker m)" "main_transaction_tracker m ! i = s"
      "\<forall>j < i. \<not> uncaptured l (main_transaction_tracker m ! j)"
      by (auto simp: find_Some_iff)
    obtain k where k: "k < length (main_transaction_tracker m)" "main_transaction_tracker m ! k = st"
      using st by (auto simp: in_set_conv_nth)
    have "i \<le> k" using i(3) k(2) assms(3) by (meson not_le)
    then have "get_start_file s \<le> get_start_file st"
      using assms(1) i(1,2) k sorted_nth_mono[of "map get_start_file (main_transaction_tracker m)" i k]
      by (auto simp: tracker_ok_def)
    then show ?thesis using s by (simp add: fs_def)
  next
    case (Some y)
    then have "(y, st) \<in> set (active_transactions m)"
      using assms(2) by (auto simp: tracked_states_def dest: map_of_SomeD split: option.splits)
    then have "get_start_file st \<in> set ks" using assms(3) by (force simp: ks_def)
    then show ?thesis by (auto simp: fs_def split: option.splits)
  qed
  then obtain f where f: "f \<in> set fs" "f \<le> get_start_file st" by blast
  then have "Min (set fs) \<le> get_start_file st" by (meson List.finite_set Min_le le_trans)
  then show ?thesis using f(1) low by (cases "fs = []") auto
qed

lemma kept_if_uncaptured:
  assumes inv: "wal_inv r" and le: "lsn_le (cleaned r) (Some l)"
    and i: "i < length (log r)" and nc: "\<not> captured_at l (log r) i"
  shows "get_lowest_file_to_keep (mgr r) l \<le> le_file (log r ! i)"
proof -
  have ok: "tracker_ok (mgr r)" and cov: "entry_covered (cleaned r) (log r) (mgr r) i"
    using inv i by (simp_all add: wal_inv_def)
  have "\<not> (\<exists>c. cleaned r = Some c \<and> captured_at c (log r) i)"
    using le nc by (auto simp: lsn_le_def intro: captured_at_mono)
  then obtain st where st: "st \<in> tracked_states (mgr r) (wal_xact (le_event (log r ! i)))"
    "covers (log r) i st"
    using cov unfolding entry_covered_def by blast
  have "uncaptured l st"
    using st(2) nc by (auto simp: uncaptured_iff covers_def not_less[symmetric] intro: captured_at_mono)
  from lowest_le_tracked[OF ok st(1) this] st(2) show ?thesis by (simp add: covers_def)
qed

text \<open>
  C1: truncation safety. In every reachable state, whatever the order of pushes, commits,
  aborts and persistence cycles, if a truncation for the snapshot at LSN \<open>l\<close> chooses to
  delete a WAL file, then every event that was ever written to that file belongs to a
  transaction that has committed or aborted with a completion LSN of at most \<open>l\<close>. Nothing
  an iceberg snapshot has not captured is dropped.
\<close>

theorem truncation_keeps_uncaptured:
  assumes "wal_step\<^sup>*\<^sup>* (wal_start table_id) r" and "lsn_le (cleaned r) (Some l)"
    and "get_files_to_truncate (mgr r) l = Ok deleted" and "info \<in> set deleted"
    and "i < length (log r)" and "le_file (log r ! i) = file_number info"
  shows "captured_at l (log r) i"
proof (rule ccontr)
  assume "\<not> captured_at l (log r) i"
  then have "get_lowest_file_to_keep (mgr r) l \<le> file_number info"
    using kept_if_uncaptured[OF wal_reachable_inv[OF assms(1)] assms(2,5)] assms(6) by simp
  then show False
    using assms(3,4) by (auto simp: get_files_to_truncate_def Let_def)
qed

definition committed_run :: wal_run where
  "committed_run = \<lparr>mgr = \<lparr>in_mem_buf = [], highest_completion_lsn = 5,
       live_wal_files_tracker = [\<lparr>file_number = 0, highest_lsn = 5\<rparr>], curr_file_number = 1,
       active_transactions = [], main_transaction_tracker = [XactCommit 0 5 0],
       wal_table_id = ''t''\<rparr>,
     log = [\<lparr>le_file = 0, le_event = WalCommit 5 None, le_lsn = 5\<rparr>],
     cleaned = None, pending_update = None\<rparr>"

lemma committed_run_reachable: "wal_step\<^sup>*\<^sup>* (wal_start ''t'') committed_run"
proof -
  let ?e = "Commit 5 None False :: ingest_event"
  let ?m1 = "\<lparr>in_mem_buf = [WalCommit 5 None], highest_completion_lsn = 5,
       live_wal_files_tracker = [], curr_file_number = 0,
       active_transactions = [], main_transaction_tracker = [XactCommit 0 5 0],
       wal_table_id = ''t''\<rparr>"
  let ?m2 = "?m1\<lparr>in_mem_buf := [], curr_file_number := 1\<rparr>"
  let ?log = "[\<lparr>le_file = 0, le_event = WalCommit 5 None, le_lsn = 5\<rparr>]"
  let ?r1 = "\<lparr>mgr = ?m1, log = ?log, cleaned = None, pending_update = None\<rparr>"
  let ?u = "\<lparr>persistent_wal_metadata =
       \<lparr>md_curr_file_number = 1, md_highest_completion_lsn = 5,
        md_live_wal_files_tracker = [\<lparr>file_number = 0, highest_lsn = 5\<rparr>],
        md_active_transactions = [], md_main_transaction_tracker = [XactCommit 0 5 0],
        md_persistence_snapshot_lsn = None, md_mooncake_table_id = ''t''\<rparr>,
     files_to_delete = [], accompanying_persistence_snapshot_lsn = None,
     files_to_persist = Some ([WalCommit 5 None], \<lparr>file_number = 0, highest_lsn = 5\<rparr>)\<rparr>"
  let ?r2 = "\<lparr>mgr = ?m2, log = ?log, cleaned = None, pending_update = Some ?u\<rparr>"
  have "push (mgr (wal_start ''t'')) ?e = Ok ?m1"
    by (simp add: wal_start_def new_wal_manager_def push_def event_defs
        update_transaction_tracking_def main_old_state_def merge_main_commit_def)
  then have 1: "wal_step (wal_start ''t'') ?r1"
    using wal_push[of ?e "wal_start ''t''" ?m1 "WalCommit 5 None"]
    by (simp add: wal_start_def new_wal_manager_def is_ingest_event_def wal_event_new_def)
  have "prepare_update ?m1 None = Ok (?u, ?m2)"
    by (simp add: prepare_update_def extract_next_persistence_file_def prepare_metadata_def
        compute_cleanedup_xacts_def compute_updated_live_wal_file_tracker_def)
  then have 2: "wal_step ?r1 ?r2"
    using wal_prepare[of ?r1 None ?u ?m2] by (simp add: lsn_le_def should_do_persistence_def)
  have "handle_complete_wal_persistence_update ?m2
      \<lparr>wal_result_uuid = 0, prepare_persistent_update = ?u\<rparr> = Ok (Some 5, mgr committed_run)"
    by (simp add: handle_complete_wal_persistence_update_def committed_run_def
        update_trackers_for_persistence_update_result_def update_live_wal_file_tracker_def
        compute_updated_live_wal_file_tracker_def)
  then have 3: "wal_step ?r2 committed_run"
    using wal_complete[of ?r2 ?u 0 "Some 5" "mgr committed_run"] by (simp add: committed_run_def)
  from 1 2 3 show ?thesis by (meson converse_rtranclp_into_rtranclp rtranclp.rtrancl_refl)
qed

theorem truncation_keeps_uncaptured_witness:
  "get_files_to_truncate (mgr committed_run) 5 = Ok [\<lparr>file_number = 0, highest_lsn = 5\<rparr>]
   \<and> captured_at 5 (log committed_run) 0"
proof -
  have t: "get_files_to_truncate (mgr committed_run) 5 = Ok [\<lparr>file_number = 0, highest_lsn = 5\<rparr>]"
    by (simp add: committed_run_def get_files_to_truncate_def get_lowest_file_to_keep_def
        uncaptured_iff get_completion_lsn_and_file_def)
  show ?thesis
    using t truncation_keeps_uncaptured[OF committed_run_reachable _ t, of _ 0]
    by (simp add: committed_run_def lsn_le_def)
qed

text \<open>
  C26: logging an event never fails. In every reachable state, pushing an ingest event that
  is not a replayed one and whose commit LSN, if any, does not go back, succeeds: the
  assertion on the main tracker holds, and the event is appended to the buffer that the
  next WAL file is made of.
\<close>

theorem push_succeeds:
  assumes "wal_step\<^sup>*\<^sup>* (wal_start table_id) r" and "is_ingest_event (e :: ingest_event)"
    and "is_recovery e = Ok False"
    and "\<forall>l. commit_lsn e = Some l \<longrightarrow> 0 < l \<longrightarrow> highest_completion_lsn (mgr r) \<le> l"
  shows "\<exists>w m. wal_event_new e = Ok w \<and> push (mgr r) e = Ok m
    \<and> in_mem_buf m = in_mem_buf (mgr r) @ [w]"
proof -
  let ?m = "mgr r"
  obtain w where w: "wal_event_new e = Ok w"
    using assms(2) by (cases e) (auto simp: is_ingest_event_def wal_event_new_def)
  define h where "h = (case commit_lsn e of None \<Rightarrow> highest_completion_lsn ?m | Some l \<Rightarrow> l)"
  have mo: "main_ok (main_transaction_tracker ?m)"
    using wal_reachable_inv[OF assms(1)] by (simp add: wal_inv_def tracker_ok_def)
  obtain old tr where old: "main_old_state (main_transaction_tracker ?m) (curr_file_number ?m) = (old, tr)"
    by fastforce
  have upd: "\<exists>st. get_updated_xact_state e o' h (curr_file_number ?m) = Ok st" for o'
    using assms(2) by (cases e) (auto simp: is_ingest_event_def get_updated_xact_state_def)
  have "\<exists>m. update_transaction_tracking (push_base ?m w h) e = Ok m
      \<and> in_mem_buf m = in_mem_buf ?m @ [w]"
  proof (cases "event_xact_id e")
    case None
    obtain st where st: "get_updated_xact_state e old h (curr_file_number ?m) = Ok st"
      using upd by blast
    obtain tr' where "merge_main_commit tr st = Ok tr'"
      using merge_main_cases[OF main_old_state_cases(1)[OF mo old]] by blast
    then show ?thesis
      using None old st by (simp add: update_transaction_tracking_def push_base_def)
  next
    case (Some x)
    then show ?thesis
      using upd[of "case map_of (active_transactions ?m) x of
          None \<Rightarrow> XactOpen (curr_file_number ?m) | Some st \<Rightarrow> st"]
      by (auto simp: update_transaction_tracking_def push_base_def cong: option.case_cong)
  qed
  then show ?thesis
    using w assms(3,4)
    by (auto simp: push_def push_base_def h_def Let_def split: option.splits)
qed

theorem push_succeeds_witness:
  "\<exists>m. push (mgr committed_run) (Append \<lparr>row_values = [Int32 1]\<rparr> None 6 False :: ingest_event) = Ok m
    \<and> in_mem_buf m = [WalAppend \<lparr>row_values = [Int32 1]\<rparr> None 6]"
  using push_succeeds[OF committed_run_reachable,
      of "Append \<lparr>row_values = [Int32 1]\<rparr> None 6 False"]
  by (simp add: is_ingest_event_def is_recovery_def commit_lsn_def wal_event_new_def committed_run_def)

end
