(* ===== verification/Wal_Recovery.thy ===== *)
theory Wal_Recovery
  imports Wal_Truncation
begin

text \<open>
  Crash consistency and recovery of the write-ahead log. The manager is run together with
  the store: pushes, preparation of a persistence cycle, the background task with any
  pattern of I/O failures (a failed write also stands for a crash before it, a failed
  deletion for a crash that prevented it), and completion. The invariant says that the
  metadata on disk always describes files that are there.
\<close>

section \<open>Paths\<close>

lemma of_char_digit: "d < 10 \<Longrightarrow> of_char (char_of (48 + d) :: char) = (48 + d :: nat)"
  by simp

definition read_nat :: "string \<Rightarrow> nat" where
  "read_nat s = foldl (\<lambda>a c. a * 10 + (of_char c - 48)) 0 s"

lemma read_show_nat: "read_nat (show_nat n) = n"
proof (induction n rule: show_nat.induct)
  case (1 n)
  show ?case
  proof (cases "n < 10")
    case True
    then show ?thesis
      using of_char_digit[OF True] by (simp add: show_nat.simps[of n] read_nat_def)
  next
    case False
    have d: "n mod 10 < 10" by simp
    from 1[OF False] show ?thesis
      using False of_char_digit[OF d] by (simp add: show_nat.simps[of n] read_nat_def)
  qed
qed

lemma wal_path_inj [simp]:
  "get_wal_file_path_for_mooncake_table a t = get_wal_file_path_for_mooncake_table b t \<longleftrightarrow> a = b"
proof
  assume "get_wal_file_path_for_mooncake_table a t = get_wal_file_path_for_mooncake_table b t"
  then have "show_nat a = show_nat b" by (simp add: get_wal_file_path_for_mooncake_table_def)
  then show "a = b" by (metis read_show_nat)
qed simp

lemma metadata_path_distinct [simp]:
  "get_metadata_file_path_for_mooncake_table t \<noteq> get_wal_file_path_for_mooncake_table n t"
  "get_wal_file_path_for_mooncake_table n t \<noteq> get_metadata_file_path_for_mooncake_table t"
  by (simp_all add: get_metadata_file_path_for_mooncake_table_def
      get_wal_file_path_for_mooncake_table_def DEFAULT_WAL_FOLDER_def)

section \<open>The log and its store\<close>

record 'b wal_system =
  s_mgr :: wal_manager
  s_store :: "'b store"
  s_pushed :: "wal_event list"
  s_files :: "nat \<Rightarrow> wal_event list"
  s_pending :: "prepare_persistent_update option"
  s_result :: "(error + wal_persistence_update_result) option"

datatype wal_op =
    WPush ingest_event
  | WPrepare "lsn option"
  | WPersist io_faults
  | WComplete

text \<open>
  \<open>s_pushed\<close> and \<open>s_files\<close> are ghosts: all events pushed so far, and the events each file
  number was given when it was cut off the buffer. A cycle whose background task failed is never completed and never retried.
\<close>

definition wal_system_step :: "'b wal_codec \<Rightarrow> 'b wal_system \<Rightarrow> wal_op \<Rightarrow> 'b wal_system res" where
  "wal_system_step codec s op = (case op of
       WPush e \<Rightarrow> res_bind (push (s_mgr s) e) (\<lambda>m.
         res_bind (wal_event_new e) (\<lambda>w. Ok (s\<lparr>s_mgr := m, s_pushed := s_pushed s @ [w]\<rparr>)))
     | WPrepare l \<Rightarrow>
         if s_pending s \<noteq> None then Ok s
         else res_bind (prepare_update (s_mgr s) l) (\<lambda>(u, m).
           if should_do_persistence u then
             Ok (s\<lparr>s_mgr := m, s_pending := Some u, s_result := None,
                 s_files := (case files_to_persist u of
                     None \<Rightarrow> s_files s
                   | Some (events, info) \<Rightarrow> (s_files s)(file_number info := events))\<rparr>)
           else Ok (s\<lparr>s_mgr := m\<rparr>))
     | WPersist faults \<Rightarrow>
         (case s_pending s of
            None \<Rightarrow> Ok s
          | Some u \<Rightarrow>
              if s_result s \<noteq> None then Ok s
              else (let (st, result) = wal_persist_truncate_async codec faults 0 u (s_store s)
                    in Ok (s\<lparr>s_store := st, s_result := Some result\<rparr>)))
     | WComplete \<Rightarrow>
         (case s_result s of
            Some (Inr result) \<Rightarrow>
              res_bind (handle_complete_wal_persistence_update (s_mgr s) result) (\<lambda>(h, m).
                Ok (s\<lparr>s_mgr := m, s_pending := None, s_result := None\<rparr>))
          | _ \<Rightarrow> Ok s))"

definition wal_system_start :: "string \<Rightarrow> 'b wal_system" where
  "wal_system_start table_id = \<lparr>s_mgr = new_wal_manager table_id, s_store = Map.empty,
     s_pushed = [], s_files = (\<lambda>_. []), s_pending = None, s_result = None\<rparr>"

section \<open>Invariant\<close>

text \<open>Live files have consecutive numbers.\<close>

definition live_range :: "wal_file_info list \<Rightarrow> nat \<Rightarrow> bool" where
  "live_range live hi \<longleftrightarrow> (\<exists>lo \<le> hi. map file_number live = [lo..<hi])"

text \<open>The metadata on disk, if any, lists files that are on disk with their contents.\<close>

definition disk_ok ::
    "'b wal_codec \<Rightarrow> 'b store \<Rightarrow> (nat \<Rightarrow> wal_event list) \<Rightarrow> string \<Rightarrow> wal_file_info list \<Rightarrow> bool" where
  "disk_ok codec st files t live \<longleftrightarrow>
     (case st (get_metadata_file_path_for_mooncake_table t) of
        None \<Rightarrow> live = []
      | Some b \<Rightarrow> (\<exists>md. b = enc_metadata codec md \<and> md_mooncake_table_id md = t \<and>
          md_live_wal_files_tracker md = live)) \<and>
     (\<forall>n \<in> set (map file_number live).
        st (get_wal_file_path_for_mooncake_table n t) = Some (enc_events codec (files n)))"

definition update_ok :: "wal_manager \<Rightarrow> (nat \<Rightarrow> wal_event list) \<Rightarrow> prepare_persistent_update \<Rightarrow> bool" where
  "update_ok m files u \<longleftrightarrow>
     md_mooncake_table_id (persistent_wal_metadata u) = wal_table_id m \<and>
     md_live_wal_files_tracker (persistent_wal_metadata u) =
       compute_updated_live_wal_file_tracker m (files_to_delete u)
         (map_option snd (files_to_persist u)) \<and>
     live_range (md_live_wal_files_tracker (persistent_wal_metadata u)) (curr_file_number m) \<and>
     (\<forall>fi \<in> set (files_to_delete u).
        file_number fi \<notin> file_number ` set (md_live_wal_files_tracker (persistent_wal_metadata u))) \<and>
     (case files_to_persist u of
        None \<Rightarrow> live_range (live_wal_files_tracker m) (curr_file_number m)
      | Some (events, info) \<Rightarrow>
          events \<noteq> [] \<and> files (file_number info) = events \<and>
          curr_file_number m = Suc (file_number info) \<and>
          live_range (live_wal_files_tracker m) (file_number info))"

lemma update_ok_live:
  "update_ok m files u \<Longrightarrow>
   live_range (md_live_wal_files_tracker (persistent_wal_metadata u)) (curr_file_number m)"
  unfolding update_ok_def by blast

definition wal_system_inv :: "'b wal_codec \<Rightarrow> 'b wal_system \<Rightarrow> bool" where
  "wal_system_inv codec s \<longleftrightarrow>
     s_pushed s = concat (map (s_files s) [0..<curr_file_number (s_mgr s)]) @ in_mem_buf (s_mgr s) \<and>
     (case s_pending s of
        None \<Rightarrow> s_result s = None \<and>
          live_range (live_wal_files_tracker (s_mgr s)) (curr_file_number (s_mgr s)) \<and>
          disk_ok codec (s_store s) (s_files s) (wal_table_id (s_mgr s))
            (live_wal_files_tracker (s_mgr s))
      | Some u \<Rightarrow> update_ok (s_mgr s) (s_files s) u \<and>
          (case s_result s of
             None \<Rightarrow> disk_ok codec (s_store s) (s_files s) (wal_table_id (s_mgr s))
               (live_wal_files_tracker (s_mgr s))
           | Some (Inr result) \<Rightarrow> prepare_persistent_update result = u \<and>
               disk_ok codec (s_store s) (s_files s) (wal_table_id (s_mgr s))
                 (md_live_wal_files_tracker (persistent_wal_metadata u))
           | Some (Inl err) \<Rightarrow>
               disk_ok codec (s_store s) (s_files s) (wal_table_id (s_mgr s))
                 (live_wal_files_tracker (s_mgr s)) \<or>
               disk_ok codec (s_store s) (s_files s) (wal_table_id (s_mgr s))
                 (md_live_wal_files_tracker (persistent_wal_metadata u))))"

section \<open>Preparation keeps the files consecutive\<close>

lemma filter_below: "filter (\<lambda>i. i < k) [lo..<hi] = [lo..<min k hi]" for k :: nat
proof (induction hi)
  case (Suc hi)
  then show ?case by (cases "k \<le> hi") (auto simp: min_def le_Suc_eq not_le Suc_le_eq)
qed simp

lemma filter_from: "filter (\<lambda>i. k \<le> i) [lo..<hi] = [max lo k..<hi]" for k :: nat
  by (induction hi) (auto simp: max_def)

lemma numbers_filter: "map file_number (filter (\<lambda>fi. P (file_number fi)) live) =
    filter P (map file_number live)"
  by (simp add: filter_map comp_def)

lemma truncated_range:
  assumes "live_range live hi" and "deleted = filter (\<lambda>fi. file_number fi < low) live"
  shows "\<exists>lo \<le> hi. map file_number (if deleted = [] then live
      else filter (\<lambda>fi. file_number fi \<ge> file_number (last deleted) + 1) live) = [lo..<hi]
    \<and> (\<forall>fi \<in> set deleted. file_number fi < lo)"
proof -
  obtain lo where lo: "lo \<le> hi" "map file_number live = [lo..<hi]"
    using assms(1) by (auto simp: live_range_def)
  have del: "map file_number deleted = [lo..<min low hi]"
    using numbers_filter[of "\<lambda>i. i < low" live] lo(2) assms(2) by (simp add: filter_below)
  show ?thesis
  proof (cases "deleted = []")
    case True
    then show ?thesis using lo by auto
  next
    case False
    then have lt: "lo < min low hi" using del by (metis list.map_disc_iff not_le upt_eq_Nil_conv)
    have "file_number (last deleted) = last (map file_number deleted)"
      using False by (simp add: last_map)
    also have "\<dots> = min low hi - 1" unfolding del using lt by simp
    finally have last: "file_number (last deleted) + 1 = min low hi" using lt by simp
    have "map file_number (filter (\<lambda>fi. file_number fi \<ge> min low hi) live) = [min low hi..<hi]"
      using numbers_filter[of "\<lambda>i. min low hi \<le> i" live] lo(2) lt
      by (simp add: filter_from max_def min_def)
    moreover have "file_number fi < min low hi" if "fi \<in> set deleted" for fi
    proof -
      have "file_number fi \<in> set (map file_number deleted)" using that by simp
      then show ?thesis unfolding del by simp
    qed
    ultimately show ?thesis using False last by (intro exI[of _ "min low hi"]) simp
  qed
qed

lemma updated_live_range:
  assumes "live_range (live_wal_files_tracker m) hi"
    and "deleted = filter (\<lambda>fi. file_number fi < low) (live_wal_files_tracker m)"
    and "p = None \<or> (\<exists>h. p = Some \<lparr>file_number = hi, highest_lsn = h\<rparr>)"
  shows "live_range (compute_updated_live_wal_file_tracker m deleted p) (if p = None then hi else Suc hi)"
    and "\<forall>fi \<in> set deleted. file_number fi \<notin>
      file_number ` set (compute_updated_live_wal_file_tracker m deleted p)"
proof -
  obtain lo where lo: "lo \<le> hi" "map file_number (if deleted = [] then live_wal_files_tracker m
      else filter (\<lambda>fi. file_number fi \<ge> file_number (last deleted) + 1) (live_wal_files_tracker m)) = [lo..<hi]"
    and del: "\<forall>fi \<in> set deleted. file_number fi < lo"
    using truncated_range[OF assms(1,2)] by blast
  have nums: "map file_number (compute_updated_live_wal_file_tracker m deleted p) =
      [lo..<(if p = None then hi else Suc hi)]"
    using lo assms(3) unfolding compute_updated_live_wal_file_tracker_def Let_def by auto
  then show "live_range (compute_updated_live_wal_file_tracker m deleted p) (if p = None then hi else Suc hi)"
    using lo(1) unfolding live_range_def by (intro exI[of _ lo]) auto
  have "file_number ` set (compute_updated_live_wal_file_tracker m deleted p) =
      {lo..<(if p = None then hi else Suc hi)}"
    using arg_cong[OF nums, of set] by simp
  then show "\<forall>fi \<in> set deleted. file_number fi \<notin>
      file_number ` set (compute_updated_live_wal_file_tracker m deleted p)"
    using del by auto
qed

lemma prepare_update_ok:
  assumes live: "live_range (live_wal_files_tracker m) (curr_file_number m)"
    and step: "prepare_update m l = Ok (u, m')"
  shows "update_ok m' (case files_to_persist u of None \<Rightarrow> files
      | Some (events, info) \<Rightarrow> files(file_number info := events)) u"
    and "live_wal_files_tracker m' = live_wal_files_tracker m"
    and "wal_table_id m' = wal_table_id m"
    and "case files_to_persist u of None \<Rightarrow> m' = m
      | Some (events, info) \<Rightarrow> file_number info = curr_file_number m"
    and "\<not> should_do_persistence u \<Longrightarrow> m' = m"
proof -
  note p = prepare_manager[OF step]
  have m': "m' = snd (extract_next_persistence_file m)"
    and fp: "files_to_persist u = fst (extract_next_persistence_file m)" using p by simp_all
  show fields: "live_wal_files_tracker m' = live_wal_files_tracker m" "wal_table_id m' = wal_table_id m"
    unfolding m' by (simp_all add: extract_next_persistence_file_def)
  have deleted: "\<exists>low. files_to_delete u = filter (\<lambda>fi. file_number fi < low) (live_wal_files_tracker m)"
  proof (cases l)
    case None
    then show ?thesis using p(4) by (intro exI[of _ 0]) simp
  next
    case (Some k)
    then show ?thesis
      using p(4) by (intro exI[of _ "get_lowest_file_to_keep m k"])
        (simp add: get_files_to_truncate_def Let_def)
  qed
  then obtain low where del: "files_to_delete u = filter (\<lambda>fi. file_number fi < low) (live_wal_files_tracker m')"
    using fields(1) by auto
  obtain xacts main where md: "persistent_wal_metadata u =
      \<lparr>md_curr_file_number = curr_file_number m', md_highest_completion_lsn = highest_completion_lsn m',
       md_live_wal_files_tracker = compute_updated_live_wal_file_tracker m' (files_to_delete u)
         (map_option snd (files_to_persist u)),
       md_active_transactions = xacts, md_main_transaction_tracker = main,
       md_persistence_snapshot_lsn = l, md_mooncake_table_id = wal_table_id m'\<rparr>"
  proof -
    obtain nf m1 where ex: "extract_next_persistence_file m = (nf, m1)" by fastforce
    then show thesis
      using step that by (auto simp: prepare_update_def prepare_metadata_def)
  qed
  show "case files_to_persist u of None \<Rightarrow> m' = m
      | Some (events, info) \<Rightarrow> file_number info = curr_file_number m"
    "\<not> should_do_persistence u \<Longrightarrow> m' = m"
    unfolding fp m' by (auto simp: extract_next_persistence_file_def should_do_persistence_def fp)
  show "update_ok m' (case files_to_persist u of None \<Rightarrow> files
      | Some (events, info) \<Rightarrow> files(file_number info := events)) u"
  proof (cases "in_mem_buf m = []")
    case True
    then have n: "files_to_persist u = None" "m' = m"
      unfolding fp m' by (simp_all add: extract_next_persistence_file_def)
    show ?thesis
      using updated_live_range[OF live del[unfolded n(2)], of None] live
      unfolding update_ok_def md n by (simp add: n)
  next
    case False
    let ?info = "\<lparr>file_number = curr_file_number m, highest_lsn = highest_completion_lsn m\<rparr>"
    have n: "files_to_persist u = Some (in_mem_buf m, ?info)" "curr_file_number m' = Suc (curr_file_number m)"
      using False unfolding fp m' by (simp_all add: extract_next_persistence_file_def)
    have live': "live_range (live_wal_files_tracker m') (curr_file_number m)" using live fields(1) by simp
    show ?thesis
      using updated_live_range[OF live' del, of "Some ?info"] live' False
      unfolding update_ok_def md n(1) by (simp add: n(2))
  qed
qed

section \<open>The background task keeps the disk consistent\<close>

lemma disk_ok_other_file:
  "disk_ok codec st files t live \<Longrightarrow> n \<notin> file_number ` set live \<Longrightarrow>
   disk_ok codec (st(get_wal_file_path_for_mooncake_table n t := v)) files t live"
  by (auto simp: disk_ok_def)

lemma disk_ok_other_content:
  "disk_ok codec st files t live \<Longrightarrow> n \<notin> file_number ` set live \<Longrightarrow>
   disk_ok codec st (files(n := es)) t live"
  by (auto simp: disk_ok_def)

lemma delete_files_ok:
  assumes "disk_ok codec st files t live" and "\<forall>fi \<in> set infos. file_number fi \<notin> file_number ` set live"
  shows "disk_ok codec (fst (delete_files fault st infos t)) files t live"
  using assms
proof (induction infos arbitrary: st)
  case (Cons fi infos)
  let ?st = "if fault (file_number fi) = None
    then st(get_wal_file_path_for_mooncake_table (file_number fi) t := None) else st"
  have "disk_ok codec ?st files t live" using Cons.prems by (simp add: disk_ok_other_file)
  then show ?case using Cons by (simp add: Let_def case_prod_beta)
qed simp

lemma live_range_fresh: "live_range live hi \<Longrightarrow> hi \<notin> file_number ` set live"
proof -
  assume "live_range live hi"
  then obtain lo where "map file_number live = [lo..<hi]" by (auto simp: live_range_def)
  then have "file_number ` set live = {lo..<hi}" by (metis atLeastLessThan_upt list.set_map)
  then show ?thesis by simp
qed

lemma updated_live_subset:
  "set (compute_updated_live_wal_file_tracker m d p) \<subseteq>
   set (live_wal_files_tracker m) \<union> set_option p"
  by (auto simp: compute_updated_live_wal_file_tracker_def Let_def split: option.splits if_splits)

lemma persist_new_ok:
  assumes u: "update_ok m files u" and disk: "disk_ok codec st files t (live_wal_files_tracker m)"
    and t: "t = wal_table_id m"
    and st1: "st1 = (case files_to_persist u of None \<Rightarrow> st
      | Some (events, info) \<Rightarrow> st(get_wal_file_path_for_mooncake_table (file_number info) t \<mapsto>
          enc_events codec events))"
  shows "disk_ok codec st1 files t (live_wal_files_tracker m)"
    and "disk_ok codec (st1(get_metadata_file_path_for_mooncake_table t \<mapsto>
        enc_metadata codec (persistent_wal_metadata u))) files t
      (md_live_wal_files_tracker (persistent_wal_metadata u))"
proof -
  show old: "disk_ok codec st1 files t (live_wal_files_tracker m)"
  proof (cases "files_to_persist u")
    case None
    then show ?thesis using disk st1 by simp
  next
    case (Some p)
    then have "live_range (live_wal_files_tracker m) (file_number (snd p))"
      using u by (auto simp: update_ok_def)
    then show ?thesis
      using Some st1 disk_ok_other_file[OF disk live_range_fresh] by (cases p) simp
  qed
  have new: "\<forall>fi \<in> set_option (map_option snd (files_to_persist u)).
      st1 (get_wal_file_path_for_mooncake_table (file_number fi) t) =
        Some (enc_events codec (files (file_number fi)))"
    using u st1 by (auto simp: update_ok_def split: option.splits)
  have "st1 (get_wal_file_path_for_mooncake_table (file_number fi) t) =
      Some (enc_events codec (files (file_number fi)))"
    if "fi \<in> set (md_live_wal_files_tracker (persistent_wal_metadata u))" for fi
  proof -
    have "fi \<in> set (live_wal_files_tracker m) \<union> set_option (map_option snd (files_to_persist u))"
      using that u updated_live_subset unfolding update_ok_def by (metis subsetD)
    then show ?thesis using old new by (auto simp: disk_ok_def)
  qed
  then show "disk_ok codec (st1(get_metadata_file_path_for_mooncake_table t \<mapsto>
        enc_metadata codec (persistent_wal_metadata u))) files t
      (md_live_wal_files_tracker (persistent_wal_metadata u))"
    using u t by (auto simp: disk_ok_def update_ok_def)
qed

lemma persist_ok:
  assumes u: "update_ok m files u" and disk: "disk_ok codec st files (wal_table_id m) (live_wal_files_tracker m)"
    and run: "wal_persist_truncate_async codec faults uuid u st = (st', result)"
  shows "case result of
      Inr r \<Rightarrow> prepare_persistent_update r = u \<and> disk_ok codec st' files (wal_table_id m)
        (md_live_wal_files_tracker (persistent_wal_metadata u))
    | Inl err \<Rightarrow> disk_ok codec st' files (wal_table_id m) (live_wal_files_tracker m) \<or>
        disk_ok codec st' files (wal_table_id m) (md_live_wal_files_tracker (persistent_wal_metadata u))"
proof -
  let ?t = "wal_table_id m"
  let ?live = "md_live_wal_files_tracker (persistent_wal_metadata u)"
  have t: "md_mooncake_table_id (persistent_wal_metadata u) = ?t" using u by (simp add: update_ok_def)
  define st1 where "st1 = (case files_to_persist u of None \<Rightarrow> st
      | Some (events, info) \<Rightarrow> st(get_wal_file_path_for_mooncake_table (file_number info) ?t \<mapsto>
          enc_events codec events))"
  define st2 where "st2 = st1(get_metadata_file_path_for_mooncake_table ?t \<mapsto>
      enc_metadata codec (persistent_wal_metadata u))"
  note new = persist_new_ok[OF u disk refl st1_def, folded st2_def]
  have deleted: "disk_ok codec (fst (delete_files fault st2 (files_to_delete u) ?t)) files ?t ?live" for fault
    using new(2) u by (intro delete_files_ok) (auto simp: update_ok_def)
  show ?thesis
  proof (cases "files_to_persist u \<noteq> None \<and> file_write_error faults \<noteq> None")
    case True
    then have "st' = st \<and> (\<exists>err. result = Inl err)"
      using run u by (auto simp: wal_persist_truncate_async_def persist_new_wal_file_def update_ok_def)
    then show ?thesis using disk by auto
  next
    case False
    then have st1: "(case files_to_persist u of None \<Rightarrow> (st, None)
        | Some (events, info) \<Rightarrow>
            persist_new_wal_file codec (file_write_error faults) st events info ?t) = (st1, None)"
      using u by (auto simp: persist_new_wal_file_def update_ok_def st1_def split: option.splits)
    show ?thesis
      using run new deleted[of "delete_error faults"]
      unfolding wal_persist_truncate_async_def Let_def t st1
      by (auto simp: persist_metadata_def t simp flip: st2_def split: option.splits if_splits prod.splits)
  qed
qed

section \<open>The invariant holds in every run\<close>

lemma tracking_fields:
  assumes "update_transaction_tracking m e = Ok m'"
  shows "\<exists>a b. m' = m\<lparr>active_transactions := a, main_transaction_tracker := b\<rparr>"
proof (cases "event_xact_id e")
  case None
  then show ?thesis
    using assms by (cases "main_old_state (main_transaction_tracker m) (curr_file_number m)")
      (auto simp: update_transaction_tracking_def intro!: exI[of _ "active_transactions m"])
next
  case (Some x)
  then show ?thesis
    using assms by (auto simp: update_transaction_tracking_def Let_def
        intro!: exI[of _ "main_transaction_tracker m"])
qed

lemma push_fields:
  assumes "push m e = Ok m'" and "wal_event_new e = Ok w"
  shows "live_wal_files_tracker m' = live_wal_files_tracker m"
    and "curr_file_number m' = curr_file_number m"
    and "wal_table_id m' = wal_table_id m"
    and "in_mem_buf m' = in_mem_buf m @ [w]"
proof -
  have "update_transaction_tracking (m\<lparr>in_mem_buf := in_mem_buf m @ [w], highest_completion_lsn :=
      (case commit_lsn e of None \<Rightarrow> highest_completion_lsn m | Some l \<Rightarrow> l)\<rparr>) e = Ok m'"
    using assms by (cases "commit_lsn e")
      (auto simp: push_def Let_def check_def split: if_splits)
  then show "live_wal_files_tracker m' = live_wal_files_tracker m"
    "curr_file_number m' = curr_file_number m" "wal_table_id m' = wal_table_id m"
    "in_mem_buf m' = in_mem_buf m @ [w]"
    by (auto dest!: tracking_fields)
qed

lemma update_ok_cong:
  "live_wal_files_tracker m' = live_wal_files_tracker m \<Longrightarrow> curr_file_number m' = curr_file_number m \<Longrightarrow>
   wal_table_id m' = wal_table_id m \<Longrightarrow> update_ok m' files u = update_ok m files u"
  by (cases "files_to_persist u")
    (auto simp: update_ok_def compute_updated_live_wal_file_tracker_def)

lemma complete_fields:
  assumes "handle_complete_wal_persistence_update m r = Ok (h, m')"
  shows "live_wal_files_tracker m' =
      md_live_wal_files_tracker (persistent_wal_metadata (prepare_persistent_update r))"
    and "curr_file_number m' = curr_file_number m"
    and "wal_table_id m' = wal_table_id m"
    and "in_mem_buf m' = in_mem_buf m"
  using assms
  by (auto simp: handle_complete_wal_persistence_update_def clean_up_xacts_def check_def
      update_trackers_for_persistence_update_result_def Let_def update_live_wal_file_tracker_def
      split: option.splits prod.splits if_splits)

text \<open>The next file takes exactly the buffer.\<close>

lemma prepare_pushed:
  assumes "prepare_update m l = Ok (u, m')"
    and "pushed = concat (map files [0..<curr_file_number m]) @ in_mem_buf m"
  shows "pushed = concat (map (case files_to_persist u of None \<Rightarrow> files
      | Some (events, info) \<Rightarrow> files(file_number info := events)) [0..<curr_file_number m'])
    @ in_mem_buf m'"
proof (cases "in_mem_buf m = []")
  case True
  then show ?thesis
    using assms prepare_manager(1,3)[OF assms(1)] by (simp add: extract_next_persistence_file_def)
next
  case False
  let ?n = "curr_file_number m"
  have "map (files(?n := es)) [0..<?n] = map files [0..<?n]" for es by simp
  then show ?thesis
    using False assms(2) prepare_manager(1,3)[OF assms(1)]
    by (simp add: extract_next_persistence_file_def)
qed

lemma prepare_disk:
  assumes "prepare_update m l = Ok (u, m')"
    and "live_range (live_wal_files_tracker m) (curr_file_number m)"
    and "disk_ok codec st files (wal_table_id m) (live_wal_files_tracker m)"
  shows "disk_ok codec st (case files_to_persist u of None \<Rightarrow> files
      | Some (events, info) \<Rightarrow> files(file_number info := events))
    (wal_table_id m') (live_wal_files_tracker m')"
  using prepare_update_ok(2-4)[OF assms(2,1)] assms(3) live_range_fresh[OF assms(2)]
  by (auto simp: disk_ok_other_content split: option.splits)

lemma wal_system_step_inv:
  assumes inv: "wal_system_inv codec s" and step: "wal_system_step codec s op = Ok t"
  shows "wal_system_inv codec t"
proof (cases op)
  case (WPush e)
  then obtain m w where m: "push (s_mgr s) e = Ok m" "wal_event_new e = Ok w"
    and t: "t = s\<lparr>s_mgr := m, s_pushed := s_pushed s @ [w]\<rparr>"
    using step by (auto simp: wal_system_step_def)
  note f = push_fields[OF m]
  have u: "update_ok m = update_ok (s_mgr s)"
    using update_ok_cong[OF f(1-3)] by (intro ext)
  show ?thesis
    using inv by (simp add: t wal_system_inv_def f u cong: option.case_cong sum.case_cong)
next
  case (WPrepare l)
  show ?thesis
  proof (cases "s_pending s")
    case None
    then obtain u m where m: "prepare_update (s_mgr s) l = Ok (u, m)"
      using step WPrepare by (auto simp: wal_system_step_def)
    have live: "live_range (live_wal_files_tracker (s_mgr s)) (curr_file_number (s_mgr s))"
      and disk: "disk_ok codec (s_store s) (s_files s) (wal_table_id (s_mgr s))
        (live_wal_files_tracker (s_mgr s))"
      and pushed: "s_pushed s = concat (map (s_files s) [0..<curr_file_number (s_mgr s)])
        @ in_mem_buf (s_mgr s)"
      using inv None by (simp_all add: wal_system_inv_def)
    note p = prepare_update_ok[OF live m]
    show ?thesis
    proof (cases "should_do_persistence u")
      case True
      then have "t = s\<lparr>s_mgr := m, s_pending := Some u, s_result := None,
          s_files := (case files_to_persist u of None \<Rightarrow> s_files s
            | Some (events, info) \<Rightarrow> (s_files s)(file_number info := events))\<rparr>"
        using step WPrepare None m by (simp add: wal_system_step_def)
      then show ?thesis
        using p(1)[of "s_files s"] prepare_pushed[OF m pushed] prepare_disk[OF m live disk]
        by (simp add: wal_system_inv_def)
    next
      case False
      then show ?thesis using inv step WPrepare None m p(5) by (simp add: wal_system_step_def)
    qed
  qed (use inv step WPrepare in \<open>simp add: wal_system_step_def\<close>)
next
  case (WPersist faults)
  show ?thesis
  proof (cases "s_pending s = None \<or> s_result s \<noteq> None")
    case False
    then obtain u where u: "s_pending s = Some u" "s_result s = None" by auto
    obtain st result where r: "wal_persist_truncate_async codec faults 0 u (s_store s) = (st, result)"
      by fastforce
    then have t: "t = s\<lparr>s_store := st, s_result := Some result\<rparr>"
      using step WPersist u by (simp add: wal_system_step_def)
    show ?thesis
      using inv u persist_ok[OF _ _ r, of "s_mgr s" "s_files s"]
      by (simp add: t wal_system_inv_def cong: option.case_cong sum.case_cong)
  qed (use inv step WPersist in \<open>auto simp: wal_system_step_def split: option.splits\<close>)
next
  case WComplete
  show ?thesis
  proof (cases "\<exists>r. s_result s = Some (Inr r)")
    case True
    then obtain r h m where r: "s_result s = Some (Inr r)"
      "handle_complete_wal_persistence_update (s_mgr s) r = Ok (h, m)"
      "t = s\<lparr>s_mgr := m, s_pending := None, s_result := None\<rparr>"
      using step WComplete by (auto simp: wal_system_step_def)
    have "s_pending s = Some (prepare_persistent_update r)"
      using inv r(1) by (auto simp: wal_system_inv_def split: option.splits)
    then show ?thesis
      using inv r(1,3) complete_fields[OF r(2)]
      by (auto simp: wal_system_inv_def intro: update_ok_live)
  qed (use inv step WComplete in \<open>auto simp: wal_system_step_def split: option.splits sum.splits\<close>)
qed

lemma wal_system_start_inv: "wal_system_inv codec (wal_system_start table_id)"
  by (simp add: wal_system_start_def wal_system_inv_def new_wal_manager_def live_range_def disk_ok_def)

lemma prepare_table: "prepare_update m l = Ok (u, m') \<Longrightarrow> wal_table_id m' = wal_table_id m"
  by (drule prepare_manager(1)) (simp add: extract_next_persistence_file_def)

lemma wal_system_step_table:
  "wal_system_step codec s op = Ok t \<Longrightarrow> wal_table_id (s_mgr t) = wal_table_id (s_mgr s)"
  by (auto simp: wal_system_step_def push_fields complete_fields prepare_table Let_def case_prod_beta
      split: wal_op.splits if_splits option.splits sum.splits)

interpretation wal_on_disk: stateful_component
    "wal_system_step codec" "\<lambda>_ _. True"
    "\<lambda>s. wal_system_inv codec s \<and> wal_table_id (s_mgr s) = table_id"
  for codec :: "'b wal_codec" and table_id
  by unfold_locales (auto dest: wal_system_step_inv wal_system_step_table)

lemma wal_system_run_inv:
  assumes "res_fold (wal_system_step codec) (wal_system_start table_id) ops = Ok s"
  shows "wal_system_inv codec s \<and> wal_table_id (s_mgr s) = table_id"
  by (rule wal_on_disk.run_inv_unguarded[OF _ _ assms])
    (simp_all add: wal_system_start_inv, simp add: wal_system_start_def new_wal_manager_def)

section \<open>Recovery\<close>

lemma recover_metadata_ok:
  assumes "codec_ok codec" and "disk_ok codec st files t live"
  shows "(recover_from_persistent_wal_metadata codec st t = Ok None \<and> live = []) \<or>
    (\<exists>md. recover_from_persistent_wal_metadata codec st t = Ok (Some md) \<and>
      md_mooncake_table_id md = t \<and> md_live_wal_files_tracker md = live)"
  using assms
  by (auto simp: disk_ok_def recover_from_persistent_wal_metadata_def codec_ok_def split: option.splits)

lemma range_ends:
  assumes "map file_number live = [lo..<hi]" and "live \<noteq> []"
  shows "file_number (hd live) = lo" and "Suc (file_number (last live)) = hi"
proof -
  have "[lo..<hi] \<noteq> []" using assms by (metis map_is_Nil_conv)
  then have lt: "lo < hi" by simp
  have "file_number (hd live) = hd (map file_number live)" using assms(2) by (simp add: hd_map)
  then show "file_number (hd live) = lo" using lt by (simp add: assms(1))
  have "file_number (last live) = last (map file_number live)" using assms(2) by (simp add: last_map)
  then show "Suc (file_number (last live)) = hi" using lt by (simp add: assms(1))
qed

lemma recover_flushed_ok:
  assumes "codec_ok codec" and "disk_ok codec st files t live" and "live \<noteq> []"
    and "map file_number live = [lo..<hi]"
    and "md_mooncake_table_id md = t" and "md_live_wal_files_tracker md = live"
  shows "recover_flushed_wals_flat codec st md =
    Ok (map (Inr \<circ> (into_table_event :: _ \<Rightarrow> ingest_event)) (concat (map files [lo..<hi])))"
proof -
  note ends = range_ends[OF assms(4,3)]
  have "recover_wal_file codec st t n = Inr (map (into_table_event :: _ \<Rightarrow> ingest_event) (files n))"
    if "n \<in> set [lo..<hi]" for n
    using that assms(1,2) by (simp add: disk_ok_def assms(4) recover_wal_file_def codec_ok_def)
  then have "recover_flushed_wals codec st md =
      Ok (map (\<lambda>n. Inr (map (into_table_event :: _ \<Rightarrow> ingest_event) (files n))) [lo..<hi])"
    using assms(3,5,6) ends by (auto simp: recover_flushed_wals_def simp del: upt_Suc)
  then show ?thesis
    by (simp add: recover_flushed_wals_flat_def comp_def map_concat)
qed

text \<open>
  The live files on disk are those of the last completed cycle or those of the one under
  way; the events after them are in the buffer or in the file being written.
\<close>

lemma wal_system_disk:
  assumes "wal_system_inv codec s"
  obtains live hi where "disk_ok codec (s_store s) (s_files s) (wal_table_id (s_mgr s)) live"
    and "live_range live hi" and "hi \<le> curr_file_number (s_mgr s)"
    and "s_pending s = None \<Longrightarrow> hi = curr_file_number (s_mgr s)"
proof (cases "s_pending s")
  case None
  then show ?thesis using assms that by (auto simp: wal_system_inv_def)
next
  case (Some u)
  let ?m = "s_mgr s"
  have u: "update_ok ?m (s_files s) u" using assms Some by (simp add: wal_system_inv_def)
  obtain h where "live_range (live_wal_files_tracker ?m) h" "h \<le> curr_file_number ?m"
    using u by (cases "files_to_persist u") (auto simp: update_ok_def)
  moreover have "live_range (md_live_wal_files_tracker (persistent_wal_metadata u)) (curr_file_number ?m)"
    using u by (rule update_ok_live)
  moreover have "disk_ok codec (s_store s) (s_files s) (wal_table_id ?m) (live_wal_files_tracker ?m) \<or>
      disk_ok codec (s_store s) (s_files s) (wal_table_id ?m)
        (md_live_wal_files_tracker (persistent_wal_metadata u))"
    using assms Some by (auto simp: wal_system_inv_def split: option.splits sum.splits)
  ultimately show ?thesis using that Some by auto
qed


definition plain_codec :: "(wal_event list + persistent_wal_metadata) wal_codec" where
  "plain_codec = \<lparr>enc_events = Inl, dec_events = (\<lambda>b. case b of Inl es \<Rightarrow> Some es | Inr _ \<Rightarrow> None),
     enc_metadata = Inr, dec_metadata = (\<lambda>b. case b of Inl _ \<Rightarrow> None | Inr md \<Rightarrow> Some md)\<rparr>"

lemma plain_codec_ok: "codec_ok plain_codec"
  by (simp add: codec_ok_def plain_codec_def)

definition no_faults :: io_faults where
  "no_faults = \<lparr>file_write_error = None, metadata_write_error = None, delete_error = (\<lambda>_. None)\<rparr>"

text \<open>One committed append and one aborted one, flushed to the first file.\<close>

definition sample_log :: "wal_event list" where
  "sample_log = [WalAppend \<lparr>row_values = [Int32 1]\<rparr> None 4, WalCommit 5 None,
     WalAppend \<lparr>row_values = [Int32 2]\<rparr> (Some 7) 6, WalStreamAbort 7]"

definition sample_ops :: "wal_op list" where
  "sample_ops = map (WPush \<circ> into_table_event) sample_log @ [WPrepare None, WPersist no_faults, WComplete]"

definition sample_metadata :: persistent_wal_metadata where
  "sample_metadata = \<lparr>md_curr_file_number = 1, md_highest_completion_lsn = 5,
     md_live_wal_files_tracker = [\<lparr>file_number = 0, highest_lsn = 5\<rparr>],
     md_active_transactions = [(7, XactAbort 0 5 0)], md_main_transaction_tracker = [XactCommit 0 5 0],
     md_persistence_snapshot_lsn = None, md_mooncake_table_id = ''t''\<rparr>"

definition sample_store :: "(wal_event list + persistent_wal_metadata) store" where
  "sample_store = [get_wal_file_path_for_mooncake_table 0 ''t'' \<mapsto> Inl sample_log,
     get_metadata_file_path_for_mooncake_table ''t'' \<mapsto> Inr sample_metadata]"

definition sample_system :: "(wal_event list + persistent_wal_metadata) wal_system" where
  "sample_system = \<lparr>s_mgr = \<lparr>in_mem_buf = [], highest_completion_lsn = 5,
       live_wal_files_tracker = [\<lparr>file_number = 0, highest_lsn = 5\<rparr>], curr_file_number = 1,
       active_transactions = [(7, XactAbort 0 5 0)], main_transaction_tracker = [XactCommit 0 5 0],
       wal_table_id = ''t''\<rparr>,
     s_store = sample_store, s_pushed = sample_log, s_files = (\<lambda>_. [])(0 := sample_log),
     s_pending = None, s_result = None\<rparr>"

lemmas wal_defs = push_def event_defs into_table_event_def is_recovery_def commit_lsn_def
  update_transaction_tracking_def main_old_state_def merge_main_commit_def get_updated_xact_state_def
  get_start_file_def is_closed_def get_completion_lsn_and_file_def new_wal_manager_def
  prepare_update_def extract_next_persistence_file_def prepare_metadata_def compute_cleanedup_xacts_def
  compute_updated_live_wal_file_tracker_def should_do_persistence_def wal_persist_truncate_async_def
  persist_new_wal_file_def persist_metadata_def handle_complete_wal_persistence_update_def
  update_trackers_for_persistence_update_result_def update_live_wal_file_tracker_def
  tracked_xact_consistent_def

lemma sample_run:
  "res_fold (wal_system_step plain_codec) (wal_system_start ''t'') sample_ops = Ok sample_system"
  by (simp add: wal_defs sample_ops_def sample_log_def sample_system_def sample_store_def
      sample_metadata_def wal_system_step_def wal_system_start_def plain_codec_def no_faults_def)


section \<open>Replay\<close>

text \<open>Which events replay sends, and the form it sends them in.\<close>

definition xact_replayed :: "persistent_wal_metadata \<Rightarrow> lsn option \<Rightarrow> xact_id option \<Rightarrow> lsn \<Rightarrow> bool" where
  "xact_replayed md last_lsn x l = (case x of
       None \<Rightarrow> l \<le> md_highest_completion_lsn md \<and> (\<forall>s. last_lsn = Some s \<longrightarrow> s < l)
     | Some x \<Rightarrow> (\<exists>st c f. map_of (md_active_transactions md) x = Some st \<and>
         get_completion_lsn_and_file st = Some (c, f) \<and> (\<forall>s. last_lsn = Some s \<longrightarrow> s < c)))"

definition replayed :: "persistent_wal_metadata \<Rightarrow> lsn option \<Rightarrow> wal_event \<Rightarrow> bool" where
  "replayed md last_lsn w = (case w of
       WalAppend _ x l \<Rightarrow> xact_replayed md last_lsn x l
     | WalDelete _ l x _ \<Rightarrow> xact_replayed md last_lsn x l
     | WalCommit l x \<Rightarrow> xact_replayed md last_lsn x l
     | _ \<Rightarrow> False)"

definition recovery_event :: "wal_event \<Rightarrow> ingest_event" where
  "recovery_event w = (case w of
       WalAppend row x l \<Rightarrow> Append row x l True
     | WalDelete row l x d \<Rightarrow> Delete row l x d True
     | WalCommit l x \<Rightarrow> Commit l x True
     | WalStreamAbort x \<Rightarrow> StreamAbort x True False
     | WalStreamFlush x \<Rightarrow> StreamFlush x True)"

text \<open>A commit of a streaming transaction that is no longer tracked must be captured.\<close>

definition untracked_captured :: "persistent_wal_metadata \<Rightarrow> lsn option \<Rightarrow> wal_event \<Rightarrow> bool" where
  "untracked_captured md last_lsn w = (\<forall>c x. w = WalCommit c (Some x) \<longrightarrow>
     map_of (md_active_transactions md) x = None \<longrightarrow> (\<exists>s. last_lsn = Some s \<and> c \<le> s))"

lemma reapply_iff:
  assumes "untracked_captured md last_lsn w" and "\<forall>x. w \<noteq> WalStreamAbort x"
  shows "should_reapply_wal_event (into_table_event w :: ingest_event) (md_active_transactions md)
      (md_highest_completion_lsn md) last_lsn = Ok (replayed md last_lsn w)"
  using assms
  by (cases w) (auto simp: should_reapply_wal_event_def into_table_event_def replayed_def
      reapply_by_xact_def xact_replayed_def event_already_captured_in_iceberg_snapshot_def
      untracked_captured_def get_completion_lsn_and_file_def
      split: option.splits wal_transaction_state.splits)

lemma set_recovery: "set_is_recovery True (into_table_event w :: ingest_event) = Ok (recovery_event w)"
  by (cases w) (simp_all add: set_is_recovery_def into_table_event_def recovery_event_def)

lemma replay_events_filter:
  assumes "\<forall>w \<in> set seg. untracked_captured md last_lsn w \<and> (\<forall>x. w \<noteq> WalStreamAbort x)"
  shows "replay_events (map (Inr \<circ> into_table_event) seg) (md_active_transactions md)
      (md_highest_completion_lsn md) last_lsn =
    Ok (map recovery_event (filter (replayed md last_lsn) seg))"
  using assms by (induction seg) (simp_all add: reapply_iff set_recovery)



lemma replay_abort_panics:
  assumes "Inr (StreamAbort x r c) \<in> set items"
  shows "\<exists>p. replay_events items xacts highest last_lsn = Panic p"
  using assms
proof (induction items xacts highest last_lsn rule: replay_events.induct)
  case (3 event items xacts highest last_lsn)
  show ?case
  proof (cases "should_reapply_wal_event event xacts highest last_lsn")
    case (Ok b)
    then have "Inr (StreamAbort x r c) \<in> set items"
      using "3.prems" by (auto simp: should_reapply_wal_event_def)
    then obtain p where "replay_events items xacts highest last_lsn = Panic p"
      using 3(1)[of True] 3(2)[of False] by auto
    then show ?thesis using Ok by (cases "set_is_recovery True event") auto
  qed simp
qed auto

text \<open>
  C38: a stream abort in the log makes the table unrecoverable. Every abort the table
  handler logs reaches the WAL as a \<open>WalStreamAbort\<close> event, but the replay loop accepts
  only appends, deletes, commits and flushes: as soon as one live file holds an abort,
  \<^verbatim>\<open>should_reapply_wal_event\<close> panics and recovery ends.
\<close>

theorem stream_abort_breaks_replay:
  assumes "md_live_wal_files_tracker md \<noteq> []"
    and "recover_flushed_wals_flat codec st md =
      Ok (map (Inr \<circ> (into_table_event :: wal_event \<Rightarrow> ingest_event)) seg)"
    and "WalStreamAbort x \<in> set seg"
  shows "\<exists>p. (replay_recovery_from_wal codec st (Some md) last_lsn :: ingest_event list res) = Panic p"
proof -
  let ?items = "map (Inr \<circ> (into_table_event :: wal_event \<Rightarrow> ingest_event)) seg
    :: (error + ingest_event) list"
  have "Inr (StreamAbort x False False) \<in> set ?items"
    using assms(3) by (force simp: into_table_event_def)
  then obtain p where "replay_events ?items (md_active_transactions md)
      (md_highest_completion_lsn md) last_lsn = Panic p"
    using replay_abort_panics by blast
  then show ?thesis using assms(1,2) by (simp add: replay_recovery_from_wal_def)
qed

theorem stream_abort_breaks_replay_witness:
  "res_fold (wal_system_step plain_codec) (wal_system_start ''t'') sample_ops = Ok sample_system
   \<and> (\<exists>p. (replay_recovery_from_wal plain_codec (s_store sample_system) (Some sample_metadata) None
        :: ingest_event list res) = Panic p)"
proof -
  have "recover_flushed_wals_flat plain_codec sample_store sample_metadata =
      Ok (map (Inr \<circ> (into_table_event :: wal_event \<Rightarrow> ingest_event)) sample_log)"
    by (simp add: recover_flushed_wals_flat_def recover_flushed_wals_def sample_metadata_def
        recover_wal_file_def plain_codec_def sample_store_def sample_log_def)
  from stream_abort_breaks_replay[OF _ this, of 7 None] show ?thesis
    using sample_run by (simp add: sample_log_def sample_metadata_def sample_system_def)
qed

section \<open>Dropping a table\<close>

text \<open>
  C39: dropping the log of one table drops the logs of all tables that share the root
  directory. The removal takes the whole WAL folder, not the folder of the table: after a
  successful drop no table finds its metadata or any of its files.
\<close>

theorem drop_wal_drops_every_table:
  "drop_wal None st = (st', e) \<Longrightarrow>
   recover_from_persistent_wal_metadata codec st' other = Ok None
   \<and> st' (get_wal_file_path_for_mooncake_table n other) = None"
  by (auto simp: drop_wal_def recover_from_persistent_wal_metadata_def DEFAULT_WAL_FOLDER_def
      get_metadata_file_path_for_mooncake_table_def get_wal_file_path_for_mooncake_table_def)

theorem drop_wal_drops_every_table_witness:
  "recover_from_persistent_wal_metadata plain_codec sample_store ''t'' = Ok (Some sample_metadata)
   \<and> recover_from_persistent_wal_metadata plain_codec (fst (drop_wal None sample_store)) ''t'' = Ok None"
  using drop_wal_drops_every_table[of sample_store "fst (drop_wal None sample_store)"
      "snd (drop_wal None sample_store)" plain_codec "''t''"]
  by (simp add: recover_from_persistent_wal_metadata_def sample_store_def plain_codec_def)

end
