(* ===== verification/Handler_State.thy ===== *)
theory Handler_State
  imports Table_Event
begin

text \<open>
  The state of the table handler (\<^verbatim>\<open>table_handler/table_handler_state.rs\<close>): which
  background tasks are under way, which requests are pending and which special mode the
  table is in. The channels of the state are modelled by what has been sent on them: the
  field \<open>sent\<close> collects the messages of one event, those of the event loop's own channels
  included, and \<open>StartTask\<close> marks the calls that spawn a background task.
\<close>

section \<open>Data\<close>

text \<open>New columns are given by name; the handler never asks for any.\<close>

record alter_table_request =
  new_columns :: "string list"
  dropped_columns :: "string list"

datatype special_table_state =
    NormalState
  | InitialCopyState
  | AlterTableState lsn "alter_table_request option"
  | DropTableState

datatype maintenance_request_status = RequestUnrequested | ForceRegular | ForceFull

definition is_force_request :: "maintenance_request_status \<Rightarrow> bool" where
  "is_force_request s = (case s of RequestUnrequested \<Rightarrow> False | _ \<Rightarrow> True)"

definition is_requested :: "maintenance_request_status \<Rightarrow> bool" where
  "is_requested s = (case s of RequestUnrequested \<Rightarrow> False | _ \<Rightarrow> True)"

datatype maintenance_process_status =
  ProcessUnrequested | InProcess | ReadyToPersist | InPersist

definition is_maintenance_ongoing :: "maintenance_process_status \<Rightarrow> bool" where
  "is_maintenance_ongoing s \<longleftrightarrow> s \<noteq> ProcessUnrequested"

datatype task = MooncakeTask | PersistTask | IndexMergeTask | CompactionTask | WalTask

datatype ('md, 'dsw, 'snap) handler_message =
    ForceSnapshotCompletion "error + lsn"
  | MaintenanceCompletion "error + unit"
  | FlushLsn lsn
  | WalFlushLsn lsn
  | DropTableCompletion "error + unit"
  | SelfEvent "('md, 'dsw, 'snap) table_event"
  | DeleteEvicted "string list"
  | StartTask task

record ('md, 'dsw, 'snap) table_handler_state =
  initial_persistence_lsn :: "lsn option"
  table_consistent_view_lsn :: "lsn option"
  latest_commit_lsn :: "lsn option"
  last_unflushed_commit_lsn :: "lsn option"
  persistence_snapshot_result_consumed :: bool
  persistence_snapshot_ongoing :: bool
  mooncake_snapshot_ongoing :: bool
  largest_force_snapshot_lsn :: "lsn option"
  special_table_state :: special_table_state
  initial_copy_buffered_events :: "('md, 'dsw, 'snap) table_event list"
  index_merge_request_status :: maintenance_request_status
  data_compaction_request_status :: maintenance_request_status
  table_maintenance_process_status :: maintenance_process_status
  wal_persist_ongoing :: bool
  sent :: "('md, 'dsw, 'snap) handler_message list"

text \<open>
  The other ends of the channels: a watch channel refuses a message once all its receivers
  are gone, a broadcast channel whenever nobody is subscribed.
\<close>

record receivers =
  force_snapshot_rx_open :: bool
  maintenance_subscribed :: bool
  flush_lsn_rx_open :: bool
  wal_flush_lsn_rx_open :: bool

definition send :: "('md, 'dsw, 'snap) handler_message \<Rightarrow>
    ('md, 'dsw, 'snap) table_handler_state \<Rightarrow> ('md, 'dsw, 'snap) table_handler_state" where
  "send msg s = s\<lparr>sent := sent s @ [msg]\<rparr>"

text \<open>A send whose failure is logged or ignored, and one that is unwrapped.\<close>

definition try_send where
  "try_send is_open msg s = (if is_open then send msg s else s)"

definition send_unwrap where
  "send_unwrap is_open msg s = (if is_open then Ok (send msg s) else Panic UnwrapErr)"

section \<open>Operations\<close>

definition new_table_handler_state ::
    "lsn option \<Rightarrow> lsn option \<Rightarrow> ('md, 'dsw, 'snap) table_handler_state" where
  "new_table_handler_state initial_lsn persistence_snapshot_lsn =
     \<lparr>initial_persistence_lsn = initial_lsn,
      table_consistent_view_lsn = persistence_snapshot_lsn,
      latest_commit_lsn = None,
      last_unflushed_commit_lsn = None,
      persistence_snapshot_result_consumed = True,
      persistence_snapshot_ongoing = False,
      mooncake_snapshot_ongoing = False,
      largest_force_snapshot_lsn = None,
      special_table_state = NormalState,
      initial_copy_buffered_events = [],
      index_merge_request_status = RequestUnrequested,
      data_compaction_request_status = RequestUnrequested,
      table_maintenance_process_status = ProcessUnrequested,
      wal_persist_ongoing = False,
      sent = []\<rparr>"

definition update_table_lsns ::
    "('md, 'dsw, 'snap) table_event \<Rightarrow> ('md, 'dsw, 'snap) table_handler_state \<Rightarrow>
     ('md, 'dsw, 'snap) table_handler_state" where
  "update_table_lsns event s =
     (if is_ingest_event event then
        (case event of
           Commit lsn xact_id _ \<Rightarrow>
             (let s = s\<lparr>latest_commit_lsn := Some lsn, table_consistent_view_lsn := Some lsn\<rparr>
              in if xact_id = None then s\<lparr>last_unflushed_commit_lsn := Some lsn\<rparr> else s)
         | CommitFlush lsn _ _ \<Rightarrow>
             s\<lparr>latest_commit_lsn := Some lsn, table_consistent_view_lsn := Some lsn\<rparr>
         | Append _ _ _ _ \<Rightarrow> s\<lparr>table_consistent_view_lsn := None\<rparr>
         | Delete _ _ _ _ _ \<Rightarrow> s\<lparr>table_consistent_view_lsn := None\<rparr>
         | StreamAbort _ _ _ \<Rightarrow> s\<lparr>table_consistent_view_lsn := None\<rparr>
         | _ \<Rightarrow> s)
      else s)"

text \<open>The identifiers \<open>id_ice\<close>, \<open>id_merge\<close> and \<open>id_compact\<close> are the fresh UUIDs drawn.\<close>

definition get_maintenance_task_option ::
    "('md, 'dsw, 'snap) table_handler_state \<Rightarrow> maintenance_request_status \<Rightarrow> uuid \<Rightarrow>
     maintenance_option" where
  "get_maintenance_task_option s request_status fresh =
     (if table_maintenance_process_status s \<noteq> ProcessUnrequested then SkipMaintenance
      else case request_status of
        RequestUnrequested \<Rightarrow> BestEffort fresh
      | ForceRegular \<Rightarrow> ForceRegularOption fresh
      | ForceFull \<Rightarrow> ForceFullOption fresh)"

definition get_iceberg_snapshot_option ::
    "('md, 'dsw, 'snap) table_handler_state \<Rightarrow> uuid \<Rightarrow> iceberg_snapshot_option" where
  "get_iceberg_snapshot_option s fresh =
     (if persistence_snapshot_ongoing s then SkipSnapshot else BestEffortSnapshot fresh)"

definition get_mooncake_snapshot_option ::
    "('md, 'dsw, 'snap) table_handler_state \<Rightarrow> bool \<Rightarrow> uuid \<Rightarrow> uuid \<Rightarrow> uuid \<Rightarrow> uuid \<Rightarrow>
     snapshot_option" where
  "get_mooncake_snapshot_option s request_force uuid id_ice id_merge id_compact =
     (let force_create = request_force;
          force_create = (if table_maintenance_process_status s = ReadyToPersist then True
                          else force_create);
          force_create = (if index_merge_request_status s \<noteq> RequestUnrequested \<and>
                            table_maintenance_process_status s = ProcessUnrequested then True
                          else force_create);
          force_create = (if data_compaction_request_status s \<noteq> RequestUnrequested \<and>
                            table_maintenance_process_status s = ProcessUnrequested then True
                          else force_create)
      in \<lparr>opt_uuid = uuid, dump_snapshot = False, force_create = force_create,
          iceberg_snapshot_option = get_iceberg_snapshot_option s id_ice,
          index_merge_option = get_maintenance_task_option s (index_merge_request_status s) id_merge,
          data_compaction_option =
            get_maintenance_task_option s (data_compaction_request_status s) id_compact\<rparr>)"

definition should_discard_event ::
    "('md, 'dsw, 'snap) table_handler_state \<Rightarrow> ('md, 'dsw, 'snap) table_event \<Rightarrow> bool" where
  "should_discard_event s event =
     (case initial_persistence_lsn s of
        None \<Rightarrow> False
      | Some initial \<Rightarrow>
          if is_streaming_update event then False
          else case get_lsn_for_ingest_event event of
                 Some lsn \<Rightarrow> lsn \<le> initial
               | None \<Rightarrow> False)"

definition is_in_blocking_state :: "('md, 'dsw, 'snap) table_handler_state \<Rightarrow> bool" where
  "is_in_blocking_state s \<longleftrightarrow> special_table_state s \<noteq> NormalState"

text \<open>The second case reads an option that is present whenever the two are equal.\<close>

definition get_persisted_table_lsn ::
    "('md, 'dsw, 'snap) table_handler_state \<Rightarrow> lsn option \<Rightarrow> lsn \<Rightarrow> lsn res" where
  "get_persisted_table_lsn s persistence_snapshot_lsn replication_lsn =
     (if persistence_snapshot_lsn = None \<and> table_consistent_view_lsn s = None then Ok replication_lsn
      else if persistence_snapshot_lsn = table_consistent_view_lsn s then
        unwrap persistence_snapshot_lsn (\<lambda>l. Ok (max replication_lsn l))
      else Ok (case persistence_snapshot_lsn of None \<Rightarrow> 0 | Some l \<Rightarrow> l))"

definition notify_persisted_table_lsn where
  "notify_persisted_table_lsn rx lsn s =
     try_send (force_snapshot_rx_open rx) (ForceSnapshotCompletion (Inr lsn)) s"

definition update_iceberg_persisted_lsn ::
    "receivers \<Rightarrow> lsn \<Rightarrow> lsn \<Rightarrow> ('md, 'dsw, 'snap) table_handler_state \<Rightarrow>
     ('md, 'dsw, 'snap) table_handler_state res" where
  "update_iceberg_persisted_lsn rx persistence_snapshot_lsn replication_lsn s =
     res_bind (get_persisted_table_lsn s (Some persistence_snapshot_lsn) replication_lsn) (\<lambda>persisted.
     let s = notify_persisted_table_lsn rx persisted s
     in Ok (case largest_force_snapshot_lsn s of
              Some largest \<Rightarrow>
                if persisted \<ge> largest then s\<lparr>largest_force_snapshot_lsn := None\<rparr> else s
            | None \<Rightarrow> s))"

definition has_pending_force_snapshot_request :: "('md, 'dsw, 'snap) table_handler_state \<Rightarrow> bool" where
  "has_pending_force_snapshot_request s \<longleftrightarrow> largest_force_snapshot_lsn s \<noteq> None"

definition should_force_flush :: "('md, 'dsw, 'snap) table_handler_state \<Rightarrow> lsn \<Rightarrow> lsn \<Rightarrow> bool" where
  "should_force_flush s commit_lsn existing_flush_lsn =
     (case largest_force_snapshot_lsn s of
        Some largest \<Rightarrow> commit_lsn \<ge> largest \<and> existing_flush_lsn < largest
      | None \<Rightarrow> False)"

text \<open>The name says the opposite of what is computed; its only caller expects the latter.\<close>

definition has_background_task_ongoing :: "('md, 'dsw, 'snap) table_handler_state \<Rightarrow> bool \<Rightarrow> bool" where
  "has_background_task_ongoing s has_ongoing_flush =
     (if mooncake_snapshot_ongoing s then False
      else if persistence_snapshot_ongoing s then False
      else if wal_persist_ongoing s then False
      else if table_maintenance_process_status s \<noteq> ProcessUnrequested then False
      else if has_ongoing_flush then False
      else True)"

definition mark_drop_table ::
    "('md, 'dsw, 'snap) table_handler_state \<Rightarrow> ('md, 'dsw, 'snap) table_handler_state res" where
  "mark_drop_table s = check (special_table_state s = NormalState) AssertFailed
     (Ok (s\<lparr>special_table_state := DropTableState\<rparr>))"

definition can_drop_table_now :: "('md, 'dsw, 'snap) table_handler_state \<Rightarrow> bool \<Rightarrow> bool" where
  "can_drop_table_now s has_ongoing_flush = has_background_task_ongoing s has_ongoing_flush"

definition start_alter_table ::
    "alter_table_request \<Rightarrow> ('md, 'dsw, 'snap) table_handler_state \<Rightarrow>
     ('md, 'dsw, 'snap) table_handler_state res" where
  "start_alter_table request s =
     check (table_consistent_view_lsn s \<noteq> None) AssertFailed (
     check (special_table_state s = NormalState) AssertFailed (
     let view = the (table_consistent_view_lsn s)
     in Ok (s\<lparr>largest_force_snapshot_lsn := Some (case largest_force_snapshot_lsn s of
                Some lsn \<Rightarrow> max lsn view | None \<Rightarrow> view),
              special_table_state := AlterTableState view (Some request)\<rparr>)))"

definition should_complete_alter_table ::
    "('md, 'dsw, 'snap) table_handler_state \<Rightarrow> lsn \<Rightarrow> bool res" where
  "should_complete_alter_table s persistence_snapshot_lsn =
     (case special_table_state s of
        AlterTableState alter_lsn _ \<Rightarrow>
          check (persistence_snapshot_lsn \<le> alter_lsn) AssertFailed
            (Ok (persistence_snapshot_lsn = alter_lsn))
      | _ \<Rightarrow> Ok False)"

definition finish_alter_table ::
    "('md, 'dsw, 'snap) table_handler_state \<Rightarrow> ('md, 'dsw, 'snap) table_handler_state res" where
  "finish_alter_table s =
     check (case special_table_state s of AlterTableState _ _ \<Rightarrow> True | _ \<Rightarrow> False) AssertFailed
       (Ok (s\<lparr>special_table_state := NormalState\<rparr>))"

definition start_initial_copy ::
    "('md, 'dsw, 'snap) table_handler_state \<Rightarrow> ('md, 'dsw, 'snap) table_handler_state res" where
  "start_initial_copy s = check (special_table_state s = NormalState) AssertFailed
     (Ok (s\<lparr>special_table_state := InitialCopyState\<rparr>))"

definition finish_initial_copy ::
    "lsn \<Rightarrow> ('md, 'dsw, 'snap) table_handler_state \<Rightarrow> ('md, 'dsw, 'snap) table_handler_state res" where
  "finish_initial_copy lsn s = check (special_table_state s = InitialCopyState) AssertFailed
     (Ok (s\<lparr>special_table_state := NormalState, latest_commit_lsn := Some lsn,
            table_consistent_view_lsn := Some lsn\<rparr>))"

definition can_initiate_iceberg_snapshot :: "lsn \<Rightarrow> lsn \<Rightarrow> bool \<Rightarrow> bool \<Rightarrow> bool" where
  "can_initiate_iceberg_snapshot flush_lsn min_ongoing_flush_lsn result_consumed ongoing \<longleftrightarrow>
     result_consumed \<and> \<not> ongoing \<and> flush_lsn < min_ongoing_flush_lsn"

definition reset_iceberg_state_at_mooncake_snapshot ::
    "('md, 'dsw, 'snap) table_handler_state \<Rightarrow> ('md, 'dsw, 'snap) table_handler_state res" where
  "reset_iceberg_state_at_mooncake_snapshot s =
     check (\<not> persistence_snapshot_ongoing s \<or> persistence_snapshot_result_consumed s) AssertFailed
       (Ok (if \<not> persistence_snapshot_result_consumed s
            then s\<lparr>persistence_snapshot_result_consumed := True,
                   persistence_snapshot_ongoing := False\<rparr>
            else s))"

definition mark_index_merge_completed ::
    "('md, 'dsw, 'snap) table_handler_state \<Rightarrow> ('md, 'dsw, 'snap) table_handler_state res" where
  "mark_index_merge_completed s =
     check (table_maintenance_process_status s = InProcess) AssertFailed
       (Ok (s\<lparr>index_merge_request_status := RequestUnrequested,
              table_maintenance_process_status := ReadyToPersist\<rparr>))"

definition mark_data_compaction_completed ::
    "receivers \<Rightarrow> error + data_compaction_result \<Rightarrow> ('md, 'dsw, 'snap) table_handler_state \<Rightarrow>
     ('md, 'dsw, 'snap) table_handler_state res" where
  "mark_data_compaction_completed rx result s =
     (let s = s\<lparr>data_compaction_request_status := RequestUnrequested\<rparr>
      in case result of
           Inr _ \<Rightarrow> Ok (s\<lparr>table_maintenance_process_status := ReadyToPersist\<rparr>)
         | Inl err \<Rightarrow>
             send_unwrap (maintenance_subscribed rx) (MaintenanceCompletion (Inl err))
               (s\<lparr>table_maintenance_process_status := ProcessUnrequested\<rparr>))"

definition can_start_new_maintenance :: "('md, 'dsw, 'snap) table_handler_state \<Rightarrow> bool" where
  "can_start_new_maintenance s =
     (if is_maintenance_ongoing (table_maintenance_process_status s) then False
      else if is_requested (index_merge_request_status s) then False
      else if is_requested (data_compaction_request_status s) then False
      else True)"

lemmas handler_state_defs = is_force_request_def is_requested_def is_maintenance_ongoing_def
  send_def try_send_def send_unwrap_def notify_persisted_table_lsn_def
  update_iceberg_persisted_lsn_def mark_drop_table_def can_drop_table_now_def
  has_background_task_ongoing_def start_alter_table_def should_complete_alter_table_def
  finish_alter_table_def start_initial_copy_def finish_initial_copy_def
  can_initiate_iceberg_snapshot_def reset_iceberg_state_at_mooncake_snapshot_def
  mark_index_merge_completed_def mark_data_compaction_completed_def can_start_new_maintenance_def

end
