(* ===== verification/Table_Handler.thy ===== *)
theory Table_Handler
  imports Handler_State
begin

text \<open>
  The event loop of a table (\<^verbatim>\<open>table_handler.rs\<close>): one function per branch of the loop, the
  dispatch, and the processing of replicated events. The table is reached through the
  record \<open>table_ops\<close> of the methods the loop calls; its state \<open>'t\<close> stands for the table
  together with the object cache it shares. Identifiers drawn for a flush, which only label
  its result, are left out; those of a snapshot request come from the environment.
\<close>

section \<open>The table as the event loop sees it\<close>

record ('t, 'md, 'dsw, 'snap) table_ops =
  t_get_persistence_snapshot_lsn :: "'t \<Rightarrow> lsn option"
  t_get_wal_highest_completion_lsn :: "'t \<Rightarrow> lsn"
  t_get_wal_curr_file_number :: "'t \<Rightarrow> nat"
  t_get_last_flush_lsn :: "'t \<Rightarrow> lsn"
  t_get_min_ongoing_flush_lsn :: "'t \<Rightarrow> lsn"
  t_has_ongoing_flush :: "'t \<Rightarrow> bool"
  t_should_flush :: "'t \<Rightarrow> bool"
  t_should_transaction_flush :: "xact_id \<Rightarrow> 't \<Rightarrow> bool res"
  t_batch_ingest :: "string list \<Rightarrow> storage_config \<Rightarrow> lsn \<Rightarrow> 't \<Rightarrow> 't res"
  t_push_wal_event :: "('md, 'dsw, 'snap) table_event \<Rightarrow> 't \<Rightarrow> 't res"
  t_append :: "moonlink_row \<Rightarrow> 't \<Rightarrow> (error option \<times> 't) res"
  t_append_in_stream_batch :: "moonlink_row \<Rightarrow> xact_id \<Rightarrow> 't \<Rightarrow> (error option \<times> 't) res"
  t_flush_stream :: "xact_id \<Rightarrow> lsn option \<Rightarrow> 't \<Rightarrow> (error option \<times> 't) res"
  t_delete :: "moonlink_row \<Rightarrow> lsn \<Rightarrow> 't \<Rightarrow> 't res"
  t_delete_if_exists :: "moonlink_row \<Rightarrow> lsn \<Rightarrow> 't \<Rightarrow> 't res"
  t_delete_in_stream_batch :: "moonlink_row \<Rightarrow> xact_id \<Rightarrow> 't \<Rightarrow> 't res"
  t_abort_in_stream_batch :: "xact_id \<Rightarrow> 't \<Rightarrow> 't res"
  t_commit :: "lsn \<Rightarrow> 't \<Rightarrow> 't res"
  t_flush :: "lsn \<Rightarrow> 't \<Rightarrow> (error option \<times> 't) res"
  t_commit_transaction_stream :: "xact_id \<Rightarrow> lsn \<Rightarrow> 't \<Rightarrow> (error option \<times> 't) res"
  t_try_create_mooncake_snapshot :: "snapshot_option \<Rightarrow> 't \<Rightarrow> (bool \<times> 't) res"
  t_force_empty_persistence_payload :: "'t \<Rightarrow> 't res"
  t_alter_table :: "alter_table_request \<Rightarrow> 't \<Rightarrow> ('md \<times> 't) res"
  t_persist_iceberg_snapshot :: "'md persistence_snapshot_payload \<Rightarrow> 't \<Rightarrow> 't res"
  t_record_mooncake_snapshot_completion :: "('md, 'snap) mooncake_snapshot_output \<Rightarrow> 't \<Rightarrow> 't res"
  t_mark_mooncake_snapshot_completed :: "'t \<Rightarrow> 't res"
  t_notify_snapshot_reader :: "lsn \<Rightarrow> 't \<Rightarrow> 't res"
  t_record_iceberg_snapshot_completion :: "'md persistence_snapshot_result \<Rightarrow> 't \<Rightarrow> 't res"
  t_set_persistence_snapshot_res :: "'md persistence_snapshot_result \<Rightarrow> 't \<Rightarrow> 't res"
  t_perform_data_compaction :: "data_compaction_payload \<Rightarrow> 't \<Rightarrow> 't res"
  t_perform_index_merge :: "file_indice_merge_payload \<Rightarrow> 't \<Rightarrow> 't res"
  t_unpin_referenced_compaction_payload :: "data_compaction_payload \<Rightarrow> 't \<Rightarrow> 't res"
  t_record_index_merge_completion :: "file_indice_merge_result \<Rightarrow> 't \<Rightarrow> 't res"
  t_set_file_indices_merge_res :: "file_indice_merge_result \<Rightarrow> 't \<Rightarrow> 't res"
  t_record_data_compaction_completion :: "data_compaction_result \<Rightarrow> 't \<Rightarrow> 't res"
  t_set_data_compaction_res :: "data_compaction_result \<Rightarrow> 't \<Rightarrow> 't res"
  t_do_wal_persistence_update :: "uuid \<Rightarrow> 't \<Rightarrow> (bool \<times> 't) res"
  t_handle_completed_wal_persistence_update ::
    "wal_persistence_update_result \<Rightarrow> 't \<Rightarrow> (lsn option \<times> 't) res"
  t_output_files :: "'dsw \<Rightarrow> nat"
  t_apply_flush_result :: "'dsw \<Rightarrow> 't \<Rightarrow> 't res"
  t_apply_stream_flush_result :: "xact_id \<Rightarrow> 'dsw \<Rightarrow> 't \<Rightarrow> 't res"
  t_shutdown :: "'t \<Rightarrow> (error option \<times> 't) res"
  t_drop_iceberg_table :: "'t \<Rightarrow> (error option \<times> 't) res"
  t_drop_wal :: "'t \<Rightarrow> (error option \<times> 't) res"
  t_drop_mooncake_table :: "'t \<Rightarrow> (error option \<times> 't) res"

record ('t, 'md, 'dsw, 'snap) handler =
  th_table :: 't
  th_state :: "('md, 'dsw, 'snap) table_handler_state"
  th_running :: bool

record env =
  env_rx :: receivers
  replication_lsn :: lsn
  new_v4 :: "nat \<Rightarrow> uuid"

text \<open>
  Calls of a method: plain, one whose error is only logged, and an update of the handler's
  own state that may panic.
\<close>

definition call :: "('t \<Rightarrow> 't res) \<Rightarrow> ('t, 'md, 'dsw, 'snap) handler \<Rightarrow>
    ('t, 'md, 'dsw, 'snap) handler res" where
  "call f h = res_bind (f (th_table h)) (\<lambda>t. Ok (h\<lparr>th_table := t\<rparr>))"

definition call_logged :: "('t \<Rightarrow> (error option \<times> 't) res) \<Rightarrow> ('t, 'md, 'dsw, 'snap) handler \<Rightarrow>
    ('t, 'md, 'dsw, 'snap) handler res" where
  "call_logged f h = res_bind (f (th_table h)) (\<lambda>(e, t). Ok (h\<lparr>th_table := t\<rparr>))"

definition on_state :: "(('md, 'dsw, 'snap) table_handler_state \<Rightarrow> ('md, 'dsw, 'snap) table_handler_state)
    \<Rightarrow> ('t, 'md, 'dsw, 'snap) handler \<Rightarrow> ('t, 'md, 'dsw, 'snap) handler" where
  "on_state f h = h\<lparr>th_state := f (th_state h)\<rparr>"

definition try_state :: "(('md, 'dsw, 'snap) table_handler_state \<Rightarrow>
      ('md, 'dsw, 'snap) table_handler_state res)
    \<Rightarrow> ('t, 'md, 'dsw, 'snap) handler \<Rightarrow> ('t, 'md, 'dsw, 'snap) handler res" where
  "try_state f h = res_bind (f (th_state h)) (\<lambda>s. Ok (h\<lparr>th_state := s\<rparr>))"

section \<open>Replicated events\<close>

definition commit_and_attempt_flush ::
    "('t, 'md, 'dsw, 'snap) table_ops \<Rightarrow> lsn \<Rightarrow> xact_id option \<Rightarrow> bool \<Rightarrow>
     ('t, 'md, 'dsw, 'snap) handler \<Rightarrow> ('t, 'md, 'dsw, 'snap) handler res" where
  "commit_and_attempt_flush ops lsn xact_id force_flush_requested h =
     (let force = should_force_flush (th_state h) lsn (t_get_last_flush_lsn ops (th_table h))
      in case xact_id of
           Some x \<Rightarrow>
             res_bind (case last_unflushed_commit_lsn (th_state h) of
                         Some l \<Rightarrow> res_bind (call_logged (t_flush ops l) h)
                           (\<lambda>h. Ok (on_state (\<lambda>s. s\<lparr>last_unflushed_commit_lsn := None\<rparr>) h))
                       | None \<Rightarrow> Ok h)
             (\<lambda>h. if (case initial_persistence_lsn (th_state h) of
                        Some initial \<Rightarrow> lsn \<le> initial | None \<Rightarrow> False)
                  then call (t_abort_in_stream_batch ops x) h
                  else call_logged (t_commit_transaction_stream ops x lsn) h)
         | None \<Rightarrow>
             res_bind (call (t_commit ops lsn) h)
             (\<lambda>h. if t_should_flush ops (th_table h) \<or> force \<or> force_flush_requested
                  then call_logged (t_flush ops lsn)
                         (on_state (\<lambda>s. s\<lparr>last_unflushed_commit_lsn := None\<rparr>) h)
                  else Ok h))"

definition apply_cdc_event ::
    "('t, 'md, 'dsw, 'snap) table_ops \<Rightarrow> ('md, 'dsw, 'snap) table_event \<Rightarrow>
     ('t, 'md, 'dsw, 'snap) handler \<Rightarrow> ('t, 'md, 'dsw, 'snap) handler res" where
  "apply_cdc_event ops event h = (case event of
       Append row xact_id _ _ \<Rightarrow>
         (case xact_id of
            Some x \<Rightarrow>
              res_bind (call_logged (t_append_in_stream_batch ops row x) h) (\<lambda>h.
              res_bind (t_should_transaction_flush ops x (th_table h)) (\<lambda>flush.
              if flush then call_logged (t_flush_stream ops x None) h else Ok h))
          | None \<Rightarrow> call_logged (t_append ops row) h)
     | Delete row lsn xact_id delete_if_exists _ \<Rightarrow>
         (case xact_id of
            Some x \<Rightarrow> check (\<not> delete_if_exists) AssertFailed (call (t_delete_in_stream_batch ops row x) h)
          | None \<Rightarrow>
              if delete_if_exists then call (t_delete_if_exists ops row lsn) h
              else call (t_delete ops row lsn) h)
     | Commit lsn xact_id _ \<Rightarrow> commit_and_attempt_flush ops lsn xact_id False h
     | StreamAbort x _ closes_incomplete_wal_transaction \<Rightarrow>
         if \<not> closes_incomplete_wal_transaction then call (t_abort_in_stream_batch ops x) h else Ok h
     | CommitFlush lsn xact_id _ \<Rightarrow> commit_and_attempt_flush ops lsn xact_id True h
     | StreamFlush x _ \<Rightarrow> call_logged (t_flush_stream ops x None) h
     | _ \<Rightarrow> Panic ExplicitPanic)"

definition process_cdc_table_event ::
    "('t, 'md, 'dsw, 'snap) table_ops \<Rightarrow> ('t, 'md, 'dsw, 'snap) handler \<Rightarrow>
     ('md, 'dsw, 'snap) table_event \<Rightarrow> ('t, 'md, 'dsw, 'snap) handler res" where
  "process_cdc_table_event ops h event =
     (if is_in_blocking_state (th_state h) then
        Ok (on_state (\<lambda>s. s\<lparr>initial_copy_buffered_events := initial_copy_buffered_events s @ [event]\<rparr>) h)
      else
        let h = on_state (update_table_lsns event) h
        in res_bind (if should_discard_event (th_state h) event
                     then res_bind (is_recovery event) (\<lambda>r. Ok (\<not> r)) else Ok False) (\<lambda>discard.
           if discard then Ok h
           else res_bind (is_recovery event) (\<lambda>r.
             res_bind (if \<not> r then call (t_push_wal_event ops event) h else Ok h)
               (apply_cdc_event ops event))))"

definition process_blocked_events ::
    "('t, 'md, 'dsw, 'snap) table_ops \<Rightarrow> ('t, 'md, 'dsw, 'snap) handler \<Rightarrow>
     ('t, 'md, 'dsw, 'snap) handler res" where
  "process_blocked_events ops h =
     res_fold (process_cdc_table_event ops)
       (on_state (\<lambda>s. s\<lparr>initial_copy_buffered_events := []\<rparr>) h)
       (initial_copy_buffered_events (th_state h))"

section \<open>Dropping the table\<close>

text \<open>The first step that fails ends the drop, with its error as the notification.\<close>

fun drop_steps :: "('t \<Rightarrow> (error option \<times> 't) res) list \<Rightarrow> 't \<Rightarrow> ((error + unit) \<times> 't) res" where
  "drop_steps [] t = Ok (Inr (), t)"
| "drop_steps (f # fs) t =
     res_bind (f t) (\<lambda>(e, t). case e of Some err \<Rightarrow> Ok (Inl err, t) | None \<Rightarrow> drop_steps fs t)"

definition drop_table ::
    "('t, 'md, 'dsw, 'snap) table_ops \<Rightarrow> ('t, 'md, 'dsw, 'snap) handler \<Rightarrow>
     ('t, 'md, 'dsw, 'snap) handler res" where
  "drop_table ops h =
     res_bind (drop_steps [t_shutdown ops, t_drop_iceberg_table ops, t_drop_wal ops,
         t_drop_mooncake_table ops] (th_table h))
       (\<lambda>(outcome, t). Ok (on_state (send (DropTableCompletion outcome))
          (h\<lparr>th_table := t, th_running := False\<rparr>)))"

text \<open>The check repeated at the end of several branches.\<close>

definition drop_if_requested ::
    "('t, 'md, 'dsw, 'snap) table_ops \<Rightarrow> ('t, 'md, 'dsw, 'snap) handler \<Rightarrow>
     ('t, 'md, 'dsw, 'snap) handler res" where
  "drop_if_requested ops h =
     (if special_table_state (th_state h) = DropTableState \<and>
         can_drop_table_now (th_state h) (t_has_ongoing_flush ops (th_table h))
      then drop_table ops h else Ok h)"

definition start_task_to_delete_evicted ::
    "string list \<Rightarrow> ('t, 'md, 'dsw, 'snap) handler \<Rightarrow> ('t, 'md, 'dsw, 'snap) handler" where
  "start_task_to_delete_evicted files h =
     (if files = [] then h else on_state (send (DeleteEvicted files)) h)"

section \<open>Requests\<close>

definition on_force_snapshot ::
    "('t, 'md, 'dsw, 'snap) table_ops \<Rightarrow> env \<Rightarrow> lsn option \<Rightarrow>
     ('t, 'md, 'dsw, 'snap) handler \<Rightarrow> ('t, 'md, 'dsw, 'snap) handler res" where
  "on_force_snapshot ops env lsn h =
     (let rx = env_rx env;
          requested = (if lsn \<noteq> None then lsn else latest_commit_lsn (th_state h))
      in case requested of
           None \<Rightarrow>
             try_state (send_unwrap (force_snapshot_rx_open rx) (ForceSnapshotCompletion (Inr 0))) h
         | Some requested_lsn \<Rightarrow>
             res_bind (get_persisted_table_lsn (th_state h)
                 (t_get_persistence_snapshot_lsn ops (th_table h)) (replication_lsn env)) (\<lambda>persisted.
             if persisted \<ge> requested_lsn
             then Ok (on_state (notify_persisted_table_lsn rx persisted) h)
             else Ok (on_state (\<lambda>s. s\<lparr>largest_force_snapshot_lsn :=
               Some (case largest_force_snapshot_lsn s of
                       None \<Rightarrow> requested_lsn | Some old \<Rightarrow> max old requested_lsn)\<rparr>) h)))"

definition on_force_regular_index_merge ::
    "env \<Rightarrow> ('t, 'md, 'dsw, 'snap) handler \<Rightarrow> ('t, 'md, 'dsw, 'snap) handler res" where
  "on_force_regular_index_merge env h =
     (if \<not> can_start_new_maintenance (th_state h)
      then Ok (on_state (try_send (maintenance_subscribed (env_rx env)) (MaintenanceCompletion (Inr ()))) h)
      else check (index_merge_request_status (th_state h) = RequestUnrequested) AssertFailed
        (Ok (on_state (\<lambda>s. s\<lparr>index_merge_request_status := ForceRegular\<rparr>) h)))"

definition on_force_regular_data_compaction ::
    "env \<Rightarrow> ('t, 'md, 'dsw, 'snap) handler \<Rightarrow> ('t, 'md, 'dsw, 'snap) handler res" where
  "on_force_regular_data_compaction env h =
     (if \<not> can_start_new_maintenance (th_state h)
      then Ok (on_state (try_send (maintenance_subscribed (env_rx env)) (MaintenanceCompletion (Inr ()))) h)
      else check (data_compaction_request_status (th_state h) = RequestUnrequested) AssertFailed
        (Ok (on_state (\<lambda>s. s\<lparr>data_compaction_request_status := ForceRegular\<rparr>) h)))"

definition on_force_full_maintenance ::
    "env \<Rightarrow> ('t, 'md, 'dsw, 'snap) handler \<Rightarrow> ('t, 'md, 'dsw, 'snap) handler res" where
  "on_force_full_maintenance env h =
     (if \<not> can_start_new_maintenance (th_state h)
      then Ok (on_state (try_send (maintenance_subscribed (env_rx env)) (MaintenanceCompletion (Inr ()))) h)
      else check (index_merge_request_status (th_state h) = RequestUnrequested) AssertFailed (
        check (data_compaction_request_status (th_state h) = RequestUnrequested) AssertFailed
        (Ok (on_state (\<lambda>s. s\<lparr>data_compaction_request_status := ForceFull\<rparr>) h))))"

definition on_drop_table ::
    "('t, 'md, 'dsw, 'snap) table_ops \<Rightarrow> ('t, 'md, 'dsw, 'snap) handler \<Rightarrow>
     ('t, 'md, 'dsw, 'snap) handler res" where
  "on_drop_table ops h =
     (if can_drop_table_now (th_state h) (t_has_ongoing_flush ops (th_table h))
      then drop_table ops h
      else try_state mark_drop_table h)"

text \<open>Whether a snapshot was created decides whether its task runs.\<close>

definition try_create_mooncake_snapshot ::
    "('t, 'md, 'dsw, 'snap) table_ops \<Rightarrow> snapshot_option \<Rightarrow> ('t, 'md, 'dsw, 'snap) handler \<Rightarrow>
     (bool \<times> ('t, 'md, 'dsw, 'snap) handler) res" where
  "try_create_mooncake_snapshot ops opt h =
     res_bind (t_try_create_mooncake_snapshot ops opt (th_table h)) (\<lambda>(created, t).
       let h = h\<lparr>th_table := t\<rparr>
       in Ok (created, if created then on_state (send (StartTask MooncakeTask)) h else h))"

definition on_finish_initial_copy ::
    "('t, 'md, 'dsw, 'snap) table_ops \<Rightarrow> env \<Rightarrow> lsn \<Rightarrow>
     ('t, 'md, 'dsw, 'snap) handler \<Rightarrow> ('t, 'md, 'dsw, 'snap) handler res" where
  "on_finish_initial_copy ops env start_lsn h =
     res_bind (if \<not> mooncake_snapshot_ongoing (th_state h) then
           res_bind (try_create_mooncake_snapshot ops
             \<lparr>opt_uuid = new_v4 env 0, dump_snapshot = False, force_create = True,
              iceberg_snapshot_option = BestEffortSnapshot (new_v4 env 1),
              index_merge_option = SkipMaintenance, data_compaction_option = SkipMaintenance\<rparr> h)
           (\<lambda>(created, h). Ok (if created
              then on_state (\<lambda>s. s\<lparr>mooncake_snapshot_ongoing := True\<rparr>) h else h))
         else Ok h) (\<lambda>h.
     res_bind (try_state (finish_initial_copy start_lsn) h) (\<lambda>h.
       process_blocked_events ops
         (on_state (\<lambda>s. s\<lparr>initial_persistence_lsn := Some start_lsn\<rparr>) h)))"

section \<open>Snapshots\<close>

text \<open>Draining a pending force request before a periodic snapshot.\<close>

definition flush_for_force_snapshot ::
    "('t, 'md, 'dsw, 'snap) table_ops \<Rightarrow> ('t, 'md, 'dsw, 'snap) handler \<Rightarrow>
     ('t, 'md, 'dsw, 'snap) handler res" where
  "flush_for_force_snapshot ops h =
     (case table_consistent_view_lsn (th_state h) of
        Some commit_lsn \<Rightarrow>
          if should_force_flush (th_state h) commit_lsn (t_get_last_flush_lsn ops (th_table h)) then
            res_bind (t_flush ops commit_lsn (th_table h)) (\<lambda>(e, t).
            check (e = None) UnwrapErr
              (Ok (on_state (\<lambda>s. s\<lparr>last_unflushed_commit_lsn := None\<rparr>) (h\<lparr>th_table := t\<rparr>))))
          else Ok h
      | None \<Rightarrow> Ok h)"

definition create_force_snapshot ::
    "('t, 'md, 'dsw, 'snap) table_ops \<Rightarrow> env \<Rightarrow> uuid \<Rightarrow> ('t, 'md, 'dsw, 'snap) handler \<Rightarrow>
     ('t, 'md, 'dsw, 'snap) handler res" where
  "create_force_snapshot ops env uuid h =
     res_bind (try_state reset_iceberg_state_at_mooncake_snapshot h) (\<lambda>h.
     res_bind (case special_table_state (th_state h) of
                 AlterTableState _ _ \<Rightarrow> call (t_force_empty_persistence_payload ops) h
               | _ \<Rightarrow> Ok h) (\<lambda>h.
     res_bind (try_create_mooncake_snapshot ops (get_mooncake_snapshot_option (th_state h) True uuid
         (new_v4 env 1) (new_v4 env 2) (new_v4 env 3)) h) (\<lambda>(created, h).
     check created AssertFailed
       (Ok (on_state (\<lambda>s. s\<lparr>mooncake_snapshot_ongoing := True\<rparr>) h)))))"

definition create_periodic_snapshot ::
    "('t, 'md, 'dsw, 'snap) table_ops \<Rightarrow> env \<Rightarrow> uuid \<Rightarrow> ('t, 'md, 'dsw, 'snap) handler \<Rightarrow>
     ('t, 'md, 'dsw, 'snap) handler res" where
  "create_periodic_snapshot ops env uuid h =
     res_bind (try_state reset_iceberg_state_at_mooncake_snapshot h) (\<lambda>h.
     res_bind (try_create_mooncake_snapshot ops (get_mooncake_snapshot_option (th_state h) False uuid
         (new_v4 env 1) (new_v4 env 2) (new_v4 env 3)) h) (\<lambda>(created, h).
     Ok (on_state (\<lambda>s. s\<lparr>mooncake_snapshot_ongoing := created\<rparr>) h)))"

definition on_periodical_mooncake_snapshot ::
    "('t, 'md, 'dsw, 'snap) table_ops \<Rightarrow> env \<Rightarrow> uuid \<Rightarrow> ('t, 'md, 'dsw, 'snap) handler \<Rightarrow>
     ('t, 'md, 'dsw, 'snap) handler res" where
  "on_periodical_mooncake_snapshot ops env uuid h =
     (if mooncake_snapshot_ongoing (th_state h) then Ok h
      else if has_pending_force_snapshot_request (th_state h) \<and>
              \<not> persistence_snapshot_ongoing (th_state h) then
        res_bind (flush_for_force_snapshot ops h) (\<lambda>h.
        unwrap (largest_force_snapshot_lsn (th_state h)) (\<lambda>largest.
          if largest < t_get_min_ongoing_flush_lsn ops (th_table h)
          then create_force_snapshot ops env uuid h
          else create_periodic_snapshot ops env uuid h))
      else create_periodic_snapshot ops env uuid h)"

definition complete_alter_table ::
    "('t, 'md, 'dsw, 'snap) table_ops \<Rightarrow> 'md persistence_snapshot_payload \<Rightarrow>
     ('t, 'md, 'dsw, 'snap) handler \<Rightarrow>
     ('md persistence_snapshot_payload \<times> ('t, 'md, 'dsw, 'snap) handler) res" where
  "complete_alter_table ops payload h =
     (case special_table_state (th_state h) of
        AlterTableState alter_lsn request \<Rightarrow>
          unwrap request (\<lambda>request.
          res_bind (t_alter_table ops request (th_table h)) (\<lambda>(metadata, t).
          let payload = payload\<lparr>psp_new_table_schema := Some metadata\<rparr>;
              h = on_state (\<lambda>s. s\<lparr>special_table_state := AlterTableState alter_lsn None\<rparr>)
                    (h\<lparr>th_table := t\<rparr>)
          in res_bind (try_state finish_alter_table h) (\<lambda>h.
             res_bind (process_blocked_events ops h) (\<lambda>h. Ok (payload, h)))))
      | _ \<Rightarrow> Panic ExplicitPanic)"

definition on_regular_iceberg_snapshot ::
    "('t, 'md, 'dsw, 'snap) table_ops \<Rightarrow> 'md persistence_snapshot_payload \<Rightarrow>
     ('t, 'md, 'dsw, 'snap) handler \<Rightarrow> ('t, 'md, 'dsw, 'snap) handler res" where
  "on_regular_iceberg_snapshot ops payload h =
     res_bind (contains_table_maintenance_payload payload) (\<lambda>maintenance.
     let h = (if maintenance \<and> table_maintenance_process_status (th_state h) = ReadyToPersist
              then on_state (\<lambda>s. s\<lparr>table_maintenance_process_status := InPersist\<rparr>) h else h);
         h = on_state (\<lambda>s. s\<lparr>persistence_snapshot_ongoing := True\<rparr>) h
     in res_bind (should_complete_alter_table (th_state h) (psp_flush_lsn payload)) (\<lambda>complete.
        res_bind (if complete then complete_alter_table ops payload h else Ok (payload, h))
        (\<lambda>(payload, h).
          res_bind (call (t_persist_iceberg_snapshot ops payload) h)
            (\<lambda>h. Ok (on_state (send (StartTask PersistTask)) h)))))"

text \<open>The parts of the handling of a mooncake snapshot result, in the order of the code.\<close>

definition initiate_iceberg_snapshot ::
    "('t, 'md, 'dsw, 'snap) table_ops \<Rightarrow> ('md, 'snap) mooncake_snapshot_output \<Rightarrow>
     ('t, 'md, 'dsw, 'snap) handler \<Rightarrow> ('t, 'md, 'dsw, 'snap) handler" where
  "initiate_iceberg_snapshot ops result h =
     (if can_initiate_iceberg_snapshot (mso_commit_lsn result)
          (t_get_min_ongoing_flush_lsn ops (th_table h))
          (persistence_snapshot_result_consumed (th_state h))
          (persistence_snapshot_ongoing (th_state h))
      then (case mso_persistence_snapshot_payload result of
              Some payload \<Rightarrow> on_state (send (SelfEvent (RegularIcebergSnapshot payload))) h
            | None \<Rightarrow> h)
      else h)"

definition attempt_data_compaction ::
    "('t, 'md, 'dsw, 'snap) table_ops \<Rightarrow> env \<Rightarrow> ('md, 'snap) mooncake_snapshot_output \<Rightarrow>
     ('t, 'md, 'dsw, 'snap) handler \<Rightarrow> (bool \<times> ('t, 'md, 'dsw, 'snap) handler) res" where
  "attempt_data_compaction ops env result h =
     (let h = (if is_force_request (data_compaction_request_status (th_state h)) \<and>
                  is_nothing (mso_data_compaction_payload result)
               then on_state (\<lambda>s. (try_send (maintenance_subscribed (env_rx env))
                      (MaintenanceCompletion (Inr ())) s)
                      \<lparr>data_compaction_request_status := RequestUnrequested\<rparr>) h
               else h)
      in case take_payload (mso_data_compaction_payload result) of
           Some payload \<Rightarrow>
             res_bind (call (t_perform_data_compaction ops payload)
                 (on_state (\<lambda>s. s\<lparr>table_maintenance_process_status := InProcess\<rparr>) h))
               (\<lambda>h. Ok (True, on_state (send (StartTask CompactionTask)) h))
         | None \<Rightarrow> Ok (False, h))"

definition attempt_index_merge ::
    "('t, 'md, 'dsw, 'snap) table_ops \<Rightarrow> env \<Rightarrow> ('md, 'snap) mooncake_snapshot_output \<Rightarrow>
     ('t, 'md, 'dsw, 'snap) handler \<Rightarrow> ('t, 'md, 'dsw, 'snap) handler res" where
  "attempt_index_merge ops env result h =
     (let h = (if is_force_request (index_merge_request_status (th_state h)) \<and>
                  is_nothing (mso_file_indices_merge_payload result)
               then on_state (\<lambda>s. (try_send (maintenance_subscribed (env_rx env))
                      (MaintenanceCompletion (Inr ())) s)
                      \<lparr>index_merge_request_status := RequestUnrequested\<rparr>) h
               else h)
      in case take_payload (mso_file_indices_merge_payload result) of
           Some payload \<Rightarrow>
             check (table_maintenance_process_status (th_state h) = ProcessUnrequested) AssertFailed (
             res_bind (call (t_perform_index_merge ops payload)
                 (on_state (\<lambda>s. s\<lparr>table_maintenance_process_status := InProcess\<rparr>) h))
               (\<lambda>h. Ok (on_state (send (StartTask IndexMergeTask)) h)))
         | None \<Rightarrow> Ok h)"

definition attempt_maintenance ::
    "('t, 'md, 'dsw, 'snap) table_ops \<Rightarrow> env \<Rightarrow> ('md, 'snap) mooncake_snapshot_output \<Rightarrow>
     ('t, 'md, 'dsw, 'snap) handler \<Rightarrow> (bool \<times> ('t, 'md, 'dsw, 'snap) handler) res" where
  "attempt_maintenance ops env result h =
     (if table_maintenance_process_status (th_state h) = ProcessUnrequested then
        res_bind (attempt_data_compaction ops env result h) (\<lambda>(took_place, h).
        res_bind (attempt_index_merge ops env result h) (\<lambda>h. Ok (took_place, h)))
      else Ok (False, h))"

definition on_mooncake_snapshot_result ::
    "('t, 'md, 'dsw, 'snap) table_ops \<Rightarrow> env \<Rightarrow> ('md, 'snap) mooncake_snapshot_output \<Rightarrow>
     ('t, 'md, 'dsw, 'snap) handler \<Rightarrow> ('t, 'md, 'dsw, 'snap) handler res" where
  "on_mooncake_snapshot_result ops env result h =
     (let unpin = (\<lambda>h. case take_payload (mso_data_compaction_payload result) of
            Some payload \<Rightarrow> call (t_unpin_referenced_compaction_payload ops payload) h
          | None \<Rightarrow> Ok h)
      in res_bind (call (t_record_mooncake_snapshot_completion ops result) h) (\<lambda>h.
         res_bind (call (t_mark_mooncake_snapshot_completed ops)
             (start_task_to_delete_evicted (mso_evicted_data_files_to_delete result) h)) (\<lambda>h.
         let h = on_state (\<lambda>s. s\<lparr>mooncake_snapshot_ongoing := False\<rparr>) h
         in if special_table_state (th_state h) = DropTableState \<and>
               can_drop_table_now (th_state h) (t_has_ongoing_flush ops (th_table h))
            then res_bind (unpin h) (drop_table ops)
            else
              res_bind (call (t_notify_snapshot_reader ops (mso_commit_lsn result)) h) (\<lambda>h.
              res_bind (attempt_maintenance ops env result (initiate_iceberg_snapshot ops result h))
                (\<lambda>(took_place, h). if took_place then Ok h else unpin h)))))"

definition on_persistence_snapshot_success ::
    "('t, 'md, 'dsw, 'snap) table_ops \<Rightarrow> env \<Rightarrow> 'md persistence_snapshot_result \<Rightarrow>
     ('t, 'md, 'dsw, 'snap) handler \<Rightarrow> ('t, 'md, 'dsw, 'snap) handler res" where
  "on_persistence_snapshot_success ops env result h =
     (let rx = env_rx env
      in res_bind (call (t_record_iceberg_snapshot_completion ops result) h) (\<lambda>h.
         let h = start_task_to_delete_evicted (psr_evicted_files_to_delete result) h
         in res_bind (if table_maintenance_process_status (th_state h) = InPersist
                      then contains_maintenance_result result else Ok False) (\<lambda>maintained.
            let h = (if maintained then on_state (\<lambda>s.
                  try_send (maintenance_subscribed rx) (MaintenanceCompletion (Inr ()))
                    (s\<lparr>table_maintenance_process_status := ProcessUnrequested\<rparr>)) h else h)
            in res_bind (try_state (send_unwrap (flush_lsn_rx_open rx) (FlushLsn (psr_flush_lsn result))) h) (\<lambda>h.
               res_bind (call (t_set_persistence_snapshot_res ops result) h) (\<lambda>h.
               try_state (update_iceberg_persisted_lsn rx (psr_flush_lsn result) (replication_lsn env))
                 (on_state (\<lambda>s. s\<lparr>persistence_snapshot_result_consumed := False\<rparr>) h))))))"

definition on_persistence_snapshot_failure ::
    "env \<Rightarrow> error \<Rightarrow> ('t, 'md, 'dsw, 'snap) handler \<Rightarrow> ('t, 'md, 'dsw, 'snap) handler" where
  "on_persistence_snapshot_failure env err h =
     (let rx = env_rx env;
          h = (if has_pending_force_snapshot_request (th_state h)
               then on_state (try_send (force_snapshot_rx_open rx) (ForceSnapshotCompletion (Inl err))) h
               else h);
          h = (if table_maintenance_process_status (th_state h) = InPersist
               then on_state (\<lambda>s. try_send (maintenance_subscribed rx) (MaintenanceCompletion (Inl err))
                      (s\<lparr>table_maintenance_process_status := ProcessUnrequested\<rparr>)) h
               else h)
      in on_state (\<lambda>s. s\<lparr>largest_force_snapshot_lsn := None\<rparr>) h)"

definition on_persistence_snapshot_result ::
    "('t, 'md, 'dsw, 'snap) table_ops \<Rightarrow> env \<Rightarrow> error + 'md persistence_snapshot_result \<Rightarrow>
     ('t, 'md, 'dsw, 'snap) handler \<Rightarrow> ('t, 'md, 'dsw, 'snap) handler res" where
  "on_persistence_snapshot_result ops env result h =
     (let h = on_state (\<lambda>s. s\<lparr>persistence_snapshot_ongoing := False\<rparr>) h
      in res_bind (case result of
                     Inr result \<Rightarrow> on_persistence_snapshot_success ops env result h
                   | Inl err \<Rightarrow> Ok (on_persistence_snapshot_failure env err h))
           (drop_if_requested ops))"

section \<open>Maintenance, WAL and flush results\<close>

definition on_index_merge_result ::
    "('t, 'md, 'dsw, 'snap) table_ops \<Rightarrow> error + file_indice_merge_result \<Rightarrow>
     ('t, 'md, 'dsw, 'snap) handler \<Rightarrow> ('t, 'md, 'dsw, 'snap) handler res" where
  "on_index_merge_result ops result h =
     res_bind (try_state mark_index_merge_completed h) (\<lambda>h.
     case result of
       Inr result \<Rightarrow>
         res_bind (call (t_record_index_merge_completion ops result) h) (\<lambda>h.
         res_bind (call (t_set_file_indices_merge_res ops result) h) (drop_if_requested ops))
     | Inl err \<Rightarrow> Ok h)"

definition on_data_compaction_result ::
    "('t, 'md, 'dsw, 'snap) table_ops \<Rightarrow> env \<Rightarrow> error + data_compaction_result \<Rightarrow>
     ('t, 'md, 'dsw, 'snap) handler \<Rightarrow> ('t, 'md, 'dsw, 'snap) handler res" where
  "on_data_compaction_result ops env result h =
     res_bind (try_state (mark_data_compaction_completed (env_rx env) result) h) (\<lambda>h.
     res_bind (case result of
                 Inr result \<Rightarrow>
                   res_bind (call (t_record_data_compaction_completion ops result) h)
                     (call (t_set_data_compaction_res ops result))
               | Inl err \<Rightarrow> Ok h)
       (drop_if_requested ops))"

definition on_periodical_wal_update ::
    "('t, 'md, 'dsw, 'snap) table_ops \<Rightarrow> uuid \<Rightarrow> ('t, 'md, 'dsw, 'snap) handler \<Rightarrow>
     ('t, 'md, 'dsw, 'snap) handler res" where
  "on_periodical_wal_update ops uuid h =
     (if \<not> wal_persist_ongoing (th_state h) then
        let h = on_state (\<lambda>s. s\<lparr>wal_persist_ongoing := True\<rparr>) h
        in res_bind (t_do_wal_persistence_update ops uuid (th_table h)) (\<lambda>(ongoing, t).
           let h = h\<lparr>th_table := t\<rparr>;
               h = (if ongoing then on_state (send (StartTask WalTask)) h else h)
           in Ok (on_state (\<lambda>s. s\<lparr>wal_persist_ongoing := ongoing\<rparr>) h))
      else Ok h)"

definition on_wal_update_result ::
    "('t, 'md, 'dsw, 'snap) table_ops \<Rightarrow> env \<Rightarrow> error + wal_persistence_update_result \<Rightarrow>
     ('t, 'md, 'dsw, 'snap) handler \<Rightarrow> ('t, 'md, 'dsw, 'snap) handler res" where
  "on_wal_update_result ops env result h = (case result of
       Inr result \<Rightarrow>
         res_bind (t_handle_completed_wal_persistence_update ops result (th_table h)) (\<lambda>(highest, t).
         let h = h\<lparr>th_table := t\<rparr>
         in res_bind (case highest of
                        Some lsn \<Rightarrow>
                          try_state (send_unwrap (wal_flush_lsn_rx_open (env_rx env)) (WalFlushLsn lsn)) h
                      | None \<Rightarrow> Ok h) (\<lambda>h.
            drop_if_requested ops (on_state (\<lambda>s. s\<lparr>wal_persist_ongoing := False\<rparr>) h)))
     | Inl err \<Rightarrow> Ok h)"

definition on_flush_result ::
    "('t, 'md, 'dsw, 'snap) table_ops \<Rightarrow> xact_id option \<Rightarrow> (error + 'dsw) option \<Rightarrow>
     ('t, 'md, 'dsw, 'snap) handler \<Rightarrow> ('t, 'md, 'dsw, 'snap) handler res" where
  "on_flush_result ops xact_id flush_result h = (case flush_result of
       Some (Inr disk_slice) \<Rightarrow>
         (let rows_persisted = t_output_files ops disk_slice
          in res_bind (case xact_id of
                         Some x \<Rightarrow> call (t_apply_stream_flush_result ops x disk_slice) h
                       | None \<Rightarrow> call (t_apply_flush_result ops disk_slice) h) (\<lambda>h.
             if rows_persisted = 0 \<and> has_pending_force_snapshot_request (th_state h)
             then call (t_force_empty_persistence_payload ops) h else Ok h))
     | Some (Inl err) \<Rightarrow> Panic ExplicitPanic
     | None \<Rightarrow> Ok h)"

section \<open>The event loop\<close>

definition handle_event ::
    "('t, 'md, 'dsw, 'snap) table_ops \<Rightarrow> env \<Rightarrow> ('md, 'dsw, 'snap) table_event \<Rightarrow>
     ('t, 'md, 'dsw, 'snap) handler \<Rightarrow> ('t, 'md, 'dsw, 'snap) handler res" where
  "handle_event ops env event h =
     (if is_ingest_event event then process_cdc_table_event ops h event
      else case event of
        LoadFiles files storage lsn \<Rightarrow> call (t_batch_ingest ops files storage lsn) h
      | ForceSnapshot lsn \<Rightarrow> on_force_snapshot ops env lsn h
      | ForceRegularIndexMerge \<Rightarrow> on_force_regular_index_merge env h
      | ForceRegularDataCompaction \<Rightarrow> on_force_regular_data_compaction env h
      | ForceFullMaintenance \<Rightarrow> on_force_full_maintenance env h
      | DropTable \<Rightarrow> on_drop_table ops h
      | AlterTable columns \<Rightarrow>
          try_state (start_alter_table \<lparr>new_columns = [], dropped_columns = columns\<rparr>) h
      | StartInitialCopy \<Rightarrow> try_state start_initial_copy h
      | FinishInitialCopy start_lsn \<Rightarrow> on_finish_initial_copy ops env start_lsn h
      | PeriodicalMooncakeTableSnapshot uuid \<Rightarrow> on_periodical_mooncake_snapshot ops env uuid h
      | RegularIcebergSnapshot payload \<Rightarrow> on_regular_iceberg_snapshot ops payload h
      | MooncakeTableSnapshotResult result \<Rightarrow> on_mooncake_snapshot_result ops env result h
      | PersistenceSnapshotResult result \<Rightarrow> on_persistence_snapshot_result ops env result h
      | IndexMergeResult result \<Rightarrow> on_index_merge_result ops result h
      | DataCompactionResult result \<Rightarrow> on_data_compaction_result ops env result h
      | EvictedFilesToDelete files \<Rightarrow> Ok (start_task_to_delete_evicted files h)
      | PeriodicalPersistenceUpdateWal uuid \<Rightarrow> on_periodical_wal_update ops uuid h
      | PeriodicalWalPersistenceUpdateResult result \<Rightarrow> on_wal_update_result ops env result h
      | FinishRecovery lsn \<Rightarrow>
          try_state (send_unwrap (wal_flush_lsn_rx_open (env_rx env)) (WalFlushLsn lsn)) h
      | FlushResult _ xact_id flush_result \<Rightarrow> on_flush_result ops xact_id flush_result h
      | _ \<Rightarrow> Panic ExplicitPanic)"

text \<open>The state the loop starts with.\<close>

definition start_handler ::
    "('t, 'md, 'dsw, 'snap) table_ops \<Rightarrow> 't \<Rightarrow> ('t, 'md, 'dsw, 'snap) handler" where
  "start_handler ops t =
     (let persistence_lsn = t_get_persistence_snapshot_lsn ops t;
          wal_lsn = t_get_wal_highest_completion_lsn ops t;
          initial_lsn = (if t_get_wal_curr_file_number ops t > 0
                         then Some (case persistence_lsn of
                                      Some l \<Rightarrow> max l wal_lsn | None \<Rightarrow> wal_lsn)
                         else persistence_lsn)
      in \<lparr>th_table = t, th_state = new_table_handler_state initial_lsn persistence_lsn,
          th_running = True\<rparr>)"

text \<open>
  The loop on a sequence of events, each with the environment it meets; it stops after a
  drop. When the channel is closed the table is shut down, with an error only logged.
\<close>

fun event_loop ::
    "('t, 'md, 'dsw, 'snap) table_ops \<Rightarrow> ('t, 'md, 'dsw, 'snap) handler \<Rightarrow>
     (env \<times> ('md, 'dsw, 'snap) table_event) list \<Rightarrow> ('t, 'md, 'dsw, 'snap) handler res" where
  "event_loop ops h [] = call_logged (t_shutdown ops) h"
| "event_loop ops h ((env, event) # events) =
     res_bind (handle_event ops env event h) (\<lambda>h.
     if th_running h then event_loop ops h events else Ok h)"

end
