(* ===== verification/Handler_Control.thy ===== *)
theory Handler_Control
  imports Table_Handler
begin

text \<open>
  What the event loop does to its background tasks. The control part of the handler's state
  is a small automaton: \<open>control_step\<close> says, event by event, how it moves, which tasks it
  starts and which events it sends to itself, and the refinement lemma shows that every
  branch of the event loop follows it, whatever the table does.
\<close>

section \<open>The control automaton\<close>

record control =
  c_mooncake :: bool
  c_consumed :: bool
  c_persist :: bool
  c_status :: maintenance_process_status
  c_wal :: bool

definition control :: "('t, 'md, 'dsw, 'snap) handler \<Rightarrow> control" where
  "control h = \<lparr>c_mooncake = mooncake_snapshot_ongoing (th_state h),
     c_consumed = persistence_snapshot_result_consumed (th_state h),
     c_persist = persistence_snapshot_ongoing (th_state h),
     c_status = table_maintenance_process_status (th_state h),
     c_wal = wal_persist_ongoing (th_state h)\<rparr>"

fun tasks_of :: "('md, 'dsw, 'snap) handler_message list \<Rightarrow> task list" where
  "tasks_of [] = []"
| "tasks_of (StartTask t # ms) = t # tasks_of ms"
| "tasks_of (m # ms) = tasks_of ms"

fun self_of :: "('md, 'dsw, 'snap) handler_message list \<Rightarrow> ('md, 'dsw, 'snap) table_event list" where
  "self_of [] = []"
| "self_of (SelfEvent e # ms) = e # self_of ms"
| "self_of (m # ms) = self_of ms"

lemma tasks_of_append [simp]: "tasks_of (xs @ ys) = tasks_of xs @ tasks_of ys"
  by (induction xs rule: tasks_of.induct) auto

lemma self_of_append [simp]: "self_of (xs @ ys) = self_of xs @ self_of ys"
  by (induction xs rule: self_of.induct) auto

definition control_step ::
    "('md, 'dsw, 'snap) table_event \<Rightarrow> control \<Rightarrow> task list \<Rightarrow> ('md, 'dsw, 'snap) table_event list \<Rightarrow>
     control \<Rightarrow> bool" where
  "control_step event c ts evs c' = (case event of
       FinishInitialCopy _ \<Rightarrow> evs = [] \<and>
         (if c_mooncake c then ts = [] \<and> c' = c
          else \<exists>created. ts = (if created then [MooncakeTask] else []) \<and> c' = c\<lparr>c_mooncake := created\<rparr>)
     | PeriodicalMooncakeTableSnapshot _ \<Rightarrow> evs = [] \<and>
         (if c_mooncake c then ts = [] \<and> c' = c
          else (c_persist c \<longrightarrow> c_consumed c) \<and> (\<exists>created. ts = (if created then [MooncakeTask] else [])
            \<and> c' = c\<lparr>c_mooncake := created, c_consumed := True\<rparr>))
     | RegularIcebergSnapshot _ \<Rightarrow> evs = [] \<and> ts = [PersistTask] \<and>
         (\<exists>m. c' = c\<lparr>c_persist := True, c_status :=
            (if m \<and> c_status c = ReadyToPersist then InPersist else c_status c)\<rparr>)
     | MooncakeTableSnapshotResult _ \<Rightarrow>
         (evs = [] \<or> c_consumed c \<and> \<not> c_persist c \<and> (\<exists>p. evs = [RegularIcebergSnapshot p])) \<and>
         (ts = [] \<and> c' = c\<lparr>c_mooncake := False\<rparr> \<or>
          c_status c = ProcessUnrequested \<and> (ts = [CompactionTask] \<or> ts = [IndexMergeTask]) \<and>
          c' = c\<lparr>c_mooncake := False, c_status := InProcess\<rparr>)
     | PersistenceSnapshotResult r \<Rightarrow> evs = [] \<and> ts = [] \<and>
         (\<exists>m. c' = c\<lparr>c_persist := False, c_consumed := (isl r \<and> c_consumed c), c_status :=
            (if m \<and> c_status c = InPersist then ProcessUnrequested else c_status c)\<rparr>)
     | IndexMergeResult _ \<Rightarrow> evs = [] \<and> ts = [] \<and>
         c_status c = InProcess \<and> c' = c\<lparr>c_status := ReadyToPersist\<rparr>
     | DataCompactionResult r \<Rightarrow> evs = [] \<and> ts = [] \<and>
         c' = c\<lparr>c_status := (if isl r then ProcessUnrequested else ReadyToPersist)\<rparr>
     | PeriodicalPersistenceUpdateWal _ \<Rightarrow> evs = [] \<and>
         (if c_wal c then ts = [] \<and> c' = c
          else \<exists>ongoing. ts = (if ongoing then [WalTask] else []) \<and> c' = c\<lparr>c_wal := ongoing\<rparr>)
     | PeriodicalWalPersistenceUpdateResult r \<Rightarrow> evs = [] \<and> ts = [] \<and>
         c' = c\<lparr>c_wal := (isl r \<and> c_wal c)\<rparr>
     | _ \<Rightarrow> evs = [] \<and> ts = [] \<and> c' = c)"

section \<open>What replicated events leave alone\<close>

text \<open>Everything but the table, the LSNs of commits and the buffer of blocked events.\<close>

definition core where
  "core h = (let s = th_state h in
     (control h, sent s, th_running h, largest_force_snapshot_lsn s, special_table_state s,
      index_merge_request_status s, data_compaction_request_status s))"

lemmas core_defs = core_def control_def Let_def on_state_def

lemma call_core: "call f h = Ok h' \<Longrightarrow> core h' = core h"
  by (auto simp: call_def core_defs)

lemma call_logged_core: "call_logged f h = Ok h' \<Longrightarrow> core h' = core h"
  by (auto simp: call_logged_def core_defs)

lemma commit_core: "commit_and_attempt_flush ops lsn x force h = Ok h' \<Longrightarrow> core h' = core h"
proof (cases x)
  case None
  moreover assume "commit_and_attempt_flush ops lsn x force h = Ok h'"
  ultimately obtain h1 where 1: "call (t_commit ops lsn) h = Ok h1"
    "h' = h1 \<or> call_logged (t_flush ops lsn) (on_state (\<lambda>s. s\<lparr>last_unflushed_commit_lsn := None\<rparr>) h1) = Ok h'"
    by (auto simp: commit_and_attempt_flush_def Let_def split: if_splits)
  have "core (on_state (\<lambda>s. s\<lparr>last_unflushed_commit_lsn := None\<rparr>) h1) = core h1" by (simp add: core_defs)
  then show ?thesis using 1 by (auto dest!: call_core call_logged_core)
next
  case (Some y)
  assume "commit_and_attempt_flush ops lsn x force h = Ok h'"
  then obtain h1 where 1: "(case last_unflushed_commit_lsn (th_state h) of
        Some l \<Rightarrow> res_bind (call_logged (t_flush ops l) h)
          (\<lambda>h. Ok (on_state (\<lambda>s. s\<lparr>last_unflushed_commit_lsn := None\<rparr>) h))
      | None \<Rightarrow> Ok h) = Ok h1"
    "call (t_abort_in_stream_batch ops y) h1 = Ok h' \<or>
     call_logged (t_commit_transaction_stream ops y lsn) h1 = Ok h'"
    using Some by (auto simp: commit_and_attempt_flush_def Let_def split: if_splits)
  have "core h1 = core h"
    using 1(1) by (auto split: option.splits dest!: call_logged_core) (simp_all add: core_defs)
  then show ?thesis using 1(2) by (auto dest!: call_core call_logged_core)
qed

lemma apply_cdc_core: "apply_cdc_event ops event h = Ok h' \<Longrightarrow> core h' = core h"
  by (cases event)
    (auto simp: apply_cdc_event_def dest!: call_core call_logged_core commit_core
      split: option.splits if_splits)

lemma update_lsns_core: "core (on_state (update_table_lsns event) h) = core h"
  by (cases event) (auto simp: update_table_lsns_def core_defs)

lemma cdc_core:
  assumes "process_cdc_table_event ops h event = Ok h'"
  shows "core h' = core h"
proof (cases "is_in_blocking_state (th_state h)")
  case True
  then show ?thesis using assms by (auto simp: process_cdc_table_event_def core_defs)
next
  case False
  let ?h = "on_state (update_table_lsns event) h"
  from assms False obtain h1 where "h' = ?h \<or>
      (core h1 = core ?h \<and> apply_cdc_event ops event h1 = Ok h')"
    by (auto simp: process_cdc_table_event_def Let_def split: if_splits dest!: call_core)
  then show ?thesis using update_lsns_core[of event h] by (auto dest: apply_cdc_core)
qed

lemma blocked_core:
  assumes "process_blocked_events ops h = Ok h'"
  shows "core h' = core h"
proof -
  have "core h' = core h" if "res_fold (process_cdc_table_event ops) h es = Ok h'" for h es
    using that by (induction es arbitrary: h) (auto dest: cdc_core)
  from this[OF assms[unfolded process_blocked_events_def]] show ?thesis
    by (simp add: core_defs)
qed

section \<open>Every branch follows the automaton\<close>

definition light where
  "light h = (control h, tasks_of (sent (th_state h)), self_of (sent (th_state h)))"

lemmas light_defs = light_def control_def on_state_def send_def try_send_def

lemma core_light: "core h' = core h \<Longrightarrow> light h' = light h"
  by (simp add: light_def core_def Let_def)

lemmas call_light = call_core[THEN core_light] and call_logged_light = call_logged_core[THEN core_light]
  and blocked_light = blocked_core[THEN core_light]

lemma drop_light: "drop_table ops h = Ok h' \<Longrightarrow> light h' = light h"
  by (auto simp: drop_table_def light_defs)

lemma drop_if_light: "drop_if_requested ops h = Ok h' \<Longrightarrow> light h' = light h"
  by (auto simp: drop_if_requested_def dest: drop_light split: if_splits)

lemma evicted_light [simp]: "light (start_task_to_delete_evicted fs h) = light h"
  by (simp add: start_task_to_delete_evicted_def light_defs)

definition quiet :: "('md, 'dsw, 'snap) handler_message \<Rightarrow> bool" where
  "quiet m \<longleftrightarrow> tasks_of [m] = [] \<and> self_of [m] = []"

lemma quiet_simps [simp]: "quiet (ForceSnapshotCompletion x)" "quiet (MaintenanceCompletion y)"
  "quiet (FlushLsn l)" "quiet (WalFlushLsn l)" "quiet (DropTableCompletion z)" "quiet (DeleteEvicted fs)"
  by (simp_all add: quiet_def)

lemma try_send_light [simp]: "quiet m \<Longrightarrow> light (on_state (try_send b m) h) = light h"
  by (simp add: light_defs quiet_def)

lemma send_unwrap_light: "try_state (send_unwrap b m) h = Ok h' \<Longrightarrow> quiet m \<Longrightarrow> light h' = light h"
  by (auto simp: try_state_def send_unwrap_def light_defs quiet_def split: if_splits)

text \<open>Creating a mooncake snapshot.\<close>

lemma try_create_light:
  assumes "try_create_mooncake_snapshot ops opt h = Ok (created, h')"
  shows "control h' = control h" "self_of (sent (th_state h')) = self_of (sent (th_state h))"
    "tasks_of (sent (th_state h')) = tasks_of (sent (th_state h)) @ (if created then [MooncakeTask] else [])"
  using assms by (cases created; auto simp: try_create_mooncake_snapshot_def light_defs Let_def)+

lemma reset_control:
  assumes "try_state reset_iceberg_state_at_mooncake_snapshot h = Ok h'"
  shows "control h' = (control h)\<lparr>c_consumed := True\<rparr>" "sent (th_state h') = sent (th_state h)"
    "c_persist (control h) \<longrightarrow> c_consumed (control h)"
  using assms
  by (auto simp: try_state_def reset_iceberg_state_at_mooncake_snapshot_def control_def check_def
      split: if_splits)

lemma set_mooncake_control:
  "control (on_state (\<lambda>s. s\<lparr>mooncake_snapshot_ongoing := b\<rparr>) h) = (control h)\<lparr>c_mooncake := b\<rparr>"
  "sent (th_state (on_state (\<lambda>s. s\<lparr>mooncake_snapshot_ongoing := b\<rparr>) h)) = sent (th_state h)"
  by (simp_all add: control_def on_state_def)

definition created_snapshot where
  "created_snapshot h h' \<longleftrightarrow> self_of (sent (th_state h')) = self_of (sent (th_state h)) \<and>
     (c_persist (control h) \<longrightarrow> c_consumed (control h)) \<and>
     (\<exists>created. tasks_of (sent (th_state h')) =
         tasks_of (sent (th_state h)) @ (if created then [MooncakeTask] else []) \<and>
       control h' = (control h)\<lparr>c_mooncake := created, c_consumed := True\<rparr>)"

lemma periodic_created:
  assumes "create_periodic_snapshot ops env uuid h = Ok h'"
  shows "created_snapshot h h'"
proof -
  obtain h1 created h2 opt where 1: "try_state reset_iceberg_state_at_mooncake_snapshot h = Ok h1"
    "try_create_mooncake_snapshot ops opt h1 = Ok (created, h2)"
    "h' = on_state (\<lambda>s. s\<lparr>mooncake_snapshot_ongoing := created\<rparr>) h2"
    using assms by (auto simp: create_periodic_snapshot_def)
  show ?thesis
    unfolding created_snapshot_def 1(3) set_mooncake_control try_create_light[OF 1(2)] reset_control(1,2)[OF 1(1)]
    using reset_control(3)[OF 1(1)] by auto
qed

lemma force_created:
  assumes "create_force_snapshot ops env uuid h = Ok h'"
  shows "created_snapshot h h'"
proof -
  obtain h1 h2 h3 opt where 1: "try_state reset_iceberg_state_at_mooncake_snapshot h = Ok h1"
    "(case special_table_state (th_state h1) of
        AlterTableState _ _ \<Rightarrow> call (t_force_empty_persistence_payload ops) h1 | _ \<Rightarrow> Ok h1) = Ok h2"
    "try_create_mooncake_snapshot ops opt h2 = Ok (True, h3)"
    "h' = on_state (\<lambda>s. s\<lparr>mooncake_snapshot_ongoing := True\<rparr>) h3"
    using assms by (auto simp: create_force_snapshot_def check_def split: if_splits)
  have "light h2 = light h1"
    using 1(2) by (auto split: special_table_state.splits dest: call_light)
  then have h2: "control h2 = control h1" "tasks_of (sent (th_state h2)) = tasks_of (sent (th_state h1))"
    "self_of (sent (th_state h2)) = self_of (sent (th_state h1))"
    by (simp_all add: light_def)
  show ?thesis
    unfolding created_snapshot_def 1(4) set_mooncake_control try_create_light[OF 1(3)] h2 reset_control(1,2)[OF 1(1)]
    using reset_control(3)[OF 1(1)] by auto
qed

lemma flush_force_light: "flush_for_force_snapshot ops h = Ok h' \<Longrightarrow> light h' = light h"
  by (auto simp: flush_for_force_snapshot_def check_def light_defs split: option.splits if_splits)

lemma created_light: "light h1 = light h \<Longrightarrow> created_snapshot h1 h' \<Longrightarrow> created_snapshot h h'"
  by (simp add: created_snapshot_def light_def)

lemma periodical_refines:
  assumes "on_periodical_mooncake_snapshot ops env uuid h = Ok h'" and "sent (th_state h) = []"
  shows "control_step (PeriodicalMooncakeTableSnapshot uuid) (control h)
    (tasks_of (sent (th_state h'))) (self_of (sent (th_state h'))) (control h')"
proof (cases "mooncake_snapshot_ongoing (th_state h)")
  case True
  then show ?thesis
    using assms by (simp add: on_periodical_mooncake_snapshot_def control_step_def control_def)
next
  case False
  have "created_snapshot h h'"
  proof (cases "has_pending_force_snapshot_request (th_state h) \<and> \<not> persistence_snapshot_ongoing (th_state h)")
    case True
    then obtain h1 where "flush_for_force_snapshot ops h = Ok h1"
      "create_force_snapshot ops env uuid h1 = Ok h' \<or> create_periodic_snapshot ops env uuid h1 = Ok h'"
      using assms(1) False
      by (auto simp: on_periodical_mooncake_snapshot_def unwrap_def split: option.splits if_splits)
    then show ?thesis
      using flush_force_light created_light periodic_created force_created by blast
  next
    case pending: False
    then show ?thesis
      using assms(1) False by (auto simp: on_periodical_mooncake_snapshot_def intro: periodic_created)
  qed
  then show ?thesis
    using False assms(2) by (simp add: created_snapshot_def control_step_def control_def)
qed

text \<open>The other branches.\<close>

lemma finish_copy_refines:
  assumes "on_finish_initial_copy ops env lsn h = Ok h'" and "sent (th_state h) = []"
  shows "control_step (FinishInitialCopy lsn) (control h)
    (tasks_of (sent (th_state h'))) (self_of (sent (th_state h'))) (control h')"
proof -
  have tail: "light h' = light h1"
    if "res_bind (try_state (finish_initial_copy lsn) h1) (\<lambda>h. process_blocked_events ops
      (on_state (\<lambda>s. s\<lparr>initial_persistence_lsn := Some lsn\<rparr>) h)) = Ok h'" for h1
    using that by (auto simp: try_state_def finish_initial_copy_def check_def dest!: blocked_light split: if_splits)
      (simp add: light_defs)
  show ?thesis
  proof (cases "mooncake_snapshot_ongoing (th_state h)")
    case True
    then have "light h' = light h" using assms(1) tail by (simp add: on_finish_initial_copy_def)
    then show ?thesis using True assms(2) by (simp add: light_def control_step_def control_def)
  next
    case False
    then obtain created h1 opt where 1: "try_create_mooncake_snapshot ops opt h = Ok (created, h1)"
      "light h' = light (if created then on_state (\<lambda>s. s\<lparr>mooncake_snapshot_ongoing := True\<rparr>) h1 else h1)"
      using assms(1) tail by (auto simp: on_finish_initial_copy_def)
    note c = try_create_light[OF 1(1)]
    have "(control h)\<lparr>c_mooncake := False\<rparr> = control h" using False by (simp add: control_def)
    then show ?thesis
      using 1(2) c assms(2) False set_mooncake_control[of True h1]
      by (cases created) (auto simp: light_def control_step_def control_def)
  qed
qed

lemma iceberg_refines:
  assumes "on_regular_iceberg_snapshot ops payload h = Ok h'" and "sent (th_state h) = []"
  shows "control_step (RegularIcebergSnapshot payload) (control h)
    (tasks_of (sent (th_state h'))) (self_of (sent (th_state h'))) (control h')"
proof -
  obtain m where m: "contains_table_maintenance_payload payload = Ok m"
    using assms(1) by (auto simp: on_regular_iceberg_snapshot_def)
  define h1 where "h1 = on_state (\<lambda>s. s\<lparr>persistence_snapshot_ongoing := True\<rparr>)
    (if m \<and> table_maintenance_process_status (th_state h) = ReadyToPersist
     then on_state (\<lambda>s. s\<lparr>table_maintenance_process_status := InPersist\<rparr>) h else h)"
  have c1: "control h1 = (control h)\<lparr>c_persist := True, c_status :=
      (if m \<and> c_status (control h) = ReadyToPersist then InPersist else c_status (control h))\<rparr>"
    "sent (th_state h1) = sent (th_state h)"
    by (auto simp: h1_def control_def on_state_def)
  have "res_bind (should_complete_alter_table (th_state h1) (psp_flush_lsn payload)) (\<lambda>complete.
      res_bind (if complete then complete_alter_table ops payload h1 else Ok (payload, h1)) (\<lambda>(p, h).
        res_bind (call (t_persist_iceberg_snapshot ops p) h)
          (\<lambda>h. Ok (on_state (send (StartTask PersistTask)) h)))) = Ok h'"
    using assms(1) m unfolding on_regular_iceberg_snapshot_def h1_def Let_def by simp
  then obtain complete p h2 where 2: "(if complete then complete_alter_table ops payload h1
        else Ok (payload, h1)) = Ok (p, h2)"
    "res_bind (call (t_persist_iceberg_snapshot ops p) h2)
       (\<lambda>h. Ok (on_state (send (StartTask PersistTask)) h)) = Ok h'"
    by auto
  have "light h2 = light h1"
    using 2(1) by (auto simp: complete_alter_table_def unwrap_def try_state_def finish_alter_table_def Let_def check_def
        split: if_splits special_table_state.splits option.splits dest!: blocked_light) (simp add: light_defs)
  moreover obtain h3 where "light h3 = light h2" "h' = on_state (send (StartTask PersistTask)) h3"
    using 2(2) by (auto dest: call_light)
  ultimately have "control h' = control h1" "tasks_of (sent (th_state h')) = tasks_of (sent (th_state h1)) @ [PersistTask]"
    "self_of (sent (th_state h')) = self_of (sent (th_state h1))"
    by (auto simp: light_defs)
  then show ?thesis using c1 assms(2) by (auto simp: control_step_def)
qed

lemma data_compaction_light:
  assumes "attempt_data_compaction ops env r h = Ok (took, h')"
  shows "self_of (sent (th_state h')) = self_of (sent (th_state h))"
    and "tasks_of (sent (th_state h')) = tasks_of (sent (th_state h)) @ (if took then [CompactionTask] else [])"
    and "control h' = (if took then (control h)\<lparr>c_status := InProcess\<rparr> else control h)"
  using assms
  by (auto simp: attempt_data_compaction_def Let_def call_def control_def on_state_def send_def try_send_def
      split: option.splits if_splits)

lemma index_merge_light:
  assumes "attempt_index_merge ops env r h = Ok h'"
  shows "self_of (sent (th_state h')) = self_of (sent (th_state h))"
    and "(tasks_of (sent (th_state h')) = tasks_of (sent (th_state h)) \<and> control h' = control h) \<or>
      (c_status (control h) = ProcessUnrequested \<and>
       tasks_of (sent (th_state h')) = tasks_of (sent (th_state h)) @ [IndexMergeTask] \<and>
       control h' = (control h)\<lparr>c_status := InProcess\<rparr>)"
  using assms
  by (auto simp: attempt_index_merge_def Let_def call_def control_def on_state_def send_def try_send_def check_def
      split: option.splits if_splits)

lemma maintenance_light:
  assumes "attempt_maintenance ops env r h = Ok (took, h')"
  shows "self_of (sent (th_state h')) = self_of (sent (th_state h))"
    and "(tasks_of (sent (th_state h')) = tasks_of (sent (th_state h)) \<and> control h' = control h) \<or>
      (c_status (control h) = ProcessUnrequested \<and>
       (\<exists>t. (t = CompactionTask \<or> t = IndexMergeTask) \<and>
         tasks_of (sent (th_state h')) = tasks_of (sent (th_state h)) @ [t]) \<and>
       control h' = (control h)\<lparr>c_status := InProcess\<rparr>)"
proof -
  have "self_of (sent (th_state h')) = self_of (sent (th_state h)) \<and>
      ((tasks_of (sent (th_state h')) = tasks_of (sent (th_state h)) \<and> control h' = control h) \<or>
      (c_status (control h) = ProcessUnrequested \<and>
       (\<exists>t. (t = CompactionTask \<or> t = IndexMergeTask) \<and>
         tasks_of (sent (th_state h')) = tasks_of (sent (th_state h)) @ [t]) \<and>
       control h' = (control h)\<lparr>c_status := InProcess\<rparr>))"
  proof (cases "table_maintenance_process_status (th_state h) = ProcessUnrequested")
    case True
    then obtain h1 where 1: "attempt_data_compaction ops env r h = Ok (took, h1)"
      "attempt_index_merge ops env r h1 = Ok h'"
      using assms by (auto simp: attempt_maintenance_def)
    have st: "c_status (control h) = ProcessUnrequested" using True by (simp add: control_def)
    show ?thesis
      using data_compaction_light[OF 1(1)] index_merge_light[OF 1(2)] st by (cases took) auto
  next
    case False
    then show ?thesis using assms by (simp add: attempt_maintenance_def)
  qed
  then show "self_of (sent (th_state h')) = self_of (sent (th_state h))"
    "(tasks_of (sent (th_state h')) = tasks_of (sent (th_state h)) \<and> control h' = control h) \<or>
      (c_status (control h) = ProcessUnrequested \<and>
       (\<exists>t. (t = CompactionTask \<or> t = IndexMergeTask) \<and>
         tasks_of (sent (th_state h')) = tasks_of (sent (th_state h)) @ [t]) \<and>
       control h' = (control h)\<lparr>c_status := InProcess\<rparr>)"
    by simp_all
qed

lemma initiate_light:
  "control (initiate_iceberg_snapshot ops r h) = control h"
  "tasks_of (sent (th_state (initiate_iceberg_snapshot ops r h))) = tasks_of (sent (th_state h))"
  "\<exists>evs. self_of (sent (th_state (initiate_iceberg_snapshot ops r h))) = self_of (sent (th_state h)) @ evs \<and>
     (evs = [] \<or> c_consumed (control h) \<and> \<not> c_persist (control h) \<and>
       (\<exists>p. evs = [RegularIcebergSnapshot p]))"
  by (auto simp: initiate_iceberg_snapshot_def can_initiate_iceberg_snapshot_def control_def on_state_def
      send_def split: option.splits)

lemma mooncake_result_refines:
  fixes h :: "('t, 'md, 'dsw, 'snap) handler"
  assumes "on_mooncake_snapshot_result ops env r h = Ok h'" and "sent (th_state h) = []"
  shows "control_step (MooncakeTableSnapshotResult r) (control h)
    (tasks_of (sent (th_state h'))) (self_of (sent (th_state h'))) (control h')"
proof -
  define unpin where "unpin = (\<lambda>h :: ('t, 'md, 'dsw, 'snap) handler. case take_payload (mso_data_compaction_payload r) of
      Some payload \<Rightarrow> call (t_unpin_referenced_compaction_payload ops payload) h | None \<Rightarrow> Ok h)"
  have unpin: "light b = light a" if "unpin a = Ok b" for a b
    using that by (auto simp: unpin_def dest: call_light split: option.splits)
  obtain h1 h2 where 1: "call (t_record_mooncake_snapshot_completion ops r) h = Ok h1"
    "call (t_mark_mooncake_snapshot_completed ops)
       (start_task_to_delete_evicted (mso_evicted_data_files_to_delete r) h1) = Ok h2"
    using assms(1) by (auto simp: on_mooncake_snapshot_result_def Let_def)
  define h3 where "h3 = on_state (\<lambda>s. s\<lparr>mooncake_snapshot_ongoing := False\<rparr>) h2"
  have "light h2 = light h" using call_light[OF 1(1)] call_light[OF 1(2)] by simp
  then have c3: "control h3 = (control h)\<lparr>c_mooncake := False\<rparr>" "tasks_of (sent (th_state h3)) = []"
    "self_of (sent (th_state h3)) = []"
    using set_mooncake_control[of False h2] assms(2) by (simp_all add: h3_def light_def)
  let ?drop = "special_table_state (th_state h3) = DropTableState \<and>
      can_drop_table_now (th_state h3) (t_has_ongoing_flush ops (th_table h3))"
  let ?go = "res_bind (call (t_notify_snapshot_reader ops (mso_commit_lsn r)) h3) (\<lambda>h.
        res_bind (attempt_maintenance ops env r (initiate_iceberg_snapshot ops r h))
          (\<lambda>(took_place, h). if took_place then Ok h else unpin h))"
  have body: "(if ?drop then res_bind (unpin h3) (drop_table ops) else ?go) = Ok h'"
    using assms(1) 1 unfolding on_mooncake_snapshot_result_def unpin_def h3_def Let_def by simp
  have "(\<exists>h4. light h4 = light h3 \<and> drop_table ops h4 = Ok h') \<or>
      (\<exists>h4 took h5. light h4 = light h3 \<and>
        attempt_maintenance ops env r (initiate_iceberg_snapshot ops r h4) = Ok (took, h5) \<and>
        light h' = light h5)"
  proof (cases ?drop)
    case True
    from body[unfolded if_P[OF True]] show ?thesis using unpin by auto
  next
    case False
    from body[unfolded if_not_P[OF False]] obtain h4 took h5 where
      "call (t_notify_snapshot_reader ops (mso_commit_lsn r)) h3 = Ok h4"
      "attempt_maintenance ops env r (initiate_iceberg_snapshot ops r h4) = Ok (took, h5)"
      "(if took then Ok h5 else unpin h5) = Ok h'" by auto
    moreover from this(3) have "light h' = light h5" using unpin by (cases took) auto
    ultimately show ?thesis using call_light by blast
  qed
  then show ?thesis
  proof (elim disjE exE conjE)
    fix h4 assume "light h4 = light h3" "drop_table ops h4 = Ok h'"
    then show ?thesis using c3 by (auto simp: light_def control_step_def dest!: drop_light)
  next
    fix h4 took h5
    assume h4: "light h4 = light h3" and h': "light h' = light h5"
      and m: "attempt_maintenance ops env r (initiate_iceberg_snapshot ops r h4) = Ok (took, h5)"
    have c4: "control h4 = (control h)\<lparr>c_mooncake := False\<rparr>" "tasks_of (sent (th_state h4)) = []"
      "self_of (sent (th_state h4)) = []" using h4 c3 by (simp_all add: light_def)
    obtain evs where evs: "self_of (sent (th_state (initiate_iceberg_snapshot ops r h4))) = evs"
      "evs = [] \<or> c_consumed (control h) \<and> \<not> c_persist (control h) \<and> (\<exists>p. evs = [RegularIcebergSnapshot p])"
      using initiate_light(3)[of ops r h4] c4 by auto
    have "c_status (control h4) = c_status (control h)" using c4(1) by simp
    then show ?thesis
      using maintenance_light[OF m] h' evs c4 initiate_light(1,2)[of ops r h4]
      by (auto simp: light_def control_step_def)
  qed
qed

lemma success_control:
  assumes "on_persistence_snapshot_success ops env r h = Ok h'"
  shows "tasks_of (sent (th_state h')) = tasks_of (sent (th_state h))"
    and "self_of (sent (th_state h')) = self_of (sent (th_state h))"
    and "\<exists>m. control h' = (control h)\<lparr>c_consumed := False, c_status :=
      (if m \<and> c_status (control h) = InPersist then ProcessUnrequested else c_status (control h))\<rparr>"
proof -
  let ?rx = "env_rx env"
  obtain h1 m h3 h4 where 1: "call (t_record_iceberg_snapshot_completion ops r) h = Ok h1"
    and m: "(if table_maintenance_process_status (th_state
        (start_task_to_delete_evicted (psr_evicted_files_to_delete r) h1)) = InPersist
      then contains_maintenance_result r else Ok False) = Ok m"
    and 3: "try_state (send_unwrap (flush_lsn_rx_open ?rx) (FlushLsn (psr_flush_lsn r)))
      (if m then on_state (\<lambda>s. try_send (maintenance_subscribed ?rx) (MaintenanceCompletion (Inr ()))
         (s\<lparr>table_maintenance_process_status := ProcessUnrequested\<rparr>))
           (start_task_to_delete_evicted (psr_evicted_files_to_delete r) h1)
       else start_task_to_delete_evicted (psr_evicted_files_to_delete r) h1) = Ok h3"
    and 4: "call (t_set_persistence_snapshot_res ops r) h3 = Ok h4"
    and 5: "try_state (update_iceberg_persisted_lsn ?rx (psr_flush_lsn r) (replication_lsn env))
      (on_state (\<lambda>s. s\<lparr>persistence_snapshot_result_consumed := False\<rparr>) h4) = Ok h'"
    using assms unfolding on_persistence_snapshot_success_def Let_def res_bind_eq_Ok by blast
  have 2: "m \<longrightarrow> table_maintenance_process_status (th_state
      (start_task_to_delete_evicted (psr_evicted_files_to_delete r) h1)) = InPersist"
    using m by (auto split: if_splits)
  let ?h2 = "start_task_to_delete_evicted (psr_evicted_files_to_delete r) h1"
  have "light ?h2 = light h" using call_light[OF 1] by simp
  then have h2: "control ?h2 = control h" "tasks_of (sent (th_state ?h2)) = tasks_of (sent (th_state h))"
    "self_of (sent (th_state ?h2)) = self_of (sent (th_state h))" by (simp_all add: light_def)
  have h4: "light h4 = light (if m then on_state (\<lambda>s. try_send (maintenance_subscribed ?rx)
      (MaintenanceCompletion (Inr ())) (s\<lparr>table_maintenance_process_status := ProcessUnrequested\<rparr>)) ?h2 else ?h2)"
    using send_unwrap_light[OF 3] call_light[OF 4] by simp
  have h': "control h' = (control h4)\<lparr>c_consumed := False\<rparr>"
    "tasks_of (sent (th_state h')) = tasks_of (sent (th_state h4))"
    "self_of (sent (th_state h')) = self_of (sent (th_state h4))"
    using 5 by (auto simp: try_state_def update_iceberg_persisted_lsn_def notify_persisted_table_lsn_def
        try_send_def send_def on_state_def control_def Let_def split: option.splits if_splits)
  have s: "c_status (control ?h2) = table_maintenance_process_status (th_state ?h2)" by (simp add: control_def)
  show "tasks_of (sent (th_state h')) = tasks_of (sent (th_state h))"
    "self_of (sent (th_state h')) = self_of (sent (th_state h))"
    using h' h4 h2 by (auto simp: light_defs split: if_splits)
  have "control h4 = (control h)\<lparr>c_status :=
      (if m \<and> c_status (control h) = InPersist then ProcessUnrequested else c_status (control h))\<rparr>"
  proof (cases m)
    case True
    then have "c_status (control h) = InPersist" using 2 h2(1) s by simp
    then show ?thesis using True h4 h2(1) by (auto simp: light_defs)
  next
    case False
    then show ?thesis using h4 h2(1) by (simp add: light_def)
  qed
  then show "\<exists>m. control h' = (control h)\<lparr>c_consumed := False, c_status :=
      (if m \<and> c_status (control h) = InPersist then ProcessUnrequested else c_status (control h))\<rparr>"
    using h'(1) by (intro exI[of _ m]) simp
qed

lemma failure_control:
  "tasks_of (sent (th_state (on_persistence_snapshot_failure env e h))) = tasks_of (sent (th_state h))"
  "self_of (sent (th_state (on_persistence_snapshot_failure env e h))) = self_of (sent (th_state h))"
  "control (on_persistence_snapshot_failure env e h) = (control h)\<lparr>c_status :=
     (if c_status (control h) = InPersist then ProcessUnrequested else c_status (control h))\<rparr>"
  by (auto simp: on_persistence_snapshot_failure_def Let_def control_def on_state_def try_send_def send_def
      has_pending_force_snapshot_request_def)

lemma persistence_result_refines:
  assumes "on_persistence_snapshot_result ops env r h = Ok h'" and "sent (th_state h) = []"
  shows "control_step (PersistenceSnapshotResult r) (control h)
    (tasks_of (sent (th_state h'))) (self_of (sent (th_state h'))) (control h')"
proof -
  define h1 where "h1 = on_state (\<lambda>s. s\<lparr>persistence_snapshot_ongoing := False\<rparr>) h"
  have c1: "control h1 = (control h)\<lparr>c_persist := False\<rparr>" "sent (th_state h1) = []"
    using assms(2) by (simp_all add: h1_def control_def on_state_def)
  obtain h2 where h2: "(case r of Inr r \<Rightarrow> on_persistence_snapshot_success ops env r h1
      | Inl e \<Rightarrow> Ok (on_persistence_snapshot_failure env e h1)) = Ok h2" "light h' = light h2"
    using assms(1) unfolding on_persistence_snapshot_result_def h1_def Let_def
    by (auto dest: drop_if_light)
  show ?thesis
  proof (cases r)
    case (Inl e)
    then have e: "h2 = on_persistence_snapshot_failure env e h1" using h2(1) by simp
    have "control h' = (control h)\<lparr>c_persist := False, c_status :=
        (if True \<and> c_status (control h) = InPersist then ProcessUnrequested else c_status (control h))\<rparr>"
      "tasks_of (sent (th_state h')) = []" "self_of (sent (th_state h')) = []"
      using h2(2) c1 failure_control[of env e h1] by (simp_all add: e light_def)
    then show ?thesis using Inl by (cases "control h") (auto simp: control_step_def)
  next
    case (Inr res)
    then have "on_persistence_snapshot_success ops env res h1 = Ok h2" using h2(1) by simp
    note s = success_control[OF this]
    obtain m where "control h2 = (control h1)\<lparr>c_consumed := False, c_status :=
        (if m \<and> c_status (control h1) = InPersist then ProcessUnrequested else c_status (control h1))\<rparr>"
      using s(3) by blast
    then have "control h' = (control h)\<lparr>c_persist := False, c_consumed := False, c_status :=
        (if m \<and> c_status (control h) = InPersist then ProcessUnrequested else c_status (control h))\<rparr>"
      "tasks_of (sent (th_state h')) = []" "self_of (sent (th_state h')) = []"
      using s(1,2) h2(2) c1 by (simp_all add: light_def)
    then show ?thesis using Inr by (auto simp: control_step_def)
  qed
qed

lemma maintenance_result_refines:
  "on_index_merge_result ops r h = Ok h' \<Longrightarrow> sent (th_state h) = [] \<Longrightarrow>
   control_step (IndexMergeResult r) (control h)
     (tasks_of (sent (th_state h'))) (self_of (sent (th_state h'))) (control h')"
  "on_data_compaction_result ops env q h = Ok h' \<Longrightarrow> sent (th_state h) = [] \<Longrightarrow>
   control_step (DataCompactionResult q) (control h)
     (tasks_of (sent (th_state h'))) (self_of (sent (th_state h'))) (control h')"
proof -
  assume sent: "sent (th_state h) = []"
  {
    assume "on_index_merge_result ops r h = Ok h'"
    then obtain h1 where h1: "try_state mark_index_merge_completed h = Ok h1" and "light h' = light h1"
      by (cases r) (auto simp: on_index_merge_result_def dest!: call_light drop_if_light)
    then show "control_step (IndexMergeResult r) (control h)
     (tasks_of (sent (th_state h'))) (self_of (sent (th_state h'))) (control h')"
      using sent by (auto simp: try_state_def mark_index_merge_completed_def check_def control_step_def light_def
          control_def split: if_splits)
  }
  assume "on_data_compaction_result ops env q h = Ok h'"
  then obtain h1 where h1: "try_state (mark_data_compaction_completed (env_rx env) q) h = Ok h1"
    and "light h' = light h1"
    by (cases q) (auto simp: on_data_compaction_result_def dest!: call_light drop_if_light)
  then show "control_step (DataCompactionResult q) (control h)
     (tasks_of (sent (th_state h'))) (self_of (sent (th_state h'))) (control h')"
    using sent by (cases q) (auto simp: try_state_def mark_data_compaction_completed_def control_step_def
        light_def control_def send_unwrap_def send_def split: if_splits)
qed

lemma wal_refines:
  "on_periodical_wal_update ops uuid h = Ok h' \<Longrightarrow> sent (th_state h) = [] \<Longrightarrow>
   control_step (PeriodicalPersistenceUpdateWal uuid) (control h)
     (tasks_of (sent (th_state h'))) (self_of (sent (th_state h'))) (control h')"
  "on_wal_update_result ops env r h = Ok h' \<Longrightarrow> sent (th_state h) = [] \<Longrightarrow>
   control_step (PeriodicalWalPersistenceUpdateResult r) (control h)
     (tasks_of (sent (th_state h'))) (self_of (sent (th_state h'))) (control h')"
proof -
  assume sent: "sent (th_state h) = []"
  show "control_step (PeriodicalPersistenceUpdateWal uuid) (control h)
     (tasks_of (sent (th_state h'))) (self_of (sent (th_state h'))) (control h')"
    if run: "on_periodical_wal_update ops uuid h = Ok h'"
  proof (cases "wal_persist_ongoing (th_state h)")
    case True
    then show ?thesis using run sent by (simp add: on_periodical_wal_update_def control_step_def control_def)
  next
    case False
    then obtain ongoing t where "h' = on_state (\<lambda>s. s\<lparr>wal_persist_ongoing := ongoing\<rparr>)
      (if ongoing then on_state (send (StartTask WalTask)) ((on_state (\<lambda>s. s\<lparr>wal_persist_ongoing := True\<rparr>) h)\<lparr>th_table := t\<rparr>)
       else (on_state (\<lambda>s. s\<lparr>wal_persist_ongoing := True\<rparr>) h)\<lparr>th_table := t\<rparr>)"
      using run by (auto simp: on_periodical_wal_update_def Let_def)
    then have "control h' = (control h)\<lparr>c_wal := ongoing\<rparr>"
      "tasks_of (sent (th_state h')) = (if ongoing then [WalTask] else [])" "self_of (sent (th_state h')) = []"
      using sent by (simp_all add: control_def on_state_def send_def)
    then show ?thesis using False by (auto simp: control_step_def control_def)
  qed
  assume run: "on_wal_update_result ops env r h = Ok h'"
  show "control_step (PeriodicalWalPersistenceUpdateResult r) (control h)
     (tasks_of (sent (th_state h'))) (self_of (sent (th_state h'))) (control h')"
  proof (cases r)
    case (Inl e)
    have "(control h)\<lparr>c_wal := c_wal (control h)\<rparr> = control h" by simp
    then show ?thesis using run Inl sent by (auto simp: on_wal_update_result_def control_step_def)
  next
    case (Inr res)
    then obtain highest t h1 where 1: "(case highest of
          Some lsn \<Rightarrow> try_state (send_unwrap (wal_flush_lsn_rx_open (env_rx env)) (WalFlushLsn lsn)) (h\<lparr>th_table := t\<rparr>)
        | None \<Rightarrow> Ok (h\<lparr>th_table := t\<rparr>)) = Ok h1"
      "drop_if_requested ops (on_state (\<lambda>s. s\<lparr>wal_persist_ongoing := False\<rparr>) h1) = Ok h'"
      using run by (auto simp: on_wal_update_result_def Let_def)
    have "light h1 = light h"
    proof (cases highest)
      case None
      then show ?thesis using 1(1) by (auto simp: light_def control_def)
    next
      case (Some l)
      then have "light h1 = light (h\<lparr>th_table := t\<rparr>)" using 1(1) send_unwrap_light by fastforce
      then show ?thesis by (simp add: light_def control_def)
    qed
    then show ?thesis
      using Inr sent drop_if_light[OF 1(2)] by (auto simp: light_defs control_step_def)
  qed
qed

text \<open>The refinement: one event of the loop is one step of the automaton.\<close>

lemma handle_event_refines:
  assumes "handle_event ops env event h = Ok h'" and "sent (th_state h) = []"
  shows "control_step event (control h)
    (tasks_of (sent (th_state h'))) (self_of (sent (th_state h'))) (control h')"
proof -
  have quiet_event: ?thesis if "light h' = light h" "control_step event (control h) [] [] (control h)"
    using that assms(2) by (simp add: light_def)
  show ?thesis
  proof (cases event)
    case (ForceSnapshot l)
    then have "light h' = light h"
      using assms(1) by (auto simp: handle_event_def is_ingest_event_def on_force_snapshot_def Let_def
          notify_persisted_table_lsn_def try_state_def send_unwrap_def light_defs
          split: option.splits if_splits)
    then show ?thesis using ForceSnapshot quiet_event by (simp add: control_step_def)
  next
    case DropTable
    then have "light h' = light h"
      using assms(1) by (auto simp: handle_event_def is_ingest_event_def on_drop_table_def try_state_def
          mark_drop_table_def check_def split: if_splits dest: drop_light) (simp add: light_defs)
    then show ?thesis using DropTable quiet_event by (simp add: control_step_def)
  next
    case (FlushResult u x r)
    then have "light h' = light h"
      using assms(1) by (auto simp: handle_event_def is_ingest_event_def on_flush_result_def Let_def
          split: option.splits sum.splits if_splits dest!: call_light)
    then show ?thesis using FlushResult quiet_event by (simp add: control_step_def)
  next
    case (AlterTable cols)
    then have "light h' = light h"
      using assms(1) by (auto simp: handle_event_def is_ingest_event_def try_state_def start_alter_table_def
          check_def Let_def light_defs split: if_splits)
    then show ?thesis using AlterTable quiet_event by (simp add: control_step_def)
  next
    case StartInitialCopy
    then have "light h' = light h"
      using assms(1) by (auto simp: handle_event_def is_ingest_event_def try_state_def start_initial_copy_def
          check_def Let_def light_defs split: if_splits)
    then show ?thesis using StartInitialCopy quiet_event by (simp add: control_step_def)
  next
    case (LoadFiles f c l)
    then have "light h' = light h"
      using assms(1) by (auto simp: handle_event_def is_ingest_event_def dest: call_light)
    then show ?thesis using LoadFiles quiet_event by (simp add: control_step_def)
  next
    case (FinishRecovery l)
    then have "light h' = light h"
      using assms(1) by (auto simp: handle_event_def is_ingest_event_def dest: send_unwrap_light)
    then show ?thesis using FinishRecovery quiet_event by (simp add: control_step_def)
  next
    case ForceRegularIndexMerge
    then have "light h' = light h"
      using assms(1) by (auto simp: handle_event_def is_ingest_event_def on_force_regular_index_merge_def
          check_def split: if_splits) (simp_all add: light_defs)
    then show ?thesis using ForceRegularIndexMerge quiet_event by (simp add: control_step_def)
  next
    case ForceRegularDataCompaction
    then have "light h' = light h"
      using assms(1) by (auto simp: handle_event_def is_ingest_event_def on_force_regular_data_compaction_def
          check_def split: if_splits) (simp_all add: light_defs)
    then show ?thesis using ForceRegularDataCompaction quiet_event by (simp add: control_step_def)
  next
    case ForceFullMaintenance
    then have "light h' = light h"
      using assms(1) by (auto simp: handle_event_def is_ingest_event_def on_force_full_maintenance_def
          check_def split: if_splits) (simp_all add: light_defs)
    then show ?thesis using ForceFullMaintenance quiet_event by (simp add: control_step_def)
  next
    case (EvictedFilesToDelete fs)
    then have "light h' = light h" using assms(1) by (auto simp: handle_event_def is_ingest_event_def)
    then show ?thesis using EvictedFilesToDelete quiet_event by (simp add: control_step_def)
  qed (use assms quiet_event cdc_core[THEN core_light, of ops h event h'] in
      \<open>simp_all add: handle_event_def is_ingest_event_def control_step_def[of "Append _ _ _ _"]
        control_step_def[of "Delete _ _ _ _ _"] control_step_def[of "Commit _ _ _"]
        control_step_def[of "StreamAbort _ _ _"] periodical_refines finish_copy_refines iceberg_refines
        mooncake_result_refines persistence_result_refines maintenance_result_refines wal_refines\<close>)
qed

end
