(* ===== verification/Handler_System.thy ===== *)
theory Handler_System
  imports Handler_Control "HOL-Library.Multiset"
begin

text \<open>
  The event loop with its queue and its background tasks. Clients and timers append events
  to the queue at any time, a running task ends by appending its result, and the loop takes
  events from the front; what it sends to itself goes to the end of the queue and what it
  starts joins the running tasks. All statements hold for every implementation of the table.
\<close>

section \<open>The system\<close>

record ('t, 'md, 'dsw, 'snap) loop_system =
  sy_handler :: "('t, 'md, 'dsw, 'snap) handler"
  sy_queue :: "('md, 'dsw, 'snap) table_event list"
  sy_tasks :: "task multiset"

definition is_iceberg_request :: "('md, 'dsw, 'snap) table_event \<Rightarrow> bool" where
  "is_iceberg_request e = (case e of RegularIcebergSnapshot _ \<Rightarrow> True | _ \<Rightarrow> False)"

definition result_of :: "('md, 'dsw, 'snap) table_event \<Rightarrow> task option" where
  "result_of e = (case e of
       MooncakeTableSnapshotResult _ \<Rightarrow> Some MooncakeTask
     | PersistenceSnapshotResult _ \<Rightarrow> Some PersistTask
     | IndexMergeResult _ \<Rightarrow> Some IndexMergeTask
     | DataCompactionResult _ \<Rightarrow> Some CompactionTask
     | PeriodicalWalPersistenceUpdateResult _ \<Rightarrow> Some WalTask
     | _ \<Rightarrow> None)"

text \<open>Messages of one event only.\<close>

definition fresh_turn :: "('t, 'md, 'dsw, 'snap) handler \<Rightarrow> ('t, 'md, 'dsw, 'snap) handler" where
  "fresh_turn h = on_state (\<lambda>s. s\<lparr>sent := []\<rparr>) h"

inductive loop_step ::
    "('t, 'md, 'dsw, 'snap) table_ops \<Rightarrow> ('t, 'md, 'dsw, 'snap) loop_system \<Rightarrow>
     ('t, 'md, 'dsw, 'snap) loop_system \<Rightarrow> bool" for ops where
  post: "result_of e = None \<Longrightarrow> \<not> is_iceberg_request e \<Longrightarrow>
     loop_step ops s (s\<lparr>sy_queue := sy_queue s @ [e]\<rparr>)"
| finish: "result_of e = Some t \<Longrightarrow> t \<in># sy_tasks s \<Longrightarrow>
     loop_step ops s (s\<lparr>sy_queue := sy_queue s @ [e], sy_tasks := sy_tasks s - {#t#}\<rparr>)"
| deliver: "th_running (sy_handler s) \<Longrightarrow> sy_queue s = e # q \<Longrightarrow>
     handle_event ops env e (fresh_turn (sy_handler s)) = Ok h \<Longrightarrow>
     loop_step ops s \<lparr>sy_handler = h, sy_queue = q @ self_of (sent (th_state h)),
       sy_tasks = sy_tasks s + mset (tasks_of (sent (th_state h)))\<rparr>"

inductive_cases loop_stepE: "loop_step ops s s'"

definition loop_start ::
    "('t, 'md, 'dsw, 'snap) table_ops \<Rightarrow> 't \<Rightarrow> ('t, 'md, 'dsw, 'snap) loop_system" where
  "loop_start ops t = \<lparr>sy_handler = start_handler ops t, sy_queue = [], sy_tasks = {#}\<rparr>"

section \<open>Invariant\<close>

text \<open>
  \<open>in_flight\<close> counts the tasks of a kind that run or whose result is still queued. A request
  for an iceberg snapshot is only queued while none runs and none waits to be consumed, and
  no mooncake snapshot result precedes it.
\<close>

definition queued :: "task \<Rightarrow> ('md, 'dsw, 'snap) table_event list \<Rightarrow> nat" where
  "queued t q = length (filter (\<lambda>e. result_of e = Some t) q)"

definition in_flight :: "task \<Rightarrow> ('t, 'md, 'dsw, 'snap) loop_system \<Rightarrow> nat" where
  "in_flight t s = count (sy_tasks s) t + queued t (sy_queue s)"

fun request_ok :: "bool \<Rightarrow> ('md, 'dsw, 'snap) table_event list \<Rightarrow> bool" where
  "request_ok ready [] = True"
| "request_ok ready (e # q) =
     (if is_iceberg_request e then ready \<and> request_ok False q
      else if result_of e = Some MooncakeTask then request_ok False q
      else request_ok ready q)"

definition loop_inv :: "('t, 'md, 'dsw, 'snap) loop_system \<Rightarrow> bool" where
  "loop_inv s \<longleftrightarrow> (let c = control (sy_handler s) in
     in_flight MooncakeTask s = (if c_mooncake c then 1 else 0) \<and>
     in_flight PersistTask s = (if c_persist c then 1 else 0) \<and>
     (c_persist c \<longrightarrow> c_consumed c) \<and>
     in_flight IndexMergeTask s + in_flight CompactionTask s = (if c_status c = InProcess then 1 else 0) \<and>
     in_flight WalTask s \<le> (if c_wal c then 1 else 0) \<and>
     request_ok (c_consumed c \<and> \<not> c_persist c) (sy_queue s))"

lemma request_ok_mono: "request_ok a q \<Longrightarrow> a \<longrightarrow> b \<Longrightarrow> request_ok b q"
  by (induction b q rule: request_ok.induct) (auto split: if_splits)

lemma request_ok_snoc: "\<not> is_iceberg_request e \<Longrightarrow> request_ok a (q @ [e]) = request_ok a q"
  by (induction a q rule: request_ok.induct) auto

lemma request_ok_request:
  "request_ok False q \<Longrightarrow> queued MooncakeTask q = 0 \<Longrightarrow> request_ok True (q @ [RegularIcebergSnapshot p])"
  by (induction q) (auto simp: queued_def is_iceberg_request_def split: if_splits)

lemma queued_simps [simp]:
  "queued t [] = 0"
  "queued t (e # q) = (if result_of e = Some t then 1 else 0) + queued t q"
  "queued t (q @ q') = queued t q + queued t q'"
  by (simp_all add: queued_def)

lemma result_iceberg: "result_of e = Some t \<Longrightarrow> \<not> is_iceberg_request e"
  by (cases e) (auto simp: result_of_def is_iceberg_request_def)

lemma loop_start_inv: "loop_inv (loop_start ops t)"
  by (simp add: loop_inv_def loop_start_def in_flight_def start_handler_def Let_def control_def
      new_table_handler_state_def)

text \<open>Delivery, on the level of the control automaton.\<close>

lemma control_step_quiet:
  assumes "control_step e c ts evs c'" and "result_of e = None"
    and "\<not> is_iceberg_request e" and "\<forall>u. e \<noteq> PeriodicalMooncakeTableSnapshot u"
    and "\<forall>l. e \<noteq> FinishInitialCopy l" and "\<forall>u. e \<noteq> PeriodicalPersistenceUpdateWal u"
  shows "ts = [] \<and> evs = [] \<and> c' = c"
  using assms by (cases e) (auto simp: control_step_def result_of_def is_iceberg_request_def)

lemma deliver_inv:
  assumes inv: "loop_inv s" and q: "sy_queue s = e # q"
    and step: "control_step e (control (sy_handler s)) ts evs c'"
    and t: "control (sy_handler t) = c'" "sy_queue t = q @ evs" "sy_tasks t = sy_tasks s + mset ts"
  shows "loop_inv t"
proof -
  let ?c = "control (sy_handler s)"
  note inv' = inv[unfolded loop_inv_def Let_def in_flight_def q]
  show ?thesis
  proof (cases "result_of e = None \<and> \<not> is_iceberg_request e \<and> (\<forall>u. e \<noteq> PeriodicalMooncakeTableSnapshot u)
      \<and> (\<forall>l. e \<noteq> FinishInitialCopy l) \<and> (\<forall>u. e \<noteq> PeriodicalPersistenceUpdateWal u)")
    case True
    then have "ts = [] \<and> evs = [] \<and> c' = ?c" using control_step_quiet[OF step] by blast
    then show ?thesis
      using inv' True t by (simp add: loop_inv_def Let_def in_flight_def)
  next
    case False
    then show ?thesis
    proof (cases e)
      case (MooncakeTableSnapshotResult r)
      have ready: "request_ok False q" and none: "queued MooncakeTask q = 0" "count (sy_tasks s) MooncakeTask = 0"
        using inv' by (auto simp: MooncakeTableSnapshotResult result_of_def is_iceberg_request_def split: if_splits)
      have "evs = [] \<or> c_consumed ?c \<and> \<not> c_persist ?c \<and> (\<exists>p. evs = [RegularIcebergSnapshot p])"
        and moved: "ts = [] \<and> c' = ?c\<lparr>c_mooncake := False\<rparr> \<or>
          c_status ?c = ProcessUnrequested \<and> (ts = [CompactionTask] \<or> ts = [IndexMergeTask]) \<and>
          c' = ?c\<lparr>c_mooncake := False, c_status := InProcess\<rparr>"
        using step by (simp_all add: MooncakeTableSnapshotResult control_step_def)
      then have "request_ok (c_consumed ?c \<and> \<not> c_persist ?c) (q @ evs)"
        and none_sent: "\<And>k. queued k evs = 0"
        using request_ok_mono[OF ready] request_ok_request[OF ready none(1)]
        by (auto simp: result_of_def)
      with moved show ?thesis
        using inv' t none
        by (elim disjE conjE) (auto simp: MooncakeTableSnapshotResult loop_inv_def Let_def in_flight_def
            result_of_def split: if_splits)
    next
      case (RegularIcebergSnapshot p)
      then show ?thesis
        using inv' step t
        by (auto simp: loop_inv_def Let_def in_flight_def result_of_def control_step_def
            is_iceberg_request_def split: if_splits)
    next
      case (PersistenceSnapshotResult r)
      then have "c_persist ?c" using inv' by (auto simp: result_of_def split: if_splits)
      then show ?thesis
        using PersistenceSnapshotResult inv' step t request_ok_mono[of False q]
        by (auto simp: loop_inv_def Let_def in_flight_def result_of_def control_step_def
            is_iceberg_request_def split: if_splits)
    next
      case (IndexMergeResult r)
      then show ?thesis
        using inv' step t
        by (auto simp: loop_inv_def Let_def in_flight_def result_of_def control_step_def
            is_iceberg_request_def split: if_splits)
    next
      case (DataCompactionResult r)
      then show ?thesis
        using inv' step t
        by (auto simp: loop_inv_def Let_def in_flight_def result_of_def control_step_def
            is_iceberg_request_def split: if_splits)
    next
      case (PeriodicalWalPersistenceUpdateResult r)
      then show ?thesis
        using inv' step t
        by (auto simp: loop_inv_def Let_def in_flight_def result_of_def control_step_def
            is_iceberg_request_def split: if_splits)
    next
      case (PeriodicalPersistenceUpdateWal u)
      then show ?thesis
        using inv' step t
        by (auto simp: loop_inv_def Let_def in_flight_def result_of_def control_step_def
            is_iceberg_request_def split: if_splits)
    next
      case (FinishInitialCopy l)
      then consider "ts = []" "c' = ?c" "evs = []" | created where "\<not> c_mooncake ?c" "evs = []"
          "ts = (if created then [MooncakeTask] else [])" "c' = ?c\<lparr>c_mooncake := created\<rparr>"
        using step by (auto simp: control_step_def split: if_splits)
      then show ?thesis
        using FinishInitialCopy inv' t
        by cases (simp_all add: loop_inv_def Let_def in_flight_def result_of_def is_iceberg_request_def
            split: if_splits)
    next
      case (PeriodicalMooncakeTableSnapshot u)
      show ?thesis
      proof (cases "c_mooncake ?c")
        case True
        then show ?thesis
          using PeriodicalMooncakeTableSnapshot inv' step t
          by (simp add: loop_inv_def Let_def in_flight_def result_of_def control_step_def
              is_iceberg_request_def)
      next
        case False
        then obtain created where c: "ts = (if created then [MooncakeTask] else [])" "evs = []"
          "c' = ?c\<lparr>c_mooncake := created, c_consumed := True\<rparr>"
          using PeriodicalMooncakeTableSnapshot step by (auto simp: control_step_def)
        have "request_ok (c_consumed ?c \<and> \<not> c_persist ?c) q"
          using PeriodicalMooncakeTableSnapshot inv' by (simp add: result_of_def is_iceberg_request_def)
        then have "request_ok (\<not> c_persist ?c) q" by (rule request_ok_mono) simp
        then show ?thesis
          using PeriodicalMooncakeTableSnapshot False inv' t c
          by (cases created) (simp_all add: loop_inv_def Let_def in_flight_def result_of_def
              is_iceberg_request_def split: if_splits)
      qed
    qed (use False in \<open>simp_all add: result_of_def is_iceberg_request_def\<close>)
  qed
qed

lemma fresh_turn_control [simp]: "control (fresh_turn h) = control h" "sent (th_state (fresh_turn h)) = []"
  "th_running (fresh_turn h) = th_running h"
  by (simp_all add: fresh_turn_def control_def on_state_def)

lemma loop_step_inv:
  assumes "loop_inv s" and "loop_step ops s s'"
  shows "loop_inv s'"
  using assms(2)
proof cases
  case (post e)
  then show ?thesis using assms(1) by (simp add: loop_inv_def Let_def in_flight_def request_ok_snoc)
next
  case (finish e t)
  have "in_flight k s' = in_flight k s" for k
    using finish by (auto simp: in_flight_def)
  then show ?thesis
    using finish assms(1) by (simp add: loop_inv_def Let_def request_ok_snoc result_iceberg)
next
  case (deliver e q env h)
  from handle_event_refines[OF deliver(4)] show ?thesis
    by (intro deliver_inv[OF assms(1) deliver(3)]) (simp_all add: deliver(1))
qed

lemma loop_reachable_inv: "(loop_step ops)\<^sup>*\<^sup>* (loop_start ops t) s \<Longrightarrow> loop_inv s"
  by (induction rule: rtranclp_induct) (auto intro: loop_start_inv loop_step_inv)

section \<open>At most one background task of each kind\<close>

lemma request_ok_count:
  "request_ok ready q \<Longrightarrow> length (filter is_iceberg_request q) \<le> (if ready then 1 else 0)"
  by (induction ready q rule: request_ok.induct) (auto split: if_splits)

text \<open>
  C6: mutual exclusion of background work. In every reachable state of the loop, whatever
  the table does and in whatever order clients, timers and tasks act, at most one mooncake
  snapshot is in flight (running or with its result queued), at most one iceberg snapshot
  is requested or in flight, at most one index merge or data compaction, and at most one
  WAL persistence; and the state the loop asserts to be impossible (an iceberg snapshot
  under way while the previous result is unconsumed) does not occur.
\<close>

theorem background_tasks_exclusive:
  assumes "(loop_step ops)\<^sup>*\<^sup>* (loop_start ops t) s"
  shows "in_flight MooncakeTask s \<le> 1
    \<and> length (filter is_iceberg_request (sy_queue s)) + in_flight PersistTask s \<le> 1
    \<and> in_flight IndexMergeTask s + in_flight CompactionTask s \<le> 1
    \<and> in_flight WalTask s \<le> 1
    \<and> \<not> (persistence_snapshot_ongoing (th_state (sy_handler s))
        \<and> \<not> persistence_snapshot_result_consumed (th_state (sy_handler s)))"
proof -
  have inv: "loop_inv s" by (rule loop_reachable_inv[OF assms])
  have "length (filter is_iceberg_request (sy_queue s)) + in_flight PersistTask s \<le> 1"
    using inv request_ok_count[of _ "sy_queue s"] by (fastforce simp: loop_inv_def Let_def split: if_splits)
  then show ?thesis using inv by (auto simp: loop_inv_def Let_def control_def split: if_splits)
qed

section \<open>A table is dropped only when idle\<close>

definition idle :: "control \<Rightarrow> bool" where
  "idle c \<longleftrightarrow> \<not> c_mooncake c \<and> \<not> c_persist c \<and> \<not> c_wal c \<and> c_status c = ProcessUnrequested"

definition stops_idle where
  "stops_idle h' \<longleftrightarrow> (\<not> th_running h' \<longrightarrow> idle (control h'))"

lemma can_drop_idle: "can_drop_table_now (th_state h) b \<Longrightarrow> idle (control h)"
  by (auto simp: can_drop_table_now_def has_background_task_ongoing_def idle_def control_def split: if_splits)

lemma drop_control: "drop_table ops h = Ok h' \<Longrightarrow> control h' = control h"
  by (drule drop_light) (simp add: light_def)

lemma drop_if_stops: "drop_if_requested ops h = Ok h' \<Longrightarrow> th_running h \<Longrightarrow> stops_idle h'"
  by (auto simp: drop_if_requested_def stops_idle_def drop_control can_drop_idle split: if_splits)

lemma core_running: "core h' = core h \<Longrightarrow> th_running h' = th_running h"
  by (simp add: core_def Let_def)

lemmas running_simps = call_core[THEN core_running] call_logged_core[THEN core_running]
  cdc_core[THEN core_running] blocked_core[THEN core_running]

lemma on_state_running [simp]: "th_running (on_state f h) = th_running h"
  by (simp add: on_state_def)

lemma evicted_running [simp]: "th_running (start_task_to_delete_evicted fs h) = th_running h"
  by (simp add: start_task_to_delete_evicted_def)

lemma try_state_running: "try_state f h = Ok h' \<Longrightarrow> th_running h' = th_running h"
  by (auto simp: try_state_def)

lemma try_create_running:
  "try_create_mooncake_snapshot ops opt h = Ok (b, h') \<Longrightarrow> th_running h' = th_running h"
  by (cases b) (auto simp: try_create_mooncake_snapshot_def Let_def)

lemma running_stops: "th_running h' \<Longrightarrow> stops_idle h'"
  by (simp add: stops_idle_def)

lemma mooncake_result_stops:
  assumes "on_mooncake_snapshot_result ops env r h = Ok h'" and "th_running h"
  shows "stops_idle h'"
proof -
  obtain h1 h2 where 1: "call (t_record_mooncake_snapshot_completion ops r) h = Ok h1"
    "call (t_mark_mooncake_snapshot_completed ops)
       (start_task_to_delete_evicted (mso_evicted_data_files_to_delete r) h1) = Ok h2"
    using assms(1) by (auto simp: on_mooncake_snapshot_result_def Let_def)
  define h3 where "h3 = on_state (\<lambda>s. s\<lparr>mooncake_snapshot_ongoing := False\<rparr>) h2"
  have run: "th_running h3" using 1 assms(2) by (simp add: h3_def running_simps)
  let ?unpin = "\<lambda>h. case take_payload (mso_data_compaction_payload r) of
      Some payload \<Rightarrow> call (t_unpin_referenced_compaction_payload ops payload) h | None \<Rightarrow> Ok h"
  let ?drop = "special_table_state (th_state h3) = DropTableState \<and>
      can_drop_table_now (th_state h3) (t_has_ongoing_flush ops (th_table h3))"
  have body: "(if ?drop then res_bind (?unpin h3) (drop_table ops)
      else res_bind (call (t_notify_snapshot_reader ops (mso_commit_lsn r)) h3) (\<lambda>h.
        res_bind (attempt_maintenance ops env r (initiate_iceberg_snapshot ops r h))
          (\<lambda>(took_place, h). if took_place then Ok h else ?unpin h))) = Ok h'"
    using assms(1) 1 unfolding on_mooncake_snapshot_result_def h3_def Let_def by simp
  show ?thesis
  proof (cases ?drop)
    case True
    from body[unfolded if_P[OF True]] obtain h4 where h4: "?unpin h3 = Ok h4" "drop_table ops h4 = Ok h'"
      by auto
    have "control h4 = control h3"
      using h4(1) by (auto split: option.splits dest: call_light simp: light_def)
    moreover have "idle (control h3)" using True can_drop_idle by blast
    ultimately show ?thesis using h4(2) by (simp add: stops_idle_def drop_control)
  next
    case False
    from body[unfolded if_not_P[OF False]] obtain h4 took h5 where 2:
      "call (t_notify_snapshot_reader ops (mso_commit_lsn r)) h3 = Ok h4"
      "attempt_maintenance ops env r (initiate_iceberg_snapshot ops r h4) = Ok (took, h5)"
      "(if took then Ok h5 else ?unpin h5) = Ok h'" by auto
    have "th_running (initiate_iceberg_snapshot ops r h4)"
      using 2(1) run by (simp add: initiate_iceberg_snapshot_def running_simps split: option.splits)
    then have "th_running h5"
      using 2(2) by (auto simp: attempt_maintenance_def attempt_data_compaction_def attempt_index_merge_def
          Let_def check_def running_simps split: if_splits option.splits)
    then show ?thesis
      using 2(3) by (auto simp: running_simps intro!: running_stops split: if_splits option.splits)
  qed
qed

lemma persistence_result_stops:
  assumes "on_persistence_snapshot_result ops env r h = Ok h'" and "th_running h"
  shows "stops_idle h'"
proof -
  define h1 where "h1 = on_state (\<lambda>s. s\<lparr>persistence_snapshot_ongoing := False\<rparr>) h"
  obtain h2 where h2: "(case r of Inr r \<Rightarrow> on_persistence_snapshot_success ops env r h1
      | Inl e \<Rightarrow> Ok (on_persistence_snapshot_failure env e h1)) = Ok h2" "drop_if_requested ops h2 = Ok h'"
    using assms(1) unfolding on_persistence_snapshot_result_def h1_def Let_def by auto
  have "th_running h2"
    using h2(1) assms(2)
    by (auto simp: h1_def on_persistence_snapshot_success_def on_persistence_snapshot_failure_def Let_def
        running_simps try_state_running split: sum.splits if_splits)
  then show ?thesis using drop_if_stops[OF h2(2)] by simp
qed

lemma periodical_running:
  assumes "on_periodical_mooncake_snapshot ops env u h = Ok h'" and "th_running h"
  shows "th_running h'"
proof -
  have c: "th_running h2" if "create_periodic_snapshot ops env u h1 = Ok h2" "th_running h1" for h1 h2
    using that by (auto simp: create_periodic_snapshot_def try_create_running try_state_running)
  have f: "th_running h2" if "create_force_snapshot ops env u h1 = Ok h2" "th_running h1" for h1 h2
    using that by (auto simp: create_force_snapshot_def try_create_running try_state_running running_simps check_def
        split: if_splits special_table_state.splits)
  have l: "th_running h2" if "flush_for_force_snapshot ops h1 = Ok h2" "th_running h1" for h1 h2
    using that by (auto simp: flush_for_force_snapshot_def check_def split: option.splits if_splits)
  show ?thesis
    using assms c f l by (auto simp: on_periodical_mooncake_snapshot_def unwrap_def split: if_splits option.splits)
qed

lemma iceberg_running:
  "on_regular_iceberg_snapshot ops p h = Ok h' \<Longrightarrow> th_running h' = th_running h"
  by (auto simp: on_regular_iceberg_snapshot_def complete_alter_table_def Let_def unwrap_def running_simps
      try_state_running split: if_splits option.splits special_table_state.splits)

lemma handle_event_stops:
  assumes "handle_event ops env e h = Ok h'" and "th_running h"
  shows "stops_idle h'"
proof (cases e)
  case DropTable
  then show ?thesis
    using assms by (auto simp: handle_event_def is_ingest_event_def on_drop_table_def stops_idle_def drop_control
        can_drop_idle try_state_running split: if_splits)
next
  case (MooncakeTableSnapshotResult r)
  then show ?thesis using assms mooncake_result_stops by (auto simp: handle_event_def is_ingest_event_def)
next
  case (PersistenceSnapshotResult r)
  then show ?thesis using assms persistence_result_stops by (auto simp: handle_event_def is_ingest_event_def)
next
  case (IndexMergeResult r)
  then show ?thesis
    using assms by (cases r) (auto simp: handle_event_def is_ingest_event_def on_index_merge_result_def
        running_simps try_state_running intro: running_stops drop_if_stops)
next
  case (DataCompactionResult r)
  then show ?thesis
    using assms by (cases r) (auto simp: handle_event_def is_ingest_event_def on_data_compaction_result_def
        running_simps try_state_running intro: drop_if_stops)
next
  case (PeriodicalWalPersistenceUpdateResult r)
  then have run: "on_wal_update_result ops env r h = Ok h'"
    using assms(1) by (simp add: handle_event_def is_ingest_event_def)
  show ?thesis
  proof (cases r)
    case (Inl err)
    then show ?thesis using run assms(2) by (auto simp: on_wal_update_result_def intro: running_stops)
  next
    case (Inr res)
    then obtain highest t h1 where 1: "(case highest of
          Some lsn \<Rightarrow> try_state (send_unwrap (wal_flush_lsn_rx_open (env_rx env)) (WalFlushLsn lsn)) (h\<lparr>th_table := t\<rparr>)
        | None \<Rightarrow> Ok (h\<lparr>th_table := t\<rparr>)) = Ok h1"
      "drop_if_requested ops (on_state (\<lambda>s. s\<lparr>wal_persist_ongoing := False\<rparr>) h1) = Ok h'"
      using run by (auto simp: on_wal_update_result_def Let_def)
    have "th_running h1"
      using 1(1) assms(2) by (cases highest) (auto dest: try_state_running)
    then show ?thesis using drop_if_stops[OF 1(2)] by simp
  qed
next
  case (FinishInitialCopy l)
  then show ?thesis
    using assms by (auto simp: handle_event_def is_ingest_event_def on_finish_initial_copy_def
        try_state_running try_create_running running_simps intro!: running_stops split: if_splits)
next
  case (PeriodicalMooncakeTableSnapshot u)
  then show ?thesis
    using assms periodical_running[of ops env u h h']
    by (auto simp: handle_event_def is_ingest_event_def intro: running_stops)
next
  case (RegularIcebergSnapshot p)
  then show ?thesis
    using assms iceberg_running[of ops p h h'] by (auto simp: handle_event_def is_ingest_event_def intro: running_stops)
next
  case (Append a b c d)
  then have "th_running h' = th_running h"
    using assms(1) by (auto simp: handle_event_def is_ingest_event_def dest: cdc_core[THEN core_running])
  then show ?thesis using assms(2) by (simp add: running_stops)
next
  case (Delete a b c d f)
  then have "th_running h' = th_running h"
    using assms(1) by (auto simp: handle_event_def is_ingest_event_def dest: cdc_core[THEN core_running])
  then show ?thesis using assms(2) by (simp add: running_stops)
next
  case (Commit a b c)
  then have "th_running h' = th_running h"
    using assms(1) by (auto simp: handle_event_def is_ingest_event_def dest: cdc_core[THEN core_running])
  then show ?thesis using assms(2) by (simp add: running_stops)
next
  case (StreamAbort a b c)
  then have "th_running h' = th_running h"
    using assms(1) by (auto simp: handle_event_def is_ingest_event_def dest: cdc_core[THEN core_running])
  then show ?thesis using assms(2) by (simp add: running_stops)
next
  case (FlushResult a b c)
  then have "th_running h' = th_running h"
    using assms(1) by (auto simp: handle_event_def is_ingest_event_def on_flush_result_def Let_def
        dest!: call_core[THEN core_running] split: option.splits sum.splits if_splits)
  then show ?thesis using assms(2) by (simp add: running_stops)
next
  case (LoadFiles a b c)
  then have "th_running h' = th_running h"
    using assms(1) by (auto simp: handle_event_def is_ingest_event_def dest: call_core[THEN core_running])
  then show ?thesis using assms(2) by (simp add: running_stops)
next
  case (CommitFlush a b c)
  then have "th_running h' = th_running h"
    using assms(1) by (auto simp: handle_event_def is_ingest_event_def )
  then show ?thesis using assms(2) by (simp add: running_stops)
next
  case (StreamFlush a b)
  then have "th_running h' = th_running h"
    using assms(1) by (auto simp: handle_event_def is_ingest_event_def )
  then show ?thesis using assms(2) by (simp add: running_stops)
next
  case (ForceSnapshot a)
  then have "th_running h' = th_running h"
    using assms(1) by (auto simp: handle_event_def is_ingest_event_def on_force_snapshot_def Let_def
        dest!: try_state_running split: option.splits if_splits)
  then show ?thesis using assms(2) by (simp add: running_stops)
next
  case ForceRegularIndexMerge
  then have "th_running h' = th_running h"
    using assms(1) by (auto simp: handle_event_def is_ingest_event_def on_force_regular_index_merge_def check_def split: if_splits)
  then show ?thesis using assms(2) by (simp add: running_stops)
next
  case ForceRegularDataCompaction
  then have "th_running h' = th_running h"
    using assms(1) by (auto simp: handle_event_def is_ingest_event_def on_force_regular_data_compaction_def check_def split: if_splits)
  then show ?thesis using assms(2) by (simp add: running_stops)
next
  case ForceFullMaintenance
  then have "th_running h' = th_running h"
    using assms(1) by (auto simp: handle_event_def is_ingest_event_def on_force_full_maintenance_def check_def split: if_splits)
  then show ?thesis using assms(2) by (simp add: running_stops)
next
  case (AlterTable a)
  then have "th_running h' = th_running h"
    using assms(1) by (auto simp: handle_event_def is_ingest_event_def dest: try_state_running)
  then show ?thesis using assms(2) by (simp add: running_stops)
next
  case StartInitialCopy
  then have "th_running h' = th_running h"
    using assms(1) by (auto simp: handle_event_def is_ingest_event_def dest: try_state_running)
  then show ?thesis using assms(2) by (simp add: running_stops)
next
  case (EvictedFilesToDelete a)
  then have "th_running h' = th_running h"
    using assms(1) by (auto simp: handle_event_def is_ingest_event_def )
  then show ?thesis using assms(2) by (simp add: running_stops)
next
  case (PeriodicalPersistenceUpdateWal a)
  then have "th_running h' = th_running h"
    using assms(1) by (auto simp: handle_event_def is_ingest_event_def on_periodical_wal_update_def Let_def split: if_splits)
  then show ?thesis using assms(2) by (simp add: running_stops)
next
  case (FinishRecovery a)
  then have "th_running h' = th_running h"
    using assms(1) by (auto simp: handle_event_def is_ingest_event_def dest: try_state_running)
  then show ?thesis using assms(2) by (simp add: running_stops)
qed

lemma idle_no_tasks:
  assumes "loop_inv s" and "idle (control (sy_handler s))"
  shows "sy_tasks s = {#}"
proof -
  have "count (sy_tasks s) t = 0" for t
    using assms by (cases t) (auto simp: loop_inv_def idle_def in_flight_def Let_def)
  then show ?thesis by (intro multiset_eqI) simp
qed


section \<open>A failed WAL persistence is never retried\<close>


section \<open>A table whose operations all succeed\<close>

text \<open>The witnesses run the loop on a table that accepts every call.\<close>

definition unit_ops :: "(unit, unit, unit, unit) table_ops" where
  "unit_ops = \<lparr>
     t_get_persistence_snapshot_lsn = (\<lambda>_. None), t_get_wal_highest_completion_lsn = (\<lambda>_. 0),
     t_get_wal_curr_file_number = (\<lambda>_. 0), t_get_last_flush_lsn = (\<lambda>_. 0),
     t_get_min_ongoing_flush_lsn = (\<lambda>_. 2 ^ 64 - 1), t_has_ongoing_flush = (\<lambda>_. False),
     t_should_flush = (\<lambda>_. False), t_should_transaction_flush = (\<lambda>_ _. Ok False),
     t_batch_ingest = (\<lambda>_ _ _. Ok), t_push_wal_event = (\<lambda>_. Ok),
     t_append = (\<lambda>_ t. Ok (None, t)), t_append_in_stream_batch = (\<lambda>_ _ t. Ok (None, t)),
     t_flush_stream = (\<lambda>_ _ t. Ok (None, t)), t_delete = (\<lambda>_ _. Ok), t_delete_if_exists = (\<lambda>_ _. Ok),
     t_delete_in_stream_batch = (\<lambda>_ _. Ok), t_abort_in_stream_batch = (\<lambda>_. Ok), t_commit = (\<lambda>_. Ok),
     t_flush = (\<lambda>_ t. Ok (None, t)), t_commit_transaction_stream = (\<lambda>_ _ t. Ok (None, t)),
     t_try_create_mooncake_snapshot = (\<lambda>_ t. Ok (True, t)), t_force_empty_persistence_payload = Ok,
     t_alter_table = (\<lambda>_ t. Ok ((), t)), t_persist_iceberg_snapshot = (\<lambda>_. Ok),
     t_record_mooncake_snapshot_completion = (\<lambda>_. Ok), t_mark_mooncake_snapshot_completed = Ok,
     t_notify_snapshot_reader = (\<lambda>_. Ok), t_record_iceberg_snapshot_completion = (\<lambda>_. Ok),
     t_set_persistence_snapshot_res = (\<lambda>_. Ok), t_perform_data_compaction = (\<lambda>_. Ok),
     t_perform_index_merge = (\<lambda>_. Ok), t_unpin_referenced_compaction_payload = (\<lambda>_. Ok),
     t_record_index_merge_completion = (\<lambda>_. Ok), t_set_file_indices_merge_res = (\<lambda>_. Ok),
     t_record_data_compaction_completion = (\<lambda>_. Ok), t_set_data_compaction_res = (\<lambda>_. Ok),
     t_do_wal_persistence_update = (\<lambda>_ t. Ok (True, t)),
     t_handle_completed_wal_persistence_update = (\<lambda>_ t. Ok (None, t)),
     t_output_files = (\<lambda>_. 0), t_apply_flush_result = (\<lambda>_. Ok), t_apply_stream_flush_result = (\<lambda>_ _. Ok),
     t_shutdown = (\<lambda>t. Ok (None, t)), t_drop_iceberg_table = (\<lambda>t. Ok (None, t)),
     t_drop_wal = (\<lambda>t. Ok (None, t)), t_drop_mooncake_table = (\<lambda>t. Ok (None, t))\<rparr>"

definition calm :: env where
  "calm = \<lparr>env_rx = \<lparr>force_snapshot_rx_open = True, maintenance_subscribed = False,
     flush_lsn_rx_open = True, wal_flush_lsn_rx_open = True\<rparr>, replication_lsn = 0, new_v4 = (\<lambda>_. 0)\<rparr>"

abbreviation idle_state :: "(unit, unit, unit) table_handler_state" where
  "idle_state \<equiv> new_table_handler_state None None"

lemma deliver_one:
  assumes "(loop_step ops)\<^sup>*\<^sup>* a s" and "sy_queue s = []" and "th_running (sy_handler s)"
    and "result_of e = None" and "\<not> is_iceberg_request e"
    and "handle_event ops env e (fresh_turn (sy_handler s)) = Ok h"
  shows "(loop_step ops)\<^sup>*\<^sup>* a \<lparr>sy_handler = h, sy_queue = self_of (sent (th_state h)),
       sy_tasks = sy_tasks s + mset (tasks_of (sent (th_state h)))\<rparr>"
proof -
  let ?s = "s\<lparr>sy_queue := [e]\<rparr>"
  have "loop_step ops s ?s" using post[of e ops s] assms by simp
  moreover have "loop_step ops ?s \<lparr>sy_handler = h, sy_queue = [] @ self_of (sent (th_state h)),
       sy_tasks = sy_tasks ?s + mset (tasks_of (sent (th_state h)))\<rparr>"
    by (rule deliver[of ?s e "[]" ops env]) (use assms in simp_all)
  ultimately show ?thesis using assms(1) by (simp add: rtranclp.rtrancl_into_rtrancl)
qed

lemmas start_defs = loop_start_def start_handler_def fresh_turn_def unit_ops_def Let_def on_state_def

definition snapshot_started :: "(unit, unit, unit, unit) loop_system" where
  "snapshot_started = \<lparr>sy_handler = \<lparr>th_table = (), th_state = idle_state\<lparr>mooncake_snapshot_ongoing := True,
       sent := [StartTask MooncakeTask]\<rparr>, th_running = True\<rparr>,
     sy_queue = [], sy_tasks = {#MooncakeTask#}\<rparr>"

lemma snapshot_started_reachable: "(loop_step unit_ops)\<^sup>*\<^sup>* (loop_start unit_ops ()) snapshot_started"
proof -
  have "handle_event unit_ops calm (PeriodicalMooncakeTableSnapshot 0)
      (fresh_turn (sy_handler (loop_start unit_ops ()))) = Ok (sy_handler snapshot_started)"
    by (simp add: start_defs handle_event_def is_ingest_event_def on_periodical_mooncake_snapshot_def
        has_pending_force_snapshot_request_def create_periodic_snapshot_def try_state_def
        reset_iceberg_state_at_mooncake_snapshot_def try_create_mooncake_snapshot_def send_def
        new_table_handler_state_def snapshot_started_def)
  from deliver_one[OF rtranclp.rtrancl_refl _ _ _ _ this] show ?thesis
    by (simp add: snapshot_started_def loop_start_def start_handler_def Let_def result_of_def
        is_iceberg_request_def)
qed

theorem background_tasks_exclusive_witness:
  "in_flight MooncakeTask snapshot_started = 1 \<and> in_flight WalTask snapshot_started \<le> 1"
  using background_tasks_exclusive[OF snapshot_started_reachable]
  by (simp add: snapshot_started_def in_flight_def)


text \<open>The flag is set and the failed cycle's error has been handled.\<close>

definition wal_failed :: "(unit, unit, unit, unit) loop_system" where
  "wal_failed = \<lparr>sy_handler = \<lparr>th_table = (), th_state = idle_state\<lparr>wal_persist_ongoing := True\<rparr>,
     th_running = True\<rparr>, sy_queue = [], sy_tasks = {#}\<rparr>"

lemma wal_failed_reachable: "(loop_step unit_ops)\<^sup>*\<^sup>* (loop_start unit_ops ()) wal_failed"
proof -
  let ?e = "PeriodicalWalPersistenceUpdateResult (Inl ''disk full'') :: (unit, unit, unit) table_event"
  let ?h = "\<lparr>th_table = (), th_state = idle_state\<lparr>wal_persist_ongoing := True, sent := [StartTask WalTask]\<rparr>,
     th_running = True\<rparr>"
  let ?s = "\<lparr>sy_handler = ?h, sy_queue = [], sy_tasks = {#WalTask#}\<rparr>"
  have "handle_event unit_ops calm (PeriodicalPersistenceUpdateWal 0)
      (fresh_turn (sy_handler (loop_start unit_ops ()))) = Ok ?h"
    by (simp add: start_defs handle_event_def is_ingest_event_def on_periodical_wal_update_def send_def
        new_table_handler_state_def)
  from deliver_one[OF rtranclp.rtrancl_refl _ _ _ _ this]
  have 1: "(loop_step unit_ops)\<^sup>*\<^sup>* (loop_start unit_ops ()) ?s"
    by (simp add: loop_start_def start_handler_def Let_def result_of_def is_iceberg_request_def)
  have 2: "loop_step unit_ops ?s \<lparr>sy_handler = ?h, sy_queue = [?e], sy_tasks = {#}\<rparr>"
    using finish[of ?e WalTask ?s unit_ops] by (simp add: result_of_def)
  have "handle_event unit_ops calm ?e (fresh_turn ?h) = Ok (sy_handler wal_failed)"
    by (simp add: handle_event_def is_ingest_event_def on_wal_update_result_def fresh_turn_def on_state_def
        wal_failed_def new_table_handler_state_def)
  then have 3: "loop_step unit_ops \<lparr>sy_handler = ?h, sy_queue = [?e], sy_tasks = {#}\<rparr> wal_failed"
    using deliver[of "\<lparr>sy_handler = ?h, sy_queue = [?e], sy_tasks = {#}\<rparr>" ?e "[]" unit_ops calm "sy_handler wal_failed"]
    by (simp add: wal_failed_def new_table_handler_state_def)
  from 1 2 3 show ?thesis by (meson rtranclp.rtrancl_into_rtrancl)
qed


end
