(* ===== verification/Handler_Requests.thy ===== *)
theory Handler_Requests
  imports Handler_System
begin

text \<open>
  What clients of the event loop can rely on: events that arrive while the table is blocked
  are applied later in their order, events that are already persisted do not reach the
  table again, and a request for a snapshot is never forgotten.
\<close>

section \<open>Blocked and repeated events\<close>

definition with_buffer where
  "with_buffer es h = on_state (\<lambda>s. s\<lparr>initial_copy_buffered_events := es\<rparr>) h"

lemma blocked_fold:
  "is_in_blocking_state (th_state h) \<Longrightarrow>
   res_fold (process_cdc_table_event ops) h es =
     Ok (with_buffer (initial_copy_buffered_events (th_state h) @ es) h)"
proof (induction es arbitrary: h)
  case Nil
  then show ?case by (simp add: with_buffer_def on_state_def)
next
  case (Cons e es)
  let ?h = "on_state (\<lambda>s. s\<lparr>initial_copy_buffered_events := initial_copy_buffered_events s @ [e]\<rparr>) h"
  have "is_in_blocking_state (th_state ?h)" using Cons.prems by (simp add: on_state_def is_in_blocking_state_def)
  from Cons.IH[OF this] show ?case
    using Cons.prems by (simp add: process_cdc_table_event_def with_buffer_def on_state_def)
qed

text \<open>
  C29: no replicated event is lost or reordered by a blocking operation. Events \<open>es\<close> that
  arrive while the table is copied, altered or dropped only join the buffer, with no effect
  on the table; when the operation ends and the buffer is applied, the result is the one of
  processing all buffered events, in the order of their arrival, on the unblocked table.
\<close>

theorem blocked_events_in_order:
  assumes "is_in_blocking_state (th_state h)"
  shows "\<exists>h1. res_fold (process_cdc_table_event ops) h es = Ok h1 \<and> th_table h1 = th_table h
    \<and> process_blocked_events ops (on_state (\<lambda>s. s\<lparr>special_table_state := NormalState\<rparr>) h1) =
      res_fold (process_cdc_table_event ops)
        (with_buffer [] (on_state (\<lambda>s. s\<lparr>special_table_state := NormalState\<rparr>) h))
        (initial_copy_buffered_events (th_state h) @ es)"
  using blocked_fold[OF assms]
  by (simp add: with_buffer_def process_blocked_events_def on_state_def)

definition copying :: "(unit, unit, unit, unit) handler" where
  "copying = \<lparr>th_table = (), th_state = idle_state\<lparr>special_table_state := InitialCopyState\<rparr>,
     th_running = True\<rparr>"

theorem blocked_events_in_order_witness:
  "\<exists>h1. res_fold (process_cdc_table_event unit_ops) copying [Commit 3 None False, Commit 4 None False] = Ok h1
    \<and> res_fold (process_cdc_table_event unit_ops)
        (with_buffer [] (on_state (\<lambda>s. s\<lparr>special_table_state := NormalState\<rparr>) copying))
        [Commit 3 None False, Commit 4 None False] =
      process_blocked_events unit_ops (on_state (\<lambda>s. s\<lparr>special_table_state := NormalState\<rparr>) h1)"
  using blocked_events_in_order[of copying unit_ops "[Commit 3 None False, Commit 4 None False]"]
  by (auto simp: copying_def is_in_blocking_state_def new_table_handler_state_def)

text \<open>A streaming commit that is already persisted aborts the transaction.\<close>

lemma persisted_stream_commit_aborts:
  assumes "initial_persistence_lsn (th_state h) = Some initial" and "lsn \<le> initial"
  shows "commit_and_attempt_flush ops lsn (Some x) force h =
    res_bind (case last_unflushed_commit_lsn (th_state h) of
        Some l \<Rightarrow> res_bind (call_logged (t_flush ops l) h)
          (\<lambda>h. Ok (on_state (\<lambda>s. s\<lparr>last_unflushed_commit_lsn := None\<rparr>) h))
      | None \<Rightarrow> Ok h) (call (t_abort_in_stream_batch ops x))"
  using assms
  by (auto simp: commit_and_attempt_flush_def Let_def call_logged_def on_state_def res_bind_assoc
      case_prod_beta split: option.splits intro!: arg_cong2[where f = res_bind])

text \<open>
  nothing is applied twice after a restart. A row event or commit of the main
  transaction that is not a replayed one and whose LSN is at most the initial persistence
  LSN (what iceberg and the WAL held at start) leaves the table and the requests as they
  are, and neither fails nor sends anything.
\<close>

lemma persisted_events_discarded:
  assumes "special_table_state (th_state h) = NormalState"
    and "initial_persistence_lsn (th_state h) = Some initial"
    and "\<not> is_streaming_update e" and "is_recovery e = Ok False"
    and "get_lsn_for_ingest_event e = Some lsn" and "lsn \<le> initial"
  shows "\<exists>h'. process_cdc_table_event ops h e = Ok h' \<and> th_table h' = th_table h
    \<and> control h' = control h \<and> sent (th_state h') = sent (th_state h)"
proof -
  let ?h = "on_state (update_table_lsns e) h"
  have "initial_persistence_lsn (th_state ?h) = Some initial"
    using assms(2) by (cases e) (auto simp: on_state_def update_table_lsns_def Let_def)
  then have "should_discard_event (th_state ?h) e" using assms by (simp add: should_discard_event_def)
  then have run: "process_cdc_table_event ops h e = Ok ?h"
    using assms(1,4) by (simp add: process_cdc_table_event_def is_in_blocking_state_def Let_def)
  then show ?thesis using cdc_core[OF run] by (simp add: core_def Let_def on_state_def)
qed

lemma persisted_events_discarded_witness:
  "\<exists>h'. process_cdc_table_event unit_ops
      \<lparr>th_table = (), th_state = idle_state\<lparr>initial_persistence_lsn := Some 9\<rparr>, th_running = True\<rparr>
      (Commit 7 None False) = Ok h' \<and> th_table h' = ()"
  using persisted_events_discarded[of
      "\<lparr>th_table = (), th_state = idle_state\<lparr>initial_persistence_lsn := Some 9\<rparr>, th_running = True\<rparr>"
      9 "Commit 7 None False" 7 unit_ops]
  by (auto simp: new_table_handler_state_def is_streaming_update_def is_recovery_def
      get_lsn_for_ingest_event_def)

section \<open>Requests for a snapshot\<close>

abbreviation pending_request :: "('t, 'md, 'dsw, 'snap) handler \<Rightarrow> lsn option" where
  "pending_request h \<equiv> largest_force_snapshot_lsn (th_state h)"

definition answered :: "lsn \<Rightarrow> ('t, 'md, 'dsw, 'snap) handler \<Rightarrow> bool" where
  "answered r h \<longleftrightarrow> (\<exists>r'. r \<le> r' \<and> pending_request h = Some r') \<or>
     (\<exists>l. r \<le> l \<and> ForceSnapshotCompletion (Inr l) \<in> set (sent (th_state h))) \<or>
     (\<exists>err. ForceSnapshotCompletion (Inl err) \<in> set (sent (th_state h)))"

lemma core_pending: "core h' = core h \<Longrightarrow> pending_request h' = pending_request h"
  by (simp add: core_def Let_def)

lemmas call_pending = call_core[THEN core_pending] call_logged_core[THEN core_pending]
  blocked_core[THEN core_pending] cdc_core[THEN core_pending]

lemma drop_pending: "drop_table ops h = Ok h' \<Longrightarrow> pending_request h' = pending_request h"
  by (auto simp: drop_table_def on_state_def send_def)

lemma drop_if_pending: "drop_if_requested ops h = Ok h' \<Longrightarrow> pending_request h' = pending_request h"
  by (auto simp: drop_if_requested_def dest: drop_pending split: if_splits)

lemma evicted_pending [simp]: "pending_request (start_task_to_delete_evicted fs h) = pending_request h"
  by (simp add: start_task_to_delete_evicted_def on_state_def send_def)

lemma try_create_pending:
  "try_create_mooncake_snapshot ops opt h = Ok (b, h') \<Longrightarrow> pending_request h' = pending_request h"
  by (cases b) (auto simp: try_create_mooncake_snapshot_def Let_def on_state_def send_def)

lemma reset_pending:
  "try_state reset_iceberg_state_at_mooncake_snapshot h = Ok h' \<Longrightarrow> pending_request h' = pending_request h"
  by (auto simp: try_state_def reset_iceberg_state_at_mooncake_snapshot_def check_def split: if_splits)

lemma periodical_pending:
  assumes "on_periodical_mooncake_snapshot ops env u h = Ok h'"
  shows "pending_request h' = pending_request h"
proof -
  have s: "pending_request (on_state (\<lambda>s. s\<lparr>mooncake_snapshot_ongoing := b\<rparr>) h) = pending_request h" for b h
    by (simp add: on_state_def)
  have c: "pending_request h2 = pending_request h1" if "create_periodic_snapshot ops env u h1 = Ok h2" for h1 h2
    using that by (auto simp: create_periodic_snapshot_def s dest!: reset_pending try_create_pending)
  have f: "pending_request h2 = pending_request h1" if "create_force_snapshot ops env u h1 = Ok h2" for h1 h2
    using that by (auto simp: create_force_snapshot_def s check_def split: if_splits special_table_state.splits
        dest!: reset_pending try_create_pending call_pending)
  have l: "pending_request h2 = pending_request h1" if "flush_for_force_snapshot ops h1 = Ok h2" for h1 h2
    using that by (auto simp: flush_for_force_snapshot_def check_def on_state_def split: option.splits if_splits)
  show ?thesis
    using assms by (auto simp: on_periodical_mooncake_snapshot_def unwrap_def split: if_splits option.splits
        dest!: c f l)
qed

lemma maintenance_pending:
  assumes "attempt_maintenance ops env r h = Ok (took, h')"
  shows "pending_request h' = pending_request h"
proof -
  have d: "pending_request h2 = pending_request h1" if "attempt_data_compaction ops env r h1 = Ok (b, h2)" for h1 b h2
    using that by (auto simp: attempt_data_compaction_def Let_def call_def on_state_def send_def try_send_def
        split: option.splits if_splits)
  have i: "pending_request h2 = pending_request h1" if "attempt_index_merge ops env r h1 = Ok h2" for h1 h2
    using that by (auto simp: attempt_index_merge_def Let_def call_def on_state_def send_def try_send_def check_def
        split: option.splits if_splits)
  show ?thesis using assms by (auto simp: attempt_maintenance_def split: if_splits dest!: d i)
qed

lemma mooncake_result_pending:
  assumes "on_mooncake_snapshot_result ops env r h = Ok h'"
  shows "pending_request h' = pending_request h"
proof -
  have s: "pending_request (on_state (\<lambda>s. s\<lparr>mooncake_snapshot_ongoing := b\<rparr>) h) = pending_request h" for b h
    by (simp add: on_state_def)
  have n: "pending_request (initiate_iceberg_snapshot ops r h) = pending_request h" for h
    by (simp add: initiate_iceberg_snapshot_def on_state_def send_def split: option.splits)
  have u: "pending_request h2 = pending_request h1"
    if "(case take_payload (mso_data_compaction_payload r) of
      Some payload \<Rightarrow> call (t_unpin_referenced_compaction_payload ops payload) h1 | None \<Rightarrow> Ok h1) = Ok h2" for h1 h2
    using that by (auto split: option.splits dest!: call_pending)
  show ?thesis
    using assms unfolding on_mooncake_snapshot_result_def Let_def
    by (auto simp: s n split: if_splits dest!: u call_pending drop_pending maintenance_pending)
qed

lemma send_unwrap_pending: "try_state (send_unwrap b m) h = Ok h' \<Longrightarrow> pending_request h' = pending_request h"
  by (auto simp: try_state_def send_unwrap_def send_def split: if_splits)

lemma finish_copy_pending:
  assumes "on_finish_initial_copy ops env l h = Ok h'"
  shows "pending_request h' = pending_request h"
proof -
  have s: "pending_request (on_state (\<lambda>s. s\<lparr>mooncake_snapshot_ongoing := b\<rparr>) h) = pending_request h"
    "pending_request (on_state (\<lambda>s. s\<lparr>initial_persistence_lsn := x\<rparr>) h) = pending_request h" for b x h
    by (simp_all add: on_state_def)
  have f: "pending_request h2 = pending_request h1" if "try_state (finish_initial_copy l) h1 = Ok h2" for h1 h2
    using that by (auto simp: try_state_def finish_initial_copy_def check_def split: if_splits)
  show ?thesis
    using assms by (auto simp: on_finish_initial_copy_def s split: if_splits
        dest!: f call_pending try_create_pending)
qed

lemma iceberg_pending:
  assumes "on_regular_iceberg_snapshot ops p h = Ok h'"
  shows "pending_request h' = pending_request h"
proof -
  have s: "pending_request (on_state (\<lambda>s. s\<lparr>persistence_snapshot_ongoing := b\<rparr>) h) = pending_request h"
    "pending_request (on_state (\<lambda>s. s\<lparr>table_maintenance_process_status := x\<rparr>) h) = pending_request h"
    "pending_request (on_state (send m) h) = pending_request h" for b x m h
    by (simp_all add: on_state_def send_def)
  have a: "pending_request h2 = pending_request h1" if "complete_alter_table ops p h1 = Ok (p', h2)" for h1 h2 p'
    using that by (auto simp: complete_alter_table_def unwrap_def try_state_def finish_alter_table_def check_def
        Let_def on_state_def split: if_splits special_table_state.splits option.splits dest!: call_pending)
  show ?thesis
    using assms by (auto simp: on_regular_iceberg_snapshot_def Let_def s split: if_splits
        dest!: a call_pending)
qed

lemma compaction_result_pending:
  assumes "on_data_compaction_result ops env r h = Ok h'"
  shows "pending_request h' = pending_request h"
  using assms
  by (cases r) (auto simp: on_data_compaction_result_def try_state_def mark_data_compaction_completed_def Let_def
      send_unwrap_def send_def dest!: call_pending drop_if_pending split: if_splits)

lemma wal_result_pending:
  assumes "on_wal_update_result ops env r h = Ok h'"
  shows "pending_request h' = pending_request h"
proof (cases r)
  case (Inl e)
  then show ?thesis using assms by (simp add: on_wal_update_result_def)
next
  case (Inr res)
  have s: "pending_request (on_state (\<lambda>s. s\<lparr>wal_persist_ongoing := b\<rparr>) h) = pending_request h" for b h
    by (simp add: on_state_def)
  obtain highest t h1 where 1: "(case highest of
        Some lsn \<Rightarrow> try_state (send_unwrap (wal_flush_lsn_rx_open (env_rx env)) (WalFlushLsn lsn)) (h\<lparr>th_table := t\<rparr>)
      | None \<Rightarrow> Ok (h\<lparr>th_table := t\<rparr>)) = Ok h1"
    "drop_if_requested ops (on_state (\<lambda>s. s\<lparr>wal_persist_ongoing := False\<rparr>) h1) = Ok h'"
    using assms Inr by (auto simp: on_wal_update_result_def Let_def)
  have "pending_request h1 = pending_request h"
    using 1(1) by (cases highest) (auto dest!: send_unwrap_pending)
  then show ?thesis using drop_if_pending[OF 1(2)] by (simp add: s)
qed

lemma answered_kept: "pending_request h' = pending_request h \<Longrightarrow> pending_request h = Some r \<Longrightarrow> answered r h'"
  by (auto simp: answered_def)

lemma drop_if_answered:
  assumes "drop_if_requested ops h = Ok h'" and "answered r h"
  shows "answered r h'"
proof -
  have "set (sent (th_state h)) \<subseteq> set (sent (th_state h'))"
    using assms(1) by (auto simp: drop_if_requested_def drop_table_def on_state_def send_def split: if_splits)
  then show ?thesis using assms(2) drop_if_pending[OF assms(1)] unfolding answered_def by auto
qed

lemma success_answered:
  assumes "on_persistence_snapshot_success ops env res h = Ok h'" and "pending_request h = Some r"
    and "force_snapshot_rx_open (env_rx env)"
  shows "answered r h'"
proof -
  let ?rx = "env_rx env"
  obtain h1 m h3 h4 where 1: "call (t_record_iceberg_snapshot_completion ops res) h = Ok h1"
    and 3: "try_state (send_unwrap (flush_lsn_rx_open ?rx) (FlushLsn (psr_flush_lsn res)))
      (if m then on_state (\<lambda>s. try_send (maintenance_subscribed ?rx) (MaintenanceCompletion (Inr ()))
         (s\<lparr>table_maintenance_process_status := ProcessUnrequested\<rparr>))
           (start_task_to_delete_evicted (psr_evicted_files_to_delete res) h1)
       else start_task_to_delete_evicted (psr_evicted_files_to_delete res) h1) = Ok h3"
    and 4: "call (t_set_persistence_snapshot_res ops res) h3 = Ok h4"
    and 5: "try_state (update_iceberg_persisted_lsn ?rx (psr_flush_lsn res) (replication_lsn env))
      (on_state (\<lambda>s. s\<lparr>persistence_snapshot_result_consumed := False\<rparr>) h4) = Ok h'"
    using assms(1) unfolding on_persistence_snapshot_success_def Let_def res_bind_eq_Ok by blast
  have s: "pending_request (on_state (\<lambda>s. try_send b m (s\<lparr>table_maintenance_process_status := x\<rparr>)) h) =
      pending_request h" for b m x h
    by (simp add: on_state_def try_send_def send_def)
  have "pending_request h4 = Some r"
    using call_pending(1)[OF 1] send_unwrap_pending[OF 3] call_pending(1)[OF 4] assms(2)
    by (simp add: s split: if_splits)
  then show ?thesis
    using 5 assms(3)
    by (auto simp: try_state_def update_iceberg_persisted_lsn_def notify_persisted_table_lsn_def Let_def
        try_send_def send_def on_state_def answered_def split: if_splits)
qed

text \<open>
  C8: a requested snapshot is never forgotten. If the largest pending request asks for LSN
  \<open>r\<close> and the requesters still listen, then after any event a request for at least \<open>r\<close> is
  still pending, or the requesters have been told that everything up to at least \<open>r\<close> is
  persisted, or they have been told of an error.
\<close>

theorem snapshot_request_answered:
  assumes "handle_event ops env e h = Ok h'" and "pending_request h = Some r"
    and "force_snapshot_rx_open (env_rx env)"
  shows "answered r h'"
proof (cases e)
  case (PersistenceSnapshotResult result)
  define h1 where "h1 = on_state (\<lambda>s. s\<lparr>persistence_snapshot_ongoing := False\<rparr>) h"
  have p: "pending_request h1 = Some r" using assms(2) by (simp add: h1_def on_state_def)
  obtain h2 where h2: "(case result of Inr res \<Rightarrow> on_persistence_snapshot_success ops env res h1
      | Inl err \<Rightarrow> Ok (on_persistence_snapshot_failure env err h1)) = Ok h2" "drop_if_requested ops h2 = Ok h'"
    using assms(1) PersistenceSnapshotResult
    unfolding handle_event_def on_persistence_snapshot_result_def h1_def Let_def
    by (auto simp: is_ingest_event_def)
  have "answered r h2"
  proof (cases result)
    case (Inl err)
    then show ?thesis
      using h2(1) p assms(3)
      by (auto simp: on_persistence_snapshot_failure_def has_pending_force_snapshot_request_def Let_def
          answered_def on_state_def try_send_def send_def)
  next
    case (Inr res)
    then show ?thesis using h2(1) success_answered[OF _ p assms(3)] by simp
  qed
  then show ?thesis by (rule drop_if_answered[OF h2(2)])
next
  case (ForceSnapshot l)
  then show ?thesis
    using assms by (auto simp: handle_event_def is_ingest_event_def on_force_snapshot_def Let_def
        notify_persisted_table_lsn_def try_state_def send_unwrap_def on_state_def try_send_def send_def answered_def
        split: option.splits if_splits)
next
  case (AlterTable cols)
  then show ?thesis
    using assms by (auto simp: handle_event_def is_ingest_event_def try_state_def start_alter_table_def check_def
        Let_def answered_def split: if_splits)
next
  case (Append a b c d)
  then have "pending_request h' = pending_request h"
    using assms(1) by (auto simp: handle_event_def is_ingest_event_def dest!: call_pending)
  then show ?thesis using assms(2) by (rule answered_kept)
next
  case (Delete a b c d f)
  then have "pending_request h' = pending_request h"
    using assms(1) by (auto simp: handle_event_def is_ingest_event_def dest!: call_pending)
  then show ?thesis using assms(2) by (rule answered_kept)
next
  case (Commit a b c)
  then have "pending_request h' = pending_request h"
    using assms(1) by (auto simp: handle_event_def is_ingest_event_def dest!: call_pending)
  then show ?thesis using assms(2) by (rule answered_kept)
next
  case (StreamAbort a b c)
  then have "pending_request h' = pending_request h"
    using assms(1) by (auto simp: handle_event_def is_ingest_event_def dest!: call_pending)
  then show ?thesis using assms(2) by (rule answered_kept)
next
  case (FlushResult a b c)
  then have "pending_request h' = pending_request h"
    using assms(1) by (auto simp: handle_event_def is_ingest_event_def on_flush_result_def Let_def
        dest!: call_pending split: option.splits sum.splits if_splits)
  then show ?thesis using assms(2) by (rule answered_kept)
next
  case (LoadFiles a b c)
  then have "pending_request h' = pending_request h"
    using assms(1) by (auto simp: handle_event_def is_ingest_event_def dest!: call_pending)
  then show ?thesis using assms(2) by (rule answered_kept)
next
  case (CommitFlush a b c)
  then have "pending_request h' = pending_request h"
    using assms(1) by (auto simp: handle_event_def is_ingest_event_def )
  then show ?thesis using assms(2) by (rule answered_kept)
next
  case (StreamFlush a b)
  then have "pending_request h' = pending_request h"
    using assms(1) by (auto simp: handle_event_def is_ingest_event_def )
  then show ?thesis using assms(2) by (rule answered_kept)
next
  case ForceRegularIndexMerge
  then have "pending_request h' = pending_request h"
    using assms(1) by (auto simp: handle_event_def is_ingest_event_def on_force_regular_index_merge_def check_def on_state_def
        try_send_def send_def split: if_splits)
  then show ?thesis using assms(2) by (rule answered_kept)
next
  case ForceRegularDataCompaction
  then have "pending_request h' = pending_request h"
    using assms(1) by (auto simp: handle_event_def is_ingest_event_def on_force_regular_data_compaction_def check_def
        on_state_def try_send_def send_def split: if_splits)
  then show ?thesis using assms(2) by (rule answered_kept)
next
  case ForceFullMaintenance
  then have "pending_request h' = pending_request h"
    using assms(1) by (auto simp: handle_event_def is_ingest_event_def on_force_full_maintenance_def check_def on_state_def
        try_send_def send_def split: if_splits)
  then show ?thesis using assms(2) by (rule answered_kept)
next
  case StartInitialCopy
  then have "pending_request h' = pending_request h"
    using assms(1) by (auto simp: handle_event_def is_ingest_event_def try_state_def start_initial_copy_def check_def split: if_splits)
  then show ?thesis using assms(2) by (rule answered_kept)
next
  case (EvictedFilesToDelete a)
  then have "pending_request h' = pending_request h"
    using assms(1) by (auto simp: handle_event_def is_ingest_event_def )
  then show ?thesis using assms(2) by (rule answered_kept)
next
  case (PeriodicalPersistenceUpdateWal a)
  then have "pending_request h' = pending_request h"
    using assms(1) by (auto simp: handle_event_def is_ingest_event_def on_periodical_wal_update_def Let_def on_state_def
        send_def split: if_splits)
  then show ?thesis using assms(2) by (rule answered_kept)
next
  case (FinishRecovery a)
  then have "pending_request h' = pending_request h"
    using assms(1) by (auto simp: handle_event_def is_ingest_event_def dest!: send_unwrap_pending)
  then show ?thesis using assms(2) by (rule answered_kept)
next
  case DropTable
  then have "pending_request h' = pending_request h"
    using assms(1) by (auto simp: handle_event_def is_ingest_event_def on_drop_table_def try_state_def mark_drop_table_def check_def
        dest: drop_pending split: if_splits)
  then show ?thesis using assms(2) by (rule answered_kept)
next
  case (FinishInitialCopy a)
  then have "pending_request h' = pending_request h"
    using assms(1) by (auto simp: handle_event_def is_ingest_event_def dest: finish_copy_pending)
  then show ?thesis using assms(2) by (rule answered_kept)
next
  case (PeriodicalMooncakeTableSnapshot a)
  then have "pending_request h' = pending_request h"
    using assms(1) by (auto simp: handle_event_def is_ingest_event_def dest: periodical_pending)
  then show ?thesis using assms(2) by (rule answered_kept)
next
  case (RegularIcebergSnapshot a)
  then have "pending_request h' = pending_request h"
    using assms(1) by (auto simp: handle_event_def is_ingest_event_def dest: iceberg_pending)
  then show ?thesis using assms(2) by (rule answered_kept)
next
  case (MooncakeTableSnapshotResult a)
  then have "pending_request h' = pending_request h"
    using assms(1) by (auto simp: handle_event_def is_ingest_event_def dest: mooncake_result_pending)
  then show ?thesis using assms(2) by (rule answered_kept)
next
  case (IndexMergeResult a)
  then have "pending_request h' = pending_request h"
    using assms(1) by (auto simp: handle_event_def is_ingest_event_def on_index_merge_result_def try_state_def
        mark_index_merge_completed_def check_def dest!: call_pending drop_if_pending split: if_splits sum.splits)
  then show ?thesis using assms(2) by (rule answered_kept)
next
  case (DataCompactionResult a)
  then have "pending_request h' = pending_request h"
    using assms(1) by (auto simp: handle_event_def is_ingest_event_def dest: compaction_result_pending)
  then show ?thesis using assms(2) by (rule answered_kept)
next
  case (PeriodicalWalPersistenceUpdateResult a)
  then have "pending_request h' = pending_request h"
    using assms(1) by (auto simp: handle_event_def is_ingest_event_def dest: wal_result_pending)
  then show ?thesis using assms(2) by (rule answered_kept)
qed

theorem snapshot_request_answered_witness:
  "\<exists>h'. handle_event unit_ops calm (ForceSnapshot (Some 4))
      \<lparr>th_table = (), th_state = idle_state\<lparr>largest_force_snapshot_lsn := Some 7\<rparr>, th_running = True\<rparr> = Ok h'
    \<and> answered 7 h'"
proof -
  let ?h = "\<lparr>th_table = (), th_state = idle_state\<lparr>largest_force_snapshot_lsn := Some 7\<rparr>, th_running = True\<rparr>"
  have "handle_event unit_ops calm (ForceSnapshot (Some 4)) ?h = Ok ?h"
    by (simp add: handle_event_def is_ingest_event_def on_force_snapshot_def get_persisted_table_lsn_def
        new_table_handler_state_def unit_ops_def calm_def on_state_def)
  with snapshot_request_answered[OF this, of 7] show ?thesis by (simp add: calm_def)
qed

section \<open>A failed compaction nobody listens for\<close>

text \<open>
  The error of a data compaction that the table started by itself ends the event loop.
  The error is broadcast with a send that is unwrapped, and a broadcast without subscribers
  fails; the success path and the other maintenance notifications ignore that failure.
\<close>

lemma failed_compaction_panics:
  assumes "\<not> maintenance_subscribed (env_rx env)"
  shows "handle_event ops env (DataCompactionResult (Inl err)) h = Panic UnwrapErr"
  using assms
  by (simp add: handle_event_def is_ingest_event_def on_data_compaction_result_def try_state_def
      mark_data_compaction_completed_def send_unwrap_def)

lemma failed_compaction_panics_witness:
  "handle_event unit_ops calm (DataCompactionResult (Inl ''out of memory''))
     \<lparr>th_table = (), th_state = idle_state\<lparr>table_maintenance_process_status := InProcess\<rparr>, th_running = True\<rparr>
   = Panic UnwrapErr"
  by (rule failed_compaction_panics) (simp add: calm_def)

end
