(* ===== verification/Table_Metadata.thy ===== *)
theory Table_Metadata
  imports Prelude "HOL-Library.Product_Lexorder"
begin

text \<open>
  The metadata of a read (\<^verbatim>\<open>moonlink_table_metadata/src/table_metadata.rs\<close>): the files,
  deletion vectors and positional deletes a query engine receives as one byte string, with
  the hand-written encoder and decoder. \<open>le\<close> says whether the machine is little endian; both
  sides run on the same machine. A Rust \<^verbatim>\<open>String\<close> is the list of its bytes, and
  \<open>valid_utf8\<close> is what the type guarantees of it.
\<close>

section \<open>Strings and machine words as bytes\<close>

unbundle bit_operations_syntax

definition cont_byte :: "u8 \<Rightarrow> bool" where
  "cont_byte b = (0x80 \<le> b \<and> b \<le> 0xBF)"

text \<open>The bytes that may follow the first byte of a three- or four-byte character.\<close>

definition second_of_three :: "u8 \<Rightarrow> u8 \<Rightarrow> bool" where
  "second_of_three a b =
     (if a = 0xE0 then 0xA0 \<le> b \<and> b \<le> 0xBF
      else if a = 0xED then 0x80 \<le> b \<and> b \<le> 0x9F
      else cont_byte b)"

definition second_of_four :: "u8 \<Rightarrow> u8 \<Rightarrow> bool" where
  "second_of_four a b =
     (if a = 0xF0 then 0x90 \<le> b \<and> b \<le> 0xBF
      else if a = 0xF4 then 0x80 \<le> b \<and> b \<le> 0x8F
      else cont_byte b)"

fun valid_utf8 :: "u8 list \<Rightarrow> bool" where
  "valid_utf8 [] = True"
| "valid_utf8 (a # bs) =
     (if a < 0x80 then valid_utf8 bs
      else if 0xC2 \<le> a \<and> a \<le> 0xDF then
        (case bs of b # cs \<Rightarrow> cont_byte b \<and> valid_utf8 cs | [] \<Rightarrow> False)
      else if 0xE0 \<le> a \<and> a \<le> 0xEF then
        (case bs of b # c # cs \<Rightarrow> second_of_three a b \<and> cont_byte c \<and> valid_utf8 cs | _ \<Rightarrow> False)
      else if 0xF0 \<le> a \<and> a \<le> 0xF4 then
        (case bs of b # c # d # cs \<Rightarrow>
           second_of_four a b \<and> cont_byte c \<and> cont_byte d \<and> valid_utf8 cs | _ \<Rightarrow> False)
      else False)"

definition as_bytes :: "string \<Rightarrow> u8 list" where
  "as_bytes s = map (\<lambda>c. of_nat (of_char c)) s"

definition from_utf8 :: "u8 list \<Rightarrow> string option" where
  "from_utf8 bs = (if valid_utf8 bs then Some (map (\<lambda>b. char_of (unat b)) bs) else None)"

definition to_ne_bytes :: "bool \<Rightarrow> u32 \<Rightarrow> u8 list" where
  "to_ne_bytes le v =
     (let bs = map (\<lambda>i. ucast (drop_bit (8 * i) v)) [0, 1, 2, 3] in if le then bs else rev bs)"

definition from_ne_bytes :: "bool \<Rightarrow> u8 list \<Rightarrow> u32" where
  "from_ne_bytes le bs =
     (case if le then bs else rev bs of
        [a, b, c, d] \<Rightarrow>
          ucast a OR push_bit 8 (ucast b) OR push_bit 16 (ucast c) OR push_bit 24 (ucast d)
      | _ \<Rightarrow> 0)"

section \<open>The metadata\<close>

record deletion_vector_blob =
  dv_data_file_number :: u32
  puffin_file_number :: u32
  blob_offset :: u32
  blob_length :: u32

record position_delete =
  pd_data_file_number :: u32
  data_file_row_number :: u32

record mooncake_table_metadata =
  md_data_files :: "string list"
  md_puffin_files :: "string list"
  md_deletion_vectors :: "deletion_vector_blob list"
  md_position_deletes :: "position_delete list"

datatype encode_error = OutOfRange
datatype decode_error = UnexpectedEnd

section \<open>Encoding\<close>

definition write_u32 :: "bool \<Rightarrow> u32 \<Rightarrow> u8 list" where
  "write_u32 le v = to_ne_bytes le v"

definition write_usize :: "bool \<Rightarrow> nat \<Rightarrow> (encode_error + u8 list) res" where
  "write_usize le n = Ok (if n < 2 ^ 32 then Inr (write_u32 le (of_nat n)) else Inl OutOfRange)"

definition saturating_add :: "nat \<Rightarrow> nat \<Rightarrow> nat" where
  "saturating_add a b = min (a + b) (2 ^ 64 - 1)"

text \<open>The loop that writes where each path starts, and the end of the last one.\<close>

fun write_offsets :: "bool \<Rightarrow> nat \<Rightarrow> string list \<Rightarrow> (encode_error + u8 list) res" where
  "write_offsets le offset [] = write_usize le offset"
| "write_offsets le offset (f # fs) =
     try_bind (write_usize le offset) (\<lambda>a.
     try_bind (write_offsets le (saturating_add offset (length f)) fs) (\<lambda>b. Ok (Inr (a @ b))))"

fun write_deletion_vectors ::
  "bool \<Rightarrow> u32 \<Rightarrow> deletion_vector_blob list \<Rightarrow> (encode_error + u8 list) res" where
  "write_deletion_vectors le prev [] = Ok (Inr [])"
| "write_deletion_vectors le prev (dv # dvs) =
     check (prev \<le> dv_data_file_number dv) AssertFailed (
     try_bind (write_deletion_vectors le (dv_data_file_number dv) dvs) (\<lambda>b.
     Ok (Inr (write_u32 le (dv_data_file_number dv) @ write_u32 le (puffin_file_number dv)
       @ write_u32 le (blob_offset dv) @ write_u32 le (blob_length dv) @ b))))"

fun write_position_deletes ::
  "bool \<Rightarrow> u32 \<Rightarrow> position_delete list \<Rightarrow> (encode_error + u8 list) res" where
  "write_position_deletes le prev [] = Ok (Inr [])"
| "write_position_deletes le prev (pd # pds) =
     check (prev \<le> pd_data_file_number pd) AssertFailed (
     try_bind (write_position_deletes le (pd_data_file_number pd) pds) (\<lambda>b.
     Ok (Inr (write_u32 le (pd_data_file_number pd) @ write_u32 le (data_file_row_number pd) @ b))))"

definition encode :: "bool \<Rightarrow> mooncake_table_metadata \<Rightarrow> (encode_error + u8 list) res" where
  "encode le m =
     try_bind (write_usize le (length (md_data_files m))) (\<lambda>data_len.
     try_bind (write_offsets le 0 (md_data_files m)) (\<lambda>data_offsets.
     try_bind (write_usize le (length (md_puffin_files m))) (\<lambda>puffin_len.
     try_bind (write_offsets le 0 (md_puffin_files m)) (\<lambda>puffin_offsets.
     try_bind (write_usize le (length (md_deletion_vectors m))) (\<lambda>dv_len.
     try_bind (write_deletion_vectors le 0 (md_deletion_vectors m)) (\<lambda>dvs.
     try_bind (write_usize le (length (md_position_deletes m))) (\<lambda>pd_len.
     try_bind (write_position_deletes le 0 (md_position_deletes m)) (\<lambda>pds.
     Ok (Inr (data_len @ data_offsets @ puffin_len @ puffin_offsets @ dv_len @ dvs @ pd_len @ pds
       @ concat (map as_bytes (md_data_files m)) @ concat (map as_bytes (md_puffin_files m))))))))))))"

section \<open>Decoding\<close>

definition read_bytes :: "nat \<Rightarrow> u8 list \<Rightarrow> (decode_error + (u8 list \<times> u8 list)) res" where
  "read_bytes n bs =
     Ok (if n \<le> length bs then Inr (take n bs, drop n bs) else Inl UnexpectedEnd)"

definition read_u32 :: "bool \<Rightarrow> u8 list \<Rightarrow> (decode_error + (u32 \<times> u8 list)) res" where
  "read_u32 le bs = try_bind (read_bytes 4 bs) (\<lambda>(b, rest). Ok (Inr (from_ne_bytes le b, rest)))"

definition read_usize :: "bool \<Rightarrow> u8 list \<Rightarrow> (decode_error + (nat \<times> u8 list)) res" where
  "read_usize le bs = try_bind (read_u32 le bs) (\<lambda>(v, rest). Ok (Inr (unat v, rest)))"

fun read_many ::
  "(u8 list \<Rightarrow> (decode_error + ('a \<times> u8 list)) res) \<Rightarrow> nat \<Rightarrow> u8 list
   \<Rightarrow> (decode_error + ('a list \<times> u8 list)) res" where
  "read_many rd 0 bs = Ok (Inr ([], bs))"
| "read_many rd (Suc n) bs =
     try_bind (rd bs) (\<lambda>(x, bs). try_bind (read_many rd n bs) (\<lambda>(xs, bs). Ok (Inr (x # xs, bs))))"

definition read_deletion_vector ::
  "bool \<Rightarrow> u8 list \<Rightarrow> (decode_error + (deletion_vector_blob \<times> u8 list)) res" where
  "read_deletion_vector le bs =
     try_bind (read_u32 le bs) (\<lambda>(d, bs).
     try_bind (read_u32 le bs) (\<lambda>(p, bs).
     try_bind (read_u32 le bs) (\<lambda>(ofs, bs).
     try_bind (read_u32 le bs) (\<lambda>(sz, bs).
     Ok (Inr (\<lparr>dv_data_file_number = d, puffin_file_number = p, blob_offset = ofs,
       blob_length = sz\<rparr>, bs))))))"

definition read_position_delete ::
  "bool \<Rightarrow> u8 list \<Rightarrow> (decode_error + (position_delete \<times> u8 list)) res" where
  "read_position_delete le bs =
     try_bind (read_u32 le bs) (\<lambda>(d, bs).
     try_bind (read_u32 le bs) (\<lambda>(r, bs).
     Ok (Inr (\<lparr>pd_data_file_number = d, data_file_row_number = r\<rparr>, bs))))"

text \<open>
  The loop over consecutive offsets that reads one path after the other: the difference of
  two offsets may underflow and the bytes may be no text, both of which panic.
\<close>

fun read_paths :: "nat list \<Rightarrow> u8 list \<Rightarrow> (decode_error + (string list \<times> u8 list)) res" where
  "read_paths (a # b # offsets) bs =
     res_bind (sub_checked b a) (\<lambda>len.
     try_bind (read_bytes len bs) (\<lambda>(path, bs).
     unwrap (from_utf8 path) (\<lambda>f.
     try_bind (read_paths (b # offsets) bs) (\<lambda>(fs, bs). Ok (Inr (f # fs, bs))))))"
| "read_paths offsets bs = Ok (Inr ([], bs))"

definition decode ::
  "bool \<Rightarrow> u8 list \<Rightarrow> (decode_error + (mooncake_table_metadata \<times> u8 list)) res" where
  "decode le bs =
     try_bind (read_usize le bs) (\<lambda>(data_files_len, bs).
     try_bind (read_many (read_usize le) (Suc data_files_len) bs) (\<lambda>(data_file_offsets, bs).
     try_bind (read_usize le bs) (\<lambda>(puffin_files_len, bs).
     try_bind (read_many (read_usize le) (Suc puffin_files_len) bs) (\<lambda>(puffin_file_offsets, bs).
     try_bind (read_usize le bs) (\<lambda>(deletion_vectors_len, bs).
     try_bind (read_many (read_deletion_vector le) deletion_vectors_len bs) (\<lambda>(dvs, bs).
     try_bind (read_usize le bs) (\<lambda>(position_deletes_len, bs).
     try_bind (read_many (read_position_delete le) position_deletes_len bs) (\<lambda>(pds, bs).
     try_bind (read_paths data_file_offsets bs) (\<lambda>(data_files, bs).
     try_bind (read_paths puffin_file_offsets bs) (\<lambda>(puffin_files, bs).
     Ok (Inr (\<lparr>md_data_files = data_files, md_puffin_files = puffin_files,
       md_deletion_vectors = dvs, md_position_deletes = pds\<rparr>, bs))))))))))))"

section \<open>Bytes of words and of strings\<close>

lemma length_ne_bytes [simp]: "length (to_ne_bytes le v) = 4"
  by (simp add: to_ne_bytes_def Let_def)

lemma from_to_ne_bytes [simp]: "from_ne_bytes le (to_ne_bytes le v) = v"
proof -
  let ?b = "\<lambda>i. ucast (ucast (drop_bit i v) :: u8) :: u32"
  have "?b 0 OR push_bit 8 (?b 8) OR push_bit 16 (?b 16) OR push_bit 24 (?b 24) = v"
  proof (rule bit_word_eqI)
    fix n assume "n < LENGTH(32)"
    then show "bit (?b 0 OR push_bit 8 (?b 8) OR push_bit 16 (?b 16) OR push_bit 24 (?b 24)) n = bit v n"
      by (cases "n < 24"; cases "n < 16") (auto simp: bit_simps)
  qed
  then show ?thesis by (simp add: from_ne_bytes_def to_ne_bytes_def Let_def)
qed

lemma read_u32_write [simp]: "read_u32 le (write_u32 le v @ bs) = Ok (Inr (v, bs))"
  by (simp add: read_u32_def read_bytes_def write_u32_def)

lemma write_usize_Inr [simp]:
  "write_usize le n = Ok (Inr bs) \<longleftrightarrow> n < 2 ^ 32 \<and> bs = write_u32 le (of_nat n)"
  by (auto simp: write_usize_def)

lemma read_usize_write [simp]:
  "n < 2 ^ 32 \<Longrightarrow> read_usize le (write_u32 le (of_nat n) @ bs) = Ok (Inr (n, bs))"
  by (simp add: read_usize_def unat_of_nat)

lemma string_of_bytes: "map (\<lambda>b. char_of (unat b)) (as_bytes s) = s"
proof -
  have "char_of (unat (of_nat (of_char c) :: u8)) = c" for c
    by (simp add: unat_of_nat of_char_mod_256)
  then show ?thesis by (simp add: as_bytes_def comp_def)
qed

lemma length_as_bytes [simp]: "length (as_bytes s) = length s"
  by (simp add: as_bytes_def)

section \<open>Decoding what was encoded\<close>

text \<open>Where paths of these lengths start, and where the last one ends.\<close>

fun offsets_from :: "nat \<Rightarrow> string list \<Rightarrow> nat list" where
  "offsets_from off [] = [off]"
| "offsets_from off (f # fs) = off # offsets_from (off + length f) fs"

lemma offsets_from_Cons: "\<exists>os. offsets_from off fs = off # os"
  by (cases fs) auto

lemma write_offsets_bound:
  "write_offsets le off fs = Ok (Inr bs) \<Longrightarrow> off + sum_list (map length fs) < 2 ^ 32"
proof (induction fs arbitrary: off bs)
  case (Cons f fs)
  then obtain b where b: "write_offsets le (saturating_add off (length f)) fs = Ok (Inr b)"
    by auto
  have "saturating_add off (length f) + sum_list (map length fs) < 2 ^ 32"
    using Cons.IH[OF b] .
  then show ?case by (auto simp: saturating_add_def min_def split: if_splits)
qed simp

lemma read_write_offsets:
  "write_offsets le off fs = Ok (Inr bs) \<Longrightarrow>
   read_many (read_usize le) (Suc (length fs)) (bs @ rest) = Ok (Inr (offsets_from off fs, rest))"
proof (induction fs arbitrary: off bs)
  case (Cons f fs)
  obtain b where b: "write_offsets le (saturating_add off (length f)) fs = Ok (Inr b)"
    "off < 2 ^ 32" "bs = write_u32 le (of_nat off) @ b"
    using Cons.prems by auto
  have "saturating_add off (length f) = off + length f"
    using write_offsets_bound[OF Cons.prems] by (simp add: saturating_add_def)
  with Cons.IH[OF b(1)] b(2,3) show ?case by simp
qed simp

lemma read_write_deletion_vectors:
  "write_deletion_vectors le prev dvs = Ok (Inr bs) \<Longrightarrow>
   read_many (read_deletion_vector le) (length dvs) (bs @ rest) = Ok (Inr (dvs, rest))"
  by (induction dvs arbitrary: prev bs) (auto simp: read_deletion_vector_def)

lemma read_write_position_deletes:
  "write_position_deletes le prev pds = Ok (Inr bs) \<Longrightarrow>
   read_many (read_position_delete le) (length pds) (bs @ rest) = Ok (Inr (pds, rest))"
  by (induction pds arbitrary: prev bs) (auto simp: read_position_delete_def)

lemma read_write_paths:
  "\<forall>f\<in>set fs. valid_utf8 (as_bytes f) \<Longrightarrow>
   read_paths (offsets_from off fs) (concat (map as_bytes fs) @ rest) = Ok (Inr (fs, rest))"
proof (induction fs arbitrary: off)
  case (Cons f fs)
  obtain os where os: "offsets_from (off + length f) fs = (off + length f) # os"
    using offsets_from_Cons by blast
  have "read_paths ((off + length f) # os) (concat (map as_bytes fs) @ rest) = Ok (Inr (fs, rest))"
    using Cons by (simp flip: os)
  moreover have "sub_checked (off + length f) off = Ok (length f)" by simp
  moreover have "read_bytes (length f) (as_bytes f @ bs) = Ok (Inr (as_bytes f, bs))" for bs
    by (simp add: read_bytes_def)
  moreover have "from_utf8 (as_bytes f) = Some f"
    using Cons.prems by (simp add: from_utf8_def string_of_bytes)
  ultimately show ?case by (simp add: os)
qed simp

definition rust_strings :: "mooncake_table_metadata \<Rightarrow> bool" where
  "rust_strings m = (\<forall>f \<in> set (md_data_files m) \<union> set (md_puffin_files m). valid_utf8 (as_bytes f))"

lemma metadata_decodes:
  assumes "encode le m = Ok (Inr bs)" and "rust_strings m"
  shows "decode le (bs @ rest) = Ok (Inr (m, rest))"
proof -
  from assms(1) obtain os qs dvs pds where parts:
    "write_offsets le 0 (md_data_files m) = Ok (Inr os)"
    "write_offsets le 0 (md_puffin_files m) = Ok (Inr qs)"
    "write_deletion_vectors le 0 (md_deletion_vectors m) = Ok (Inr dvs)"
    "write_position_deletes le 0 (md_position_deletes m) = Ok (Inr pds)"
    "length (md_data_files m) < 2 ^ 32" "length (md_puffin_files m) < 2 ^ 32"
    "length (md_deletion_vectors m) < 2 ^ 32" "length (md_position_deletes m) < 2 ^ 32"
    and bs: "bs = write_u32 le (of_nat (length (md_data_files m))) @ os
      @ write_u32 le (of_nat (length (md_puffin_files m))) @ qs
      @ write_u32 le (of_nat (length (md_deletion_vectors m))) @ dvs
      @ write_u32 le (of_nat (length (md_position_deletes m))) @ pds
      @ concat (map as_bytes (md_data_files m)) @ concat (map as_bytes (md_puffin_files m))"
    by (auto simp: encode_def)
  note reads = read_write_offsets[OF parts(1)] read_write_offsets[OF parts(2)]
    read_write_deletion_vectors[OF parts(3)] read_write_position_deletes[OF parts(4)]
  have paths: "read_paths (offsets_from 0 fs) (concat (map as_bytes fs) @ r) = Ok (Inr (fs, r))"
    if "fs = md_data_files m \<or> fs = md_puffin_files m" for fs r
    by (rule read_write_paths) (use assms(2) that in \<open>auto simp: rust_strings_def\<close>)
  show ?thesis
    unfolding decode_def bs append_assoc
    by (simp only: read_usize_write[OF parts(5)] read_usize_write[OF parts(6)]
        read_usize_write[OF parts(7)] read_usize_write[OF parts(8)] reads paths try_bind_Ok
        prod.case simp_thms mooncake_table_metadata.surjective[symmetric])
      simp
qed

text \<open>
  C24: what a query engine decodes is what the reader encoded, on either byte order. If
  encoding succeeds, decoding the bytes (whatever follows them) gives back all four lists of
  the metadata and consumes exactly the encoding.
\<close>

theorem metadata_roundtrip:
  assumes "encode le m = Ok (Inr bs)" and "rust_strings m"
  shows "decode le (bs @ rest) = Ok (Inr (m, rest))"
  using assms by (rule metadata_decodes)

definition sample_metadata :: mooncake_table_metadata where
  "sample_metadata = \<lparr>md_data_files = [''a'', ''bc''], md_puffin_files = [''p''],
     md_deletion_vectors = [\<lparr>dv_data_file_number = 0, puffin_file_number = 0, blob_offset = 4, blob_length = 10\<rparr>],
     md_position_deletes = [\<lparr>pd_data_file_number = 1, data_file_row_number = 2\<rparr>]\<rparr>"

theorem metadata_roundtrip_witness:
  "\<exists>bs. encode True sample_metadata = Ok (Inr bs) \<and> decode True (bs @ [7]) = Ok (Inr (sample_metadata, [7]))"
proof -
  obtain bs where bs: "encode True sample_metadata = Ok (Inr bs)"
    by (simp add: encode_def sample_metadata_def write_usize_def saturating_add_def)
  have "rust_strings sample_metadata" by (simp add: rust_strings_def sample_metadata_def as_bytes_def)
  then show ?thesis using metadata_roundtrip[OF bs] bs by blast
qed

end
