(* ===== verification/Read_State.thy ===== *)
theory Read_State
  imports Table_Metadata Object_Cache
begin

text \<open>
  What a query receives: the read state (\<^verbatim>\<open>union_read/read_state.rs\<close>) and its construction
  from a read output of the table snapshot
  (\<^verbatim>\<open>storage/mooncake_table/snapshot_read_output.rs\<close>), which resolves every remote file
  through the object storage cache. The remote files are fetched concurrently and their
  results arrive in an order the scheduler chooses: \<open>order\<close> is that order, a permutation of
  the requests. Detached deletions of local files are the lists of files handed over.
\<close>

section \<open>Read states\<close>

record read_state =
  rs_data :: "u8 list"
  rs_associated_files :: "string list"
  rs_cache_handles :: "non_evictable_handle list"

definition handle_path :: "non_evictable_handle \<Rightarrow> string" where
  "handle_path h = cache_filepath (handle_cache_entry h)"

definition sort_deletion_vectors :: "deletion_vector_blob list \<Rightarrow> deletion_vector_blob list" where
  "sort_deletion_vectors =
     sort_key (\<lambda>d. (dv_data_file_number d, puffin_file_number d, blob_offset d, blob_length d))"

definition sort_position_deletes :: "position_delete list \<Rightarrow> position_delete list" where
  "sort_position_deletes = sort_key (\<lambda>p. (pd_data_file_number p, data_file_row_number p))"

definition new_read_state ::
  "bool \<Rightarrow> (string \<Rightarrow> string) \<Rightarrow> string list \<Rightarrow> non_evictable_handle list \<Rightarrow>
   deletion_vector_blob list \<Rightarrow> position_delete list \<Rightarrow> string list \<Rightarrow>
   non_evictable_handle list \<Rightarrow> read_state res" where
  "new_read_state le remap data_files puffin_handles dvs pds associated handles =
     (let metadata =
        \<lparr>md_data_files = map remap data_files,
         md_puffin_files = map remap (map handle_path puffin_handles),
         md_deletion_vectors = sort_deletion_vectors dvs,
         md_position_deletes = sort_position_deletes pds\<rparr>
      in res_bind (encode le metadata) (\<lambda>r. case r of
           Inl _ \<Rightarrow> Panic UnwrapErr
         | Inr data \<Rightarrow> Ok \<lparr>rs_data = data, rs_associated_files = associated,
             rs_cache_handles = handles @ puffin_handles\<rparr>))"

fun unreference_all ::
  "'l lru_ops \<Rightarrow> 'l object_storage_cache \<Rightarrow> non_evictable_handle list \<Rightarrow>
   (string list \<times> 'l object_storage_cache) res" where
  "unreference_all ops c [] = Ok ([], c)"
| "unreference_all ops c (h # hs) =
     res_bind (handle_unreference ops c h) (\<lambda>(files, c).
     res_bind (unreference_all ops c hs) (\<lambda>(rest, c). Ok (files @ rest, c)))"

text \<open>The end of a query: the cache entries are released, and two lists of files deleted.\<close>

definition drop_read_state ::
  "'l lru_ops \<Rightarrow> 'l object_storage_cache \<Rightarrow> read_state \<Rightarrow>
   (string list \<times> string list \<times> 'l object_storage_cache) res" where
  "drop_read_state ops c rs =
     res_bind (unreference_all ops c (rs_cache_handles rs)) (\<lambda>(evicted, c).
     Ok (evicted, rs_associated_files rs, c))"

section \<open>Read outputs\<close>

datatype data_file_for_read =
    TemporaryDataFile string
  | RemoteFilePath cache_key string

record remote_file_entry =
  rf_index :: nat
  rf_file_id :: cache_key
  rf_remote_filepath :: string

text \<open>
  \<open>ro_notifier\<close> is the sender to the table handler: absent, or present with a receiver that
  is still there or not.
\<close>

record read_output =
  ro_data_file_paths :: "data_file_for_read list"
  ro_puffin_cache_handles :: "non_evictable_handle list"
  ro_deletion_vectors :: "deletion_vector_blob list"
  ro_position_deletes :: "position_delete list"
  ro_associated_files :: "string list"
  ro_notifier :: "bool option"
  ro_has_cache :: bool
  ro_has_accessor :: bool

text \<open>The cache's container and the file systems behind it.\<close>

record 'l read_env =
  re_lru :: "'l lru_ops"
  re_is_local :: "string \<Rightarrow> bool"
  re_local_size :: "string \<Rightarrow> nat option"
  re_load :: "string \<Rightarrow> cache_entry option"

type_synonym fetch_result = "(non_evictable_handle option \<times> string list) option"

definition notify_evicted_files ::
  "bool option \<Rightarrow> string list \<Rightarrow> string list list \<Rightarrow> string list list res" where
  "notify_evicted_files notifier files sent =
     (if files = [] then Ok sent
      else unwrap notifier (\<lambda>receiver_alive. check receiver_alive UnwrapErr (Ok (sent @ [files]))))"

fun fetch_all ::
  "'l read_env \<Rightarrow> 'l object_storage_cache \<Rightarrow> remote_file_entry list \<Rightarrow>
   ((nat \<times> string \<times> fetch_result) list \<times> 'l object_storage_cache) res" where
  "fetch_all env c [] = Ok ([], c)"
| "fetch_all env c (e # es) =
     res_bind (get_cache_entry (re_lru env) (re_is_local env) (re_local_size env) (re_load env)
         c (rf_file_id e) (rf_remote_filepath e)) (\<lambda>(r, c).
     res_bind (fetch_all env c es) (\<lambda>(rs, c).
     Ok ((rf_index e, rf_remote_filepath e, r) # rs, c)))"

record resolution =
  resolved_data_files :: "string list"
  resolved_handles :: "non_evictable_handle list"
  notified :: "string list list"
  error_messages :: "(nat \<times> string) list"

definition store_at :: "'a list \<Rightarrow> nat \<Rightarrow> 'a \<Rightarrow> 'a list res" where
  "store_at xs i x = (if i < length xs then Ok (xs[i := x]) else Panic IndexOutOfRange)"

definition collect_result ::
  "bool option \<Rightarrow> resolution \<Rightarrow> nat \<times> string \<times> fetch_result \<Rightarrow> resolution res" where
  "collect_result notifier acc result =
     (case result of (index, remote_filepath, r) \<Rightarrow>
        (case r of
           None \<Rightarrow> Ok (acc\<lparr>error_messages := error_messages acc @ [(index, remote_filepath)]\<rparr>)
         | Some (handle, files_to_delete) \<Rightarrow>
             res_bind (case handle of
                 Some h \<Rightarrow> res_bind (store_at (resolved_data_files acc) index (handle_path h)) (\<lambda>fs.
                   Ok (acc\<lparr>resolved_data_files := fs, resolved_handles := resolved_handles acc @ [h]\<rparr>))
               | None \<Rightarrow> res_bind (store_at (resolved_data_files acc) index remote_filepath) (\<lambda>fs.
                   Ok (acc\<lparr>resolved_data_files := fs\<rparr>))) (\<lambda>acc.
             res_bind (notify_evicted_files notifier files_to_delete (notified acc)) (\<lambda>sent.
             Ok (acc\<lparr>notified := sent\<rparr>)))))"

definition handle_resolution_error ::
  "'l read_env \<Rightarrow> 'l object_storage_cache \<Rightarrow> read_output \<Rightarrow> resolution \<Rightarrow>
   (string list list \<times> 'l object_storage_cache) res" where
  "handle_resolution_error env c out acc =
     res_bind (unreference_all (re_lru env) c (resolved_handles acc)) (\<lambda>(evicted, c).
     res_bind (unreference_all (re_lru env) c (ro_puffin_cache_handles out)) (\<lambda>(evicted', c).
     res_bind (notify_evicted_files (ro_notifier out)
         (evicted @ evicted' @ ro_associated_files out) (notified acc)) (\<lambda>sent.
     Ok (sent, c))))"

text \<open>
  The result is either the failed files or what has been resolved; in both cases the
  notifications sent and the cache.
\<close>

definition resolve_remote_files ::
  "'l read_env \<Rightarrow> 'l object_storage_cache \<Rightarrow> read_output \<Rightarrow> remote_file_entry list \<Rightarrow>
   string list \<Rightarrow> (((nat \<times> string) list + resolution) \<times> string list list \<times> 'l object_storage_cache) res"
  where
  "resolve_remote_files env c out completed resolved =
     res_bind (fetch_all env c completed) (\<lambda>(results, c).
     res_bind (res_fold (collect_result (ro_notifier out))
         \<lparr>resolved_data_files = resolved, resolved_handles = [], notified = [], error_messages = []\<rparr>
         results) (\<lambda>acc.
     if error_messages acc \<noteq> [] then
       res_bind (handle_resolution_error env c out acc) (\<lambda>(sent, c).
       Ok (Inl (error_messages acc), sent, c))
     else Ok (Inr acc, notified acc, c)))"

fun separate_files ::
  "nat \<Rightarrow> data_file_for_read list \<Rightarrow> string list \<times> remote_file_entry list" where
  "separate_files index [] = ([], [])"
| "separate_files index (TemporaryDataFile file # fs) =
     (let (resolved, remote) = separate_files (Suc index) fs in (file # resolved, remote))"
| "separate_files index (RemoteFilePath k remote_filepath # fs) =
     (let (resolved, remote) = separate_files (Suc index) fs
      in ([] # resolved,
          \<lparr>rf_index = index, rf_file_id = k, rf_remote_filepath = remote_filepath\<rparr> # remote))"

definition take_as_read_state ::
  "'l read_env \<Rightarrow> bool \<Rightarrow> (string \<Rightarrow> string) \<Rightarrow> (remote_file_entry list \<Rightarrow> remote_file_entry list) \<Rightarrow>
   'l object_storage_cache \<Rightarrow> read_output \<Rightarrow>
   (((nat \<times> string) list + read_state) \<times> string list list \<times> 'l object_storage_cache) res" where
  "take_as_read_state env le remap order c out =
     (let (resolved, remote) = separate_files 0 (ro_data_file_paths out)
      in res_bind
        (if remote \<noteq> [] then
           check (ro_has_cache out) UnwrapNone (check (ro_has_accessor out) UnwrapNone (
             resolve_remote_files env c out (order remote) resolved))
         else Ok (Inr \<lparr>resolved_data_files = resolved, resolved_handles = [], notified = [],
                    error_messages = []\<rparr>, [], c)) (\<lambda>(r, sent, c).
         case r of
           Inl errors \<Rightarrow> Ok (Inl errors, sent, c)
         | Inr acc \<Rightarrow>
             res_bind (new_read_state le remap (resolved_data_files acc) (ro_puffin_cache_handles out)
                 (ro_deletion_vectors out) (ro_position_deletes out) (ro_associated_files out)
                 (resolved_handles acc)) (\<lambda>rs.
             Ok (Inr rs, sent, c))))"

section \<open>Encoding succeeds after sorting\<close>

lemma write_offsets_total:
  "off + sum_list (map length fs) < 2 ^ 32 \<Longrightarrow> \<exists>bs. write_offsets le off fs = Ok (Inr bs)"
proof (induction fs arbitrary: off)
  case (Cons f fs)
  have "saturating_add off (length f) = off + length f"
    using Cons.prems by (simp add: saturating_add_def)
  then show ?case using Cons by auto
qed simp

lemma write_deletion_vectors_total:
  "sorted (prev # map dv_data_file_number dvs) \<Longrightarrow>
   \<exists>bs. write_deletion_vectors le prev dvs = Ok (Inr bs)"
  by (induction dvs arbitrary: prev) auto

lemma write_position_deletes_total:
  "sorted (prev # map pd_data_file_number pds) \<Longrightarrow>
   \<exists>bs. write_position_deletes le prev pds = Ok (Inr bs)"
  by (induction pds arbitrary: prev) auto

lemma sorted_fst: "sorted (map (\<lambda>x. (f x, g x)) xs) \<Longrightarrow> sorted (map f xs)"
  by (induction xs) (auto simp: less_eq_prod_def)

lemma sorted_deletion_vectors: "sorted (0 # map dv_data_file_number (sort_deletion_vectors dvs))"
  using sorted_fst[OF sorted_sort_key] by (fastforce simp: sort_deletion_vectors_def)

lemma sorted_position_deletes: "sorted (0 # map pd_data_file_number (sort_position_deletes pds))"
  using sorted_fst[OF sorted_sort_key] by (fastforce simp: sort_position_deletes_def)

lemma length_sorted [simp]:
  "length (sort_deletion_vectors dvs) = length dvs" "length (sort_position_deletes pds) = length pds"
  by (simp_all add: sort_deletion_vectors_def sort_position_deletes_def)

definition fits :: "string list \<Rightarrow> bool" where
  "fits fs = (length fs < 2 ^ 32 \<and> sum_list (map length fs) < 2 ^ 32)"

text \<open>
  building a read state never fails on data of a size the format can hold. The sorting
  establishes the order the encoder asserts, and the bytes decode to the remapped paths in
  the order they were given, with the deletion vectors and positional deletes sorted.
\<close>

lemma read_state_encodes:
  assumes "fits (map remap data_files)" and "fits (map remap (map handle_path puffin_handles))"
    and "length dvs < 2 ^ 32" and "length pds < 2 ^ 32"
    and "\<And>f. valid_utf8 (as_bytes (remap f))"
  shows "\<exists>rs. new_read_state le remap data_files puffin_handles dvs pds associated handles = Ok rs
    \<and> decode le (rs_data rs) = Ok (Inr (\<lparr>md_data_files = map remap data_files,
         md_puffin_files = map remap (map handle_path puffin_handles),
         md_deletion_vectors = sort_deletion_vectors dvs,
         md_position_deletes = sort_position_deletes pds\<rparr>, []))
    \<and> rs_cache_handles rs = handles @ puffin_handles \<and> rs_associated_files rs = associated"
proof -
  define m where "m = \<lparr>md_data_files = map remap data_files,
    md_puffin_files = map remap (map handle_path puffin_handles),
    md_deletion_vectors = sort_deletion_vectors dvs, md_position_deletes = sort_position_deletes pds\<rparr>"
  obtain b1 where b1: "write_offsets le 0 (md_data_files m) = Ok (Inr b1)"
    using assms(1) write_offsets_total[of 0 "md_data_files m"] by (auto simp: fits_def m_def)
  obtain b2 where b2: "write_offsets le 0 (md_puffin_files m) = Ok (Inr b2)"
    using assms(2) write_offsets_total[of 0 "md_puffin_files m"] by (auto simp: fits_def m_def)
  obtain b3 where b3: "write_deletion_vectors le 0 (md_deletion_vectors m) = Ok (Inr b3)"
    using write_deletion_vectors_total[OF sorted_deletion_vectors] by (fastforce simp: m_def)
  obtain b4 where b4: "write_position_deletes le 0 (md_position_deletes m) = Ok (Inr b4)"
    using write_position_deletes_total[OF sorted_position_deletes] by (fastforce simp: m_def)
  have lens: "length (md_data_files m) < 2 ^ 32" "length (md_puffin_files m) < 2 ^ 32"
    "length (md_deletion_vectors m) < 2 ^ 32" "length (md_position_deletes m) < 2 ^ 32"
    using assms by (auto simp: m_def fits_def)
  obtain bs where bs: "encode le m = Ok (Inr bs)"
    unfolding encode_def write_usize_def using lens b1 b2 b3 b4 by simp
  have "rust_strings m" using assms(5) by (auto simp: rust_strings_def m_def)
  then have "decode le bs = Ok (Inr (m, []))" using metadata_decodes[OF bs, of "[]"] by simp
  then show ?thesis using bs by (simp add: new_read_state_def m_def)
qed

section \<open>Resolution of remote files\<close>

definition fetched_handles :: "(nat \<times> string \<times> fetch_result) list \<Rightarrow> non_evictable_handle list" where
  "fetched_handles results = concat (map (\<lambda>(i, p, r). case r of Some (Some h, _) \<Rightarrow> [h] | _ \<Rightarrow> []) results)"

lemma fetched_handles_simps [simp]:
  "fetched_handles [] = []"
  "fetched_handles ((i, p, None) # rs) = fetched_handles rs"
  "fetched_handles ((i, p, Some (None, files)) # rs) = fetched_handles rs"
  "fetched_handles ((i, p, Some (Some h, files)) # rs) = h # fetched_handles rs"
  by (simp_all add: fetched_handles_def)

definition pins :: "non_evictable_handle list \<Rightarrow> cache_key \<Rightarrow> nat" where
  "pins hs k = count (mset (map handle_file_id hs)) k"

lemma pins_simps [simp]:
  "pins [] k = 0" "pins (h # hs) k = (if handle_file_id h = k then 1 else 0) + pins hs k"
  "pins (hs @ hs') k = pins hs k + pins hs' k"
  by (simp_all add: pins_def)

lemma lookup_handle_id:
  "get_cache_entry_lookup ops c k = Ok (Some h, c') \<Longrightarrow> handle_file_id h = k"
  by (auto simp: get_cache_entry_lookup_def split: option.splits prod.splits)

lemma insert_handle_id:
  "get_cache_entry_insert ops c k w = Ok (Some h, files, c') \<Longrightarrow> handle_file_id h = k"
  by (auto simp: get_cache_entry_insert_def Let_def split: if_splits prod.splits)

lemma remote_handle_count:
  "get_cache_handle_from_remote cfg is_local local_size load src = Some w \<Longrightarrow> reference_count w = 1"
  by (auto simp: get_cache_handle_from_remote_def split: if_splits)

lemma get_cache_entry_pins:
  assumes ok: "lru_ok ops entries" and inv: "cache_inv entries c"
    and step: "get_cache_entry ops is_local local_size load c key path = Ok (r, c')"
  shows "cache_inv entries c' \<and> refs c' k = refs c k + pins (fetched_handles [(i, p, r)]) k
    \<and> (\<forall>h\<in>set (fetched_handles [(i, p, r)]). handle_file_id h = key)"
proof -
  obtain hit d where look: "get_cache_entry_lookup ops c key = Ok (hit, d)"
    using step by (auto simp: get_cache_entry_def)
  note e = lookup_effect[OF ok inv look]
  show ?thesis
  proof (cases hit)
    case (Some h)
    then have "r = Some (Some h, [])" "c' = d" using step look by (auto simp: get_cache_entry_def)
    then show ?thesis using e Some lookup_handle_id look by (fastforce simp: effect_def)
  next
    case None
    have d: "cache_inv entries d" "refs d k = refs c k" using e None by (auto simp: effect_def)
    show ?thesis
    proof (cases "get_cache_handle_from_remote (config d) is_local local_size load path")
      case None
      then show ?thesis using step look \<open>hit = None\<close> d by (simp add: get_cache_entry_def)
    next
      case (Some w)
      then obtain h files where ins: "get_cache_entry_insert ops d key w = Ok (h, files, c')"
        "r = Some (h, files)"
        using step look \<open>hit = None\<close> by (auto simp: get_cache_entry_def)
      have "effect entries d files (if h = None then None else Some key) None (Some (wrapper_path w)) c'"
        by (rule fetched_effect[OF ok d(1) remote_handle_count[OF Some] ins(1)])
      then show ?thesis
        using d(2) ins insert_handle_id by (cases h) (fastforce simp: effect_def)+
    qed
  qed
qed

lemma fetch_all_pins:
  assumes ok: "lru_ok (re_lru env) entries"
  shows "cache_inv entries c \<Longrightarrow> fetch_all env c es = Ok (results, c') \<Longrightarrow>
    cache_inv entries c' \<and> refs c' k = refs c k + pins (fetched_handles results) k
    \<and> list_all2 (\<lambda>e (i, p, r). i = rf_index e \<and> p = rf_remote_filepath e
        \<and> (\<forall>h files. r = Some (Some h, files) \<longrightarrow> handle_file_id h = rf_file_id e)) es results"
proof (induction es arbitrary: c results)
  case (Cons e es)
  obtain r d rs where step: "get_cache_entry (re_lru env) (re_is_local env) (re_local_size env)
      (re_load env) c (rf_file_id e) (rf_remote_filepath e) = Ok (r, d)"
    and rest: "fetch_all env d es = Ok (rs, c')"
    and results: "results = (rf_index e, rf_remote_filepath e, r) # rs"
    using Cons.prems(2) by auto
  note g = get_cache_entry_pins[OF ok Cons.prems(1) step, of k "rf_index e" "rf_remote_filepath e"]
  have "fetched_handles results = fetched_handles [(rf_index e, rf_remote_filepath e, r)]
      @ fetched_handles rs"
    by (simp add: results fetched_handles_def)
  then show ?case using g Cons.IH[OF _ rest] by (auto simp: results)
qed simp

lemma unreference_all_pins:
  assumes ok: "lru_ok ops entries"
  shows "cache_inv entries c \<Longrightarrow> unreference_all ops c hs = Ok (files, c') \<Longrightarrow>
    cache_inv entries c' \<and> refs c' k + pins hs k = refs c k"
proof (induction hs arbitrary: c files)
  case (Cons h hs)
  obtain fs d rest where step: "unreference ops c (handle_file_id h) = Ok (fs, d)"
    and tail: "unreference_all ops d hs = Ok (rest, c')"
    using Cons.prems(2) by (auto simp: handle_unreference_def)
  have "effect entries c fs None (Some (handle_file_id h)) None d"
    by (rule unreference_effect[OF ok Cons.prems(1) step])
  then have d: "cache_inv entries d" "refs d k + (if handle_file_id h = k then 1 else 0) = refs c k"
    by (auto simp: effect_def)
  show ?case using Cons.IH[OF d(1) tail] d(2) by simp
qed simp

lemma notify_evicted_files_keeps:
  "notify_evicted_files notifier files sent = Ok sent' \<Longrightarrow> sent' = sent \<or> sent' = sent @ [files]"
  by (auto simp: notify_evicted_files_def split: if_splits)

lemma collect_step:
  assumes "collect_result notifier acc (i, p, r) = Ok acc'"
  shows "resolved_handles acc' = resolved_handles acc @ fetched_handles [(i, p, r)]"
    and "error_messages acc' = error_messages acc @ (if r = None then [(i, p)] else [])"
    and "resolved_data_files acc' = (case r of None \<Rightarrow> resolved_data_files acc
      | Some (Some h, _) \<Rightarrow> (resolved_data_files acc)[i := handle_path h]
      | Some (None, _) \<Rightarrow> (resolved_data_files acc)[i := p])"
  using assms
  by (auto simp: collect_result_def store_at_def fetched_handles_def
      split: option.splits prod.splits if_splits)

text \<open>Results with distinct indices fill their own place and leave the others.\<close>

lemma collect_fold:
  "res_fold (collect_result notifier) acc results = Ok acc' \<Longrightarrow> distinct (map fst results) \<Longrightarrow>
   resolved_handles acc' = resolved_handles acc @ fetched_handles results
   \<and> length (resolved_data_files acc') = length (resolved_data_files acc)
   \<and> (error_messages acc' = [] \<longrightarrow> (\<forall>(i, p, r) \<in> set results. i < length (resolved_data_files acc) \<longrightarrow>
        (\<exists>files. r = Some (None, files) \<and> resolved_data_files acc' ! i = p)
        \<or> (\<exists>h files. r = Some (Some h, files) \<and> resolved_data_files acc' ! i = handle_path h)))
   \<and> (\<forall>i. i \<notin> fst ` set results \<longrightarrow> resolved_data_files acc' ! i = resolved_data_files acc ! i)
   \<and> (error_messages acc \<noteq> [] \<longrightarrow> error_messages acc' \<noteq> [])"
proof (induction results arbitrary: acc)
  case (Cons x results)
  obtain i p r where x: "x = (i, p, r)" by (cases x)
  obtain acc1 where s: "collect_result notifier acc (i, p, r) = Ok acc1"
    and rest: "res_fold (collect_result notifier) acc1 results = Ok acc'"
    using Cons.prems(1) by (auto simp: x)
  note c = collect_step[OF s]
  have fresh: "i \<notin> fst ` set results" and dist: "distinct (map fst results)"
    using Cons.prems(2) by (auto simp: x)
  note IH = Cons.IH[OF rest dist]
  have len: "length (resolved_data_files acc1) = length (resolved_data_files acc)"
    by (auto simp: c(3) split: option.splits)
  have here: "resolved_data_files acc' ! i = resolved_data_files acc1 ! i" using IH fresh by blast
  have err: "r \<noteq> None" if "error_messages acc' = []" using IH that c(2) by (cases r) auto
  have "fetched_handles (x # results) = fetched_handles [(i, p, r)] @ fetched_handles results"
    by (simp add: x fetched_handles_def)
  moreover have "(\<exists>files. r = Some (None, files) \<and> resolved_data_files acc' ! i = p)
      \<or> (\<exists>h files. r = Some (Some h, files) \<and> resolved_data_files acc' ! i = handle_path h)"
    if "error_messages acc' = []" "i < length (resolved_data_files acc)"
    using err[OF that(1)] that(2) by (auto simp: here c(3) split: option.splits)
  moreover have "resolved_data_files acc1 ! j = resolved_data_files acc ! j" if "j \<noteq> i" for j
    using that by (auto simp: c(3) split: option.splits)
  ultimately show ?case using IH len c(1,2) by (auto simp: x)
qed simp

lemma separate_files_spec:
  "separate_files n fs = (resolved, remote) \<Longrightarrow>
   length resolved = length fs \<and> distinct (map rf_index remote)
   \<and> (\<forall>e \<in> set remote. n \<le> rf_index e)
   \<and> (\<forall>j < length fs. case fs ! j of
        TemporaryDataFile f \<Rightarrow> resolved ! j = f \<and> n + j \<notin> rf_index ` set remote
      | RemoteFilePath k p \<Rightarrow> \<lparr>rf_index = n + j, rf_file_id = k, rf_remote_filepath = p\<rparr> \<in> set remote)"
proof (induction fs arbitrary: n resolved remote)
  case (Cons f fs)
  obtain res rem where s: "separate_files (Suc n) fs = (res, rem)" by (cases "separate_files (Suc n) fs")
  note IH = Cons.IH[OF s]
  have later: "case fs ! j of TemporaryDataFile f \<Rightarrow> res ! j = f \<and> n + Suc j \<notin> rf_index ` set rem
      | RemoteFilePath k p \<Rightarrow> \<lparr>rf_index = n + Suc j, rf_file_id = k, rf_remote_filepath = p\<rparr> \<in> set rem"
    if "j < length fs" for j
    using IH that by (auto split: data_file_for_read.splits)
  have ge: "\<forall>e \<in> set rem. n < rf_index e" and d: "distinct (map rf_index rem)" and l: "length res = length fs"
    using IH by auto
  show ?case
  proof (cases f)
    case (TemporaryDataFile path)
    then have r: "resolved = path # res" "remote = rem" using Cons.prems s by auto
    have "case (f # fs) ! j of TemporaryDataFile f \<Rightarrow> resolved ! j = f \<and> n + j \<notin> rf_index ` set remote
      | RemoteFilePath k p \<Rightarrow> \<lparr>rf_index = n + j, rf_file_id = k, rf_remote_filepath = p\<rparr> \<in> set remote"
      if "j < length (f # fs)" for j
      using that later[of "j - 1"] ge TemporaryDataFile
      by (cases j) (auto simp: r split: data_file_for_read.splits)
    then show ?thesis using ge d l by (auto simp: r)
  next
    case (RemoteFilePath k p)
    let ?e = "\<lparr>rf_index = n, rf_file_id = k, rf_remote_filepath = p\<rparr>"
    have r: "resolved = [] # res" "remote = ?e # rem" using Cons.prems s RemoteFilePath by auto
    have "case (f # fs) ! j of TemporaryDataFile f \<Rightarrow> resolved ! j = f \<and> n + j \<notin> rf_index ` set remote
      | RemoteFilePath k p \<Rightarrow> \<lparr>rf_index = n + j, rf_file_id = k, rf_remote_filepath = p\<rparr> \<in> set remote"
      if "j < length (f # fs)" for j
      using that later[of "j - 1"] ge RemoteFilePath
      by (cases j) (auto simp: r split: data_file_for_read.splits)
    then show ?thesis using ge d l by (auto simp: r)
  qed
qed simp

text \<open>What is known of a resolution that completed without errors, whatever the order.\<close>

lemma resolve_remote_files_spec:
  assumes ok: "lru_ok (re_lru env) entries" and inv: "cache_inv entries c"
    and run: "resolve_remote_files env c out es resolved = Ok (r, sent, c')"
    and dist: "distinct (map rf_index es)"
  shows "r = Inr acc \<Longrightarrow> cache_inv entries c' \<and> (\<forall>k. refs c' k = refs c k + pins (resolved_handles acc) k)
      \<and> length (resolved_data_files acc) = length resolved
      \<and> (\<forall>i. i \<notin> rf_index ` set es \<longrightarrow> resolved_data_files acc ! i = resolved ! i)
      \<and> (\<forall>e \<in> set es. rf_index e < length resolved \<longrightarrow>
          resolved_data_files acc ! rf_index e = rf_remote_filepath e
          \<or> (\<exists>h \<in> set (resolved_handles acc). handle_file_id h = rf_file_id e
               \<and> resolved_data_files acc ! rf_index e = handle_path h))"
    and "r = Inl errors \<Longrightarrow> cache_inv entries c'
      \<and> (\<forall>k. refs c' k + pins (ro_puffin_cache_handles out) k = refs c k)"
proof -
  obtain results d acc1 where f: "fetch_all env c es = Ok (results, d)"
    and fold: "res_fold (collect_result (ro_notifier out))
         \<lparr>resolved_data_files = resolved, resolved_handles = [], notified = [], error_messages = []\<rparr>
         results = Ok acc1"
    and rest: "(if error_messages acc1 \<noteq> [] then
       res_bind (handle_resolution_error env d out acc1) (\<lambda>(sent, c).
       Ok (Inl (error_messages acc1), sent, c))
     else Ok (Inr acc1, notified acc1, d)) = Ok (r, sent, c')"
    using run unfolding resolve_remote_files_def by auto
  note F = fetch_all_pins[OF ok inv f]
  have L: "list_all2 (\<lambda>e (i, p, r). i = rf_index e \<and> p = rf_remote_filepath e
      \<and> (\<forall>h files. r = Some (Some h, files) \<longrightarrow> handle_file_id h = rf_file_id e)) es results"
    using F by blast
  have m: "map fst results = map rf_index es"
  proof -
    have "list_all2 (\<lambda>e x. fst x = rf_index e) es results"
      using L by (rule list_all2_mono) auto
    then show ?thesis by (auto simp: list_all2_conv_all_nth intro: nth_equalityI)
  qed
  note C = collect_fold[OF fold, simplified m, OF dist, simplified]
  have handles: "resolved_handles acc1 = fetched_handles results" using C by simp
  {
    assume "r = Inr acc"
    then have a: "acc = acc1" "c' = d" "error_messages acc1 = []"
      using rest by (auto split: if_splits prod.splits)
    have place: "resolved_data_files acc ! rf_index e = rf_remote_filepath e
          \<or> (\<exists>h \<in> set (resolved_handles acc). handle_file_id h = rf_file_id e
               \<and> resolved_data_files acc ! rf_index e = handle_path h)"
      if e: "e \<in> set es" "rf_index e < length resolved" for e
    proof -
      obtain j where j: "j < length es" "es ! j = e" using e by (auto simp: in_set_conv_nth)
      obtain q where q: "results ! j = (rf_index e, rf_remote_filepath e, q)"
        "\<forall>h files. q = Some (Some h, files) \<longrightarrow> handle_file_id h = rf_file_id e"
        using L j by (cases "results ! j") (auto simp: list_all2_conv_all_nth)
      have mem: "results ! j \<in> set results" using L j by (auto simp: list_all2_conv_all_nth)
      have "(\<exists>files. q = Some (None, files) \<and> resolved_data_files acc1 ! rf_index e = rf_remote_filepath e)
        \<or> (\<exists>h files. q = Some (Some h, files) \<and> resolved_data_files acc1 ! rf_index e = handle_path h)"
        using C a(3) mem e(2) by (auto simp: q(1))
      moreover have "h \<in> set (fetched_handles results)" if "q = Some (Some h, files)" for h files
        using mem by (force simp: fetched_handles_def q(1) that)
      ultimately show ?thesis using q(2) by (auto simp: a handles)
    qed
    show "cache_inv entries c' \<and> (\<forall>k. refs c' k = refs c k + pins (resolved_handles acc) k)
      \<and> length (resolved_data_files acc) = length resolved
      \<and> (\<forall>i. i \<notin> rf_index ` set es \<longrightarrow> resolved_data_files acc ! i = resolved ! i)
      \<and> (\<forall>e \<in> set es. rf_index e < length resolved \<longrightarrow>
          resolved_data_files acc ! rf_index e = rf_remote_filepath e
          \<or> (\<exists>h \<in> set (resolved_handles acc). handle_file_id h = rf_file_id e
               \<and> resolved_data_files acc ! rf_index e = handle_path h))"
      using F C place by (auto simp: a handles simp flip: m set_map)
  }
  {
    assume "r = Inl errors"
    then obtain ev d1 ev' where u: "unreference_all (re_lru env) d (resolved_handles acc1) = Ok (ev, d1)"
      "unreference_all (re_lru env) d1 (ro_puffin_cache_handles out) = Ok (ev', c')"
      using rest by (auto simp: handle_resolution_error_def split: if_splits prod.splits)
    have d: "cache_inv entries d" "\<And>k. refs d k = refs c k + pins (resolved_handles acc1) k"
      using fetch_all_pins[OF ok inv f] by (auto simp: handles)
    have d1: "cache_inv entries d1" "\<And>k. refs d1 k + pins (resolved_handles acc1) k = refs d k"
      using unreference_all_pins[OF ok d(1) u(1)] by auto
    show "cache_inv entries c' \<and> (\<forall>k. refs c' k + pins (ro_puffin_cache_handles out) k = refs c k)"
      using unreference_all_pins[OF ok d1(1) u(2)] d(2) d1(2) by (metis add_right_cancel)
  }
qed

lemma take_as_read_state_cases:
  assumes ok: "lru_ok (re_lru env) entries" and inv: "cache_inv entries c"
    and order: "\<And>es. mset (order es) = mset es"
    and run: "take_as_read_state env le remap order c out = Ok (r, sent, c')"
  obtains (err) errors where "r = Inl errors" "cache_inv entries c'"
      "\<And>k. refs c' k + pins (ro_puffin_cache_handles out) k = refs c k"
  | (read) rs files handles where "r = Inr rs" "cache_inv entries c'"
      "new_read_state le remap files (ro_puffin_cache_handles out) (ro_deletion_vectors out)
         (ro_position_deletes out) (ro_associated_files out) handles = Ok rs"
      "\<And>k. refs c' k = refs c k + pins handles k"
      "length files = length (ro_data_file_paths out)"
      "\<And>i. i < length (ro_data_file_paths out) \<Longrightarrow> (case ro_data_file_paths out ! i of
          TemporaryDataFile f \<Rightarrow> files ! i = f
        | RemoteFilePath k p \<Rightarrow> files ! i = p
            \<or> (\<exists>h \<in> set handles. handle_file_id h = k \<and> files ! i = handle_path h))"
proof -
  obtain resolved remote where s: "separate_files 0 (ro_data_file_paths out) = (resolved, remote)"
    by (cases "separate_files 0 (ro_data_file_paths out)")
  note S = separate_files_spec[OF s, simplified]
  have set: "set (order remote) = set remote" using order by (metis mset_eq_setD)
  have "mset (map rf_index (order remote)) = mset (map rf_index remote)" using order by simp
  then have dist: "distinct (map rf_index (order remote))" using S by (metis mset_eq_imp_distinct_iff)
  show thesis
  proof (cases "remote = []")
    case True
    then obtain rs where rs: "new_read_state le remap resolved (ro_puffin_cache_handles out)
        (ro_deletion_vectors out) (ro_position_deletes out) (ro_associated_files out) [] = Ok rs"
      "r = Inr rs" "c' = c"
      using run s by (auto simp: take_as_read_state_def)
    have "case ro_data_file_paths out ! i of TemporaryDataFile f \<Rightarrow> resolved ! i = f
        | RemoteFilePath k p \<Rightarrow> resolved ! i = p
            \<or> (\<exists>h \<in> set []. handle_file_id h = k \<and> resolved ! i = handle_path h)"
      if "i < length (ro_data_file_paths out)" for i
      using S that True by (auto split: data_file_for_read.splits)
    then show thesis using read[OF rs(2) _ rs(1)] rs(3) inv S by simp
  next
    case False
    then obtain q sent' d where res: "resolve_remote_files env c out (order remote) resolved = Ok (q, sent', d)"
      and fin: "(case q of Inl errors \<Rightarrow> Ok (Inl errors, sent', d)
         | Inr acc \<Rightarrow> res_bind (new_read_state le remap (resolved_data_files acc)
             (ro_puffin_cache_handles out) (ro_deletion_vectors out) (ro_position_deletes out)
             (ro_associated_files out) (resolved_handles acc)) (\<lambda>rs. Ok (Inr rs, sent', d)))
         = Ok (r, sent, c')"
      using run s by (auto simp: take_as_read_state_def)
    have q: "\<And>errors. q = Inl errors \<Longrightarrow> r = Inl errors"
        "\<And>acc. q = Inr acc \<Longrightarrow> \<exists>rs. r = Inr rs \<and> new_read_state le remap (resolved_data_files acc)
          (ro_puffin_cache_handles out) (ro_deletion_vectors out) (ro_position_deletes out)
          (ro_associated_files out) (resolved_handles acc) = Ok rs"
      and d: "d = c'"
      using fin by (cases q; auto)+
    note R = resolve_remote_files_spec[OF ok inv res[unfolded d] dist]
    show thesis
    proof (cases q)
      case (Inl errors)
      then show thesis using err[of errors] q(1) R(2)[OF Inl] by blast
    next
      case (Inr acc)
      obtain rs where rs: "r = Inr rs" "new_read_state le remap (resolved_data_files acc)
          (ro_puffin_cache_handles out) (ro_deletion_vectors out) (ro_position_deletes out)
          (ro_associated_files out) (resolved_handles acc) = Ok rs"
        using q(2)[OF Inr] by blast
      note A = R(1)[OF Inr, unfolded set]
      have place: "case ro_data_file_paths out ! i of TemporaryDataFile f \<Rightarrow> resolved_data_files acc ! i = f
        | RemoteFilePath k p \<Rightarrow> resolved_data_files acc ! i = p
            \<or> (\<exists>h \<in> set (resolved_handles acc). handle_file_id h = k
                 \<and> resolved_data_files acc ! i = handle_path h)"
        if i: "i < length (ro_data_file_paths out)" for i
      proof (cases "ro_data_file_paths out ! i")
        case (TemporaryDataFile f)
        then show ?thesis using S A i by fastforce
      next
        case (RemoteFilePath k p)
        let ?e = "\<lparr>rf_index = i, rf_file_id = k, rf_remote_filepath = p\<rparr>"
        have "?e \<in> set remote" "i < length resolved" using S i RemoteFilePath by force+
        then have "resolved_data_files acc ! rf_index ?e = rf_remote_filepath ?e
          \<or> (\<exists>h \<in> set (resolved_handles acc). handle_file_id h = rf_file_id ?e
               \<and> resolved_data_files acc ! rf_index ?e = handle_path h)"
          using A by (metis remote_file_entry.select_convs(1))
        then show ?thesis using RemoteFilePath by simp
      qed
      show thesis by (rule read[OF rs(1) _ rs(2) _ _ place]) (use A S in auto)
    qed
  qed
qed

lemma new_read_state_eq_Ok:
  "new_read_state le remap files puffin dvs pds associated handles = Ok rs \<longleftrightarrow>
   (\<exists>data. encode le \<lparr>md_data_files = map remap files,
       md_puffin_files = map remap (map handle_path puffin),
       md_deletion_vectors = sort_deletion_vectors dvs,
       md_position_deletes = sort_position_deletes pds\<rparr> = Ok (Inr data)
     \<and> rs = \<lparr>rs_data = data, rs_associated_files = associated, rs_cache_handles = handles @ puffin\<rparr>)"
  (is "_ \<longleftrightarrow> (\<exists>data. encode le ?m = _ \<and> _)")
  by (cases "encode le ?m") (auto simp: new_read_state_def Let_def split: sum.splits)

lemma new_read_state_Ok:
  assumes "new_read_state le remap files puffin dvs pds associated handles = Ok rs"
    and "\<And>f. valid_utf8 (as_bytes (remap f))"
  shows "\<exists>md. decode le (rs_data rs) = Ok (Inr (md, [])) \<and> md_data_files md = map remap files
    \<and> rs_cache_handles rs = handles @ puffin"
proof -
  let ?md = "\<lparr>md_data_files = map remap files, md_puffin_files = map remap (map handle_path puffin),
    md_deletion_vectors = sort_deletion_vectors dvs, md_position_deletes = sort_position_deletes pds\<rparr>"
  have "encode le ?md = Ok (Inr (rs_data rs))" "rs_cache_handles rs = handles @ puffin"
    using assms(1) by (auto simp: new_read_state_eq_Ok)
  moreover have "rust_strings ?md" using assms(2) by (auto simp: rust_strings_def)
  ultimately show ?thesis using metadata_decodes[of le ?md "rs_data rs" "[]"] by auto
qed

text \<open>
  a query reads the files of its snapshot, in order. Whatever order the concurrent
  fetches complete in, the read state lists one path per data file of the snapshot: the
  temporary file itself, or for a remote file either its remote path or the local copy of
  a cache entry that is pinned under the file's key and held by the read state.
\<close>

lemma read_files_resolved:
  assumes "lru_ok (re_lru env) entries" and "cache_inv entries c"
    and "\<And>es. mset (order es) = mset es" and "\<And>f. valid_utf8 (as_bytes (remap f))"
    and "take_as_read_state env le remap order c out = Ok (Inr rs, sent, c')"
  shows "\<exists>files md. decode le (rs_data rs) = Ok (Inr (md, [])) \<and> md_data_files md = map remap files
    \<and> length files = length (ro_data_file_paths out)
    \<and> (\<forall>i < length files. case ro_data_file_paths out ! i of
        TemporaryDataFile f \<Rightarrow> files ! i = f
      | RemoteFilePath k p \<Rightarrow> files ! i = p
          \<or> (\<exists>h \<in> set (rs_cache_handles rs). handle_file_id h = k \<and> files ! i = handle_path h
               \<and> 0 < refs c' k))"
  using assms(1-3,5)
proof (cases rule: take_as_read_state_cases)
  case (read rs' files handles)
  have pinned: "0 < refs c' (handle_file_id h)" if "h \<in> set handles" for h
    using that read(4)[of "handle_file_id h"] by (auto simp: pins_def count_eq_zero_iff)
  obtain md where md: "decode le (rs_data rs) = Ok (Inr (md, []))" "md_data_files md = map remap files"
    "rs_cache_handles rs = handles @ ro_puffin_cache_handles out"
    using new_read_state_Ok[OF read(3) assms(4)] read(1) by auto
  have "case ro_data_file_paths out ! i of TemporaryDataFile f \<Rightarrow> files ! i = f
      | RemoteFilePath k p \<Rightarrow> files ! i = p
          \<or> (\<exists>h \<in> set (rs_cache_handles rs). handle_file_id h = k \<and> files ! i = handle_path h
               \<and> 0 < refs c' k)" if "i < length files" for i
    using read(6)[of i] that read(5) pinned
    by (fastforce simp: md(3) split: data_file_for_read.splits)
  then show ?thesis using md read(5) by blast
qed simp

text \<open>
  C10: a query leaks no pin. Whether resolving the files fails, or succeeds and the query
  later drops its read state, in the end exactly the pins taken for the deletion vectors
  of the read output are given back and every other reference count is as before.
\<close>

theorem read_pins_balanced:
  assumes "lru_ok (re_lru env) entries" and "cache_inv entries c"
    and "\<And>es. mset (order es) = mset es"
    and "take_as_read_state env le remap order c out = Ok (r, sent, c')"
    and "case r of Inl _ \<Rightarrow> c'' = c' | Inr rs \<Rightarrow> drop_read_state (re_lru env) c' rs = Ok (evicted, temps, c'')"
  shows "refs c'' k + pins (ro_puffin_cache_handles out) k = refs c k"
  using assms(1-4)
proof (cases rule: take_as_read_state_cases)
  case (err errors)
  then show ?thesis using assms(5) by simp
next
  case (read rs files handles)
  have h: "rs_cache_handles rs = handles @ ro_puffin_cache_handles out"
    using read(3) by (auto simp: new_read_state_eq_Ok)
  have "unreference_all (re_lru env) c' (rs_cache_handles rs) = Ok (evicted, c'')"
    using assms(5) read(1) by (auto simp: drop_read_state_def)
  from unreference_all_pins[OF assms(1) read(2) this, of k] show ?thesis using read(4)[of k] by (simp add: h)
qed

section \<open>Evaluation on a small read\<close>

definition sample_read_env :: "cache_alist read_env" where
  "sample_read_env = \<lparr>re_lru = list_lru, re_is_local = (\<lambda>_. False), re_local_size = (\<lambda>_. None),
     re_load = (\<lambda>src. if src = ''s3/b'' then Some \<lparr>cache_filepath = ''/c/b'', file_size = 4\<rparr> else None)\<rparr>"

definition sample_output :: "string \<Rightarrow> read_output" where
  "sample_output remote =
     \<lparr>ro_data_file_paths = [RemoteFilePath sample_key remote, TemporaryDataFile ''t''],
      ro_puffin_cache_handles = [], ro_deletion_vectors = [], ro_position_deletes = [],
      ro_associated_files = [''t''], ro_notifier = Some True, ro_has_cache = True,
      ro_has_accessor = True\<rparr>"

lemmas read_evals = take_as_read_state_def resolve_remote_files_def collect_result_def
  handle_resolution_error_def get_cache_entry_def get_cache_handle_from_remote_def
  get_cache_entry_insert_def notify_evicted_files_def store_at_def handle_path_def
  sample_read_env_def sample_output_def new_read_state_def encode_def write_usize_def
  saturating_add_def sort_deletion_vectors_def sort_position_deletes_def cache_evals

definition empty_cache :: "cache_alist object_storage_cache" where
  "empty_cache = new_object_storage_cache list_lru sample_config"

lemma empty_cache_inv: "cache_inv (\<lambda>l. l) empty_cache"
  using start_system_inv[OF list_lru_ok, of sample_config]
  by (simp add: system_inv_def start_system_def empty_cache_def)

lemma sample_read:
  "\<exists>rs sent c. take_as_read_state sample_read_env True (\<lambda>_. ''f'') rev empty_cache (sample_output ''s3/b'')
     = Ok (Inr rs, sent, c) \<and> length (rs_cache_handles rs) = 1"
  by (simp add: read_evals empty_cache_def)

lemma ascii_f: "valid_utf8 (as_bytes ''f'')"
  by (simp add: as_bytes_def)

lemma read_files_resolved_witness:
  "\<exists>rs sent c files md. take_as_read_state sample_read_env True (\<lambda>_. ''f'') rev empty_cache
      (sample_output ''s3/b'') = Ok (Inr rs, sent, c)
    \<and> decode True (rs_data rs) = Ok (Inr (md, [])) \<and> md_data_files md = [''f'', ''f'']
    \<and> length files = 2 \<and> files ! 1 = ''t''"
proof -
  obtain rs sent c where run: "take_as_read_state sample_read_env True (\<lambda>_. ''f'') rev empty_cache
      (sample_output ''s3/b'') = Ok (Inr rs, sent, c)"
    using sample_read by blast
  have "lru_ok (re_lru sample_read_env) (\<lambda>l. l)" using list_lru_ok by (simp add: sample_read_env_def)
  note R = read_files_resolved[OF this empty_cache_inv mset_rev ascii_f run]
  then obtain files md where "decode True (rs_data rs) = Ok (Inr (md, []))"
    "md_data_files md = map (\<lambda>_. ''f'') files" "length files = 2" "files ! 1 = ''t''"
    by (auto simp: sample_output_def)
  then show ?thesis using run by (auto simp: map_replicate_const numeral_2_eq_2)
qed

theorem read_pins_balanced_witness:
  "\<exists>errors sent c. take_as_read_state sample_read_env True (\<lambda>_. ''f'') rev empty_cache
      (sample_output ''s3/missing'') = Ok (Inl errors, sent, c)
    \<and> errors = [(0, ''s3/missing'')] \<and> refs c sample_key = refs empty_cache sample_key"
proof -
  obtain sent c where run: "take_as_read_state sample_read_env True (\<lambda>_. ''f'') rev empty_cache
      (sample_output ''s3/missing'') = Ok (Inl [(0, ''s3/missing'')], sent, c)"
    by (simp add: read_evals empty_cache_def)
  have "lru_ok (re_lru sample_read_env) (\<lambda>l. l)" using list_lru_ok by (simp add: sample_read_env_def)
  from read_pins_balanced[OF this empty_cache_inv mset_rev run, of c _ _ sample_key]
  show ?thesis using run by (auto simp: sample_output_def)
qed

lemma read_state_encodes_witness:
  "\<exists>rs md. new_read_state False (\<lambda>_. ''f'') [''a'', ''b''] [] []
      [\<lparr>pd_data_file_number = 1, data_file_row_number = 0\<rparr>, \<lparr>pd_data_file_number = 0, data_file_row_number = 5\<rparr>]
      [] [] = Ok rs
    \<and> decode False (rs_data rs) = Ok (Inr (md, []))
    \<and> map pd_data_file_number (md_position_deletes md) = [0, 1]"
  using read_state_encodes[of "\<lambda>_. ''f''" "[''a'', ''b'']" "[]" "[]"
      "[\<lparr>pd_data_file_number = 1, data_file_row_number = 0\<rparr>, \<lparr>pd_data_file_number = 0, data_file_row_number = 5\<rparr>]"
      False "[]" "[]"] ascii_f
  by (auto simp: fits_def sort_position_deletes_def)

end
