(* ===== verification/Read_Manager.thy ===== *)
theory Read_Manager
  imports Prelude
begin

text \<open>
  Which snapshot a reader gets (\<^verbatim>\<open>union_read/read_state_manager.rs\<close>, \<^verbatim>\<open>lsn_state.rs\<close>): the
  manager caches the last read state with the LSN up to which it is complete, and decides
  from three published LSNs (table snapshot, last commit of the table, replication) whether
  a read at a requested LSN can be served. LSNs are \<^verbatim>\<open>u64\<close>, with sentinels for absent ones.
  The read states themselves are a type parameter \<open>'r\<close>; the outcome of
  \<^verbatim>\<open>request_read\<close> and \<^verbatim>\<open>take_as_read_state\<close> is an input.
\<close>

section \<open>Published LSNs\<close>

record lsn_state =
  current :: u64
  watched :: u64

definition new_lsn_state :: lsn_state where
  "new_lsn_state = \<lparr>current = 0, watched = 0\<rparr>"

text \<open>\<open>subscribed\<close>: a send on a watch channel without receivers fails and keeps the old value.\<close>

definition mark :: "bool \<Rightarrow> u64 \<Rightarrow> lsn_state \<Rightarrow> lsn_state" where
  "mark subscribed lsn s =
     (if lsn > current s
      then s\<lparr>current := lsn, watched := (if subscribed then lsn else watched s)\<rparr>
      else s)"

definition now :: "lsn_state \<Rightarrow> u64" where
  "now s = current s"

section \<open>The read state manager\<close>

definition NO_READ_LSN :: u64 where "NO_READ_LSN = - 1"
definition NO_CACHE_LSN :: u64 where "NO_CACHE_LSN = - 1"
definition NO_SNAPSHOT_LSN :: u64 where "NO_SNAPSHOT_LSN = - 1"
definition NO_COMMIT_LSN :: u64 where "NO_COMMIT_LSN = 0"

lemmas sentinels = NO_READ_LSN_def NO_CACHE_LSN_def NO_SNAPSHOT_LSN_def NO_COMMIT_LSN_def

record 'r read_state_manager =
  last_read_lsn :: u64
  last_read_state :: 'r

definition new_read_state_manager :: "'r \<Rightarrow> 'r read_state_manager" where
  "new_read_state_manager empty_state = \<lparr>last_read_lsn = NO_READ_LSN, last_read_state = empty_state\<rparr>"

definition snapshot_is_clean :: "u64 \<Rightarrow> u64 \<Rightarrow> bool" where
  "snapshot_is_clean snapshot_lsn commit_lsn =
     (if snapshot_lsn = NO_SNAPSHOT_LSN \<and> commit_lsn = NO_COMMIT_LSN then True
      else snapshot_lsn = commit_lsn \<and> snapshot_lsn \<noteq> NO_SNAPSHOT_LSN)"

definition should_use_cache :: "u64 option \<Rightarrow> u64 \<Rightarrow> u64 \<Rightarrow> u64 \<Rightarrow> bool" where
  "should_use_cache requested cached_lsn snapshot_lsn commit_lsn =
     (if cached_lsn = NO_CACHE_LSN then False
      else let snapshot_clean = snapshot_is_clean snapshot_lsn commit_lsn
           in case requested of
                Some bound \<Rightarrow> cached_lsn = snapshot_lsn \<and> cached_lsn \<ge> bound \<and> snapshot_clean
              | None \<Rightarrow> cached_lsn = snapshot_lsn \<and> snapshot_clean)"

definition can_satisfy_read_from_snapshot :: "u64 option \<Rightarrow> u64 \<Rightarrow> u64 \<Rightarrow> u64 \<Rightarrow> bool res" where
  "can_satisfy_read_from_snapshot requested_lsn snapshot_lsn replication_lsn commit_lsn =
     check (snapshot_lsn \<noteq> NO_SNAPSHOT_LSN \<and> commit_lsn \<noteq> NO_COMMIT_LSN \<longrightarrow> snapshot_lsn \<le> commit_lsn)
       AssertFailed (
     check (commit_lsn \<le> replication_lsn) AssertFailed (
     Ok (case requested_lsn of
           None \<Rightarrow> True
         | Some req \<Rightarrow>
             (snapshot_lsn \<noteq> NO_SNAPSHOT_LSN \<and> req \<le> snapshot_lsn)
             \<or> (req \<le> replication_lsn \<and> snapshot_is_clean snapshot_lsn commit_lsn))))"

text \<open>
  What the table snapshot answers under its lock: an error of \<^verbatim>\<open>request_read\<close>, or a read output
  whose conversion fails or gives a read state.
\<close>

datatype ('e, 'r) read_outcome =
    RequestFailed 'e
  | TakeFailed 'e
  | ReadTaken 'r

definition read_from_snapshot_and_update_cache ::
  "'r read_state_manager \<Rightarrow> u64 \<Rightarrow> u64 \<Rightarrow> u64 \<Rightarrow> ('e, 'r) read_outcome \<Rightarrow>
   ('e + 'r) \<times> 'r read_state_manager" where
  "read_from_snapshot_and_update_cache m snapshot_lsn replication_lsn commit_lsn outcome =
     (let is_snapshot_clean = (snapshot_lsn = commit_lsn)
      in if last_read_lsn m < snapshot_lsn \<or> last_read_lsn m = NO_READ_LSN then
           let effective_lsn =
             (if last_read_lsn m = NO_READ_LSN then snapshot_lsn
              else if is_snapshot_clean \<and> snapshot_lsn < replication_lsn then replication_lsn
              else snapshot_lsn)
           in case outcome of
                RequestFailed e \<Rightarrow> (Inl e, m)
              | TakeFailed e \<Rightarrow> (Inl e, m\<lparr>last_read_lsn := effective_lsn\<rparr>)
              | ReadTaken r \<Rightarrow> (Inr r, m\<lparr>last_read_lsn := effective_lsn, last_read_state := r\<rparr>)
         else (Inr (last_read_state m), m))"

datatype awaited = ReplicationChange | SnapshotChange

definition wait_for_relevant_lsn_change :: "u64 \<Rightarrow> u64 \<Rightarrow> awaited" where
  "wait_for_relevant_lsn_change requested replication_lsn =
     (if requested > replication_lsn then ReplicationChange else SnapshotChange)"

text \<open>
  \<^verbatim>\<open>try_read\<close> up to its loop: the cached state if it can be used. The state is cloned after a
  wait for the lock, so the cached LSN is loaded from \<open>m\<close> and the state from a later \<open>m'\<close>.
\<close>

definition try_read_cached ::
  "u64 option \<Rightarrow> 'r read_state_manager \<Rightarrow> u64 \<Rightarrow> u64 \<Rightarrow> 'r read_state_manager \<Rightarrow> 'r option" where
  "try_read_cached requested m snapshot_lsn commit_lsn m' =
     (if should_use_cache requested (last_read_lsn m) snapshot_lsn commit_lsn
      then Some (last_read_state m') else None)"

datatype ('e, 'r) iteration = Finished "'e + 'r" | Waits awaited

text \<open>One iteration of the loop, on the LSNs it borrows, with the manager it finds locked.\<close>

definition try_read_iteration ::
  "u64 option \<Rightarrow> 'r read_state_manager \<Rightarrow> u64 \<Rightarrow> u64 \<Rightarrow> u64 \<Rightarrow> ('e, 'r) read_outcome \<Rightarrow>
   (('e, 'r) iteration \<times> 'r read_state_manager) res" where
  "try_read_iteration requested m snapshot_lsn commit_lsn replication_lsn outcome =
     res_bind (can_satisfy_read_from_snapshot requested snapshot_lsn replication_lsn commit_lsn)
       (\<lambda>satisfied.
       if satisfied then
         let (r, m') = read_from_snapshot_and_update_cache m snapshot_lsn replication_lsn
               commit_lsn outcome
         in Ok (Finished r, m')
       else unwrap requested (\<lambda>req.
         Ok (Waits (wait_for_relevant_lsn_change req replication_lsn), m)))"

section \<open>The publishers\<close>

text \<open>
  One table's published LSNs, as the sinks write them (\<^verbatim>\<open>pg_replicate/moonlink_sink.rs\<close>,
  \<^verbatim>\<open>rest_ingest/moonlink_rest_sink.rs\<close>): a commit is marked for its table first, the
  replication LSN afterwards; the mooncake snapshot of a commit is published when it is
  made. \<open>w_commits\<close> are the commits of the table so far. LSNs grow: a commit lies above all
  that has been replicated.
\<close>

record world =
  w_commits :: "u64 set"
  w_commit :: u64
  w_repl :: u64
  w_snap :: u64

definition start_world :: world where
  "start_world = \<lparr>w_commits = {}, w_commit = NO_COMMIT_LSN, w_repl = 0, w_snap = NO_SNAPSHOT_LSN\<rparr>"

inductive publish :: "world \<Rightarrow> world \<Rightarrow> bool" where
  mark_commit: "w_repl w < l \<Longrightarrow> w_commit w < l \<Longrightarrow> l \<noteq> NO_SNAPSHOT_LSN \<Longrightarrow>
    publish w (w\<lparr>w_commits := insert l (w_commits w), w_commit := l\<rparr>)"
| mark_replication: "w_commit w \<le> l \<Longrightarrow> w_repl w < l \<Longrightarrow> l \<noteq> NO_READ_LSN \<Longrightarrow>
    publish w (w\<lparr>w_repl := l\<rparr>)"
| publish_snapshot: "l \<in> w_commits w \<Longrightarrow> w_snap w = NO_SNAPSHOT_LSN \<or> w_snap w \<le> l \<Longrightarrow>
    publish w (w\<lparr>w_snap := l\<rparr>)"

text \<open>No commit is between its two marks.\<close>

definition quiescent :: "world \<Rightarrow> bool" where
  "quiescent w = (w_commit w \<le> w_repl w)"

definition world_inv :: "world \<Rightarrow> bool" where
  "world_inv w = ((\<forall>x \<in> w_commits w. 0 < x \<and> x \<le> w_commit w \<and> x \<noteq> NO_SNAPSHOT_LSN)
     \<and> (w_snap w = NO_SNAPSHOT_LSN \<or> w_snap w \<in> w_commits w)
     \<and> w_repl w \<noteq> NO_READ_LSN)"

lemma start_world_inv: "world_inv start_world"
  by (simp add: world_inv_def start_world_def sentinels)

lemma publish_inv: "publish w w' \<Longrightarrow> world_inv w \<Longrightarrow> world_inv w'"
proof (induction rule: publish.induct)
  case (mark_commit w l)
  have "0 < l" by (rule order.strict_trans1[OF word_zero_le mark_commit(1)])
  then show ?case using mark_commit by (auto simp: world_inv_def)
qed (auto simp: world_inv_def)

lemma publish_star_inv: "publish\<^sup>*\<^sup>* w w' \<Longrightarrow> world_inv w \<Longrightarrow> world_inv w'"
  by (induction rule: rtranclp_induct) (auto intro: publish_inv)

text \<open>Later commits lie above what has been replicated, and published LSNs only grow.\<close>

lemma publish_later:
  "publish\<^sup>*\<^sup>* w w' \<Longrightarrow> w_commits w \<subseteq> w_commits w' \<and> w_repl w \<le> w_repl w'
    \<and> w_commit w \<le> w_commit w'
    \<and> (\<forall>x \<in> w_commits w'. x \<in> w_commits w \<or> w_repl w < x \<and> w_commit w < x)
    \<and> (w_snap w \<noteq> NO_SNAPSHOT_LSN \<longrightarrow> world_inv w \<longrightarrow>
        w_snap w' \<noteq> NO_SNAPSHOT_LSN \<and> w_snap w \<le> w_snap w')"
proof (induction rule: rtranclp_induct)
  case (step y z)
  have iy: "world_inv w \<Longrightarrow> world_inv y" by (rule publish_star_inv[OF step(1)])
  from step(2) show ?case
  proof cases
    case (publish_snapshot l)
    have "w_snap z \<noteq> NO_SNAPSHOT_LSN \<and> w_snap w \<le> w_snap z"
      if "w_snap w \<noteq> NO_SNAPSHOT_LSN" "world_inv w"
    proof -
      have "w_snap y \<noteq> NO_SNAPSHOT_LSN" "w_snap w \<le> w_snap y" using step.IH that by blast+
      moreover have "l \<noteq> NO_SNAPSHOT_LSN"
        using iy[OF that(2)] publish_snapshot(2) unfolding world_inv_def by blast
      ultimately show ?thesis using publish_snapshot(1,3) order.trans by simp
    qed
    then show ?thesis using step.IH publish_snapshot(1) by simp
  next
    case (mark_commit l)
    have "w_repl w < l" using step.IH mark_commit(2) order.strict_trans1 by blast
    moreover have "w_commit w < l" using step.IH mark_commit(3) order.strict_trans1 by blast
    ultimately show ?thesis using step.IH mark_commit(1) by auto
  next
    case (mark_replication l)
    have "w_repl w \<le> l" using step.IH mark_replication(3) order.trans less_imp_le by blast
    then show ?thesis using step.IH mark_replication(1) by auto
  qed
qed simp

section \<open>Readers\<close>

definition complete :: "('r \<Rightarrow> u64 set) \<Rightarrow> u64 set \<Rightarrow> 'r \<Rightarrow> u64 \<Rightarrow> bool" where
  "complete cov C x l = (\<forall>c \<in> C. c \<le> l \<longrightarrow> c \<in> cov x)"

record 'r readers =
  rd_manager :: "'r read_state_manager"
  rd_past :: "'r read_state_manager set"
  rd_seen :: "(u64 \<times> u64 \<times> u64) set"
  rd_served :: "(u64 option \<times> u64 \<times> 'r) set"

text \<open>
  The system: publishers and any number of readers. A reader borrows the three LSNs
  (\<open>observe\<close>, in a quiescent moment) and acts on them at some later time: it clones the
  cached state when it decided so on an earlier LSN of the manager (\<open>serve_cached\<close>), or runs
  an iteration with the manager it then finds (\<open>iterate\<close>). A read state taken from the
  table snapshot covers what had been published as the snapshot LSN; converting a read
  output does not fail.
\<close>

inductive reading ::
  "('r \<Rightarrow> u64 set) \<Rightarrow> world \<times> 'r readers \<Rightarrow> world \<times> 'r readers \<Rightarrow> bool" for cov where
  publishes: "publish w w' \<Longrightarrow> reading cov (w, rd) (w', rd)"
| observe: "quiescent w \<Longrightarrow>
    reading cov (w, rd) (w, rd\<lparr>rd_seen := insert (w_snap w, w_commit w, w_repl w) (rd_seen rd)\<rparr>)"
| serve_cached: "(s, c, r) \<in> rd_seen rd \<Longrightarrow> m \<in> rd_past rd \<Longrightarrow>
    try_read_cached requested m s c (rd_manager rd) = Some x \<Longrightarrow>
    reading cov (w, rd) (w, rd\<lparr>rd_served := insert (requested, s, x) (rd_served rd)\<rparr>)"
| iterate: "(s, c, r) \<in> rd_seen rd \<Longrightarrow>
    (\<And>e :: string. outcome \<noteq> TakeFailed e) \<Longrightarrow>
    (\<And>x. outcome = ReadTaken x \<Longrightarrow> w_snap w \<noteq> NO_SNAPSHOT_LSN \<Longrightarrow>
       complete cov (w_commits w) x (w_snap w)) \<Longrightarrow>
    try_read_iteration requested (rd_manager rd) s c r outcome = Ok (it, m') \<Longrightarrow>
    reading cov (w, rd) (w, rd\<lparr>rd_manager := m', rd_past := insert m' (rd_past rd),
      rd_served := (case it of Finished (Inr x) \<Rightarrow> insert (requested, s, x) (rd_served rd)
                    | _ \<Rightarrow> rd_served rd)\<rparr>)"

definition start_reading :: "'r \<Rightarrow> world \<times> 'r readers" where
  "start_reading empty_state = (start_world,
     \<lparr>rd_manager = new_read_state_manager empty_state,
      rd_past = {new_read_state_manager empty_state}, rd_seen = {}, rd_served = {}\<rparr>)"

text \<open>\<open>behind C S l\<close>: the commits up to \<open>l\<close> are in the snapshot published as \<open>S\<close>.\<close>

definition behind :: "u64 set \<Rightarrow> u64 \<Rightarrow> u64 \<Rightarrow> bool" where
  "behind C S l = (\<forall>x \<in> C. x \<le> l \<longrightarrow> S \<noteq> NO_SNAPSHOT_LSN \<and> x \<le> S)"

definition valid_obs :: "u64 set \<Rightarrow> u64 \<Rightarrow> u64 \<times> u64 \<times> u64 \<Rightarrow> bool" where
  "valid_obs C S obs = (case obs of (s, c, r) \<Rightarrow>
     c \<le> r \<and> (s \<noteq> NO_SNAPSHOT_LSN \<longrightarrow> s \<le> c \<and> S \<noteq> NO_SNAPSHOT_LSN \<and> s \<le> S)
     \<and> (snapshot_is_clean s c \<longrightarrow> behind C s r))"

lemma behind_refl: "S \<noteq> NO_SNAPSHOT_LSN \<Longrightarrow> l \<le> S \<Longrightarrow> behind C S l"
  unfolding behind_def by (meson order.trans)

lemma behind_later:
  "behind C S l \<Longrightarrow> (S \<noteq> NO_SNAPSHOT_LSN \<Longrightarrow> S' \<noteq> NO_SNAPSHOT_LSN \<and> S \<le> S') \<Longrightarrow> behind C S' l"
  unfolding behind_def by (meson order.trans)

lemma behind_below: "behind C S l \<Longrightarrow> l' \<le> l \<Longrightarrow> behind C S l'"
  unfolding behind_def by (meson order.trans)

lemma valid_obs_later:
  "valid_obs C S obs \<Longrightarrow> (S \<noteq> NO_SNAPSHOT_LSN \<Longrightarrow> S' \<noteq> NO_SNAPSHOT_LSN \<and> S \<le> S') \<Longrightarrow> valid_obs C S' obs"
  using order.trans[of _ S S'] unfolding valid_obs_def
  by (clarsimp split: prod.splits)

lemma complete_behind:
  "behind C S l \<Longrightarrow> (S \<noteq> NO_SNAPSHOT_LSN \<Longrightarrow> complete cov C x S) \<Longrightarrow> complete cov C x l"
  unfolding behind_def complete_def by blast

text \<open>What is observed in a quiescent moment is valid for all commits to come.\<close>

lemma quiescent_valid:
  assumes "world_inv w" and "quiescent w" and "publish\<^sup>*\<^sup>* w w'"
  shows "valid_obs (w_commits w') (w_snap w) (w_snap w, w_commit w, w_repl w)"
proof -
  have below: "x \<le> w_commit w \<and> 0 < x" if "x \<in> w_commits w'" "x \<le> w_repl w" for x
  proof -
    have "x \<in> w_commits w" using publish_later[OF assms(3)] that linorder_not_le by blast
    then show ?thesis using assms(1) by (simp add: world_inv_def)
  qed
  have "w_snap w \<noteq> NO_SNAPSHOT_LSN \<Longrightarrow> w_snap w \<le> w_commit w"
    using assms(1) unfolding world_inv_def by blast
  moreover have "behind (w_commits w') (w_snap w) (w_repl w)"
    if clean: "snapshot_is_clean (w_snap w) (w_commit w)"
  proof (cases "w_snap w = NO_SNAPSHOT_LSN")
    case True
    then have "w_commit w = 0" using clean by (simp add: snapshot_is_clean_def NO_COMMIT_LSN_def split: if_splits)
    then show ?thesis using below unfolding behind_def by (metis linorder_not_less)
  next
    case False
    then have "w_commit w = w_snap w" using clean by (simp add: snapshot_is_clean_def)
    then show ?thesis using below False unfolding behind_def by simp
  qed
  ultimately show ?thesis
    using assms(2) by (simp add: valid_obs_def quiescent_def)
qed

text \<open>
  The invariant of a run whose commits are \<open>C\<close> in the end: what was cached at any time is
  covered by the snapshot published now and by the state cached now.
\<close>

definition cache_covers :: "('r \<Rightarrow> u64 set) \<Rightarrow> u64 set \<Rightarrow> u64 \<Rightarrow> 'r readers \<Rightarrow> bool" where
  "cache_covers cov C S rd = (\<forall>m \<in> rd_past rd. last_read_lsn m \<noteq> NO_READ_LSN \<longrightarrow>
     behind C S (last_read_lsn m) \<and> complete cov C (last_read_state (rd_manager rd)) (last_read_lsn m))"

definition served_ok :: "('r \<Rightarrow> u64 set) \<Rightarrow> u64 set \<Rightarrow> u64 option \<times> u64 \<times> 'r \<Rightarrow> bool" where
  "served_ok cov C served = (case served of (requested, s, x) \<Rightarrow>
     (case requested of
        Some l \<Rightarrow> complete cov C x l
      | None \<Rightarrow> s \<noteq> NO_SNAPSHOT_LSN \<longrightarrow> complete cov C x s))"

definition readers_inv :: "('r \<Rightarrow> u64 set) \<Rightarrow> u64 set \<Rightarrow> u64 \<Rightarrow> 'r readers \<Rightarrow> bool" where
  "readers_inv cov C S rd \<longleftrightarrow> rd_manager rd \<in> rd_past rd \<and> cache_covers cov C S rd
     \<and> (\<forall>obs \<in> rd_seen rd. valid_obs C S obs) \<and> (\<forall>served \<in> rd_served rd. served_ok cov C served)"

lemma complete_mono: "complete cov C x l \<Longrightarrow> l' \<le> l \<Longrightarrow> complete cov C x l'"
  unfolding complete_def by (meson order.trans)

lemma cached_ok:
  assumes "try_read_cached requested m s c m' = Some x"
    and "last_read_lsn m \<noteq> NO_READ_LSN \<Longrightarrow> complete cov C (last_read_state m') (last_read_lsn m)"
  shows "served_ok cov C (requested, s, x)"
proof -
  have use: "should_use_cache requested (last_read_lsn m) s c" and x: "x = last_read_state m'"
    using assms(1) by (auto simp: try_read_cached_def split: if_splits)
  have s: "last_read_lsn m = s" "s \<noteq> NO_READ_LSN" and req: "\<And>l. requested = Some l \<Longrightarrow> l \<le> s"
    using use by (auto simp: should_use_cache_def Let_def sentinels split: if_splits option.splits)
  then have "complete cov C x s" using assms(2) x by simp
  then show ?thesis
    using req complete_mono unfolding served_ok_def by (cases requested) auto
qed

lemma can_satisfy_Some:
  "can_satisfy_read_from_snapshot (Some req) s r c = Ok True \<Longrightarrow>
   (s \<noteq> NO_SNAPSHOT_LSN \<and> req \<le> s) \<or> (req \<le> r \<and> snapshot_is_clean s c)"
  unfolding can_satisfy_read_from_snapshot_def check_eq_Ok res.inject option.case eq_True
  by (elim conjE)

lemma satisfied_ok:
  assumes "valid_obs C S (s, c, r)" and "can_satisfy_read_from_snapshot requested s r c = Ok True"
    and x: "s \<noteq> NO_SNAPSHOT_LSN \<Longrightarrow> complete cov C x s"
  shows "served_ok cov C (requested, s, x)"
proof (cases requested)
  case None
  then show ?thesis using x by (simp add: served_ok_def)
next
  case (Some req)
  have "complete cov C x req"
    using can_satisfy_Some[OF assms(2)[unfolded Some]]
  proof
    assume "s \<noteq> NO_SNAPSHOT_LSN \<and> req \<le> s"
    then show ?thesis by (intro complete_mono[OF x]) simp_all
  next
    assume r: "req \<le> r \<and> snapshot_is_clean s c"
    then have "behind C s r" using assms(1) by (simp add: valid_obs_def)
    from complete_mono[OF complete_behind[OF this x]] show ?thesis using r by simp
  qed
  then show ?thesis by (simp add: served_ok_def Some)
qed

lemma max_lsn: "x \<le> NO_SNAPSHOT_LSN"
  by (simp add: NO_SNAPSHOT_LSN_def)

text \<open>One iteration: what it caches and what it serves.\<close>

lemma iteration_ok:
  assumes obs: "valid_obs C S (s, c, r)"
    and cached: "last_read_lsn m \<noteq> NO_READ_LSN \<Longrightarrow> complete cov C (last_read_state m) (last_read_lsn m)"
    and outcome: "\<And>e. outcome \<noteq> TakeFailed e"
    and taken: "\<And>x. outcome = ReadTaken x \<Longrightarrow> S \<noteq> NO_SNAPSHOT_LSN \<Longrightarrow> complete cov C x S"
    and run: "try_read_iteration requested m s c r outcome = Ok (it, m')"
  shows "(m' = m \<or> (\<exists>x. outcome = ReadTaken x \<and> last_read_state m' = x
        \<and> (last_read_lsn m' \<noteq> NO_READ_LSN \<longrightarrow> behind C S (last_read_lsn m'))))
    \<and> (\<forall>x. it = Finished (Inr x) \<longrightarrow> served_ok cov C (requested, s, x))"
proof (cases "can_satisfy_read_from_snapshot requested s r c = Ok True")
  case False
  then have "m' = m" "\<And>x. it \<noteq> Finished (Inr x)"
    using run by (auto simp: try_read_iteration_def split: if_splits prod.splits)
  then show ?thesis by simp
next
  case True
  obtain res where fin: "it = Finished res"
    "read_from_snapshot_and_update_cache m s r c outcome = (res, m')"
    using run True by (auto simp: try_read_iteration_def split: prod.splits)
  have sS: "s \<noteq> NO_SNAPSHOT_LSN \<Longrightarrow> S \<noteq> NO_SNAPSHOT_LSN \<and> s \<le> S"
    using obs by (simp add: valid_obs_def)
  show ?thesis
  proof (cases "last_read_lsn m < s \<or> last_read_lsn m = NO_READ_LSN")
    case False
    have "complete cov C (last_read_state m) s"
      by (rule complete_mono[OF cached]) (use False linorder_not_less in blast)+
    moreover have "m' = m" "res = Inr (last_read_state m)"
      using fin(2) False by (auto simp: read_from_snapshot_and_update_cache_def Let_def)
    ultimately show ?thesis using satisfied_ok[OF obs True] fin(1) by simp
  next
    case read: True
    show ?thesis
    proof (cases outcome)
      case (RequestFailed e)
      then have "m' = m" "res = Inl e"
        using fin(2) read by (simp_all add: read_from_snapshot_and_update_cache_def Let_def)
      then show ?thesis using fin(1) by simp
    next
      case (TakeFailed e)
      then show ?thesis using outcome by blast
    next
      case (ReadTaken x)
      define eff where "eff = (if last_read_lsn m = NO_READ_LSN then s
        else if s = c \<and> s < r then r else s)"
      have m': "m' = m\<lparr>last_read_lsn := eff, last_read_state := x\<rparr>" and res: "res = Inr x"
        using fin(2) read ReadTaken
        by (simp_all add: read_from_snapshot_and_update_cache_def Let_def eff_def)
      have cov: "complete cov C x s" if "s \<noteq> NO_SNAPSHOT_LSN"
        using sS[OF that] by (intro complete_mono[OF taken[OF ReadTaken]]) simp_all
      have "behind C S eff" if ne: "eff \<noteq> NO_READ_LSN"
      proof (cases "eff = s")
        case True
        then have "s \<noteq> NO_SNAPSHOT_LSN" using ne by (simp add: sentinels)
        from behind_refl[of S s C] sS[OF this] show ?thesis using True by simp
      next
        case False
        then have e: "eff = r" "s = c" "s < r" by (auto simp: eff_def split: if_splits)
        have "s \<noteq> NO_SNAPSHOT_LSN" using e(3) max_lsn[of r] linorder_not_less by blast
        then have "behind C s r"
          using obs e(2) unfolding valid_obs_def snapshot_is_clean_def by simp
        from behind_later[OF this sS] show ?thesis using e(1) by simp
      qed
      then show ?thesis using satisfied_ok[OF obs True cov] by (simp add: m' fin(1) res ReadTaken)
    qed
  qed
qed

lemma reading_publishes: "reading cov a b \<Longrightarrow> publish\<^sup>*\<^sup>* (fst a) (fst b)"
  by (induction rule: reading.induct) auto

lemma reading_star_publishes: "(reading cov)\<^sup>*\<^sup>* a b \<Longrightarrow> publish\<^sup>*\<^sup>* (fst a) (fst b)"
  by (induction rule: rtranclp_induct) (auto dest: reading_publishes)

lemma readers_inv_later:
  assumes "readers_inv cov C S rd"
    and "S \<noteq> NO_SNAPSHOT_LSN \<Longrightarrow> S' \<noteq> NO_SNAPSHOT_LSN \<and> S \<le> S'"
  shows "readers_inv cov C S' rd"
  using assms(1) behind_later[OF _ assms(2)] valid_obs_later[OF _ assms(2)]
  by (simp add: readers_inv_def cache_covers_def)

lemma taken_complete:
  assumes "world_inv w" and "publish\<^sup>*\<^sup>* w w'" and "w_snap w \<noteq> NO_SNAPSHOT_LSN"
    and "complete cov (w_commits w) x (w_snap w)"
  shows "complete cov (w_commits w') x (w_snap w)"
  unfolding complete_def
proof (intro ballI impI)
  fix l assume l: "l \<in> w_commits w'" "l \<le> w_snap w"
  have "w_snap w \<le> w_commit w" using assms(1,3) by (simp add: world_inv_def)
  then have "\<not> w_commit w < l" using l(2) by (simp add: order.trans linorder_not_less)
  then have "l \<in> w_commits w" using publish_later[OF assms(2)] l(1) by blast
  then show "l \<in> cov x" using assms(4) l(2) unfolding complete_def by blast
qed

lemma reading_step_inv:
  assumes "reading cov a b" and "publish\<^sup>*\<^sup>* (fst b) w'" and "world_inv (fst a)"
    and "readers_inv cov (w_commits w') (w_snap (fst a)) (snd a)"
  shows "readers_inv cov (w_commits w') (w_snap (fst b)) (snd b)"
  using assms
proof (induction rule: reading.induct)
  case (publishes w w1 rd)
  have "publish\<^sup>*\<^sup>* w w1" using publishes(1) by blast
  from publish_later[OF this] show ?case
    using publishes(3,4) by (auto intro: readers_inv_later)
next
  case (observe w rd)
  then show ?case using quiescent_valid[of w w'] by (simp add: readers_inv_def cache_covers_def)
next
  case (serve_cached s c r rd m requested x w)
  have "served_ok cov (w_commits w') (requested, s, x)"
    by (rule cached_ok[OF serve_cached(3)])
      (use serve_cached(2,6) in \<open>simp add: readers_inv_def cache_covers_def\<close>)
  then show ?case using serve_cached(6) by (simp add: readers_inv_def cache_covers_def)
next
  case (iterate s c r rd outcome w requested it m')
  let ?C = "w_commits w'" and ?S = "w_snap w"
  note inv = iterate(7)[simplified]
  have obs: "valid_obs ?C ?S (s, c, r)" using inv iterate(1) by (simp add: readers_inv_def)
  have past: "behind ?C ?S (last_read_lsn m)
      \<and> complete cov ?C (last_read_state (rd_manager rd)) (last_read_lsn m)"
    if "m \<in> rd_past rd" "last_read_lsn m \<noteq> NO_READ_LSN" for m
    using inv that by (simp add: readers_inv_def cache_covers_def)
  have cached: "complete cov ?C (last_read_state (rd_manager rd)) (last_read_lsn (rd_manager rd))"
    if "last_read_lsn (rd_manager rd) \<noteq> NO_READ_LSN"
    using past[OF _ that] inv by (simp add: readers_inv_def)
  have taken: "complete cov ?C x ?S" if "outcome = ReadTaken x" "?S \<noteq> NO_SNAPSHOT_LSN" for x
    using taken_complete[OF _ _ that(2) iterate(3)[OF that]] iterate(5,6) by simp
  note it = iteration_ok[OF obs cached iterate(2) taken iterate(4)]
  have covers: "cache_covers cov ?C ?S (rd\<lparr>rd_manager := m', rd_past := insert m' (rd_past rd)\<rparr>)"
  proof (cases "m' = rd_manager rd")
    case True
    then show ?thesis using inv by (simp add: readers_inv_def cache_covers_def insert_absorb)
  next
    case False
    then obtain x where x: "outcome = ReadTaken x" "last_read_state m' = x"
      "last_read_lsn m' \<noteq> NO_READ_LSN \<Longrightarrow> behind ?C ?S (last_read_lsn m')"
      using it by blast
    have "complete cov ?C x l" if "behind ?C ?S l" for l
      by (rule complete_behind[OF that taken[OF x(1)]])
    then show ?thesis using past x by (simp add: cache_covers_def)
  qed
  have "served_ok cov ?C (requested, s, x)" if "it = Finished (Inr x)" for x
    using it that by simp
  then show ?case
    using inv covers
    by (auto simp: readers_inv_def cache_covers_def split: iteration.splits sum.splits)
qed

lemma start_readers_inv: "readers_inv cov C (w_snap (fst (start_reading e))) (snd (start_reading e))"
  by (simp add: readers_inv_def cache_covers_def start_reading_def new_read_state_manager_def)

lemma reading_inv:
  assumes "(reading cov)\<^sup>*\<^sup>* (start_reading e) a" and "publish\<^sup>*\<^sup>* (fst a) w'"
  shows "world_inv (fst a) \<and> readers_inv cov (w_commits w') (w_snap (fst a)) (snd a)"
  using assms
proof (induction rule: rtranclp_induct)
  case base
  have "world_inv (fst (start_reading e))" using start_world_inv by (simp add: start_reading_def)
  then show ?case by (intro conjI start_readers_inv)
next
  case (step a b)
  have ab: "publish\<^sup>*\<^sup>* (fst a) (fst b)" by (rule reading_publishes[OF step(2)])
  then have a: "world_inv (fst a) \<and> readers_inv cov (w_commits w') (w_snap (fst a)) (snd a)"
    using step.IH step.prems by (meson rtranclp_trans)
  show ?case
    using reading_step_inv[OF step(2) step.prems] a publish_star_inv[OF ab] by blast
qed


definition sample_reads :: "world \<times> u64 set readers" where
  "sample_reads =
     (start_world\<lparr>w_commits := {5}, w_commit := 5, w_repl := 5, w_snap := 5\<rparr>,
      \<lparr>rd_manager = \<lparr>last_read_lsn = 5, last_read_state = {5}\<rparr>,
       rd_past = {\<lparr>last_read_lsn = 5, last_read_state = {5}\<rparr>, new_read_state_manager {}},
       rd_seen = {(5, 5, 5)}, rd_served = {(Some 5, 5, {5})}\<rparr>)"

lemma sample_reads_run: "(reading (\<lambda>x. x))\<^sup>*\<^sup>* (start_reading {}) sample_reads"
proof -
  let ?w1 = "start_world\<lparr>w_commits := {5}, w_commit := 5\<rparr>"
  let ?w2 = "?w1\<lparr>w_repl := 5\<rparr>" and ?w3 = "?w1\<lparr>w_repl := 5, w_snap := 5\<rparr>"
  let ?rd = "snd (start_reading {}) :: u64 set readers"
  have e: "start_reading {} = (start_world, ?rd)" by (simp add: start_reading_def)
  have 1: "reading (\<lambda>x. x) (start_world, ?rd) (?w1, ?rd)"
    using publish.mark_commit[of start_world 5]
    by (auto intro!: reading.publishes simp: start_world_def sentinels)
  have 2: "reading (\<lambda>x. x) (?w1, ?rd) (?w2, ?rd)"
    using publish.mark_replication[of ?w1 5]
    by (auto intro!: reading.publishes simp: start_world_def sentinels)
  have 3: "reading (\<lambda>x. x) (?w2, ?rd) (?w3, ?rd)"
    using publish.publish_snapshot[of 5 ?w2]
    by (auto intro!: reading.publishes simp: start_world_def sentinels)
  have 4: "reading (\<lambda>x. x) (?w3, ?rd) (?w3, ?rd\<lparr>rd_seen := {(5, 5, 5)}\<rparr>)"
    using reading.observe[of ?w3 "\<lambda>x. x" ?rd]
    by (simp add: quiescent_def start_world_def start_reading_def)
  have "try_read_iteration (Some 5) (rd_manager (?rd\<lparr>rd_seen := {(5, 5, 5)}\<rparr>)) 5 5 5
      (ReadTaken {5} :: (string, u64 set) read_outcome)
    = Ok (Finished (Inr {5}), \<lparr>last_read_lsn = 5, last_read_state = {5}\<rparr>)"
    by (simp add: try_read_iteration_def can_satisfy_read_from_snapshot_def snapshot_is_clean_def
        read_from_snapshot_and_update_cache_def new_read_state_manager_def start_reading_def sentinels Let_def)
  from reading.iterate[where w = ?w3 and cov = "\<lambda>x. x", OF _ _ _ this]
  have 5: "reading (\<lambda>x. x) (?w3, ?rd\<lparr>rd_seen := {(5, 5, 5)}\<rparr>) sample_reads"
    by (simp add: sample_reads_def start_reading_def complete_def start_world_def)
  show ?thesis
    using 1[folded e] 2 3 4 5 by (meson converse_rtranclp_into_rtranclp rtranclp.rtrancl_refl)
qed


section \<open>Reads outside quiescent moments\<close>



text \<open>
  C37: the three LSNs are not borrowed together. If a commit is marked, with its replication
  LSN, between a reader's borrow of the commit LSN and of the replication LSN, a read
  requested at that commit is answered from the cached state of before it.
\<close>

theorem split_borrow_serves_stale:
  assumes "publish\<^sup>*\<^sup>* start_world w" and "quiescent w" and "w_snap w = w_commit w"
    and "last_read_lsn m = w_snap w" and "w_repl w < l" and "l \<noteq> NO_READ_LSN"
  shows "\<exists>w'. publish\<^sup>*\<^sup>* w w' \<and> l \<in> w_commits w' - w_commits w
    \<and> try_read_iteration (Some l) m (w_snap w) (w_commit w) (w_repl w') outcome
      = Ok (Finished (Inr (last_read_state m)), m)"
proof -
  let ?w1 = "w\<lparr>w_commits := insert l (w_commits w), w_commit := l\<rparr>"
  let ?w2 = "?w1\<lparr>w_repl := l\<rparr>"
  have cl: "w_commit w < l" using assms(2,5) by (simp add: quiescent_def order.strict_trans1)
  have l: "l \<noteq> NO_SNAPSHOT_LSN" using assms(6) by (simp add: sentinels)
  have "publish w ?w1" by (rule publish.mark_commit[OF assms(5) cl l])
  moreover have "publish ?w1 ?w2" by (rule publish.mark_replication) (use assms(5,6) in simp_all)
  ultimately have run: "publish\<^sup>*\<^sup>* w ?w2" by (meson r_into_rtranclp rtranclp.rtrancl_into_rtrancl)
  have inv: "world_inv w" by (rule publish_star_inv[OF assms(1) start_world_inv])
  have "l \<notin> w_commits w" using inv cl unfolding world_inv_def by (metis linorder_not_less)
  moreover have ne: "w_snap w \<noteq> NO_SNAPSHOT_LSN"
    using cl assms(3) max_lsn[of l] by (metis linorder_not_less)
  have "can_satisfy_read_from_snapshot (Some l) (w_snap w) l (w_commit w) = Ok True"
    using assms(3) cl ne
    by (simp add: can_satisfy_read_from_snapshot_def snapshot_is_clean_def)
  then have "try_read_iteration (Some l) m (w_snap w) (w_commit w) l outcome
      = Ok (Finished (Inr (last_read_state m)), m)"
    using assms(4) ne
    by (simp add: try_read_iteration_def read_from_snapshot_and_update_cache_def sentinels Let_def)
  ultimately show ?thesis using run by (intro exI[of _ ?w2]) simp
qed

theorem split_borrow_serves_stale_witness:
  "\<exists>w'. publish\<^sup>*\<^sup>* (fst sample_reads) w' \<and> 9 \<in> w_commits w' - {5}
    \<and> try_read_iteration (Some 9) \<lparr>last_read_lsn = 5, last_read_state = {5 :: u64}\<rparr> 5 5 (w_repl w')
        (RequestFailed ''unused'') = Ok (Finished (Inr {5}), \<lparr>last_read_lsn = 5, last_read_state = {5}\<rparr>)"
proof -
  have "publish\<^sup>*\<^sup>* start_world (fst sample_reads)"
    using reading_star_publishes[OF sample_reads_run] by (simp add: start_reading_def)
  from split_borrow_serves_stale[OF this, of "\<lparr>last_read_lsn = 5, last_read_state = {5}\<rparr>" 9
      "RequestFailed ''unused''"]
  show ?thesis by (simp add: sample_reads_def quiescent_def sentinels)
qed

text \<open>
  C35: a failed conversion leaves the cache marked as filled. The LSN of the cached state is
  stored before the read output is converted; when that conversion fails, the next reader
  is given the state the manager was created with, which has no data at all, for an LSN it
  does not contain.
\<close>

theorem failed_conversion_serves_empty:
  assumes "s \<noteq> NO_SNAPSHOT_LSN" and "s \<le> r" and "l \<le> s"
  shows "\<exists>m. try_read_iteration None (new_read_state_manager empty_state) s s r (TakeFailed err)
      = Ok (Finished (Inl err), m)
    \<and> try_read_cached (Some l) m s s m = Some empty_state"
proof -
  let ?m = "\<lparr>last_read_lsn = s, last_read_state = empty_state\<rparr>"
  have "try_read_iteration None (new_read_state_manager empty_state) s s r (TakeFailed err)
      = Ok (Finished (Inl err), ?m)"
    using assms(2)
    by (simp add: try_read_iteration_def can_satisfy_read_from_snapshot_def
        read_from_snapshot_and_update_cache_def new_read_state_manager_def Let_def)
  moreover have "try_read_cached (Some l) ?m s s ?m = Some empty_state"
    using assms(1,3)
    by (simp add: try_read_cached_def should_use_cache_def snapshot_is_clean_def sentinels)
  ultimately show ?thesis by blast
qed

theorem failed_conversion_serves_empty_witness:
  "\<exists>m. try_read_iteration None (new_read_state_manager ({} :: u64 set)) 5 5 6 (TakeFailed ''network'')
      = Ok (Finished (Inl ''network''), m)
    \<and> try_read_cached (Some 5) m 5 5 m = Some {}"
  using failed_conversion_serves_empty[of 5 6 5 "{} :: u64 set" "''network''"]
  by (simp add: sentinels)

end
