(* ===== verification/Mem_Index.thy ===== *)
theory Mem_Index
  imports Row_Types
begin

text \<open>
  The index over rows in memory (\<^verbatim>\<open>storage/index.rs\<close>, \<^verbatim>\<open>storage/index/mem_index.rs\<close>): from the
  lookup key of a row to where the row is. Its containers are the hash table of the
  hashbrown crate (which may hold several entries of the same hash) and the map of the
  multimap crate. Their operations are the fields of \<open>index_ops\<close>; \<open>index_ops_ok\<close> states
  their documented behaviour in terms of the entries they hold.
\<close>

section \<open>Containers\<close>

record single_primitive_key =
  spk_hash :: u64
  spk_location :: record_location

record key_with_identity =
  kwi_hash :: u64
  kwi_identity :: moonlink_row
  kwi_location :: record_location

record ('t, 'v) hash_table_ops =
  ht_new :: 't
  ht_find :: "'t \<Rightarrow> u64 \<Rightarrow> ('v \<Rightarrow> bool) \<Rightarrow> 'v option"
  ht_remove :: "'t \<Rightarrow> u64 \<Rightarrow> ('v \<Rightarrow> bool) \<Rightarrow> ('v \<times> 't) option"
  ht_insert_unique :: "'t \<Rightarrow> u64 \<Rightarrow> 'v \<Rightarrow> 't"
  ht_is_empty :: "'t \<Rightarrow> bool"
  ht_iter :: "'t \<Rightarrow> 'v list"

record 'm multi_map_ops =
  mm_new :: 'm
  mm_get_vec :: "'m \<Rightarrow> u64 \<Rightarrow> record_location list option"
  mm_insert :: "'m \<Rightarrow> u64 \<Rightarrow> record_location \<Rightarrow> 'm"
  mm_is_empty :: "'m \<Rightarrow> bool"
  mm_flat_iter :: "'m \<Rightarrow> (u64 \<times> record_location) list"

record ('s, 'k, 'm) index_ops =
  ix_single :: "('s, single_primitive_key) hash_table_ops"
  ix_key :: "('k, key_with_identity) hash_table_ops"
  ix_multi :: "'m multi_map_ops"

text \<open>
  A table holds the multiset of what its iterator yields. A search finds some entry that
  satisfies the predicate if there is one with the hash searched for; which one is left
  open.
\<close>

definition hash_table_ok :: "('v \<Rightarrow> u64) \<Rightarrow> ('t, 'v) hash_table_ops \<Rightarrow> bool" where
  "hash_table_ok hash_of ops \<longleftrightarrow>
     ht_iter ops (ht_new ops) = []
     \<and> (\<forall>t. ht_is_empty ops t \<longleftrightarrow> ht_iter ops t = [])
     \<and> (\<forall>t v. mset (ht_iter ops (ht_insert_unique ops t (hash_of v) v)) = add_mset v (mset (ht_iter ops t)))
     \<and> (\<forall>t h eq. case ht_find ops t h eq of
          None \<Rightarrow> (\<forall>v \<in> set (ht_iter ops t). hash_of v = h \<longrightarrow> \<not> eq v)
        | Some v \<Rightarrow> v \<in> set (ht_iter ops t) \<and> eq v)
     \<and> (\<forall>t h eq. case ht_remove ops t h eq of
          None \<Rightarrow> (\<forall>v \<in> set (ht_iter ops t). hash_of v = h \<longrightarrow> \<not> eq v)
        | Some (v, t') \<Rightarrow> v \<in> set (ht_iter ops t) \<and> eq v
            \<and> mset (ht_iter ops t) = add_mset v (mset (ht_iter ops t')))"

definition multi_map_ok :: "'m multi_map_ops \<Rightarrow> bool" where
  "multi_map_ok ops \<longleftrightarrow>
     mm_flat_iter ops (mm_new ops) = []
     \<and> (\<forall>m. mm_is_empty ops m \<longleftrightarrow> mm_flat_iter ops m = [])
     \<and> (\<forall>m k loc. mset (mm_flat_iter ops (mm_insert ops m k loc)) = add_mset (k, loc) (mset (mm_flat_iter ops m)))
     \<and> (\<forall>m k. mset (case mm_get_vec ops m k of None \<Rightarrow> [] | Some ls \<Rightarrow> ls)
          = image_mset snd (filter_mset (\<lambda>p. fst p = k) (mset (mm_flat_iter ops m))))"

definition index_ops_ok :: "('s, 'k, 'm) index_ops \<Rightarrow> bool" where
  "index_ops_ok ops \<longleftrightarrow> hash_table_ok spk_hash (ix_single ops) \<and> hash_table_ok kwi_hash (ix_key ops)
     \<and> multi_map_ok (ix_multi ops)"

section \<open>The index\<close>

datatype ('s, 'k, 'm) mem_index =
    SinglePrimitive 's
  | KeyIndex 'k
  | FullRowIndex 'm
  | NoIndex

definition new_mem_index :: "('s, 'k, 'm) index_ops \<Rightarrow> identity_prop \<Rightarrow> ('s, 'k, 'm) mem_index" where
  "new_mem_index ops ident = (case ident of
       SinglePrimitiveKey _ \<Rightarrow> SinglePrimitive (ht_new (ix_single ops))
     | Keys _ \<Rightarrow> KeyIndex (ht_new (ix_key ops))
     | FullRow \<Rightarrow> FullRowIndex (mm_new (ix_multi ops))
     | IdentityNone \<Rightarrow> NoIndex)"

definition new_like :: "('s, 'k, 'm) index_ops \<Rightarrow> ('s, 'k, 'm) mem_index \<Rightarrow> ('s, 'k, 'm) mem_index" where
  "new_like ops other = (case other of
       SinglePrimitive _ \<Rightarrow> SinglePrimitive (ht_new (ix_single ops))
     | KeyIndex _ \<Rightarrow> KeyIndex (ht_new (ix_key ops))
     | FullRowIndex _ \<Rightarrow> FullRowIndex (mm_new (ix_multi ops))
     | NoIndex \<Rightarrow> NoIndex)"

definition allow_duplicate :: "('s, 'k, 'm) mem_index \<Rightarrow> bool res" where
  "allow_duplicate idx = (case idx of
       SinglePrimitive _ \<Rightarrow> Ok False
     | KeyIndex _ \<Rightarrow> Ok False
     | FullRowIndex _ \<Rightarrow> Ok True
     | NoIndex \<Rightarrow> Panic ExplicitPanic)"

text \<open>
  The predicates passed to the table. The one for keys unwraps the identity of the record:
  with an empty table it is never called; otherwise the model takes a record without
  identity to panic.
\<close>

definition same_identity :: "raw_deletion_record \<Rightarrow> key_with_identity \<Rightarrow> bool" where
  "same_identity raw k = (case rd_row_identity raw of
       Some row \<Rightarrow> row_values_eq (row_values (kwi_identity k)) (row_values row)
     | None \<Rightarrow> False)"

definition find_record ::
  "('s, 'k, 'm) index_ops \<Rightarrow> ('s, 'k, 'm) mem_index \<Rightarrow> raw_deletion_record \<Rightarrow> record_location list res" where
  "find_record ops idx raw = (case idx of
       SinglePrimitive t \<Rightarrow>
         (case ht_find (ix_single ops) t (rd_lookup_key raw) (\<lambda>k. spk_hash k = rd_lookup_key raw) of
            Some e \<Rightarrow> Ok [spk_location e]
          | None \<Rightarrow> Ok [])
     | KeyIndex t \<Rightarrow>
         check (ht_is_empty (ix_key ops) t \<or> rd_row_identity raw \<noteq> None) UnwrapNone (
         case ht_find (ix_key ops) t (rd_lookup_key raw) (same_identity raw) of
            Some e \<Rightarrow> Ok [kwi_location e]
          | None \<Rightarrow> Ok [])
     | FullRowIndex m \<Rightarrow>
         (case mm_get_vec (ix_multi ops) m (rd_lookup_key raw) of
            Some locations \<Rightarrow> Ok locations
          | None \<Rightarrow> Ok [])
     | NoIndex \<Rightarrow> Panic ExplicitPanic)"

definition fast_delete ::
  "('s, 'k, 'm) index_ops \<Rightarrow> ('s, 'k, 'm) mem_index \<Rightarrow> raw_deletion_record \<Rightarrow>
   (record_location option \<times> ('s, 'k, 'm) mem_index) res" where
  "fast_delete ops idx raw = (case idx of
       SinglePrimitive t \<Rightarrow>
         (case ht_remove (ix_single ops) t (rd_lookup_key raw) (\<lambda>k. spk_hash k = rd_lookup_key raw) of
            Some (e, t') \<Rightarrow> Ok (Some (spk_location e), SinglePrimitive t')
          | None \<Rightarrow> Ok (None, idx))
     | KeyIndex t \<Rightarrow>
         check (ht_is_empty (ix_key ops) t \<or> rd_row_identity raw \<noteq> None) UnwrapNone (
         case ht_remove (ix_key ops) t (rd_lookup_key raw)
             (\<lambda>k. kwi_hash k = rd_lookup_key raw \<and> same_identity raw k) of
            Some (e, t') \<Rightarrow> Ok (Some (kwi_location e), KeyIndex t')
          | None \<Rightarrow> Ok (None, idx))
     | FullRowIndex m \<Rightarrow> Panic ExplicitPanic
     | NoIndex \<Rightarrow> Panic ExplicitPanic)"

definition insert_index ::
  "('s, 'k, 'm) index_ops \<Rightarrow> ('s, 'k, 'm) mem_index \<Rightarrow> u64 \<Rightarrow> moonlink_row option \<Rightarrow> record_location \<Rightarrow>
   ('s, 'k, 'm) mem_index res" where
  "insert_index ops idx key identity_for_key location = (case idx of
       SinglePrimitive t \<Rightarrow>
         check (identity_for_key = None) AssertFailed (
           Ok (SinglePrimitive (ht_insert_unique (ix_single ops) t key
             \<lparr>spk_hash = key, spk_location = location\<rparr>)))
     | KeyIndex t \<Rightarrow>
         unwrap identity_for_key (\<lambda>row.
           Ok (KeyIndex (ht_insert_unique (ix_key ops) t key
             \<lparr>kwi_hash = key, kwi_identity = row, kwi_location = location\<rparr>)))
     | FullRowIndex m \<Rightarrow>
         check (identity_for_key = None) AssertFailed (
           Ok (FullRowIndex (mm_insert (ix_multi ops) m key location)))
     | NoIndex \<Rightarrow> Panic ExplicitPanic)"

definition index_is_empty :: "('s, 'k, 'm) index_ops \<Rightarrow> ('s, 'k, 'm) mem_index \<Rightarrow> bool" where
  "index_is_empty ops idx = (case idx of
       SinglePrimitive t \<Rightarrow> ht_is_empty (ix_single ops) t
     | KeyIndex t \<Rightarrow> ht_is_empty (ix_key ops) t
     | FullRowIndex m \<Rightarrow> mm_is_empty (ix_multi ops) m
     | NoIndex \<Rightarrow> True)"

text \<open>
  Where the rows of flushed batches went: \<open>batch_id_to_idx\<close> numbers the batches and
  \<open>row_offset_mapping\<close> gives for each of their rows the file and row it is written to.
\<close>

definition remap_location ::
  "(u64 \<rightharpoonup> nat) \<Rightarrow> (nat \<times> nat) option list list \<Rightarrow> u64 \<times> record_location \<Rightarrow>
   (u64 \<times> nat \<times> nat) option res" where
  "remap_location batch_id_to_idx row_offset_mapping entry = (case entry of (key, location) \<Rightarrow>
     (case location of
        MemoryBatch batch_id row_idx \<Rightarrow>
          unwrap (batch_id_to_idx batch_id) (\<lambda>idx.
          res_bind (index_res row_offset_mapping idx) (\<lambda>offsets.
          res_bind (index_res offsets row_idx) (\<lambda>new_location.
          Ok (map_option (\<lambda>(file, row). (key, file, row)) new_location))))
      | DiskFile _ _ \<Rightarrow> Panic ExplicitPanic))"

fun filter_map_res :: "('a \<Rightarrow> 'b option res) \<Rightarrow> 'a list \<Rightarrow> 'b list res" where
  "filter_map_res f [] = Ok []"
| "filter_map_res f (x # xs) =
     res_bind (f x) (\<lambda>y. res_bind (filter_map_res f xs) (\<lambda>ys.
     Ok (case y of None \<Rightarrow> ys | Some z \<Rightarrow> z # ys)))"

definition remap_into_vec ::
  "('s, 'k, 'm) index_ops \<Rightarrow> ('s, 'k, 'm) mem_index \<Rightarrow> (u64 \<rightharpoonup> nat) \<Rightarrow>
   (nat \<times> nat) option list list \<Rightarrow> (u64 \<times> nat \<times> nat) list res" where
  "remap_into_vec ops idx batch_id_to_idx row_offset_mapping = (case idx of
       SinglePrimitive t \<Rightarrow>
         filter_map_res (\<lambda>v. remap_location batch_id_to_idx row_offset_mapping (spk_hash v, spk_location v))
           (ht_iter (ix_single ops) t)
     | KeyIndex t \<Rightarrow>
         filter_map_res (\<lambda>v. remap_location batch_id_to_idx row_offset_mapping (kwi_hash v, kwi_location v))
           (ht_iter (ix_key ops) t)
     | FullRowIndex m \<Rightarrow>
         filter_map_res (remap_location batch_id_to_idx row_offset_mapping) (mm_flat_iter (ix_multi ops) m)
     | NoIndex \<Rightarrow> Panic ExplicitPanic)"

section \<open>Entries\<close>

text \<open>An index is the multiset of its entries: key, identity (if kept) and location.\<close>

type_synonym index_entry = "u64 \<times> moonlink_row option \<times> record_location"

definition index_entries ::
  "('s, 'k, 'm) index_ops \<Rightarrow> ('s, 'k, 'm) mem_index \<Rightarrow> index_entry multiset" where
  "index_entries ops idx = (case idx of
       SinglePrimitive t \<Rightarrow>
         image_mset (\<lambda>v. (spk_hash v, None, spk_location v)) (mset (ht_iter (ix_single ops) t))
     | KeyIndex t \<Rightarrow>
         image_mset (\<lambda>v. (kwi_hash v, Some (kwi_identity v), kwi_location v)) (mset (ht_iter (ix_key ops) t))
     | FullRowIndex m \<Rightarrow>
         image_mset (\<lambda>(k, loc). (k, None, loc)) (mset (mm_flat_iter (ix_multi ops) m))
     | NoIndex \<Rightarrow> {#})"

definition entry_matches :: "raw_deletion_record \<Rightarrow> index_entry \<Rightarrow> bool" where
  "entry_matches raw e = (case e of (key, ident, _) \<Rightarrow> key = rd_lookup_key raw
     \<and> (\<forall>row. ident = Some row \<longrightarrow> (\<exists>r. rd_row_identity raw = Some r
           \<and> row_values_eq (row_values row) (row_values r))))"

abbreviation entry_location :: "index_entry \<Rightarrow> record_location" where
  "entry_location e \<equiv> snd (snd e)"

lemma hash_table_okD:
  assumes "hash_table_ok hash_of ops"
  shows "ht_iter ops (ht_new ops) = []" and "ht_is_empty ops t \<longleftrightarrow> ht_iter ops t = []"
    and "h = hash_of v \<Longrightarrow> mset (ht_iter ops (ht_insert_unique ops t h v)) = add_mset v (mset (ht_iter ops t))"
    and "ht_find ops t h eq = None \<Longrightarrow> v \<in> set (ht_iter ops t) \<Longrightarrow> hash_of v = h \<Longrightarrow> \<not> eq v"
    and "ht_find ops t h eq = Some v \<Longrightarrow> v \<in> set (ht_iter ops t) \<and> eq v"
    and "ht_remove ops t h eq = None \<Longrightarrow> v \<in> set (ht_iter ops t) \<Longrightarrow> hash_of v = h \<Longrightarrow> \<not> eq v"
    and "ht_remove ops t h eq = Some (v, t') \<Longrightarrow> v \<in> set (ht_iter ops t) \<and> eq v
      \<and> mset (ht_iter ops t) = add_mset v (mset (ht_iter ops t'))"
proof -
  note ok = assms[unfolded hash_table_ok_def]
  show "ht_iter ops (ht_new ops) = []" "ht_is_empty ops t \<longleftrightarrow> ht_iter ops t = []"
    "h = hash_of v \<Longrightarrow> mset (ht_iter ops (ht_insert_unique ops t h v)) = add_mset v (mset (ht_iter ops t))"
    using ok by simp_all
  have f: "case ht_find ops t h eq of None \<Rightarrow> (\<forall>v \<in> set (ht_iter ops t). hash_of v = h \<longrightarrow> \<not> eq v)
    | Some v \<Rightarrow> v \<in> set (ht_iter ops t) \<and> eq v" using ok by blast
  show "ht_find ops t h eq = None \<Longrightarrow> v \<in> set (ht_iter ops t) \<Longrightarrow> hash_of v = h \<Longrightarrow> \<not> eq v"
    "ht_find ops t h eq = Some v \<Longrightarrow> v \<in> set (ht_iter ops t) \<and> eq v" using f by auto
  have r: "case ht_remove ops t h eq of None \<Rightarrow> (\<forall>v \<in> set (ht_iter ops t). hash_of v = h \<longrightarrow> \<not> eq v)
    | Some (v, t') \<Rightarrow> v \<in> set (ht_iter ops t) \<and> eq v
        \<and> mset (ht_iter ops t) = add_mset v (mset (ht_iter ops t'))" using ok by blast
  show "ht_remove ops t h eq = None \<Longrightarrow> v \<in> set (ht_iter ops t) \<Longrightarrow> hash_of v = h \<Longrightarrow> \<not> eq v"
    "ht_remove ops t h eq = Some (v, t') \<Longrightarrow> v \<in> set (ht_iter ops t) \<and> eq v
      \<and> mset (ht_iter ops t) = add_mset v (mset (ht_iter ops t'))" using r by auto
qed

lemma multi_map_okD:
  assumes "multi_map_ok ops"
  shows "mm_flat_iter ops (mm_new ops) = []" and "mm_is_empty ops m \<longleftrightarrow> mm_flat_iter ops m = []"
    and "mset (mm_flat_iter ops (mm_insert ops m k loc)) = add_mset (k, loc) (mset (mm_flat_iter ops m))"
    and "mset (case mm_get_vec ops m k of None \<Rightarrow> [] | Some ls \<Rightarrow> ls)
          = image_mset snd (filter_mset (\<lambda>p. fst p = k) (mset (mm_flat_iter ops m)))"
  using assms by (simp_all add: multi_map_ok_def)

lemma index_ops_okD:
  assumes "index_ops_ok ops"
  shows "hash_table_ok spk_hash (ix_single ops)" "hash_table_ok kwi_hash (ix_key ops)"
    "multi_map_ok (ix_multi ops)"
  using assms by (simp_all add: index_ops_ok_def)

lemma index_entries_new [simp]:
  assumes "index_ops_ok ops"
  shows "index_entries ops (new_mem_index ops ident) = {#}" "index_entries ops (new_like ops idx) = {#}"
  using hash_table_okD(1)[OF index_ops_okD(1)[OF assms]] hash_table_okD(1)[OF index_ops_okD(2)[OF assms]]
    multi_map_okD(1)[OF index_ops_okD(3)[OF assms]]
  by (auto simp: index_entries_def new_mem_index_def new_like_def split: identity_prop.splits mem_index.splits)

lemma insert_index_spec:
  assumes "index_ops_ok ops" and "insert_index ops idx key ident loc = Ok idx'"
  shows "index_entries ops idx' = add_mset (key, ident, loc) (index_entries ops idx)"
    and "allow_duplicate idx' = allow_duplicate idx"
  using assms(2)
  by (auto simp: insert_index_def index_entries_def allow_duplicate_def
      hash_table_okD(3)[OF index_ops_okD(1)[OF assms(1)]] hash_table_okD(3)[OF index_ops_okD(2)[OF assms(1)]]
      multi_map_okD(3)[OF index_ops_okD(3)[OF assms(1)]] split: mem_index.splits)

lemma fast_delete_spec:
  assumes ok: "index_ops_ok ops" and del: "fast_delete ops idx raw = Ok (res, idx')"
  shows "allow_duplicate idx = Ok False \<and> allow_duplicate idx' = Ok False
    \<and> (case res of
         Some loc \<Rightarrow> (\<exists>e. e \<in># index_entries ops idx \<and> entry_matches raw e \<and> entry_location e = loc
           \<and> index_entries ops idx = add_mset e (index_entries ops idx'))
       | None \<Rightarrow> idx' = idx \<and> (\<forall>e \<in># index_entries ops idx. \<not> entry_matches raw e))"
proof (cases idx)
  case (SinglePrimitive t)
  let ?eq = "\<lambda>k. spk_hash k = rd_lookup_key raw"
  note T = hash_table_okD[OF index_ops_okD(1)[OF ok]]
  show ?thesis
  proof (cases "ht_remove (ix_single ops) t (rd_lookup_key raw) ?eq")
    case None
    have "\<not> entry_matches raw (spk_hash v, None, spk_location v)"
      if "v \<in> set (ht_iter (ix_single ops) t)" for v
      using T(6)[OF None that] by (auto simp: entry_matches_def)
    then show ?thesis
      using del SinglePrimitive None
      by (auto simp: fast_delete_def allow_duplicate_def index_entries_def)
  next
    case (Some p)
    then obtain e t' where p: "ht_remove (ix_single ops) t (rd_lookup_key raw) ?eq = Some (e, t')"
      by (cases p) auto
    note r = T(7)[OF p]
    show ?thesis
      using del SinglePrimitive p r
      by (auto simp: fast_delete_def allow_duplicate_def index_entries_def entry_matches_def
          intro!: exI[of _ "(spk_hash e, None, spk_location e)"])
  qed
next
  case (KeyIndex t)
  let ?eq = "\<lambda>k. kwi_hash k = rd_lookup_key raw \<and> same_identity raw k"
  note T = hash_table_okD[OF index_ops_okD(2)[OF ok]]
  have same: "entry_matches raw (kwi_hash v, Some (kwi_identity v), kwi_location v) \<longleftrightarrow> ?eq v" for v
    by (auto simp: entry_matches_def same_identity_def split: option.splits)
  have ne: "rd_row_identity raw = None \<Longrightarrow> ht_iter (ix_key ops) t = []"
    using del KeyIndex T(2) by (auto simp: fast_delete_def)
  show ?thesis
  proof (cases "ht_remove (ix_key ops) t (rd_lookup_key raw) ?eq")
    case None
    have "\<not> entry_matches raw (kwi_hash v, Some (kwi_identity v), kwi_location v)"
      if "v \<in> set (ht_iter (ix_key ops) t)" for v
      using T(6)[OF None that] same by auto
    then show ?thesis
      using del KeyIndex None
      by (auto simp: fast_delete_def allow_duplicate_def index_entries_def)
  next
    case (Some p)
    then obtain e t' where p: "ht_remove (ix_key ops) t (rd_lookup_key raw) ?eq = Some (e, t')"
      by (cases p) auto
    note r = T(7)[OF p]
    have "entry_matches raw (kwi_hash e, Some (kwi_identity e), kwi_location e)" using r same[of e] by blast
    then show ?thesis
      using del KeyIndex p r
      by (auto simp: fast_delete_def allow_duplicate_def index_entries_def
          intro!: exI[of _ "(kwi_hash e, Some (kwi_identity e), kwi_location e)"])
  qed
qed (use del in \<open>auto simp: fast_delete_def\<close>)

lemma find_record_FullRow:
  assumes "index_ops_ok ops" and "allow_duplicate idx = Ok True"
  shows "\<exists>locs. find_record ops idx raw = Ok locs \<and> mset locs =
    image_mset entry_location (filter_mset (\<lambda>e. fst e = rd_lookup_key raw) (index_entries ops idx))"
proof -
  obtain m where m: "idx = FullRowIndex m"
    using assms(2) by (auto simp: allow_duplicate_def split: mem_index.splits)
  let ?locs = "case mm_get_vec (ix_multi ops) m (rd_lookup_key raw) of None \<Rightarrow> [] | Some ls \<Rightarrow> ls"
  have "find_record ops idx raw = Ok ?locs" by (simp add: find_record_def m split: option.splits)
  moreover have "image_mset entry_location (filter_mset (\<lambda>e. fst e = rd_lookup_key raw) (index_entries ops idx))
      = image_mset snd (filter_mset (\<lambda>p. fst p = rd_lookup_key raw) (mset (mm_flat_iter (ix_multi ops) m)))"
    by (simp add: index_entries_def m filter_mset_image_mset image_mset.compositionality comp_def
        case_prod_unfold)
  ultimately show ?thesis
    using multi_map_okD(4)[OF index_ops_okD(3)[OF assms(1)], of m "rd_lookup_key raw"] by auto
qed

section \<open>Concrete containers\<close>

text \<open>Lists satisfy what is assumed of the crates.\<close>

definition list_table :: "('v list, 'v) hash_table_ops" where
  "list_table = \<lparr>ht_new = [], ht_find = (\<lambda>t h eq. find eq t),
     ht_remove = (\<lambda>t h eq. map_option (\<lambda>v. (v, remove1 v t)) (find eq t)),
     ht_insert_unique = (\<lambda>t h v. t @ [v]), ht_is_empty = (\<lambda>t. t = []), ht_iter = (\<lambda>t. t)\<rparr>"

definition list_multi_map :: "(u64 \<times> record_location) list multi_map_ops" where
  "list_multi_map = \<lparr>mm_new = [],
     mm_get_vec = (\<lambda>m k. let ls = map snd (filter (\<lambda>p. fst p = k) m) in if ls = [] then None else Some ls),
     mm_insert = (\<lambda>m k loc. m @ [(k, loc)]), mm_is_empty = (\<lambda>m. m = []), mm_flat_iter = (\<lambda>m. m)\<rparr>"

definition list_index ::
  "(single_primitive_key list, key_with_identity list, (u64 \<times> record_location) list) index_ops" where
  "list_index = \<lparr>ix_single = list_table, ix_key = list_table, ix_multi = list_multi_map\<rparr>"

lemma find_Some_mset: "find P xs = Some x \<Longrightarrow> x \<in> set xs \<and> P x \<and> mset xs = add_mset x (mset (remove1 x xs))"
  by (induction xs) (auto split: if_splits)

lemma list_table_ok: "hash_table_ok hash_of list_table"
  unfolding hash_table_ok_def list_table_def
  by (auto simp: find_None_iff dest: find_Some_mset split: option.splits)

lemma list_multi_map_ok: "multi_map_ok list_multi_map"
proof -
  have "mset (case (let ls = map snd (filter (\<lambda>p. fst p = k) m) in if ls = [] then None else Some ls)
      of None \<Rightarrow> [] | Some ls \<Rightarrow> ls) = image_mset snd (filter_mset (\<lambda>p. fst p = k) (mset m))"
    for m :: "(u64 \<times> record_location) list" and k
    by (simp add: Let_def flip: mset_filter mset_map)
  then show ?thesis by (simp add: multi_map_ok_def list_multi_map_def)
qed

lemma list_index_ok: "index_ops_ok list_index"
  by (simp add: index_ops_ok_def list_index_def list_table_ok list_multi_map_ok)

end
