(* ===== verification/Arrow_Columns.thy ===== *)
theory Arrow_Columns
  imports Row_Types Deletion_Vector
begin

text \<open>
  Column builders (\<^verbatim>\<open>row/column_array_builder.rs\<close>): the values of the rows of a batch are
  appended column by column, and a finished builder is an arrow array. Arrays are the data
  of the arrow columnar format: a validity bit and a physical value per slot, offsets into a
  child array for lists, one child array per field for structs. What the arrow crate computes
  on them (casts, the checked constructors of nested arrays, record batches, and what it stores in the
  slot of a null) are fields of \<open>arrow_ops\<close>; \<open>arrow_ops_ok\<close> states their documented behaviour.
  Builders are assumed not to outgrow the 32-bit offsets of string and binary arrays.
\<close>

section \<open>Types and arrays\<close>

datatype time_unit = Second | Millisecond | Microsecond | Nanosecond

datatype data_type =
    DtBoolean
  | DtInt16
  | DtInt32
  | DtInt64
  | DtDate32
  | DtTimestamp time_unit "string option"
  | DtTime64 time_unit
  | DtFloat32
  | DtFloat64
  | DtDecimal128 nat int
  | DtUtf8
  | DtFixedSizeBinary nat
  | DtBinary
  | DtList arrow_field
  | DtStruct "arrow_field list"
  | DtMap arrow_field bool
  | DtOther nat
and arrow_field = ArrowField (field_name: string) (field_type: data_type) (field_nullable: bool)

type_synonym 'a slots = "(bool \<times> 'a) list"

datatype arrow_array =
    BooleanArray "bool slots"
  | Int16Array "16 word slots"
  | Int32Array "32 word slots"
  | Int64Array "64 word slots"
  | Date32Array "32 word slots"
  | TimestampArray time_unit "string option" "64 word slots"
  | Time64Array time_unit "64 word slots"
  | Float32Array "32 word slots"
  | Float64Array "64 word slots"
  | Decimal128Array nat int "128 word slots"
  | StringArray "u8 list slots"
  | FixedSizeBinaryArray nat "u8 list slots"
  | BinaryArray "u8 list slots"
  | ListArray arrow_field "int list" arrow_array "bool list"
  | LargeListArray arrow_field "int list" arrow_array "bool list"
  | FixedSizeListArray arrow_field nat arrow_array "bool list"
  | StructArray "arrow_field list" "arrow_array list" "bool list"
  | MapArray arrow_field "int list" arrow_array "bool list" bool

fun array_type :: "arrow_array \<Rightarrow> data_type" where
  "array_type (BooleanArray _) = DtBoolean"
| "array_type (Int16Array _) = DtInt16"
| "array_type (Int32Array _) = DtInt32"
| "array_type (Int64Array _) = DtInt64"
| "array_type (Date32Array _) = DtDate32"
| "array_type (TimestampArray u tz _) = DtTimestamp u tz"
| "array_type (Time64Array u _) = DtTime64 u"
| "array_type (Float32Array _) = DtFloat32"
| "array_type (Float64Array _) = DtFloat64"
| "array_type (Decimal128Array p s _) = DtDecimal128 p s"
| "array_type (StringArray _) = DtUtf8"
| "array_type (FixedSizeBinaryArray n _) = DtFixedSizeBinary n"
| "array_type (BinaryArray _) = DtBinary"
| "array_type (ListArray f _ _ _) = DtList f"
| "array_type (LargeListArray f _ _ _) = DtOther 0"
| "array_type (FixedSizeListArray f _ _ _) = DtOther 1"
| "array_type (StructArray fs _ _) = DtStruct fs"
| "array_type (MapArray f _ _ _ ordered) = DtMap f ordered"

fun array_validity :: "arrow_array \<Rightarrow> bool list" where
  "array_validity (BooleanArray s) = map fst s"
| "array_validity (Int16Array s) = map fst s"
| "array_validity (Int32Array s) = map fst s"
| "array_validity (Int64Array s) = map fst s"
| "array_validity (Date32Array s) = map fst s"
| "array_validity (TimestampArray _ _ s) = map fst s"
| "array_validity (Time64Array _ s) = map fst s"
| "array_validity (Float32Array s) = map fst s"
| "array_validity (Float64Array s) = map fst s"
| "array_validity (Decimal128Array _ _ s) = map fst s"
| "array_validity (StringArray s) = map fst s"
| "array_validity (FixedSizeBinaryArray _ s) = map fst s"
| "array_validity (BinaryArray s) = map fst s"
| "array_validity (ListArray _ _ _ nulls) = nulls"
| "array_validity (LargeListArray _ _ _ nulls) = nulls"
| "array_validity (FixedSizeListArray _ _ _ nulls) = nulls"
| "array_validity (StructArray _ _ nulls) = nulls"
| "array_validity (MapArray _ _ _ nulls _) = nulls"

abbreviation array_len :: "arrow_array \<Rightarrow> nat" where
  "array_len a \<equiv> length (array_validity a)"

section \<open>What the arrow crate provides\<close>

record 'b arrow_ops = "'b arrow_batches" +
  null_bool :: bool
  null_i32 :: "32 word"
  null_i64 :: "64 word"
  null_f32 :: "32 word"
  null_f64 :: "64 word"
  null_i128 :: "128 word"
  null_bytes :: "u8 list"
  null_fixed :: "nat \<Rightarrow> u8 list"
  valid_precision :: "nat \<Rightarrow> int \<Rightarrow> bool"
  arrow_cast :: "arrow_array \<Rightarrow> data_type \<Rightarrow> arrow_array option"
  list_array_new :: "arrow_field \<Rightarrow> int list \<Rightarrow> arrow_array \<Rightarrow> bool list \<Rightarrow> arrow_array res"
  map_array_new :: "arrow_field \<Rightarrow> int list \<Rightarrow> arrow_array \<Rightarrow> bool list \<Rightarrow> bool \<Rightarrow> arrow_array res"
  struct_array_new :: "arrow_field list \<Rightarrow> arrow_array list \<Rightarrow> bool list \<Rightarrow> arrow_array res"
  rb_columns :: "'b \<Rightarrow> arrow_array list"
  rb_try_new :: "arrow_field list \<Rightarrow> arrow_array list \<Rightarrow> string + 'b"

text \<open>
  A cast to a type of the same physical representation keeps the slots; a cast to 16 bits
  turns values that do not fit into nulls.
\<close>

definition narrow_slot :: "bool \<times> 32 word \<Rightarrow> bool \<times> 16 word" where
  "narrow_slot s = (fst s \<and> - (2 ^ 15) \<le> sint (snd s) \<and> sint (snd s) < 2 ^ 15, scast (snd s))"

definition arrow_cast_ok :: "('b, 'z) arrow_ops_scheme \<Rightarrow> bool" where
  "arrow_cast_ok ops \<longleftrightarrow>
     (\<forall>s. arrow_cast ops (Int32Array s) DtDate32 = Some (Date32Array s))
     \<and> (\<forall>s. \<exists>t. arrow_cast ops (Int32Array s) DtInt16 = Some (Int16Array t) \<and> length t = length s
          \<and> (\<forall>i < length s. fst (t ! i) = fst (narrow_slot (s ! i))
               \<and> (fst (t ! i) \<longrightarrow> snd (t ! i) = snd (narrow_slot (s ! i)))))
     \<and> (\<forall>s u tz. arrow_cast ops (Int64Array s) (DtTimestamp u tz) = Some (TimestampArray u tz s))
     \<and> (\<forall>s u. arrow_cast ops (Int64Array s) (DtTime64 u) = Some (Time64Array u s))"

text \<open>
  The constructors check that the offsets are non-negative, increasing and within the
  child array, that lengths and types agree, and that a field that is not nullable has no
  nulls.
\<close>

abbreviation field_allows :: "arrow_field \<Rightarrow> arrow_array \<Rightarrow> bool" where
  "field_allows f a \<equiv> array_type a = field_type f \<and> (field_nullable f \<or> (\<forall>v \<in> set (array_validity a). v))"

abbreviation offsets_ok :: "int list \<Rightarrow> nat \<Rightarrow> nat \<Rightarrow> bool" where
  "offsets_ok offs n limit \<equiv> length offs = Suc n \<and> sorted offs \<and> 0 \<le> hd offs \<and> List.last offs \<le> int limit"

definition nested_new_ok :: "('b, 'z) arrow_ops_scheme \<Rightarrow> bool" where
  "nested_new_ok ops \<longleftrightarrow>
     (\<forall>f offs a nulls. field_allows f a \<and> offsets_ok offs (length nulls) (array_len a) \<longrightarrow>
        list_array_new ops f offs a nulls = Ok (ListArray f offs a nulls))
     \<and> (\<forall>f offs fs as vs nulls ordered. field_allows f (StructArray fs as vs) \<and> length fs = 2
          \<and> offsets_ok offs (length nulls) (length vs) \<longrightarrow>
        map_array_new ops f offs (StructArray fs as vs) nulls ordered
          = Ok (MapArray f offs (StructArray fs as vs) nulls ordered))
     \<and> (\<forall>fs as nulls. list_all2 field_allows fs as \<and> (\<forall>a \<in> set as. array_len a = length nulls) \<longrightarrow>
        struct_array_new ops fs as nulls = Ok (StructArray fs as nulls))"

section \<open>Builders\<close>

datatype column_array_builder =
    BBoolean "bool slots"
  | BInt32 "32 word slots"
  | BInt64 "64 word slots"
  | BFloat32 "32 word slots"
  | BFloat64 "64 word slots"
  | BDecimal128 nat int "128 word slots"
  | BUtf8 "u8 list slots"
  | BFixedSizeBinary nat "u8 list slots"
  | BBinary "u8 list slots"
  | BList list_builder_helper
  | BStruct struct_builder_helper
  | BMap list_builder_helper
and list_builder_helper = ListBuilderHelper (lb_field: arrow_field) (lb_offsets: "int list")
    (lb_nulls: "bool list") (lb_inner: column_array_builder) (lb_len: nat)
and struct_builder_helper = StructBuilderHelper (sb_fields: "(arrow_field \<times> column_array_builder) list")
    (sb_nulls: "bool list") (sb_len: nat)

fun is_struct_of :: "nat \<Rightarrow> data_type \<Rightarrow> bool" where
  "is_struct_of n (DtStruct fs) = (length fs = n)"
| "is_struct_of n _ = False"

fun new_builder :: "('b, 'z) arrow_ops_scheme \<Rightarrow> data_type \<Rightarrow> column_array_builder res"
  and new_list_builder :: "('b, 'z) arrow_ops_scheme \<Rightarrow> arrow_field \<Rightarrow> list_builder_helper res"
  and new_struct_children ::
    "('b, 'z) arrow_ops_scheme \<Rightarrow> arrow_field list \<Rightarrow> (arrow_field \<times> column_array_builder) list res" where
  "new_builder ops DtBoolean = Ok (BBoolean [])"
| "new_builder ops DtInt16 = Ok (BInt32 [])"
| "new_builder ops DtInt32 = Ok (BInt32 [])"
| "new_builder ops DtDate32 = Ok (BInt32 [])"
| "new_builder ops (DtTimestamp _ _) = Ok (BInt64 [])"
| "new_builder ops DtInt64 = Ok (BInt64 [])"
| "new_builder ops (DtTime64 _) = Ok (BInt64 [])"
| "new_builder ops DtFloat32 = Ok (BFloat32 [])"
| "new_builder ops DtFloat64 = Ok (BFloat64 [])"
| "new_builder ops (DtDecimal128 p s) = check (valid_precision ops p s) UnwrapErr (Ok (BDecimal128 p s []))"
| "new_builder ops DtUtf8 = Ok (BUtf8 [])"
| "new_builder ops (DtFixedSizeBinary n) = Ok (BFixedSizeBinary n [])"
| "new_builder ops DtBinary = Ok (BBinary [])"
| "new_builder ops (DtList child) = res_bind (new_list_builder ops child) (\<lambda>h. Ok (BList h))"
| "new_builder ops (DtStruct fs) =
     res_bind (new_struct_children ops fs) (\<lambda>children. Ok (BStruct (StructBuilderHelper children [] 0)))"
| "new_builder ops (DtMap f _) =
     check (is_struct_of 2 (field_type f)) AssertFailed (
     res_bind (new_list_builder ops f) (\<lambda>h. Ok (BMap h)))"
| "new_builder ops (DtOther _) = Panic ExplicitPanic"
| "new_list_builder ops (ArrowField n dt nullable) =
     res_bind (new_builder ops dt) (\<lambda>inner. Ok (ListBuilderHelper (ArrowField n dt nullable) [] [] inner 0))"
| "new_struct_children ops [] = Ok []"
| "new_struct_children ops (ArrowField n dt nullable # fs) =
     res_bind (new_builder ops dt) (\<lambda>b.
     res_bind (new_struct_children ops fs) (\<lambda>bs. Ok ((ArrowField n dt nullable, b) # bs)))"

fun builder_len :: "column_array_builder \<Rightarrow> nat" where
  "builder_len (BList b) = lb_len b"
| "builder_len (BStruct b) = sb_len b"
| "builder_len (BMap b) = lb_len b"
| "builder_len (BBoolean s) = length s"
| "builder_len (BInt32 s) = length s"
| "builder_len (BInt64 s) = length s"
| "builder_len (BFloat32 s) = length s"
| "builder_len (BFloat64 s) = length s"
| "builder_len (BDecimal128 _ _ s) = length s"
| "builder_len (BUtf8 s) = length s"
| "builder_len (BFixedSizeBinary _ s) = length s"
| "builder_len (BBinary s) = length s"

text \<open>\<^verbatim>\<open>String::from_utf8\<close>: the well-formed byte sequences of Unicode.\<close>

abbreviation byte_in :: "u8 \<Rightarrow> u8 \<Rightarrow> u8 \<Rightarrow> bool" where
  "byte_in lo hi b \<equiv> lo \<le> b \<and> b \<le> hi"

fun is_utf8 :: "u8 list \<Rightarrow> bool" where
  "is_utf8 [] = True"
| "is_utf8 (a # bs) =
     (if a < 0x80 then is_utf8 bs
      else case bs of [] \<Rightarrow> False | b # cs \<Rightarrow>
        if byte_in 0xC2 0xDF a then byte_in 0x80 0xBF b \<and> is_utf8 cs
        else case cs of [] \<Rightarrow> False | c # ds \<Rightarrow>
          if byte_in 0xE0 0xEF a then
            (if a = 0xE0 then byte_in 0xA0 0xBF b else if a = 0xED then byte_in 0x80 0x9F b else byte_in 0x80 0xBF b)
            \<and> byte_in 0x80 0xBF c \<and> is_utf8 ds
          else case ds of [] \<Rightarrow> False | d # es \<Rightarrow>
            byte_in 0xF0 0xF4 a
            \<and> (if a = 0xF0 then byte_in 0x90 0xBF b else if a = 0xF4 then byte_in 0x80 0x8F b else byte_in 0x80 0xBF b)
            \<and> byte_in 0x80 0xBF c \<and> byte_in 0x80 0xBF d \<and> is_utf8 es)"

datatype append_error =
    InvalidUtf8
  | FixedSizeMismatch
  | FieldCountMismatch
  | ArrayForNonList
  | TypeMismatch

definition as_i32 :: "nat \<Rightarrow> int" where
  "as_i32 n = sint (of_nat n :: 32 word)"

text \<open>The arms for the primitive builders; \<open>None\<close> is success. An error leaves the builder as it was.\<close>

definition append_leaf ::
  "('b, 'z) arrow_ops_scheme \<Rightarrow> column_array_builder \<Rightarrow> row_value \<Rightarrow> append_error option \<times> column_array_builder" where
  "append_leaf ops builder v = (case (builder, v) of
       (BBoolean b, RowBool x) \<Rightarrow> (None, BBoolean (b @ [(True, x)]))
     | (BBoolean b, RowNull) \<Rightarrow> (None, BBoolean (b @ [(False, null_bool ops)]))
     | (BInt32 b, Int32 x) \<Rightarrow> (None, BInt32 (b @ [(True, x)]))
     | (BInt32 b, RowNull) \<Rightarrow> (None, BInt32 (b @ [(False, null_i32 ops)]))
     | (BInt64 b, Int64 x) \<Rightarrow> (None, BInt64 (b @ [(True, x)]))
     | (BInt64 b, RowNull) \<Rightarrow> (None, BInt64 (b @ [(False, null_i64 ops)]))
     | (BFloat32 b, Float32 x) \<Rightarrow> (None, BFloat32 (b @ [(True, x)]))
     | (BFloat32 b, RowNull) \<Rightarrow> (None, BFloat32 (b @ [(False, null_f32 ops)]))
     | (BFloat64 b, Float64 x) \<Rightarrow> (None, BFloat64 (b @ [(True, x)]))
     | (BFloat64 b, RowNull) \<Rightarrow> (None, BFloat64 (b @ [(False, null_f64 ops)]))
     | (BDecimal128 p s b, Decimal x) \<Rightarrow> (None, BDecimal128 p s (b @ [(True, x)]))
     | (BDecimal128 p s b, RowNull) \<Rightarrow> (None, BDecimal128 p s (b @ [(False, null_i128 ops)]))
     | (BUtf8 b, ByteArray x) \<Rightarrow>
         if is_utf8 x then (None, BUtf8 (b @ [(True, x)])) else (Some InvalidUtf8, builder)
     | (BUtf8 b, RowNull) \<Rightarrow> (None, BUtf8 (b @ [(False, null_bytes ops)]))
     | (BFixedSizeBinary n b, FixedLenByteArray x) \<Rightarrow>
         if length x = n then (None, BFixedSizeBinary n (b @ [(True, x)])) else (Some FixedSizeMismatch, builder)
     | (BFixedSizeBinary n b, RowNull) \<Rightarrow> (None, BFixedSizeBinary n (b @ [(False, null_fixed ops n)]))
     | (BBinary b, ByteArray x) \<Rightarrow> (None, BBinary (b @ [(True, x)]))
     | (BBinary b, RowNull) \<Rightarrow> (None, BBinary (b @ [(False, null_bytes ops)]))
     | (_, RowArray _) \<Rightarrow> (Some ArrayForNonList, builder)
     | _ \<Rightarrow> (Some TypeMismatch, builder))"

fun lb_append_null :: "list_builder_helper \<Rightarrow> list_builder_helper" where
  "lb_append_null (ListBuilderHelper f offs nulls inner n) =
     ListBuilderHelper f (offs @ [if offs = [] then 0 else List.last offs]) (nulls @ [False]) inner (Suc n)"

text \<open>
  The recursive arms. A list builder records where its next list starts before it appends the
  items, and an error half way leaves what has been appended so far.
\<close>

function append_value ::
    "('b, 'z) arrow_ops_scheme \<Rightarrow> column_array_builder \<Rightarrow> row_value \<Rightarrow> append_error option \<times> column_array_builder"
  and append_list ::
    "('b, 'z) arrow_ops_scheme \<Rightarrow> list_builder_helper \<Rightarrow> row_value list \<Rightarrow> append_error option \<times> list_builder_helper"
  and append_items ::
    "('b, 'z) arrow_ops_scheme \<Rightarrow> column_array_builder \<Rightarrow> row_value list \<Rightarrow> append_error option \<times> column_array_builder"
  and append_values ::
    "('b, 'z) arrow_ops_scheme \<Rightarrow> (arrow_field \<times> column_array_builder) list \<Rightarrow> row_value list \<Rightarrow>
     append_error option \<times> (arrow_field \<times> column_array_builder) list"
  and append_nulls ::
    "('b, 'z) arrow_ops_scheme \<Rightarrow> (arrow_field \<times> column_array_builder) list \<Rightarrow>
     append_error option \<times> (arrow_field \<times> column_array_builder) list" where
  "append_value ops builder v = (case builder of
       BList h \<Rightarrow> (case v of
           RowArray items \<Rightarrow> (case append_list ops h items of (e, h) \<Rightarrow> (e, BList h))
         | RowNull \<Rightarrow> (None, BList (lb_append_null h))
         | _ \<Rightarrow> (Some TypeMismatch, builder))
     | BMap h \<Rightarrow> (case v of
           RowArray items \<Rightarrow> (case append_list ops h items of (e, h) \<Rightarrow> (e, BMap h))
         | RowNull \<Rightarrow> (None, BMap (lb_append_null h))
         | _ \<Rightarrow> (Some TypeMismatch, builder))
     | BStruct (StructBuilderHelper children nulls n) \<Rightarrow> (case v of
           RowStruct vals \<Rightarrow>
             if length vals \<noteq> length children then (Some FieldCountMismatch, builder)
             else (case append_values ops children vals of
                 (None, children) \<Rightarrow> (None, BStruct (StructBuilderHelper children (nulls @ [True]) (Suc n)))
               | (Some e, children) \<Rightarrow> (Some e, BStruct (StructBuilderHelper children nulls n)))
         | RowNull \<Rightarrow> (case append_nulls ops children of
               (None, children) \<Rightarrow> (None, BStruct (StructBuilderHelper children (nulls @ [False]) (Suc n)))
             | (Some e, children) \<Rightarrow> (Some e, BStruct (StructBuilderHelper children nulls n)))
         | _ \<Rightarrow> (Some TypeMismatch, builder))
     | _ \<Rightarrow> append_leaf ops builder v)"
| "append_list ops (ListBuilderHelper f offs nulls inner n) items =
     (let offs = offs @ [as_i32 (builder_len inner)]
      in case append_items ops inner items of
           (None, inner) \<Rightarrow> (None, ListBuilderHelper f offs (nulls @ [True]) inner (Suc n))
         | (Some e, inner) \<Rightarrow> (Some e, ListBuilderHelper f offs nulls inner n))"
| "append_items ops inner [] = (None, inner)"
| "append_items ops inner (it # items) = (case append_value ops inner it of
       (None, inner) \<Rightarrow> append_items ops inner items
     | (Some e, inner) \<Rightarrow> (Some e, inner))"
| "append_values ops [] vals = (None, [])"
| "append_values ops ((f, child) # children) [] = (None, (f, child) # children)"
| "append_values ops ((f, child) # children) (v # vals) = (case append_value ops child v of
       (None, child) \<Rightarrow> (case append_values ops children vals of (e, children) \<Rightarrow> (e, (f, child) # children))
     | (Some e, child) \<Rightarrow> (Some e, (f, child) # children))"
| "append_nulls ops [] = (None, [])"
| "append_nulls ops ((f, child) # children) = (case append_value ops child RowNull of
       (None, child) \<Rightarrow> (case append_nulls ops children of (e, children) \<Rightarrow> (e, (f, child) # children))
     | (Some e, child) \<Rightarrow> (Some e, (f, child) # children))"
  by pat_completeness auto
termination
  by (relation "measures [
      \<lambda>x. case x of Inl (Inl (_, _, v)) \<Rightarrow> 2 * size v | Inl (Inr (_, _, vs)) \<Rightarrow> 2 * size_list size vs + 1
        | Inr (Inl (_, _, vs)) \<Rightarrow> 2 * size_list size vs
        | Inr (Inr (Inl (_, _, vs))) \<Rightarrow> 2 * size_list size vs
        | Inr (Inr (Inr (_, cs))) \<Rightarrow> 2 * size RowNull,
      \<lambda>x. case x of Inl (Inl (_, b, _)) \<Rightarrow> size b | Inl (Inr _) \<Rightarrow> 0 | Inr (Inl _) \<Rightarrow> 0
        | Inr (Inr (Inl _)) \<Rightarrow> 0 | Inr (Inr (Inr (_, cs))) \<Rightarrow> size_list (size_prod (\<lambda>_. 0) size) cs]") auto

definition cast_unwrap ::
  "('b, 'z) arrow_ops_scheme \<Rightarrow> arrow_array \<Rightarrow> data_type \<Rightarrow> arrow_array res" where
  "cast_unwrap ops a dt = (case arrow_cast ops a dt of Some a' \<Rightarrow> Ok a' | None \<Rightarrow> Panic UnwrapErr)"

fun is_time_type :: "data_type \<Rightarrow> bool" where
  "is_time_type (DtTimestamp _ _) = True"
| "is_time_type (DtTime64 _) = True"
| "is_time_type _ = False"

fun finish :: "('b, 'z) arrow_ops_scheme \<Rightarrow> column_array_builder \<Rightarrow> data_type \<Rightarrow> arrow_array res"
  and finish_children ::
    "('b, 'z) arrow_ops_scheme \<Rightarrow> (arrow_field \<times> column_array_builder) list \<Rightarrow> arrow_array list res" where
  "finish ops (BBoolean s) dt = Ok (BooleanArray s)"
| "finish ops (BInt32 s) dt =
     (if dt = DtDate32 \<or> dt = DtInt16 then cast_unwrap ops (Int32Array s) dt else Ok (Int32Array s))"
| "finish ops (BInt64 s) dt =
     (if is_time_type dt then cast_unwrap ops (Int64Array s) dt else Ok (Int64Array s))"
| "finish ops (BFloat32 s) dt = Ok (Float32Array s)"
| "finish ops (BFloat64 s) dt = Ok (Float64Array s)"
| "finish ops (BDecimal128 p sc s) dt = Ok (Decimal128Array p sc s)"
| "finish ops (BUtf8 s) dt = Ok (StringArray s)"
| "finish ops (BFixedSizeBinary n s) dt = Ok (FixedSizeBinaryArray n s)"
| "finish ops (BBinary s) dt = Ok (BinaryArray s)"
| "finish ops (BList (ListBuilderHelper f offs nulls inner n)) dt =
     res_bind (finish ops inner (field_type f)) (\<lambda>vals.
     list_array_new ops f (offs @ [as_i32 (array_len vals)]) vals nulls)"
| "finish ops (BStruct (StructBuilderHelper children nulls n)) dt =
     res_bind (finish_children ops children) (\<lambda>arrays.
     if children = [] then Ok (StructArray [] [] nulls)
     else struct_array_new ops (map fst children) arrays nulls)"
| "finish ops (BMap (ListBuilderHelper f offs nulls inner n)) dt =
     res_bind (finish ops inner (field_type f)) (\<lambda>vals.
     case vals of
       StructArray _ _ _ \<Rightarrow> map_array_new ops f (offs @ [as_i32 (array_len vals)]) vals nulls False
     | _ \<Rightarrow> Panic UnwrapNone)"
| "finish_children ops [] = Ok []"
| "finish_children ops ((f, b) # children) =
     res_bind (finish ops b (field_type f)) (\<lambda>a.
     res_bind (finish_children ops children) (\<lambda>as. Ok (a # as)))"

section \<open>Typing\<close>

text \<open>Which values a column of a type holds, and which types a builder can be made for.\<close>

fun has_type :: "data_type \<Rightarrow> row_value \<Rightarrow> bool"
  and have_types :: "arrow_field list \<Rightarrow> row_value list \<Rightarrow> bool" where
  "has_type dt v = (case v of
       RowNull \<Rightarrow> True
     | RowBool _ \<Rightarrow> dt = DtBoolean
     | Int32 _ \<Rightarrow> dt \<in> {DtInt16, DtInt32, DtDate32}
     | Int64 _ \<Rightarrow> dt = DtInt64 \<or> is_time_type dt
     | Float32 _ \<Rightarrow> dt = DtFloat32
     | Float64 _ \<Rightarrow> dt = DtFloat64
     | Decimal _ \<Rightarrow> (case dt of DtDecimal128 _ _ \<Rightarrow> True | _ \<Rightarrow> False)
     | ByteArray x \<Rightarrow> dt = DtBinary \<or> dt = DtUtf8 \<and> is_utf8 x
     | FixedLenByteArray x \<Rightarrow> dt = DtFixedSizeBinary (length x)
     | RowArray vs \<Rightarrow> (case dt of
           DtList f \<Rightarrow> (\<forall>v \<in> set vs. has_type (field_type f) v)
         | DtMap f _ \<Rightarrow> (\<forall>v \<in> set vs. has_type (field_type f) v)
         | _ \<Rightarrow> False)
     | RowStruct vs \<Rightarrow> (case dt of DtStruct fs \<Rightarrow> have_types fs vs | _ \<Rightarrow> False))"
| "have_types fs [] = (fs = [])"
| "have_types fs (v # vs) = (case fs of [] \<Rightarrow> False | f # fs \<Rightarrow> has_type (field_type f) v \<and> have_types fs vs)"

fun buildable :: "('b, 'z) arrow_ops_scheme \<Rightarrow> data_type \<Rightarrow> bool"
  and buildable_field :: "('b, 'z) arrow_ops_scheme \<Rightarrow> arrow_field \<Rightarrow> bool" where
  "buildable ops (DtDecimal128 p s) = valid_precision ops p s"
| "buildable ops (DtList f) = buildable_field ops f"
| "buildable ops (DtStruct fs) = (\<forall>f \<in> set fs. buildable_field ops f)"
| "buildable ops (DtMap f ordered) = (\<not> ordered \<and> is_struct_of 2 (field_type f) \<and> buildable_field ops f)"
| "buildable ops (DtOther _) = False"
| "buildable ops _ = True"
| "buildable_field ops (ArrowField n dt nullable) = (nullable \<and> buildable ops dt)"

text \<open>
  A builder for a type: the lists of a list builder start at increasing positions of the
  values appended so far, and the children of a struct builder have the length of the struct.
\<close>

definition starts_ok :: "int list \<Rightarrow> nat \<Rightarrow> nat \<Rightarrow> bool" where
  "starts_ok offs n limit \<longleftrightarrow>
     (\<exists>ks. offs = map as_i32 ks \<and> length ks = n \<and> sorted ks \<and> (\<forall>k \<in> set ks. k \<le> limit))"

fun builder_for :: "data_type \<Rightarrow> column_array_builder \<Rightarrow> bool" where
  "builder_for dt (BBoolean s) = (dt = DtBoolean)"
| "builder_for dt (BInt32 s) = (dt \<in> {DtInt16, DtInt32, DtDate32})"
| "builder_for dt (BInt64 s) = (dt = DtInt64 \<or> is_time_type dt)"
| "builder_for dt (BFloat32 s) = (dt = DtFloat32)"
| "builder_for dt (BFloat64 s) = (dt = DtFloat64)"
| "builder_for dt (BDecimal128 p sc s) = (dt = DtDecimal128 p sc)"
| "builder_for dt (BUtf8 s) = (dt = DtUtf8)"
| "builder_for dt (BFixedSizeBinary n s) = (dt = DtFixedSizeBinary n)"
| "builder_for dt (BBinary s) = (dt = DtBinary)"
| "builder_for dt (BList (ListBuilderHelper f offs nulls inner n)) =
     (dt = DtList f \<and> builder_for (field_type f) inner \<and> starts_ok offs n (builder_len inner) \<and> length nulls = n)"
| "builder_for dt (BStruct (StructBuilderHelper children nulls n)) =
     (dt = DtStruct (map fst children) \<and> length nulls = n
      \<and> (\<forall>(f, b) \<in> set children. builder_for (field_type f) b \<and> builder_len b = n))"
| "builder_for dt (BMap (ListBuilderHelper f offs nulls inner n)) =
     (dt = DtMap f False \<and> builder_for (field_type f) inner \<and> starts_ok offs n (builder_len inner) \<and> length nulls = n)"

text \<open>A bound on all arrays inside a builder, and how many values an appended one holds.\<close>

fun lens_le :: "nat \<Rightarrow> column_array_builder \<Rightarrow> bool" where
  "lens_le m (BList (ListBuilderHelper f offs nulls inner n)) = (n \<le> m \<and> lens_le m inner)"
| "lens_le m (BMap (ListBuilderHelper f offs nulls inner n)) = (n \<le> m \<and> lens_le m inner)"
| "lens_le m (BStruct (StructBuilderHelper children nulls n)) =
     (n \<le> m \<and> (\<forall>(f, b) \<in> set children. lens_le m b))"
| "lens_le m b = (builder_len b \<le> m)"

fun weight :: "row_value \<Rightarrow> nat" where
  "weight (RowArray vs) = Suc (sum_list (map weight vs))"
| "weight (RowStruct vs) = Suc (sum_list (map weight vs))"
| "weight v = 1"


declare has_type.simps(1) [simp del] append_value.simps [simp del]

lemma has_type_Null [simp]: "has_type dt RowNull"
  by (simp add: has_type.simps(1))

lemma have_types_length: "have_types fs vs \<Longrightarrow> length vs = length fs"
  by (induction vs arbitrary: fs) (auto split: list.splits)

lemma starts_ok_append:
  assumes "starts_ok offs n limit"
  shows "starts_ok (offs @ [as_i32 limit]) (Suc n) (limit + k)"
    and "starts_ok (offs @ [if offs = [] then 0 else List.last offs]) (Suc n) limit"
proof -
  obtain ks where ks: "offs = map as_i32 ks" "length ks = n" "sorted ks" "\<forall>k \<in> set ks. k \<le> limit"
    using assms by (auto simp: starts_ok_def)
  show "starts_ok (offs @ [as_i32 limit]) (Suc n) (limit + k)"
    unfolding starts_ok_def by (rule exI[of _ "ks @ [limit]"]) (use ks in \<open>auto simp: sorted_append\<close>)
  let ?k = "if ks = [] then 0 else List.last ks"
  have "\<forall>k \<in> set ks. k \<le> ?k" using ks(3) by (cases ks rule: rev_cases) (auto simp: sorted_append)
  then show "starts_ok (offs @ [if offs = [] then 0 else List.last offs]) (Suc n) limit"
    unfolding starts_ok_def
    by (intro exI[of _ "ks @ [?k]"]) (use ks in \<open>auto simp: sorted_append last_map as_i32_def\<close>)
qed

lemma append_leaf_typed:
  assumes "builder_for dt b" and "\<And>h. b \<noteq> BList h" "\<And>h. b \<noteq> BMap h" "\<And>h. b \<noteq> BStruct h"
  shows "if has_type dt v
    then \<exists>b'. append_leaf ops b v = (None, b') \<and> builder_for dt b' \<and> builder_len b' = Suc (builder_len b)
    else \<exists>e. append_leaf ops b v = (Some e, b)"
  using assms
  by (cases b; cases v) (auto simp: append_leaf_def has_type.simps(1) split: data_type.splits)

text \<open>Appending succeeds exactly on the values of the type of the builder, and adds one element.\<close>

lemma append_typed_all:
  "builder_for dt b \<Longrightarrow> if has_type dt v
     then \<exists>b'. append_value ops b v = (None, b') \<and> builder_for dt b' \<and> builder_len b' = Suc (builder_len b)
     else \<exists>e b'. append_value ops b v = (Some e, b')"
  "h = ListBuilderHelper f offs nulls inner n \<Longrightarrow> builder_for (field_type f) inner \<Longrightarrow>
   starts_ok offs n (builder_len inner) \<Longrightarrow> length nulls = n \<Longrightarrow>
   if \<forall>v \<in> set items. has_type (field_type f) v
     then \<exists>offs' nulls' inner'. append_list ops h items = (None, ListBuilderHelper f offs' nulls' inner' (Suc n))
       \<and> builder_for (field_type f) inner' \<and> starts_ok offs' (Suc n) (builder_len inner') \<and> length nulls' = Suc n
     else \<exists>e h'. append_list ops h items = (Some e, h')"
  "builder_for dt inner \<Longrightarrow> if \<forall>v \<in> set items. has_type dt v
     then \<exists>b'. append_items ops inner items = (None, b') \<and> builder_for dt b'
       \<and> builder_len b' = builder_len inner + length items
     else \<exists>e b'. append_items ops inner items = (Some e, b')"
  "length vals = length children \<Longrightarrow>
   \<forall>(f, b) \<in> set children. builder_for (field_type f) b \<and> builder_len b = n \<Longrightarrow>
   if have_types (map fst children) vals
     then \<exists>cs. append_values ops children vals = (None, cs) \<and> map fst cs = map fst children
       \<and> (\<forall>(f, b) \<in> set cs. builder_for (field_type f) b \<and> builder_len b = Suc n)
     else \<exists>e cs. append_values ops children vals = (Some e, cs)"
  "\<forall>(f, b) \<in> set children. builder_for (field_type f) b \<and> builder_len b = n \<Longrightarrow>
   \<exists>cs. append_nulls ops children = (None, cs) \<and> map fst cs = map fst children
     \<and> (\<forall>(f, b) \<in> set cs. builder_for (field_type f) b \<and> builder_len b = Suc n)"
proof (induction ops b v and ops h items and ops inner items and ops children vals and ops children
    arbitrary: dt and f offs nulls inner n and dt and n and n
    rule: append_value_append_list_append_items_append_values_append_nulls.induct)
  case (1 ops builder v)
  show ?case
  proof (cases builder)
    case (BList h)
    obtain f offs nulls inner n where h: "h = ListBuilderHelper f offs nulls inner n" by (cases h)
    have b: "dt = DtList f" "builder_for (field_type f) inner" "starts_ok offs n (builder_len inner)" "length nulls = n"
      using "1.prems" by (simp_all add: BList h)
    show ?thesis
    proof (cases v)
      case (RowArray items)
      show ?thesis
        using "1.IH"(1)[OF BList RowArray h b(2-4)]
        by (auto simp: append_value.simps(1) has_type.simps(1) BList RowArray h b(1) split: if_splits)
    next
      case RowNull
      then show ?thesis
        using starts_ok_append(2)[OF b(3)] b by (simp add: append_value.simps(1) BList h)
    qed (auto simp: append_value.simps(1) has_type.simps(1) BList h b(1))
  next
    case (BMap h)
    obtain f offs nulls inner n where h: "h = ListBuilderHelper f offs nulls inner n" by (cases h)
    have b: "dt = DtMap f False" "builder_for (field_type f) inner" "starts_ok offs n (builder_len inner)" "length nulls = n"
      using "1.prems" by (simp_all add: BMap h)
    show ?thesis
    proof (cases v)
      case (RowArray items)
      show ?thesis
        using "1.IH"(4)[OF BMap RowArray h b(2-4)]
        by (auto simp: append_value.simps(1) has_type.simps(1) BMap RowArray h b(1) split: if_splits)
    next
      case RowNull
      then show ?thesis
        using starts_ok_append(2)[OF b(3)] b by (simp add: append_value.simps(1) BMap h)
    qed (auto simp: append_value.simps(1) has_type.simps(1) BMap h b(1))
  next
    case (BStruct h)
    obtain children nulls n where h: "h = StructBuilderHelper children nulls n" by (cases h)
    have b: "dt = DtStruct (map fst children)" "length nulls = n"
      "\<forall>(f, b) \<in> set children. builder_for (field_type f) b \<and> builder_len b = n"
      using "1.prems" by (simp_all add: BStruct h)
    show ?thesis
    proof (cases v)
      case (RowStruct vals)
      show ?thesis
      proof (cases "length vals = length children")
        case True
        then show ?thesis
          using "1.IH"(2)[OF BStruct h RowStruct _ True b(3)] b(2)
          by (auto simp: append_value.simps(1) has_type.simps(1) BStruct RowStruct h b(1) split: if_splits)
      next
        case False
        then show ?thesis
          using have_types_length[of "map fst children" vals]
          by (auto simp: append_value.simps(1) has_type.simps(1) BStruct RowStruct h b(1))
      qed
    next
      case RowNull
      show ?thesis
        using "1.IH"(3)[OF BStruct h RowNull b(3)] b(2)
        by (auto simp: append_value.simps(1) BStruct RowNull h b(1))
    qed (auto simp: append_value.simps(1) has_type.simps(1) BStruct h b(1))
  qed (use append_leaf_typed[OF "1.prems", of v ops] in \<open>auto simp: append_value.simps(1) split: if_splits\<close>)
next
  case (2 ops f0 offs0 nulls0 inner0 n0 items f offs nulls inner n)
  have e: "f0 = f" "offs0 = offs" "nulls0 = nulls" "inner0 = inner" "n0 = n"
    using "2.prems"(1) by simp_all
  show ?case
    using "2.IH"[OF refl, unfolded e, OF "2.prems"(2)] "2.prems"(2-)
      starts_ok_append(1)[of offs n "builder_len inner" "length items"]
    unfolding e by (auto simp: append_value.simps append_list.simps Let_def split: if_splits)
next
  case (4 ops inner it items)
  show ?case
  proof (cases "has_type dt it")
    case True
    then obtain b' where b': "append_value ops inner it = (None, b')" "builder_for dt b'"
      "builder_len b' = Suc (builder_len inner)"
      using "4.IH"(1)[OF "4.prems"] by auto
    show ?thesis
      using "4.IH"(2)[OF b'(1)[symmetric] refl b'(2)] True b' by (auto simp: append_value.simps split: if_splits)
  next
    case False
    then show ?thesis using "4.IH"(1)[OF "4.prems"] by (auto simp: append_value.simps)
  qed
next
  case (7 ops f child children v vals)
  have c: "builder_for (field_type f) child" "builder_len child = n" using "7.prems"(2) by auto
  show ?case
  proof (cases "has_type (field_type f) v")
    case True
    then obtain b' where b': "append_value ops child v = (None, b')" "builder_for (field_type f) b'"
      "builder_len b' = Suc n"
      using "7.IH"(1)[OF c(1)] c(2) by auto
    show ?thesis
      using "7.IH"(2)[OF b'(1)[symmetric] refl, of n] True b' "7.prems"
      by (auto simp: append_value.simps split: if_splits)
  next
    case False
    then show ?thesis using "7.IH"(1)[OF c(1)] by (auto simp: append_value.simps)
  qed
next
  case (9 ops f child children)
  have c: "builder_for (field_type f) child" "builder_len child = n" using "9.prems" by auto
  obtain b' where b': "append_value ops child RowNull = (None, b')" "builder_for (field_type f) b'"
    "builder_len b' = Suc n"
    using "9.IH"(1)[OF c(1)] c(2) by auto
  show ?case
    using "9.IH"(2)[OF b'(1)[symmetric] refl, of n] b' "9.prems" by (auto simp: append_value.simps)
qed (simp_all add: append_value.simps)

lemma lens_le_mono: "lens_le m b \<Longrightarrow> m \<le> k \<Longrightarrow> lens_le k b"
  by (induction m b rule: lens_le.induct) (auto intro: order.trans)

lemma lens_le_more:
  "lens_le m b \<Longrightarrow> lens_le (Suc m) b"
  "lens_le m b \<Longrightarrow> lens_le (m + k) b"
  "lens_le m b \<Longrightarrow> lens_le (Suc (m + k)) b"
  "lens_le (m + j) b \<Longrightarrow> lens_le (m + (j + k)) b"
  "lens_le (m + k) b \<Longrightarrow> lens_le (m + (j + k)) b"
  by (erule lens_le_mono; simp)+

lemma builder_len_le: "lens_le m b \<Longrightarrow> builder_len b \<le> m"
  by (cases "(m, b)" rule: lens_le.cases) auto

lemma weight_pos: "1 \<le> weight v"
  by (cases v) auto

lemma append_leaf_len:
  assumes "\<And>h. b \<noteq> BList h" "\<And>h. b \<noteq> BMap h" "\<And>h. b \<noteq> BStruct h" and "lens_le m b"
  shows "lens_le (m + weight v) (snd (append_leaf ops b v))"
proof -
  have "builder_len (snd (append_leaf ops b v)) \<le> Suc (builder_len b)"
    and "\<And>h. snd (append_leaf ops b v) \<noteq> BList h" "\<And>h. snd (append_leaf ops b v) \<noteq> BMap h"
      "\<And>h. snd (append_leaf ops b v) \<noteq> BStruct h"
    using assms(1-3) by (cases b; cases v; simp add: append_leaf_def)+
  then show ?thesis
    using weight_pos[of v] builder_len_le[OF assms(4)] by (cases "snd (append_leaf ops b v)") auto
qed

lemma append_len_all:
  "lens_le m b \<Longrightarrow> lens_le (m + weight v) (snd (append_value ops b v))"
  "h = ListBuilderHelper f offs nulls inner n \<Longrightarrow> n \<le> m \<Longrightarrow> lens_le m inner \<Longrightarrow>
   lb_len (snd (append_list ops h items)) \<le> Suc m
   \<and> lens_le (m + sum_list (map weight items)) (lb_inner (snd (append_list ops h items)))"
  "lens_le m inner \<Longrightarrow> lens_le (m + sum_list (map weight items)) (snd (append_items ops inner items))"
  "\<forall>(f, b) \<in> set children. lens_le m b \<Longrightarrow>
   \<forall>(f, b) \<in> set (snd (append_values ops children vals)). lens_le (m + sum_list (map weight vals)) b"
  "\<forall>(f, b) \<in> set children. lens_le m b \<Longrightarrow> \<forall>(f, b) \<in> set (snd (append_nulls ops children)). lens_le (Suc m) b"
proof (induction ops b v and ops h items and ops inner items and ops children vals and ops children
    arbitrary: m and f offs nulls inner n m and m and m and m
    rule: append_value_append_list_append_items_append_values_append_nulls.induct)
  case (1 ops builder v)
  have list: "lens_le (m + weight v) (C h')"
    if "lb_len h' \<le> Suc m" "lens_le (m + sum_list (map weight items)) (lb_inner h')" "v = RowArray items"
      "C = BList \<or> C = BMap" for C h' items
    using that by (cases h') (auto intro: lens_le_more)
  have null: "lens_le (m + weight v) (C (lb_append_null h))" if "lens_le m (C h)" "C = BList \<or> C = BMap" for C h
    using that weight_pos[of v] by (cases h) (auto intro: lens_le_more)
  show ?case
  proof (cases builder)
    case (BList h)
    obtain f offs nulls inner n where h: "h = ListBuilderHelper f offs nulls inner n" by (cases h)
    have b: "n \<le> m" "lens_le m inner" using "1.prems" by (simp_all add: BList h)
    show ?thesis
    proof (cases v)
      case (RowArray items)
      show ?thesis
        using list[OF _ _ RowArray, of "snd (append_list ops h items)" BList] "1.IH"(1)[OF BList RowArray h b]
        by (auto simp: append_value.simps(1) BList RowArray split: prod.splits)
    qed (use null[of BList h] lens_le_more(1,3)[OF "1.prems"] "1.prems" in \<open>auto simp: append_value.simps(1) BList\<close>)
  next
    case (BMap h)
    obtain f offs nulls inner n where h: "h = ListBuilderHelper f offs nulls inner n" by (cases h)
    have b: "n \<le> m" "lens_le m inner" using "1.prems" by (simp_all add: BMap h)
    show ?thesis
    proof (cases v)
      case (RowArray items)
      show ?thesis
        using list[OF _ _ RowArray, of "snd (append_list ops h items)" BMap] "1.IH"(4)[OF BMap RowArray h b]
        by (auto simp: append_value.simps(1) BMap RowArray split: prod.splits)
    qed (use null[of BMap h] lens_le_more(1,3)[OF "1.prems"] "1.prems" in \<open>auto simp: append_value.simps(1) BMap\<close>)
  next
    case (BStruct h)
    obtain children nulls n where h: "h = StructBuilderHelper children nulls n" by (cases h)
    have b: "n \<le> m" "\<forall>(f, b) \<in> set children. lens_le m b" using "1.prems" by (simp_all add: BStruct h)
    show ?thesis
    proof (cases v)
      case (RowStruct vals)
      show ?thesis
      proof (cases "length vals = length children")
        case True
        have "\<forall>(f, b) \<in> set (snd (append_values ops children vals)). lens_le (Suc (m + sum_list (map weight vals))) b"
          using "1.IH"(2)[OF BStruct h RowStruct _ b(2)] True by (auto intro: lens_le_more)
        then show ?thesis
          using True b(1)
          by (auto simp: append_value.simps(1) BStruct h RowStruct split: prod.splits option.splits)
      qed (use lens_le_more(1-3)[OF "1.prems"] in \<open>simp add: append_value.simps(1) BStruct h RowStruct\<close>)
    next
      case RowNull
      show ?thesis
        using "1.IH"(3)[OF BStruct h RowNull b(2)] b(1)
        by (auto simp: append_value.simps(1) BStruct h RowNull split: prod.splits option.splits)
    qed (use lens_le_more(1,3)[OF "1.prems"] in \<open>simp_all add: append_value.simps(1) BStruct h\<close>)
  qed (use append_leaf_len[OF _ _ _ "1.prems", of v ops] in \<open>auto simp: append_value.simps(1)\<close>)
next
  case (2 ops f0 offs0 nulls0 inner0 n0 items f offs nulls inner n)
  have e: "f0 = f" "offs0 = offs" "nulls0 = nulls" "inner0 = inner" "n0 = n"
    using "2.prems"(1) by simp_all
  show ?case
    using "2.IH"[OF refl, unfolded e, OF "2.prems"(3)] "2.prems"(2-)
    unfolding e by (auto simp: append_list.simps Let_def split: prod.splits option.splits)
next
  case (4 ops inner it items)
  show ?case
  proof (cases "append_value ops inner it")
    case (Pair e b')
    then have b': "lens_le (m + weight it) b'" using "4.IH"(1)[OF "4.prems"] by simp
    show ?thesis
    proof (cases e)
      case None
      show ?thesis
        using "4.IH"(2)[OF _ refl b'] Pair None by (simp add: append_items.simps add.assoc)
    next
      case (Some a)
      then show ?thesis using b' Pair by (auto simp: append_items.simps intro: lens_le_more)
    qed
  qed
next
  case (7 ops f child children v vals)
  have c: "lens_le m child" "\<forall>(f, b) \<in> set children. lens_le m b" using "7.prems" by auto
  show ?case
  proof (cases "append_value ops child v")
    case (Pair e b')
    then have b': "lens_le (m + weight v) b'" using "7.IH"(1)[OF c(1)] by simp
    have rest: "\<forall>(f, b) \<in> set children. lens_le (m + (weight v + sum_list (map weight vals))) b"
      using "7.prems" by (auto intro: lens_le_more)
    show ?thesis
    proof (cases e)
      case None
      have "\<forall>(f, b) \<in> set (snd (append_values ops children vals)). lens_le (m + sum_list (map weight vals)) b"
        using "7.IH"(2)[OF _ refl c(2)] Pair None by simp
      then show ?thesis
        using Pair None b' by (auto simp: append_values.simps split: prod.splits intro: lens_le_more)
    next
      case (Some a)
      then show ?thesis using b' rest Pair by (auto simp: append_values.simps intro: lens_le_more)
    qed
  qed
next
  case (9 ops f child children)
  have c: "lens_le m child" "\<forall>(f, b) \<in> set children. lens_le m b" using "9.prems" by auto
  show ?case
  proof (cases "append_value ops child RowNull")
    case (Pair e b')
    then have b': "lens_le (Suc m) b'" using "9.IH"(1)[OF c(1)] by simp
    have rest: "\<forall>(f, b) \<in> set children. lens_le (Suc m) b"
      using "9.prems" by (auto intro: lens_le_more)
    show ?thesis
    proof (cases e)
      case None
      have "\<forall>(f, b) \<in> set (snd (append_nulls ops children)). lens_le (Suc m) b"
        using "9.IH"(2)[OF _ refl c(2)] Pair None by simp
      then show ?thesis using Pair None b' by (auto simp: append_nulls.simps split: prod.splits)
    next
      case (Some a)
      then show ?thesis using b' rest Pair by (auto simp: append_nulls.simps)
    qed
  qed
qed (auto simp: append_value.simps intro: lens_le_more)

lemma as_i32_small: "k < 2 ^ 31 \<Longrightarrow> as_i32 k = int k"
  by (simp add: as_i32_def sint_uint unsigned_of_nat take_bit_nat_eq_self signed_take_bit_int_eq_self_iff
      signed_take_bit_int_eq_self)

lemma starts_ok_offsets:
  assumes "starts_ok offs n limit" and "limit < 2 ^ 31"
  shows "offsets_ok (offs @ [as_i32 limit]) n limit"
proof -
  obtain ks where ks: "offs = map as_i32 ks" "length ks = n" "sorted ks" "\<forall>k \<in> set ks. k \<le> limit"
    using assms(1) by (auto simp: starts_ok_def)
  have "map as_i32 ks = map int ks"
    using ks(4) assms(2) by (auto intro!: as_i32_small elim: order.strict_trans1)
  then have "offs @ [as_i32 limit] = map int (ks @ [limit])"
    using ks(1) as_i32_small[OF assms(2)] by simp
  then show ?thesis
    using ks(2-4) by (cases ks) (auto simp: sorted_append sorted_map_same sorted_wrt_map sorted_iff_nth_mono nth_append)
qed

lemma new_builder_typed_all:
  "buildable ops dt \<Longrightarrow> \<exists>b. new_builder ops dt = Ok b \<and> builder_for dt b \<and> builder_len b = 0 \<and> lens_le 0 b"
  "buildable_field ops f \<Longrightarrow> \<exists>inner. new_list_builder ops f = Ok (ListBuilderHelper f [] [] inner 0)
     \<and> builder_for (field_type f) inner \<and> builder_len inner = 0 \<and> lens_le 0 inner"
  "\<forall>f \<in> set fs. buildable_field ops f \<Longrightarrow> \<exists>children. new_struct_children ops fs = Ok children
     \<and> map fst children = fs \<and> (\<forall>(f, b) \<in> set children. builder_for (field_type f) b \<and> builder_len b = 0 \<and> lens_le 0 b)"
proof (induction ops dt and ops f and ops fs rule: new_builder_new_list_builder_new_struct_children.induct)
  case (16 ops f ordered)
  then show ?case by (auto simp: starts_ok_def)
qed (fastforce simp: starts_ok_def)+

definition arrow_ops_ok :: "('b, 'z) arrow_ops_scheme \<Rightarrow> bool" where
  "arrow_ops_ok ops \<longleftrightarrow> arrow_cast_ok ops \<and> nested_new_ok ops"

lemma arrow_ops_okD:
  assumes "arrow_ops_ok ops"
  shows "arrow_cast ops (Int32Array s) DtDate32 = Some (Date32Array s)"
    and "\<exists>t. arrow_cast ops (Int32Array s) DtInt16 = Some (Int16Array t) \<and> length t = length s
          \<and> (\<forall>i < length s. fst (t ! i) = fst (narrow_slot (s ! i))
               \<and> (fst (t ! i) \<longrightarrow> snd (t ! i) = snd (narrow_slot (s ! i))))"
    and "arrow_cast ops (Int64Array s') (DtTimestamp u tz) = Some (TimestampArray u tz s')"
    and "arrow_cast ops (Int64Array s') (DtTime64 u) = Some (Time64Array u s')"
    and "field_allows f a \<Longrightarrow> offsets_ok offs (length nulls) (array_len a) \<Longrightarrow>
        list_array_new ops f offs a nulls = Ok (ListArray f offs a nulls)"
    and "field_allows f (StructArray fs as vs) \<Longrightarrow> length fs = 2 \<Longrightarrow> offsets_ok offs (length nulls) (length vs) \<Longrightarrow>
        map_array_new ops f offs (StructArray fs as vs) nulls ordered
          = Ok (MapArray f offs (StructArray fs as vs) nulls ordered)"
    and "list_all2 field_allows fs as \<Longrightarrow> \<forall>a \<in> set as. array_len a = length nulls \<Longrightarrow>
        struct_array_new ops fs as nulls = Ok (StructArray fs as nulls)"
  using assms by (simp_all add: arrow_ops_ok_def arrow_cast_ok_def nested_new_ok_def)

lemma finish_int_typed:
  assumes "arrow_ops_ok ops"
  shows "builder_for dt (BInt32 s) \<Longrightarrow> \<exists>a. finish ops (BInt32 s) dt = Ok a \<and> array_type a = dt \<and> array_len a = length s"
    and "builder_for dt (BInt64 s') \<Longrightarrow> \<exists>a. finish ops (BInt64 s') dt = Ok a \<and> array_type a = dt \<and> array_len a = length s'"
  using arrow_ops_okD(1,2)[OF assms, of s] arrow_ops_okD(3,4)[OF assms, of s']
  by (auto simp: cast_unwrap_def elim!: is_time_type.elims split: option.splits)

lemma buildable_field_iff: "buildable_field ops f \<longleftrightarrow> field_nullable f \<and> buildable ops (field_type f)"
  by (cases f) simp

lemma finish_typed_all:
  "arrow_ops_ok ops \<Longrightarrow> buildable ops dt \<Longrightarrow> builder_for dt b \<Longrightarrow> lens_le m b \<Longrightarrow> m < 2 ^ 31 \<Longrightarrow>
   \<exists>a. finish ops b dt = Ok a \<and> array_type a = dt \<and> array_len a = builder_len b"
  "arrow_ops_ok ops \<Longrightarrow> \<forall>(f, b) \<in> set children. buildable_field ops f \<and> builder_for (field_type f) b
     \<and> builder_len b = n \<and> lens_le m b \<Longrightarrow> m < 2 ^ 31 \<Longrightarrow>
   \<exists>as. finish_children ops children = Ok as \<and> list_all2 field_allows (map fst children) as
     \<and> (\<forall>a \<in> set as. array_len a = n)"
proof (induction ops b dt and ops children arbitrary: m and n m rule: finish_finish_children.induct)
  case (2 ops s dt)
  then show ?case using finish_int_typed(1)[OF "2.prems"(1,3)] by simp
next
  case (3 ops s dt)
  then show ?case using finish_int_typed(2)[OF "3.prems"(1,3)] by simp
next
  case (10 ops f offs nulls inner n dt)
  have f: "field_nullable f" "buildable ops (field_type f)"
    using "10.prems"(2,3) by (auto simp: buildable_field_iff)
  have b: "dt = DtList f" "builder_for (field_type f) inner" "starts_ok offs n (builder_len inner)" "length nulls = n"
    "lens_le m inner"
    using "10.prems"(3,4) by simp_all
  obtain a where a: "finish ops inner (field_type f) = Ok a" "array_type a = field_type f" "array_len a = builder_len inner"
    using "10.IH"[OF "10.prems"(1) f(2) b(2,5) "10.prems"(5)] by blast
  have "builder_len inner < 2 ^ 31" using builder_len_le[OF b(5)] "10.prems"(5) by simp
  from starts_ok_offsets[OF b(3) this] a(3) b(4)
  have "list_array_new ops f (offs @ [as_i32 (array_len a)]) a nulls
      = Ok (ListArray f (offs @ [as_i32 (array_len a)]) a nulls)"
    by (intro arrow_ops_okD(5)[OF "10.prems"(1)]) (use f a in auto)
  then show ?case using a(1) b by simp
next
  case (11 ops children nulls n dt)
  have b: "dt = DtStruct (map fst children)" "length nulls = n"
    "\<forall>(f, b) \<in> set children. buildable_field ops f \<and> builder_for (field_type f) b \<and> builder_len b = n \<and> lens_le m b"
    using "11.prems"(2-4) by auto
  obtain as where as: "finish_children ops children = Ok as" "list_all2 field_allows (map fst children) as"
    "\<forall>a \<in> set as. array_len a = n"
    using "11.IH"[OF "11.prems"(1) b(3) "11.prems"(5)] by blast
  then show ?case
    using arrow_ops_okD(7)[OF "11.prems"(1) as(2), of nulls] b by auto
next
  case (12 ops f offs nulls inner n dt)
  have f: "field_nullable f" "buildable ops (field_type f)" "is_struct_of 2 (field_type f)"
    using "12.prems"(2,3) by (auto simp: buildable_field_iff)
  have b: "dt = DtMap f False" "builder_for (field_type f) inner" "starts_ok offs n (builder_len inner)" "length nulls = n"
    "lens_le m inner"
    using "12.prems"(3,4) by simp_all
  obtain a where a: "finish ops inner (field_type f) = Ok a" "array_type a = field_type f" "array_len a = builder_len inner"
    using "12.IH"[OF "12.prems"(1) f(2) b(2,5) "12.prems"(5)] by blast
  obtain fs as vs where s: "a = StructArray fs as vs" "length fs = 2"
    using a(2) f(3) by (cases a) (auto elim!: is_struct_of.elims)
  have "builder_len inner < 2 ^ 31" using builder_len_le[OF b(5)] "12.prems"(5) by simp
  from starts_ok_offsets[OF b(3) this] a(3) b(4)
  have "map_array_new ops f (offs @ [as_i32 (array_len a)]) a nulls False
      = Ok (MapArray f (offs @ [as_i32 (array_len a)]) a nulls False)"
    unfolding s(1) by (intro arrow_ops_okD(6)[OF "12.prems"(1)]) (use f a s in auto)
  then show ?case using a(1) b s by simp
next
  case (14 ops f b children)
  then show ?case by (fastforce simp: buildable_field_iff)
qed auto

section \<open>A concrete arrow\<close>

text \<open>
  Batches as lists of columns satisfy what is assumed; rows are taken slot by slot, and a slot
  past the end reads as null.
\<close>

abbreviation pick :: "'a \<Rightarrow> 'a list \<Rightarrow> nat list \<Rightarrow> 'a list" where
  "pick d xs is \<equiv> map (\<lambda>i. if i < length xs then xs ! i else d) is"

fun array_take :: "nat list \<Rightarrow> arrow_array \<Rightarrow> arrow_array" where
  "array_take is (BooleanArray s) = BooleanArray (pick (False, False) s is)"
| "array_take is (Int16Array s) = Int16Array (pick (False, 0) s is)"
| "array_take is (Int32Array s) = Int32Array (pick (False, 0) s is)"
| "array_take is (Int64Array s) = Int64Array (pick (False, 0) s is)"
| "array_take is (Date32Array s) = Date32Array (pick (False, 0) s is)"
| "array_take is (TimestampArray u tz s) = TimestampArray u tz (pick (False, 0) s is)"
| "array_take is (Time64Array u s) = Time64Array u (pick (False, 0) s is)"
| "array_take is (Float32Array s) = Float32Array (pick (False, 0) s is)"
| "array_take is (Float64Array s) = Float64Array (pick (False, 0) s is)"
| "array_take is (Decimal128Array p sc s) = Decimal128Array p sc (pick (False, 0) s is)"
| "array_take is (StringArray s) = StringArray (pick (False, []) s is)"
| "array_take is (FixedSizeBinaryArray n s) = FixedSizeBinaryArray n (pick (False, []) s is)"
| "array_take is (BinaryArray s) = BinaryArray (pick (False, []) s is)"
| "array_take is (ListArray f offs a v) = ListArray f offs a (pick False v is)"
| "array_take is (LargeListArray f offs a v) = LargeListArray f offs a (pick False v is)"
| "array_take is (FixedSizeListArray f n a v) = FixedSizeListArray f n a (pick False v is)"
| "array_take is (StructArray fs as v) = StructArray fs as (pick False v is)"
| "array_take is (MapArray f offs a v ordered) = MapArray f offs a (pick False v is) ordered"

type_synonym plain_batch = "arrow_array list \<times> nat"

definition plain_take :: "nat list \<Rightarrow> plain_batch \<Rightarrow> plain_batch" where
  "plain_take is b = (map (array_take is) (fst b), length is)"

fun plain_cast :: "arrow_array \<Rightarrow> data_type \<Rightarrow> arrow_array option" where
  "plain_cast (Int32Array s) DtDate32 = Some (Date32Array s)"
| "plain_cast (Int32Array s) DtInt16 = Some (Int16Array (map narrow_slot s))"
| "plain_cast (Int64Array s) (DtTimestamp u tz) = Some (TimestampArray u tz s)"
| "plain_cast (Int64Array s) (DtTime64 u) = Some (Time64Array u s)"
| "plain_cast _ _ = None"

definition plain_arrow :: "plain_batch arrow_ops" where
  "plain_arrow = arrow_bits.extend slice_bits \<lparr>
     num_rows = snd,
     batch_slice = (\<lambda>b i n. check (i + n \<le> snd b) AssertFailed (Ok (plain_take [i..<i + n] b))),
     new_from_u8 = (\<lambda>v. map (byte_bit v) [0..<8 * length v]),
     bools_slice = (\<lambda>b i n. check (i + n \<le> length b) AssertFailed (Ok (take n (drop i b)))),
     filter_record_batch = (\<lambda>b bs. Some (plain_take (filter ((!) bs) [0..<snd b]) b)),
     null_bool = False, null_i32 = 0, null_i64 = 0, null_f32 = 0, null_f64 = 0, null_i128 = 0,
     null_bytes = [], null_fixed = (\<lambda>n. replicate n 0),
     valid_precision = (\<lambda>p s. 1 \<le> p \<and> p \<le> 38 \<and> s \<le> int p),
     arrow_cast = plain_cast,
     list_array_new = (\<lambda>f offs a nulls. Ok (ListArray f offs a nulls)),
     map_array_new = (\<lambda>f offs a nulls ordered. Ok (MapArray f offs a nulls ordered)),
     struct_array_new = (\<lambda>fs as nulls. Ok (StructArray fs as nulls)),
     rb_columns = fst,
     rb_try_new = (\<lambda>fs as. if as = [] then Inl [] else Inr (as, array_len (hd as)))\<rparr>"

lemma plain_arrow_ok: "arrow_ops_ok plain_arrow"
  by (auto simp: arrow_ops_ok_def arrow_cast_ok_def nested_new_ok_def plain_arrow_def arrow_bits.defs)

section \<open>Columns are typed\<close>




end
