(* ===== verification/Arrow_Rows.thy ===== *)
theory Arrow_Rows
  imports Arrow_Columns
begin

text \<open>
  Rows and record batches: reading a batch back into rows (\<^verbatim>\<open>row/arrow_converter.rs\<close>) and
  comparing a row with a row of a batch (\<^verbatim>\<open>value_matches_column\<close> and its callers in
  \<^verbatim>\<open>row/moonlink_row.rs\<close>). An element of a list array is the slice of the child array
  between two offsets; the model keeps the child array and adds the start of the slice to
  the index.
\<close>

section \<open>Reading\<close>

definition array_is_null :: "arrow_array \<Rightarrow> nat \<Rightarrow> bool res" where
  "array_is_null a i = res_bind (index_res (array_validity a) i) (\<lambda>v. Ok (\<not> v))"

abbreviation slot_value :: "'a slots \<Rightarrow> nat \<Rightarrow> 'a res" where
  "slot_value s i \<equiv> res_bind (index_res s i) (\<lambda>x. Ok (snd x))"

definition arrow_value_to_rowvalue :: "arrow_array \<Rightarrow> nat \<Rightarrow> row_value res" where
  "arrow_value_to_rowvalue arr row_idx =
     res_bind (array_is_null arr row_idx) (\<lambda>null.
     if null then Ok RowNull
     else case arr of
       Int16Array a \<Rightarrow> res_bind (slot_value a row_idx) (\<lambda>x. Ok (Int32 (scast x)))
     | Int32Array a \<Rightarrow> res_bind (slot_value a row_idx) (\<lambda>x. Ok (Int32 x))
     | Int64Array a \<Rightarrow> res_bind (slot_value a row_idx) (\<lambda>x. Ok (Int64 x))
     | Float32Array a \<Rightarrow> res_bind (slot_value a row_idx) (\<lambda>x. Ok (Float32 x))
     | Float64Array a \<Rightarrow> res_bind (slot_value a row_idx) (\<lambda>x. Ok (Float64 x))
     | BooleanArray a \<Rightarrow> res_bind (slot_value a row_idx) (\<lambda>x. Ok (RowBool x))
     | Date32Array a \<Rightarrow> res_bind (slot_value a row_idx) (\<lambda>x. Ok (Int32 x))
     | StringArray a \<Rightarrow> res_bind (slot_value a row_idx) (\<lambda>x. Ok (ByteArray x))
     | BinaryArray a \<Rightarrow> res_bind (slot_value a row_idx) (\<lambda>x. Ok (ByteArray x))
     | FixedSizeBinaryArray n a \<Rightarrow>
         if n = 16 then res_bind (slot_value a row_idx) (\<lambda>x.
           check (length x = 16) AssertFailed (Ok (FixedLenByteArray x)))
         else Panic ExplicitPanic
     | TimestampArray u tz a \<Rightarrow>
         if u = Microsecond \<and> (tz = None \<or> tz = Some ''UTC'')
         then res_bind (slot_value a row_idx) (\<lambda>x. Ok (Int64 x))
         else Panic ExplicitPanic
     | Time64Array u a \<Rightarrow>
         if u = Microsecond then res_bind (slot_value a row_idx) (\<lambda>x. Ok (Int64 x))
         else Panic ExplicitPanic
     | Decimal128Array _ _ a \<Rightarrow> res_bind (slot_value a row_idx) (\<lambda>x. Ok (Decimal x))
     | _ \<Rightarrow> Panic ExplicitPanic)"

definition record_batch_to_moonlink_row ::
  "('b, 'z) arrow_ops_scheme \<Rightarrow> 'b \<Rightarrow> moonlink_row list res" where
  "record_batch_to_moonlink_row ops batch =
     res_map (\<lambda>row_idx.
       res_bind (res_map (\<lambda>arr. arrow_value_to_rowvalue arr row_idx) (rb_columns ops batch)) (\<lambda>vs.
       Ok \<lparr>row_values = vs\<rparr>)) [0..<num_rows ops batch]"

section \<open>Comparing\<close>

text \<open>The slice of a list: child array, start and length; \<open>None\<close> for a null list.\<close>

definition list_child :: "arrow_array \<Rightarrow> nat \<Rightarrow> (arrow_array \<times> nat \<times> nat) option res" where
  "list_child column idx = (case column of
       ListArray _ offs child _ \<Rightarrow>
         res_bind (array_is_null column idx) (\<lambda>null. if null then Ok None else
         res_bind (index_res offs idx) (\<lambda>a. res_bind (index_res offs (Suc idx)) (\<lambda>b.
         Ok (Some (child, nat a, nat (b - a))))))
     | LargeListArray _ offs child _ \<Rightarrow>
         res_bind (array_is_null column idx) (\<lambda>null. if null then Ok None else
         res_bind (index_res offs idx) (\<lambda>a. res_bind (index_res offs (Suc idx)) (\<lambda>b.
         Ok (Some (child, nat a, nat (b - a))))))
     | FixedSizeListArray _ n child _ \<Rightarrow>
         res_bind (array_is_null column idx) (\<lambda>null. if null then Ok None else
         Ok (Some (child, n * idx, n)))
     | _ \<Rightarrow> Panic ExplicitPanic)"

fun value_matches_column :: "row_value \<Rightarrow> arrow_array \<Rightarrow> nat \<Rightarrow> bool res"
  and matches_items :: "row_value list \<Rightarrow> arrow_array \<Rightarrow> nat \<Rightarrow> bool res"
  and matches_children :: "row_value list \<Rightarrow> arrow_array list \<Rightarrow> nat \<Rightarrow> bool res" where
  "value_matches_column (Int32 v) column idx = (case column of
       Int32Array a \<Rightarrow> res_bind (slot_value a idx) (\<lambda>x. Ok (x = v)) | _ \<Rightarrow> Ok False)"
| "value_matches_column (Int64 v) column idx = (case column of
       Int64Array a \<Rightarrow> res_bind (slot_value a idx) (\<lambda>x. Ok (x = v)) | _ \<Rightarrow> Ok False)"
| "value_matches_column (Float32 v) column idx = (case column of
       Float32Array a \<Rightarrow> res_bind (slot_value a idx) (\<lambda>x. Ok (f32_eq x v)) | _ \<Rightarrow> Ok False)"
| "value_matches_column (Float64 v) column idx = (case column of
       Float64Array a \<Rightarrow> res_bind (slot_value a idx) (\<lambda>x. Ok (f64_eq x v)) | _ \<Rightarrow> Ok False)"
| "value_matches_column (Decimal v) column idx = (case column of
       Decimal128Array _ _ a \<Rightarrow> res_bind (slot_value a idx) (\<lambda>x. Ok (x = v)) | _ \<Rightarrow> Ok False)"
| "value_matches_column (RowBool v) column idx = (case column of
       BooleanArray a \<Rightarrow> res_bind (slot_value a idx) (\<lambda>x. Ok (x = v)) | _ \<Rightarrow> Ok False)"
| "value_matches_column (ByteArray v) column idx = (case column of
       BinaryArray a \<Rightarrow> res_bind (slot_value a idx) (\<lambda>x. Ok (x = v))
     | StringArray a \<Rightarrow> res_bind (slot_value a idx) (\<lambda>x. Ok (x = v))
     | _ \<Rightarrow> Ok False)"
| "value_matches_column (FixedLenByteArray v) column idx = (case column of
       FixedSizeBinaryArray _ a \<Rightarrow> res_bind (slot_value a idx) (\<lambda>x. Ok (x = v)) | _ \<Rightarrow> Ok False)"
| "value_matches_column (RowArray vs) column idx =
     res_bind (list_child column idx) (\<lambda>child_opt. case child_opt of
       Some (child, start, n) \<Rightarrow> if n \<noteq> length vs then Ok False else matches_items vs child start
     | None \<Rightarrow> Ok False)"
| "value_matches_column (RowStruct vs) column idx = (case column of
       StructArray fs children _ \<Rightarrow>
         res_bind (array_is_null column idx) (\<lambda>null.
         if null then Ok False
         else if length vs \<noteq> length children then Ok False
         else matches_children vs children idx)
     | _ \<Rightarrow> Ok False)"
| "value_matches_column RowNull column idx = array_is_null column idx"
| "matches_items [] child i = Ok True"
| "matches_items (v # vs) child i =
     res_bind (value_matches_column v child i) (\<lambda>same.
     if same then matches_items vs child (Suc i) else Ok False)"
| "matches_children [] children idx = Ok True"
| "matches_children (v # vs) children idx = (case children of
       [] \<Rightarrow> Ok True
     | c # cs \<Rightarrow> res_bind (value_matches_column v c idx) (\<lambda>same.
         if same then matches_children vs cs idx else Ok False))"

text \<open>
  \<^verbatim>\<open>zip\<close> ends with the shorter side: columns or values that are left over are not compared.
\<close>

definition equals_record_batch_at_offset_impl ::
  "moonlink_row \<Rightarrow> arrow_array list \<Rightarrow> nat \<Rightarrow> nat \<Rightarrow> bool res" where
  "equals_record_batch_at_offset_impl row columns batch_rows offset =
     check (offset < batch_rows) AssertFailed (matches_children (row_values row) columns offset)"

definition equals_record_batch_at_offset ::
  "('b, 'z) arrow_ops_scheme \<Rightarrow> moonlink_row \<Rightarrow> 'b \<Rightarrow> nat \<Rightarrow> identity_prop \<Rightarrow> bool res" where
  "equals_record_batch_at_offset ops row batch offset ident =
     res_bind (is_extracted_identity_row row ident) (\<lambda>extracted.
     check extracted AssertFailed (
     res_bind (case ident of
         SinglePrimitiveKey idx \<Rightarrow> res_map (index_res (rb_columns ops batch)) [idx]
       | Keys keys \<Rightarrow> res_map (index_res (rb_columns ops batch)) keys
       | FullRow \<Rightarrow> Ok (rb_columns ops batch)
       | IdentityNone \<Rightarrow> Panic ExplicitPanic) (\<lambda>columns.
     equals_record_batch_at_offset_impl row columns (num_rows ops batch) offset)))"

text \<open>
  The comparison with a row of a parquet file reads only the row group that holds the row. The parquet
  reader is a parameter: the row counts of the row groups, and the projected columns of one
  row of a group; \<open>None\<close> is a failure, which is unwrapped.
\<close>

record parquet_reader =
  pq_row_groups :: "string \<Rightarrow> nat list option"
  pq_read :: "string \<Rightarrow> nat \<Rightarrow> nat \<Rightarrow> nat list \<Rightarrow> (arrow_array list \<times> nat) option"

fun target_row_group :: "nat \<Rightarrow> nat list \<Rightarrow> nat \<Rightarrow> nat \<Rightarrow> nat \<times> nat" where
  "target_row_group offset [] row_count target = (row_count, target)"
| "target_row_group offset (n # groups) row_count target =
     (if row_count + n > offset then (row_count, target)
      else target_row_group offset groups (row_count + n) (Suc target))"

definition equals_parquet_at_offset ::
  "parquet_reader \<Rightarrow> moonlink_row \<Rightarrow> string \<Rightarrow> nat \<Rightarrow> identity_prop \<Rightarrow> bool res" where
  "equals_parquet_at_offset pq row file_name offset ident =
     res_bind (is_extracted_identity_row row ident) (\<lambda>extracted.
     check extracted AssertFailed (
     unwrap (pq_row_groups pq file_name) (\<lambda>row_groups.
     let (row_count, target) = target_row_group offset row_groups 0 0
     in res_bind (get_key_indices ident (length (row_values row))) (\<lambda>roots.
        res_bind (sub_checked offset row_count) (\<lambda>skip.
        unwrap (pq_read pq file_name target skip roots) (\<lambda>(columns, n).
        equals_record_batch_at_offset_impl row columns n 0))))))"

lemma target_row_group_spec:
  assumes "target_row_group offset groups row_count target = (rc, g)"
    and "row_count \<le> offset" and "offset < row_count + sum_list groups"
  shows "target \<le> g \<and> g - target < length groups \<and> rc = row_count + sum_list (take (g - target) groups)
    \<and> rc \<le> offset \<and> offset < rc + groups ! (g - target)"
  using assms
proof (induction offset groups row_count target rule: target_row_group.induct)
  case (2 offset n groups row_count target)
  show ?case
  proof (cases "row_count + n > offset")
    case False
    then have "Suc target \<le> g \<and> g - Suc target < length groups
        \<and> rc = row_count + n + sum_list (take (g - Suc target) groups) \<and> rc \<le> offset
        \<and> offset < rc + groups ! (g - Suc target)"
      using 2 by simp
    then show ?thesis by (auto simp: take_Cons' nth_Cons')
  qed (use 2 in auto)
qed auto

section \<open>Flat columns\<close>

text \<open>The types of columns without nesting that the reader supports, and the values they hold exactly.\<close>

fun flat_type :: "('b, 'z) arrow_ops_scheme \<Rightarrow> data_type \<Rightarrow> bool" where
  "flat_type ops (DtTimestamp u tz) = (u = Microsecond \<and> (tz = None \<or> tz = Some ''UTC''))"
| "flat_type ops (DtTime64 u) = (u = Microsecond)"
| "flat_type ops (DtFixedSizeBinary n) = (n = 16)"
| "flat_type ops (DtDecimal128 p s) = valid_precision ops p s"
| "flat_type ops (DtList _) = False"
| "flat_type ops (DtStruct _) = False"
| "flat_type ops (DtMap _ _) = False"
| "flat_type ops (DtOther _) = False"
| "flat_type ops _ = True"

definition value_fits :: "data_type \<Rightarrow> row_value \<Rightarrow> bool" where
  "value_fits dt v \<longleftrightarrow> has_type dt v
     \<and> (dt = DtInt16 \<longrightarrow> (\<forall>x. v = Int32 x \<longrightarrow> - (2 ^ 15) \<le> sint x \<and> sint x < 2 ^ 15))"

fun slot_i32 :: "('b, 'z) arrow_ops_scheme \<Rightarrow> row_value \<Rightarrow> bool \<times> 32 word" where
  "slot_i32 ops (Int32 x) = (True, x)" | "slot_i32 ops _ = (False, null_i32 ops)"

fun slot_i64 :: "('b, 'z) arrow_ops_scheme \<Rightarrow> row_value \<Rightarrow> bool \<times> 64 word" where
  "slot_i64 ops (Int64 x) = (True, x)" | "slot_i64 ops _ = (False, null_i64 ops)"

fun slot_bytes :: "('b, 'z) arrow_ops_scheme \<Rightarrow> row_value \<Rightarrow> bool \<times> u8 list" where
  "slot_bytes ops (ByteArray x) = (True, x)" | "slot_bytes ops _ = (False, null_bytes ops)"

fun slot_bool :: "('b, 'z) arrow_ops_scheme \<Rightarrow> row_value \<Rightarrow> bool \<times> bool" where
  "slot_bool ops (RowBool x) = (True, x)" | "slot_bool ops _ = (False, null_bool ops)"

fun slot_f32 :: "('b, 'z) arrow_ops_scheme \<Rightarrow> row_value \<Rightarrow> bool \<times> 32 word" where
  "slot_f32 ops (Float32 x) = (True, x)" | "slot_f32 ops _ = (False, null_f32 ops)"

fun slot_f64 :: "('b, 'z) arrow_ops_scheme \<Rightarrow> row_value \<Rightarrow> bool \<times> 64 word" where
  "slot_f64 ops (Float64 x) = (True, x)" | "slot_f64 ops _ = (False, null_f64 ops)"

fun slot_i128 :: "('b, 'z) arrow_ops_scheme \<Rightarrow> row_value \<Rightarrow> bool \<times> 128 word" where
  "slot_i128 ops (Decimal x) = (True, x)" | "slot_i128 ops _ = (False, null_i128 ops)"

fun slot_fixed :: "('b, 'z) arrow_ops_scheme \<Rightarrow> nat \<Rightarrow> row_value \<Rightarrow> bool \<times> u8 list" where
  "slot_fixed ops n (FixedLenByteArray x) = (True, x)" | "slot_fixed ops n _ = (False, null_fixed ops n)"

text \<open>The builder of a flat column that holds given values.\<close>

fun column_of :: "('b, 'z) arrow_ops_scheme \<Rightarrow> data_type \<Rightarrow> row_value list \<Rightarrow> column_array_builder" where
  "column_of ops DtBoolean vs = BBoolean (map (slot_bool ops) vs)"
| "column_of ops DtInt16 vs = BInt32 (map (slot_i32 ops) vs)"
| "column_of ops DtInt32 vs = BInt32 (map (slot_i32 ops) vs)"
| "column_of ops DtDate32 vs = BInt32 (map (slot_i32 ops) vs)"
| "column_of ops DtInt64 vs = BInt64 (map (slot_i64 ops) vs)"
| "column_of ops (DtTimestamp _ _) vs = BInt64 (map (slot_i64 ops) vs)"
| "column_of ops (DtTime64 _) vs = BInt64 (map (slot_i64 ops) vs)"
| "column_of ops DtFloat32 vs = BFloat32 (map (slot_f32 ops) vs)"
| "column_of ops DtFloat64 vs = BFloat64 (map (slot_f64 ops) vs)"
| "column_of ops (DtDecimal128 p s) vs =
     BDecimal128 p s (map (slot_i128 ops) vs)"
| "column_of ops DtUtf8 vs = BUtf8 (map (slot_bytes ops) vs)"
| "column_of ops DtBinary vs = BBinary (map (slot_bytes ops) vs)"
| "column_of ops (DtFixedSizeBinary n) vs = BFixedSizeBinary n
     (map (slot_fixed ops n) vs)"
| "column_of ops _ vs = BBoolean []"

lemma new_builder_flat: "flat_type ops dt \<Longrightarrow> new_builder ops dt = Ok (column_of ops dt [])"
  by (cases dt) auto

lemma append_flat:
  "flat_type ops dt \<Longrightarrow> append_value ops (column_of ops dt vs) v =
     (if has_type dt v then (None, column_of ops dt (vs @ [v]))
      else (fst (append_value ops (column_of ops dt vs) v), column_of ops dt vs))"
  "flat_type ops dt \<Longrightarrow> \<not> has_type dt v \<Longrightarrow> fst (append_value ops (column_of ops dt vs) v) \<noteq> None"
  by (cases dt; cases v; simp add: append_value.simps(1) append_leaf_def has_type.simps(1))+

text \<open>How a stored value compares with the value of a row.\<close>

fun cell_matches :: "('b, 'z) arrow_ops_scheme \<Rightarrow> data_type \<Rightarrow> row_value \<Rightarrow> row_value \<Rightarrow> bool" where
  "cell_matches ops dt (Int32 v) w = (dt = DtInt32 \<and> snd (slot_i32 ops w) = v)"
| "cell_matches ops dt (Int64 v) w = (dt = DtInt64 \<and> snd (slot_i64 ops w) = v)"
| "cell_matches ops dt (Float32 v) w = (dt = DtFloat32 \<and> f32_eq (snd (slot_f32 ops w)) v)"
| "cell_matches ops dt (Float64 v) w = (dt = DtFloat64 \<and> f64_eq (snd (slot_f64 ops w)) v)"
| "cell_matches ops dt (Decimal v) w =
     ((case dt of DtDecimal128 _ _ \<Rightarrow> True | _ \<Rightarrow> False) \<and> snd (slot_i128 ops w) = v)"
| "cell_matches ops dt (RowBool v) w = (dt = DtBoolean \<and> snd (slot_bool ops w) = v)"
| "cell_matches ops dt (ByteArray v) w = (dt \<in> {DtBinary, DtUtf8} \<and> snd (slot_bytes ops w) = v)"
| "cell_matches ops dt (FixedLenByteArray v) w =
     (\<exists>n. dt = DtFixedSizeBinary n \<and> snd (slot_fixed ops n w) = v)"
| "cell_matches ops dt (RowArray _) w = False"
| "cell_matches ops dt (RowStruct _) w = False"
| "cell_matches ops dt RowNull w = (w = RowNull)"

lemma narrow_roundtrip:
  assumes "- (2 ^ 15) \<le> sint x" and "sint x < 2 ^ 15"
  shows "scast (scast (x :: 32 word) :: 16 word) = x"
proof -
  have "sint (scast x :: 16 word) = sint x"
    using assms by (simp add: signed_scast_eq signed_take_bit_int_eq_self)
  then have "(word_of_int (sint (scast x :: 16 word)) :: 32 word) = x" by simp
  then show ?thesis by (simp only: scast_eq)
qed

text \<open>The array of a finished flat column, except that of 16-bit integers, which goes through a cast.\<close>

fun flat_array :: "('b, 'z) arrow_ops_scheme \<Rightarrow> data_type \<Rightarrow> column_array_builder \<Rightarrow> arrow_array" where
  "flat_array ops dt (BBoolean s) = BooleanArray s"
| "flat_array ops dt (BInt32 s) = (if dt = DtDate32 then Date32Array s else Int32Array s)"
| "flat_array ops dt (BInt64 s) = (case dt of
       DtTimestamp u tz \<Rightarrow> TimestampArray u tz s | DtTime64 u \<Rightarrow> Time64Array u s | _ \<Rightarrow> Int64Array s)"
| "flat_array ops dt (BFloat32 s) = Float32Array s"
| "flat_array ops dt (BFloat64 s) = Float64Array s"
| "flat_array ops dt (BDecimal128 p sc s) = Decimal128Array p sc s"
| "flat_array ops dt (BUtf8 s) = StringArray s"
| "flat_array ops dt (BFixedSizeBinary n s) = FixedSizeBinaryArray n s"
| "flat_array ops dt (BBinary s) = BinaryArray s"
| "flat_array ops dt _ = BooleanArray []"

lemma finish_flat:
  assumes "arrow_ops_ok ops" and "flat_type ops dt" and "dt \<noteq> DtInt16"
  shows "finish ops (column_of ops dt vs) dt = Ok (flat_array ops dt (column_of ops dt vs))"
  using assms(2,3) arrow_ops_okD(1,3,4)[OF assms(1)] by (cases dt) (auto simp: cast_unwrap_def)

lemma flat_array_slot:
  assumes "flat_type ops dt" and "dt \<noteq> DtInt16" and "i < length vs" and "value_fits dt (vs ! i)"
  shows "arrow_value_to_rowvalue (flat_array ops dt (column_of ops dt vs)) i = Ok (vs ! i)"
    and "array_validity (flat_array ops dt (column_of ops dt vs)) ! i = (vs ! i \<noteq> RowNull)"
    and "(\<And>ws. v \<noteq> RowArray ws) \<Longrightarrow>
      value_matches_column v (flat_array ops dt (column_of ops dt vs)) i = Ok (cell_matches ops dt v (vs ! i))"
proof -
  note d = arrow_value_to_rowvalue_def array_is_null_def index_res_def value_fits_def has_type.simps(1)
  show "arrow_value_to_rowvalue (flat_array ops dt (column_of ops dt vs)) i = Ok (vs ! i)"
    using assms by (cases dt; cases "vs ! i") (auto simp: d)
  show "array_validity (flat_array ops dt (column_of ops dt vs)) ! i = (vs ! i \<noteq> RowNull)"
    using assms by (cases dt; cases "vs ! i") (auto simp: d)
  show "value_matches_column v (flat_array ops dt (column_of ops dt vs)) i = Ok (cell_matches ops dt v (vs ! i))"
    if "\<And>ws. v \<noteq> RowArray ws"
  proof (cases "v = RowNull")
    case True
    then show ?thesis using assms by (cases dt; cases "vs ! i") (auto simp: d)
  next
    case False
    then show ?thesis using assms(1-3) that by (cases dt; cases v) (auto simp: index_res_def)
  qed
qed

lemma flat_array_type:
  assumes "flat_type ops dt" and "dt \<noteq> DtInt16"
  shows "array_type (flat_array ops dt (column_of ops dt vs)) = dt"
    and "array_len (flat_array ops dt (column_of ops dt vs)) = length vs"
  using assms by (cases dt; simp)+

lemma flat_column:
  assumes "arrow_ops_ok ops" and "flat_type ops dt" and "\<forall>v \<in> set vs. value_fits dt v"
  obtains a where "finish ops (column_of ops dt vs) dt = Ok a" "array_type a = dt" "array_len a = length vs"
    "\<And>i. i < length vs \<Longrightarrow> arrow_value_to_rowvalue a i = Ok (vs ! i)"
    "\<And>i. i < length vs \<Longrightarrow> array_validity a ! i = (vs ! i \<noteq> RowNull)"
    "\<And>i v. i < length vs \<Longrightarrow> (\<And>ws. v \<noteq> RowArray ws) \<Longrightarrow> value_matches_column v a i = Ok (cell_matches ops dt v (vs ! i))"
proof (cases "dt = DtInt16")
  case False
  show thesis
    using that[OF finish_flat[OF assms(1,2) False] flat_array_type[OF assms(2) False]]
      flat_array_slot[OF assms(2) False] assms(3) by simp
next
  case True
  let ?s = "map (slot_i32 ops) vs"
  obtain t where t: "arrow_cast ops (Int32Array ?s) DtInt16 = Some (Int16Array t)" "length t = length vs"
    "\<And>i. i < length vs \<Longrightarrow> fst (t ! i) = fst (narrow_slot (slot_i32 ops (vs ! i)))"
    "\<And>i. i < length vs \<Longrightarrow> fst (t ! i) \<Longrightarrow> snd (t ! i) = snd (narrow_slot (slot_i32 ops (vs ! i)))"
    using arrow_ops_okD(2)[OF assms(1), of ?s] by auto
  have valid: "fst (t ! i) = (vs ! i \<noteq> RowNull)" if "i < length vs" for i
    using t(3)[OF that] assms(3) that True
    by (cases "vs ! i") (auto simp: value_fits_def has_type.simps(1) narrow_slot_def all_set_conv_all_nth)
  have read: "snd (t ! i) = scast x \<and> - (2 ^ 15) \<le> sint x \<and> sint x < 2 ^ 15" if "i < length vs" "vs ! i = Int32 x" for i x
    using t(4)[OF that(1)] valid[OF that(1)] assms(3) that True
    by (auto simp: value_fits_def narrow_slot_def all_set_conv_all_nth)
  have ty: "vs ! i = RowNull \<or> (\<exists>x. vs ! i = Int32 x)" if "i < length vs" for i
    using assms(3) that True by (cases "vs ! i") (auto simp: value_fits_def has_type.simps(1) all_set_conv_all_nth)
  show thesis
  proof (rule that[of "Int16Array t"])
    show "finish ops (column_of ops dt vs) dt = Ok (Int16Array t)" using True t(1) by (simp add: cast_unwrap_def)
  next
    fix i assume i: "i < length vs"
    show "arrow_value_to_rowvalue (Int16Array t) i = Ok (vs ! i)"
      using ty[OF i] valid[OF i] read[OF i] i t(2) narrow_roundtrip
      by (auto simp: arrow_value_to_rowvalue_def array_is_null_def index_res_def)
    show "array_validity (Int16Array t) ! i = (vs ! i \<noteq> RowNull)" using valid[OF i] i t(2) by simp
    show "value_matches_column v (Int16Array t) i = Ok (cell_matches ops dt v (vs ! i))"
      if "\<And>ws. v \<noteq> RowArray ws" for v
      using that valid[OF i] i t(2) True by (cases v) (auto simp: array_is_null_def index_res_def)
  qed (use True t(2) in auto)
qed

section \<open>Lists followed by nulls\<close>

text \<open>
  C33: a list followed by a null in the same column loses its items. The builder of the null
  repeats the offset where the previous list starts, not the one where it ends. So after
  a non-empty list and a null, the stored list matches the empty list and no longer the
  list that was appended.
\<close>

theorem null_after_list_loses_items:
  assumes "arrow_ops_ok ops" and "buildable ops (DtList f)" and "\<forall>v \<in> set vs. has_type (field_type f) v"
    and "vs \<noteq> []" and "sum_list (map weight vs) < 2 ^ 31"
  shows "\<exists>b b' arr. new_builder ops (DtList f) = Ok b
    \<and> append_items ops b [RowArray vs, RowNull] = (None, b') \<and> finish ops b' (DtList f) = Ok arr
    \<and> value_matches_column (RowArray vs) arr 0 = Ok False
    \<and> value_matches_column (RowArray []) arr 0 = Ok True"
proof -
  have f: "field_nullable f" "buildable ops (field_type f)" using assms(2) by (simp_all add: buildable_field_iff)
  obtain inner where inner: "new_list_builder ops f = Ok (ListBuilderHelper f [] [] inner 0)"
    "builder_for (field_type f) inner" "builder_len inner = 0" "lens_le 0 inner"
    using new_builder_typed_all(2)[of ops f] assms(2) by auto
  obtain inner' where inner': "append_items ops inner vs = (None, inner')" "builder_for (field_type f) inner'"
    "builder_len inner' = length vs"
    using append_typed_all(3)[OF inner(2), of vs ops] assms(3) inner(3) by auto
  have "lens_le (sum_list (map weight vs)) inner'"
    using append_len_all(3)[OF inner(4), of vs ops] inner'(1) by simp
  from finish_typed_all(1)[OF assms(1) f(2) inner'(2) this assms(5)]
  obtain a where a: "finish ops inner' (field_type f) = Ok a" "array_type a = field_type f" "array_len a = length vs"
    using inner'(3) by auto
  have "length vs < 2 ^ 31"
    using assms(5) sum_list_mono[of vs "\<lambda>_. 1" weight] weight_pos by (simp add: sum_list_triv order.strict_trans1)
  then have n: "as_i32 (length vs) = int (length vs)" "as_i32 0 = 0" by (simp_all add: as_i32_small)
  let ?b = "BList (ListBuilderHelper f [] [] inner 0)"
  let ?b' = "BList (ListBuilderHelper f [0, 0] [True, False] inner' 2)"
  let ?arr = "ListArray f [0, 0, int (length vs)] a [True, False]"
  have "append_items ops ?b [RowArray vs, RowNull] = (None, ?b')"
    using inner'(1) inner(3) n(2) by (simp add: append_value.simps append_list.simps)
  moreover have "finish ops ?b' (DtList f) = Ok ?arr"
    using a f arrow_ops_okD(5)[OF assms(1), of a f "[0, 0, int (length vs)]" "[True, False]"] n(1) by simp
  moreover have "value_matches_column (RowArray vs) ?arr 0 = Ok False" "value_matches_column (RowArray []) ?arr 0 = Ok True"
    using assms(4) by (simp_all add: list_child_def array_is_null_def index_res_def)
  ultimately show ?thesis using inner(1) by (intro exI[of _ ?b] exI[of _ ?b'] exI[of _ ?arr]) simp
qed

theorem null_after_list_loses_items_witness:
  "\<exists>b b' arr. new_builder plain_arrow (DtList (ArrowField ''x'' DtInt32 True)) = Ok b
    \<and> append_items plain_arrow b [RowArray [Int32 1, Int32 2], RowNull] = (None, b')
    \<and> finish plain_arrow b' (DtList (ArrowField ''x'' DtInt32 True)) = Ok arr
    \<and> value_matches_column (RowArray [Int32 1, Int32 2]) arr 0 = Ok False
    \<and> value_matches_column (RowArray []) arr 0 = Ok True"
  by (rule null_after_list_loses_items[OF plain_arrow_ok]) (simp_all add: has_type.simps(1))

end
