(* ===== verification/Column_Store.thy ===== *)
theory Column_Store
  imports Arrow_Rows Batch_Id
begin

text \<open>
  The column store buffer (\<^verbatim>\<open>storage/mooncake_table/data_batches.rs\<close>) and the row buffer it
  shares with readers (\<^verbatim>\<open>shared_array.rs\<close>): rows are appended to the builders of the current
  batch, full batches become arrow record batches, and each batch carries a deletion
  vector. The id counter is shared with other buffers, so it is passed in and out.
  Operations that can fail return the state they leave behind also on error. The lemmas are
  about tables of flat columns whose rows fit the schema.
\<close>

section \<open>Batches in memory\<close>

record 'b in_memory_batch =
  batch_data :: "'b option"
  deletions :: batch_deletion_vector

definition new_in_memory_batch :: "nat \<Rightarrow> 'b in_memory_batch" where
  "new_in_memory_batch max_rows_per_buffer =
     \<lparr>batch_data = None, deletions = new_deletion_vector max_rows_per_buffer\<rparr>"

definition get_raw_record_number :: "('b, 'z) arrow_batches_scheme \<Rightarrow> 'b in_memory_batch \<Rightarrow> nat" where
  "get_raw_record_number ops batch = (case batch_data batch of Some b \<Rightarrow> num_rows ops b | None \<Rightarrow> 0)"

text \<open>\<open>None\<close> inside \<open>Ok\<close> is the error of the filter; the inner option is the batch, if any row is left.\<close>

definition get_filtered_batch ::
  "('b, 'z) arrow_batches_scheme \<Rightarrow> 'b in_memory_batch \<Rightarrow> 'b option option res" where
  "get_filtered_batch ops batch = (case batch_data batch of
       None \<Rightarrow> Ok (Some None)
     | Some data \<Rightarrow> res_bind (apply_to_batch ops (deletions batch) data) (\<lambda>r. case r of
           None \<Rightarrow> Ok None
         | Some b \<Rightarrow> Ok (Some (if num_rows ops b = 0 then None else Some b))))"

definition get_filtered_batch_with_limit ::
  "('b, 'z) arrow_batches_scheme \<Rightarrow> 'b in_memory_batch \<Rightarrow> nat \<Rightarrow> 'b option option res" where
  "get_filtered_batch_with_limit ops batch row_limit =
     check (batch_data batch \<noteq> None) AssertFailed (
     unwrap (batch_data batch) (\<lambda>data.
     res_bind (batch_slice ops data 0 row_limit) (\<lambda>b.
     res_bind (apply_to_batch ops (deletions batch) b) (\<lambda>r. Ok (map_option Some r)))))"

record 'b batch_entry =
  be_id :: u64
  be_batch :: "'b in_memory_batch"

record shared_row_buffer_snapshot =
  srb_rows :: "moonlink_row list"
  srb_length :: nat

definition get_buffer :: "shared_row_buffer_snapshot \<Rightarrow> nat \<Rightarrow> moonlink_row list res" where
  "get_buffer s n =
     check (n \<le> srb_length s) AssertFailed (
     check (n \<le> length (srb_rows s)) IndexOutOfRange (Ok (take n (srb_rows s))))"

record 'b column_store_buffer =
  cs_schema :: "arrow_field list"
  max_rows_per_buffer :: nat
  in_memory_batches :: "'b batch_entry list"
  current_batch_builder :: "column_array_builder list"
  current_rows :: "moonlink_row list"
  current_row_count :: nat

definition new_builders ::
  "('b, 'z) arrow_ops_scheme \<Rightarrow> arrow_field list \<Rightarrow> column_array_builder list res" where
  "new_builders ops fs = res_map (\<lambda>f. new_builder ops (field_type f)) fs"

definition finish_columns ::
  "('b, 'z) arrow_ops_scheme \<Rightarrow> column_array_builder list \<Rightarrow> arrow_field list \<Rightarrow> arrow_array list res" where
  "finish_columns ops builders fs = res_map (\<lambda>(b, f). finish ops b (field_type f)) (zip builders fs)"

datatype store_error = AppendFailed append_error | BatchFailed string

definition next_batch_id :: "batch_id_counter \<Rightarrow> (u64 \<times> batch_id_counter) res" where
  "next_batch_id c = res_bind (get_and_next c) (\<lambda>(i, c). res_bind (checked_add i 1) (\<lambda>j. Ok (j, c)))"

definition new_column_store_buffer ::
  "('b, 'z) arrow_ops_scheme \<Rightarrow> arrow_field list \<Rightarrow> nat \<Rightarrow> batch_id_counter \<Rightarrow>
   ('b column_store_buffer \<times> batch_id_counter) res" where
  "new_column_store_buffer ops schema capacity c =
     res_bind (new_builders ops schema) (\<lambda>builders.
     res_bind (next_batch_id c) (\<lambda>(initial_id, c).
     Ok (\<lparr>cs_schema = schema, max_rows_per_buffer = capacity,
          in_memory_batches = [\<lparr>be_id = initial_id, be_batch = new_in_memory_batch capacity\<rparr>],
          current_batch_builder = builders, current_rows = [], current_row_count = 0\<rparr>, c)))"

section \<open>Appending\<close>

text \<open>The id returned is computed from the next one, not read from the batch.\<close>

definition finalize_current_batch ::
  "('b, 'z) arrow_ops_scheme \<Rightarrow> 'b column_store_buffer \<Rightarrow> batch_id_counter \<Rightarrow>
   ((store_error + (u64 \<times> 'b) option) \<times> 'b column_store_buffer \<times> batch_id_counter) res" where
  "finalize_current_batch ops cs c =
     (if current_row_count cs = 0 then Ok (Inr None, cs, c)
      else res_bind (new_builders ops (cs_schema cs)) (\<lambda>fresh.
      res_bind (finish_columns ops (current_batch_builder cs) (cs_schema cs)) (\<lambda>columns.
      let cs = cs\<lparr>current_batch_builder := fresh\<rparr>
      in case rb_try_new ops (cs_schema cs) columns of
           Inl e \<Rightarrow> Ok (Inl (BatchFailed e), cs, c)
         | Inr batch \<Rightarrow>
             check (in_memory_batches cs \<noteq> []) UnwrapNone (
             let closed = (last (in_memory_batches cs))
                   \<lparr>be_batch := (be_batch (last (in_memory_batches cs)))\<lparr>batch_data := Some batch\<rparr>\<rparr>
             in res_bind (next_batch_id c) (\<lambda>(next_id, c).
             res_bind (if 1 \<le> next_id then Ok (next_id - 1) else Panic Overflow) (\<lambda>finished_id.
             Ok (Inr (Some (finished_id, batch)),
                 cs\<lparr>in_memory_batches := butlast (in_memory_batches cs) @
                      [closed, \<lparr>be_id = next_id, be_batch = new_in_memory_batch (max_rows_per_buffer cs)\<rparr>],
                    current_row_count := 0, current_rows := []\<rparr>, c)))))))"

fun append_cells ::
  "('b, 'z) arrow_ops_scheme \<Rightarrow> column_array_builder list \<Rightarrow> nat \<Rightarrow> row_value list \<Rightarrow>
   ((store_error + unit) \<times> column_array_builder list) res" where
  "append_cells ops builders idx [] = Ok (Inr (), builders)"
| "append_cells ops builders idx (v # vs) =
     res_bind (index_res builders idx) (\<lambda>b.
     case append_value ops b v of
       (Some e, b') \<Rightarrow> Ok (Inl (AppendFailed e), builders[idx := b'])
     | (None, b') \<Rightarrow> append_cells ops (builders[idx := b']) (Suc idx) vs)"

text \<open>
  The row count stays below the batch size plus one, so its increment does not overflow.
\<close>

definition append_row ::
  "('b, 'z) arrow_ops_scheme \<Rightarrow> 'b column_store_buffer \<Rightarrow> batch_id_counter \<Rightarrow>
   moonlink_row \<Rightarrow>
   ((store_error + (u64 \<times> nat \<times> (u64 \<times> 'b) option)) \<times> 'b column_store_buffer \<times> batch_id_counter) res"
  where
  "append_row ops cs c row =
     res_bind (if current_row_count cs \<ge> max_rows_per_buffer cs then finalize_current_batch ops cs c
               else Ok (Inr None, cs, c)) (\<lambda>(r, cs, c).
     case r of
       Inl e \<Rightarrow> Ok (Inl e, cs, c)
     | Inr new_batch \<Rightarrow>
         res_bind (append_cells ops (current_batch_builder cs) 0 (row_values row)) (\<lambda>(r, builders).
         let cs = cs\<lparr>current_batch_builder := builders\<rparr>
         in case r of
              Inl e \<Rightarrow> Ok (Inl e, cs, c)
            | Inr _ \<Rightarrow>
                let cs = cs\<lparr>current_row_count := Suc (current_row_count cs),
                           current_rows := current_rows cs @ [row]\<rparr>
                in check (in_memory_batches cs \<noteq> []) UnwrapNone (
                   Ok (Inr (be_id (last (in_memory_batches cs)), current_row_count cs - 1, new_batch), cs, c))))"

text \<open>
  The append of an initial copy keeps no rows in the shared buffer, and takes a failing
  builder for a panic.
\<close>

definition append_initial_copy_row ::
  "('b, 'z) arrow_ops_scheme \<Rightarrow> 'b column_store_buffer \<Rightarrow> batch_id_counter \<Rightarrow>
   row_value list \<Rightarrow>
   ((store_error + (u64 \<times> nat \<times> (u64 \<times> 'b) option)) \<times> 'b column_store_buffer \<times> batch_id_counter) res"
  where
  "append_initial_copy_row ops cs c vs =
     res_bind (if current_row_count cs \<ge> max_rows_per_buffer cs then finalize_current_batch ops cs c
               else Ok (Inr None, cs, c)) (\<lambda>(r, cs, c).
     case r of
       Inl e \<Rightarrow> Ok (Inl e, cs, c)
     | Inr new_batch \<Rightarrow>
         res_bind (append_cells ops (current_batch_builder cs) 0 vs) (\<lambda>(r, builders).
         check (\<not> isl r) AssertFailed (
         let cs = cs\<lparr>current_batch_builder := builders, current_row_count := Suc (current_row_count cs)\<rparr>
         in check (in_memory_batches cs \<noteq> []) UnwrapNone (
            Ok (Inr (be_id (last (in_memory_batches cs)), current_row_count cs - 1, new_batch), cs, c)))))"

section \<open>Deleting\<close>

definition check_identity ::
  "('b, 'z) arrow_ops_scheme \<Rightarrow> 'b column_store_buffer \<Rightarrow> raw_deletion_record \<Rightarrow>
   'b in_memory_batch \<Rightarrow> nat \<Rightarrow> identity_prop \<Rightarrow> bool res" where
  "check_identity ops cs record batch offset ident =
     (case rd_row_identity record of
        None \<Rightarrow> Ok True
      | Some row \<Rightarrow>
          res_bind (requires_identity_check_in_mem_slice ident) (\<lambda>required.
          if \<not> required then Ok True
          else case batch_data batch of
                 Some data \<Rightarrow> equals_record_batch_at_offset ops row data offset ident
               | None \<Rightarrow> res_bind (index_res (current_rows cs) offset) (\<lambda>other.
                   equals_moonlink_row row other ident)))"

abbreviation batch_ids_of :: "'b column_store_buffer \<Rightarrow> u64 list" where
  "batch_ids_of cs \<equiv> map be_id (in_memory_batches cs)"

text \<open>The search that both the lookup and the deletion by record start with.\<close>

definition locate_valid_row ::
  "('b, 'z) arrow_ops_scheme \<Rightarrow> 'b column_store_buffer \<Rightarrow> raw_deletion_record \<Rightarrow>
   record_location \<Rightarrow> identity_prop \<Rightarrow> (nat \<times> u64 \<times> nat) option res" where
  "locate_valid_row ops cs record location ident = (case location of
       MemoryBatch batch_id row_offset \<Rightarrow>
         (case binary_search (batch_ids_of cs) batch_id of
            None \<Rightarrow> Panic UnwrapErr
          | Some idx \<Rightarrow>
              res_bind (index_res (in_memory_batches cs) idx) (\<lambda>entry.
              res_bind (is_deleted ops (deletions (be_batch entry)) row_offset) (\<lambda>gone.
              if gone then Ok None
              else res_bind (check_identity ops cs record (be_batch entry) row_offset ident) (\<lambda>same.
                Ok (if same then Some (idx, batch_id, row_offset) else None)))))
     | DiskFile _ _ \<Rightarrow> Ok None)"

definition find_valid_row_by_record ::
  "('b, 'z) arrow_ops_scheme \<Rightarrow> 'b column_store_buffer \<Rightarrow> raw_deletion_record \<Rightarrow>
   record_location \<Rightarrow> identity_prop \<Rightarrow> (u64 \<times> nat) option res" where
  "find_valid_row_by_record ops cs record location ident =
     res_bind (locate_valid_row ops cs record location ident) (\<lambda>r. Ok (map_option snd r))"

definition delete_in_batch ::
  "('b, 'z) arrow_ops_scheme \<Rightarrow> 'b column_store_buffer \<Rightarrow> nat \<Rightarrow> nat \<Rightarrow>
   'b column_store_buffer res" where
  "delete_in_batch ops cs idx row_offset =
     res_bind (index_res (in_memory_batches cs) idx) (\<lambda>entry.
     res_bind (delete_row ops (deletions (be_batch entry)) row_offset) (\<lambda>(marked, dv).
     check marked AssertFailed (
     Ok (cs\<lparr>in_memory_batches := (in_memory_batches cs)
           [idx := entry\<lparr>be_batch := (be_batch entry)\<lparr>deletions := dv\<rparr>\<rparr>]\<rparr>))))"

definition delete_row_by_record ::
  "('b, 'z) arrow_ops_scheme \<Rightarrow> 'b column_store_buffer \<Rightarrow> raw_deletion_record \<Rightarrow>
   record_location \<Rightarrow> identity_prop \<Rightarrow> ((u64 \<times> nat) option \<times> 'b column_store_buffer) res" where
  "delete_row_by_record ops cs record location ident =
     res_bind (locate_valid_row ops cs record location ident) (\<lambda>r. case r of
       None \<Rightarrow> Ok (None, cs)
     | Some (idx, batch_id, row_offset) \<Rightarrow>
         res_bind (delete_in_batch ops cs idx row_offset) (\<lambda>cs. Ok (Some (batch_id, row_offset), cs)))"

definition try_delete_at_pos ::
  "('b, 'z) arrow_ops_scheme \<Rightarrow> 'b column_store_buffer \<Rightarrow> u64 \<times> nat \<Rightarrow>
   (bool \<times> 'b column_store_buffer) res" where
  "try_delete_at_pos ops cs pos =
     (case binary_search (batch_ids_of cs) (fst pos) of
        Some idx \<Rightarrow> res_bind (delete_in_batch ops cs idx (snd pos)) (\<lambda>cs. Ok (True, cs))
      | None \<Rightarrow> Ok (False, cs))"

section \<open>Draining and reading\<close>

definition drain_column_store ::
  "'b column_store_buffer \<Rightarrow> ('b batch_entry list \<times> 'b column_store_buffer) res" where
  "drain_column_store cs =
     check (current_row_count cs = 0) AssertFailed (
     check (in_memory_batches cs \<noteq> []) UnwrapNone (
     Ok (butlast (in_memory_batches cs), cs\<lparr>in_memory_batches := [last (in_memory_batches cs)]\<rparr>)))"

definition cs_get_num_rows :: "'b column_store_buffer \<Rightarrow> nat" where
  "cs_get_num_rows cs =
     (length (in_memory_batches cs) - 1) * max_rows_per_buffer cs + current_row_count cs"

definition cs_get_commit_check_point :: "'b column_store_buffer \<Rightarrow> record_location res" where
  "cs_get_commit_check_point cs =
     check (in_memory_batches cs \<noteq> []) UnwrapNone (
     Ok (MemoryBatch (be_id (last (in_memory_batches cs))) (current_row_count cs)))"

definition cs_get_latest_rows :: "'b column_store_buffer \<Rightarrow> shared_row_buffer_snapshot" where
  "cs_get_latest_rows cs = \<lparr>srb_rows = current_rows cs, srb_length = length (current_rows cs)\<rparr>"

definition create_batch_from_rows ::
  "('b, 'z) arrow_ops_scheme \<Rightarrow> moonlink_row list \<Rightarrow> arrow_field list \<Rightarrow> batch_deletion_vector \<Rightarrow> 'b res" where
  "create_batch_from_rows ops rows schema dels =
     res_bind (new_builders ops schema) (\<lambda>builders.
     res_bind (res_fold (\<lambda>builders (i, row).
         res_bind (is_deleted ops dels i) (\<lambda>gone.
         if gone then Ok builders
         else check (length schema \<le> length (row_values row)) IndexOutOfRange (
           res_bind (append_cells ops builders 0 (take (length schema) (row_values row))) (\<lambda>(r, builders).
           check (\<not> isl r) AssertFailed (Ok builders)))))
       builders (enumerate 0 rows)) (\<lambda>builders.
     res_bind (finish_columns ops builders schema) (\<lambda>columns.
     case rb_try_new ops schema columns of
       Inl e \<Rightarrow> Panic UnwrapErr
     | Inr b \<Rightarrow> Ok b)))"

section \<open>Rows of a batch\<close>

definition batch_rows :: "('b, 'z) arrow_ops_scheme \<Rightarrow> 'b \<Rightarrow> moonlink_row list" where
  "batch_rows ops b = map (\<lambda>i. \<lparr>row_values = map (\<lambda>a. case arrow_value_to_rowvalue a i of Ok v \<Rightarrow> v | Panic _ \<Rightarrow> RowNull)
     (rb_columns ops b)\<rparr>) [0..<num_rows ops b]"

text \<open>
  What is assumed of record batches: slices and filters select rows, and columns of the same
  length that agree with the schema make a batch.
\<close>

definition batch_ops_ok :: "('b, 'z) arrow_ops_scheme \<Rightarrow> bool" where
  "batch_ops_ok ops \<longleftrightarrow> arrow_ops_ok ops \<and> arrow_batches_ok ops (batch_rows ops)
     \<and> (\<forall>fs as n. fs \<noteq> [] \<and> list_all2 field_allows fs as \<and> (\<forall>a \<in> set as. array_len a = n) \<longrightarrow>
          (\<exists>b. rb_try_new ops fs as = Inr b \<and> rb_columns ops b = as \<and> num_rows ops b = n))"

lemma batch_ops_okD:
  assumes "batch_ops_ok ops"
  shows "arrow_ops_ok ops" and "arrow_bits_ok ops" and "arrow_batches_ok ops (batch_rows ops)"
    and "fs \<noteq> [] \<Longrightarrow> list_all2 field_allows fs as \<Longrightarrow> \<forall>a \<in> set as. array_len a = n \<Longrightarrow>
      \<exists>b. rb_try_new ops fs as = Inr b \<and> rb_columns ops b = as \<and> num_rows ops b = n"
proof -
  note ok = assms[unfolded batch_ops_ok_def]
  show "arrow_ops_ok ops" "arrow_batches_ok ops (batch_rows ops)" using ok by blast+
  then show "arrow_bits_ok ops" by (simp add: arrow_batches_ok_def)
  show "fs \<noteq> [] \<Longrightarrow> list_all2 field_allows fs as \<Longrightarrow> \<forall>a \<in> set as. array_len a = n \<Longrightarrow>
      \<exists>b. rb_try_new ops fs as = Inr b \<and> rb_columns ops b = as \<and> num_rows ops b = n"
    using ok by blast
qed

text \<open>Schemas of flat columns, and the rows that fit them.\<close>

definition flat_schema :: "('b, 'z) arrow_ops_scheme \<Rightarrow> arrow_field list \<Rightarrow> bool" where
  "flat_schema ops fs \<longleftrightarrow> fs \<noteq> [] \<and> (\<forall>f \<in> set fs. flat_type ops (field_type f))"

definition row_fits :: "arrow_field list \<Rightarrow> moonlink_row \<Rightarrow> bool" where
  "row_fits fs r \<longleftrightarrow> list_all2 (\<lambda>f v. value_fits (field_type f) v \<and> (field_nullable f \<or> v \<noteq> RowNull)) fs (row_values r)"

abbreviation column_values :: "moonlink_row list \<Rightarrow> nat \<Rightarrow> row_value list" where
  "column_values rs j \<equiv> map (\<lambda>r. row_values r ! j) rs"

definition builders_of ::
  "('b, 'z) arrow_ops_scheme \<Rightarrow> arrow_field list \<Rightarrow> moonlink_row list \<Rightarrow> column_array_builder list" where
  "builders_of ops fs rs = map (\<lambda>j. column_of ops (field_type (fs ! j)) (column_values rs j)) [0..<length fs]"

text \<open>The comparison of a row with a stored one, column by column.\<close>

definition stored_row_matches ::
  "('b, 'z) arrow_ops_scheme \<Rightarrow> arrow_field list \<Rightarrow> moonlink_row \<Rightarrow> moonlink_row \<Rightarrow> bool" where
  "stored_row_matches ops fs r w \<longleftrightarrow>
     (\<forall>j < length fs. cell_matches ops (field_type (fs ! j)) (row_values r ! j) (row_values w ! j))"

lemma row_fitsD:
  assumes "row_fits fs r"
  shows "length (row_values r) = length fs"
    and "j < length fs \<Longrightarrow> value_fits (field_type (fs ! j)) (row_values r ! j)"
    and "j < length fs \<Longrightarrow> \<not> field_nullable (fs ! j) \<Longrightarrow> row_values r ! j \<noteq> RowNull"
  using assms by (auto simp: row_fits_def list_all2_conv_all_nth)

lemma new_builders_flat:
  assumes "flat_schema ops fs"
  shows "new_builders ops fs = Ok (builders_of ops fs [])"
proof -
  have "new_builders ops fs = Ok (map (\<lambda>f. column_of ops (field_type f) []) fs)"
    if "\<forall>f \<in> set fs. flat_type ops (field_type f)" for fs
    using that by (induction fs) (auto simp: new_builders_def new_builder_flat)
  moreover have "map (\<lambda>f. column_of ops (field_type f) []) fs = builders_of ops fs []"
    by (rule nth_equalityI) (simp_all add: builders_of_def)
  ultimately show ?thesis using assms by (simp add: flat_schema_def)
qed

lemma finish_columns_nth:
  assumes "length bs = length fs"
    and "\<And>j. j < length fs \<Longrightarrow> finish ops (bs ! j) (field_type (fs ! j)) = Ok (col j)"
  shows "finish_columns ops bs fs = Ok (map col [0..<length fs])"
  using assms
proof (induction fs arbitrary: bs col)
  case (Cons f fs)
  obtain b bs' where bs: "bs = b # bs'" using Cons.prems(1) by (cases bs) auto
  have "finish_columns ops bs' fs = Ok (map (col \<circ> Suc) [0..<length fs])"
    using Cons.IH[of bs' "col \<circ> Suc"] Cons.prems(1) Cons.prems(2)[of "Suc _"] by (simp add: bs)
  moreover have "finish ops b (field_type f) = Ok (col 0)" using Cons.prems(2)[of 0] by (simp add: bs)
  moreover have "map col [0..<Suc (length fs)] = col 0 # map (col \<circ> Suc) [0..<length fs]"
    by (simp only: map_upt_Suc comp_def)
  ultimately show ?case by (simp add: finish_columns_def bs del: upt_Suc)
qed (simp add: finish_columns_def)

lemma column_of_rows:
  assumes "arrow_ops_ok ops" and "flat_schema ops fs" and "\<forall>r \<in> set rs. row_fits fs r" and "j < length fs"
  obtains a where "finish ops (column_of ops (field_type (fs ! j)) (column_values rs j)) (field_type (fs ! j)) = Ok a"
    "field_allows (fs ! j) a" "array_len a = length rs"
    "\<And>i. i < length rs \<Longrightarrow> arrow_value_to_rowvalue a i = Ok (row_values (rs ! i) ! j)"
    "\<And>i v. i < length rs \<Longrightarrow> (\<And>ws. v \<noteq> RowArray ws) \<Longrightarrow>
       value_matches_column v a i = Ok (cell_matches ops (field_type (fs ! j)) v (row_values (rs ! i) ! j))"
proof -
  have fl: "flat_type ops (field_type (fs ! j))" using assms(2,4) by (simp add: flat_schema_def)
  have fits: "\<forall>v \<in> set (column_values rs j). value_fits (field_type (fs ! j)) v"
    using assms(3,4) row_fitsD(2) by auto
  obtain a where a: "finish ops (column_of ops (field_type (fs ! j)) (column_values rs j)) (field_type (fs ! j)) = Ok a"
    "array_type a = field_type (fs ! j)" "array_len a = length (column_values rs j)"
    "\<And>i. i < length (column_values rs j) \<Longrightarrow> arrow_value_to_rowvalue a i = Ok (column_values rs j ! i)"
    "\<And>i. i < length (column_values rs j) \<Longrightarrow> array_validity a ! i = (column_values rs j ! i \<noteq> RowNull)"
    "\<And>i v. i < length (column_values rs j) \<Longrightarrow> (\<And>ws. v \<noteq> RowArray ws) \<Longrightarrow>
       value_matches_column v a i = Ok (cell_matches ops (field_type (fs ! j)) v (column_values rs j ! i))"
    using flat_column[OF assms(1) fl fits] by blast
  have "field_nullable (fs ! j) \<or> (\<forall>v \<in> set (array_validity a). v)"
    using a(3,5) assms(3,4) row_fitsD(3) by (auto simp: all_set_conv_all_nth)
  then show thesis using that[OF a(1)] a(2-) by simp
qed

lemma res_map_all: "(\<And>x. x \<in> set xs \<Longrightarrow> f x = Ok (g x)) \<Longrightarrow> res_map f xs = Ok (map g xs)"
  by (induction xs) auto

lemma matches_children_cells:
  assumes "length vs = n" and "\<And>j. j < n \<Longrightarrow> value_matches_column (vs ! j) (col j) i = Ok (P j)"
  shows "matches_children vs (map col [0..<n]) i = Ok (\<forall>j < n. P j)"
  using assms
proof (induction vs arbitrary: n col P)
  case (Cons v vs)
  then obtain m where n: "n = Suc m" "length vs = m" by auto
  have "matches_children vs (map (col \<circ> Suc) [0..<m]) i = Ok (\<forall>j < m. P (Suc j))"
    using Cons.IH[OF n(2), of "col \<circ> Suc" "P \<circ> Suc"] Cons.prems(2)[of "Suc _"] n(1) by (simp add: comp_def)
  moreover have "value_matches_column v (col 0) i = Ok (P 0)" using Cons.prems(2)[of 0] n(1) by simp
  moreover have "map col [0..<n] = col 0 # map (col \<circ> Suc) [0..<m]"
    unfolding n(1) by (simp only: map_upt_Suc comp_def)
  ultimately show ?case unfolding n(1) by (auto simp: less_Suc_eq_0_disj)
qed simp

text \<open>
  Finishing the builders of some rows gives a batch that reads as these rows, and whose rows
  compare with a given one column by column.
\<close>

lemma batch_of_rows:
  assumes ok: "batch_ops_ok ops" and fs: "flat_schema ops fs" and rs: "\<forall>r \<in> set rs. row_fits fs r"
  obtains columns b where "finish_columns ops (builders_of ops fs rs) fs = Ok columns"
    "rb_try_new ops fs columns = Inr b" "num_rows ops b = length rs" "batch_rows ops b = rs"
    "record_batch_to_moonlink_row ops b = Ok rs"
    "\<And>i r. i < length rs \<Longrightarrow> row_fits fs r \<Longrightarrow>
       equals_record_batch_at_offset ops r b i FullRow = Ok (stored_row_matches ops fs r (rs ! i))"
proof -
  define col where "col j = (SOME a. finish ops (column_of ops (field_type (fs ! j)) (column_values rs j)) (field_type (fs ! j)) = Ok a)" for j
  have col: "finish ops (column_of ops (field_type (fs ! j)) (column_values rs j)) (field_type (fs ! j)) = Ok (col j)
    \<and> field_allows (fs ! j) (col j) \<and> array_len (col j) = length rs
    \<and> (\<forall>i < length rs. arrow_value_to_rowvalue (col j) i = Ok (row_values (rs ! i) ! j))
    \<and> (\<forall>i v. i < length rs \<longrightarrow> (\<forall>ws. v \<noteq> RowArray ws) \<longrightarrow>
       value_matches_column v (col j) i = Ok (cell_matches ops (field_type (fs ! j)) v (row_values (rs ! i) ! j)))"
    if j: "j < length fs" for j
  proof -
    show ?thesis
      by (rule column_of_rows[OF batch_ops_okD(1)[OF ok] fs rs j]) (simp add: col_def)
  qed
  let ?cols = "map col [0..<length fs]"
  have cols: "finish_columns ops (builders_of ops fs rs) fs = Ok ?cols"
    by (rule finish_columns_nth) (use col in \<open>auto simp: builders_of_def\<close>)
  obtain b where b: "rb_try_new ops fs ?cols = Inr b" "rb_columns ops b = ?cols" "num_rows ops b = length rs"
    using batch_ops_okD(4)[OF ok, of fs ?cols "length rs"] fs col
    by (auto simp: flat_schema_def list_all2_conv_all_nth)
  have row: "\<lparr>row_values = map (\<lambda>j. row_values (rs ! i) ! j) [0..<length fs]\<rparr> = rs ! i" if "i < length rs" for i
    using row_fitsD(1)[of fs "rs ! i"] rs that map_nth[of "row_values (rs ! i)"] by simp
  have "batch_rows ops b = rs"
  proof (rule nth_equalityI)
    fix i assume "i < length (batch_rows ops b)"
    then have i: "i < length rs" using b(3) by (simp add: batch_rows_def)
    have "map (\<lambda>a. case arrow_value_to_rowvalue a i of Ok v \<Rightarrow> v | Panic _ \<Rightarrow> RowNull) ?cols
        = map (\<lambda>j. row_values (rs ! i) ! j) [0..<length fs]"
      using col i by simp
    then have "batch_rows ops b ! i = \<lparr>row_values = map (\<lambda>j. row_values (rs ! i) ! j) [0..<length fs]\<rparr>"
      using i b(2,3) by (simp add: batch_rows_def)
    then show "batch_rows ops b ! i = rs ! i" using row[OF i] by simp
  qed (simp add: batch_rows_def b(3))
  moreover have "record_batch_to_moonlink_row ops b = Ok rs"
  proof -
    have "res_bind (res_map (\<lambda>arr. arrow_value_to_rowvalue arr i) ?cols) (\<lambda>vs. Ok \<lparr>row_values = vs\<rparr>) = Ok (rs ! i)"
      if i: "i < length rs" for i
    proof -
      have "res_map (\<lambda>arr. arrow_value_to_rowvalue arr i) ?cols
          = Ok (map (\<lambda>a. case arrow_value_to_rowvalue a i of Ok v \<Rightarrow> v | Panic _ \<Rightarrow> RowNull) ?cols)"
        by (rule res_map_all) (use col i in auto)
      also have "map (\<lambda>a. case arrow_value_to_rowvalue a i of Ok v \<Rightarrow> v | Panic _ \<Rightarrow> RowNull) ?cols
          = map (\<lambda>j. row_values (rs ! i) ! j) [0..<length fs]"
        using col i by simp
      finally show ?thesis using row[OF i] by simp
    qed
    then show ?thesis
      unfolding record_batch_to_moonlink_row_def b(2,3)
      by (subst res_map_all[where g = "(!) rs"]) (simp_all add: map_nth)
  qed
  moreover have "equals_record_batch_at_offset ops r b i FullRow = Ok (stored_row_matches ops fs r (rs ! i))"
    if i: "i < length rs" and r: "row_fits fs r" for i r
  proof -
    have arr: "row_values r ! j \<noteq> RowArray ws" if "j < length fs" for j ws
      using row_fitsD(2)[OF r that] fs that
      by (cases "field_type (fs ! j)") (auto simp: value_fits_def has_type.simps(1) flat_schema_def dest!: nth_mem)
    have "matches_children (row_values r) ?cols i = Ok (stored_row_matches ops fs r (rs ! i))"
      unfolding stored_row_matches_def
      by (rule matches_children_cells[OF row_fitsD(1)[OF r]]) (use col arr i in blast)
    then show ?thesis
      using i b(2,3) by (simp add: equals_record_batch_at_offset_def is_extracted_identity_row_def
          equals_record_batch_at_offset_impl_def)
  qed
  ultimately show thesis using that[OF cols b(1,3)] by blast
qed

section \<open>View and invariant\<close>

text \<open>The content of a buffer: per batch its id, its rows and the offsets deleted.\<close>

type_synonym store_view = "(u64 \<times> moonlink_row list \<times> nat set) list"

definition entry_view ::
  "('b, 'z) arrow_ops_scheme \<Rightarrow> moonlink_row list \<Rightarrow> 'b batch_entry \<Rightarrow> u64 \<times> moonlink_row list \<times> nat set" where
  "entry_view ops current e = (be_id e,
     case batch_data (be_batch e) of Some b \<Rightarrow> batch_rows ops b | None \<Rightarrow> current,
     deleted_rows (deletions (be_batch e)))"

definition store_view :: "('b, 'z) arrow_ops_scheme \<Rightarrow> 'b column_store_buffer \<Rightarrow> store_view" where
  "store_view ops cs = map (entry_view ops (current_rows cs)) (in_memory_batches cs)"

definition live_rows :: "store_view \<Rightarrow> (u64 \<times> nat \<times> moonlink_row) set" where
  "live_rows v = {(b, i, r). \<exists>rs D. (b, rs, D) \<in> set v \<and> i < length rs \<and> i \<notin> D \<and> r = rs ! i}"

definition stored_at :: "store_view \<Rightarrow> (u64 \<times> nat) set" where
  "stored_at v = {(b, i). \<exists>rs D. (b, rs, D) \<in> set v \<and> i < length rs}"

definition batch_ok :: "('b, 'z) arrow_ops_scheme \<Rightarrow> arrow_field list \<Rightarrow> nat \<Rightarrow> 'b batch_entry \<Rightarrow> bool" where
  "batch_ok ops fs capacity e \<longleftrightarrow> dv_wf (deletions (be_batch e)) \<and> max_rows (deletions (be_batch e)) = capacity
     \<and> (\<forall>b. batch_data (be_batch e) = Some b \<longrightarrow> length (batch_rows ops b) \<le> capacity
         \<and> (\<forall>i r. i < length (batch_rows ops b) \<longrightarrow> row_fits fs r \<longrightarrow>
              equals_record_batch_at_offset ops r b i FullRow = Ok (stored_row_matches ops fs r (batch_rows ops b ! i))))"

definition store_inv ::
  "('b, 'z) arrow_ops_scheme \<Rightarrow> 'b column_store_buffer \<Rightarrow> batch_id_counter \<Rightarrow> bool" where
  "store_inv ops cs c \<longleftrightarrow>
     in_memory_batches cs \<noteq> [] \<and> sorted_wrt (<) (batch_ids_of cs)
     \<and> (\<forall>i \<in> set (batch_ids_of cs). i \<le> counter c)
     \<and> (\<forall>e \<in> set (in_memory_batches cs). batch_ok ops (cs_schema cs) (max_rows_per_buffer cs) e)
     \<and> (\<forall>e \<in> set (butlast (in_memory_batches cs)). batch_data (be_batch e) \<noteq> None)
     \<and> batch_data (be_batch (last (in_memory_batches cs))) = None
     \<and> 0 < max_rows_per_buffer cs \<and> current_row_count cs = length (current_rows cs)
     \<and> current_row_count cs \<le> max_rows_per_buffer cs
     \<and> flat_schema ops (cs_schema cs) \<and> (\<forall>r \<in> set (current_rows cs). row_fits (cs_schema cs) r)
     \<and> current_batch_builder cs = builders_of ops (cs_schema cs) (current_rows cs)
     \<and> (\<forall>(b, rs, D) \<in> set (store_view ops cs). D \<subseteq> {..<length rs})"

lemma store_view_ids [simp]: "map fst (store_view ops cs) = batch_ids_of cs"
  by (simp add: store_view_def entry_view_def comp_def)

lemma next_batch_id_spec:
  assumes "next_batch_id c = Ok (i, c')"
  shows "i = counter c'" and "counter c < counter c'" and "1 \<le> i"
proof -
  obtain k where k: "get_and_next c = Ok (k, c')" "i = k + 1"
    using assms by (auto simp: next_batch_id_def)
  note f = get_and_next_facts[OF k(1)]
  have u: "unat i = Suc (unat (counter c))"
    using batch_ids.next_id_plus_one(2)[OF k(1)] f(2) k(2) by simp
  then have "unat i = unat (counter c')" using f(2) by simp
  then show "i = counter c'" by (rule unsigned_word_eqI)
  then show "counter c < counter c'" using f(2) by (simp add: word_less_nat_alt)
  show "1 \<le> i" using u by (simp add: word_le_nat_alt)
qed

lemma append_cells_flat:
  assumes "flat_schema ops fs" and "list_all2 (\<lambda>f v. has_type (field_type f) v) (drop idx fs) vs"
    and "length bs = length fs"
    and "\<forall>j < length fs. idx \<le> j \<longrightarrow> bs ! j = column_of ops (field_type (fs ! j)) (ws j)"
  shows "\<exists>bs'. append_cells ops bs idx vs = Ok (Inr (), bs') \<and> length bs' = length fs
    \<and> (\<forall>j < length fs. bs' ! j = (if idx \<le> j then column_of ops (field_type (fs ! j)) (ws j @ [vs ! (j - idx)]) else bs ! j))"
  using assms(2-4)
proof (induction vs arbitrary: idx bs rule: list.induct)
  case Nil
  have "length fs \<le> idx" using Nil.prems(1) by (cases "drop idx fs") auto
  then show ?case using Nil.prems(2) by simp
next
  case (Cons v vs)
  have idx: "idx < length fs" using Cons.prems(1) by (cases "idx < length fs") auto
  then have ds: "drop idx fs = fs ! idx # drop (Suc idx) fs" by (simp add: Cons_nth_drop_Suc)
  have v: "has_type (field_type (fs ! idx)) v" and vs: "list_all2 (\<lambda>f v. has_type (field_type f) v) (drop (Suc idx) fs) vs"
    using Cons.prems(1) unfolding ds by simp_all
  let ?b = "column_of ops (field_type (fs ! idx)) (ws idx @ [v])"
  have step: "append_value ops (bs ! idx) v = (None, ?b)"
    using append_flat(1)[of ops "field_type (fs ! idx)" "ws idx" v] v idx Cons.prems(3) assms(1)
    by (simp add: flat_schema_def)
  obtain bs' where bs': "append_cells ops (bs[idx := ?b]) (Suc idx) vs = Ok (Inr (), bs')" "length bs' = length fs"
    "\<forall>j < length fs. bs' ! j = (if Suc idx \<le> j then column_of ops (field_type (fs ! j)) (ws j @ [vs ! (j - Suc idx)])
        else bs[idx := ?b] ! j)"
    using Cons.IH[OF vs, of "bs[idx := ?b]"] Cons.prems(2,3) by auto
  have "append_cells ops bs idx (v # vs) = Ok (Inr (), bs')"
    using bs'(1) step idx Cons.prems(2) by (simp add: index_res_def)
  moreover have "bs' ! j = (if idx \<le> j then column_of ops (field_type (fs ! j)) (ws j @ [(v # vs) ! (j - idx)]) else bs ! j)"
    if "j < length fs" for j
    using bs'(3) that Cons.prems(2) by (cases "j = idx") (auto simp: nth_Cons')
  ultimately show ?case using bs'(2) by blast
qed

lemma append_cells_row:
  assumes "flat_schema ops fs" and "row_fits fs row"
  shows "append_cells ops (builders_of ops fs rs) 0 (row_values row) = Ok (Inr (), builders_of ops fs (rs @ [row]))"
proof -
  have "list_all2 (\<lambda>f v. has_type (field_type f) v) (drop 0 fs) (row_values row)"
    using assms(2) by (auto simp: row_fits_def value_fits_def elim: list_all2_mono)
  from append_cells_flat[OF assms(1) this, of "builders_of ops fs rs" "column_values rs"]
  obtain bs' where bs': "append_cells ops (builders_of ops fs rs) 0 (row_values row) = Ok (Inr (), bs')"
    "length bs' = length fs"
    "\<forall>j < length fs. bs' ! j = column_of ops (field_type (fs ! j)) (column_values rs j @ [row_values row ! j])"
    by (auto simp: builders_of_def)
  have "bs' = builders_of ops fs (rs @ [row])"
    using bs'(2,3) by (intro nth_equalityI) (auto simp: builders_of_def)
  then show ?thesis using bs'(1) by simp
qed

text \<open>Closing the current batch leaves the content and opens an empty batch at the end.\<close>

lemma finalize_spec:
  assumes ok: "batch_ops_ok ops" and inv: "store_inv ops cs c"
    and run: "finalize_current_batch ops cs c = Ok (r, cs', c')"
  shows "current_row_count cs = 0 \<Longrightarrow> r = Inr None \<and> cs' = cs \<and> c' = c"
    and "0 < current_row_count cs \<Longrightarrow> (\<exists>b. r = Inr (Some (counter c' - 1, b)) \<and> batch_rows ops b = current_rows cs)
      \<and> store_inv ops cs' c' \<and> current_row_count cs' = 0
      \<and> store_view ops cs' = store_view ops cs @ [(counter c', [], {})]
      \<and> cs_schema cs' = cs_schema cs \<and> max_rows_per_buffer cs' = max_rows_per_buffer cs
      \<and> counter c < counter c'"
proof -
  show "current_row_count cs = 0 \<Longrightarrow> r = Inr None \<and> cs' = cs \<and> c' = c"
    using run by (auto simp: finalize_current_batch_def)
  assume pos: "0 < current_row_count cs"
  note I = inv[unfolded store_inv_def]
  let ?old = "last (in_memory_batches cs)"
  have fs: "flat_schema ops (cs_schema cs)" and rs: "\<forall>r \<in> set (current_rows cs). row_fits (cs_schema cs) r"
    and bs: "current_batch_builder cs = builders_of ops (cs_schema cs) (current_rows cs)" using I by blast+
  obtain columns b where b: "finish_columns ops (builders_of ops (cs_schema cs) (current_rows cs)) (cs_schema cs) = Ok columns"
    "rb_try_new ops (cs_schema cs) columns = Inr b" "batch_rows ops b = current_rows cs"
    "\<And>i r. i < length (current_rows cs) \<Longrightarrow> row_fits (cs_schema cs) r \<Longrightarrow>
       equals_record_batch_at_offset ops r b i FullRow = Ok (stored_row_matches ops (cs_schema cs) r (current_rows cs ! i))"
    by (rule batch_of_rows[OF ok fs rs]) blast
  note rb = b(3) and fresh = new_builders_flat[OF fs]
  let ?closed = "?old\<lparr>be_batch := (be_batch ?old)\<lparr>batch_data := Some b\<rparr>\<rparr>"
  obtain i where i: "next_batch_id c = Ok (i, c')" and r: "r = Inr (Some (i - 1, b))"
    and cs': "cs' = cs\<lparr>current_batch_builder := builders_of ops (cs_schema cs) [],
      in_memory_batches := butlast (in_memory_batches cs) @
        [?closed, \<lparr>be_id = i, be_batch = new_in_memory_batch (max_rows_per_buffer cs)\<rparr>],
      current_row_count := 0, current_rows := []\<rparr>"
    using run pos b(1,2) fresh bs I by (auto simp: finalize_current_batch_def Let_def split: if_splits)
  note N = next_batch_id_spec[OF i]
  have split: "in_memory_batches cs = butlast (in_memory_batches cs) @ [?old]" using I by simp
  have ids: "batch_ids_of cs' = batch_ids_of cs @ [i]"
    using arg_cong[OF split, of "map be_id"] by (simp add: cs')
  have full: "entry_view ops [] e = entry_view ops (current_rows cs) e"
    if "e \<in> set (butlast (in_memory_batches cs))" for e
    using I that by (auto simp: entry_view_def split: option.splits)
  have closed: "entry_view ops [] ?closed = entry_view ops (current_rows cs) ?old"
    using I rb by (simp add: entry_view_def)
  have view: "store_view ops cs' = store_view ops cs @ [(counter c', [], {})]"
  proof -
    have "entry_view ops [] \<lparr>be_id = i, be_batch = new_in_memory_batch (max_rows_per_buffer cs)\<rparr>
        = (counter c', [], {})"
      using N(1) by (simp add: entry_view_def new_in_memory_batch_def new_deletion_vector_def deleted_rows_def)
    moreover have "store_view ops cs = map (entry_view ops (current_rows cs)) (butlast (in_memory_batches cs))
        @ [entry_view ops (current_rows cs) ?old]"
      unfolding store_view_def using arg_cong[OF split, of "map (entry_view ops (current_rows cs))"] by simp
    ultimately show ?thesis using full closed by (simp add: store_view_def cs')
  qed
  have "\<forall>k \<in> set (batch_ids_of cs). k < i" using I N(1,2) by (metis order.strict_trans1)
  then have "sorted_wrt (<) (batch_ids_of cs')" using I unfolding ids sorted_wrt_append by simp
  moreover have "\<forall>k \<in> set (batch_ids_of cs'). k \<le> counter c'"
    using I N(1,2) unfolding ids by (auto intro: order.trans less_imp_le)
  moreover have "batch_ok ops (cs_schema cs) (max_rows_per_buffer cs) ?old" using I by (metis last_in_set)
  then have "batch_ok ops (cs_schema cs) (max_rows_per_buffer cs) ?closed" using I rb b(4) by (simp add: batch_ok_def)
  moreover have "batch_ok ops (cs_schema cs) (max_rows_per_buffer cs)
      \<lparr>be_id = i, be_batch = new_in_memory_batch (max_rows_per_buffer cs)\<rparr>"
    by (simp add: batch_ok_def new_in_memory_batch_def new_deletion_vector_def dv_wf_def)
  moreover have "\<forall>(b, rs, D) \<in> set (store_view ops cs'). D \<subseteq> {..<length rs}"
    using I unfolding view by simp
  ultimately have "store_inv ops cs' c'"
    using I unfolding store_inv_def
    by (simp add: cs' butlast_append new_in_memory_batch_def) (meson in_set_butlastD)
  then show "(\<exists>b. r = Inr (Some (counter c' - 1, b)) \<and> batch_rows ops b = current_rows cs)
      \<and> store_inv ops cs' c' \<and> current_row_count cs' = 0
      \<and> store_view ops cs' = store_view ops cs @ [(counter c', [], {})]
      \<and> cs_schema cs' = cs_schema cs \<and> max_rows_per_buffer cs' = max_rows_per_buffer cs
      \<and> counter c < counter c'"
    using r rb view N by (simp add: cs')
qed

lemma store_view_snoc:
  assumes "store_inv ops cs c"
  shows "store_view ops cs = map (entry_view ops (current_rows cs)) (butlast (in_memory_batches cs))
    @ [(be_id (last (in_memory_batches cs)), current_rows cs,
        deleted_rows (deletions (be_batch (last (in_memory_batches cs)))))]"
proof -
  have split: "in_memory_batches cs = butlast (in_memory_batches cs) @ [last (in_memory_batches cs)]"
    using assms by (simp add: store_inv_def)
  show ?thesis
    unfolding store_view_def
    using arg_cong[OF split, of "map (entry_view ops (current_rows cs))"] assms
    by (simp add: store_inv_def entry_view_def[of _ _ "last _"])
qed

lemma append_to_current:
  assumes ok: "batch_ops_ok ops" and inv: "store_inv ops cs c"
    and room: "current_row_count cs < max_rows_per_buffer cs"
    and row: "row_fits (cs_schema cs) row"
  defines "cs' \<equiv> cs\<lparr>current_batch_builder := builders_of ops (cs_schema cs) (current_rows cs @ [row]),
      current_row_count := Suc (current_row_count cs), current_rows := current_rows cs @ [row]\<rparr>"
    and "old \<equiv> last (in_memory_batches cs)"
  shows "store_inv ops cs' c"
    and "store_view ops cs' = butlast (store_view ops cs) @
      [(be_id old, current_rows cs @ [row], deleted_rows (deletions (be_batch old)))]"
proof -
  note I = inv[unfolded store_inv_def]
  have split: "in_memory_batches cs = butlast (in_memory_batches cs) @ [old]" using I by (simp add: old_def)
  have full: "entry_view ops (current_rows cs @ [row]) e = entry_view ops (current_rows cs) e"
    if "e \<in> set (butlast (in_memory_batches cs))" for e
    using I that by (auto simp: entry_view_def split: option.splits)
  note snoc = store_view_snoc[OF inv, folded old_def]
  show view: "store_view ops cs' = butlast (store_view ops cs) @
      [(be_id old, current_rows cs @ [row], deleted_rows (deletions (be_batch old)))]"
  proof -
    have "store_view ops cs' = map (entry_view ops (current_rows cs @ [row])) (butlast (in_memory_batches cs) @ [old])"
      unfolding store_view_def cs'_def using split by simp
    also have "\<dots> = map (entry_view ops (current_rows cs)) (butlast (in_memory_batches cs)) @
        [entry_view ops (current_rows cs @ [row]) old]"
      using full by simp
    finally show ?thesis using I by (simp add: snoc entry_view_def old_def)
  qed
  have "\<forall>(b, rs, D) \<in> set (store_view ops cs'). D \<subseteq> {..<length rs}"
    using I unfolding view snoc by auto
  then show "store_inv ops cs' c"
    using I room row unfolding store_inv_def by (simp add: cs'_def)
qed

lemma live_rows_append:
  "live_rows (v @ [(b, rs, D)]) = live_rows v \<union> {(b, i, rs ! i) | i. i < length rs \<and> i \<notin> D}"
  "stored_at (v @ [(b, rs, D)]) = stored_at v \<union> {(b, i) | i. i < length rs}"
  by (auto simp: live_rows_def stored_at_def)

lemma append_row_spec:
  assumes ok: "batch_ops_ok ops" and inv: "store_inv ops cs c"
    and row: "row_fits (cs_schema cs) row"
    and run: "append_row ops cs c row = Ok (Inr (b, off, new_batch), cs', c')"
  shows "store_inv ops cs' c' \<and> cs_schema cs' = cs_schema cs
    \<and> live_rows (store_view ops cs') = insert (b, off, row) (live_rows (store_view ops cs))
    \<and> stored_at (store_view ops cs') = insert (b, off) (stored_at (store_view ops cs))
    \<and> (b, off) \<notin> stored_at (store_view ops cs)"
proof -
  let ?first = "if current_row_count cs \<ge> max_rows_per_buffer cs then finalize_current_batch ops cs c
      else Ok (Inr None, cs, c)"
  obtain r cs1 c1 where first: "?first = Ok (r, cs1, c1)"
    using run unfolding append_row_def res_bind_eq_Ok by auto
  obtain nb where r: "r = Inr nb"
    using run first by (cases r) (auto simp: append_row_def)
  have mid: "store_inv ops cs1 c1 \<and> cs_schema cs1 = cs_schema cs
    \<and> current_row_count cs1 < max_rows_per_buffer cs1
    \<and> live_rows (store_view ops cs1) = live_rows (store_view ops cs)
    \<and> stored_at (store_view ops cs1) = stored_at (store_view ops cs)"
  proof (cases "current_row_count cs \<ge> max_rows_per_buffer cs")
    case True
    moreover have "0 < max_rows_per_buffer cs" using inv by (simp add: store_inv_def)
    ultimately have "0 < current_row_count cs" by linarith
    from finalize_spec(2)[OF ok inv _ this] True first have
      "store_inv ops cs1 c1 \<and> current_row_count cs1 = 0
      \<and> store_view ops cs1 = store_view ops cs @ [(counter c1, [], {})]
      \<and> cs_schema cs1 = cs_schema cs \<and> max_rows_per_buffer cs1 = max_rows_per_buffer cs" by simp
    then show ?thesis by (auto simp: live_rows_append store_inv_def)
  next
    case False
    then show ?thesis using first inv by auto
  qed
  have bs: "current_batch_builder cs1 = builders_of ops (cs_schema cs1) (current_rows cs1)"
    and fs: "flat_schema ops (cs_schema cs1)" and row1: "row_fits (cs_schema cs1) row"
  proof -
    have s: "cs_schema cs1 = cs_schema cs" and i: "store_inv ops cs1 c1" using mid by blast+
    show "current_batch_builder cs1 = builders_of ops (cs_schema cs1) (current_rows cs1)" "flat_schema ops (cs_schema cs1)"
      using i unfolding store_inv_def by blast+
    show "row_fits (cs_schema cs1) row" using row s by simp
  qed
  have cells: "append_cells ops (current_batch_builder cs1) 0 (row_values row)
      = Ok (Inr (), builders_of ops (cs_schema cs1) (current_rows cs1 @ [row]))"
    unfolding bs by (rule append_cells_row[OF fs row1])
  have fin: "b = be_id (last (in_memory_batches cs1))" "off = current_row_count cs1" "c' = c1"
    "cs' = cs1\<lparr>current_batch_builder := builders_of ops (cs_schema cs1) (current_rows cs1 @ [row]),
       current_row_count := Suc (current_row_count cs1), current_rows := current_rows cs1 @ [row]\<rparr>"
    using run first cells by (auto simp: append_row_def r Let_def)
  have I: "current_row_count cs1 = length (current_rows cs1)" "sorted_wrt (<) (batch_ids_of cs1)"
    "\<forall>(b, rs, D) \<in> set (store_view ops cs1). D \<subseteq> {..<length rs}"
    using mid by (simp_all add: store_inv_def)
  note A = append_to_current[OF ok conjunct1[OF mid], of row, folded fin(4)]
  let ?D = "deleted_rows (deletions (be_batch (last (in_memory_batches cs1))))"
  have view: "store_view ops cs1 = butlast (store_view ops cs1) @ [(b, current_rows cs1, ?D)]"
    using store_view_snoc[OF conjunct1[OF mid]] fin(1) by simp
  have view': "store_view ops cs' = butlast (store_view ops cs1) @ [(b, current_rows cs1 @ [row], ?D)]"
    using A(2) mid row fin(1) by simp
  have D: "?D \<subseteq> {..<length (current_rows cs1)}"
    using I(3) by (subst (asm) view) auto
  have "map fst (store_view ops cs1) = batch_ids_of cs1" by simp
  then have "distinct (map fst (butlast (store_view ops cs1) @ [(b, current_rows cs1, ?D)]))"
    using I(2) view by (metis strict_sorted_iff)
  then have fresh: "(b, i) \<notin> stored_at (butlast (store_view ops cs1))" for i
    by (force simp: stored_at_def)
  have live: "live_rows (store_view ops cs') = insert (b, off, row) (live_rows (store_view ops cs1))"
    unfolding view' by (subst (2) view) (use D I(1) fin(2) in \<open>auto simp: live_rows_append nth_append\<close>)
  have stored: "stored_at (store_view ops cs') = insert (b, off) (stored_at (store_view ops cs1))"
    unfolding view' by (subst (2) view) (use I(1) fin(2) in \<open>auto simp: live_rows_append\<close>)
  have new: "(b, off) \<notin> stored_at (store_view ops cs1)"
    by (subst view) (use fresh I(1) fin(2) in \<open>simp add: live_rows_append\<close>)
  show ?thesis using A(1) mid row live stored new fin by simp
qed

lemma new_column_store_spec:
  assumes "flat_schema ops fs" and "0 < capacity"
    and "new_column_store_buffer ops fs capacity c = Ok (cs, c')"
  shows "store_inv ops cs c' \<and> cs_schema cs = fs \<and> max_rows_per_buffer cs = capacity
    \<and> live_rows (store_view ops cs) = {} \<and> stored_at (store_view ops cs) = {}"
proof -
  obtain i where i: "next_batch_id c = Ok (i, c')"
    and cs: "cs = \<lparr>cs_schema = fs, max_rows_per_buffer = capacity,
       in_memory_batches = [\<lparr>be_id = i, be_batch = new_in_memory_batch capacity\<rparr>],
       current_batch_builder = builders_of ops fs [], current_rows = [], current_row_count = 0\<rparr>"
    using assms(3) new_builders_flat[OF assms(1)] by (auto simp: new_column_store_buffer_def)
  have "store_inv ops cs c'"
    using assms(2) next_batch_id_spec(1)[OF i] assms(1)
    by (simp add: store_inv_def cs batch_ok_def new_in_memory_batch_def new_deletion_vector_def dv_wf_def
        store_view_def entry_view_def deleted_rows_def)
  then show ?thesis
    by (simp add: cs live_rows_def stored_at_def store_view_def entry_view_def new_in_memory_batch_def)
qed

text \<open>The entry of a stored row is found by the binary search over the ids.\<close>

lemma find_entry:
  assumes inv: "store_inv ops cs c" and stored: "(b, i) \<in> stored_at (store_view ops cs)"
  obtains idx where "binary_search (batch_ids_of cs) b = Some idx" "idx < length (in_memory_batches cs)"
    "be_id (in_memory_batches cs ! idx) = b"
    "i < length (fst (snd (entry_view ops (current_rows cs) (in_memory_batches cs ! idx))))"
proof -
  obtain e where e: "e \<in> set (in_memory_batches cs)" "be_id e = b"
    "i < length (fst (snd (entry_view ops (current_rows cs) e)))"
    using stored by (auto simp: stored_at_def store_view_def entry_view_def)
  obtain idx where idx: "idx < length (in_memory_batches cs)" "in_memory_batches cs ! idx = e"
    using e(1) by (auto simp: in_set_conv_nth)
  have "binary_search (batch_ids_of cs) (batch_ids_of cs ! idx) = Some idx"
    using inv idx(1) by (intro binary_search_found) (auto simp: store_inv_def)
  then show thesis using that[of idx] idx e by simp
qed

text \<open>Marking a live row removes it from the content and changes nothing else.\<close>

lemma delete_in_batch_spec:
  assumes ok: "batch_ops_ok ops" and inv: "store_inv ops cs c"
    and idx: "idx < length (in_memory_batches cs)" "be_id (in_memory_batches cs ! idx) = b"
    and row: "i < length (fst (snd (entry_view ops (current_rows cs) (in_memory_batches cs ! idx))))"
    and live: "i \<notin> deleted_rows (deletions (be_batch (in_memory_batches cs ! idx)))"
  shows "\<exists>cs'. delete_in_batch ops cs idx i = Ok cs' \<and> store_inv ops cs' c
    \<and> cs_schema cs' = cs_schema cs
    \<and> live_rows (store_view ops cs') = {p \<in> live_rows (store_view ops cs). (fst p, fst (snd p)) \<noteq> (b, i)}
    \<and> stored_at (store_view ops cs') = stored_at (store_view ops cs)"
proof -
  note I = inv[unfolded store_inv_def]
  let ?e = "in_memory_batches cs ! idx"
  let ?d = "deletions (be_batch ?e)"
  have bok: "batch_ok ops (cs_schema cs) (max_rows_per_buffer cs) ?e" using I idx(1) by simp
  have cap: "length (fst (snd (entry_view ops (current_rows cs) ?e))) \<le> max_rows ?d"
    using bok I by (auto simp: batch_ok_def entry_view_def split: option.splits)
  obtain d' where d': "delete_row ops ?d i = Ok (True, d')" "dv_wf d'" "max_rows d' = max_rows ?d"
    "deleted_rows d' = insert i (deleted_rows ?d)"
    using delete_row_spec[OF batch_ops_okD(2)[OF ok], of ?d i] bok row cap live
    by (auto simp: batch_ok_def)
  let ?e' = "?e\<lparr>be_batch := (be_batch ?e)\<lparr>deletions := d'\<rparr>\<rparr>"
  let ?cs = "cs\<lparr>in_memory_batches := (in_memory_batches cs)[idx := ?e']\<rparr>"
  have run: "delete_in_batch ops cs idx i = Ok ?cs" using idx(1) d'(1) by (simp add: delete_in_batch_def index_res_def)
  let ?rs = "fst (snd (entry_view ops (current_rows cs) ?e))"
  have view: "store_view ops ?cs = (store_view ops cs)[idx := (b, ?rs, insert i (deleted_rows ?d))]"
    using idx d'(4) by (simp add: store_view_def map_update entry_view_def)
  have at: "store_view ops cs ! idx = (b, ?rs, deleted_rows ?d)" "idx < length (store_view ops cs)"
    using idx by (simp_all add: store_view_def entry_view_def)
  define pre where "pre = take idx (store_view ops cs)"
  define post where "post = drop (Suc idx) (store_view ops cs)"
  have old: "store_view ops cs = pre @ (b, ?rs, deleted_rows ?d) # post"
    using id_take_nth_drop[OF at(2)] at(1) by (simp add: pre_def post_def)
  have new: "store_view ops ?cs = pre @ (b, ?rs, insert i (deleted_rows ?d)) # post"
    using view upd_conv_take_nth_drop[OF at(2)] by (simp add: pre_def post_def)
  have "distinct (map fst (store_view ops cs))" using I by (simp add: strict_sorted_iff)
  then have fresh: "(b, rs, D) \<notin> set pre" "(b, rs, D) \<notin> set post" for rs D
    unfolding old by force+
  have live': "live_rows (store_view ops ?cs)
      = {p \<in> live_rows (store_view ops cs). (fst p, fst (snd p)) \<noteq> (b, i)}"
    unfolding new old live_rows_def using fresh by auto
  have stored': "stored_at (store_view ops ?cs) = stored_at (store_view ops cs)"
    unfolding new old stored_at_def by auto
  have bounds: "\<forall>(b, rs, D) \<in> set (store_view ops ?cs). D \<subseteq> {..<length rs}"
  proof -
    have "\<forall>(b, rs, D) \<in> set (store_view ops cs). D \<subseteq> {..<length rs}" using I by blast
    then show ?thesis unfolding new old using row by auto
  qed
  have ids: "batch_ids_of ?cs = batch_ids_of cs"
    using idx by (simp add: map_update list_update_same_conv)
  have e': "batch_ok ops (cs_schema cs) (max_rows_per_buffer cs) ?e'" using bok d' by (simp add: batch_ok_def)
  have data: "map (\<lambda>e. batch_data (be_batch e)) ((in_memory_batches cs)[idx := ?e'])
      = map (\<lambda>e. batch_data (be_batch e)) (in_memory_batches cs)"
    using idx by (simp add: map_update list_update_same_conv)
  have last_data: "batch_data (be_batch (last ((in_memory_batches cs)[idx := ?e']))) = None"
    using I arg_cong[OF data, of last] idx(1) by (simp add: last_map)
  have other_data: "\<forall>e \<in> set (butlast ((in_memory_batches cs)[idx := ?e'])). batch_data (be_batch e) \<noteq> None"
  proof -
    have "set (map (\<lambda>e. batch_data (be_batch e)) (butlast ((in_memory_batches cs)[idx := ?e'])))
        = set (map (\<lambda>e. batch_data (be_batch e)) (butlast (in_memory_batches cs)))"
      using arg_cong[OF data, of butlast] by (simp only: map_butlast)
    moreover have "\<forall>e \<in> set (butlast (in_memory_batches cs)). batch_data (be_batch e) \<noteq> None"
      using I by (elim conjE)
    then have "None \<notin> set (map (\<lambda>e. batch_data (be_batch e)) (butlast (in_memory_batches cs)))"
      by force
    ultimately have "None \<notin> set (map (\<lambda>e. batch_data (be_batch e)) (butlast ((in_memory_batches cs)[idx := ?e'])))"
      by simp
    then show ?thesis by force
  qed
  have "\<forall>e \<in> set (in_memory_batches ?cs). batch_ok ops (cs_schema cs) (max_rows_per_buffer cs) e"
    using I e' by (auto dest!: set_update_subset_insert[THEN subsetD])
  then have inv': "store_inv ops ?cs c"
    using I ids last_data other_data bounds unfolding store_inv_def by simp
  show ?thesis using run live' stored' inv' by auto
qed

text \<open>
  Whether the row at a location is the one a deletion record asks for: with a full-row identity
  the record is compared with the row, in the current batch value by value, in a finished
  batch with the stored columns.
\<close>

definition identity_holds ::
  "('b, 'z) arrow_ops_scheme \<Rightarrow> 'b column_store_buffer \<Rightarrow> raw_deletion_record \<Rightarrow> identity_prop \<Rightarrow> u64 \<Rightarrow> moonlink_row \<Rightarrow> bool" where
  "identity_holds ops cs raw ident b row = (case rd_row_identity raw of
     None \<Rightarrow> True
   | Some r \<Rightarrow> ident = FullRow \<longrightarrow>
       (if b = be_id (last (in_memory_batches cs)) then row_values_eq (row_values r) (row_values row)
        else stored_row_matches ops (cs_schema cs) r row))"

definition record_fits :: "arrow_field list \<Rightarrow> raw_deletion_record \<Rightarrow> bool" where
  "record_fits fs raw \<longleftrightarrow> (\<forall>r. rd_row_identity raw = Some r \<longrightarrow> row_fits fs r)"

lemma current_batch_iff:
  assumes "store_inv ops cs c" and "idx < length (in_memory_batches cs)"
  shows "batch_data (be_batch (in_memory_batches cs ! idx)) = None \<longleftrightarrow>
    be_id (in_memory_batches cs ! idx) = be_id (last (in_memory_batches cs))"
proof -
  let ?bs = "in_memory_batches cs"
  have I: "?bs \<noteq> []" "sorted_wrt (<) (batch_ids_of cs)" "batch_data (be_batch (last ?bs)) = None"
    "\<forall>e \<in> set (butlast ?bs). batch_data (be_batch e) \<noteq> None"
    using assms(1) unfolding store_inv_def by blast+
  show ?thesis
  proof (cases "idx = length ?bs - 1")
    case True
    then show ?thesis using I(1,3) by (simp add: last_conv_nth)
  next
    case False
    then have lt: "idx < length ?bs - 1" using assms(2) by simp
    then have "?bs ! idx \<in> set (butlast ?bs)" by (metis length_butlast nth_butlast nth_mem)
    moreover have "batch_ids_of cs ! idx < batch_ids_of cs ! (length ?bs - 1)"
      using sorted_wrt_nth_less[OF I(2) lt] I(1) by simp
    ultimately show ?thesis using I(1,4) assms(2) by (auto simp: last_conv_nth)
  qed
qed

lemma locate_spec:
  assumes ok: "batch_ops_ok ops" and inv: "store_inv ops cs c"
    and stored: "(b, i) \<in> stored_at (store_view ops cs)" and ident: "ident \<noteq> IdentityNone"
    and fits: "ident = FullRow \<longrightarrow> record_fits (cs_schema cs) raw"
  obtains idx row where "idx < length (in_memory_batches cs)" "be_id (in_memory_batches cs ! idx) = b"
    "i < length (fst (snd (entry_view ops (current_rows cs) (in_memory_batches cs ! idx))))"
    "row = fst (snd (entry_view ops (current_rows cs) (in_memory_batches cs ! idx))) ! i"
    "locate_valid_row ops cs raw (MemoryBatch b i) ident =
       Ok (if i \<notin> deleted_rows (deletions (be_batch (in_memory_batches cs ! idx))) \<and> identity_holds ops cs raw ident b row
           then Some (idx, b, i) else None)"
    "(\<exists>r. (b, i, r) \<in> live_rows (store_view ops cs)) \<longleftrightarrow>
       i \<notin> deleted_rows (deletions (be_batch (in_memory_batches cs ! idx)))"
    "\<And>r. (b, i, r) \<in> live_rows (store_view ops cs) \<Longrightarrow> r = row"
proof -
  obtain idx where idx: "binary_search (batch_ids_of cs) b = Some idx" "idx < length (in_memory_batches cs)"
    "be_id (in_memory_batches cs ! idx) = b"
    "i < length (fst (snd (entry_view ops (current_rows cs) (in_memory_batches cs ! idx))))"
    by (rule find_entry[OF inv stored])
  let ?e = "in_memory_batches cs ! idx"
  let ?rs = "fst (snd (entry_view ops (current_rows cs) ?e))"
  note I = inv[unfolded store_inv_def]
  have bok: "batch_ok ops (cs_schema cs) (max_rows_per_buffer cs) ?e" using I idx(2) by simp
  have cap: "length ?rs \<le> max_rows (deletions (be_batch ?e))"
    using bok I by (auto simp: batch_ok_def entry_view_def split: option.splits)
  have del: "is_deleted ops (deletions (be_batch ?e)) i = Ok (i \<in> deleted_rows (deletions (be_batch ?e)))"
    using is_deleted_spec[OF batch_ops_okD(2)[OF ok]] bok cap idx(4) by (simp add: batch_ok_def)
  have same: "check_identity ops cs raw (be_batch ?e) i ident = Ok (identity_holds ops cs raw ident b (?rs ! i))"
  proof (cases "rd_row_identity raw = None \<or> ident \<noteq> FullRow")
    case True
    then show ?thesis using ident
      by (cases ident) (auto simp: check_identity_def identity_holds_def requires_identity_check_in_mem_slice_def
          split: option.splits)
  next
    case False
    then obtain r where r: "rd_row_identity raw = Some r" "ident = FullRow" by auto
    show ?thesis
    proof (cases "batch_data (be_batch ?e)")
      case None
      then show ?thesis
        using r idx(3,4) current_batch_iff[OF inv idx(2)]
        by (simp add: check_identity_def identity_holds_def requires_identity_check_in_mem_slice_def
            entry_view_def index_res_def equals_moonlink_row_def)
    next
      case (Some data)
      then show ?thesis
        using r idx(3,4) bok fits current_batch_iff[OF inv idx(2)]
        by (simp add: batch_ok_def record_fits_def check_identity_def identity_holds_def requires_identity_check_in_mem_slice_def entry_view_def)
    qed
  qed
  have loc: "locate_valid_row ops cs raw (MemoryBatch b i) ident =
       Ok (if i \<notin> deleted_rows (deletions (be_batch ?e)) \<and> identity_holds ops cs raw ident b (?rs ! i)
           then Some (idx, b, i) else None)"
    using idx(1,2) del same by (simp add: locate_valid_row_def index_res_def)
  have mem: "(b, ?rs, deleted_rows (deletions (be_batch ?e))) \<in> set (store_view ops cs)"
    using nth_mem[of idx "store_view ops cs"] idx(2,3) by (simp add: store_view_def entry_view_def)
  have dist: "distinct (map fst (store_view ops cs))" using I by (simp add: strict_sorted_iff)
  have uniq: "rs = ?rs \<and> D = deleted_rows (deletions (be_batch ?e))" if "(b, rs, D) \<in> set (store_view ops cs)" for rs D
    using eq_key_imp_eq_value[OF dist mem that] by simp
  show thesis
  proof (rule that[OF idx(2-4) refl loc])
    show "(\<exists>r. (b, i, r) \<in> live_rows (store_view ops cs)) \<longleftrightarrow> i \<notin> deleted_rows (deletions (be_batch ?e))"
      using mem uniq idx(4) unfolding live_rows_def by blast
  next
    fix r assume "(b, i, r) \<in> live_rows (store_view ops cs)"
    then show "r = ?rs ! i" using uniq unfolding live_rows_def by blast
  qed
qed

lemma delete_row_by_record_spec:
  assumes ok: "batch_ops_ok ops" and inv: "store_inv ops cs c"
    and stored: "(b, i) \<in> stored_at (store_view ops cs)" and ident: "ident \<noteq> IdentityNone"
    and fits: "ident = FullRow \<longrightarrow> record_fits (cs_schema cs) raw"
  shows "\<exists>res cs'. delete_row_by_record ops cs raw (MemoryBatch b i) ident = Ok (res, cs')
    \<and> store_inv ops cs' c \<and> cs_schema cs' = cs_schema cs
    \<and> stored_at (store_view ops cs') = stored_at (store_view ops cs)
    \<and> (case res of
         Some p \<Rightarrow> p = (b, i) \<and> (\<exists>row. (b, i, row) \<in> live_rows (store_view ops cs) \<and> identity_holds ops cs raw ident b row)
           \<and> live_rows (store_view ops cs') = {p \<in> live_rows (store_view ops cs). (fst p, fst (snd p)) \<noteq> (b, i)}
       | None \<Rightarrow> cs' = cs
           \<and> \<not> (\<exists>row. (b, i, row) \<in> live_rows (store_view ops cs) \<and> identity_holds ops cs raw ident b row))"
proof -
  obtain idx row where L: "idx < length (in_memory_batches cs)" "be_id (in_memory_batches cs ! idx) = b"
    "i < length (fst (snd (entry_view ops (current_rows cs) (in_memory_batches cs ! idx))))"
    and loc: "locate_valid_row ops cs raw (MemoryBatch b i) ident =
       Ok (if i \<notin> deleted_rows (deletions (be_batch (in_memory_batches cs ! idx))) \<and> identity_holds ops cs raw ident b row
           then Some (idx, b, i) else None)"
    and live: "(\<exists>r. (b, i, r) \<in> live_rows (store_view ops cs)) \<longleftrightarrow>
       i \<notin> deleted_rows (deletions (be_batch (in_memory_batches cs ! idx)))"
    and row: "\<And>r. (b, i, r) \<in> live_rows (store_view ops cs) \<Longrightarrow> r = row"
    by (rule locate_spec[OF ok inv stored ident fits]) blast
  show ?thesis
  proof (cases "i \<notin> deleted_rows (deletions (be_batch (in_memory_batches cs ! idx))) \<and> identity_holds ops cs raw ident b row")
    case True
    obtain cs' where "delete_in_batch ops cs idx i = Ok cs'" "store_inv ops cs' c" "cs_schema cs' = cs_schema cs"
      "live_rows (store_view ops cs') = {p \<in> live_rows (store_view ops cs). (fst p, fst (snd p)) \<noteq> (b, i)}"
      "stored_at (store_view ops cs') = stored_at (store_view ops cs)"
      using delete_in_batch_spec[OF ok inv L conjunct1[OF True]] by blast
    moreover have "\<exists>r. (b, i, r) \<in> live_rows (store_view ops cs) \<and> identity_holds ops cs raw ident b r"
      using True live row by blast
    ultimately show ?thesis using True loc by (simp add: delete_row_by_record_def)
  next
    case False
    then have "\<not> (\<exists>r. (b, i, r) \<in> live_rows (store_view ops cs) \<and> identity_holds ops cs raw ident b r)"
      using live row by blast
    moreover have "locate_valid_row ops cs raw (MemoryBatch b i) ident = Ok None" using loc False by (simp only: if_False)
    ultimately show ?thesis using inv by (simp add: delete_row_by_record_def)
  qed
qed

section \<open>A concrete batch\<close>

lemma array_take_read:
  "(case arrow_value_to_rowvalue (array_take is a) k of Ok v \<Rightarrow> v | Panic _ \<Rightarrow> RowNull)
    = (case arrow_value_to_rowvalue a (is ! k) of Ok v \<Rightarrow> v | Panic _ \<Rightarrow> RowNull)" if "k < length is"
  using that by (cases a) (auto simp: arrow_value_to_rowvalue_def array_is_null_def index_res_def)

lemma plain_take_rows:
  assumes "\<forall>i \<in> set is. i < snd b"
  shows "batch_rows plain_arrow (plain_take is b) = map ((!) (batch_rows plain_arrow b)) is"
proof (rule nth_equalityI)
  fix k assume "k < length (batch_rows plain_arrow (plain_take is b))"
  then have k: "k < length is" by (simp add: batch_rows_def plain_arrow_def plain_take_def arrow_bits.defs)
  then have "is ! k < snd b" using assms by simp
  then show "batch_rows plain_arrow (plain_take is b) ! k = map ((!) (batch_rows plain_arrow b)) is ! k"
    using k array_take_read[OF k]
    by (simp add: batch_rows_def plain_arrow_def plain_take_def arrow_bits.defs comp_def)
qed (simp add: batch_rows_def plain_arrow_def plain_take_def arrow_bits.defs)

lemma filter_zip_nth: "length bs = length xs \<Longrightarrow> map fst (filter snd (zip xs bs)) = map ((!) xs) (filter ((!) bs) [0..<length xs])"
proof (induction xs arbitrary: bs)
  case (Cons x xs)
  then obtain b bs' where bs: "bs = b # bs'" "length bs' = length xs" by (cases bs) auto
  have "[0..<length (x # xs)] = 0 # map Suc [0..<length xs]" by (simp add: upt_conv_Cons map_Suc_upt del: upt_Suc)
  then show ?case using Cons.IH[OF bs(2)] by (simp add: bs(1) filter_map comp_def del: upt_Suc)
qed simp

lemma plain_batches_ok: "arrow_batches_ok plain_arrow (batch_rows plain_arrow)"
proof -
  have n: "num_rows plain_arrow b = snd b" "length (batch_rows plain_arrow b) = snd b" for b
    by (simp_all add: batch_rows_def plain_arrow_def arrow_bits.defs)
  have bits: "arrow_bits_ok plain_arrow"
    using slice_bits_ok by (simp add: arrow_bits_ok_def plain_arrow_def arrow_bits.defs)
  have slice: "batch_slice plain_arrow b i k = Ok (plain_take [i..<i + k] b)"
    "batch_rows plain_arrow (plain_take [i..<i + k] b) = take k (drop i (batch_rows plain_arrow b))"
    if "i + k \<le> length (batch_rows plain_arrow b)" for b i k
  proof -
    show "batch_slice plain_arrow b i k = Ok (plain_take [i..<i + k] b)"
      using that n by (simp add: plain_arrow_def arrow_bits.defs)
    have "batch_rows plain_arrow (plain_take [i..<i + k] b) = map ((!) (batch_rows plain_arrow b)) [i..<i + k]"
      using that n by (intro plain_take_rows) auto
    also have "\<dots> = take k (drop i (batch_rows plain_arrow b))"
      using that by (intro nth_equalityI) auto
    finally show "batch_rows plain_arrow (plain_take [i..<i + k] b) = take k (drop i (batch_rows plain_arrow b))" .
  qed
  have filt: "filter_record_batch plain_arrow b bs = Some (plain_take (filter ((!) bs) [0..<snd b]) b)"
    "batch_rows plain_arrow (plain_take (filter ((!) bs) [0..<snd b]) b)
      = map fst (filter snd (zip (batch_rows plain_arrow b) bs))"
    if "length bs = length (batch_rows plain_arrow b)" for b bs
    using that n filter_zip_nth[OF that] plain_take_rows[of "filter ((!) bs) [0..<snd b]" b]
    by (simp_all add: plain_arrow_def arrow_bits.defs)
  have rest: "new_from_u8 plain_arrow v = map (byte_bit v) [0..<8 * length v]"
    "i + k \<le> length bs \<Longrightarrow> bools_slice plain_arrow bs i k = Ok (take k (drop i bs))" for v bs i k
    by (simp_all add: plain_arrow_def arrow_bits.defs)
  show ?thesis
    unfolding arrow_batches_ok_def using bits n slice filt rest by auto
qed

lemma plain_batch_ops_ok: "batch_ops_ok plain_arrow"
proof -
  have "\<exists>b. rb_try_new plain_arrow fs as = Inr b \<and> rb_columns plain_arrow b = as \<and> num_rows plain_arrow b = n"
    if "fs \<noteq> []" "list_all2 field_allows fs as" "\<forall>a \<in> set as. array_len a = n" for fs as n
    using that by (cases "as") (auto simp: plain_arrow_def arrow_bits.defs)
  then show ?thesis using plain_arrow_ok plain_batches_ok by (auto simp: batch_ops_ok_def)
qed

section \<open>Batches from rows\<close>

definition live_part :: "batch_deletion_vector \<Rightarrow> nat \<Rightarrow> moonlink_row list \<Rightarrow> moonlink_row list" where
  "live_part dels k rs = map snd (filter (\<lambda>p. fst p \<notin> deleted_rows dels) (enumerate k rs))"

lemma append_live_rows:
  assumes "arrow_bits_ok ops" and "dv_wf dels" and "flat_schema ops fs" and "\<forall>r \<in> set rs. row_fits fs r"
    and "k + length rs \<le> max_rows dels"
  shows "res_fold (\<lambda>builders (i, row).
         res_bind (is_deleted ops dels i) (\<lambda>gone.
         if gone then Ok builders
         else check (length fs \<le> length (row_values row)) IndexOutOfRange (
           res_bind (append_cells ops builders 0 (take (length fs) (row_values row))) (\<lambda>(r, builders).
           check (\<not> isl r) AssertFailed (Ok builders)))))
       (builders_of ops fs before) (enumerate k rs) = Ok (builders_of ops fs (before @ live_part dels k rs))"
  using assms(4,5)
proof (induction rs arbitrary: k before)
  case (Cons r rs)
  have d: "is_deleted ops dels k = Ok (k \<in> deleted_rows dels)"
    using is_deleted_spec[OF assms(1), of dels k] assms(2) Cons.prems(2) by simp
  have r: "length (row_values r) = length fs"
    "append_cells ops (builders_of ops fs before) 0 (row_values r) = Ok (Inr (), builders_of ops fs (before @ [r]))"
    using row_fitsD(1) append_cells_row[OF assms(3)] Cons.prems(1) by auto
  show ?case
    using Cons.IH[of "Suc k" before] Cons.IH[of "Suc k" "before @ [r]"] Cons.prems d r
    by (simp add: live_part_def)
qed (simp add: live_part_def)



end
