(* ===== verification/Mem_Slice.thy ===== *)
theory Mem_Slice
  imports Mem_Index Column_Store
begin

text \<open>
  The part of a table in memory (\<^verbatim>\<open>storage/mooncake_table/mem_slice.rs\<close>): a column store
  buffer and an index over its rows. An append writes both; a deletion finds the row through
  the index and marks it in its batch.
\<close>

section \<open>Operations\<close>

record ('b, 's, 'k, 'm) mem_slice =
  column_store :: "'b column_store_buffer"
  slice_index :: "('s, 'k, 'm) mem_index"

definition new_mem_slice ::
  "('b, 'z) arrow_ops_scheme \<Rightarrow> ('s, 'k, 'm) index_ops \<Rightarrow> arrow_field list \<Rightarrow> nat \<Rightarrow> identity_prop \<Rightarrow>
   batch_id_counter \<Rightarrow> (('b, 's, 'k, 'm) mem_slice \<times> batch_id_counter) res" where
  "new_mem_slice ops iops schema capacity ident c =
     res_bind (new_column_store_buffer ops schema capacity c) (\<lambda>(cs, c).
     Ok (\<lparr>column_store = cs, slice_index = new_mem_index iops ident\<rparr>, c))"

definition slice_is_empty :: "('b, 's, 'k, 'm) mem_slice \<Rightarrow> bool" where
  "slice_is_empty s = (cs_get_num_rows (column_store s) = 0)"

fun delete_first ::
  "('b, 'z) arrow_ops_scheme \<Rightarrow> 'b column_store_buffer \<Rightarrow> raw_deletion_record \<Rightarrow> identity_prop \<Rightarrow>
   record_location list \<Rightarrow> ((u64 \<times> nat) option \<times> 'b column_store_buffer) res" where
  "delete_first ops cs record ident [] = Ok (None, cs)"
| "delete_first ops cs record ident (location # locations) =
     res_bind (delete_row_by_record ops cs record location ident) (\<lambda>(ret, cs).
     if ret \<noteq> None then Ok (ret, cs) else delete_first ops cs record ident locations)"

definition slice_delete ::
  "('b, 'z) arrow_ops_scheme \<Rightarrow> ('s, 'k, 'm) index_ops \<Rightarrow> ('b, 's, 'k, 'm) mem_slice \<Rightarrow> raw_deletion_record \<Rightarrow>
   identity_prop \<Rightarrow> ((u64 \<times> nat) option \<times> ('b, 's, 'k, 'm) mem_slice) res" where
  "slice_delete ops iops s record ident =
     res_bind (allow_duplicate (slice_index s)) (\<lambda>dup.
     if \<not> dup then
       res_bind (fast_delete iops (slice_index s) record) (\<lambda>(location, idx).
       let s = s\<lparr>slice_index := idx\<rparr>
       in case location of
            Some location \<Rightarrow>
              res_bind (delete_row_by_record ops (column_store s) record location ident) (\<lambda>(ret, cs).
              Ok (ret, s\<lparr>column_store := cs\<rparr>))
          | None \<Rightarrow> Ok (None, s))
     else
       res_bind (find_record iops (slice_index s) record) (\<lambda>locations.
       res_bind (delete_first ops (column_store s) record ident locations) (\<lambda>(ret, cs).
       Ok (ret, s\<lparr>column_store := cs\<rparr>))))"

fun find_first_valid ::
  "('b, 'z) arrow_ops_scheme \<Rightarrow> 'b column_store_buffer \<Rightarrow> raw_deletion_record \<Rightarrow> identity_prop \<Rightarrow>
   record_location list \<Rightarrow> (u64 \<times> nat) option res" where
  "find_first_valid ops cs record ident [] = Ok None"
| "find_first_valid ops cs record ident (location # locations) =
     res_bind (find_valid_row_by_record ops cs record location ident) (\<lambda>ret.
     if ret \<noteq> None then Ok ret else find_first_valid ops cs record ident locations)"

definition find_non_deleted_position ::
  "('b, 'z) arrow_ops_scheme \<Rightarrow> ('s, 'k, 'm) index_ops \<Rightarrow> ('b, 's, 'k, 'm) mem_slice \<Rightarrow> raw_deletion_record \<Rightarrow>
   identity_prop \<Rightarrow> (u64 \<times> nat) option res" where
  "find_non_deleted_position ops iops s record ident =
     res_bind (find_record iops (slice_index s) record) (\<lambda>locations.
     find_first_valid ops (column_store s) record ident locations)"

definition slice_try_delete_at_pos ::
  "('b, 'z) arrow_ops_scheme \<Rightarrow> ('b, 's, 'k, 'm) mem_slice \<Rightarrow> u64 \<times> nat \<Rightarrow>
   (bool \<times> ('b, 's, 'k, 'm) mem_slice) res" where
  "slice_try_delete_at_pos ops s pos =
     res_bind (try_delete_at_pos ops (column_store s) pos) (\<lambda>(r, cs). Ok (r, s\<lparr>column_store := cs\<rparr>))"

definition slice_append ::
  "('b, 'z) arrow_ops_scheme \<Rightarrow> ('s, 'k, 'm) index_ops \<Rightarrow> ('b, 's, 'k, 'm) mem_slice \<Rightarrow> batch_id_counter \<Rightarrow>
   u64 \<Rightarrow> moonlink_row \<Rightarrow> moonlink_row option \<Rightarrow>
   ((store_error + (u64 \<times> 'b) option) \<times> ('b, 's, 'k, 'm) mem_slice \<times> batch_id_counter) res" where
  "slice_append ops iops s c lookup_key row identity_for_key =
     res_bind (append_row ops (column_store s) c row) (\<lambda>(r, cs, c).
     let s = s\<lparr>column_store := cs\<rparr>
     in case r of
          Inl e \<Rightarrow> Ok (Inl e, s, c)
        | Inr (seg_idx, row_idx, new_batch) \<Rightarrow>
            if slice_index s = NoIndex then Ok (Inr new_batch, s, c)
            else res_bind (insert_index iops (slice_index s) lookup_key identity_for_key
                (location_from_pair (seg_idx, row_idx))) (\<lambda>idx.
              Ok (Inr new_batch, s\<lparr>slice_index := idx\<rparr>, c)))"

definition slice_get_num_rows :: "('b, 's, 'k, 'm) mem_slice \<Rightarrow> nat" where
  "slice_get_num_rows s = cs_get_num_rows (column_store s)"

definition slice_drain ::
  "('b, 'z) arrow_ops_scheme \<Rightarrow> ('s, 'k, 'm) index_ops \<Rightarrow> ('b, 's, 'k, 'm) mem_slice \<Rightarrow> batch_id_counter \<Rightarrow>
   ((store_error + (u64 \<times> 'b) option \<times> 'b batch_entry list \<times> ('s, 'k, 'm) mem_index)
     \<times> ('b, 's, 'k, 'm) mem_slice \<times> batch_id_counter) res" where
  "slice_drain ops iops s c =
     res_bind (finalize_current_batch ops (column_store s) c) (\<lambda>(r, cs, c).
     case r of
       Inl e \<Rightarrow> Ok (Inl e, s\<lparr>column_store := cs\<rparr>, c)
     | Inr batch \<Rightarrow>
         res_bind (drain_column_store cs) (\<lambda>(entries, cs).
         Ok (Inr (batch, entries, slice_index s),
             s\<lparr>column_store := cs, slice_index := new_like iops (slice_index s)\<rparr>, c)))"

definition slice_get_commit_check_point :: "('b, 's, 'k, 'm) mem_slice \<Rightarrow> record_location res" where
  "slice_get_commit_check_point s = cs_get_commit_check_point (column_store s)"

definition slice_get_latest_rows :: "('b, 's, 'k, 'm) mem_slice \<Rightarrow> shared_row_buffer_snapshot" where
  "slice_get_latest_rows s = cs_get_latest_rows (column_store s)"

section \<open>The index interface\<close>

text \<open>
  What a slice relies on: an index is a multiset of entries, an insertion adds one, and a removal
  takes out some entry that matches, if there is one. If the entries are exactly a set of
  entries without repetition, both keep it that way.
\<close>

locale keyed_index =
  fixes valid :: "'o \<Rightarrow> bool"
    and entries :: "'o \<Rightarrow> 'ix \<Rightarrow> index_entry multiset"
    and insert_at :: "'o \<Rightarrow> 'ix \<Rightarrow> u64 \<Rightarrow> moonlink_row option \<Rightarrow> record_location \<Rightarrow> 'ix res"
    and remove :: "'o \<Rightarrow> 'ix \<Rightarrow> raw_deletion_record \<Rightarrow> (record_location option \<times> 'ix) res"
  assumes insert_entries: "valid ops \<Longrightarrow> insert_at ops ix k i loc = Ok ix' \<Longrightarrow>
      entries ops ix' = add_mset (k, i, loc) (entries ops ix)"
    and remove_some: "valid ops \<Longrightarrow> remove ops ix raw = Ok (Some loc, ix') \<Longrightarrow>
      \<exists>e. e \<in># entries ops ix \<and> entry_matches raw e \<and> entry_location e = loc
        \<and> entries ops ix = add_mset e (entries ops ix')"
    and remove_none: "valid ops \<Longrightarrow> remove ops ix raw = Ok (None, ix') \<Longrightarrow>
      ix' = ix \<and> (\<forall>e \<in># entries ops ix. \<not> entry_matches raw e)"
begin

lemma insert_tracks:
  assumes "valid ops" and "entries ops ix = mset_set E" and "finite E"
    and "insert_at ops ix k i loc = Ok ix'" and "(k, i, loc) \<notin> E"
  shows "entries ops ix' = mset_set (insert (k, i, loc) E)"
  using insert_entries[OF assms(1,4)] assms(2,3,5) by simp

lemma remove_tracks:
  assumes "valid ops" and "entries ops ix = mset_set E" and "finite E" and "remove ops ix raw = Ok (Some loc, ix')"
  obtains e where "e \<in> E" "entry_matches raw e" "entry_location e = loc" "entries ops ix' = mset_set (E - {e})"
proof -
  obtain e where e: "e \<in># entries ops ix" "entry_matches raw e" "entry_location e = loc"
    "entries ops ix = add_mset e (entries ops ix')"
    using remove_some[OF assms(1,4)] by blast
  have "e \<in> E" using e(1) assms(2,3) by simp
  moreover have "entries ops ix' = mset_set (E - {e})"
    using e(4) assms(2,3) \<open>e \<in> E\<close> by (simp add: mset_set.remove)
  ultimately show thesis using that e(2,3) by blast
qed

lemma remove_misses:
  assumes "valid ops" and "entries ops ix = mset_set E" and "finite E" and "remove ops ix raw = Ok (None, ix')"
  shows "ix' = ix" and "e \<in> E \<Longrightarrow> \<not> entry_matches raw e"
  using remove_none[OF assms(1,4)] assms(2,3) by auto

end

interpretation mi: keyed_index index_ops_ok index_entries insert_index fast_delete
proof unfold_locales
  fix ops :: "('a, 'b, 'c) index_ops" and ix ix' k i loc
  assume "index_ops_ok ops" "insert_index ops ix k i loc = Ok ix'"
  then show "index_entries ops ix' = add_mset (k, i, loc) (index_entries ops ix)" by (rule insert_index_spec(1))
next
  fix ops :: "('a, 'b, 'c) index_ops" and ix ix' raw loc
  assume "index_ops_ok ops" "fast_delete ops ix raw = Ok (Some loc, ix')"
  then show "\<exists>e. e \<in># index_entries ops ix \<and> entry_matches raw e \<and> entry_location e = loc
      \<and> index_entries ops ix = add_mset e (index_entries ops ix')"
    using fast_delete_spec by fastforce
next
  fix ops :: "('a, 'b, 'c) index_ops" and ix ix' raw
  assume "index_ops_ok ops" "fast_delete ops ix raw = Ok (None, ix')"
  then show "ix' = ix \<and> (\<forall>e \<in># index_entries ops ix. \<not> entry_matches raw e)"
    using fast_delete_spec by fastforce
qed

section \<open>The rows of a slice\<close>

definition row_key ::
  "(hash_item list \<Rightarrow> u64) \<Rightarrow> identity_prop \<Rightarrow> moonlink_row \<Rightarrow> (u64 \<times> moonlink_row option) res" where
  "row_key ahash ident row =
     res_bind (get_lookup_key ahash ident row) (\<lambda>k.
     res_bind (extract_identity_for_key ident row) (\<lambda>i. Ok (k, i)))"

abbreviation slice_live :: "('b, 'z) arrow_ops_scheme \<Rightarrow> ('b, 's, 'k, 'm) mem_slice \<Rightarrow> (u64 \<times> nat \<times> moonlink_row) set" where
  "slice_live ops s \<equiv> live_rows (store_view ops (column_store s))"

definition live_entries ::
  "(hash_item list \<Rightarrow> u64) \<Rightarrow> identity_prop \<Rightarrow> (u64 \<times> nat \<times> moonlink_row) set \<Rightarrow> index_entry set" where
  "live_entries ahash ident L =
     {(k, i, MemoryBatch b off) | k i b off. \<exists>r. (b, off, r) \<in> L \<and> row_key ahash ident r = Ok (k, i)}"

fun index_for :: "identity_prop \<Rightarrow> ('s, 'k, 'm) mem_index \<Rightarrow> bool" where
  "index_for (SinglePrimitiveKey _) ix = (\<exists>t. ix = SinglePrimitive t)"
| "index_for (Keys _) ix = (\<exists>t. ix = KeyIndex t)"
| "index_for FullRow ix = (\<exists>m. ix = FullRowIndex m)"
| "index_for IdentityNone ix = (ix = NoIndex)"

text \<open>
  A unique index holds exactly one entry per live row. The index of a full-row identity keeps the
  entries of deleted rows.
\<close>

definition slice_inv ::
  "('b, 'z) arrow_ops_scheme \<Rightarrow> ('s, 'k, 'm) index_ops \<Rightarrow> (hash_item list \<Rightarrow> u64) \<Rightarrow> identity_prop \<Rightarrow>
   ('b, 's, 'k, 'm) mem_slice \<Rightarrow> batch_id_counter \<Rightarrow> bool" where
  "slice_inv ops iops ahash ident s c \<longleftrightarrow> store_inv ops (column_store s) c
     \<and> ident \<noteq> IdentityNone \<and> index_for ident (slice_index s)
     \<and> (\<forall>(b, i, r) \<in> slice_live ops s. is_ok (row_key ahash ident r))
     \<and> (if ident = FullRow
        then live_entries ahash ident (slice_live ops s) \<subseteq> set_mset (index_entries iops (slice_index s))
          \<and> (\<forall>e \<in># index_entries iops (slice_index s). \<exists>b i. entry_location e = MemoryBatch b i
               \<and> (b, i) \<in> stored_at (store_view ops (column_store s))
               \<and> (\<forall>r. (b, i, r) \<in> slice_live ops s \<longrightarrow> row_key ahash ident r = Ok (fst e, fst (snd e))))
        else index_entries iops (slice_index s) = mset_set (live_entries ahash ident (slice_live ops s)))"

text \<open>Whether a live row is one a deletion record asks for: same key, and same identity where it is compared.\<close>

definition row_asked ::
  "('b, 'z) arrow_ops_scheme \<Rightarrow> ('b, 's, 'k, 'm) mem_slice \<Rightarrow> (hash_item list \<Rightarrow> u64) \<Rightarrow> identity_prop \<Rightarrow>
   raw_deletion_record \<Rightarrow> u64 \<times> nat \<times> moonlink_row \<Rightarrow> bool" where
  "row_asked ops s ahash ident raw p = (case p of (b, i, r) \<Rightarrow>
     \<exists>k id. row_key ahash ident r = Ok (k, id) \<and> entry_matches raw (k, id, MemoryBatch b i)
       \<and> identity_holds ops (column_store s) raw ident b r)"

lemma live_rows_stored: "(b, i, r) \<in> live_rows v \<Longrightarrow> (b, i) \<in> stored_at v"
  by (auto simp: live_rows_def stored_at_def)

lemma finite_live_rows: "finite (live_rows v)"
proof -
  have "live_rows v \<subseteq> (\<Union>(b, rs, D) \<in> set v. (\<lambda>i. (b, i, rs ! i)) ` {..<length rs})"
    by (force simp: live_rows_def)
  then show ?thesis by (rule finite_subset) auto
qed

lemma live_rows_functional:
  assumes "store_inv ops cs c" and "(b, i, r) \<in> live_rows (store_view ops cs)" "(b, i, r') \<in> live_rows (store_view ops cs)"
  shows "r = r'"
proof -
  have "distinct (map fst (store_view ops cs))"
    using assms(1) unfolding store_inv_def by (simp add: strict_sorted_iff)
  then show ?thesis
    using assms(2,3) eq_key_imp_eq_value[of "store_view ops cs"] by (fastforce simp: live_rows_def)
qed

lemma live_rows_minus:
  assumes "store_inv ops cs c" and "(b, i, r) \<in> live_rows (store_view ops cs)"
  shows "{p \<in> live_rows (store_view ops cs). (fst p, fst (snd p)) \<noteq> (b, i)} = live_rows (store_view ops cs) - {(b, i, r)}"
proof (rule set_eqI)
  fix p :: "u64 \<times> nat \<times> moonlink_row"
  obtain x y z where p: "p = (x, y, z)" by (cases p)
  have "z = r" if "p \<in> live_rows (store_view ops cs)" "x = b" "y = i"
    using live_rows_functional[OF assms(1), of b i z r] assms(2) that p by simp
  then show "p \<in> {p \<in> live_rows (store_view ops cs). (fst p, fst (snd p)) \<noteq> (b, i)}
      \<longleftrightarrow> p \<in> live_rows (store_view ops cs) - {(b, i, r)}"
    using p by auto
qed

lemma finite_live_entries: "finite (live_entries ahash ident (live_rows v))"
proof -
  have "live_entries ahash ident (live_rows v) \<subseteq>
      (\<lambda>(b, off, r). case row_key ahash ident r of Ok (k, i) \<Rightarrow> (k, i, MemoryBatch b off) | Panic _ \<Rightarrow> (0, None, MemoryBatch 0 0)) ` live_rows v"
    by (force simp: live_entries_def)
  then show ?thesis using finite_live_rows by (rule finite_surj[rotated])
qed

lemma live_entries_remove:
  assumes "store_inv ops cs c" and "(b, i, r) \<in> live_rows (store_view ops cs)" and "row_key ahash ident r = Ok (k, j)"
  shows "live_entries ahash ident {p \<in> live_rows (store_view ops cs). (fst p, fst (snd p)) \<noteq> (b, i)}
    = live_entries ahash ident (live_rows (store_view ops cs)) - {(k, j, MemoryBatch b i)}"
  using live_rows_functional[OF assms(1) assms(2)] assms(3) by (fastforce simp: live_entries_def)

lemma fast_delete_total:
  assumes "index_for ident ix" and "ident \<noteq> FullRow" "ident \<noteq> IdentityNone"
    and "\<And>ks. ident = Keys ks \<Longrightarrow> rd_row_identity raw \<noteq> None"
  shows "allow_duplicate ix = Ok False" and "\<exists>res ix'. fast_delete iops ix raw = Ok (res, ix') \<and> index_for ident ix'"
  using assms by (cases ident; auto simp: allow_duplicate_def fast_delete_def split: option.splits)+

lemma delete_unique:
  assumes ops: "batch_ops_ok ops" "index_ops_ok iops" and inv: "slice_inv ops iops ahash ident s c"
    and id: "ident \<noteq> FullRow" "\<And>ks. ident = Keys ks \<Longrightarrow> rd_row_identity raw \<noteq> None"
  shows "\<exists>res s'. slice_delete ops iops s raw ident = Ok (res, s') \<and> slice_inv ops iops ahash ident s' c
    \<and> cs_schema (column_store s') = cs_schema (column_store s)
    \<and> (case res of
         Some (b, i) \<Rightarrow> \<exists>r. (b, i, r) \<in> slice_live ops s \<and> row_asked ops s ahash ident raw (b, i, r)
           \<and> slice_live ops s' = slice_live ops s - {(b, i, r)}
       | None \<Rightarrow> slice_live ops s' = slice_live ops s \<and> (\<forall>p \<in> slice_live ops s. \<not> row_asked ops s ahash ident raw p))"
proof -
  let ?cs = "column_store s" and ?E = "live_entries ahash ident (slice_live ops s)"
  have si: "store_inv ops ?cs c" and ni: "ident \<noteq> IdentityNone" and ix: "index_for ident (slice_index s)"
    and E: "index_entries iops (slice_index s) = mset_set ?E"
    and okr: "\<forall>(b, i, r) \<in> slice_live ops s. is_ok (row_key ahash ident r)"
    using inv id(1) by (simp_all add: slice_inv_def)
  obtain res ix' where fd: "fast_delete iops (slice_index s) raw = Ok (res, ix')" "index_for ident ix'"
    using fast_delete_total(2)[OF ix id(1) ni id(2)] by blast
  note dup = fast_delete_total(1)[OF ix id(1) ni id(2)]
  show ?thesis
  proof (cases res)
    case None
    note miss = mi.remove_misses[OF ops(2) E finite_live_entries fd(1)[unfolded None]]
    have "\<not> row_asked ops s ahash ident raw p" if "p \<in> slice_live ops s" for p
    proof (cases p)
      case (fields b i r)
      have "(k, j, MemoryBatch b i) \<in> ?E" if "row_key ahash ident r = Ok (k, j)" for k j
        using that \<open>p \<in> slice_live ops s\<close> fields by (auto simp: live_entries_def)
      then show ?thesis using miss(2) unfolding fields row_asked_def by blast
    qed
    moreover have "slice_delete ops iops s raw ident = Ok (None, s\<lparr>slice_index := slice_index s\<rparr>)"
      using dup fd(1) None miss(1) by (simp add: slice_delete_def)
    ultimately show ?thesis using inv by auto
  next
    case (Some loc)
    obtain e where e: "e \<in> ?E" "entry_matches raw e" "entry_location e = loc" "index_entries iops ix' = mset_set (?E - {e})"
      by (rule mi.remove_tracks[OF ops(2) E finite_live_entries fd(1)[unfolded Some]])
    obtain k i b off r where ent: "e = (k, i, MemoryBatch b off)" "(b, off, r) \<in> slice_live ops s" "row_key ahash ident r = Ok (k, i)"
      using e(1) by (auto simp: live_entries_def)
    have holds: "identity_holds ops ?cs raw ident b r'" for r'
      using id(1) by (simp add: identity_holds_def split: option.splits)
    obtain res' cs' where d: "delete_row_by_record ops ?cs raw (MemoryBatch b off) ident = Ok (res', cs')"
      "store_inv ops cs' c" "cs_schema cs' = cs_schema ?cs"
      "case res' of
         Some p \<Rightarrow> p = (b, off) \<and> live_rows (store_view ops cs') = {p \<in> slice_live ops s. (fst p, fst (snd p)) \<noteq> (b, off)}
       | None \<Rightarrow> \<not> (\<exists>row. (b, off, row) \<in> slice_live ops s \<and> identity_holds ops ?cs raw ident b row)"
      using delete_row_by_record_spec[OF ops(1) si live_rows_stored[OF ent(2)] ni, of raw] id(1)
      by (fastforce split: option.splits)
    have some: "res' = Some (b, off)" using d(4) ent(2) holds by (cases res') auto
    then have live: "live_rows (store_view ops cs') = {p \<in> slice_live ops s. (fst p, fst (snd p)) \<noteq> (b, off)}"
      using d(4) by simp
    have gone: "{p \<in> slice_live ops s. (fst p, fst (snd p)) \<noteq> (b, off)} = slice_live ops s - {(b, off, r)}"
      by (rule live_rows_minus[OF si ent(2)])
    let ?s = "s\<lparr>slice_index := ix', column_store := cs'\<rparr>"
    have "\<forall>(b, i, r) \<in> live_rows (store_view ops cs'). is_ok (row_key ahash ident r)"
      unfolding live using okr by auto
    moreover have "index_entries iops ix' = mset_set (live_entries ahash ident (live_rows (store_view ops cs')))"
      unfolding live live_entries_remove[OF si ent(2,3)] using e(4) ent(1) by simp
    ultimately have "slice_inv ops iops ahash ident ?s c"
      using id(1) ni d(2) fd(2) by (simp add: slice_inv_def)
    moreover have "slice_delete ops iops s raw ident = Ok (Some (b, off), ?s)"
      using dup fd(1) Some e(3) ent(1) d(1) some by (simp add: slice_delete_def)
    moreover have "row_asked ops s ahash ident raw (b, off, r)"
      using ent e(2) holds by (auto simp: row_asked_def)
    ultimately show ?thesis using live gone ent(2) d(3) by (intro exI[of _ "Some (b, off)"] exI[of _ ?s]) auto
  qed
qed

lemma delete_first_spec:
  assumes "batch_ops_ok ops" and "store_inv ops cs c" and "record_fits (cs_schema cs) raw"
    and "\<forall>loc \<in> set locs. \<exists>b i. loc = MemoryBatch b i \<and> (b, i) \<in> stored_at (store_view ops cs)"
  shows "\<exists>res cs'. delete_first ops cs raw FullRow locs = Ok (res, cs') \<and> store_inv ops cs' c
    \<and> cs_schema cs' = cs_schema cs \<and> stored_at (store_view ops cs') = stored_at (store_view ops cs)
    \<and> (case res of
         Some (b, i) \<Rightarrow> MemoryBatch b i \<in> set locs \<and> (\<exists>r. (b, i, r) \<in> live_rows (store_view ops cs)
           \<and> identity_holds ops cs raw FullRow b r
           \<and> live_rows (store_view ops cs') = live_rows (store_view ops cs) - {(b, i, r)})
       | None \<Rightarrow> cs' = cs \<and> (\<forall>b i r. MemoryBatch b i \<in> set locs \<longrightarrow> (b, i, r) \<in> live_rows (store_view ops cs) \<longrightarrow>
           \<not> identity_holds ops cs raw FullRow b r))"
  using assms(4)
proof (induction locs)
  case Nil
  show ?case using assms(2) by simp
next
  case (Cons loc locs)
  obtain b i where loc: "loc = MemoryBatch b i" "(b, i) \<in> stored_at (store_view ops cs)" using Cons.prems by auto
  obtain res cs' where d: "delete_row_by_record ops cs raw (MemoryBatch b i) FullRow = Ok (res, cs')"
    "store_inv ops cs' c" "cs_schema cs' = cs_schema cs" "stored_at (store_view ops cs') = stored_at (store_view ops cs)"
    "case res of
       Some p \<Rightarrow> p = (b, i) \<and> (\<exists>row. (b, i, row) \<in> live_rows (store_view ops cs) \<and> identity_holds ops cs raw FullRow b row)
         \<and> live_rows (store_view ops cs') = {p \<in> live_rows (store_view ops cs). (fst p, fst (snd p)) \<noteq> (b, i)}
     | None \<Rightarrow> cs' = cs \<and> \<not> (\<exists>row. (b, i, row) \<in> live_rows (store_view ops cs) \<and> identity_holds ops cs raw FullRow b row)"
    using delete_row_by_record_spec[OF assms(1,2) loc(2), of FullRow raw] assms(3) by blast
  show ?case
  proof (cases res)
    case (Some p)
    then have p: "p = (b, i)" and live: "live_rows (store_view ops cs') = {p \<in> live_rows (store_view ops cs). (fst p, fst (snd p)) \<noteq> (b, i)}"
      using d(5) by simp_all
    obtain row where row: "(b, i, row) \<in> live_rows (store_view ops cs)" "identity_holds ops cs raw FullRow b row"
      using d(5) Some by auto
    have "delete_first ops cs raw FullRow (loc # locs) = Ok (Some (b, i), cs')" using d(1) Some p loc by simp
    then show ?thesis
      using d(2-4) loc(1) row live live_rows_minus[OF assms(2) row(1)]
      by (intro exI[of _ "Some (b, i)"] exI[of _ cs']) (auto simp del: delete_first.simps)
  next
    case None
    then have none: "cs' = cs" "\<And>row. (b, i, row) \<in> live_rows (store_view ops cs) \<Longrightarrow> \<not> identity_holds ops cs raw FullRow b row"
      using d(5) by auto
    have run: "delete_first ops cs raw FullRow (loc # locs) = delete_first ops cs raw FullRow locs"
      using d(1) None none(1) loc by simp
    have "\<forall>loc \<in> set locs. \<exists>b i. loc = MemoryBatch b i \<and> (b, i) \<in> stored_at (store_view ops cs)" using Cons.prems by simp
    from Cons.IH[OF this] show ?thesis
      unfolding run using none(2) loc(1) by (fastforce split: option.splits)
  qed
qed

lemma delete_full_row:
  assumes ops: "batch_ops_ok ops" "index_ops_ok iops" and inv: "slice_inv ops iops ahash FullRow s c"
    and fits: "record_fits (cs_schema (column_store s)) raw"
  shows "\<exists>res s'. slice_delete ops iops s raw FullRow = Ok (res, s') \<and> slice_inv ops iops ahash FullRow s' c
    \<and> cs_schema (column_store s') = cs_schema (column_store s)
    \<and> (case res of
         Some (b, i) \<Rightarrow> \<exists>r. (b, i, r) \<in> slice_live ops s \<and> row_asked ops s ahash FullRow raw (b, i, r)
           \<and> slice_live ops s' = slice_live ops s - {(b, i, r)}
       | None \<Rightarrow> slice_live ops s' = slice_live ops s \<and> (\<forall>p \<in> slice_live ops s. \<not> row_asked ops s ahash FullRow raw p))"
proof -
  let ?cs = "column_store s" and ?L = "slice_live ops s" and ?I = "index_entries iops (slice_index s)"
  have si: "store_inv ops ?cs c" and ix: "index_for FullRow (slice_index s)"
    and sub: "live_entries ahash FullRow ?L \<subseteq> set_mset ?I"
    and loc: "\<forall>e \<in># ?I. \<exists>b i. entry_location e = MemoryBatch b i \<and> (b, i) \<in> stored_at (store_view ops ?cs)
      \<and> (\<forall>r. (b, i, r) \<in> ?L \<longrightarrow> row_key ahash FullRow r = Ok (fst e, fst (snd e)))"
    and okr: "\<forall>(b, i, r) \<in> ?L. is_ok (row_key ahash FullRow r)"
    using inv by (simp_all add: slice_inv_def)
  have dup: "allow_duplicate (slice_index s) = Ok True" using ix by (auto simp: allow_duplicate_def)
  obtain locs where locs: "find_record iops (slice_index s) raw = Ok locs"
    "mset locs = image_mset entry_location (filter_mset (\<lambda>e. fst e = rd_lookup_key raw) ?I)"
    using find_record_FullRow[OF ops(2) dup] by blast
  have in_locs: "l \<in> set locs \<longleftrightarrow> (\<exists>e. e \<in># ?I \<and> fst e = rd_lookup_key raw \<and> entry_location e = l)" for l
  proof -
    have "set locs = entry_location ` {e. e \<in># ?I \<and> fst e = rd_lookup_key raw}"
      using arg_cong[OF locs(2), of set_mset] by simp
    then have "l \<in> set locs \<longleftrightarrow> (\<exists>e \<in> {e. e \<in># ?I \<and> fst e = rd_lookup_key raw}. l = entry_location e)"
      by (simp only: image_iff)
    then show ?thesis by (simp only: Bex_def mem_Collect_eq conj_assoc eq_commute[of l])
  qed
  have asked: "row_asked ops s ahash FullRow raw (b, i, r) \<longleftrightarrow>
      (\<exists>j. row_key ahash FullRow r = Ok (rd_lookup_key raw, j)) \<and> identity_holds ops ?cs raw FullRow b r" for b i r
    by (auto simp: row_asked_def entry_matches_def row_key_def extract_identity_for_key_def)
  have "\<forall>loc \<in> set locs. \<exists>b i. loc = MemoryBatch b i \<and> (b, i) \<in> stored_at (store_view ops ?cs)"
    using loc unfolding in_locs Ball_def by metis
  from delete_first_spec[OF ops(1) si fits this]
  obtain res cs' where d: "delete_first ops ?cs raw FullRow locs = Ok (res, cs')" "store_inv ops cs' c"
    "cs_schema cs' = cs_schema ?cs" "stored_at (store_view ops cs') = stored_at (store_view ops ?cs)"
    "case res of
       Some (b, i) \<Rightarrow> MemoryBatch b i \<in> set locs \<and> (\<exists>r. (b, i, r) \<in> ?L \<and> identity_holds ops ?cs raw FullRow b r
         \<and> live_rows (store_view ops cs') = ?L - {(b, i, r)})
     | None \<Rightarrow> cs' = ?cs \<and> (\<forall>b i r. MemoryBatch b i \<in> set locs \<longrightarrow> (b, i, r) \<in> ?L \<longrightarrow> \<not> identity_holds ops ?cs raw FullRow b r)"
    by blast
  let ?s = "s\<lparr>column_store := cs'\<rparr>"
  have run: "slice_delete ops iops s raw FullRow = Ok (res, ?s)" using dup locs(1) d(1) by (simp add: slice_delete_def)
  have less: "live_rows (store_view ops cs') \<subseteq> ?L" using d(5) by (auto split: option.splits)
  then have "live_entries ahash FullRow (live_rows (store_view ops cs')) \<subseteq> set_mset ?I"
    using sub by (force simp: live_entries_def)
  moreover have "\<forall>(b, i, r) \<in> live_rows (store_view ops cs'). is_ok (row_key ahash FullRow r)" using okr less by blast
  ultimately have inv': "slice_inv ops iops ahash FullRow ?s c"
    using d(2,4) ix loc less by (simp add: slice_inv_def) blast
  show ?thesis
  proof (cases res)
    case None
    have "\<not> row_asked ops s ahash FullRow raw (b, i, r)" if "(b, i, r) \<in> ?L" for b i r
    proof
      assume "row_asked ops s ahash FullRow raw (b, i, r)"
      then obtain j where k: "row_key ahash FullRow r = Ok (rd_lookup_key raw, j)" "identity_holds ops ?cs raw FullRow b r"
        using asked by blast
      have "(rd_lookup_key raw, j, MemoryBatch b i) \<in> live_entries ahash FullRow ?L"
        using that k(1) by (auto simp: live_entries_def)
      then have "(rd_lookup_key raw, j, MemoryBatch b i) \<in># ?I" using sub by blast
      then have "MemoryBatch b i \<in> set locs" using in_locs by force
      then show False using d(5) None that k(2) by auto
    qed
    then show ?thesis using run inv' d(3,5) None by auto
  next
    case (Some p)
    obtain b i where p: "p = (b, i)" by (cases p)
    obtain r where r: "MemoryBatch b i \<in> set locs" "(b, i, r) \<in> ?L" "identity_holds ops ?cs raw FullRow b r"
      "live_rows (store_view ops cs') = ?L - {(b, i, r)}"
      using d(5) Some p by auto
    obtain e where e: "e \<in># ?I" "fst e = rd_lookup_key raw" "entry_location e = MemoryBatch b i"
      using r(1) in_locs by blast
    then have "row_key ahash FullRow r = Ok (rd_lookup_key raw, fst (snd e))" using loc r(2) by fastforce
    then have "row_asked ops s ahash FullRow raw (b, i, r)" using asked r(3) by blast
    then show ?thesis using run inv' d(3) r(2,4) Some p by auto
  qed
qed

lemma insert_index_total:
  assumes "index_for ident ix" and "ident \<noteq> IdentityNone" and "extract_identity_for_key ident row = Ok i"
  shows "\<exists>ix'. insert_index iops ix k i loc = Ok ix' \<and> index_for ident ix'"
  using assms by (cases ident) (auto simp: insert_index_def extract_identity_for_key_def)

lemma live_entries_insert:
  assumes "row_key ahash ident row = Ok (k, j)"
  shows "live_entries ahash ident (insert (b, off, row) L) = insert (k, j, MemoryBatch b off) (live_entries ahash ident L)"
  using assms by (auto simp: live_entries_def)

lemma append_slice:
  assumes ops: "batch_ops_ok ops" "index_ops_ok iops" and inv: "slice_inv ops iops ahash ident s c"
    and row: "row_fits (cs_schema (column_store s)) row" and key: "row_key ahash ident row = Ok (k, j)"
    and run: "slice_append ops iops s c k row j = Ok (Inr nb, s', c')"
  shows "slice_inv ops iops ahash ident s' c' \<and> cs_schema (column_store s') = cs_schema (column_store s)
    \<and> (\<exists>b off. (b, off) \<notin> stored_at (store_view ops (column_store s))
         \<and> slice_live ops s' = insert (b, off, row) (slice_live ops s))"
proof -
  let ?cs = "column_store s" and ?L = "slice_live ops s"
  have si: "store_inv ops ?cs c" and ni: "ident \<noteq> IdentityNone" and ix: "index_for ident (slice_index s)"
    and okr: "\<forall>(b, i, r) \<in> ?L. is_ok (row_key ahash ident r)"
    using inv by (simp_all add: slice_inv_def)
  obtain r cs' c1 where ar1: "append_row ops ?cs c row = Ok (r, cs', c1)"
    using run by (auto simp: slice_append_def)
  obtain b off where r: "r = Inr (b, off, nb)" and c1: "c1 = c'"
    using run ar1 by (cases r) (auto simp: slice_append_def Let_def split: if_splits)
  note ar = ar1[unfolded c1]
  have ne: "slice_index s \<noteq> NoIndex" using ix ni by (cases ident) auto
  have j: "extract_identity_for_key ident row = Ok j" using key by (auto simp: row_key_def)
  obtain idx where idx: "insert_index iops (slice_index s) k j (MemoryBatch b off) = Ok idx" "index_for ident idx"
    using insert_index_total[OF ix ni j] by blast
  have s': "s' = s\<lparr>column_store := cs', slice_index := idx\<rparr>"
    using run ar r ne idx(1) by (auto simp: slice_append_def location_from_pair_def)
  note A = append_row_spec[OF ops(1) si row ar[unfolded r]]
  have live: "live_rows (store_view ops cs') = insert (b, off, row) ?L"
    and stored: "stored_at (store_view ops cs') = insert (b, off) (stored_at (store_view ops ?cs))"
    and fresh: "(b, off) \<notin> stored_at (store_view ops ?cs)" and cs': "store_inv ops cs' c'" "cs_schema cs' = cs_schema ?cs"
    using A by blast+
  have new: "(k, j, MemoryBatch b off) \<notin> live_entries ahash ident ?L"
    using fresh by (auto simp: live_entries_def dest: live_rows_stored)
  have okr': "\<forall>(b, i, r) \<in> live_rows (store_view ops cs'). is_ok (row_key ahash ident r)" using okr key live by auto
  have "slice_inv ops iops ahash ident s' c'"
  proof (cases "ident = FullRow")
    case True
    have ent: "index_entries iops idx = add_mset (k, j, MemoryBatch b off) (index_entries iops (slice_index s))"
      by (rule insert_index_spec(1)[OF ops(2) idx(1)])
    have old: "live_entries ahash ident ?L \<subseteq> set_mset (index_entries iops (slice_index s))"
      "\<forall>e \<in># index_entries iops (slice_index s). \<exists>b i. entry_location e = MemoryBatch b i
        \<and> (b, i) \<in> stored_at (store_view ops ?cs) \<and> (\<forall>r. (b, i, r) \<in> ?L \<longrightarrow> row_key ahash ident r = Ok (fst e, fst (snd e)))"
      using inv True by (simp_all add: slice_inv_def)
    have "live_entries ahash ident (live_rows (store_view ops cs')) \<subseteq> set_mset (index_entries iops idx)"
      unfolding live live_entries_insert[OF key] ent using old(1) by auto
    moreover have "\<exists>b i. entry_location e = MemoryBatch b i \<and> (b, i) \<in> stored_at (store_view ops cs')
        \<and> (\<forall>r. (b, i, r) \<in> live_rows (store_view ops cs') \<longrightarrow> row_key ahash ident r = Ok (fst e, fst (snd e)))"
      if "e \<in># index_entries iops idx" for e
    proof (cases "e \<in># index_entries iops (slice_index s)")
      case True
      then obtain b' i' where e: "entry_location e = MemoryBatch b' i'" "(b', i') \<in> stored_at (store_view ops ?cs)"
        "\<forall>r. (b', i', r) \<in> ?L \<longrightarrow> row_key ahash ident r = Ok (fst e, fst (snd e))" using old(2) by blast
      then have "(b', i') \<noteq> (b, off)" using fresh by auto
      then show ?thesis using e unfolding live stored by auto
    next
      case False
      then have e: "e = (k, j, MemoryBatch b off)" using that ent by auto
      have "\<not> (b, off, r) \<in> ?L" for r using fresh live_rows_stored by blast
      then show ?thesis unfolding e live stored using key by auto
    qed
    ultimately show ?thesis using True cs' idx(2) okr' by (simp add: slice_inv_def s')
  next
    case False
    then have E: "index_entries iops (slice_index s) = mset_set (live_entries ahash ident ?L)"
      using inv by (simp add: slice_inv_def)
    have "index_entries iops idx = mset_set (live_entries ahash ident (live_rows (store_view ops cs')))"
      using mi.insert_tracks[OF ops(2) E finite_live_entries idx(1) new] unfolding live live_entries_insert[OF key] .
    then show ?thesis using False ni cs' idx(2) okr' by (simp add: slice_inv_def s')
  qed
  then show ?thesis using cs' fresh live by (auto simp: s')
qed

section \<open>Runs\<close>

text \<open>Appends and deletions the way the table issues them: the key of a row is computed from the row.\<close>

datatype slice_event = SliceAppend moonlink_row | SliceDelete raw_deletion_record

fun slice_event_ok :: "arrow_field list \<Rightarrow> identity_prop \<Rightarrow> slice_event \<Rightarrow> bool" where
  "slice_event_ok fs ident (SliceAppend row) = row_fits fs row"
| "slice_event_ok fs ident (SliceDelete raw) =
     ((ident = FullRow \<longrightarrow> record_fits fs raw) \<and> (\<forall>ks. ident = Keys ks \<longrightarrow> rd_row_identity raw \<noteq> None))"

fun slice_step ::
  "('b, 'z) arrow_ops_scheme \<Rightarrow> ('s, 'k, 'm) index_ops \<Rightarrow> (hash_item list \<Rightarrow> u64) \<Rightarrow> identity_prop \<Rightarrow>
   ('b, 's, 'k, 'm) mem_slice \<times> batch_id_counter \<Rightarrow> slice_event \<Rightarrow>
   (('b, 's, 'k, 'm) mem_slice \<times> batch_id_counter) res" where
  "slice_step ops iops ahash ident (s, c) (SliceAppend row) =
     res_bind (row_key ahash ident row) (\<lambda>(k, j).
     res_bind (slice_append ops iops s c k row j) (\<lambda>(r, s, c).
     case r of Inl _ \<Rightarrow> Panic UnwrapErr | Inr _ \<Rightarrow> Ok (s, c)))"
| "slice_step ops iops ahash ident (s, c) (SliceDelete raw) =
     res_bind (slice_delete ops iops s raw ident) (\<lambda>(_, s). Ok (s, c))"

lemma delete_slice:
  assumes "batch_ops_ok ops" "index_ops_ok iops" and "slice_inv ops iops ahash ident s c"
    and "slice_event_ok (cs_schema (column_store s)) ident (SliceDelete raw)"
  shows "\<exists>res s'. slice_delete ops iops s raw ident = Ok (res, s') \<and> slice_inv ops iops ahash ident s' c
    \<and> cs_schema (column_store s') = cs_schema (column_store s)
    \<and> (case res of
         Some (b, i) \<Rightarrow> \<exists>r. (b, i, r) \<in> slice_live ops s \<and> row_asked ops s ahash ident raw (b, i, r)
           \<and> slice_live ops s' = slice_live ops s - {(b, i, r)}
       | None \<Rightarrow> slice_live ops s' = slice_live ops s \<and> (\<forall>p \<in> slice_live ops s. \<not> row_asked ops s ahash ident raw p))"
proof (cases "ident = FullRow")
  case True
  show ?thesis
    using delete_full_row[OF assms(1,2) assms(3)[unfolded True], of raw] assms(4) unfolding True by simp
next
  case False
  show ?thesis by (rule delete_unique[OF assms(1-3) False]) (use assms(4) in auto)
qed

interpretation slices: stateful_component "slice_step ops iops ahash ident" "\<lambda>_. slice_event_ok fs ident"
  "\<lambda>(s, c). batch_ops_ok ops \<and> index_ops_ok iops \<and> slice_inv ops iops ahash ident s c
     \<and> cs_schema (column_store s) = fs" for ops iops ahash ident fs
proof (unfold_locales)
  fix st st' e
  assume I: "case st of (s, c) \<Rightarrow> batch_ops_ok ops \<and> index_ops_ok iops \<and> slice_inv ops iops ahash ident s c
      \<and> cs_schema (column_store s) = fs"
    and ok0: "slice_event_ok fs ident e" and step0: "slice_step ops iops ahash ident st e = Ok st'"
  obtain s c s' c' where st: "st = (s, c)" "st' = (s', c')" by (cases st, cases st')
  have ops: "batch_ops_ok ops" "index_ops_ok iops" and inv: "slice_inv ops iops ahash ident s c"
    and fs: "fs = cs_schema (column_store s)" using I st by auto
  note ok = ok0[unfolded fs] and step = step0[unfolded st]
  have "slice_inv ops iops ahash ident s' c' \<and> cs_schema (column_store s') = cs_schema (column_store s)"
  proof (cases e)
    case (SliceAppend row)
    obtain k j r s1 c1 where k: "row_key ahash ident row = Ok (k, j)"
      "slice_append ops iops s c k row j = Ok (r, s1, c1)"
      using step SliceAppend by auto
    obtain nb where "r = Inr nb" "s1 = s'" "c1 = c'" using step SliceAppend k by (cases r) auto
    then show ?thesis using append_slice[OF ops inv _ k(1)] k(2) ok SliceAppend by auto
  next
    case (SliceDelete raw)
    then show ?thesis using delete_slice[OF ops inv, of raw] ok step by auto
  qed
  then show "case st' of (s, c) \<Rightarrow> batch_ops_ok ops \<and> index_ops_ok iops \<and> slice_inv ops iops ahash ident s c
      \<and> cs_schema (column_store s) = fs"
    using ops st fs by simp
qed

lemma new_slice_inv:
  assumes "flat_schema ops fs" and "0 < capacity" and "index_ops_ok iops" and "ident \<noteq> IdentityNone"
    and "new_mem_slice ops iops fs capacity ident c = Ok (s, c')"
  shows "slice_inv ops iops ahash ident s c' \<and> cs_schema (column_store s) = fs \<and> slice_live ops s = {}"
proof -
  obtain cs where cs: "new_column_store_buffer ops fs capacity c = Ok (cs, c')"
    and s: "s = \<lparr>column_store = cs, slice_index = new_mem_index iops ident\<rparr>"
    using assms(5) by (auto simp: new_mem_slice_def)
  have "index_for ident (new_mem_index iops ident)" by (cases ident) (auto simp: new_mem_index_def)
  moreover have "live_entries ahash i {} = {}" for i by (simp add: live_entries_def)
  ultimately show ?thesis
    using new_column_store_spec[OF assms(1,2) cs] assms(3,4) by (simp add: slice_inv_def s)
qed

lemma slice_run_inv:
  assumes "batch_ops_ok ops" and "index_ops_ok iops" and "flat_schema ops fs" and "0 < capacity"
    and "ident \<noteq> IdentityNone" and "new_mem_slice ops iops fs capacity ident c0 = Ok (s0, c1)"
    and "\<forall>e \<in> set es. slice_event_ok fs ident e"
    and "res_fold (slice_step ops iops ahash ident) (s0, c1) es = Ok (s, c)"
  shows "slice_inv ops iops ahash ident s c \<and> cs_schema (column_store s) = fs"
proof -
  have "stateful_component.guarded (slice_step ops iops ahash ident) (\<lambda>_. slice_event_ok fs ident) (s0, c1) es"
    by (rule slices.guarded_all) (use assms(7) in simp)
  then show ?thesis
    using slices.run_inv[where fs = fs and s = "(s0, c1)" and es = es and t = "(s, c)" and ops = ops and iops = iops
        and ahash = ahash and ident = ident]
      new_slice_inv[OF assms(3,4,2,5,6)] assms(1,2,7,8) by simp
qed


definition demo_slice ::
  "((plain_batch, single_primitive_key list, key_with_identity list, (u64 \<times> record_location) list) mem_slice
    \<times> batch_id_counter) res" where
  "demo_slice = new_mem_slice plain_arrow list_index [ArrowField ''k'' DtInt32 False] 2 (SinglePrimitiveKey 0)
     (new_batch_id_counter False)"

lemma demo_slice_runs:
  "is_ok (res_bind demo_slice (\<lambda>s. res_fold (slice_step plain_arrow list_index (\<lambda>_. 0) (SinglePrimitiveKey 0)) s
     [SliceAppend \<lparr>row_values = [Int32 7]\<rparr>]))"
proof -
  have "next_batch_id (new_batch_id_counter False) = Ok (0x8000000000000001, \<lparr>counter = 0x8000000000000001, is_streaming = False\<rparr>)"
    by (simp add: next_batch_id_def get_and_next_def new_batch_id_counter_def below_limit_def load_counter_def
      fetch_add_def STREAMING_BATCH_ID_MAX_def)
  then show ?thesis
    by (simp add: demo_slice_def new_mem_slice_def new_column_store_buffer_def new_builders_def
      append_row_def slice_append_def append_value.simps(1) append_leaf_def row_key_def get_lookup_key_def
      extract_identity_for_key_def to_u64_key_def index_res_def insert_index_def new_mem_index_def)
qed


end
