(* ===== verification/Snapshot_Task.thy ===== *)
theory Snapshot_Task
  imports Mem_Slice Table_Event
begin

text \<open>
  What the parts of a mooncake table exchange: the table metadata and configuration
  (\<^verbatim>\<open>storage/mooncake_table_config.rs\<close>), disk file entries, snapshots and snapshot tasks
  (\<^verbatim>\<open>storage/mooncake_table.rs\<close>), the index of a snapshot (\<^verbatim>\<open>storage/index/hash_index.rs\<close>), the
  written disk slice (\<^verbatim>\<open>disk_slice.rs\<close>), the outcome of a streaming transaction
  (\<^verbatim>\<open>transaction_stream.rs\<close>) and the persisted records (\<^verbatim>\<open>persisted_records.rs\<close>).
\<close>

section \<open>Configuration and metadata\<close>

text \<open>The chaos settings and the serialisation of the configuration are left out.\<close>

record iceberg_persistence_config =
  pc_new_data_file_count :: nat
  pc_new_committed_deletion_log :: nat
  pc_new_compacted_data_file_count :: nat
  pc_old_compacted_data_file_count :: nat
  pc_old_merged_file_indices_count :: nat

record data_compaction_config =
  min_data_file_to_compact :: nat
  max_data_file_to_compact :: nat
  data_file_final_size :: nat
  data_file_deletion_percentage :: nat

record file_index_merge_config =
  min_file_indices_to_merge :: nat
  max_file_indices_to_merge :: nat
  index_block_final_size :: nat

record mooncake_table_config =
  mem_slice_size :: nat
  snapshot_deletion_record_count :: nat
  batch_size :: nat
  parquet_file_size :: nat
  persistence_config :: iceberg_persistence_config
  data_compaction_config :: data_compaction_config
  file_index_config :: file_index_merge_config
  temp_files_directory :: string
  append_only :: bool
  row_identity :: identity_prop

record table_metadata =
  md_table_name :: string
  md_table_id :: u32
  md_schema :: "arrow_field list"
  md_config :: mooncake_table_config
  md_path :: string

definition compaction_config_validate :: "data_compaction_config \<Rightarrow> unit res" where
  "compaction_config_validate c =
     check (min_data_file_to_compact c \<le> max_data_file_to_compact c) AssertFailed (
     check (data_file_deletion_percentage c \<le> 100) AssertFailed (Ok ()))"

definition index_merge_config_validate :: "file_index_merge_config \<Rightarrow> unit res" where
  "index_merge_config_validate c =
     check (min_file_indices_to_merge c \<le> max_file_indices_to_merge c) AssertFailed (Ok ())"

definition metadata_validate :: "table_metadata \<Rightarrow> unit res" where
  "metadata_validate m =
     check (row_identity (md_config m) = IdentityNone \<longrightarrow> append_only (md_config m)) AssertFailed (
     check (append_only (md_config m) \<longrightarrow> row_identity (md_config m) = IdentityNone) AssertFailed (
     res_bind (index_merge_config_validate (file_index_config (md_config m))) (\<lambda>_.
     compaction_config_validate (data_compaction_config (md_config m)))))"

text \<open>The request to alter a table: the columns to add and the names of the columns to drop.\<close>

definition new_for_alter_table ::
  "table_metadata \<Rightarrow> arrow_field list \<Rightarrow> string list \<Rightarrow> table_metadata" where
  "new_for_alter_table previous new_columns dropped_columns =
     previous\<lparr>md_schema :=
       filter (\<lambda>f. field_name f \<notin> set dropped_columns) (md_schema previous) @ new_columns\<rparr>"

section \<open>Data files and their entries\<close>

text \<open>
  A \<^verbatim>\<open>HashMap\<close> whose keys are data files compares them by file id and is looked up by file id:
  an association list from the id to the stored key and value. Inserting under an id that is
  present replaces the value and keeps the stored key.
\<close>

type_synonym 'v file_map = "(file_id \<times> mooncake_data_file \<times> 'v) list"

definition fm_get :: "'v file_map \<Rightarrow> file_id \<Rightarrow> 'v option" where
  "fm_get m fid = map_option snd (map_of m fid)"

definition fm_insert :: "mooncake_data_file \<Rightarrow> 'v \<Rightarrow> 'v file_map \<Rightarrow> 'v file_map" where
  "fm_insert f v m =
     AList.update (file_id f) (case map_of m (file_id f) of Some (g, _) \<Rightarrow> (g, v) | None \<Rightarrow> (f, v)) m"

definition fm_set :: "file_id \<Rightarrow> 'v \<Rightarrow> 'v file_map \<Rightarrow> 'v file_map" where
  "fm_set fid v m = (case map_of m fid of Some (g, _) \<Rightarrow> AList.update fid (g, v) m | None \<Rightarrow> m)"

definition fm_wf :: "'v file_map \<Rightarrow> bool" where
  "fm_wf m \<longleftrightarrow> distinct (map fst m) \<and> (\<forall>(fid, f, v) \<in> set m. file_id f = fid)"

lemma fm_get_insert: "fm_get (fm_insert f v m) g = (if g = file_id f then Some v else fm_get m g)"
  by (auto simp: fm_get_def fm_insert_def update_conv' split: option.splits)

lemma fm_wf_iff: "fm_wf m \<longleftrightarrow> distinct (map fst m) \<and> (\<forall>fid f v. map_of m fid = Some (f, v) \<longrightarrow> file_id f = fid)"
  unfolding fm_wf_def by (cases "distinct (map fst m)") (simp_all add: Ball_def)

lemma fm_insert_wf: "fm_wf m \<Longrightarrow> fm_wf (fm_insert f v m)"
  by (auto simp: fm_wf_iff fm_insert_def distinct_update update_conv' split: option.splits)

record disk_file_entry =
  df_cache_handle :: "non_evictable_handle option"
  df_num_rows :: nat
  df_file_size :: nat
  committed_deletion_vector :: batch_deletion_vector
  puffin_deletion_blob :: "puffin_blob_ref option"

definition new_disk_file_entry :: "nat \<Rightarrow> nat \<Rightarrow> non_evictable_handle option \<Rightarrow> disk_file_entry" where
  "new_disk_file_entry rows bytes handle =
     \<lparr>df_cache_handle = handle, df_num_rows = rows, df_file_size = bytes,
      committed_deletion_vector = new_deletion_vector rows, puffin_deletion_blob = None\<rparr>"

section \<open>The index of a snapshot\<close>

text \<open>
  In-memory indices are shared pointers compared by address: an association list from
  addresses to indices, whose order stands for the iteration order of the hash set. The
  lookup in a file index, \<^verbatim>\<open>GlobalIndex::search_values\<close>, is the parameter \<open>search\<close>: from the
  keys looked up to the keys and locations found.
\<close>

type_synonym ('s, 'k, 'm) index_ptr = "nat \<times> ('s, 'k, 'm) mem_index"

record ('s, 'k, 'm) mooncake_index =
  in_memory_index :: "('s, 'k, 'm) index_ptr list"
  file_indices :: "global_index list"

definition new_mooncake_index :: "('s, 'k, 'm) mooncake_index" where
  "new_mooncake_index = \<lparr>in_memory_index = [], file_indices = []\<rparr>"

definition insert_memory_index ::
  "('s, 'k, 'm) index_ptr \<Rightarrow> ('s, 'k, 'm) mooncake_index \<Rightarrow> ('s, 'k, 'm) mooncake_index" where
  "insert_memory_index ptr ix =
     (if fst ptr \<in> fst ` set (in_memory_index ix) then ix
      else ix\<lparr>in_memory_index := in_memory_index ix @ [ptr]\<rparr>)"

definition delete_memory_index ::
  "('s, 'k, 'm) index_ptr \<Rightarrow> ('s, 'k, 'm) mooncake_index \<Rightarrow> ('s, 'k, 'm) mooncake_index" where
  "delete_memory_index ptr ix = ix\<lparr>in_memory_index := AList.delete (fst ptr) (in_memory_index ix)\<rparr>"

definition insert_file_index ::
  "global_index \<Rightarrow> ('s, 'k, 'm) mooncake_index \<Rightarrow> ('s, 'k, 'm) mooncake_index" where
  "insert_file_index f ix = ix\<lparr>file_indices := file_indices ix @ [f]\<rparr>"

type_synonym index_search = "global_index \<Rightarrow> u64 list \<Rightarrow> (u64 \<times> record_location) list"

definition index_find_record ::
  "('s, 'k, 'm) index_ops \<Rightarrow> index_search \<Rightarrow> ('s, 'k, 'm) mooncake_index \<Rightarrow> raw_deletion_record \<Rightarrow>
   record_location list res" where
  "index_find_record iops search ix raw =
     res_bind (res_map (\<lambda>(_, i). find_record iops i raw) (in_memory_index ix)) (\<lambda>in_memory.
     Ok (concat in_memory @
         concat (map (\<lambda>f. map snd (search f [rd_lookup_key raw])) (file_indices ix))))"

text \<open>
  The lookup of many records: the results in memory are collected in a hash set, the keys
  are deduplicated before they are looked up in the file indices.
\<close>

definition find_records ::
  "('s, 'k, 'm) index_ops \<Rightarrow> index_search \<Rightarrow> ('s, 'k, 'm) mooncake_index \<Rightarrow> raw_deletion_record list \<Rightarrow>
   (u64 \<times> record_location) list res" where
  "find_records iops search ix raws =
     res_bind (res_map (\<lambda>(_, i).
         res_bind (res_map (\<lambda>raw. res_bind (find_record iops i raw)
             (\<lambda>locs. Ok (map (\<lambda>loc. (rd_lookup_key raw, loc)) locs))) raws) (\<lambda>found. Ok (concat found)))
       (in_memory_index ix)) (\<lambda>in_memory.
     let in_memory_res = remdups (concat in_memory)
     in if file_indices ix = [] then Ok in_memory_res
        else Ok (in_memory_res @
          concat (map (\<lambda>f. search f (remdups (map rd_lookup_key raws))) (file_indices ix))))"

section \<open>Snapshots\<close>

record ('s, 'k, 'm) snapshot =
  snap_metadata :: table_metadata
  disk_files :: "disk_file_entry file_map"
  snapshot_version :: lsn
  snap_flush_lsn :: "lsn option"
  snap_largest_flush_lsn :: "lsn option"
  snap_indices :: "('s, 'k, 'm) mooncake_index"

definition new_snapshot :: "table_metadata \<Rightarrow> ('s, 'k, 'm) snapshot" where
  "new_snapshot m =
     \<lparr>snap_metadata = m, disk_files = [], snapshot_version = 0, snap_flush_lsn = None,
      snap_largest_flush_lsn = None, snap_indices = new_mooncake_index\<rparr>"

definition get_cardinality :: "('s, 'k, 'm) snapshot \<Rightarrow> nat res" where
  "get_cardinality s = res_fold (\<lambda>n (_, _, e). add_width 64 n (df_num_rows e)) 0 (disk_files s)"

section \<open>Written disk slices\<close>

record disk_file_attrs =
  attrs_file_size :: nat
  attrs_row_num :: nat

record ('b, 's, 'k, 'm) disk_slice_writer =
  ds_schema :: "arrow_field list"
  ds_dir_path :: string
  ds_batches :: "'b batch_entry list"
  writer_lsn :: "lsn option"
  ds_old_index :: "('s, 'k, 'm) index_ptr"
  table_auto_incr_id :: u32
  ds_parquet_file_size :: nat
  batch_id_to_idx :: "u64 \<rightharpoonup> nat"
  row_offset_mapping :: "(nat \<times> nat) option list list"
  ds_new_index :: "global_index option"
  ds_files :: "(mooncake_data_file \<times> disk_file_attrs) list"

definition new_disk_slice_writer ::
  "arrow_field list \<Rightarrow> string \<Rightarrow> 'b batch_entry list \<Rightarrow> lsn option \<Rightarrow> u32 \<Rightarrow>
   ('s, 'k, 'm) index_ptr \<Rightarrow> nat \<Rightarrow> ('b, 's, 'k, 'm) disk_slice_writer" where
  "new_disk_slice_writer schema dir_path batches lsn auto_incr_id old_index parquet_size =
     \<lparr>ds_schema = schema, ds_dir_path = dir_path, ds_batches = batches, writer_lsn = lsn,
      ds_old_index = old_index, table_auto_incr_id = auto_incr_id,
      ds_parquet_file_size = parquet_size, batch_id_to_idx = Map.empty, row_offset_mapping = [],
      ds_new_index = None, ds_files = []\<rparr>"

definition take_index ::
  "('b, 's, 'k, 'm) disk_slice_writer \<Rightarrow> global_index option \<times> ('b, 's, 'k, 'm) disk_slice_writer" where
  "take_index w = (ds_new_index w, w\<lparr>ds_new_index := None\<rparr>)"

text \<open>The new position of a deletion, if its batch was flushed and its row written.\<close>

definition remap_deletion_if_needed ::
  "('b, 's, 'k, 'm) disk_slice_writer \<Rightarrow> processed_deletion_record \<Rightarrow>
   (record_location option \<times> processed_deletion_record) res" where
  "remap_deletion_if_needed w deletion = (case pd_pos deletion of
       MemoryBatch batch_id row_idx \<Rightarrow>
         (case batch_id_to_idx w batch_id of
            Some idx \<Rightarrow>
              res_bind (index_res (row_offset_mapping w) idx) (\<lambda>offsets.
              res_bind (index_res offsets row_idx) (\<lambda>new_location. case new_location of
                  Some (f, r) \<Rightarrow>
                    res_bind (index_res (ds_files w) f) (\<lambda>(data_file, _).
                    let loc = DiskFile (file_id data_file) r
                    in Ok (Some loc, deletion\<lparr>pd_pos := loc\<rparr>))
                | None \<Rightarrow> Ok (None, deletion)))
          | None \<Rightarrow> Ok (None, deletion))
     | DiskFile _ _ \<Rightarrow> Ok (None, deletion))"

section \<open>Outcomes of streaming transactions\<close>

record ('s, 'k, 'm) transaction_stream_commit =
  tsc_xact_id :: xact_id
  tsc_commit_lsn :: lsn
  tsc_flushed_file_index :: "('s, 'k, 'm) mooncake_index"
  tsc_flushed_files :: "disk_file_entry file_map"
  tsc_local_deletions :: "processed_deletion_record list"
  tsc_pending_deletions :: "raw_deletion_record list"

datatype ('s, 'k, 'm) transaction_stream_output =
    StreamCommitted "('s, 'k, 'm) transaction_stream_commit"
  | StreamAborted xact_id

definition get_committed_persisted_disk_count :: "('s, 'k, 'm) transaction_stream_output \<Rightarrow> nat" where
  "get_committed_persisted_disk_count out = (case out of
       StreamAborted _ \<Rightarrow> 0 | StreamCommitted c \<Rightarrow> length (tsc_flushed_files c))"

definition from_disk_files ::
  "disk_file_entry file_map \<Rightarrow> lsn \<Rightarrow> ('s, 'k, 'm) transaction_stream_commit" where
  "from_disk_files files lsn =
     \<lparr>tsc_xact_id = 0, tsc_commit_lsn = lsn, tsc_flushed_file_index = new_mooncake_index,
      tsc_flushed_files = files, tsc_local_deletions = [], tsc_pending_deletions = []\<rparr>"

definition get_flushed_data_files :: "('s, 'k, 'm) transaction_stream_commit \<Rightarrow> mooncake_data_file list" where
  "get_flushed_data_files c = map (\<lambda>(_, f, _). f) (tsc_flushed_files c)"

definition add_file_index ::
  "global_index \<Rightarrow> ('s, 'k, 'm) transaction_stream_commit \<Rightarrow> ('s, 'k, 'm) transaction_stream_commit" where
  "add_file_index i c = c\<lparr>tsc_flushed_file_index := insert_file_index i (tsc_flushed_file_index c)\<rparr>"

definition LSN_START_FOR_STREAMING_XACT :: lsn where
  "LSN_START_FOR_STREAMING_XACT = 0xFFFFFFFF00000000"

text \<open>
  The lower 32 bits of the start are zero, so that the bitwise or with a transaction id is
  a sum.
\<close>

definition get_lsn_for_pending_xact :: "xact_id \<Rightarrow> lsn" where
  "get_lsn_for_pending_xact x = LSN_START_FOR_STREAMING_XACT + unat x"

section \<open>Persisted records\<close>

record persisted_records =
  pr_flush_lsn :: "lsn option"
  pr_import_result :: persistence_snapshot_import_result
  pr_index_merge_result :: persistence_snapshot_index_merge_result
  pr_data_compaction_result :: persistence_snapshot_data_compaction_result

definition empty_persisted_records :: persisted_records where
  "empty_persisted_records =
     \<lparr>pr_flush_lsn = None,
      pr_import_result =
        \<lparr>res_new_data_files = [], res_puffin_blob_ref = [], res_new_file_indices = []\<rparr>,
      pr_index_merge_result = \<lparr>new_file_indices_imported = [], old_file_indices_removed = []\<rparr>,
      pr_data_compaction_result =
        \<lparr>compacted_data_files_imported = [], compacted_data_files_removed = [],
         compacted_indices_imported = [], compacted_indices_removed = [],
         compacted_records_remap = []\<rparr>\<rparr>"

definition persisted_records_is_empty :: "persisted_records \<Rightarrow> bool res" where
  "persisted_records_is_empty r =
     (if pr_flush_lsn r = None then
        check (import_result_is_empty (pr_import_result r)) AssertFailed (
        res_bind (index_merge_result_is_empty (pr_index_merge_result r)) (\<lambda>e.
        check e AssertFailed (
        res_bind (data_compaction_result_is_empty (pr_data_compaction_result r)) (\<lambda>e.
        check e AssertFailed (Ok True)))))
      else Ok False)"

definition get_data_files_to_reflect_persistence :: "persisted_records \<Rightarrow> mooncake_data_file list" where
  "get_data_files_to_reflect_persistence r =
     res_new_data_files (pr_import_result r) @
     compacted_data_files_imported (pr_data_compaction_result r)"

definition get_file_indices_to_reflect_persistence ::
  "persisted_records \<Rightarrow> file_id set \<times> global_index list" where
  "get_file_indices_to_reflect_persistence r =
     (let persisted = res_new_file_indices (pr_import_result r) @
            new_file_indices_imported (pr_index_merge_result r) @
            compacted_indices_imported (pr_data_compaction_result r)
      in (file_id ` (\<Union>i \<in> set persisted. set (gi_files i)), persisted))"

definition starts_with :: "string \<Rightarrow> string \<Rightarrow> bool" where
  "starts_with pre s \<longleftrightarrow> take (length pre) s = pre"

definition validate_file_indices_remote :: "string \<Rightarrow> global_index \<Rightarrow> bool" where
  "validate_file_indices_remote warehouse_uri i =
     list_all (\<lambda>b. starts_with warehouse_uri (file_path (index_file b))) (gi_index_blocks i)"

definition validate_imported_files_remote :: "persisted_records \<Rightarrow> string \<Rightarrow> unit res" where
  "validate_imported_files_remote r warehouse_uri =
     (let remote = (\<lambda>f. starts_with warehouse_uri (file_path f))
      in check (list_all remote (res_new_data_files (pr_import_result r))) AssertFailed (
         check (list_all (validate_file_indices_remote warehouse_uri)
           (res_new_file_indices (pr_import_result r))) AssertFailed (
         check (list_all (validate_file_indices_remote warehouse_uri)
           (new_file_indices_imported (pr_index_merge_result r))) AssertFailed (
         check (list_all remote
           (compacted_data_files_imported (pr_data_compaction_result r))) AssertFailed (
         check (list_all (validate_file_indices_remote warehouse_uri)
           (compacted_indices_imported (pr_data_compaction_result r))) AssertFailed (Ok ()))))))"

section \<open>Snapshot tasks\<close>

record 'b record_batch_with_deletion_vector =
  rb_batch_id :: u64
  rb_record_batch :: 'b
  rb_deletion_vector :: "batch_deletion_vector option"

record ('b, 's, 'k, 'm) snapshot_task =
  st_config :: mooncake_table_config
  new_disk_slices :: "('b, 's, 'k, 'm) disk_slice_writer list"
  new_deletions :: "raw_deletion_record list"
  new_record_batches :: "'b record_batch_with_deletion_vector list"
  new_rows :: "shared_row_buffer_snapshot option"
  new_mem_indices :: "('s, 'k, 'm) index_ptr list"
  new_disk_file_lsn_map :: "file_id \<rightharpoonup> lsn"
  flushing_batch_lsn_map :: "u64 \<rightharpoonup> lsn"
  commit_lsn_baseline :: lsn
  prev_commit_lsn_baseline :: lsn
  new_flush_lsn :: "lsn option"
  new_largest_flush_lsn :: "lsn option"
  new_commit_point :: "record_location option"
  new_streaming_xact :: "('s, 'k, 'm) transaction_stream_output list"
  st_force_empty_persistence_payload :: bool
  st_committed_deletion_logs :: "(file_id \<times> nat) set"
  st_index_merge_result :: file_indice_merge_result
  st_compacting_data_files :: "file_id set"
  st_data_compaction_result :: data_compaction_result
  st_persisted_records :: persisted_records
  min_ongoing_flush_lsn :: lsn

definition U64_MAX :: nat where
  "U64_MAX = 2 ^ 64 - 1"

definition new_snapshot_task :: "mooncake_table_config \<Rightarrow> ('b, 's, 'k, 'm) snapshot_task" where
  "new_snapshot_task cfg =
     \<lparr>st_config = cfg, new_disk_slices = [], new_deletions = [], new_record_batches = [],
      new_rows = None, new_mem_indices = [], new_disk_file_lsn_map = Map.empty,
      flushing_batch_lsn_map = Map.empty, commit_lsn_baseline = 0, prev_commit_lsn_baseline = 0,
      new_flush_lsn = None, new_largest_flush_lsn = None, new_commit_point = None,
      new_streaming_xact = [], st_force_empty_persistence_payload = False,
      st_committed_deletion_logs = {},
      st_index_merge_result = \<lparr>fmr_uuid = 0, fmr_old_file_indices = [], fmr_new_file_indices = []\<rparr>,
      st_compacting_data_files = {},
      st_data_compaction_result =
        \<lparr>dcr_uuid = 0, dcr_remapped_data_files = [], dcr_old_data_files = [],
         dcr_new_data_files = [], dcr_old_file_indices = [], dcr_new_file_indices = [],
         dcr_evicted_files_to_delete = []\<rparr>,
      st_persisted_records = empty_persisted_records, min_ongoing_flush_lsn = U64_MAX\<rparr>"

text \<open>
  The map of new file LSNs is only filled when a snapshot integrates disk slices, so the
  first assertion fails for every task with a disk slice that is still waiting.
\<close>

definition task_is_empty :: "('b, 's, 'k, 'm) snapshot_task \<Rightarrow> bool res" where
  "task_is_empty t =
     (if new_disk_slices t \<noteq> [] then
        check (new_disk_file_lsn_map t \<noteq> Map.empty) AssertFailed (
        check (new_flush_lsn t \<noteq> None) AssertFailed (Ok False))
      else if new_deletions t \<noteq> [] then Ok False
      else if new_mem_indices t \<noteq> [] then Ok False
      else if new_streaming_xact t \<noteq> [] then Ok False
      else res_bind (file_indice_merge_result_is_empty (st_index_merge_result t)) (\<lambda>e.
        if \<not> e then Ok False
        else res_bind (compaction_result_is_empty (st_data_compaction_result t)) (\<lambda>e.
        if \<not> e then Ok False
        else persisted_records_is_empty (st_persisted_records t))))"

definition should_create_snapshot :: "('b, 's, 'k, 'm) snapshot_task \<Rightarrow> bool res" where
  "should_create_snapshot t =
     (let pr = st_persisted_records t
      in if commit_lsn_baseline t > 0 \<and> commit_lsn_baseline t \<noteq> prev_commit_lsn_baseline t
            \<or> st_force_empty_persistence_payload t
            \<or> new_streaming_xact t \<noteq> []
            \<or> new_disk_slices t \<noteq> []
            \<or> length (new_deletions t) \<ge> snapshot_deletion_record_count (st_config t)
            \<or> \<not> import_result_is_empty (pr_import_result pr)
         then Ok True
         else res_bind (index_merge_result_is_empty (pr_index_merge_result pr)) (\<lambda>e.
           if \<not> e then Ok True
           else res_bind (data_compaction_result_is_empty (pr_data_compaction_result pr)) (\<lambda>e.
           Ok (\<not> e))))"

definition get_new_data_files :: "('b, 's, 'k, 'm) snapshot_task \<Rightarrow> mooncake_data_file list" where
  "get_new_data_files t =
     concat (map (\<lambda>w. map fst (ds_files w)) (new_disk_slices t)) @
     concat (map (\<lambda>x. case x of
         StreamCommitted c \<Rightarrow> get_flushed_data_files c | StreamAborted _ \<Rightarrow> []) (new_streaming_xact t))"

definition get_new_file_indices :: "('b, 's, 'k, 'm) snapshot_task \<Rightarrow> global_index list" where
  "get_new_file_indices t =
     concat (map (\<lambda>w. case ds_new_index w of Some i \<Rightarrow> [i] | None \<Rightarrow> []) (new_disk_slices t)) @
     concat (map (\<lambda>x. case x of
         StreamCommitted c \<Rightarrow> file_indices (tsc_flushed_file_index c) | StreamAborted _ \<Rightarrow> [])
       (new_streaming_xact t))"

definition try_set_largest_flush_lsn ::
  "lsn \<Rightarrow> ('b, 's, 'k, 'm) snapshot_task \<Rightarrow> ('b, 's, 'k, 'm) snapshot_task" where
  "try_set_largest_flush_lsn flush_lsn t = (case new_largest_flush_lsn t of
       Some l \<Rightarrow> if l \<ge> flush_lsn then t else t\<lparr>new_largest_flush_lsn := Some flush_lsn\<rparr>
     | None \<Rightarrow> t\<lparr>new_largest_flush_lsn := Some flush_lsn\<rparr>)"

end
