(* ===== verification/Disk_Slice.thy ===== *)
theory Disk_Slice
  imports Snapshot_Task
begin

text \<open>
  Writing a disk slice (\<^verbatim>\<open>storage/mooncake_table/disk_slice.rs\<close>): the batches of a drained mem slice
  are filtered by their deletion vectors, written to parquet files, and the index in memory is
  remapped to the rows written. The parquet writer, the random file names and the builder of
  the file index are parameters. An error drops the writer, so that its state is not kept.
\<close>

section \<open>Model\<close>

text \<open>
  A parquet file holds the batches written to it. Creating a file, writing to it and finishing
  it may fail; \<open>pw_memory_size\<close> is the estimate that decides when a file is full and
  \<open>pw_bytes_written\<close> its size when finished.
\<close>

record 'b parquet_writer =
  pw_create :: "string \<Rightarrow> error option"
  pw_write :: "'b list \<Rightarrow> 'b \<Rightarrow> error option"
  pw_memory_size :: "'b list \<Rightarrow> nat"
  pw_finish :: "'b list \<Rightarrow> error option"
  pw_bytes_written :: "'b list \<Rightarrow> nat"
  random_file_name :: "string \<Rightarrow> nat \<Rightarrow> string"

type_synonym row_offsets = "(nat \<times> nat) option list list"

text \<open>The state of the write loop; \<open>ws_disk\<close> are the files finished on disk with their batches.\<close>

record 'b write_state =
  ws_files :: "(mooncake_data_file \<times> disk_file_attrs) list"
  ws_open :: "(mooncake_data_file \<times> 'b list) option"
  ws_file_idx :: nat
  ws_row_idx :: nat
  ws_mapping :: row_offsets
  ws_disk :: "(mooncake_data_file \<times> 'b list) list"

definition open_file ::
  "'b parquet_writer \<Rightarrow> ('b, 's, 'k, 'm) disk_slice_writer \<Rightarrow> 'b write_state \<Rightarrow>
   (error + 'b write_state) res" where
  "open_file pw w s = (case ws_open s of
       Some _ \<Rightarrow> Ok (Inr s)
     | None \<Rightarrow>
         let idx = length (ws_files s)
         in res_bind (get_unique_file_id_for_flush (ucast (table_auto_incr_id w)) (word_of_nat idx)) (\<lambda>fid.
            let data_file = create_data_file fid (random_file_name pw (ds_dir_path w) idx)
            in case pw_create pw (file_path data_file) of
                 Some e \<Rightarrow> Ok (Inl e)
               | None \<Rightarrow> Ok (Inr (s\<lparr>ws_open := Some (data_file, []), ws_file_idx := idx, ws_row_idx := 0\<rparr>))))"

fun map_rows :: "row_offsets \<Rightarrow> nat \<Rightarrow> nat \<Rightarrow> nat list \<Rightarrow> nat \<Rightarrow> (row_offsets \<times> nat) res" where
  "map_rows mp b f [] r = Ok (mp, r)"
| "map_rows mp b f (i # is) r =
     res_bind (index_res mp b) (\<lambda>offsets.
     check (i < length offsets) IndexOutOfRange (
       map_rows (mp[b := offsets[i := Some (f, r)]]) b f is (Suc r)))"

definition finish_file :: "'b parquet_writer \<Rightarrow> 'b write_state \<Rightarrow> error + 'b write_state" where
  "finish_file pw s = (case ws_open s of
       None \<Rightarrow> Inr s
     | Some (data_file, written) \<Rightarrow>
         (case pw_finish pw written of
            Some e \<Rightarrow> Inl e
          | None \<Rightarrow> Inr (s\<lparr>ws_open := None,
              ws_files := ws_files s @ [(data_file,
                \<lparr>attrs_file_size = pw_bytes_written pw written, attrs_row_num = ws_row_idx s\<rparr>)],
              ws_disk := ws_disk s @ [(data_file, written)]\<rparr>)))"

definition write_one_batch ::
  "'b parquet_writer \<Rightarrow> ('b, 's, 'k, 'm) disk_slice_writer \<Rightarrow> nat \<times> 'b \<times> nat list \<Rightarrow> 'b write_state \<Rightarrow>
   (error + 'b write_state) res" where
  "write_one_batch pw w entry s = (case entry of (batch_id, batch, row_indices) \<Rightarrow>
     try_bind (open_file pw w s) (\<lambda>s.
     res_bind (map_rows (ws_mapping s) batch_id (ws_file_idx s) row_indices (ws_row_idx s)) (\<lambda>(mp, r).
     let s = s\<lparr>ws_mapping := mp, ws_row_idx := r\<rparr>
     in unwrap (ws_open s) (\<lambda>(data_file, written).
        case pw_write pw written batch of
          Some e \<Rightarrow> Ok (Inl e)
        | None \<Rightarrow>
            let s = s\<lparr>ws_open := Some (data_file, written @ [batch])\<rparr>
            in if pw_memory_size pw (written @ [batch]) > ds_parquet_file_size w
               then Ok (finish_file pw s) else Ok (Inr s)))))"

fun write_batches ::
  "'b parquet_writer \<Rightarrow> ('b, 's, 'k, 'm) disk_slice_writer \<Rightarrow> (nat \<times> 'b \<times> nat list) list \<Rightarrow> 'b write_state \<Rightarrow>
   (error + 'b write_state) res" where
  "write_batches pw w [] s = Ok (finish_file pw s)"
| "write_batches pw w (e # es) s = try_bind (write_one_batch pw w e s) (write_batches pw w es)"

definition write_batch_to_parquet ::
  "'b parquet_writer \<Rightarrow> ('b, 's, 'k, 'm) disk_slice_writer \<Rightarrow> (nat \<times> 'b \<times> nat list) list \<Rightarrow>
   (error + ('b, 's, 'k, 'm) disk_slice_writer \<times> (mooncake_data_file \<times> 'b list) list) res" where
  "write_batch_to_parquet pw w batches =
     try_bind (write_batches pw w batches
       \<lparr>ws_files = [], ws_open = None, ws_file_idx = 0, ws_row_idx = 0,
        ws_mapping = row_offset_mapping w, ws_disk = []\<rparr>) (\<lambda>s.
     Ok (Inr (w\<lparr>ds_files := ws_files s, row_offset_mapping := ws_mapping s\<rparr>, ws_disk s)))"

text \<open>
  The filter loop of \<^verbatim>\<open>write\<close>: a batch with a row left is numbered, gets a mapping with no
  position yet, and is kept with the numbers of its live rows.
\<close>

type_synonym 'b filtered = "(nat \<times> 'b \<times> nat list) list"

fun filter_batches ::
  "('b, 'z) arrow_batches_scheme \<Rightarrow> 'b batch_entry list \<Rightarrow> 'b filtered \<Rightarrow>
   (u64 \<rightharpoonup> nat) \<Rightarrow> row_offsets \<Rightarrow> (error + 'b filtered \<times> (u64 \<rightharpoonup> nat) \<times> row_offsets) res" where
  "filter_batches ops [] acc ids mp = Ok (Inr (acc, ids, mp))"
| "filter_batches ops (e # es) acc ids mp =
     res_bind (get_filtered_batch ops (be_batch e)) (\<lambda>r. case r of
         None \<Rightarrow> Ok (Inl ''arrow'')
       | Some None \<Rightarrow> filter_batches ops es acc ids mp
       | Some (Some b) \<Rightarrow>
           unwrap (batch_data (be_batch e)) (\<lambda>data.
           let total_rows = num_rows ops data; idx = length acc
           in res_bind (collect_active_rows ops (deletions (be_batch e)) total_rows) (\<lambda>rows.
              filter_batches ops es (acc @ [(idx, b, rows)]) (ids(be_id e \<mapsto> idx))
                (mp @ [replicate total_rows None]))))"

text \<open>The builder of the file index, from the files, the directory, the entries and the file id.\<close>

type_synonym index_builder =
  "mooncake_data_file list \<Rightarrow> string \<Rightarrow> (u64 \<times> nat \<times> nat) list \<Rightarrow> u64 \<Rightarrow> error + global_index"

definition remap_index ::
  "('s, 'k, 'm) index_ops \<Rightarrow> index_builder \<Rightarrow> ('b, 's, 'k, 'm) disk_slice_writer \<Rightarrow>
   (error + ('b, 's, 'k, 'm) disk_slice_writer) res" where
  "remap_index iops build w =
     (if index_is_empty iops (snd (ds_old_index w)) then Ok (Inr w)
      else if ds_files w = [] then Ok (Inr w)
      else res_bind (remap_into_vec iops (snd (ds_old_index w)) (batch_id_to_idx w) (row_offset_mapping w)) (\<lambda>entries.
        check (length entries = sum_list (map (\<lambda>(_, a). attrs_row_num a) (ds_files w))) AssertFailed (
        res_bind (get_unique_file_id_for_flush (ucast (table_auto_incr_id w)) (word_of_nat (length (ds_files w)))) (\<lambda>fid.
        case build (map fst (ds_files w)) (ds_dir_path w) entries fid of
          Inl e \<Rightarrow> Ok (Inl e)
        | Inr i \<Rightarrow> Ok (Inr (w\<lparr>ds_new_index := Some i\<rparr>))))))"

definition write_slice ::
  "('b, 'z) arrow_batches_scheme \<Rightarrow> ('s, 'k, 'm) index_ops \<Rightarrow> 'b parquet_writer \<Rightarrow> index_builder \<Rightarrow>
   ('b, 's, 'k, 'm) disk_slice_writer \<Rightarrow>
   (error + ('b, 's, 'k, 'm) disk_slice_writer \<times> (mooncake_data_file \<times> 'b list) list) res" where
  "write_slice ops iops pw build w =
     try_bind (filter_batches ops (ds_batches w) [] (batch_id_to_idx w) (row_offset_mapping w)) (\<lambda>(filtered, ids, mp).
     try_bind (write_batch_to_parquet pw (w\<lparr>batch_id_to_idx := ids, row_offset_mapping := mp\<rparr>) filtered) (\<lambda>(w, disk).
     try_bind (remap_index iops build w) (\<lambda>w. Ok (Inr (w, disk)))))"

section \<open>Positions in a list of files\<close>

text \<open>All positions, file by file and row by row, of the rows \<open>cs\<close> of the files.\<close>

definition posns :: "'r list list \<Rightarrow> (nat \<times> nat) list" where
  "posns cs = concat (map (\<lambda>f. map (Pair f) [0..<length (cs ! f)]) [0..<length cs])"

lemma posns_Nil [simp]: "posns [] = []"
  by (simp add: posns_def)

lemma posns_snoc: "posns (cs @ [c]) = posns cs @ map (Pair (length cs)) [0..<length c]"
proof -
  have "map (\<lambda>f. map (Pair f) [0..<length ((cs @ [c]) ! f)]) [0..<length cs]
      = map (\<lambda>f. map (Pair f) [0..<length (cs ! f)]) [0..<length cs]"
    by (rule map_cong) (auto simp: nth_append)
  then show ?thesis by (simp add: posns_def del: map_eq_conv)
qed

lemma posns_extend:
  "posns (cs @ [xs @ ys]) = posns (cs @ [xs]) @ map (Pair (length cs)) [length xs..<length xs + length ys]"
proof -
  have "[0..<length xs + length ys] = [0..<length xs] @ [length xs..<length xs + length ys]"
    using upt_add_eq_append[of 0 "length xs" "length ys"] by simp
  then show ?thesis by (simp add: posns_snoc)
qed

lemma read_posns: "map (\<lambda>(f, r). cs ! f ! r) (posns cs) = concat cs"
proof (induction cs rule: rev_induct)
  case (snoc c cs)
  have "(f, r) \<in> set (posns cs) \<Longrightarrow> f < length cs" for f r by (auto simp: posns_def)
  then have "map (\<lambda>(f, r). (cs @ [c]) ! f ! r) (posns cs) = map (\<lambda>(f, r). cs ! f ! r) (posns cs)"
    by (intro map_cong) (auto simp: nth_append)
  then show ?case by (simp add: posns_snoc snoc comp_def map_nth)
qed simp

lemma set_posns: "set (posns cs) = {(f, r). f < length cs \<and> r < length (cs ! f)}"
  by (auto simp: posns_def)

lemma length_posns: "length (posns cs) = sum_list (map length cs)"
  by (induction cs rule: rev_induct) (simp_all add: posns_snoc)

lemma distinct_posns: "distinct (posns cs)"
proof (induction cs rule: rev_induct)
  case (snoc c cs)
  have "distinct (map (Pair (length cs)) [0..<length c])" by (simp add: distinct_map inj_on_def)
  moreover have "set (posns cs) \<inter> set (map (Pair (length cs)) [0..<length c]) = {}"
    by (auto simp: set_posns)
  ultimately show ?case using snoc by (simp add: posns_snoc)
qed simp

section \<open>The write loop\<close>

lemma map_rows_spec:
  assumes "b < length mp" and "distinct is" and "\<forall>i \<in> set is. i < length (mp ! b)"
  shows "\<exists>mp'. map_rows mp b f is r = Ok (mp', r + length is) \<and> length mp' = length mp
    \<and> (\<forall>c < length mp. c \<noteq> b \<longrightarrow> mp' ! c = mp ! c) \<and> length (mp' ! b) = length (mp ! b)
    \<and> map (\<lambda>i. mp' ! b ! i) is = map (\<lambda>k. Some (f, k)) [r..<r + length is]
    \<and> (\<forall>i < length (mp ! b). i \<notin> set is \<longrightarrow> mp' ! b ! i = mp ! b ! i)"
  using assms
proof (induction "is" arbitrary: mp r)
  case Nil
  then show ?case by simp
next
  case (Cons i "is")
  let ?mp = "mp[b := (mp ! b)[i := Some (f, r)]]"
  obtain mp' where IH: "map_rows ?mp b f is (Suc r) = Ok (mp', Suc r + length is)" "length mp' = length mp"
    "\<forall>c < length mp. c \<noteq> b \<longrightarrow> mp' ! c = ?mp ! c" "length (mp' ! b) = length (mp ! b)"
    "map (\<lambda>i. mp' ! b ! i) is = map (\<lambda>k. Some (f, k)) [Suc r..<Suc r + length is]"
    "\<forall>j < length (mp ! b). j \<notin> set is \<longrightarrow> mp' ! b ! j = ?mp ! b ! j"
    using Cons.IH[of ?mp "Suc r"] Cons.prems by auto
  have i: "mp' ! b ! i = Some (f, r)" using IH(6) Cons.prems by simp
  have upt: "[r..<r + length (i # is)] = r # [Suc r..<Suc r + length is]"
    by (subst upt_conv_Cons) simp_all
  have "map_rows mp b f (i # is) r = Ok (mp', r + length (i # is))"
    using IH(1) Cons.prems by (simp add: index_res_def)
  moreover have "map (\<lambda>i. mp' ! b ! i) (i # is) = map (\<lambda>k. Some (f, k)) [r..<r + length (i # is)]"
    unfolding upt using IH(5) i by simp
  moreover have "\<forall>c < length mp. c \<noteq> b \<longrightarrow> mp' ! c = mp ! c" using IH(3) by simp
  moreover have "\<forall>j < length (mp ! b). j \<notin> set (i # is) \<longrightarrow> mp' ! b ! j = mp ! b ! j"
    using IH(6) Cons.prems(1) by simp
  ultimately show ?case using IH(2,4) by auto
qed

lemma flush_file_id:
  assumes "k < 100"
  shows "\<exists>fid. get_unique_file_id_for_flush (ucast (x :: u32)) (word_of_nat k) = Ok fid
    \<and> unat fid = 10000000000000000 + unat x * 100 + k"
proof -
  let ?x = "ucast x :: u64"
  have bound: "unat x < 2 ^ 32" using unsigned_less[of x, where ?'a = nat] by simp
  have ux: "unat ?x = unat x" using bound by (simp add: unsigned_ucast_eq take_bit_nat_eq_self_iff)
  have k: "unat (word_of_nat k :: u64) = k" using assms by (simp add: unat_of_nat)
  have lt: "(word_of_nat k :: u64) < NUM_FILES_PER_FLUSH"
    using assms by (simp add: word_less_nat_alt k NUM_FILES_PER_FLUSH_def)
  have c: "unat NUM_FILES_PER_FLUSH = 100" "unat LOCAL_FILE_ID_BASE = 10000000000000000"
    by (simp_all add: NUM_FILES_PER_FLUSH_def LOCAL_FILE_ID_BASE_def)
  have m: "unat (?x * NUM_FILES_PER_FLUSH) = unat x * 100"
    using bound by (subst unat_mult_lem[THEN iffD1]) (simp_all add: c ux)
  have a: "unat (LOCAL_FILE_ID_BASE + ?x * NUM_FILES_PER_FLUSH) = 10000000000000000 + unat x * 100"
    using bound by (subst unat_add_lem[THEN iffD1]) (simp_all add: c m)
  have b: "unat (LOCAL_FILE_ID_BASE + ?x * NUM_FILES_PER_FLUSH + word_of_nat k)
      = 10000000000000000 + unat x * 100 + k"
    using bound assms by (subst unat_add_lem[THEN iffD1]) (simp_all add: a k)
  have "get_unique_file_id_for_flush ?x (word_of_nat k)
      = Ok (LOCAL_FILE_ID_BASE + ?x * NUM_FILES_PER_FLUSH + word_of_nat k)"
    using bound assms lt
    by (simp add: get_unique_file_id_for_flush_def checked_mul_def checked_add_def c ux m a k)
  with b show ?thesis by blast
qed

text \<open>
  The invariant of the loop over the batches \<open>done\<close> written so far: in the order of the batches,
  their live rows are mapped to all positions of the files, and the files hold their rows.
\<close>

definition file_rows :: "('b \<Rightarrow> 'r list) \<Rightarrow> mooncake_data_file \<times> 'b list \<Rightarrow> 'r list" where
  "file_rows rows p = concat (map rows (snd p))"

definition contents :: "'b write_state \<Rightarrow> (mooncake_data_file \<times> 'b list) list" where
  "contents s = ws_disk s @ (case ws_open s of None \<Rightarrow> [] | Some p \<Rightarrow> [p])"

definition mapped :: "row_offsets \<Rightarrow> (nat \<times> 'b \<times> nat list) list \<Rightarrow> (nat \<times> nat) option list" where
  "mapped mp done = concat (map (\<lambda>(b, _, is). map (\<lambda>i. mp ! b ! i) is) done)"

definition numbered :: "u32 \<Rightarrow> (mooncake_data_file \<times> 'b list) list \<Rightarrow> bool" where
  "numbered x fs \<longleftrightarrow> (\<forall>k < length fs. \<exists>fid. file_id (fst (fs ! k)) = FileId fid
     \<and> unat fid = 10000000000000000 + unat x * 100 + k)"

definition ws_inv ::
  "('b \<Rightarrow> 'r list) \<Rightarrow> u32 \<Rightarrow> (nat \<times> 'b \<times> nat list) list \<Rightarrow> 'b write_state \<Rightarrow> bool" where
  "ws_inv rows x done s \<longleftrightarrow>
     map fst (ws_files s) = map fst (ws_disk s)
     \<and> map (\<lambda>p. attrs_row_num (snd p)) (ws_files s) = map (\<lambda>p. length (file_rows rows p)) (ws_disk s)
     \<and> (\<forall>p. ws_open s = Some p \<longrightarrow>
          ws_file_idx s = length (ws_disk s) \<and> ws_row_idx s = length (file_rows rows p))
     \<and> numbered x (contents s) \<and> length (contents s) \<le> length done
     \<and> mapped (ws_mapping s) done = map Some (posns (map (file_rows rows) (contents s)))
     \<and> concat (map (\<lambda>(_, c, _). rows c) done) = concat (map (file_rows rows) (contents s))"

lemma ws_inv_files: "ws_inv rows x done s \<Longrightarrow> length (ws_files s) = length (ws_disk s)"
  by (metis ws_inv_def length_map)

lemma numbered_snoc:
  "numbered x (fs @ [p]) \<longleftrightarrow> numbered x fs \<and> (\<exists>fid. file_id (fst p) = FileId fid
     \<and> unat fid = 10000000000000000 + unat x * 100 + length fs)"
  by (auto simp: numbered_def nth_append less_Suc_eq)

lemma numbered_contents:
  "numbered x (fs @ [(f, a)]) \<longleftrightarrow> numbered x (fs @ [(f, b)])"
  by (simp add: numbered_snoc)

lemma finish_file_inv:
  assumes "ws_inv rows x done s" and "finish_file pw s = Inr t"
  shows "ws_inv rows x done t \<and> ws_open t = None \<and> ws_mapping t = ws_mapping s"
proof (cases "ws_open s")
  case None
  then show ?thesis using assms by (simp add: finish_file_def)
next
  case (Some p)
  obtain f written where p: "p = (f, written)" by (cases p)
  have t: "t = s\<lparr>ws_open := None,
      ws_files := ws_files s @ [(f, \<lparr>attrs_file_size = pw_bytes_written pw written, attrs_row_num = ws_row_idx s\<rparr>)],
      ws_disk := ws_disk s @ [(f, written)]\<rparr>"
    using assms(2) Some p by (simp add: finish_file_def split: option.splits)
  have c: "contents t = contents s" using Some p by (simp add: t contents_def)
  show ?thesis
    using assms(1) Some p unfolding ws_inv_def c by (simp add: t)
qed

lemma open_file_inv:
  assumes "ws_inv rows x done s" and "table_auto_incr_id w = x" and "length (ws_files s) < 100"
  shows "\<exists>r. open_file pw w s = Ok r \<and> (\<forall>t. r = Inr t \<longrightarrow>
    ws_mapping t = ws_mapping s \<and> ws_disk t = ws_disk s \<and> ws_files t = ws_files s
    \<and> (\<exists>p. ws_open t = Some p
        \<and> ws_file_idx t = length (ws_disk s) \<and> ws_row_idx t = length (file_rows rows p)
        \<and> numbered x (ws_disk s @ [p]) \<and> (ws_open s = None \<longrightarrow> snd p = []) \<and> (ws_open s \<noteq> None \<longrightarrow> t = s)))"
proof (cases "ws_open s")
  case (Some p)
  then show ?thesis using assms(1) by (cases p) (auto simp: open_file_def ws_inv_def contents_def)
next
  case None
  let ?k = "length (ws_files s)"
  obtain fid where fid: "get_unique_file_id_for_flush (ucast x) (word_of_nat ?k) = Ok fid"
    "unat fid = 10000000000000000 + unat x * 100 + ?k"
    using flush_file_id[OF assms(3)] by blast
  have "numbered x (ws_disk s)" using assms(1) None by (simp add: ws_inv_def contents_def)
  then have "numbered x (ws_disk s @ [(create_data_file fid path, [])])" for path
    using fid(2) ws_inv_files[OF assms(1)] by (auto simp: numbered_snoc create_data_file_def)
  then show ?thesis
    using fid(1) None assms(2) ws_inv_files[OF assms(1)]
    by (auto simp: open_file_def Let_def file_rows_def split: option.splits)
qed

lemma mapped_cong:
  "(\<And>b c is i. (b, c, is) \<in> set done \<Longrightarrow> i \<in> set is \<Longrightarrow> mp ! b ! i = mp' ! b ! i) \<Longrightarrow>
   mapped mp done = mapped mp' done"
  unfolding mapped_def by (rule arg_cong[of _ _ concat], rule map_cong) auto

text \<open>What a step may change in the mapping: the rows of its own batch.\<close>

definition mapping_step :: "nat \<Rightarrow> nat list \<Rightarrow> row_offsets \<Rightarrow> row_offsets \<Rightarrow> bool" where
  "mapping_step b is mp mp' \<longleftrightarrow> length mp' = length mp \<and> length (mp' ! b) = length (mp ! b)
     \<and> (\<forall>c < length mp. c \<noteq> b \<longrightarrow> mp' ! c = mp ! c)
     \<and> (\<forall>i < length (mp ! b). i \<notin> set is \<longrightarrow> mp' ! b ! i = mp ! b ! i)"

lemma written_inv:
  assumes inv: "ws_inv rows x done s" and len: "length is = length (rows c)"
    and b: "b < length (ws_mapping s)" "distinct is" "\<forall>i \<in> set is. i < length (ws_mapping s ! b)"
    and fresh: "\<forall>(b', _, _) \<in> set done. b' \<noteq> b \<and> b' < length (ws_mapping s)"
    and t: "ws_mapping t = ws_mapping s" "ws_disk t = ws_disk s" "ws_files t = ws_files s" "ws_open t = Some (f, bs)"
      "ws_file_idx t = length (ws_disk s)" "ws_row_idx t = length (file_rows rows (f, bs))"
      "numbered x (ws_disk s @ [(f, bs)])" "ws_open s = None \<longrightarrow> bs = []" "ws_open s \<noteq> None \<longrightarrow> t = s"
  shows "\<exists>mp. map_rows (ws_mapping t) b (ws_file_idx t) is (ws_row_idx t) = Ok (mp, ws_row_idx t + length is)
    \<and> mapping_step b is (ws_mapping s) mp
    \<and> ws_inv rows x (done @ [(b, c, is)])
        (t\<lparr>ws_mapping := mp, ws_row_idx := ws_row_idx t + length is, ws_open := Some (f, bs @ [c])\<rparr>)"
proof -
  let ?cs = "map (file_rows rows) (ws_disk s)" and ?xs = "file_rows rows (f, bs)"
  have c: "map (file_rows rows) (contents s) = ?cs @ [?xs] \<or> (ws_open s = None \<and> ?xs = []
      \<and> map (file_rows rows) (contents s) = ?cs)"
    using t(4,8,9) by (cases "ws_open s") (auto simp: contents_def file_rows_def)
  have pos: "posns (map (file_rows rows) (contents s)) = posns (?cs @ [?xs])"
    and rws: "concat (map (file_rows rows) (contents s)) = concat ?cs @ ?xs"
    using c by (auto simp: posns_snoc)
  have cnt: "length (contents s) \<le> length done" "length (ws_disk s) \<le> length (contents s)"
    using inv by (simp_all add: ws_inv_def contents_def)
  obtain mp where mp: "map_rows (ws_mapping s) b (ws_file_idx t) is (ws_row_idx t) = Ok (mp, ws_row_idx t + length is)"
    "length mp = length (ws_mapping s)" "\<forall>c < length (ws_mapping s). c \<noteq> b \<longrightarrow> mp ! c = ws_mapping s ! c"
    "length (mp ! b) = length (ws_mapping s ! b)"
    "map (\<lambda>i. mp ! b ! i) is = map (\<lambda>k. Some (ws_file_idx t, k)) [ws_row_idx t..<ws_row_idx t + length is]"
    "\<forall>i < length (ws_mapping s ! b). i \<notin> set is \<longrightarrow> mp ! b ! i = ws_mapping s ! b ! i"
    using map_rows_spec[OF b(1,2,3), of "ws_file_idx t" "ws_row_idx t"] by blast
  have same: "mapped mp done = mapped (ws_mapping s) done"
    by (rule mapped_cong) (use mp(3) fresh in force)
  have "mapped mp (done @ [(b, c, is)])
      = map Some (posns (?cs @ [?xs])) @ map (\<lambda>k. Some (ws_file_idx t, k)) [ws_row_idx t..<ws_row_idx t + length is]"
    using inv mp(5) same pos by (simp add: mapped_def ws_inv_def)
  also have "\<dots> = map Some (posns (?cs @ [?xs @ rows c]))"
    by (simp add: posns_extend t(5,6) len)
  finally have m: "mapped mp (done @ [(b, c, is)]) = map Some (posns (?cs @ [?xs @ rows c]))" .
  let ?t = "t\<lparr>ws_mapping := mp, ws_row_idx := ws_row_idx t + length is, ws_open := Some (f, bs @ [c])\<rparr>"
  have ct: "contents ?t = ws_disk s @ [(f, bs @ [c])]" by (simp add: contents_def t(2))
  have "file_rows rows (f, bs @ [c]) = ?xs @ rows c" by (simp add: file_rows_def)
  then have "ws_inv rows x (done @ [(b, c, is)]) ?t"
    using inv m rws cnt t(2,3,5,6,7) len numbered_contents[of x "ws_disk s" f bs "bs @ [c]"]
    unfolding ws_inv_def ct by simp
  then show ?thesis using mp t(1) unfolding mapping_step_def by auto
qed

lemma write_one_batch_inv:
  assumes inv: "ws_inv rows x done s" and w: "table_auto_incr_id w = x" and len: "length is = length (rows c)"
    and b: "b < length (ws_mapping s)" "distinct is" "\<forall>i \<in> set is. i < length (ws_mapping s ! b)"
    and fresh: "\<forall>(b', _, _) \<in> set done. b' \<noteq> b \<and> b' < length (ws_mapping s)" and room: "length done < 100"
  shows "\<exists>r. write_one_batch pw w (b, c, is) s = Ok r \<and> (\<forall>t. r = Inr t \<longrightarrow>
    ws_inv rows x (done @ [(b, c, is)]) t \<and> mapping_step b is (ws_mapping s) (ws_mapping t))"
proof -
  have "length (ws_files s) < 100"
    using inv room ws_inv_files[OF inv] by (simp add: ws_inv_def contents_def)
  then obtain r where r: "open_file pw w s = Ok r" and r_ok: "\<And>t. r = Inr t \<Longrightarrow>
      ws_mapping t = ws_mapping s \<and> ws_disk t = ws_disk s \<and> ws_files t = ws_files s
      \<and> (\<exists>p. ws_open t = Some p
        \<and> ws_file_idx t = length (ws_disk s) \<and> ws_row_idx t = length (file_rows rows p)
        \<and> numbered x (ws_disk s @ [p]) \<and> (ws_open s = None \<longrightarrow> snd p = []) \<and> (ws_open s \<noteq> None \<longrightarrow> t = s))"
    using open_file_inv[OF inv w, of pw] by blast
  show ?thesis
  proof (cases r)
    case (Inl e)
    then show ?thesis using r by (simp add: write_one_batch_def)
  next
    case (Inr t)
    obtain f bs where t: "ws_mapping t = ws_mapping s" "ws_disk t = ws_disk s" "ws_files t = ws_files s"
      "ws_open t = Some (f, bs)" "ws_file_idx t = length (ws_disk s)"
      "ws_row_idx t = length (file_rows rows (f, bs))" "numbered x (ws_disk s @ [(f, bs)])"
      "ws_open s = None \<longrightarrow> bs = []" "ws_open s \<noteq> None \<longrightarrow> t = s"
      using r_ok[OF Inr] by auto
    obtain mp where mp: "map_rows (ws_mapping t) b (ws_file_idx t) is (ws_row_idx t) = Ok (mp, ws_row_idx t + length is)"
      "mapping_step b is (ws_mapping s) mp"
      and inv': "ws_inv rows x (done @ [(b, c, is)])
        (t\<lparr>ws_mapping := mp, ws_row_idx := ws_row_idx t + length is, ws_open := Some (f, bs @ [c])\<rparr>)"
      using written_inv[where rows = rows, OF inv len b fresh t] by blast
    show ?thesis
      using r Inr t(4) mp inv' finish_file_inv[OF inv', of pw]
      by (auto simp: write_one_batch_def Let_def split: option.splits)
  qed
qed

definition same_outside :: "(nat \<times> 'b \<times> nat list) list \<Rightarrow> row_offsets \<Rightarrow> row_offsets \<Rightarrow> bool" where
  "same_outside es mp mp' \<longleftrightarrow> length mp' = length mp
     \<and> (\<forall>b < length mp. length (mp' ! b) = length (mp ! b)
         \<and> (\<forall>i < length (mp ! b). (\<forall>c is. (b, c, is) \<in> set es \<longrightarrow> i \<notin> set is) \<longrightarrow> mp' ! b ! i = mp ! b ! i))"

lemma same_outside_step:
  assumes "mapping_step b is mp mp'" and "same_outside es mp' mp''"
  shows "same_outside ((b, c, is) # es) mp mp''"
  unfolding same_outside_def
proof (intro conjI allI impI)
  show "length mp'' = length mp" using assms by (simp add: mapping_step_def same_outside_def)
next
  fix k assume k: "k < length mp"
  then have "length (mp' ! k) = length (mp ! k)" using assms(1) by (cases "k = b") (auto simp: mapping_step_def)
  then show l: "length (mp'' ! k) = length (mp ! k)"
    using assms k by (simp add: mapping_step_def same_outside_def)
next
  fix k i assume k: "k < length mp" "i < length (mp ! k)"
    and out: "\<forall>c' is'. (k, c', is') \<in> set ((b, c, is) # es) \<longrightarrow> i \<notin> set is'"
  have l: "length mp' = length mp" "length (mp' ! k) = length (mp ! k)"
    using assms(1) k by (cases "k = b"; simp add: mapping_step_def)+
  have "mp' ! k ! i = mp ! k ! i"
    using assms(1) k out by (cases "k = b") (auto simp: mapping_step_def)
  moreover have "mp'' ! k ! i = mp' ! k ! i"
    using assms(2) k l out unfolding same_outside_def by simp
  ultimately show "mp'' ! k ! i = mp ! k ! i" by simp
qed

lemma write_batches_inv:
  assumes "ws_inv rows x done s" and "table_auto_incr_id w = x" and "distinct (map fst (done @ es))"
    and "\<forall>(b, c, is) \<in> set (done @ es). b < length (ws_mapping s)"
    and "\<forall>(b, c, is) \<in> set es. distinct is \<and> (\<forall>i \<in> set is. i < length (ws_mapping s ! b)) \<and> length is = length (rows c)"
    and "length (done @ es) \<le> 100"
  shows "\<exists>r. write_batches pw w es s = Ok r \<and> (\<forall>t. r = Inr t \<longrightarrow> ws_inv rows x (done @ es) t \<and> ws_open t = None
    \<and> same_outside es (ws_mapping s) (ws_mapping t))"
  using assms
proof (induction es arbitrary: "done" s)
  case Nil
  show ?case
    using finish_file_inv[OF Nil(1), of pw] by (auto simp: same_outside_def)
next
  case (Cons e es)
  obtain b c "is" where e: "e = (b, c, is)" by (cases e)
  have len: "length is = length (rows c)" and dist: "distinct is" and rng: "\<forall>i \<in> set is. i < length (ws_mapping s ! b)"
    using Cons.prems(5) e by auto
  have b: "b < length (ws_mapping s)" using Cons.prems(4) e by auto
  have fresh: "\<forall>(b', _, _) \<in> set done. b' \<noteq> b \<and> b' < length (ws_mapping s)"
    using Cons.prems(3,4) e by force
  obtain r where r: "write_one_batch pw w e s = Ok r" and r_ok: "\<And>t. r = Inr t \<Longrightarrow>
      ws_inv rows x (done @ [e]) t \<and> mapping_step b is (ws_mapping s) (ws_mapping t)"
    using write_one_batch_inv[where rows = rows, OF Cons.prems(1,2) len b dist rng fresh, of pw] Cons.prems(6) e by auto
  show ?case
  proof (cases r)
    case (Inl a)
    then show ?thesis using r by simp
  next
    case (Inr t)
    note t = r_ok[OF Inr]
    have lt: "length (ws_mapping t) = length (ws_mapping s)" using t by (simp add: mapping_step_def)
    have other: "\<forall>(b', c', is') \<in> set es. distinct is' \<and> (\<forall>i \<in> set is'. i < length (ws_mapping t ! b'))
        \<and> length is' = length (rows c')"
    proof (rule ballI, clarify)
      fix b' c' is' assume m: "(b', c', is') \<in> set es"
      have "b' \<noteq> b" using Cons.prems(3) e m by force
      moreover have "b' < length (ws_mapping s)" using Cons.prems(4) m by auto
      ultimately have "ws_mapping t ! b' = ws_mapping s ! b'" using t by (simp add: mapping_step_def)
      moreover have "distinct is' \<and> (\<forall>i \<in> set is'. i < length (ws_mapping s ! b')) \<and> length is' = length (rows c')"
        using bspec[OF Cons.prems(5), of "(b', c', is')"] m by simp
      ultimately show "distinct is' \<and> (\<forall>i \<in> set is'. i < length (ws_mapping t ! b')) \<and> length is' = length (rows c')"
        by simp
    qed
    obtain q where q: "write_batches pw w es t = Ok q" and q_ok: "\<And>u. q = Inr u \<Longrightarrow>
        ws_inv rows x ((done @ [e]) @ es) u \<and> ws_open u = None \<and> same_outside es (ws_mapping t) (ws_mapping u)"
      using Cons.IH[of "done @ [e]" t] t lt other Cons.prems(2-4,6) by auto
    have "same_outside (e # es) (ws_mapping s) (ws_mapping u)" if "q = Inr u" for u
      unfolding e by (rule same_outside_step[OF conjunct2[OF t] conjunct2[OF conjunct2[OF q_ok[OF that]]]])
    then show ?thesis using r Inr q q_ok by simp
  qed
qed

section \<open>The filter loop\<close>

definition live_idx :: "('b \<Rightarrow> 'r list) \<Rightarrow> 'b batch_entry \<Rightarrow> nat list" where
  "live_idx rows e = (case batch_data (be_batch e) of
       None \<Rightarrow> [] | Some b \<Rightarrow> filter (\<lambda>i. i \<notin> deleted_rows (deletions (be_batch e))) [0..<length (rows b)])"

definition entry_rows :: "('b \<Rightarrow> 'r list) \<Rightarrow> 'b batch_entry \<Rightarrow> 'r list" where
  "entry_rows rows e = (case batch_data (be_batch e) of None \<Rightarrow> [] | Some b \<Rightarrow> rows b)"

definition kept :: "('b \<Rightarrow> 'r list) \<Rightarrow> 'b batch_entry list \<Rightarrow> 'b batch_entry list" where
  "kept rows es = filter (\<lambda>e. live_idx rows e \<noteq> []) es"

definition drained :: "('b \<Rightarrow> 'r list) \<Rightarrow> 'b batch_entry \<Rightarrow> bool" where
  "drained rows e \<longleftrightarrow> batch_data (be_batch e) \<noteq> None \<and> dv_wf (deletions (be_batch e))
     \<and> length (entry_rows rows e) \<le> max_rows (deletions (be_batch e))"

lemma get_filtered_batch_spec:
  assumes "arrow_batches_ok ops rows" and "drained rows e"
  shows "\<exists>c. rows c = map ((!) (entry_rows rows e)) (live_idx rows e)
    \<and> get_filtered_batch ops (be_batch e) = Ok (Some (if live_idx rows e = [] then None else Some c))"
proof -
  obtain d where d: "batch_data (be_batch e) = Some d" using assms(2) by (auto simp: drained_def)
  obtain c where c: "apply_to_batch_with_slice ops (deletions (be_batch e)) d 0 = Ok (Some c)"
    "rows c = map ((!) (rows d)) (filter (\<lambda>k. 0 + k \<notin> deleted_rows (deletions (be_batch e))) [0..<length (rows d)])"
    using apply_to_batch_keeps_active[OF assms(1), of "deletions (be_batch e)" 0 d] assms(2) d
    by (auto simp: drained_def entry_rows_def)
  have "rows c = map ((!) (entry_rows rows e)) (live_idx rows e)"
    using c(2) d by (simp add: entry_rows_def live_idx_def)
  moreover have "num_rows ops c = length (rows c)" using assms(1) by (simp add: arrow_batches_ok_def)
  ultimately show ?thesis
    using c(1) d by (auto simp: get_filtered_batch_def apply_to_batch_def)
qed

text \<open>The numbering the loop gives the kept batches from \<open>n\<close> on.\<close>

fun numbering :: "nat \<Rightarrow> 'b batch_entry list \<Rightarrow> (u64 \<rightharpoonup> nat)" where
  "numbering n [] = Map.empty"
| "numbering n (e # es) = [be_id e \<mapsto> n] ++ numbering (Suc n) es"

lemma filter_batches_spec:
  assumes "arrow_batches_ok ops rows" and "\<forall>e \<in> set es. drained rows e"
  shows "\<exists>cs. list_all2 (\<lambda>c e. rows c = map ((!) (entry_rows rows e)) (live_idx rows e)) cs (kept rows es)
    \<and> filter_batches ops es acc ids mp = Ok (Inr (
        acc @ zip [length acc..<length acc + length (kept rows es)] (zip cs (map (live_idx rows) (kept rows es))),
        ids ++ numbering (length acc) (kept rows es),
        mp @ map (\<lambda>e. replicate (length (entry_rows rows e)) None) (kept rows es)))"
  using assms(2)
proof (induction es arbitrary: acc ids mp)
  case Nil
  then show ?case by (simp add: kept_def)
next
  case (Cons e es)
  obtain c where c: "rows c = map ((!) (entry_rows rows e)) (live_idx rows e)"
    "get_filtered_batch ops (be_batch e) = Ok (Some (if live_idx rows e = [] then None else Some c))"
    using get_filtered_batch_spec[OF assms(1)] Cons.prems by (meson list.set_intros(1))
  obtain d where d: "batch_data (be_batch e) = Some d" using Cons.prems by (auto simp: drained_def)
  have n: "num_rows ops d = length (rows d)" using assms(1) by (simp add: arrow_batches_ok_def)
  have act: "collect_active_rows ops (deletions (be_batch e)) (length (rows d)) = Ok (live_idx rows e)"
    using collect_active_rows_filter[of ops "deletions (be_batch e)" "length (rows d)"] assms(1) Cons.prems d
    by (simp add: arrow_batches_ok_def drained_def entry_rows_def live_idx_def)
  show ?case
  proof (cases "live_idx rows e = []")
    case True
    then show ?thesis using Cons c(2) by (simp add: kept_def)
  next
    case False
    let ?acc = "acc @ [(length acc, c, live_idx rows e)]"
    have rest: "\<forall>e \<in> set es. drained rows e" using Cons.prems by simp
    obtain cs where cs: "list_all2 (\<lambda>c e. rows c = map ((!) (entry_rows rows e)) (live_idx rows e)) cs (kept rows es)"
      "filter_batches ops es ?acc (ids(be_id e \<mapsto> length acc)) (mp @ [replicate (length (rows d)) None]) = Ok (Inr (
        ?acc @ zip [length ?acc..<length ?acc + length (kept rows es)] (zip cs (map (live_idx rows) (kept rows es))),
        ids(be_id e \<mapsto> length acc) ++ numbering (length ?acc) (kept rows es),
        (mp @ [replicate (length (rows d)) None]) @ map (\<lambda>e. replicate (length (entry_rows rows e)) None) (kept rows es)))"
      using Cons.IH[OF rest, of ?acc "ids(be_id e \<mapsto> length acc)" "mp @ [replicate (length (rows d)) None]"] by blast
    have k: "kept rows (e # es) = e # kept rows es" using False by (simp add: kept_def)
    have u: "[length acc..<Suc (length acc + length (kept rows es))]
        = length acc # [Suc (length acc)..<Suc (length acc + length (kept rows es))]"
      by (subst upt_conv_Cons) simp_all
    show ?thesis
      unfolding k
      by (rule exI[of _ "c # cs"])
        (use cs c False d n act in \<open>simp add: u Let_def entry_rows_def del: upt_Suc\<close>)
  qed
qed

section \<open>Where the rows of a slice go\<close>

lemma numbering_Some:
  "distinct (map be_id es) \<Longrightarrow> j < length es \<Longrightarrow> numbering n es (be_id (es ! j)) = Some (n + j)"
proof (induction es arbitrary: n j)
  case (Cons e es)
  show ?case
  proof (cases j)
    case 0
    have "numbering (Suc n) es (be_id e) = None"
      if "be_id e \<notin> be_id ` set es" for n
      using that by (induction es arbitrary: n) (auto simp: map_add_def)
    then show ?thesis using 0 Cons.prems(1) by (simp add: map_add_def)
  next
    case (Suc k)
    then show ?thesis using Cons.IH[of k "Suc n"] Cons.prems by (simp add: map_add_def)
  qed
qed simp

lemma numbering_None: "k \<notin> be_id ` set es \<Longrightarrow> numbering n es k = None"
  by (induction es arbitrary: n) (auto simp: map_add_def)

lemma list_match:
  assumes "map a xs = map Some ys" and "map c xs = map d ys" and "x \<in> set xs"
  shows "\<exists>y \<in> set ys. a x = Some y \<and> c x = d y"
proof -
  obtain p where p: "p < length xs" "xs ! p = x" using assms(3) by (auto simp: in_set_conv_nth)
  have l: "length xs = length ys" using assms(1) by (metis length_map)
  have "a x = Some (ys ! p)" "c x = d (ys ! p)"
    using p l assms(1,2) by (metis nth_map)+
  then show ?thesis using p l by auto
qed

text \<open>The batch and row numbers of the rows written, in order.\<close>

definition live_pairs :: "('b \<Rightarrow> 'r list) \<Rightarrow> 'b batch_entry list \<Rightarrow> (nat \<times> nat) list" where
  "live_pairs rows es = concat (map (\<lambda>j. map (Pair j) (live_idx rows (es ! j))) [0..<length es])"

lemma live_pairs_snoc:
  "live_pairs rows (es @ [e]) = live_pairs rows es @ map (Pair (length es)) (live_idx rows e)"
proof -
  have "map (\<lambda>j. map (Pair j) (live_idx rows ((es @ [e]) ! j))) [0..<length es]
      = map (\<lambda>j. map (Pair j) (live_idx rows (es ! j))) [0..<length es]"
    by (rule map_cong) (auto simp: nth_append)
  then show ?thesis by (simp add: live_pairs_def del: map_eq_conv)
qed

lemma live_pairs_rows:
  "map (\<lambda>(j, i). entry_rows rows (es ! j) ! i) (live_pairs rows es)
   = concat (map (\<lambda>e. map ((!) (entry_rows rows e)) (live_idx rows e)) es)"
proof (induction es rule: rev_induct)
  case (snoc e es)
  have "(j, i) \<in> set (live_pairs rows es) \<Longrightarrow> j < length es" for j i by (auto simp: live_pairs_def)
  then have "map (\<lambda>(j, i). entry_rows rows ((es @ [e]) ! j) ! i) (live_pairs rows es)
      = map (\<lambda>(j, i). entry_rows rows (es ! j) ! i) (live_pairs rows es)"
    by (intro map_cong) (auto simp: nth_append)
  then show ?case by (simp add: live_pairs_snoc snoc comp_def)
qed (simp add: live_pairs_def)

lemma mapped_pairs:
  assumes "length cs = length es"
  shows "mapped mp (zip [0..<length es] (zip cs (map (live_idx rows) es)))
    = map (\<lambda>(j, i). mp ! j ! i) (live_pairs rows es)"
  using assms
proof (induction es arbitrary: cs rule: rev_induct)
  case (snoc e es)
  obtain ds d where cs: "cs = ds @ [d]" "length ds = length es"
    using snoc.prems by (metis length_append_singleton length_Suc_conv_rev)
  show ?case
    using snoc.IH[OF cs(2)] cs by (simp add: live_pairs_snoc mapped_def comp_def)
qed (simp add: mapped_def live_pairs_def)

lemma concat_kept:
  "concat (map (\<lambda>e. map ((!) (entry_rows rows e)) (live_idx rows e)) (kept rows es))
   = concat (map (\<lambda>e. map ((!) (entry_rows rows e)) (live_idx rows e)) es)"
  by (induction es) (auto simp: kept_def)

text \<open>
  What holds of a slice after its batches are written: each live row of each batch has a
  position whose row in the file is that row, each deleted row has none, the files have
  different ids and together hold the live rows in order.
\<close>

definition row_written ::
  "('b \<Rightarrow> 'r list) \<Rightarrow> ('b, 's, 'k, 'm) disk_slice_writer \<Rightarrow> (mooncake_data_file \<times> 'b list) list \<Rightarrow>
   'b batch_entry \<Rightarrow> nat \<Rightarrow> nat \<Rightarrow> nat \<Rightarrow> nat \<Rightarrow> bool" where
  "row_written rows w disk e i j f r \<longleftrightarrow> batch_id_to_idx w (be_id e) = Some j \<and> j < length (row_offset_mapping w)
     \<and> i < length (row_offset_mapping w ! j) \<and> row_offset_mapping w ! j ! i = Some (f, r)
     \<and> f < length disk \<and> r < length (file_rows rows (disk ! f))
     \<and> file_rows rows (disk ! f) ! r = entry_rows rows e ! i"

definition slice_written ::
  "('b \<Rightarrow> 'r list) \<Rightarrow> 'b batch_entry list \<Rightarrow> ('b, 's, 'k, 'm) disk_slice_writer \<Rightarrow>
   (mooncake_data_file \<times> 'b list) list \<Rightarrow> bool" where
  "slice_written rows es w disk \<longleftrightarrow>
     map fst (ds_files w) = map fst disk
     \<and> map (\<lambda>p. attrs_row_num (snd p)) (ds_files w) = map (\<lambda>p. length (file_rows rows p)) disk
     \<and> numbered (table_auto_incr_id w) disk \<and> length disk \<le> length es
     \<and> concat (map (file_rows rows) disk)
        = concat (map (\<lambda>e. map ((!) (entry_rows rows e)) (live_idx rows e)) es)
     \<and> (\<forall>e \<in> set es. \<forall>i \<in> set (live_idx rows e). \<exists>j f r. row_written rows w disk e i j f r)
     \<and> (\<forall>e \<in> set es. \<forall>i < length (entry_rows rows e). i \<notin> set (live_idx rows e) \<longrightarrow>
          (case batch_id_to_idx w (be_id e) of None \<Rightarrow> live_idx rows e = []
           | Some j \<Rightarrow> j < length (row_offset_mapping w) \<and> i < length (row_offset_mapping w ! j)
               \<and> row_offset_mapping w ! j ! i = None))"

lemma live_idx_range: "i \<in> set (live_idx rows e) \<Longrightarrow> i < length (entry_rows rows e)"
  by (cases "batch_data (be_batch e)") (auto simp: live_idx_def entry_rows_def)

lemma distinct_live_idx: "distinct (live_idx rows e)"
  by (simp add: live_idx_def split: option.splits)

lemma positions_written:
  assumes "length cs = length ks" and "w = v\<lparr>ds_files := ws_files t, row_offset_mapping := ws_mapping t\<rparr>"
    and "batch_id_to_idx v = numbering 0 ks" and "distinct (map be_id ks)"
    and "ws_inv rows x (zip [0..<length ks] (zip cs (map (live_idx rows) ks))) t" and "ws_open t = None"
    and "list_all2 (\<lambda>c e. rows c = map ((!) (entry_rows rows e)) (live_idx rows e)) cs ks"
    and "length (ws_mapping t) = length ks" and "\<forall>j < length ks. length (ws_mapping t ! j) = length (entry_rows rows (ks ! j))"
    and "e \<in> set ks" and "i \<in> set (live_idx rows e)"
  shows "\<exists>j f r. row_written rows w (ws_disk t) e i j f r"
proof -
  let ?F = "zip [0..<length ks] (zip cs (map (live_idx rows) ks))" and ?CS = "map (file_rows rows) (ws_disk t)"
  have c: "contents t = ws_disk t" using assms(6) by (simp add: contents_def)
  have "map (\<lambda>(j, i). ws_mapping t ! j ! i) (live_pairs rows ks) = map Some (posns ?CS)"
    using assms(5) mapped_pairs[OF assms(1), of "ws_mapping t" rows] by (simp add: ws_inv_def c)
  moreover have "map (\<lambda>(j, i). entry_rows rows (ks ! j) ! i) (live_pairs rows ks) = map (\<lambda>(f, r). ?CS ! f ! r) (posns ?CS)"
  proof -
    have "map (\<lambda>(_, c, _). rows c) ?F = map (\<lambda>e. map ((!) (entry_rows rows e)) (live_idx rows e)) ks"
      using assms(1,7) by (auto simp: list_all2_conv_all_nth intro!: nth_equalityI)
    then show ?thesis using assms(5) by (simp add: ws_inv_def c read_posns live_pairs_rows)
  qed
  moreover obtain j where j: "j < length ks" "ks ! j = e" using assms(10) by (auto simp: in_set_conv_nth)
  moreover have "(j, i) \<in> set (live_pairs rows ks)" using j assms(11) by (auto simp: live_pairs_def)
  ultimately obtain f r where fr: "(f, r) \<in> set (posns ?CS)" "ws_mapping t ! j ! i = Some (f, r)"
    "entry_rows rows e ! i = ?CS ! f ! r"
    using list_match[of "\<lambda>(j, i). ws_mapping t ! j ! i" "live_pairs rows ks" "posns ?CS"
        "\<lambda>(j, i). entry_rows rows (ks ! j) ! i" "\<lambda>(f, r). ?CS ! f ! r" "(j, i)"] by auto
  have "batch_id_to_idx w (be_id e) = Some j"
    using numbering_Some[OF assms(4) j(1), of 0] j(2) assms(2,3) by simp
  moreover have "i < length (ws_mapping t ! j)" using assms(9) j live_idx_range[OF assms(11)] by simp
  ultimately have "row_written rows w (ws_disk t) e i j f r"
    using fr j(1) assms(2,8) by (auto simp: row_written_def set_posns)
  then show ?thesis by blast
qed

lemma positions_absent:
  assumes "w = v\<lparr>ds_files := ws_files t, row_offset_mapping := ws_mapping t\<rparr>"
    and "batch_id_to_idx v = numbering 0 (kept rows es)" and "distinct (map be_id es)"
    and "same_outside (zip [0..<length (kept rows es)] (zip cs (map (live_idx rows) (kept rows es))))
      (map (\<lambda>e. replicate (length (entry_rows rows e)) None) (kept rows es)) (ws_mapping t)"
    and "length cs = length (kept rows es)"
    and "e \<in> set es" and "i < length (entry_rows rows e)" and "i \<notin> set (live_idx rows e)"
  shows "case batch_id_to_idx w (be_id e) of None \<Rightarrow> live_idx rows e = []
    | Some j \<Rightarrow> j < length (row_offset_mapping w) \<and> i < length (row_offset_mapping w ! j)
        \<and> row_offset_mapping w ! j ! i = None"
proof (cases "e \<in> set (kept rows es)")
  case True
  let ?ks = "kept rows es"
  obtain j where j: "j < length ?ks" "?ks ! j = e" using True by (auto simp: in_set_conv_nth)
  have d: "distinct (map be_id ?ks)" using assms(3) by (simp add: kept_def distinct_map_filter)
  have "batch_id_to_idx w (be_id e) = Some j"
    using numbering_Some[OF d j(1), of 0] j(2) assms(1,2) by simp
  moreover have "(j, c, is) \<in> set (zip [0..<length ?ks] (zip cs (map (live_idx rows) ?ks))) \<Longrightarrow> is = live_idx rows e" for c "is"
    using j assms(5) by (auto simp: set_zip)
  then have none: "\<forall>c is. (j, c, is) \<in> set (zip [0..<length ?ks] (zip cs (map (live_idx rows) ?ks))) \<longrightarrow> i \<notin> set is"
    using assms(8) by blast
  have "ws_mapping t ! j ! i = None" "length (ws_mapping t) = length ?ks" "i < length (ws_mapping t ! j)"
    using assms(4,7) j none unfolding same_outside_def by auto
  ultimately show ?thesis using assms(1) j by simp
next
  case False
  then have dead: "live_idx rows e = []" using assms(6) by (simp add: kept_def)
  have "be_id e \<notin> be_id ` set (kept rows es)"
  proof
    assume "be_id e \<in> be_id ` set (kept rows es)"
    then obtain e' where "e' \<in> set es" "be_id e' = be_id e" "e' \<in> set (kept rows es)" by (auto simp: kept_def)
    then show False using assms(3,6) False by (metis distinct_map inj_onD)
  qed
  then show ?thesis using numbering_None[of "be_id e" "kept rows es" 0] dead assms(1,2) by simp
qed

lemma files_written:
  assumes ops: "arrow_batches_ok ops rows" and dr: "\<forall>e \<in> set es. drained rows e"
    and ids: "distinct (map be_id es)" and room: "length es < 100"
    and w0_def: "w0 = new_disk_slice_writer schema dir es lsn x old_index psize"
  shows "\<exists>filtered nums mp. filter_batches ops es [] Map.empty [] = Ok (Inr (filtered, nums, mp))
    \<and> (\<exists>r. write_batch_to_parquet pw (w0\<lparr>batch_id_to_idx := nums, row_offset_mapping := mp\<rparr>) filtered = Ok r
        \<and> (\<forall>w disk. r = Inr (w, disk) \<longrightarrow> slice_written rows es w disk \<and> ds_old_index w = old_index
            \<and> table_auto_incr_id w = x \<and> ds_dir_path w = dir \<and> ds_new_index w = None
            \<and> batch_id_to_idx w = numbering 0 (kept rows es)))"
proof -
  let ?ks = "kept rows es"
  let ?mp = "map (\<lambda>e. replicate (length (entry_rows rows e)) None) ?ks :: row_offsets"
  obtain cs where cs: "list_all2 (\<lambda>c e. rows c = map ((!) (entry_rows rows e)) (live_idx rows e)) cs ?ks"
    and flt: "filter_batches ops es [] Map.empty [] = Ok (Inr (
        zip [0..<length ?ks] (zip cs (map (live_idx rows) ?ks)), numbering 0 ?ks, ?mp))"
    using filter_batches_spec[OF ops dr, of "[]" Map.empty "[]"] by auto
  let ?F = "zip [0..<length ?ks] (zip cs (map (live_idx rows) ?ks))"
  let ?v = "w0\<lparr>batch_id_to_idx := numbering 0 ?ks, row_offset_mapping := ?mp\<rparr>"
  let ?s = "\<lparr>ws_files = [], ws_open = None, ws_file_idx = 0, ws_row_idx = 0, ws_mapping = ?mp, ws_disk = []\<rparr>"
  have lcs: "length cs = length ?ks" using cs by (rule list_all2_lengthD)
  have lks: "length ?ks \<le> length es" by (simp add: kept_def)
  have x: "table_auto_incr_id ?v = x" by (simp add: w0_def new_disk_slice_writer_def)
  have inv0: "ws_inv rows x [] ?s" by (simp add: ws_inv_def contents_def mapped_def numbered_def)
  have dF: "distinct (map fst ([] @ ?F))" using lcs by simp
  have bF: "\<forall>(b, c, is) \<in> set ([] @ ?F). b < length (ws_mapping ?s)" by (auto dest: set_zip_leftD)
  have rF: "\<forall>(b, c, is) \<in> set ?F. distinct is \<and> (\<forall>i \<in> set is. i < length (ws_mapping ?s ! b)) \<and> length is = length (rows c)"
    using cs lcs by (auto simp: set_zip list_all2_conv_all_nth distinct_live_idx dest: live_idx_range)
  have lF: "length ([] @ ?F) \<le> 100" using lcs lks room by simp
  obtain r where r: "write_batches pw ?v ?F ?s = Ok r" and r_ok: "\<And>t. r = Inr t \<Longrightarrow> ws_inv rows x ?F t
      \<and> ws_open t = None \<and> same_outside ?F (ws_mapping ?s) (ws_mapping t)"
    using write_batches_inv[where rows = rows, OF inv0 x dF bF rF lF, of pw] by auto
  have "slice_written rows es (?v\<lparr>ds_files := ws_files t, row_offset_mapping := ws_mapping t\<rparr>) (ws_disk t)"
    (is "slice_written rows es ?w _") if "r = Inr t" for t
  proof -
    note t = r_ok[OF that]
    have c: "contents t = ws_disk t" using t by (simp add: contents_def)
    have rws: "map (\<lambda>(_, c, _). rows c) ?F = map (\<lambda>e. map ((!) (entry_rows rows e)) (live_idx rows e)) ?ks"
      using lcs cs by (auto simp: list_all2_conv_all_nth intro!: nth_equalityI)
    have len: "length (ws_mapping t) = length ?ks" "\<forall>j < length ?ks. length (ws_mapping t ! j) = length (entry_rows rows (?ks ! j))"
      using t by (simp_all add: same_outside_def)
    have dk: "distinct (map be_id ?ks)" using ids by (simp add: kept_def distinct_map_filter)
    have num: "batch_id_to_idx ?v = numbering 0 ?ks" by simp
    have "\<exists>j f r. row_written rows ?w (ws_disk t) e i j f r" if "e \<in> set es" "i \<in> set (live_idx rows e)" for e i
    proof (rule positions_written[OF lcs refl num dk _ _ cs len])
      show "e \<in> set ?ks" using that by (auto simp: kept_def)
    qed (use t that in auto)
    moreover have "case batch_id_to_idx ?w (be_id e) of None \<Rightarrow> live_idx rows e = []
        | Some j \<Rightarrow> j < length (row_offset_mapping ?w) \<and> i < length (row_offset_mapping ?w ! j)
            \<and> row_offset_mapping ?w ! j ! i = None"
      if "e \<in> set es" "i < length (entry_rows rows e)" "i \<notin> set (live_idx rows e)" for e i
      by (rule positions_absent[OF refl num ids _ lcs that]) (use t in simp)
    moreover have "concat (map (file_rows rows) (ws_disk t))
        = concat (map (\<lambda>e. map ((!) (entry_rows rows e)) (live_idx rows e)) es)"
      using t rws unfolding ws_inv_def c by (simp add: concat_kept)
    ultimately show ?thesis
      using t lks lcs x unfolding ws_inv_def c slice_written_def by auto
  qed
  moreover have "write_batch_to_parquet pw ?v ?F = try_bind (Ok r) (\<lambda>s.
      Ok (Inr (?v\<lparr>ds_files := ws_files s, row_offset_mapping := ws_mapping s\<rparr>, ws_disk s)))"
    using r by (simp add: write_batch_to_parquet_def)
  ultimately show ?thesis
    using flt x by (cases r) (auto simp: w0_def new_disk_slice_writer_def)
qed

section \<open>The index of the rows written\<close>

lemma filter_map_res_all:
  "(\<And>v. v \<in> set vs \<Longrightarrow> f v = Ok (Some (h v))) \<Longrightarrow> filter_map_res f vs = Ok (map h vs)"
  by (induction vs) auto

lemma remap_into_vec_total:
  assumes "idx \<noteq> NoIndex"
    and all: "\<And>k ident loc. (k, ident, loc) \<in># index_entries iops idx \<Longrightarrow> remap_location ids mp (k, loc) = Ok (Some (g k loc))"
  shows "\<exists>es. remap_into_vec iops idx ids mp = Ok es
    \<and> mset es = image_mset (\<lambda>(k, _, loc). g k loc) (index_entries iops idx)"
proof (cases idx)
  case (SinglePrimitive t)
  have "filter_map_res (\<lambda>v. remap_location ids mp (spk_hash v, spk_location v)) (ht_iter (ix_single iops) t)
      = Ok (map (\<lambda>v. g (spk_hash v) (spk_location v)) (ht_iter (ix_single iops) t))"
    by (rule filter_map_res_all, rule all[of _ None]) (auto simp: SinglePrimitive index_entries_def)
  then show ?thesis by (simp add: SinglePrimitive remap_into_vec_def index_entries_def multiset.map_comp comp_def)
next
  case (KeyIndex t)
  have "filter_map_res (\<lambda>v. remap_location ids mp (kwi_hash v, kwi_location v)) (ht_iter (ix_key iops) t)
      = Ok (map (\<lambda>v. g (kwi_hash v) (kwi_location v)) (ht_iter (ix_key iops) t))"
  proof (rule filter_map_res_all)
    fix v assume "v \<in> set (ht_iter (ix_key iops) t)"
    then show "remap_location ids mp (kwi_hash v, kwi_location v) = Ok (Some (g (kwi_hash v) (kwi_location v)))"
      by (intro all[of _ "Some (kwi_identity v)"]) (auto simp: KeyIndex index_entries_def)
  qed
  then show ?thesis by (simp add: KeyIndex remap_into_vec_def index_entries_def multiset.map_comp comp_def)
next
  case (FullRowIndex m)
  have "filter_map_res (remap_location ids mp) (mm_flat_iter (ix_multi iops) m)
      = Ok (map (\<lambda>(k, loc). g k loc) (mm_flat_iter (ix_multi iops) m))"
  proof (rule filter_map_res_all)
    fix v assume v: "v \<in> set (mm_flat_iter (ix_multi iops) m)"
    obtain k loc where "v = (k, loc)" by (cases v)
    then show "remap_location ids mp v = Ok (Some ((\<lambda>(k, loc). g k loc) v))"
      using v all[of k None loc] by (force simp: FullRowIndex index_entries_def)
  qed
  then show ?thesis
    by (simp add: FullRowIndex remap_into_vec_def index_entries_def multiset.map_comp comp_def)
      (auto intro!: image_mset_cong)
qed (use assms in simp)

text \<open>The locations of the live rows of the batches.\<close>

definition live_locations :: "('b \<Rightarrow> 'r list) \<Rightarrow> 'b batch_entry list \<Rightarrow> record_location list" where
  "live_locations rows es = concat (map (\<lambda>e. map (MemoryBatch (be_id e)) (live_idx rows e)) es)"

lemma length_live_locations:
  "length (live_locations rows es) = length (concat (map (\<lambda>e. map ((!) (entry_rows rows e)) (live_idx rows e)) es))"
  by (induction es) (auto simp: live_locations_def)

lemma remapped_entries:
  assumes wr: "slice_written rows es w disk"
    and idx: "snd (ds_old_index w) \<noteq> NoIndex"
      "image_mset entry_location (index_entries iops (snd (ds_old_index w))) = mset (live_locations rows es)"
  shows "\<exists>entries. remap_into_vec iops (snd (ds_old_index w)) (batch_id_to_idx w) (row_offset_mapping w) = Ok entries
    \<and> length entries = sum_list (map (\<lambda>(_, a). attrs_row_num a) (ds_files w))
    \<and> (\<forall>k ident b off. (k, ident, MemoryBatch b off) \<in># index_entries iops (snd (ds_old_index w)) \<longrightarrow>
        (\<exists>e j f r. e \<in> set es \<and> be_id e = b \<and> (k, f, r) \<in> set entries \<and> row_written rows w disk e off j f r))"
proof -
  let ?ix = "snd (ds_old_index w)"
  let ?loc = "\<lambda>b off j f r e. e \<in> set es \<and> be_id e = b \<and> row_written rows w disk e off j f r"
  have loc: "\<exists>b off e j f r. loc = MemoryBatch b off \<and> ?loc b off j f r e"
    if "(k, ident, loc) \<in># index_entries iops ?ix" for k ident loc
  proof -
    have "loc \<in># image_mset entry_location (index_entries iops ?ix)" using that by force
    then have "loc \<in> set (live_locations rows es)" using idx(2) by (metis set_mset_mset)
    then obtain e off where e: "e \<in> set es" "off \<in> set (live_idx rows e)" "loc = MemoryBatch (be_id e) off"
      by (auto simp: live_locations_def)
    moreover obtain j f r where "row_written rows w disk e off j f r"
      using wr e(1,2) unfolding slice_written_def by blast
    ultimately show ?thesis by blast
  qed
  define pos where "pos = (\<lambda>k loc. case remap_location (batch_id_to_idx w) (row_offset_mapping w) (k, loc) of
      Ok (Some p) \<Rightarrow> p | _ \<Rightarrow> (0, 0, 0))"
  have pos_eq: "remap_location (batch_id_to_idx w) (row_offset_mapping w) (k, MemoryBatch b off) = Ok (Some (k, f, r))"
    "pos k (MemoryBatch b off) = (k, f, r)" if "?loc b off j f r e" for k b off j f r e
    using that by (auto simp: pos_def remap_location_def row_written_def index_res_def)
  obtain entries where en: "remap_into_vec iops ?ix (batch_id_to_idx w) (row_offset_mapping w) = Ok entries"
    "mset entries = image_mset (\<lambda>(k, _, loc). pos k loc) (index_entries iops ?ix)"
  proof -
    have "\<exists>es. remap_into_vec iops ?ix (batch_id_to_idx w) (row_offset_mapping w) = Ok es
      \<and> mset es = image_mset (\<lambda>(k, _, loc). pos k loc) (index_entries iops ?ix)"
    proof (rule remap_into_vec_total[OF idx(1)])
      fix k ident loc assume "(k, ident, loc) \<in># index_entries iops ?ix"
      then obtain b off e j f r where l: "loc = MemoryBatch b off" "?loc b off j f r e" using loc by blast
      show "remap_location (batch_id_to_idx w) (row_offset_mapping w) (k, loc) = Ok (Some (pos k loc))"
        unfolding l(1) pos_eq(2)[OF l(2)] by (rule pos_eq(1)[OF l(2)])
    qed
    then show ?thesis using that by blast
  qed
  have "length entries = size (index_entries iops ?ix)" using arg_cong[OF en(2), of size] by simp
  also have "\<dots> = length (live_locations rows es)" using arg_cong[OF idx(2), of size] by simp
  also have "\<dots> = length (concat (map (file_rows rows) disk))"
    using wr unfolding length_live_locations slice_written_def by metis
  also have "\<dots> = sum_list (map (\<lambda>p. length (file_rows rows p)) disk)" by (simp add: length_concat comp_def)
  also have "\<dots> = sum_list (map (\<lambda>p. attrs_row_num (snd p)) (ds_files w))"
    using wr unfolding slice_written_def by metis
  finally have len: "length entries = sum_list (map (\<lambda>(_, a). attrs_row_num a) (ds_files w))"
    by (simp add: case_prod_unfold)
  have ent: "\<exists>e j f r. e \<in> set es \<and> be_id e = b \<and> (k, f, r) \<in> set entries \<and> row_written rows w disk e off j f r"
    if m: "(k, ident, MemoryBatch b off) \<in># index_entries iops ?ix" for k ident b off
  proof -
    obtain e j f r where l: "?loc b off j f r e" using loc[OF m] by auto
    have "pos k (MemoryBatch b off) \<in># mset entries" using m unfolding en(2) by force
    then have "(k, f, r) \<in> set entries" unfolding pos_eq(2)[OF l] by simp
    then show ?thesis using l by blast
  qed
  then show ?thesis using en(1) len by blast
qed

lemma remap_index_spec:
  assumes wr: "slice_written rows es w disk" and room: "length es < 100"
    and idx: "snd (ds_old_index w) \<noteq> NoIndex"
      "image_mset entry_location (index_entries iops (snd (ds_old_index w))) = mset (live_locations rows es)"
  shows "\<exists>r. remap_index iops build w = Ok r \<and> (\<forall>w'. r = Inr w' \<longrightarrow> (\<exists>ni. w' = w\<lparr>ds_new_index := ni\<rparr>
    \<and> (\<forall>i. ni = Some i \<longrightarrow> ds_new_index w \<noteq> ni \<longrightarrow> (\<exists>entries fid. build (map fst disk) (ds_dir_path w) entries fid = Inr i
        \<and> (\<forall>k ident b off. (k, ident, MemoryBatch b off) \<in># index_entries iops (snd (ds_old_index w)) \<longrightarrow>
            (\<exists>e j f r. e \<in> set es \<and> be_id e = b \<and> (k, f, r) \<in> set entries \<and> row_written rows w disk e off j f r))))))"
proof -
  let ?ix = "snd (ds_old_index w)"
  obtain entries where en: "remap_into_vec iops ?ix (batch_id_to_idx w) (row_offset_mapping w) = Ok entries"
    and len: "length entries = sum_list (map (\<lambda>(_, a). attrs_row_num a) (ds_files w))"
    and ent: "\<And>k ident b off. (k, ident, MemoryBatch b off) \<in># index_entries iops ?ix \<Longrightarrow>
      \<exists>e j f r. e \<in> set es \<and> be_id e = b \<and> (k, f, r) \<in> set entries \<and> row_written rows w disk e off j f r"
    using remapped_entries[OF wr idx] by blast
  have fl: "length (ds_files w) < 100" "map fst (ds_files w) = map fst disk"
    using wr room by (auto simp: slice_written_def dest: map_eq_imp_length_eq)
  obtain fid where fid: "get_unique_file_id_for_flush (ucast (table_auto_incr_id w)) (word_of_nat (length (ds_files w))) = Ok fid"
    using flush_file_id[OF fl(1)] by blast
  show ?thesis
  proof (cases "index_is_empty iops ?ix \<or> ds_files w = []")
    case True
    then have "remap_index iops build w = Ok (Inr w)" by (auto simp: remap_index_def)
    moreover have "w = w\<lparr>ds_new_index := ds_new_index w\<rparr>" by simp
    ultimately show ?thesis by (metis sum.inject(2))
  next
    case False
    then have ri: "remap_index iops build w = (case build (map fst disk) (ds_dir_path w) entries fid of
        Inl e \<Rightarrow> Ok (Inl e) | Inr i \<Rightarrow> Ok (Inr (w\<lparr>ds_new_index := Some i\<rparr>)))"
      using en len fid fl(2) by (simp add: remap_index_def)
    show ?thesis
    proof (cases "build (map fst disk) (ds_dir_path w) entries fid")
      case (Inl e)
      then show ?thesis using ri by simp
    next
      case (Inr i)
      have "remap_index iops build w = Ok (Inr (w\<lparr>ds_new_index := Some i\<rparr>))" using ri Inr by simp
      then show ?thesis using Inr ent by blast
    qed
  qed
qed

section \<open>Flushing a slice\<close>

text \<open>The batches drained from a slice hold exactly its live rows.\<close>

lemma drain_entries:
  assumes inv: "store_inv ops cs c" and none: "current_row_count cs = 0"
  shows "\<forall>e \<in> set (butlast (in_memory_batches cs)). drained (batch_rows ops) e"
    and "distinct (map be_id (butlast (in_memory_batches cs)))"
    and "live_rows (store_view ops cs) = {(be_id e, i, entry_rows (batch_rows ops) e ! i) | e i.
      e \<in> set (butlast (in_memory_batches cs)) \<and> i \<in> set (live_idx (batch_rows ops) e)}"
proof -
  let ?es = "in_memory_batches cs" and ?rows = "batch_rows ops"
  note I = inv[unfolded store_inv_def]
  have ne: "?es \<noteq> []" and srt: "sorted_wrt (<) (batch_ids_of cs)"
    and ok: "\<forall>e \<in> set ?es. batch_ok ops (cs_schema cs) (max_rows_per_buffer cs) e"
    and dat: "\<forall>e \<in> set (butlast ?es). batch_data (be_batch e) \<noteq> None"
    and lst: "batch_data (be_batch (last ?es)) = None" and cur: "current_rows cs = []"
    using I none by simp_all
  have "drained ?rows e" if e: "e \<in> set (butlast ?es)" for e
  proof -
    obtain b where "batch_data (be_batch e) = Some b" using dat e by auto
    moreover have "batch_ok ops (cs_schema cs) (max_rows_per_buffer cs) e" using ok e in_set_butlastD by metis
    ultimately show ?thesis by (simp add: drained_def batch_ok_def entry_rows_def)
  qed
  then show "\<forall>e \<in> set (butlast ?es). drained ?rows e" by blast
  have "distinct (map be_id ?es)" using srt unfolding strict_sorted_iff by blast
  then show "distinct (map be_id (butlast ?es))" by (simp add: map_butlast distinct_butlast)
  have split: "?es = butlast ?es @ [last ?es]" using ne by simp
  have view: "(b, i, r) \<in> live_rows (store_view ops cs) \<longleftrightarrow>
      (\<exists>e \<in> set (butlast ?es). b = be_id e \<and> i \<in> set (live_idx ?rows e) \<and> r = entry_rows ?rows e ! i)" for b i r
  proof -
    have "(b, i, r) \<in> live_rows (store_view ops cs) \<longleftrightarrow> (\<exists>e \<in> set ?es. b = be_id e
        \<and> i < length (fst (snd (entry_view ops [] e))) \<and> i \<notin> deleted_rows (deletions (be_batch e))
        \<and> r = fst (snd (entry_view ops [] e)) ! i)"
      by (auto simp: live_rows_def store_view_def cur entry_view_def)
    also have "\<dots> \<longleftrightarrow> (\<exists>e \<in> set (butlast ?es). b = be_id e
        \<and> i < length (fst (snd (entry_view ops [] e))) \<and> i \<notin> deleted_rows (deletions (be_batch e))
        \<and> r = fst (snd (entry_view ops [] e)) ! i)"
      using lst by (subst split) (simp add: entry_view_def)
    also have "\<dots> \<longleftrightarrow> (\<exists>e \<in> set (butlast ?es). b = be_id e \<and> i \<in> set (live_idx ?rows e) \<and> r = entry_rows ?rows e ! i)"
    proof (rule bex_cong[OF refl])
      fix e assume "e \<in> set (butlast ?es)"
      then obtain d where "batch_data (be_batch e) = Some d" using dat by auto
      then show "(b = be_id e \<and> i < length (fst (snd (entry_view ops [] e))) \<and> i \<notin> deleted_rows (deletions (be_batch e))
          \<and> r = fst (snd (entry_view ops [] e)) ! i) \<longleftrightarrow> (b = be_id e \<and> i \<in> set (live_idx ?rows e) \<and> r = entry_rows ?rows e ! i)"
        by (auto simp: entry_view_def live_idx_def entry_rows_def)
    qed
    finally show ?thesis .
  qed
  show "live_rows (store_view ops cs) = {(be_id e, i, entry_rows ?rows e ! i) | e i.
      e \<in> set (butlast ?es) \<and> i \<in> set (live_idx ?rows e)}"
    by (rule set_eqI) (use view in auto)
qed

lemma drained_slice:
  assumes ok: "batch_ops_ok ops" and inv: "store_inv ops (column_store s) c"
    and run: "slice_drain ops iops s c = Ok (Inr (batch, es, idx), s', c')"
  shows "idx = slice_index s" and "\<forall>e \<in> set es. drained (batch_rows ops) e" and "distinct (map be_id es)"
    and "slice_live ops s = {(be_id e, i, entry_rows (batch_rows ops) e ! i) | e i.
      e \<in> set es \<and> i \<in> set (live_idx (batch_rows ops) e)}"
proof -
  obtain r cs where fin: "finalize_current_batch ops (column_store s) c = Ok (Inr r, cs, c')"
    and dr: "es = butlast (in_memory_batches cs)" "idx = slice_index s" and z: "current_row_count cs = 0"
  proof -
    obtain q cs c1 where q: "finalize_current_batch ops (column_store s) c = Ok (q, cs, c1)"
      using run by (auto simp: slice_drain_def)
    then show ?thesis
      using run that by (cases q) (auto simp: slice_drain_def drain_column_store_def)
  qed
  have "store_inv ops cs c' \<and> live_rows (store_view ops cs) = slice_live ops s"
  proof (cases "current_row_count (column_store s) = 0")
    case True
    then show ?thesis using finalize_spec(1)[OF ok inv fin] inv by simp
  next
    case False
    then show ?thesis using finalize_spec(2)[OF ok inv fin] by (auto simp: live_rows_def)
  qed
  then show "\<forall>e \<in> set es. drained (batch_rows ops) e" "distinct (map be_id es)"
    "slice_live ops s = {(be_id e, i, entry_rows (batch_rows ops) e ! i) | e i.
      e \<in> set es \<and> i \<in> set (live_idx (batch_rows ops) e)}"
    using drain_entries[of ops cs c'] z dr by auto
  show "idx = slice_index s" by (rule dr(2))
qed

text \<open>A unique index of a slice has one entry for each live row of the drained batches.\<close>

lemma distinct_live_locations:
  assumes "distinct (map be_id es)"
  shows "distinct (live_locations rows es)"
  using assms
proof (induction es)
  case (Cons e es)
  have "distinct (map (MemoryBatch (be_id e)) (live_idx rows e))"
    by (simp add: distinct_map distinct_live_idx inj_on_def)
  moreover have "set (map (MemoryBatch (be_id e)) (live_idx rows e)) \<inter> set (live_locations rows es) = {}"
    using Cons.prems by (auto simp: live_locations_def)
  ultimately show ?case using Cons by (simp add: live_locations_def)
qed (simp add: live_locations_def)

lemma unique_index_locations:
  assumes inv: "slice_inv ops iops ahash ident s c" and uniq: "ident \<noteq> FullRow"
    and live: "slice_live ops s = {(be_id e, i, entry_rows rows e ! i) | e i. e \<in> set es \<and> i \<in> set (live_idx rows e)}"
    and ids: "distinct (map be_id es)"
  shows "image_mset entry_location (index_entries iops (slice_index s)) = mset (live_locations rows es)"
    and "slice_index s \<noteq> NoIndex"
proof -
  note I = inv[unfolded slice_inv_def]
  let ?E = "live_entries ahash ident (slice_live ops s)"
  show "slice_index s \<noteq> NoIndex" using I by (cases ident) auto
  have ent: "index_entries iops (slice_index s) = mset_set ?E" using I uniq by simp
  have fin: "finite ?E" by (rule finite_live_entries)
  have inj: "inj_on entry_location ?E"
  proof (rule inj_onI)
    fix p q assume pq: "p \<in> ?E" "q \<in> ?E" "entry_location p = entry_location q"
    obtain k i b off r where p: "p = (k, i, MemoryBatch b off)" "(b, off, r) \<in> slice_live ops s" "row_key ahash ident r = Ok (k, i)"
      using pq(1) by (auto simp: live_entries_def)
    obtain k' i' b' off' r' where q: "q = (k', i', MemoryBatch b' off')" "(b', off', r') \<in> slice_live ops s" "row_key ahash ident r' = Ok (k', i')"
      using pq(2) by (auto simp: live_entries_def)
    have eq: "b' = b" "off' = off" using pq(3) p(1) q(1) by simp_all
    obtain e e' where "e \<in> set es" "be_id e = b" "r = entry_rows rows e ! off" "e' \<in> set es" "be_id e' = b'" "r' = entry_rows rows e' ! off'"
      using p(2) q(2) unfolding live by auto
    then have "r' = r" using ids eq by (metis distinct_map inj_onD)
    then show "p = q" using p q eq by simp
  qed
  have "entry_location ` ?E = set (live_locations rows es)"
  proof (rule set_eqI)
    fix loc
    have "loc \<in> entry_location ` ?E \<longleftrightarrow> (\<exists>b off r. (b, off, r) \<in> slice_live ops s \<and> loc = MemoryBatch b off)"
    proof
      assume "loc \<in> entry_location ` ?E"
      then show "\<exists>b off r. (b, off, r) \<in> slice_live ops s \<and> loc = MemoryBatch b off"
        by (auto simp: live_entries_def)
    next
      assume "\<exists>b off r. (b, off, r) \<in> slice_live ops s \<and> loc = MemoryBatch b off"
      then obtain b off r where l: "(b, off, r) \<in> slice_live ops s" "loc = MemoryBatch b off" by blast
      have "is_ok (row_key ahash ident r)" using I l(1) by blast
      then obtain k i where "row_key ahash ident r = Ok (k, i)" by (cases "row_key ahash ident r") auto
      then have "(k, i, MemoryBatch b off) \<in> ?E" using l(1) by (auto simp: live_entries_def)
      then show "loc \<in> entry_location ` ?E" using l(2) by force
    qed
    also have "\<dots> \<longleftrightarrow> loc \<in> set (live_locations rows es)" unfolding live by (auto simp: live_locations_def)
    finally show "loc \<in> entry_location ` ?E \<longleftrightarrow> loc \<in> set (live_locations rows es)" .
  qed
  then have "image_mset entry_location (mset_set ?E) = mset_set (set (live_locations rows es))"
    using image_mset_mset_set[OF inj] by simp
  then show "image_mset entry_location (index_entries iops (slice_index s)) = mset (live_locations rows es)"
    using mset_set_set[OF distinct_live_locations[OF ids]] ent by simp
qed

lemma numbered_distinct: "numbered x disk \<Longrightarrow> distinct (map (\<lambda>p. file_id (fst p)) disk)"
proof (unfold distinct_conv_nth, intro allI impI)
  fix j k assume n: "numbered x disk" and jk: "j < length (map (\<lambda>p. file_id (fst p)) disk)"
    "k < length (map (\<lambda>p. file_id (fst p)) disk)" "j \<noteq> k"
  obtain a b where "file_id (fst (disk ! j)) = FileId a" "unat a = 10000000000000000 + unat x * 100 + j"
    "file_id (fst (disk ! k)) = FileId b" "unat b = 10000000000000000 + unat x * 100 + k"
    using n jk(1,2) unfolding numbered_def length_map by meson
  then show "map (\<lambda>p. file_id (fst p)) disk ! j \<noteq> map (\<lambda>p. file_id (fst p)) disk ! k"
    using jk by auto
qed

lemma live_rows_count:
  assumes "distinct (map be_id es)"
  shows "card {(be_id e, i, entry_rows rows e ! i) | e i. e \<in> set es \<and> i \<in> set (live_idx rows e)}
    = length (live_locations rows es)"
proof -
  let ?L = "{(be_id e, i, entry_rows rows e ! i) | e i. e \<in> set es \<and> i \<in> set (live_idx rows e)}"
  let ?g = "\<lambda>(b, i, r). MemoryBatch b i"
  have "inj_on ?g ?L"
  proof (rule inj_onI)
    fix p q assume pq: "p \<in> ?L" "q \<in> ?L" "?g p = ?g q"
    obtain e i where p: "p = (be_id e, i, entry_rows rows e ! i)" "e \<in> set es" using pq(1) by blast
    obtain e' i' where q: "q = (be_id e', i', entry_rows rows e' ! i')" "e' \<in> set es" using pq(2) by blast
    have "be_id e = be_id e'" "i = i'" using pq(3) p(1) q(1) by simp_all
    moreover from this have "e = e'" using assms p(2) q(2) by (metis distinct_map inj_onD)
    ultimately show "p = q" using p(1) q(1) by simp
  qed
  then have "card ?L = card (?g ` ?L)" by (rule card_image[symmetric])
  moreover have "?g ` ?L = set (live_locations rows es)" by (force simp: live_locations_def)
  ultimately show ?thesis using distinct_card[OF distinct_live_locations[OF assms]] by simp
qed

lemma remap_written:
  assumes "row_written rows w disk e i j f r" and "map fst (ds_files w) = map fst disk"
  shows "remap_deletion_if_needed w \<lparr>pd_pos = MemoryBatch (be_id e) i, pd_lsn = l\<rparr>
    = Ok (Some (DiskFile (file_id (fst (disk ! f))) r), \<lparr>pd_pos = DiskFile (file_id (fst (disk ! f))) r, pd_lsn = l\<rparr>)"
proof -
  have f: "f < length (ds_files w)" using assms by (metis length_map row_written_def)
  have "fst (ds_files w ! f) = fst (disk ! f)"
    using assms f by (metis length_map nth_map row_written_def)
  then show ?thesis
    using assms(1) f by (simp add: remap_deletion_if_needed_def row_written_def index_res_def case_prod_unfold Let_def)
qed

text \<open>
  A live row is placed in the files: it is found at some position, a deletion of it is
  remapped there, and the index built, if any, leads from its key to that position.
\<close>

definition live_row_placed ::
  "('b, 'z) arrow_ops_scheme \<Rightarrow> index_builder \<Rightarrow> string \<Rightarrow> (hash_item list \<Rightarrow> u64) \<Rightarrow> identity_prop \<Rightarrow>
   ('b, 's, 'k, 'm) disk_slice_writer \<Rightarrow> (mooncake_data_file \<times> 'b list) list \<Rightarrow> lsn \<Rightarrow>
   u64 \<times> nat \<times> moonlink_row \<Rightarrow> bool" where
  "live_row_placed ops build dir ahash ident w disk l p \<longleftrightarrow> (case p of (b, i, row) \<Rightarrow>
     \<exists>f r. f < length disk \<and> r < length (file_rows (batch_rows ops) (disk ! f))
       \<and> file_rows (batch_rows ops) (disk ! f) ! r = row
       \<and> remap_deletion_if_needed w \<lparr>pd_pos = MemoryBatch b i, pd_lsn = l\<rparr>
           = Ok (Some (DiskFile (file_id (fst (disk ! f))) r), \<lparr>pd_pos = DiskFile (file_id (fst (disk ! f))) r, pd_lsn = l\<rparr>)
       \<and> (\<forall>gi. ds_new_index w = Some gi \<longrightarrow> (\<exists>entries fid key ikey. build (map fst disk) dir entries fid = Inr gi
             \<and> row_key ahash ident row = Ok (key, ikey) \<and> (key, f, r) \<in> set entries)))"

lemma live_row_place:
  assumes inv: "slice_inv ops iops ahash ident s c" and uniq: "ident \<noteq> FullRow"
    and ids: "distinct (map be_id es)"
    and live: "slice_live ops s = {(be_id e, i, entry_rows (batch_rows ops) e ! i) | e i. e \<in> set es \<and> i \<in> set (live_idx (batch_rows ops) e)}"
    and wr: "slice_written (batch_rows ops) es w disk" and w': "w' = w\<lparr>ds_new_index := ni\<rparr>"
    and ni: "\<forall>gi. ni = Some gi \<longrightarrow> (\<exists>entries fid. build (map fst disk) dir entries fid = Inr gi
          \<and> (\<forall>k ident b off. (k, ident, MemoryBatch b off) \<in># index_entries iops (slice_index s) \<longrightarrow>
              (\<exists>e j f r. e \<in> set es \<and> be_id e = b \<and> (k, f, r) \<in> set entries \<and> row_written (batch_rows ops) w disk e off j f r)))"
    and row: "p \<in> slice_live ops s"
  shows "live_row_placed ops build dir ahash ident w' disk l p"
proof -
  let ?rows = "batch_rows ops"
  obtain b i r0 where p: "p = (b, i, r0)" by (cases p)
  obtain key ikey where key: "row_key ahash ident r0 = Ok (key, ikey)"
    using inv row p by (auto simp: slice_inv_def is_ok_iff)
  have mem: "(key, ikey, MemoryBatch b i) \<in># index_entries iops (slice_index s)"
    using inv uniq row p key finite_live_entries[of ahash ident "store_view ops (column_store s)"]
    by (auto simp: slice_inv_def live_entries_def)
  obtain e where e: "e \<in> set es" "be_id e = b" "i \<in> set (live_idx ?rows e)" "r0 = entry_rows ?rows e ! i"
    using row p unfolding live by auto
  have same: "e' = e" if "e' \<in> set es" "be_id e' = b" for e'
    using ids e(1,2) that by (metis distinct_map inj_onD)
  have det: "f' = f \<and> r' = r" if "row_written ?rows w disk e i j f r" "row_written ?rows w disk e i j' f' r'" for j f r j' f' r'
    using that by (simp add: row_written_def)
  obtain j f r where rw: "row_written ?rows w disk e i j f r"
    using wr e(1,3) unfolding slice_written_def by blast
  have "map fst (ds_files w') = map fst disk" using wr w' by (simp add: slice_written_def)
  moreover have "row_written ?rows w' disk e i j f r" using rw w' by (simp add: row_written_def)
  ultimately have rm: "remap_deletion_if_needed w' \<lparr>pd_pos = MemoryBatch b i, pd_lsn = l\<rparr>
        = Ok (Some (DiskFile (file_id (fst (disk ! f))) r), \<lparr>pd_pos = DiskFile (file_id (fst (disk ! f))) r, pd_lsn = l\<rparr>)"
    using remap_written e(2) by blast
  have "\<exists>entries fid key ikey. build (map fst disk) dir entries fid = Inr gi
      \<and> row_key ahash ident r0 = Ok (key, ikey) \<and> (key, f, r) \<in> set entries" if "ds_new_index w' = Some gi" for gi
  proof -
    have "ni = Some gi" using that w' by simp
    then obtain entries fid e' j' f' r' where "build (map fst disk) dir entries fid = Inr gi"
      "e' \<in> set es" "be_id e' = b" "(key, f', r') \<in> set entries" "row_written ?rows w disk e' i j' f' r'"
      using ni mem by blast
    then show ?thesis using same[of e'] det[OF rw, of j' f' r'] key by blast
  qed
  then show ?thesis using rm rw e(4) unfolding row_written_def live_row_placed_def p by blast
qed


text \<open>A witness: one row appended to a slice of two rows per batch, drained and written.\<close>

definition plain_writer :: "'b parquet_writer" where
  "plain_writer = \<lparr>pw_create = (\<lambda>_. None), pw_write = (\<lambda>_ _. None), pw_memory_size = length, pw_finish = (\<lambda>_. None),
     pw_bytes_written = length, random_file_name = (\<lambda>d _. d)\<rparr>"

definition plain_builder :: index_builder where
  "plain_builder files dir entries fid = Inr \<lparr>gi_files = files, gi_num_rows = word_of_nat (length entries),
     gi_hash_bits = 0, gi_hash_upper_bits = 0, gi_hash_lower_bits = 0, gi_seg_id_bits = 0, gi_row_id_bits = 0,
     gi_bucket_bits = 0, gi_index_blocks = []\<rparr>"

lemma demo_drain:
  "\<exists>s0 c1 s c batch es idx s' c'. demo_slice = Ok (s0, c1)
    \<and> res_fold (slice_step plain_arrow list_index (\<lambda>_. 0) (SinglePrimitiveKey 0)) (s0, c1)
        [SliceAppend \<lparr>row_values = [Int32 7]\<rparr>] = Ok (s, c)
    \<and> slice_drain plain_arrow list_index s c = Ok (Inr (batch, es, idx), s', c') \<and> length es = 1"
proof -
  have n: "next_batch_id (new_batch_id_counter False) = Ok (0x8000000000000001, \<lparr>counter = 0x8000000000000001, is_streaming = False\<rparr>)"
    by (simp add: next_batch_id_def get_and_next_def new_batch_id_counter_def below_limit_def load_counter_def
      fetch_add_def STREAMING_BATCH_ID_MAX_def)
  have n2: "next_batch_id \<lparr>counter = 0x8000000000000001, is_streaming = False\<rparr> = Ok (0x8000000000000002, \<lparr>counter = 0x8000000000000002, is_streaming = False\<rparr>)"
    by (simp add: next_batch_id_def get_and_next_def below_limit_def load_counter_def
      fetch_add_def STREAMING_BATCH_ID_MAX_def)
  from n n2 show ?thesis
    by (simp add: demo_slice_def new_mem_slice_def new_column_store_buffer_def new_builders_def
      append_row_def slice_append_def append_value.simps(1) append_leaf_def row_key_def get_lookup_key_def
      extract_identity_for_key_def to_u64_key_def index_res_def insert_index_def new_mem_index_def
      slice_drain_def finalize_current_batch_def finish_columns_def drain_column_store_def plain_arrow_def arrow_bits.defs)
qed


section \<open>Batches without a live row\<close>

definition writer_ok :: "'b parquet_writer \<Rightarrow> bool" where
  "writer_ok pw \<longleftrightarrow> (\<forall>p. pw_create pw p = None) \<and> (\<forall>bs b. pw_write pw bs b = None) \<and> (\<forall>bs. pw_finish pw bs = None)"

lemma finish_file_total: "writer_ok pw \<Longrightarrow> \<exists>t. finish_file pw s = Inr t"
  by (auto simp: writer_ok_def finish_file_def split: option.splits)

lemma write_batches_total:
  "writer_ok pw \<Longrightarrow> write_batches pw w es s = Ok r \<Longrightarrow> \<exists>t. r = Inr t"
proof (induction es arbitrary: s)
  case Nil
  then show ?case using finish_file_total[of pw s] by auto
next
  case (Cons e es)
  obtain q where q: "write_one_batch pw w e s = Ok q" using Cons.prems(2)
    by (cases "write_one_batch pw w e s") auto
  obtain t where "q = Inr t"
  proof -
    obtain o1 where o1: "open_file pw w s = Ok o1" using q
      by (cases "open_file pw w s") (auto simp: write_one_batch_def split: prod.splits)
    have "\<exists>t. o1 = Inr t" using o1 Cons.prems(1)
      by (auto simp: open_file_def Let_def writer_ok_def split: option.splits)
    then show ?thesis
      using q o1 that Cons.prems(1) finish_file_total[OF Cons.prems(1)]
      by (auto simp: write_one_batch_def Let_def writer_ok_def split: prod.splits if_splits) metis
  qed
  then show ?case using Cons.IH[OF Cons.prems(1), of t] Cons.prems(2) q by simp
qed

lemma filter_map_res_panics:
  "v \<in> set vs \<Longrightarrow> f v = Panic p \<Longrightarrow> \<exists>q. filter_map_res f vs = Panic q"
proof (induction vs)
  case (Cons u vs)
  show ?case
  proof (cases "u = v")
    case False
    then obtain q where "filter_map_res f vs = Panic q" using Cons by auto
    then show ?thesis by (cases "f u") auto
  qed (use Cons.prems in simp)
qed simp

lemma remap_into_vec_panics:
  assumes "(k, ident, loc) \<in># index_entries iops idx" and "remap_location ids mp (k, loc) = Panic p"
  shows "\<exists>q. remap_into_vec iops idx ids mp = Panic q"
proof (cases idx)
  case (SinglePrimitive t)
  then obtain v where "v \<in> set (ht_iter (ix_single iops) t)" "spk_hash v = k" "spk_location v = loc"
    using assms(1) by (auto simp: index_entries_def)
  then show ?thesis
    using filter_map_res_panics[of v _ "\<lambda>v. remap_location ids mp (spk_hash v, spk_location v)"] assms(2)
    by (simp add: SinglePrimitive remap_into_vec_def)
next
  case (KeyIndex t)
  then obtain v where "v \<in> set (ht_iter (ix_key iops) t)" "kwi_hash v = k" "kwi_location v = loc"
    using assms(1) by (auto simp: index_entries_def)
  then show ?thesis
    using filter_map_res_panics[of v _ "\<lambda>v. remap_location ids mp (kwi_hash v, kwi_location v)"] assms(2)
    by (simp add: KeyIndex remap_into_vec_def)
next
  case (FullRowIndex m)
  then have "(k, loc) \<in> set (mm_flat_iter (ix_multi iops) m)"
    using assms(1) by (auto simp: index_entries_def)
  then show ?thesis
    using filter_map_res_panics assms(2) by (simp add: FullRowIndex remap_into_vec_def)
qed (use assms in \<open>simp add: index_entries_def\<close>)

text \<open>
  C30: a slice cannot be flushed when its index still has an entry in a batch all of whose rows
  are deleted and another batch has a live row. The batch without live rows is not numbered, and
  the remapping of the index looks its number up and panics. The index of a table identified by
  the full row keeps the entries of deleted rows, so such a table reaches this by
  deleting a full batch of rows in memory.
\<close>

theorem dead_batch_panics_flush:
  assumes "arrow_batches_ok ops rows" and "index_ops_ok iops" and "writer_ok pw" and "\<forall>e \<in> set es. drained rows e"
    and "distinct (map be_id es)" and "length es < 100" and "dead \<in> set es" and "live_idx rows dead = []"
    and "e \<in> set es" and "live_idx rows e \<noteq> []" and "(k, ident, MemoryBatch (be_id dead) off) \<in># index_entries iops idx"
  shows "\<exists>p. write_slice ops iops pw build (new_disk_slice_writer schema dir es lsn x (ptr, idx) psize) = Panic p"
proof -
  let ?w0 = "new_disk_slice_writer schema dir es lsn x (ptr, idx) psize"
  obtain filtered nums mp q where flt: "filter_batches ops es [] Map.empty [] = Ok (Inr (filtered, nums, mp))"
    and q: "write_batch_to_parquet pw (?w0\<lparr>batch_id_to_idx := nums, row_offset_mapping := mp\<rparr>) filtered = Ok q"
    and q_ok: "\<And>w disk. q = Inr (w, disk) \<Longrightarrow> slice_written rows es w disk \<and> ds_old_index w = (ptr, idx)
      \<and> batch_id_to_idx w = numbering 0 (kept rows es)"
    using files_written[OF assms(1,4-6) refl] by blast
  have w0: "ds_batches ?w0 = es" "batch_id_to_idx ?w0 = Map.empty" "row_offset_mapping ?w0 = []"
    by (simp_all add: new_disk_slice_writer_def)
  obtain w disk where wd: "q = Inr (w, disk)"
  proof -
    have "\<exists>p. q = Inr p"
      using q by (auto simp: write_batch_to_parquet_def try_bind_def dest!: write_batches_total[OF assms(3)])
    then show ?thesis using that by force
  qed
  note W = q_ok[OF wd]
  have "be_id dead \<notin> be_id ` set (kept rows es)"
  proof
    assume "be_id dead \<in> be_id ` set (kept rows es)"
    then obtain d where "d \<in> set es" "be_id d = be_id dead" "live_idx rows d \<noteq> []" by (auto simp: kept_def)
    then show False using assms(5,7,8) by (metis distinct_map inj_onD)
  qed
  then have rl: "remap_location (batch_id_to_idx w) (row_offset_mapping w) (k, MemoryBatch (be_id dead) off) = Panic UnwrapNone"
    using W numbering_None[of "be_id dead" "kept rows es" 0] by (simp add: remap_location_def)
  obtain p where p: "remap_into_vec iops (snd (ds_old_index w)) (batch_id_to_idx w) (row_offset_mapping w) = Panic p"
    using remap_into_vec_panics[OF assms(11) rl] W by auto
  have "concat (map (file_rows rows) disk) \<noteq> []" using W assms(9,10) unfolding slice_written_def by fastforce
  then have "ds_files w \<noteq> []" using W unfolding slice_written_def by auto
  moreover have "\<not> index_is_empty iops (snd (ds_old_index w))"
    using W assms(11) hash_table_okD(2)[OF index_ops_okD(1)[OF assms(2)]] hash_table_okD(2)[OF index_ops_okD(2)[OF assms(2)]]
      multi_map_okD(2)[OF index_ops_okD(3)[OF assms(2)]]
    by (cases idx) (auto simp: index_is_empty_def index_entries_def)
  ultimately have "remap_index iops build w = Panic p" using p by (simp add: remap_index_def)
  then show ?thesis using flt q wd by (simp add: write_slice_def w0)
qed

theorem dead_batch_panics_flush_witness:
  "\<exists>p. write_slice list_batches list_index plain_writer plain_builder
     (new_disk_slice_writer [] ''d''
       [\<lparr>be_id = 1, be_batch = \<lparr>batch_data = Some [7 :: nat], deletions = \<lparr>deletion_vector = Some [0], max_rows = 1\<rparr>\<rparr>\<rparr>,
        \<lparr>be_id = 2, be_batch = \<lparr>batch_data = Some [8], deletions = new_deletion_vector 1\<rparr>\<rparr>]
       (Some 9) 4 (0, FullRowIndex [(5, MemoryBatch 1 0), (6, MemoryBatch 2 0)]) 100) = Panic p"
proof -
  let ?dv = "\<lparr>deletion_vector = Some [0 :: u8], max_rows = 1\<rparr>"
  let ?a = "\<lparr>be_id = 1, be_batch = \<lparr>batch_data = Some [7 :: nat], deletions = ?dv\<rparr>\<rparr>"
  let ?b = "\<lparr>be_id = 2, be_batch = \<lparr>batch_data = Some [8 :: nat], deletions = new_deletion_vector 1\<rparr>\<rparr>"
  have wf: "dv_wf ?dv" "dv_wf (new_deletion_vector 1)" by code_simp+
  have dead: "live_idx (\<lambda>b. b) ?a = []" by (simp add: live_idx_def deleted_rows_def byte_bit_def)
  have live: "live_idx (\<lambda>b. b) ?b \<noteq> []" by (simp add: live_idx_def deleted_rows_def new_deletion_vector_def)
  have dr: "\<forall>e \<in> set [?a, ?b]. drained (\<lambda>b. b) e"
    using wf by (simp add: drained_def entry_rows_def) (simp add: new_deletion_vector_def)
  show ?thesis
    by (rule dead_batch_panics_flush[OF list_batches_ok list_index_ok _ dr _ _ _ dead _ live])
      (auto simp: writer_ok_def plain_writer_def index_entries_def list_index_def list_multi_map_def)
qed

end
