(* ===== verification/Persistence_Buffer.thy ===== *)
theory Persistence_Buffer
  imports Snapshot_Task
begin

text \<open>
  Unpersisted records (\<^verbatim>\<open>storage/mooncake_table/persistence_buffer.rs\<close>): the files, indices and
  compaction results of mooncake snapshots that wait to be persisted. Each snapshot appends to
  the buffer; a persistence takes everything in it, and when its result comes back, the
  persisted part is cut off the front.
\<close>

section \<open>Model\<close>

record unpersisted_records =
  ur_config :: mooncake_table_config
  new_data_files :: "mooncake_data_file list"
  new_file_indices :: "global_index list"
  merged_file_indices_to_remove :: "global_index list"
  merged_file_indices_to_add :: "global_index list"
  compacted_data_files_to_remove :: "mooncake_data_file list"
  compacted_data_files_to_add :: "mooncake_data_file list"
  compacted_file_indices_to_remove :: "global_index list"
  compacted_file_indices_to_add :: "global_index list"
  compacted_data_file_remap :: record_remap

definition new_unpersisted_records :: "mooncake_table_config \<Rightarrow> unpersisted_records" where
  "new_unpersisted_records cfg =
     \<lparr>ur_config = cfg, new_data_files = [], new_file_indices = [], merged_file_indices_to_remove = [],
      merged_file_indices_to_add = [], compacted_data_files_to_remove = [],
      compacted_data_files_to_add = [], compacted_file_indices_to_remove = [],
      compacted_file_indices_to_add = [], compacted_data_file_remap = []\<rparr>"

text \<open>
  Data files are hashed by their id and file indices by the ids of their files. The second
  set is checked against the number of compacted data files, not of compacted indices.
\<close>

definition index_files :: "global_index \<Rightarrow> file_id list" where
  "index_files i = map file_id (gi_files i)"

definition get_unpersisted_data_files_set :: "unpersisted_records \<Rightarrow> file_id set res" where
  "get_unpersisted_data_files_set u =
     (let expected_len = length (new_data_files u) + length (compacted_data_files_to_add u);
          unpersisted = file_id ` set (new_data_files u @ compacted_data_files_to_add u)
      in check (expected_len = card unpersisted) AssertFailed (Ok unpersisted))"

definition get_unpersisted_file_indices_set :: "unpersisted_records \<Rightarrow> file_id list set res" where
  "get_unpersisted_file_indices_set u =
     (let expected_len = length (new_file_indices u) + length (merged_file_indices_to_add u)
            + length (compacted_data_files_to_add u);
          unpersisted = index_files ` set (new_file_indices u @ merged_file_indices_to_add u
            @ compacted_file_indices_to_add u)
      in check (expected_len = card unpersisted) AssertFailed (Ok unpersisted))"

subsection \<open>Buffering\<close>

definition buffer_unpersisted_iceberg_new_data_files ::
  "('b, 's, 'k, 'm) snapshot_task \<Rightarrow> unpersisted_records \<Rightarrow> unpersisted_records" where
  "buffer_unpersisted_iceberg_new_data_files t u =
     u\<lparr>new_data_files := new_data_files u @ get_new_data_files t\<rparr>"

definition buffer_unpersisted_iceberg_new_file_indices ::
  "('b, 's, 'k, 'm) snapshot_task \<Rightarrow> unpersisted_records \<Rightarrow> unpersisted_records" where
  "buffer_unpersisted_iceberg_new_file_indices t u =
     u\<lparr>new_file_indices := new_file_indices u @ get_new_file_indices t\<rparr>"

definition buffer_unpersisted_iceberg_merged_file_indices ::
  "('b, 's, 'k, 'm) snapshot_task \<Rightarrow> unpersisted_records \<Rightarrow> unpersisted_records" where
  "buffer_unpersisted_iceberg_merged_file_indices t u =
     u\<lparr>merged_file_indices_to_add := merged_file_indices_to_add u @ fmr_new_file_indices (st_index_merge_result t),
       merged_file_indices_to_remove := merged_file_indices_to_remove u @ fmr_old_file_indices (st_index_merge_result t)\<rparr>"

definition buffer_unpersisted_iceberg_compaction_data ::
  "('b, 's, 'k, 'm) snapshot_task \<Rightarrow> unpersisted_records \<Rightarrow> unpersisted_records res" where
  "buffer_unpersisted_iceberg_compaction_data t u =
     (let r = st_data_compaction_result t
      in res_bind (compaction_result_is_empty r) (\<lambda>empty.
         if empty then Ok u
         else check (compacted_data_file_remap u = []) AssertFailed (Ok (
           u\<lparr>compacted_data_files_to_add := compacted_data_files_to_add u @ map fst (dcr_new_data_files r),
             compacted_data_files_to_remove := compacted_data_files_to_remove u @ dcr_old_data_files r,
             compacted_file_indices_to_add := compacted_file_indices_to_add u @ dcr_new_file_indices r,
             compacted_file_indices_to_remove := compacted_file_indices_to_remove u @ dcr_old_file_indices r,
             compacted_data_file_remap := dcr_remapped_data_files r\<rparr>))))"

definition buffer_unpersisted_records ::
  "('b, 's, 'k, 'm) snapshot_task \<Rightarrow> unpersisted_records \<Rightarrow> unpersisted_records res" where
  "buffer_unpersisted_records t u =
     buffer_unpersisted_iceberg_compaction_data t
       (buffer_unpersisted_iceberg_merged_file_indices t
         (buffer_unpersisted_iceberg_new_file_indices t
           (buffer_unpersisted_iceberg_new_data_files t u)))"

subsection \<open>Pruning\<close>

text \<open>\<^verbatim>\<open>drain(0..n)\<close> after the assertion that there are that many.\<close>

definition drain_front :: "nat \<Rightarrow> 'a list \<Rightarrow> 'a list res" where
  "drain_front n xs = check (length xs \<ge> n) AssertFailed (Ok (drop n xs))"

definition prune_persisted_data_files ::
  "persisted_records \<Rightarrow> unpersisted_records \<Rightarrow> unpersisted_records res" where
  "prune_persisted_data_files pr u =
     res_bind (drain_front (length (res_new_data_files (pr_import_result pr))) (new_data_files u))
       (\<lambda>xs. Ok (u\<lparr>new_data_files := xs\<rparr>))"

definition prune_persisted_file_indices ::
  "persisted_records \<Rightarrow> unpersisted_records \<Rightarrow> unpersisted_records res" where
  "prune_persisted_file_indices pr u =
     res_bind (drain_front (length (res_new_file_indices (pr_import_result pr))) (new_file_indices u))
       (\<lambda>xs. Ok (u\<lparr>new_file_indices := xs\<rparr>))"

definition prune_persisted_merged_indices ::
  "persisted_records \<Rightarrow> unpersisted_records \<Rightarrow> unpersisted_records res" where
  "prune_persisted_merged_indices pr u =
     (let r = pr_index_merge_result pr
      in res_bind (drain_front (length (old_file_indices_removed r)) (merged_file_indices_to_remove u)) (\<lambda>xs.
         res_bind (drain_front (length (new_file_indices_imported r)) (merged_file_indices_to_add u)) (\<lambda>ys.
         Ok (u\<lparr>merged_file_indices_to_remove := xs, merged_file_indices_to_add := ys\<rparr>))))"

definition prune_persisted_compacted_data ::
  "persisted_records \<Rightarrow> unpersisted_records \<Rightarrow> unpersisted_records res" where
  "prune_persisted_compacted_data pr u =
     (let r = pr_data_compaction_result pr
      in res_bind (drain_front (length (compacted_data_files_imported r)) (compacted_data_files_to_add u)) (\<lambda>a.
         res_bind (drain_front (length (compacted_data_files_removed r)) (compacted_data_files_to_remove u)) (\<lambda>b.
         res_bind (drain_front (length (compacted_indices_imported r)) (compacted_file_indices_to_add u)) (\<lambda>c.
         res_bind (drain_front (length (compacted_indices_removed r)) (compacted_file_indices_to_remove u)) (\<lambda>d.
         let u = u\<lparr>compacted_data_files_to_add := a, compacted_data_files_to_remove := b,
                   compacted_file_indices_to_add := c, compacted_file_indices_to_remove := d\<rparr>
         in if compacted_records_remap r = [] then Ok u
            else check (length (compacted_records_remap r) = length (compacted_data_file_remap u)) AssertFailed
                   (Ok (u\<lparr>compacted_data_file_remap := []\<rparr>)))))))"

definition prune_persisted_records ::
  "persisted_records \<Rightarrow> unpersisted_records \<Rightarrow> unpersisted_records res" where
  "prune_persisted_records pr u =
     res_bind (prune_persisted_data_files pr u) (\<lambda>u.
     res_bind (prune_persisted_file_indices pr u) (\<lambda>u.
     res_bind (prune_persisted_merged_indices pr u) (prune_persisted_compacted_data pr)))"

subsection \<open>Thresholds\<close>

definition if_persist_by_data_compaction :: "unpersisted_records \<Rightarrow> bool \<Rightarrow> bool" where
  "if_persist_by_data_compaction u force =
     (let new_threshold = if \<not> force then pc_new_compacted_data_file_count (persistence_config (ur_config u)) else 1;
          old_threshold = if \<not> force then pc_old_compacted_data_file_count (persistence_config (ur_config u)) else 1
      in length (compacted_data_files_to_add u) \<ge> new_threshold
         \<or> length (compacted_data_files_to_remove u) \<ge> old_threshold)"

definition if_persist_by_index_merge :: "unpersisted_records \<Rightarrow> bool \<Rightarrow> bool" where
  "if_persist_by_index_merge u force =
     (let threshold = if \<not> force then pc_old_merged_file_indices_count (persistence_config (ur_config u)) else 1
      in length (merged_file_indices_to_add u) \<ge> threshold)"

definition if_persist_by_data_files :: "unpersisted_records \<Rightarrow> bool \<Rightarrow> bool" where
  "if_persist_by_data_files u force =
     (let threshold = if \<not> force then pc_new_data_file_count (persistence_config (ur_config u)) else 1
      in length (new_data_files u) \<ge> threshold)"

definition if_persist_by_new_files_or_maintenance :: "unpersisted_records \<Rightarrow> bool \<Rightarrow> bool" where
  "if_persist_by_new_files_or_maintenance u force =
     (if if_persist_by_data_files u force then True
      else if if_persist_by_data_compaction u force then True
      else if if_persist_by_index_merge u force then True
      else False)"

text \<open>The emptiness of the removed indices is read off the removed data files.\<close>

definition validate_invariants :: "unpersisted_records \<Rightarrow> unit res" where
  "validate_invariants u =
     (if append_only (ur_config u) then Ok ()
      else check ((new_data_files u = []) = (new_file_indices u = [])) AssertFailed (
        check ((merged_file_indices_to_add u = []) = (merged_file_indices_to_remove u = [])) AssertFailed (
        let old_data_empty = compacted_data_files_to_remove u = [];
            new_data_empty = compacted_data_files_to_add u = [];
            old_indices_empty = compacted_data_files_to_remove u = [];
            new_indices_empty = compacted_file_indices_to_add u = []
        in if old_data_empty then
             check new_data_empty AssertFailed (
             check old_indices_empty AssertFailed (
             check new_indices_empty AssertFailed (Ok ())))
           else check (\<not> old_indices_empty) AssertFailed (Ok ()))))"

subsection \<open>The persistence payload\<close>

text \<open>\<^verbatim>\<open>get_persistence_snapshot_payload\<close> copies the buffer into the payload (\<^verbatim>\<open>snapshot_persistence.rs\<close>).\<close>

record committed_deletion_to_persist =
  cdp_committed_deletion_logs :: "(file_id \<times> nat) set"
  cdp_new_deletions_to_persist :: "(mooncake_data_file \<times> batch_deletion_vector) list"

definition get_persistence_snapshot_payload ::
  "unpersisted_records \<Rightarrow> iceberg_snapshot_option \<Rightarrow> lsn \<Rightarrow> committed_deletion_to_persist \<Rightarrow>
   'md persistence_snapshot_payload res" where
  "get_persistence_snapshot_payload u opt flush_lsn dels =
     unwrap (get_event_id opt) (\<lambda>event_id. Ok
       \<lparr>psp_uuid = event_id, psp_flush_lsn = flush_lsn,
        psp_committed_deletion_logs = cdp_committed_deletion_logs dels, psp_new_table_schema = None,
        psp_import_payload =
          \<lparr>import_data_files = new_data_files u,
           new_deletion_vector_map = cdp_new_deletions_to_persist dels,
           import_file_indices = new_file_indices u\<rparr>,
        psp_index_merge_payload =
          \<lparr>merge_indices_to_import = merged_file_indices_to_add u,
           merge_indices_to_remove = merged_file_indices_to_remove u\<rparr>,
        psp_data_compaction_payload =
          \<lparr>compaction_data_files_to_import = compacted_data_files_to_add u,
           compaction_data_files_to_remove = compacted_data_files_to_remove u,
           compaction_indices_to_import = compacted_file_indices_to_add u,
           compaction_indices_to_remove = compacted_file_indices_to_remove u,
           compaction_records_remap = compacted_data_file_remap u\<rparr>\<rparr>)"

text \<open>
  The result a persistence task sends back (\<^verbatim>\<open>persist_iceberg_snapshot_impl\<close>): the table manager
  returns the remote data files and file indices, which are cut at the sizes of the payload;
  \<open>None\<close> is an error of the table manager.
\<close>

record persistence_result =
  remote_data_files :: "mooncake_data_file list"
  remote_file_indices :: "global_index list"
  remote_puffin_blob_ref :: "(file_id \<times> puffin_blob_ref) list"
  remote_evicted_files :: "string list"

definition persist_iceberg_snapshot_impl ::
  "('md persistence_snapshot_payload \<Rightarrow> error + persistence_result) \<Rightarrow> 'md persistence_snapshot_payload \<Rightarrow>
   (error + 'md persistence_snapshot_result) res" where
  "persist_iceberg_snapshot_impl sync_snapshot p =
     (let imp = psp_import_payload p; mrg = psp_index_merge_payload p; cmp = psp_data_compaction_payload p
      in case sync_snapshot p of
           Inl e \<Rightarrow> Ok (Inl e)
         | Inr r \<Rightarrow>
             let d1 = length (import_data_files imp);
                 d2 = d1 + length (compaction_data_files_to_import cmp);
                 i1 = length (import_file_indices imp);
                 i2 = i1 + length (merge_indices_to_import mrg);
                 i3 = i2 + length (compaction_indices_to_import cmp)
             in check (d2 = length (remote_data_files r)) AssertFailed (
                check (i3 = length (remote_file_indices r)) AssertFailed (Ok (Inr
                  \<lparr>psr_uuid = psp_uuid p, psr_flush_lsn = psp_flush_lsn p,
                   psr_new_table_schema = psp_new_table_schema p,
                   psr_committed_deletion_logs = psp_committed_deletion_logs p,
                   psr_import_result =
                     \<lparr>res_new_data_files = take d1 (remote_data_files r),
                      res_puffin_blob_ref = remote_puffin_blob_ref r,
                      res_new_file_indices = take i1 (remote_file_indices r)\<rparr>,
                   psr_index_merge_result =
                     \<lparr>new_file_indices_imported = take (i2 - i1) (drop i1 (remote_file_indices r)),
                      old_file_indices_removed = merge_indices_to_remove mrg\<rparr>,
                   psr_data_compaction_result =
                     \<lparr>compacted_data_files_imported = take (d2 - d1) (drop d1 (remote_data_files r)),
                      compacted_data_files_removed = compaction_data_files_to_remove cmp,
                      compacted_indices_imported = take (i3 - i2) (drop i2 (remote_file_indices r)),
                      compacted_indices_removed = compaction_indices_to_remove cmp,
                      compacted_records_remap = compaction_records_remap cmp\<rparr>,
                   psr_evicted_files_to_delete = remote_evicted_files r\<rparr>))))"

definition persisted_of :: "'md persistence_snapshot_result \<Rightarrow> persisted_records" where
  "persisted_of r =
     \<lparr>pr_flush_lsn = Some (psr_flush_lsn r), pr_import_result = psr_import_result r,
      pr_index_merge_result = psr_index_merge_result r,
      pr_data_compaction_result = psr_data_compaction_result r\<rparr>"

text \<open>Recording the result in the next snapshot task, which must not hold an earlier one.\<close>

definition set_persisted_records ::
  "'md persistence_snapshot_result \<Rightarrow> persisted_records \<Rightarrow> persisted_records res" where
  "set_persisted_records r pr =
     check (pr_flush_lsn pr = None) AssertFailed (
     check (import_result_is_empty (pr_import_result pr)) AssertFailed (
     res_bind (index_merge_result_is_empty (pr_index_merge_result pr)) (\<lambda>e.
     check e AssertFailed (
     res_bind (data_compaction_result_is_empty (pr_data_compaction_result pr)) (\<lambda>e.
     check e AssertFailed (Ok (persisted_of r)))))))"

lemma set_persisted_records_first [simp]: "set_persisted_records r empty_persisted_records = Ok (persisted_of r)"
  by (simp add: set_persisted_records_def empty_persisted_records_def import_result_is_empty_def
      index_merge_result_is_empty_def data_compaction_result_is_empty_def)

section \<open>The buffer as queues\<close>

text \<open>The eight lists of the buffer, by kind, and what a task, a payload and a result say of each.\<close>

datatype record_kind =
    NewDataFile | NewFileIndex | MergedRemoved | MergedAdded
  | CompactedFileRemoved | CompactedFileAdded | CompactedIndexRemoved | CompactedIndexAdded

type_synonym buffered_item = "mooncake_data_file + global_index"

fun items :: "unpersisted_records \<Rightarrow> record_kind \<Rightarrow> buffered_item list" where
  "items u NewDataFile = map Inl (new_data_files u)"
| "items u NewFileIndex = map Inr (new_file_indices u)"
| "items u MergedRemoved = map Inr (merged_file_indices_to_remove u)"
| "items u MergedAdded = map Inr (merged_file_indices_to_add u)"
| "items u CompactedFileRemoved = map Inl (compacted_data_files_to_remove u)"
| "items u CompactedFileAdded = map Inl (compacted_data_files_to_add u)"
| "items u CompactedIndexRemoved = map Inr (compacted_file_indices_to_remove u)"
| "items u CompactedIndexAdded = map Inr (compacted_file_indices_to_add u)"

fun compaction_items :: "data_compaction_result \<Rightarrow> record_kind \<Rightarrow> buffered_item list" where
  "compaction_items r CompactedFileRemoved = map Inl (dcr_old_data_files r)"
| "compaction_items r CompactedFileAdded = map (\<lambda>p. Inl (fst p)) (dcr_new_data_files r)"
| "compaction_items r CompactedIndexRemoved = map Inr (dcr_old_file_indices r)"
| "compaction_items r CompactedIndexAdded = map Inr (dcr_new_file_indices r)"
| "compaction_items r _ = []"

fun task_items :: "('b, 's, 'k, 'm) snapshot_task \<Rightarrow> record_kind \<Rightarrow> buffered_item list" where
  "task_items t NewDataFile = map Inl (get_new_data_files t)"
| "task_items t NewFileIndex = map Inr (get_new_file_indices t)"
| "task_items t MergedRemoved = map Inr (fmr_old_file_indices (st_index_merge_result t))"
| "task_items t MergedAdded = map Inr (fmr_new_file_indices (st_index_merge_result t))"
| "task_items t k = (if dcr_old_data_files (st_data_compaction_result t) = [] then []
     else compaction_items (st_data_compaction_result t) k)"

fun payload_items :: "'md persistence_snapshot_payload \<Rightarrow> record_kind \<Rightarrow> buffered_item list" where
  "payload_items p NewDataFile = map Inl (import_data_files (psp_import_payload p))"
| "payload_items p NewFileIndex = map Inr (import_file_indices (psp_import_payload p))"
| "payload_items p MergedRemoved = map Inr (merge_indices_to_remove (psp_index_merge_payload p))"
| "payload_items p MergedAdded = map Inr (merge_indices_to_import (psp_index_merge_payload p))"
| "payload_items p CompactedFileRemoved = map Inl (compaction_data_files_to_remove (psp_data_compaction_payload p))"
| "payload_items p CompactedFileAdded = map Inl (compaction_data_files_to_import (psp_data_compaction_payload p))"
| "payload_items p CompactedIndexRemoved = map Inr (compaction_indices_to_remove (psp_data_compaction_payload p))"
| "payload_items p CompactedIndexAdded = map Inr (compaction_indices_to_import (psp_data_compaction_payload p))"

fun persisted_count :: "persisted_records \<Rightarrow> record_kind \<Rightarrow> nat" where
  "persisted_count pr NewDataFile = length (res_new_data_files (pr_import_result pr))"
| "persisted_count pr NewFileIndex = length (res_new_file_indices (pr_import_result pr))"
| "persisted_count pr MergedRemoved = length (old_file_indices_removed (pr_index_merge_result pr))"
| "persisted_count pr MergedAdded = length (new_file_indices_imported (pr_index_merge_result pr))"
| "persisted_count pr CompactedFileRemoved = length (compacted_data_files_removed (pr_data_compaction_result pr))"
| "persisted_count pr CompactedFileAdded = length (compacted_data_files_imported (pr_data_compaction_result pr))"
| "persisted_count pr CompactedIndexRemoved = length (compacted_indices_removed (pr_data_compaction_result pr))"
| "persisted_count pr CompactedIndexAdded = length (compacted_indices_imported (pr_data_compaction_result pr))"

abbreviation pruned_remap :: "persisted_records \<Rightarrow> record_remap" where
  "pruned_remap pr \<equiv> compacted_records_remap (pr_data_compaction_result pr)"

lemma buffer_spec:
  assumes "is_ok (compaction_result_is_empty (st_data_compaction_result t))"
    and "dcr_old_data_files (st_data_compaction_result t) \<noteq> [] \<longrightarrow> compacted_data_file_remap u = []"
  shows "\<exists>v. buffer_unpersisted_records t u = Ok v \<and> (\<forall>k. items v k = items u k @ task_items t k)
    \<and> compacted_data_file_remap v = (if dcr_old_data_files (st_data_compaction_result t) = []
        then compacted_data_file_remap u else dcr_remapped_data_files (st_data_compaction_result t))"
proof (cases "dcr_old_data_files (st_data_compaction_result t) = []")
  case True
  have "items (u\<lparr>new_data_files := new_data_files u @ get_new_data_files t,
      new_file_indices := new_file_indices u @ get_new_file_indices t,
      merged_file_indices_to_add := merged_file_indices_to_add u @ fmr_new_file_indices (st_index_merge_result t),
      merged_file_indices_to_remove := merged_file_indices_to_remove u @ fmr_old_file_indices (st_index_merge_result t)\<rparr>) k
      = items u k @ task_items t k" for k
    using True by (cases k) simp_all
  then show ?thesis
    using assms(1) True
    by (simp add: buffer_unpersisted_records_def buffer_unpersisted_iceberg_new_data_files_def
        buffer_unpersisted_iceberg_new_file_indices_def buffer_unpersisted_iceberg_merged_file_indices_def
        buffer_unpersisted_iceberg_compaction_data_def compaction_result_is_empty_def Let_def)
next
  case False
  let ?r = "st_data_compaction_result t"
  have "items (u\<lparr>new_data_files := new_data_files u @ get_new_data_files t,
      new_file_indices := new_file_indices u @ get_new_file_indices t,
      merged_file_indices_to_add := merged_file_indices_to_add u @ fmr_new_file_indices (st_index_merge_result t),
      merged_file_indices_to_remove := merged_file_indices_to_remove u @ fmr_old_file_indices (st_index_merge_result t),
      compacted_data_files_to_add := compacted_data_files_to_add u @ map fst (dcr_new_data_files ?r),
      compacted_data_files_to_remove := compacted_data_files_to_remove u @ dcr_old_data_files ?r,
      compacted_file_indices_to_add := compacted_file_indices_to_add u @ dcr_new_file_indices ?r,
      compacted_file_indices_to_remove := compacted_file_indices_to_remove u @ dcr_old_file_indices ?r,
      compacted_data_file_remap := dcr_remapped_data_files ?r\<rparr>) k = items u k @ task_items t k" for k
    using False by (cases k) simp_all
  then show ?thesis
    using assms(2) False
    by (simp add: buffer_unpersisted_records_def buffer_unpersisted_iceberg_new_data_files_def
        buffer_unpersisted_iceberg_new_file_indices_def buffer_unpersisted_iceberg_merged_file_indices_def
        buffer_unpersisted_iceberg_compaction_data_def compaction_result_is_empty_def Let_def)
qed

lemma prune_spec:
  assumes len: "\<And>k. persisted_count pr k \<le> length (items u k)"
    and remap: "pruned_remap pr \<noteq> [] \<Longrightarrow> length (pruned_remap pr) = length (compacted_data_file_remap u)"
  shows "\<exists>v. prune_persisted_records pr u = Ok v \<and> (\<forall>k. items v k = drop (persisted_count pr k) (items u k))
    \<and> compacted_data_file_remap v = (if pruned_remap pr = [] then compacted_data_file_remap u else [])"
proof -
  let ?i = "pr_import_result pr" and ?m = "pr_index_merge_result pr" and ?c = "pr_data_compaction_result pr"
  let ?v = "u\<lparr>new_data_files := drop (length (res_new_data_files ?i)) (new_data_files u),
      new_file_indices := drop (length (res_new_file_indices ?i)) (new_file_indices u),
      merged_file_indices_to_remove := drop (length (old_file_indices_removed ?m)) (merged_file_indices_to_remove u),
      merged_file_indices_to_add := drop (length (new_file_indices_imported ?m)) (merged_file_indices_to_add u),
      compacted_data_files_to_add := drop (length (compacted_data_files_imported ?c)) (compacted_data_files_to_add u),
      compacted_data_files_to_remove := drop (length (compacted_data_files_removed ?c)) (compacted_data_files_to_remove u),
      compacted_file_indices_to_add := drop (length (compacted_indices_imported ?c)) (compacted_file_indices_to_add u),
      compacted_file_indices_to_remove := drop (length (compacted_indices_removed ?c)) (compacted_file_indices_to_remove u)\<rparr>"
  have it: "items (?v\<lparr>compacted_data_file_remap := m\<rparr>) k = drop (persisted_count pr k) (items u k)"
    "items ?v k = drop (persisted_count pr k) (items u k)" for k m
    by (cases k; simp add: drop_map)+
  have "prune_persisted_records pr u = (if pruned_remap pr = [] then Ok ?v else Ok (?v\<lparr>compacted_data_file_remap := []\<rparr>))"
    using len[of NewDataFile] len[of NewFileIndex] len[of MergedRemoved] len[of MergedAdded]
      len[of CompactedFileRemoved] len[of CompactedFileAdded] len[of CompactedIndexRemoved] len[of CompactedIndexAdded] remap
    by (simp add: prune_persisted_records_def prune_persisted_data_files_def prune_persisted_file_indices_def
        prune_persisted_merged_indices_def prune_persisted_compacted_data_def drain_front_def Let_def)
  then show ?thesis using it by auto
qed

lemma payload_spec:
  assumes "get_persistence_snapshot_payload u opt l dels = Ok p"
  shows "payload_items p k = items u k"
    and "compaction_records_remap (psp_data_compaction_payload p) = compacted_data_file_remap u"
  using assms by (cases k; auto simp: get_persistence_snapshot_payload_def)+

lemma persist_spec:
  assumes "persist_iceberg_snapshot_impl sync p = Ok (Inr r)"
  shows "persisted_count (persisted_of r) k = length (payload_items p k)"
    and "pruned_remap (persisted_of r) = compaction_records_remap (psp_data_compaction_payload p)"
  using assms
  by (cases k; auto simp: persist_iceberg_snapshot_impl_def persisted_of_def Let_def split: sum.splits)+


section \<open>Snapshots and persistences taking turns\<close>

text \<open>
  The state around the buffer: the payload of the persistence that runs, its result until the
  next snapshot, and, as history, everything buffered and everything persisted so far. A
  snapshot prunes the result, buffers its task and may cut a payload for a persistence; a
  persistence ends with the answer of the table manager.
\<close>

record 'md persistence_system =
  ps_buffer :: unpersisted_records
  ps_inflight :: "'md persistence_snapshot_payload option"
  ps_result :: "persisted_records option"
  ps_buffered :: "record_kind \<Rightarrow> buffered_item list"
  ps_persisted :: "record_kind \<Rightarrow> buffered_item list"

datatype ('b, 's, 'k, 'm, 'md) persistence_event =
    TakeSnapshot "('b, 's, 'k, 'm) snapshot_task" iceberg_snapshot_option lsn committed_deletion_to_persist bool
  | PersistenceEnds "'md persistence_snapshot_payload \<Rightarrow> error + persistence_result"

abbreviation pending_result :: "'md persistence_system \<Rightarrow> persisted_records" where
  "pending_result s \<equiv> (case ps_result s of None \<Rightarrow> empty_persisted_records | Some r \<Rightarrow> r)"

fun persistence_step ::
  "'md persistence_system \<Rightarrow> ('b, 's, 'k, 'm, 'md) persistence_event \<Rightarrow> 'md persistence_system res" where
  "persistence_step s (TakeSnapshot t opt l dels persist) =
     res_bind (prune_persisted_records (pending_result s) (ps_buffer s)) (\<lambda>u.
     res_bind (buffer_unpersisted_records t u) (\<lambda>u.
     let s' = s\<lparr>ps_buffer := u, ps_result := None,
                ps_buffered := \<lambda>k. ps_buffered s k @ task_items t k\<rparr>
     in if opt \<noteq> SkipSnapshot \<and> persist then
          res_bind (get_persistence_snapshot_payload u opt l dels) (\<lambda>p. Ok (s'\<lparr>ps_inflight := Some p\<rparr>))
        else Ok s'))"
| "persistence_step s (PersistenceEnds sync) =
     (case ps_inflight s of
        None \<Rightarrow> Ok s
      | Some p \<Rightarrow> res_bind (persist_iceberg_snapshot_impl sync p) (\<lambda>r. case r of
            Inl e \<Rightarrow> Ok (s\<lparr>ps_inflight := None\<rparr>)
          | Inr r \<Rightarrow> res_bind (set_persisted_records r (pending_result s)) (\<lambda>pr.
              Ok (s\<lparr>ps_inflight := None, ps_result := Some pr,
                    ps_persisted := \<lambda>k. ps_persisted s k @ payload_items p k\<rparr>))))"

definition initial_persistence :: "mooncake_table_config \<Rightarrow> 'md persistence_system" where
  "initial_persistence cfg =
     \<lparr>ps_buffer = new_unpersisted_records cfg, ps_inflight = None, ps_result = None,
      ps_buffered = (\<lambda>_. []), ps_persisted = (\<lambda>_. [])\<rparr>"

text \<open>
  What the event loop ensures: a persistence is only cut while none runs, a compaction result
  comes only after the previous one was persisted, and the table manager returns one remote
  file for each file of the payload.
\<close>

definition remap_left :: "'md persistence_system \<Rightarrow> record_remap" where
  "remap_left s = (if pruned_remap (pending_result s) = [] then compacted_data_file_remap (ps_buffer s) else [])"

definition sync_keeps_counts ::
  "('md persistence_snapshot_payload \<Rightarrow> error + persistence_result) \<Rightarrow> 'md persistence_snapshot_payload \<Rightarrow> bool" where
  "sync_keeps_counts sync p = (case sync p of Inl _ \<Rightarrow> True | Inr r \<Rightarrow>
     length (remote_data_files r) = length (payload_items p NewDataFile) + length (payload_items p CompactedFileAdded) \<and>
     length (remote_file_indices r) = length (payload_items p NewFileIndex) + length (payload_items p MergedAdded)
       + length (payload_items p CompactedIndexAdded))"

fun persistence_guard :: "'md persistence_system \<Rightarrow> ('b, 's, 'k, 'm, 'md) persistence_event \<Rightarrow> bool" where
  "persistence_guard s (TakeSnapshot t opt l dels persist) \<longleftrightarrow>
     is_ok (compaction_result_is_empty (st_data_compaction_result t)) \<and>
     (dcr_old_data_files (st_data_compaction_result t) \<noteq> [] \<longrightarrow> remap_left s = []) \<and>
     (opt \<noteq> SkipSnapshot \<and> persist \<longrightarrow> ps_inflight s = None)"
| "persistence_guard s (PersistenceEnds sync) \<longleftrightarrow>
     (case ps_inflight s of None \<Rightarrow> True | Some p \<Rightarrow> sync_keeps_counts sync p)"

text \<open>The records that no finished persistence covers.\<close>

definition waiting :: "'md persistence_system \<Rightarrow> record_kind \<Rightarrow> buffered_item list" where
  "waiting s k = drop (persisted_count (pending_result s) k) (items (ps_buffer s) k)"

definition persistence_inv :: "'md persistence_system \<Rightarrow> bool" where
  "persistence_inv s \<longleftrightarrow>
     (\<forall>k. ps_buffered s k = ps_persisted s k @ waiting s k) \<and>
     (\<forall>k. persisted_count (pending_result s) k \<le> length (items (ps_buffer s) k)) \<and>
     (pruned_remap (pending_result s) \<noteq> [] \<longrightarrow>
        pruned_remap (pending_result s) = compacted_data_file_remap (ps_buffer s)) \<and>
     (\<forall>p. ps_inflight s = Some p \<longrightarrow> ps_result s = None \<and>
        (\<forall>k. \<exists>rest. items (ps_buffer s) k = payload_items p k @ rest) \<and>
        (compaction_records_remap (psp_data_compaction_payload p) \<noteq> [] \<longrightarrow>
           compaction_records_remap (psp_data_compaction_payload p) = compacted_data_file_remap (ps_buffer s)))"

lemma empty_persisted_count [simp]:
  "persisted_count empty_persisted_records k = 0" "pruned_remap empty_persisted_records = []"
  by (cases k; simp add: empty_persisted_records_def)+

lemma snapshot_turn:
  assumes inv: "persistence_inv s" and guard: "persistence_guard s (TakeSnapshot t opt l dels persist)"
  obtains u v where "prune_persisted_records (pending_result s) (ps_buffer s) = Ok u"
    "buffer_unpersisted_records t u = Ok v"
    "\<forall>k. items v k = waiting s k @ task_items t k"
    "compacted_data_file_remap v = (if dcr_old_data_files (st_data_compaction_result t) = []
       then remap_left s else dcr_remapped_data_files (st_data_compaction_result t))"
proof -
  obtain u where u: "prune_persisted_records (pending_result s) (ps_buffer s) = Ok u"
    "\<forall>k. items u k = waiting s k" "compacted_data_file_remap u = remap_left s"
    using prune_spec[of "pending_result s" "ps_buffer s"] inv
    unfolding persistence_inv_def waiting_def remap_left_def by metis
  have g: "is_ok (compaction_result_is_empty (st_data_compaction_result t))"
    "dcr_old_data_files (st_data_compaction_result t) \<noteq> [] \<longrightarrow> compacted_data_file_remap u = []"
    using guard u(3) by auto
  obtain v where "buffer_unpersisted_records t u = Ok v" "\<forall>k. items v k = items u k @ task_items t k"
    "compacted_data_file_remap v = (if dcr_old_data_files (st_data_compaction_result t) = []
       then remap_left s else dcr_remapped_data_files (st_data_compaction_result t))"
    using buffer_spec[OF g] unfolding u(3) by blast
  then show thesis using that[OF u(1)] u(2) by simp
qed

lemma payload_total:
  "opt \<noteq> SkipSnapshot \<Longrightarrow> is_ok (get_persistence_snapshot_payload u opt l dels)"
  by (cases opt) (auto simp: get_persistence_snapshot_payload_def get_event_id_def)

lemma persistence_ends_total:
  assumes "sync_keeps_counts sync p"
  shows "is_ok (persist_iceberg_snapshot_impl sync p)"
  using assms by (auto simp: sync_keeps_counts_def persist_iceberg_snapshot_impl_def Let_def split: sum.splits)

lemma snapshot_turn_inv:
  assumes inv: "persistence_inv s" and guard: "persistence_guard s (TakeSnapshot t opt l dels persist)"
    and step: "persistence_step s (TakeSnapshot t opt l dels persist) = Ok s'"
  shows "persistence_inv s'"
proof -
  obtain u v where uv: "prune_persisted_records (pending_result s) (ps_buffer s) = Ok u"
    "buffer_unpersisted_records t u = Ok v"
    and it: "\<forall>k. items v k = waiting s k @ task_items t k"
    and remap: "compacted_data_file_remap v = (if dcr_old_data_files (st_data_compaction_result t) = []
       then remap_left s else dcr_remapped_data_files (st_data_compaction_result t))"
    by (rule snapshot_turn[OF inv guard])
  let ?s = "s\<lparr>ps_buffer := v, ps_result := None, ps_buffered := \<lambda>k. ps_buffered s k @ task_items t k\<rparr>"
  have hist: "ps_buffered ?s k = ps_persisted ?s k @ items v k" for k
    using inv it by (simp add: persistence_inv_def)
  show ?thesis
  proof (cases "opt \<noteq> SkipSnapshot \<and> persist")
    case True
    then obtain p where p: "get_persistence_snapshot_payload v opt l dels = Ok p"
      "s' = ?s\<lparr>ps_inflight := Some p\<rparr>"
      using step uv by auto
    then show ?thesis
      using hist payload_spec[OF p(1)] by (simp add: persistence_inv_def waiting_def)
  next
    case False
    then have s': "s' = ?s" using step uv by auto
    have "(\<exists>rest. items v k = payload_items p k @ rest) \<and>
        (compaction_records_remap (psp_data_compaction_payload p) \<noteq> [] \<longrightarrow>
         compaction_records_remap (psp_data_compaction_payload p) = compacted_data_file_remap v)"
      if p: "ps_inflight s = Some p" for p k
    proof -
      have none: "ps_result s = None"
        and pre: "\<exists>rest. items (ps_buffer s) k = payload_items p k @ rest"
        and r: "compaction_records_remap (psp_data_compaction_payload p) \<noteq> [] \<longrightarrow>
          compaction_records_remap (psp_data_compaction_payload p) = compacted_data_file_remap (ps_buffer s)"
        using inv p by (auto simp: persistence_inv_def)
      have "waiting s k = items (ps_buffer s) k" "remap_left s = compacted_data_file_remap (ps_buffer s)"
        using none by (simp_all add: waiting_def remap_left_def)
      then show ?thesis using pre r it remap guard by auto
    qed
    then show ?thesis using hist s' by (simp add: persistence_inv_def waiting_def)
  qed
qed

lemma persistence_end_inv:
  assumes inv: "persistence_inv s" and step: "persistence_step s (PersistenceEnds sync) = Ok s'"
  shows "persistence_inv s'"
proof (cases "ps_inflight s")
  case None
  then show ?thesis using assms by simp
next
  case (Some p)
  have none: "ps_result s = None"
    and pre: "\<forall>k. \<exists>rest. items (ps_buffer s) k = payload_items p k @ rest"
    and rem: "compaction_records_remap (psp_data_compaction_payload p) \<noteq> [] \<longrightarrow>
      compaction_records_remap (psp_data_compaction_payload p) = compacted_data_file_remap (ps_buffer s)"
    and hist: "ps_buffered s k = ps_persisted s k @ items (ps_buffer s) k" for k
    using inv Some by (auto simp: persistence_inv_def waiting_def)
  obtain r where r: "persist_iceberg_snapshot_impl sync p = Ok r"
    using step Some by (cases "persist_iceberg_snapshot_impl sync p") auto
  have s': "s' = (case r of Inl e \<Rightarrow> s\<lparr>ps_inflight := None\<rparr>
      | Inr r \<Rightarrow> s\<lparr>ps_inflight := None, ps_result := Some (persisted_of r),
                    ps_persisted := \<lambda>k. ps_persisted s k @ payload_items p k\<rparr>)"
    using step Some none r by (cases r) auto
  show ?thesis
  proof (cases r)
    case (Inl e)
    then show ?thesis using s' hist none by (simp add: persistence_inv_def waiting_def)
  next
    case (Inr q)
    note cnt = persist_spec[OF r[unfolded Inr]]
    have "items (ps_buffer s) k = payload_items p k @ drop (length (payload_items p k)) (items (ps_buffer s) k)"
      and "length (payload_items p k) \<le> length (items (ps_buffer s) k)" for k
      using pre[THEN spec, of k] by auto
    then show ?thesis using s' Inr hist rem by (simp add: persistence_inv_def waiting_def cnt)
  qed
qed

interpretation persistence: progressing_component
  "persistence_step :: 'md persistence_system \<Rightarrow> ('b, 's, 'k, 'm, 'md) persistence_event \<Rightarrow> _"
  persistence_guard persistence_inv
proof
  fix s s' :: "'md persistence_system" and e :: "('b, 's, 'k, 'm, 'md) persistence_event"
  assume inv: "persistence_inv s" and guard: "persistence_guard s e"
  show "persistence_inv s'" if "persistence_step s e = Ok s'"
    using inv guard that
    by (cases e) (blast intro: snapshot_turn_inv persistence_end_inv)+
  show "is_ok (persistence_step s e)"
  proof (cases e)
    case (TakeSnapshot t opt l dels persist)
    obtain u v where "prune_persisted_records (pending_result s) (ps_buffer s) = Ok u"
      "buffer_unpersisted_records t u = Ok v"
      by (rule snapshot_turn[OF inv guard[unfolded TakeSnapshot]])
    then show ?thesis
      using TakeSnapshot payload_total[of opt v l dels] by (auto simp: Let_def is_ok_iff)
  next
    case (PersistenceEnds sync)
    show ?thesis
    proof (cases "ps_inflight s")
      case (Some p)
      then have "is_ok (persist_iceberg_snapshot_impl sync p)" and none: "ps_result s = None"
        using guard inv PersistenceEnds by (auto intro: persistence_ends_total simp: persistence_inv_def)
      then obtain r where "persist_iceberg_snapshot_impl sync p = Ok r" by (auto simp: is_ok_iff)
      then show ?thesis using PersistenceEnds Some none by (cases r) simp_all
    qed (simp add: PersistenceEnds)
  qed
qed

lemma initial_persistence_inv: "persistence_inv (initial_persistence cfg)"
proof -
  have "items (new_unpersisted_records cfg) k = []" for k
    by (cases k) (simp_all add: new_unpersisted_records_def)
  then show ?thesis by (simp add: persistence_inv_def initial_persistence_def waiting_def)
qed



text \<open>A witness: an index merge is persisted while the next one is buffered.\<close>

definition demo_config :: mooncake_table_config where
  "demo_config = \<lparr>mem_slice_size = 8, snapshot_deletion_record_count = 4, batch_size = 2, parquet_file_size = 100,
     persistence_config = \<lparr>pc_new_data_file_count = 1, pc_new_committed_deletion_log = 4,
       pc_new_compacted_data_file_count = 1, pc_old_compacted_data_file_count = 1,
       pc_old_merged_file_indices_count = 1\<rparr>,
     data_compaction_config = \<lparr>min_data_file_to_compact = 2, max_data_file_to_compact = 4,
       data_file_final_size = 100, data_file_deletion_percentage = 50\<rparr>,
     file_index_config = \<lparr>min_file_indices_to_merge = 2, max_file_indices_to_merge = 4, index_block_final_size = 100\<rparr>,
     temp_files_directory = ''tmp'', append_only = False, row_identity = SinglePrimitiveKey 0\<rparr>"

definition demo_index :: "u64 \<Rightarrow> global_index" where
  "demo_index i = \<lparr>gi_files = [\<lparr>file_id = FileId i, file_path = ''f''\<rparr>], gi_num_rows = 1, gi_hash_bits = 0, gi_hash_upper_bits = 0,
     gi_hash_lower_bits = 0, gi_seg_id_bits = 0, gi_row_id_bits = 0, gi_bucket_bits = 0, gi_index_blocks = []\<rparr>"

definition merge_task :: "u64 \<Rightarrow> (nat, nat, nat, nat) snapshot_task" where
  "merge_task i = (new_snapshot_task demo_config)\<lparr>st_index_merge_result :=
     \<lparr>fmr_uuid = 0, fmr_old_file_indices = [demo_index i], fmr_new_file_indices = [demo_index (i + 1)]\<rparr>\<rparr>"

definition demo_run :: "(nat, nat, nat, nat, nat) persistence_event list" where
  "demo_run =
     (let none = \<lparr>cdp_committed_deletion_logs = {}, cdp_new_deletions_to_persist = []\<rparr>
      in [TakeSnapshot (merge_task 1) (BestEffortSnapshot 7) 5 none True,
          TakeSnapshot (merge_task 3) SkipSnapshot 5 none False,
          PersistenceEnds (\<lambda>p. Inr \<lparr>remote_data_files = [],
            remote_file_indices = merge_indices_to_import (psp_index_merge_payload p),
            remote_puffin_blob_ref = [], remote_evicted_files = []\<rparr>),
          TakeSnapshot (new_snapshot_task demo_config) SkipSnapshot 5 none False])"

lemmas demo_run_eval = demo_run_def merge_task_def new_snapshot_task_def initial_persistence_def new_unpersisted_records_def
  prune_persisted_records_def prune_persisted_data_files_def prune_persisted_file_indices_def
  prune_persisted_merged_indices_def prune_persisted_compacted_data_def drain_front_def
  buffer_unpersisted_records_def buffer_unpersisted_iceberg_new_data_files_def
  buffer_unpersisted_iceberg_new_file_indices_def buffer_unpersisted_iceberg_merged_file_indices_def
  buffer_unpersisted_iceberg_compaction_data_def compaction_result_is_empty_def
  get_persistence_snapshot_payload_def get_event_id_def persist_iceberg_snapshot_impl_def persisted_of_def
  empty_persisted_records_def set_persisted_records_def import_result_is_empty_def
  index_merge_result_is_empty_def data_compaction_result_is_empty_def get_new_data_files_def get_new_file_indices_def remap_left_def sync_keeps_counts_def


end
