(* ===== verification/Snapshot_State.thy ===== *)
theory Snapshot_State
  imports Persistence_Buffer
begin

text \<open>
  The state of the mooncake snapshot and its deletion logs (\<^verbatim>\<open>storage/mooncake_table/snapshot.rs\<close>):
  raw deletions are looked up in the index, matched with live rows, and committed into the
  deletion vectors once their LSN is below the commit LSN of the snapshot.
\<close>

section \<open>State\<close>

text \<open>
  In-memory batches are a \<^verbatim>\<open>BTreeMap\<close>: an association list in ascending order of batch id.
  The object storage cache is kept beside this state; the notifier, the filesystem accessor
  and the batch id counter are not part of it.
\<close>

type_synonym 'b batch_map = "(u64 \<times> 'b in_memory_batch) list"

fun bt_insert :: "u64 \<Rightarrow> 'v \<Rightarrow> (u64 \<times> 'v) list \<Rightarrow> (u64 \<times> 'v) list" where
  "bt_insert k v [] = [(k, v)]"
| "bt_insert k v ((l, w) # m) =
     (if k < l then (k, v) # (l, w) # m else if k = l then (k, v) # m else (l, w) # bt_insert k v m)"

record ('b, 's, 'k, 'm) snapshot_table_state =
  iceberg_warehouse_location :: string
  sts_metadata :: table_metadata
  current_snapshot :: "('s, 'k, 'm) snapshot"
  sts_batches :: "'b batch_map"
  sts_rows :: "shared_row_buffer_snapshot option"
  committed_deletion_log :: "processed_deletion_record list"
  uncommitted_deletion_log :: "processed_deletion_record option list"
  compacting_data_files :: "file_id set"
  last_commit :: record_location
  sts_unpersisted_records :: unpersisted_records

definition new_snapshot_table_state ::
  "string \<Rightarrow> table_metadata \<Rightarrow> ('s, 'k, 'm) snapshot \<Rightarrow> batch_id_counter \<Rightarrow> ('b, 's, 'k, 'm) snapshot_table_state" where
  "new_snapshot_table_state location metadata snap ids =
     (let initial_batch_id = load_counter ids
      in \<lparr>iceberg_warehouse_location = location, sts_metadata = metadata, current_snapshot = snap,
          sts_batches = bt_insert initial_batch_id (new_in_memory_batch (batch_size (md_config metadata))) [],
          sts_rows = None, committed_deletion_log = [], uncommitted_deletion_log = [],
          compacting_data_files = {}, last_commit = MemoryBatch initial_batch_id 0,
          sts_unpersisted_records = new_unpersisted_records (md_config metadata)\<rparr>)"

definition reset_for_alter ::
  "table_metadata \<Rightarrow> batch_id_counter \<Rightarrow> ('b, 's, 'k, 'm) snapshot_table_state \<Rightarrow>
   ('b, 's, 'k, 'm) snapshot_table_state" where
  "reset_for_alter metadata ids st =
     (let initial_batch_id = load_counter ids
      in st\<lparr>sts_batches := bt_insert initial_batch_id (new_in_memory_batch (batch_size (md_config metadata))) [],
            sts_rows := None, last_commit := MemoryBatch initial_batch_id 0,
            current_snapshot := (current_snapshot st)\<lparr>snap_metadata := metadata\<rparr>, sts_metadata := metadata\<rparr>)"

definition get_table_unique_file_id :: "('b, 's, 'k, 'm) snapshot_table_state \<Rightarrow> file_id \<Rightarrow> table_unique_file_id" where
  "get_table_unique_file_id st fid = \<lparr>tuf_table_id = TableId (md_table_id (sts_metadata st)), tuf_file_id = fid\<rparr>"

abbreviation sts_disk_files :: "('b, 's, 'k, 'm) snapshot_table_state \<Rightarrow> disk_file_entry file_map" where
  "sts_disk_files st \<equiv> disk_files (current_snapshot st)"

section \<open>Matching deletions with rows\<close>

definition build_processed_deletion :: "raw_deletion_record \<Rightarrow> record_location \<Rightarrow> processed_deletion_record" where
  "build_processed_deletion deletion pos = \<lparr>pd_pos = pos, pd_lsn = rd_lsn deletion\<rparr>"

definition location_is_deleted ::
  "'z arrow_bits_scheme \<Rightarrow> ('b, 's, 'k, 'm) snapshot_table_state \<Rightarrow> record_location \<Rightarrow> bool res" where
  "location_is_deleted ar st loc = (case loc of
       MemoryBatch batch_id row_id \<Rightarrow>
         unwrap (map_of (sts_batches st) batch_id) (\<lambda>batch. is_deleted ar (deletions batch) row_id)
     | DiskFile fid row_id \<Rightarrow>
         unwrap (fm_get (sts_disk_files st) fid) (\<lambda>entry. is_deleted ar (committed_deletion_vector entry) row_id))"

definition is_visible ::
  "record_location \<Rightarrow> (file_id \<rightharpoonup> lsn) \<Rightarrow> (u64 \<rightharpoonup> lsn) \<Rightarrow> lsn \<Rightarrow> bool" where
  "is_visible loc file_id_to_lsn batch_id_to_lsn lsn = (case loc of
       MemoryBatch batch_id _ \<Rightarrow> (case batch_id_to_lsn batch_id of None \<Rightarrow> True | Some l \<Rightarrow> l \<le> lsn)
     | DiskFile fid _ \<Rightarrow> (case file_id_to_lsn fid of None \<Rightarrow> True | Some l \<Rightarrow> l \<le> lsn))"

definition matches_identity ::
  "('b, 'z) arrow_ops_scheme \<Rightarrow> parquet_reader \<Rightarrow> ('b, 's, 'k, 'm) snapshot_table_state \<Rightarrow>
   record_location \<Rightarrow> moonlink_row \<Rightarrow> bool res" where
  "matches_identity ops pq st loc ident = (case loc of
       MemoryBatch batch_id row_id \<Rightarrow>
         unwrap (map_of (sts_batches st) batch_id) (\<lambda>batch.
         unwrap (batch_data batch) (\<lambda>data.
         equals_record_batch_at_offset ops ident data row_id
           (row_identity (md_config (snap_metadata (current_snapshot st))))))
     | DiskFile fid row_id \<Rightarrow>
         unwrap (map_of (sts_disk_files st) fid) (\<lambda>(f, _).
         equals_parquet_at_offset pq ident (file_path f) row_id
           (row_identity (md_config (snap_metadata (current_snapshot st))))))"

text \<open>The position of the first candidate that matches, from \<open>i\<close>.\<close>

fun first_match :: "(record_location \<Rightarrow> bool res) \<Rightarrow> record_location list \<Rightarrow> nat option res" where
  "first_match p [] = Ok None"
| "first_match p (x # xs) =
     res_bind (p x) (\<lambda>b. if b then Ok (Some 0) else res_bind (first_match p xs) (\<lambda>i. Ok (map_option Suc i)))"

definition swap_remove :: "'a list \<Rightarrow> nat \<Rightarrow> 'a list" where
  "swap_remove xs i = (if i = length xs - 1 then butlast xs else (butlast xs)[i := last xs])"

fun disambiguate ::
  "('b, 'z) arrow_ops_scheme \<Rightarrow> parquet_reader \<Rightarrow> ('b, 's, 'k, 'm) snapshot_table_state \<Rightarrow>
   raw_deletion_record list \<Rightarrow> record_location list \<Rightarrow> processed_deletion_record list res" where
  "disambiguate ops pq st [] candidates = Ok []"
| "disambiguate ops pq st (deletion # ds) candidates =
     (case rd_row_identity deletion of
        None \<Rightarrow> Panic AssertFailed
      | Some ident \<Rightarrow>
          res_bind (first_match (\<lambda>loc. matches_identity ops pq st loc ident) candidates) (\<lambda>m.
          unwrap m (\<lambda>i.
          res_bind (disambiguate ops pq st ds (swap_remove candidates i)) (\<lambda>processed.
          Ok (build_processed_deletion deletion (candidates ! i) # processed)))))"

definition live_candidates ::
  "('b, 'z) arrow_ops_scheme \<Rightarrow> ('b, 's, 'k, 'm) snapshot_table_state \<Rightarrow> lsn \<Rightarrow> record_location list \<Rightarrow>
   (file_id \<rightharpoonup> lsn) \<Rightarrow> (u64 \<rightharpoonup> lsn) \<Rightarrow> record_location list res" where
  "live_candidates ops st lsn found file_id_to_lsn batch_id_to_lsn =
     filter_res (\<lambda>loc. res_bind (location_is_deleted ops st loc) (\<lambda>d.
       Ok (\<not> d \<and> is_visible loc file_id_to_lsn batch_id_to_lsn lsn))) found"

definition match_deletions_with_identical_key_and_lsn ::
  "('b, 'z) arrow_ops_scheme \<Rightarrow> parquet_reader \<Rightarrow> ('b, 's, 'k, 'm) snapshot_table_state \<Rightarrow>
   raw_deletion_record list \<Rightarrow> record_location list \<Rightarrow> (file_id \<rightharpoonup> lsn) \<Rightarrow> (u64 \<rightharpoonup> lsn) \<Rightarrow> bool \<Rightarrow>
   processed_deletion_record list res" where
  "match_deletions_with_identical_key_and_lsn ops pq st dels index_lookup_result file_id_to_lsn batch_id_to_lsn
     delete_if_exists =
     (case dels of
        [] \<Rightarrow> Panic UnwrapNone
      | deletion # _ \<Rightarrow>
     res_bind (live_candidates ops st (rd_lsn deletion) index_lookup_result file_id_to_lsn batch_id_to_lsn) (\<lambda>candidates.
     if delete_if_exists then
       check (length dels = 1) AssertFailed (
       case rd_row_identity deletion of
         None \<Rightarrow> Ok (if candidates = [] then [] else [build_processed_deletion deletion (last candidates)])
       | Some ident \<Rightarrow>
           res_bind (first_match (\<lambda>loc. matches_identity ops pq st loc ident) candidates) (\<lambda>m. Ok (case m of
               None \<Rightarrow> [] | Some i \<Rightarrow> [build_processed_deletion deletion (candidates ! i)])))
     else if length candidates = length dels then
       Ok (map (\<lambda>(loc, d). build_processed_deletion d loc) (zip candidates dels))
     else if length candidates < length dels then Panic ExplicitPanic
     else disambiguate ops pq st dels candidates))"

section \<open>Committing deletions\<close>

definition commit_deletion ::
  "'z arrow_bits_scheme \<Rightarrow> processed_deletion_record \<Rightarrow> ('b, 's, 'k, 'm) snapshot_table_state \<Rightarrow>
   ('b, 's, 'k, 'm) snapshot_table_state res" where
  "commit_deletion ar deletion st =
     res_bind (case pd_pos deletion of
         MemoryBatch batch_id row_id \<Rightarrow> (case map_of (sts_batches st) batch_id of
             None \<Rightarrow> Ok st
           | Some batch \<Rightarrow>
               res_bind (delete_row ar (deletions batch) row_id) (\<lambda>(r, dv).
               check r AssertFailed (Ok (st\<lparr>sts_batches := AList.update batch_id (batch\<lparr>deletions := dv\<rparr>) (sts_batches st)\<rparr>))))
       | DiskFile fid row_id \<Rightarrow>
           unwrap (fm_get (sts_disk_files st) fid) (\<lambda>entry.
           res_bind (delete_row ar (committed_deletion_vector entry) row_id) (\<lambda>(r, dv).
           check r AssertFailed (Ok (st\<lparr>current_snapshot := (current_snapshot st)\<lparr>disk_files :=
             fm_set fid (entry\<lparr>committed_deletion_vector := dv\<rparr>) (sts_disk_files st)\<rparr>\<rparr>)))))
       (\<lambda>st. Ok (st\<lparr>committed_deletion_log := committed_deletion_log st @ [deletion]\<rparr>))"

text \<open>A deletion below the commit LSN is committed, any other waits.\<close>

definition settle_deletion ::
  "'z arrow_bits_scheme \<Rightarrow> lsn \<Rightarrow> ('b, 's, 'k, 'm) snapshot_table_state \<Rightarrow> processed_deletion_record \<Rightarrow>
   ('b, 's, 'k, 'm) snapshot_table_state res" where
  "settle_deletion ar new_commit_lsn st deletion =
     (if pd_lsn deletion < new_commit_lsn then commit_deletion ar deletion st
      else Ok (st\<lparr>uncommitted_deletion_log := uncommitted_deletion_log st @ [Some deletion]\<rparr>))"

definition advance_pending_deletions ::
  "'z arrow_bits_scheme \<Rightarrow> ('b, 's, 'k, 'm) snapshot_task \<Rightarrow> ('b, 's, 'k, 'm) snapshot_table_state \<Rightarrow>
   ('b, 's, 'k, 'm) snapshot_table_state res" where
  "advance_pending_deletions ar task st =
     res_fold (\<lambda>st entry. unwrap entry (settle_deletion ar (commit_lsn_baseline task) st))
       (st\<lparr>uncommitted_deletion_log := []\<rparr>) (uncommitted_deletion_log st)"

definition add_processed_deletion ::
  "'z arrow_bits_scheme \<Rightarrow> processed_deletion_record list \<Rightarrow> lsn \<Rightarrow> ('b, 's, 'k, 'm) snapshot_table_state \<Rightarrow>
   ('b, 's, 'k, 'm) snapshot_table_state res" where
  "add_processed_deletion ar dels new_commit_lsn st = res_fold (settle_deletion ar new_commit_lsn) st dels"

text \<open>
  The raw deletions and the lookup results are sorted, and each group of deletions with one
  key and LSN is matched with the results for its key. The sort of the source is unstable; the
  model takes the stable order among equal keys.
\<close>

function apply_groups ::
  "('b, 'z) arrow_ops_scheme \<Rightarrow> parquet_reader \<Rightarrow> ('b, 's, 'k, 'm) snapshot_task \<Rightarrow> bool \<Rightarrow>
   raw_deletion_record list \<Rightarrow> (u64 \<times> record_location) list \<Rightarrow> ('b, 's, 'k, 'm) snapshot_table_state \<Rightarrow>
   ('b, 's, 'k, 'm) snapshot_table_state res" where
  "apply_groups ops pq task delete_if_exists [] results st = Ok st"
| "apply_groups ops pq task delete_if_exists (d # ds) results st =
     (let same = (\<lambda>e. rd_lookup_key e = rd_lookup_key d \<and> rd_lsn e = rd_lsn d);
          results = dropWhile (\<lambda>r. fst r < rd_lookup_key d) results;
          lookup_result = map snd (takeWhile (\<lambda>r. fst r = rd_lookup_key d) results)
      in res_bind (match_deletions_with_identical_key_and_lsn ops pq st (d # takeWhile same ds) lookup_result
           (new_disk_file_lsn_map task) (flushing_batch_lsn_map task) delete_if_exists) (\<lambda>processed.
         res_bind (add_processed_deletion ops processed (commit_lsn_baseline task) st)
           (apply_groups ops pq task delete_if_exists (dropWhile same ds) results)))"
  by pat_completeness auto
termination
  by (relation "measure (\<lambda>(ops, pq, task, e, ds, r, st). length ds)")
    (auto simp: le_imp_less_Suc length_dropWhile_le)

definition sort_deletions :: "raw_deletion_record list \<Rightarrow> raw_deletion_record list" where
  "sort_deletions dels = sort_key rd_lookup_key (sort_key rd_lsn dels)"

definition apply_new_deletions ::
  "('b, 'z) arrow_ops_scheme \<Rightarrow> ('s, 'k, 'm) index_ops \<Rightarrow> index_search \<Rightarrow> parquet_reader \<Rightarrow>
   ('b, 's, 'k, 'm) snapshot_task \<Rightarrow> ('b, 's, 'k, 'm) snapshot_table_state \<Rightarrow>
   ('b, 's, 'k, 'm) snapshot_table_state res" where
  "apply_new_deletions ops iops search pq task st =
     (let already_processed = map (\<lambda>d. build_processed_deletion d (location_from_pair (the (rd_pos d))))
            (filter (\<lambda>d. rd_pos d \<noteq> None) (new_deletions task));
          dels = sort_deletions (filter (\<lambda>d. rd_pos d = None) (new_deletions task))
      in res_bind (add_processed_deletion ops already_processed (commit_lsn_baseline task) st) (\<lambda>st.
         if dels = [] then Ok st
         else let delete_if_exists = list_ex rd_delete_if_exists dels
           in check (delete_if_exists = list_all rd_delete_if_exists dels) AssertFailed (
              res_bind (find_records iops search (snap_indices (current_snapshot st)) dels) (\<lambda>found.
              apply_groups ops pq task delete_if_exists dels (sort_key fst found) st))))"

definition process_deletion_log ::
  "('b, 'z) arrow_ops_scheme \<Rightarrow> ('s, 'k, 'm) index_ops \<Rightarrow> index_search \<Rightarrow> parquet_reader \<Rightarrow>
   ('b, 's, 'k, 'm) snapshot_task \<Rightarrow> ('b, 's, 'k, 'm) snapshot_table_state \<Rightarrow>
   ('b, 's, 'k, 'm) snapshot_table_state res" where
  "process_deletion_log ops iops search pq task st =
     res_bind (advance_pending_deletions ops task st) (apply_new_deletions ops iops search pq task)"


section \<open>The deleted rows of a snapshot\<close>

definition loc_vector :: "('b, 's, 'k, 'm) snapshot_table_state \<Rightarrow> record_location \<Rightarrow> batch_deletion_vector option" where
  "loc_vector st loc = (case loc of
       MemoryBatch b _ \<Rightarrow> map_option deletions (map_of (sts_batches st) b)
     | DiskFile f _ \<Rightarrow> map_option committed_deletion_vector (fm_get (sts_disk_files st) f))"

definition known :: "('b, 's, 'k, 'm) snapshot_table_state \<Rightarrow> record_location set" where
  "known st = {loc. loc_vector st loc \<noteq> None}"

definition deleted_locations :: "('b, 's, 'k, 'm) snapshot_table_state \<Rightarrow> record_location set" where
  "deleted_locations st = {loc. \<exists>dv. loc_vector st loc = Some dv \<and> get_row_idx loc \<in> deleted_rows dv}"

definition vectors_wf :: "('b, 's, 'k, 'm) snapshot_table_state \<Rightarrow> bool" where
  "vectors_wf st \<longleftrightarrow> (\<forall>loc dv. loc_vector st loc = Some dv \<longrightarrow> dv_wf dv)"

text \<open>The states before and after the processed deletions \<open>ds\<close> are settled at commit LSN \<open>lsn\<close>.\<close>

definition settled ::
  "lsn \<Rightarrow> ('b, 's, 'k, 'm) snapshot_table_state \<Rightarrow> processed_deletion_record list \<Rightarrow>
   ('b, 's, 'k, 'm) snapshot_table_state \<Rightarrow> bool" where
  "settled lsn st ds st' \<longleftrightarrow> (let c = filter (\<lambda>d. pd_lsn d < lsn) ds in
     committed_deletion_log st' = committed_deletion_log st @ c \<and>
     uncommitted_deletion_log st' = uncommitted_deletion_log st @ map Some (filter (\<lambda>d. \<not> pd_lsn d < lsn) ds) \<and>
     deleted_locations st' = deleted_locations st \<union> pd_pos ` set c \<inter> known st \<and>
     distinct (filter (\<lambda>l. l \<in> known st) (map pd_pos c)) \<and>
     pd_pos ` set c \<inter> known st \<inter> deleted_locations st = {} \<and>
     known st' = known st \<and> vectors_wf st' \<and> snap_indices (current_snapshot st') = snap_indices (current_snapshot st))"

lemma map_of_fm_set:
  "map_of m fid = Some (f, v) \<Longrightarrow> fm_get (fm_set fid w m) g = (if g = fid then Some w else fm_get m g)"
  by (auto simp: fm_get_def fm_set_def update_conv')

lemma is_deleted_False:
  assumes "arrow_bits_ok ar" and "dv_wf d" and "is_deleted ar d i = Ok False"
  shows "i \<notin> deleted_rows d"
  using assms is_deleted_spec[OF assms(1,2), of i]
  by (cases "i < max_rows d") (auto simp: deleted_rows_def split: option.splits)

lemma vectors_update:
  assumes upd: "\<And>loc. loc_vector st' loc = (if same_place loc pos then Some dv' else loc_vector st loc)"
    and pos: "loc_vector st pos = Some dv" "\<And>loc. same_place loc pos \<Longrightarrow> loc_vector st loc = Some dv"
    and place: "\<And>loc. same_place loc pos \<and> get_row_idx loc = get_row_idx pos \<longleftrightarrow> loc = pos"
    and dv: "deleted_rows dv' = insert (get_row_idx pos) (deleted_rows dv)" "dv_wf dv'"
    and wf: "vectors_wf st"
  shows "known st' = known st" "vectors_wf st'" "deleted_locations st' = insert pos (deleted_locations st)"
proof -
  show "known st' = known st" using pos by (auto simp: known_def upd)
  show "vectors_wf st'" using wf dv(2) by (auto simp: vectors_wf_def upd)
  show "deleted_locations st' = insert pos (deleted_locations st)"
  proof (rule set_eqI)
    fix loc
    show "loc \<in> deleted_locations st' \<longleftrightarrow> loc \<in> insert pos (deleted_locations st)"
      using place[of loc] pos(2)[of loc] dv(1)
      by (cases "same_place loc pos") (auto simp: deleted_locations_def upd)
  qed
qed

definition same_place :: "record_location \<Rightarrow> record_location \<Rightarrow> bool" where
  "same_place a b = (case (a, b) of
       (MemoryBatch x _, MemoryBatch y _) \<Rightarrow> x = y | (DiskFile x _, DiskFile y _) \<Rightarrow> x = y | _ \<Rightarrow> False)"

lemma same_place_row: "same_place a b \<and> get_row_idx a = get_row_idx b \<longleftrightarrow> a = b"
  by (auto simp: same_place_def get_row_idx_def split: record_location.splits)

lemma same_place_vector: "same_place a b \<Longrightarrow> loc_vector st a = loc_vector st b"
  by (auto simp: same_place_def loc_vector_def split: record_location.splits)

lemma delete_row_True:
  assumes "arrow_bits_ok ar" and "dv_wf d" and "delete_row ar d i = Ok (True, d')"
  shows "i \<notin> deleted_rows d" "dv_wf d'" "deleted_rows d' = insert i (deleted_rows d)"
proof -
  have "i < max_rows d" using assms(3) by (auto simp: delete_row_def)
  from delete_row_spec[OF assms(1,2) this] assms(3)
  show "i \<notin> deleted_rows d" "dv_wf d'" "deleted_rows d' = insert i (deleted_rows d)" by auto
qed

lemma commit_deletion_spec:
  assumes ar: "arrow_bits_ok ar" and wf: "vectors_wf st" and ok: "commit_deletion ar d st = Ok st'"
    and lsn: "pd_lsn d < lsn"
  shows "settled lsn st [d] st'"
proof (cases "loc_vector st (pd_pos d)")
  case None
  then obtain b r where pos: "pd_pos d = MemoryBatch b r" "map_of (sts_batches st) b = None"
    using ok by (auto simp: commit_deletion_def loc_vector_def split: record_location.splits)
  then have st': "st' = st\<lparr>committed_deletion_log := committed_deletion_log st @ [d]\<rparr>"
    using ok by (simp add: commit_deletion_def)
  have v: "loc_vector st' = loc_vector st" by (rule ext) (simp add: loc_vector_def st' split: record_location.splits)
  then show ?thesis using wf lsn None
    by (simp add: settled_def st' known_def deleted_locations_def vectors_wf_def)
next
  case (Some dv)
  obtain dv' where del: "delete_row ar dv (get_row_idx (pd_pos d)) = Ok (True, dv')"
    and upd: "\<And>loc. loc_vector st' loc = (if same_place loc (pd_pos d) then Some dv' else loc_vector st loc)"
    and rest: "committed_deletion_log st' = committed_deletion_log st @ [d]"
      "uncommitted_deletion_log st' = uncommitted_deletion_log st"
      "snap_indices (current_snapshot st') = snap_indices (current_snapshot st)"
  proof (cases "pd_pos d")
    case (MemoryBatch b r)
    then obtain batch where b: "map_of (sts_batches st) b = Some batch" "dv = deletions batch"
      using Some by (auto simp: loc_vector_def)
    obtain dv' where del: "delete_row ar dv r = Ok (True, dv')"
      and st': "st' = st\<lparr>sts_batches := AList.update b (batch\<lparr>deletions := dv'\<rparr>) (sts_batches st),
        committed_deletion_log := committed_deletion_log st @ [d]\<rparr>"
      using ok MemoryBatch b by (auto simp: commit_deletion_def)
    show thesis
      by (rule that[of dv'])
        (auto simp: del MemoryBatch get_row_idx_def st' loc_vector_def same_place_def update_conv' split: record_location.splits)
  next
    case (DiskFile f r)
    then obtain e g where e: "map_of (sts_disk_files st) f = Some (g, e)" "dv = committed_deletion_vector e"
      using Some by (auto simp: loc_vector_def fm_get_def)
    then have get: "fm_get (sts_disk_files st) f = Some e" by (simp add: fm_get_def)
    obtain dv' where del: "delete_row ar dv r = Ok (True, dv')"
      and st': "st' = st\<lparr>current_snapshot := (current_snapshot st)\<lparr>disk_files :=
          fm_set f (e\<lparr>committed_deletion_vector := dv'\<rparr>) (sts_disk_files st)\<rparr>,
        committed_deletion_log := committed_deletion_log st @ [d]\<rparr>"
      using ok DiskFile e(2) get by (auto simp: commit_deletion_def)
    show thesis
      by (rule that[of dv'])
        (auto simp: del DiskFile get_row_idx_def st' loc_vector_def same_place_def map_of_fm_set[OF e(1)] split: record_location.splits)
  qed
  have dwf: "dv_wf dv" using wf Some by (simp add: vectors_wf_def)
  note dl = delete_row_True[OF ar dwf del]
  have up: "known st' = known st" "vectors_wf st'" "deleted_locations st' = insert (pd_pos d) (deleted_locations st)"
    using vectors_update[where same_place = same_place and pos = "pd_pos d" and dv = dv and dv' = dv' and st = st and st' = st',
        OF upd Some _ same_place_row dl(3,2) wf] same_place_vector[of _ "pd_pos d" st] Some by auto
  have "pd_pos d \<in> known st" "pd_pos d \<notin> deleted_locations st"
    using Some dl(1) by (auto simp: known_def deleted_locations_def)
  then show ?thesis using lsn up rest by (simp add: settled_def)
qed


lemma settle_deletion_spec:
  assumes "arrow_bits_ok ar" and "vectors_wf st" and "settle_deletion ar lsn st d = Ok st'"
  shows "settled lsn st [d] st'"
proof (cases "pd_lsn d < lsn")
  case True
  then show ?thesis using assms commit_deletion_spec by (auto simp: settle_deletion_def)
next
  case False
  then have st': "st' = st\<lparr>uncommitted_deletion_log := uncommitted_deletion_log st @ [Some d]\<rparr>"
    using assms(3) by (simp add: settle_deletion_def)
  have "loc_vector st' = loc_vector st" by (rule ext) (simp add: loc_vector_def st' split: record_location.splits)
  then show ?thesis using False assms(2)
    by (simp add: settled_def st' known_def deleted_locations_def vectors_wf_def)
qed

lemma settled_refl: "vectors_wf st \<Longrightarrow> settled lsn st [] st"
  by (simp add: settled_def)

lemma settled_wf: "settled lsn st xs st' \<Longrightarrow> vectors_wf st'"
  by (simp add: settled_def Let_def)

lemma settled_trans:
  assumes "settled lsn st xs st1" and "settled lsn st1 ys st2"
  shows "settled lsn st (xs @ ys) st2"
  using assms by (auto simp: settled_def Let_def)

lemma settle_all_spec:
  assumes "arrow_bits_ok ar" and "vectors_wf st" and "res_fold (settle_deletion ar lsn) st ds = Ok st'"
  shows "settled lsn st ds st'"
  using assms(2,3)
proof (induction ds arbitrary: st)
  case Nil
  then show ?case by (simp add: settled_refl)
next
  case (Cons d ds)
  then obtain st1 where st1: "settle_deletion ar lsn st d = Ok st1" "res_fold (settle_deletion ar lsn) st1 ds = Ok st'"
    by auto
  have "settled lsn st [d] st1" using settle_deletion_spec[OF assms(1) Cons.prems(1) st1(1)] .
  moreover from this have "settled lsn st1 ds st'" using Cons.IH[OF settled_wf st1(2)] by blast
  ultimately show ?case using settled_trans[of lsn st "[d]"] by simp
qed

lemma advance_fold:
  "res_fold (\<lambda>st entry. unwrap entry (f st)) st es = Ok st' \<Longrightarrow>
   \<exists>ds. es = map Some ds \<and> res_fold f st ds = Ok st'"
proof (induction es arbitrary: st)
  case (Cons e es)
  then obtain d st1 where "e = Some d" "f st d = Ok st1" "res_fold (\<lambda>st entry. unwrap entry (f st)) st1 es = Ok st'"
    by auto
  with Cons.IH[of st1] obtain ds where "es = map Some ds" "res_fold f st1 ds = Ok st'" by blast
  then show ?case using \<open>e = Some d\<close> \<open>f st d = Ok st1\<close> by (intro exI[of _ "d # ds"]) simp
qed auto

subsection \<open>What a match returns\<close>

lemma filter_res_set:
  "filter_res p xs = Ok ys \<Longrightarrow> set ys = {x \<in> set xs. p x = Ok True} \<and> (\<forall>x \<in> set xs. is_ok (p x))"
proof (induction xs arbitrary: ys)
  case (Cons x xs)
  then obtain b zs where "p x = Ok b" "filter_res p xs = Ok zs" "ys = (if b then x # zs else zs)" by auto
  with Cons.IH[of zs] show ?case by auto
qed simp

lemma first_match_Some:
  "first_match p xs = Ok (Some i) \<Longrightarrow> i < length xs \<and> p (xs ! i) = Ok True"
  by (induction xs arbitrary: i) (auto split: if_splits)

lemma set_swap_remove: "i < length xs \<Longrightarrow> set (swap_remove xs i) \<subseteq> set xs"
proof -
  assume i: "i < length xs"
  have "set ((butlast xs)[i := last xs]) \<subseteq> insert (last xs) (set (butlast xs))" by (rule set_update_subset_insert)
  also have "\<dots> \<subseteq> set xs" using i last_in_set[of xs] by (cases "xs = []") (auto dest: in_set_butlastD)
  finally show ?thesis by (auto simp: swap_remove_def dest: in_set_butlastD)
qed

lemma disambiguate_spec:
  "disambiguate ops pq st ds cands = Ok ps \<Longrightarrow>
   list_all2 (\<lambda>p d. pd_lsn p = rd_lsn d \<and> pd_pos p \<in> set cands) ps ds"
proof (induction ds arbitrary: cands ps)
  case (Cons d ds)
  then obtain ident i qs where i: "rd_row_identity d = Some ident"
    "first_match (\<lambda>loc. matches_identity ops pq st loc ident) cands = Ok (Some i)"
    "disambiguate ops pq st ds (swap_remove cands i) = Ok qs"
    "ps = build_processed_deletion d (cands ! i) # qs"
    by (auto split: option.splits)
  have len: "i < length cands" using first_match_Some[OF i(2)] by simp
  have "list_all2 (\<lambda>p d. pd_lsn p = rd_lsn d \<and> pd_pos p \<in> set cands) qs ds"
    by (rule list_all2_mono[OF Cons.IH[OF i(3)]]) (use set_swap_remove[OF len] in auto)
  then show ?case using i(4) len by (simp add: build_processed_deletion_def)
qed simp

lemma live_candidates_spec:
  assumes "arrow_bits_ok ops" and "vectors_wf st" and "live_candidates ops st lsn found fl bl = Ok cands"
    and "loc \<in> set cands"
  shows "loc \<in> set found" "is_visible loc fl bl lsn" "loc \<in> known st" "loc \<notin> deleted_locations st"
proof -
  have ok: "loc \<in> set found" "is_visible loc fl bl lsn" "location_is_deleted ops st loc = Ok False"
    using assms(3,4) unfolding live_candidates_def by (auto dest!: filter_res_set)
  obtain dv where dv: "loc_vector st loc = Some dv" "is_deleted ops dv (get_row_idx loc) = Ok False"
    using ok(3) by (auto simp: location_is_deleted_def loc_vector_def get_row_idx_def split: record_location.splits)
  have "get_row_idx loc \<notin> deleted_rows dv"
    using is_deleted_False[OF assms(1) _ dv(2)] assms(2) dv(1) by (simp add: vectors_wf_def)
  then show "loc \<in> set found" "is_visible loc fl bl lsn" "loc \<in> known st" "loc \<notin> deleted_locations st"
    using ok dv by (auto simp: known_def deleted_locations_def)
qed

text \<open>A processed deletion answers a raw one: at the row given, or at a live, visible row found for its key.\<close>

definition answers ::
  "('b, 's, 'k, 'm) snapshot_task \<Rightarrow> ('b, 's, 'k, 'm) snapshot_table_state \<Rightarrow> (u64 \<times> record_location) list \<Rightarrow>
   processed_deletion_record \<Rightarrow> raw_deletion_record \<Rightarrow> bool" where
  "answers task st found p d \<longleftrightarrow> pd_lsn p = rd_lsn d \<and> (case rd_pos d of
       Some q \<Rightarrow> pd_pos p = location_from_pair q
     | None \<Rightarrow> (rd_lookup_key d, pd_pos p) \<in> set found \<and> pd_pos p \<in> known st - deleted_locations st
         \<and> is_visible (pd_pos p) (new_disk_file_lsn_map task) (flushing_batch_lsn_map task) (rd_lsn d))"

lemma match_spec:
  assumes ops: "arrow_bits_ok ops" "vectors_wf st"
    and ok: "match_deletions_with_identical_key_and_lsn ops pq st dels found fl bl e = Ok ps"
    and lsn: "\<forall>d \<in> set dels. rd_lsn d = lsn"
  shows "\<exists>ds. mset ds \<subseteq># mset dels \<and> (\<not> e \<longrightarrow> ds = dels)
    \<and> list_all2 (\<lambda>p d. pd_lsn p = rd_lsn d \<and> pd_pos p \<in> set found \<and> is_visible (pd_pos p) fl bl lsn
         \<and> pd_pos p \<in> known st - deleted_locations st) ps ds"
proof -
  obtain d0 rest cands where d0: "dels = d0 # rest" and c: "live_candidates ops st lsn found fl bl = Ok cands"
    using ok lsn by (auto simp: match_deletions_with_identical_key_and_lsn_def split: list.splits)
  have "\<exists>ds. mset ds \<subseteq># mset dels \<and> (\<not> e \<longrightarrow> ds = dels)
      \<and> list_all2 (\<lambda>p d. pd_lsn p = rd_lsn d \<and> pd_pos p \<in> set cands) ps ds"
  proof (cases e)
    case True
    have "ps = [] \<or> (\<exists>loc \<in> set cands. ps = [build_processed_deletion d0 loc])"
    proof (cases "rd_row_identity d0")
      case None
      then show ?thesis using ok True d0 c lsn
        by (auto simp: match_deletions_with_identical_key_and_lsn_def split: if_splits)
    next
      case (Some ident)
      then obtain m where "first_match (\<lambda>loc. matches_identity ops pq st loc ident) cands = Ok m"
        "ps = (case m of None \<Rightarrow> [] | Some i \<Rightarrow> [build_processed_deletion d0 (cands ! i)])"
        using ok True d0 c lsn by (auto simp: match_deletions_with_identical_key_and_lsn_def)
      then show ?thesis by (cases m) (auto dest!: first_match_Some)
    qed
    then show ?thesis
    proof (elim disjE bexE)
      show ?thesis if "ps = []" using that True by (intro exI[of _ "[]"]) simp
      show ?thesis if "loc \<in> set cands" "ps = [build_processed_deletion d0 loc]" for loc
        using that True d0 by (intro exI[of _ "[d0]"]) (simp add: build_processed_deletion_def)
    qed
  next
    case False
    have "list_all2 (\<lambda>p d. pd_lsn p = rd_lsn d \<and> pd_pos p \<in> set cands) ps dels"
    proof (cases "length cands = length dels")
      case True
      then have "ps = map (\<lambda>(loc, d). build_processed_deletion d loc) (zip cands dels)"
        using ok False d0 c lsn by (simp add: match_deletions_with_identical_key_and_lsn_def)
      then show ?thesis using True by (auto simp: list_all2_conv_all_nth build_processed_deletion_def)
    next
      case neq: False
      then have "disambiguate ops pq st dels cands = Ok ps"
        using ok False d0 c lsn by (auto simp: match_deletions_with_identical_key_and_lsn_def simp del: disambiguate.simps split: if_splits)
      then show ?thesis by (rule disambiguate_spec)
    qed
    then show ?thesis using False by (intro exI[of _ dels]) simp
  qed
  then obtain ds where ds: "mset ds \<subseteq># mset dels" "\<not> e \<longrightarrow> ds = dels"
    and rel: "list_all2 (\<lambda>p d. pd_lsn p = rd_lsn d \<and> pd_pos p \<in> set cands) ps ds" by blast
  have "list_all2 (\<lambda>p d. pd_lsn p = rd_lsn d \<and> pd_pos p \<in> set found \<and> is_visible (pd_pos p) fl bl lsn
         \<and> pd_pos p \<in> known st - deleted_locations st) ps ds"
    by (rule list_all2_mono[OF rel]) (use live_candidates_spec[OF ops c] in auto)
  then show ?thesis using ds by blast
qed


lemma answers_mono:
  assumes "answers task st' found' p d" and "known st' = known st"
    and "deleted_locations st \<subseteq> deleted_locations st'" and "set found' \<subseteq> set found"
  shows "answers task st found p d"
  using assms by (auto simp: answers_def split: option.splits)

lemma settled_mono: "settled lsn st xs st' \<Longrightarrow> known st' = known st \<and> deleted_locations st \<subseteq> deleted_locations st'"
  by (auto simp: settled_def Let_def)

lemma apply_groups_spec:
  assumes ops: "arrow_bits_ok ops" and wf: "vectors_wf st" and nopos: "\<forall>d \<in> set ds. rd_pos d = None"
    and ok: "apply_groups ops pq task e ds found st = Ok st'"
  shows "\<exists>ps as. settled (commit_lsn_baseline task) st ps st' \<and> mset as \<subseteq># mset ds \<and> (\<not> e \<longrightarrow> as = ds)
    \<and> list_all2 (answers task st found) ps as"
  using wf nopos ok
proof (induction "length ds" arbitrary: ds found st rule: less_induct)
  case (less full)
  show ?case
  proof (cases full)
    case Nil
    then show ?thesis using less.prems by (intro exI[of _ "[]"]) (simp add: settled_refl)
  next
    case (Cons d ds)
  let ?same = "\<lambda>e. rd_lookup_key e = rd_lookup_key d \<and> rd_lsn e = rd_lsn d"
  let ?group = "d # takeWhile ?same ds" and ?rest = "dropWhile ?same ds"
  let ?found = "dropWhile (\<lambda>r. fst r < rd_lookup_key d) found"
  let ?lookup = "map snd (takeWhile (\<lambda>r. fst r = rd_lookup_key d) ?found)"
  obtain ps st1 where m: "match_deletions_with_identical_key_and_lsn ops pq st ?group ?lookup
        (new_disk_file_lsn_map task) (flushing_batch_lsn_map task) e = Ok ps"
    and add: "add_processed_deletion ops ps (commit_lsn_baseline task) st = Ok st1"
    and rest: "apply_groups ops pq task e ?rest ?found st1 = Ok st'"
    using less.prems(3) Cons by (auto simp: Let_def)
  have same: "\<forall>x \<in> set ?group. rd_lookup_key x = rd_lookup_key d \<and> rd_lsn x = rd_lsn d"
    by (auto dest: set_takeWhileD)
  obtain as where as: "mset as \<subseteq># mset ?group" "\<not> e \<longrightarrow> as = ?group"
    and rel: "list_all2 (\<lambda>p d'. pd_lsn p = rd_lsn d' \<and> pd_pos p \<in> set ?lookup
        \<and> is_visible (pd_pos p) (new_disk_file_lsn_map task) (flushing_batch_lsn_map task) (rd_lsn d)
        \<and> pd_pos p \<in> known st - deleted_locations st) ps as"
    using match_spec[OF ops less.prems(1) m, of "rd_lsn d"] same by blast
  have in_group: "x \<in> set ?group" if "x \<in> set as" for x using as(1) that mset_subset_eqD by fastforce
  have sub: "set ?found \<subseteq> set found" using set_dropWhileD by fastforce
  have found: "(rd_lookup_key d, l) \<in> set found" if "l \<in> set ?lookup" for l
    using that sub by (auto dest!: set_takeWhileD)
  have ans: "list_all2 (answers task st found) ps as"
  proof (rule list.rel_mono_strong[OF rel])
    fix p x
    assume p: "p \<in> set ps" and x: "x \<in> set as" and r: "pd_lsn p = rd_lsn x \<and> pd_pos p \<in> set ?lookup
        \<and> is_visible (pd_pos p) (new_disk_file_lsn_map task) (flushing_batch_lsn_map task) (rd_lsn d)
        \<and> pd_pos p \<in> known st - deleted_locations st"
    have "rd_lookup_key x = rd_lookup_key d" "rd_lsn x = rd_lsn d" using bspec[OF same in_group[OF x]] by simp_all
    moreover have "rd_pos x = None" using in_group[OF x] less.prems(2) Cons by (auto dest: set_takeWhileD)
    ultimately show "answers task st found p x" using r found by (simp add: answers_def)
  qed
  have s1: "settled (commit_lsn_baseline task) st ps st1"
    using settle_all_spec[OF ops less.prems(1)] add by (simp add: add_processed_deletion_def)
  have "length ?rest < length full" "\<forall>x \<in> set ?rest. rd_pos x = None"
    using less.prems(2) Cons by (auto simp: le_imp_less_Suc length_dropWhile_le dest: set_dropWhileD)
  then obtain qs bs where q: "settled (commit_lsn_baseline task) st1 qs st'" "mset bs \<subseteq># mset ?rest"
      "\<not> e \<longrightarrow> bs = ?rest" and relq: "list_all2 (answers task st1 ?found) qs bs"
    using less.hyps[OF _ settled_wf[OF s1] _ rest] by blast
  have "list_all2 (answers task st found) qs bs"
    by (rule list_all2_mono[OF relq]) (use settled_mono[OF s1] sub in \<open>blast intro: answers_mono\<close>)
  moreover have "mset (as @ bs) \<subseteq># mset full"
  proof -
    have "mset (as @ bs) \<subseteq># mset ?group + mset ?rest" unfolding mset_append by (rule subset_mset.add_mono[OF as(1) q(2)])
    also have "\<dots> = mset full" unfolding Cons by (simp add: mset_append[symmetric] del: mset_append)
    finally show ?thesis .
  qed
  moreover have "\<not> e \<longrightarrow> as @ bs = full" using as(2) q(3) Cons by simp
  ultimately show ?thesis
    using settled_trans[OF s1 q(1)] ans by (intro exI[of _ "ps @ qs"] exI[of _ "as @ bs"]) (auto intro: list_all2_appendI)
  qed
qed


lemma uncommitted_cleared [simp]:
  "known (st\<lparr>uncommitted_deletion_log := l\<rparr>) = known st"
  "deleted_locations (st\<lparr>uncommitted_deletion_log := l\<rparr>) = deleted_locations st"
  "vectors_wf (st\<lparr>uncommitted_deletion_log := l\<rparr>) = vectors_wf st"
proof -
  have "loc_vector (st\<lparr>uncommitted_deletion_log := l\<rparr>) = loc_vector st"
    by (rule ext) (simp add: loc_vector_def split: record_location.splits)
  then show "known (st\<lparr>uncommitted_deletion_log := l\<rparr>) = known st"
    "deleted_locations (st\<lparr>uncommitted_deletion_log := l\<rparr>) = deleted_locations st"
    "vectors_wf (st\<lparr>uncommitted_deletion_log := l\<rparr>) = vectors_wf st"
    by (simp_all add: known_def deleted_locations_def vectors_wf_def)
qed

lemma mset_sort_deletions [simp]: "mset (sort_deletions ds) = mset ds"
  by (simp add: sort_deletions_def)

lemma set_sort_deletions [simp]: "set (sort_deletions ds) = set ds"
  by (simp add: sort_deletions_def)

lemma answers_located:
  "list_all2 (answers task st found) (map (\<lambda>d. build_processed_deletion d (location_from_pair (the (rd_pos d)))) ds) ds"
  if "\<forall>d \<in> set ds. rd_pos d \<noteq> None"
  using that by (induction ds) (auto simp: answers_def build_processed_deletion_def)

abbreviation unlocated :: "('b, 's, 'k, 'm) snapshot_task \<Rightarrow> raw_deletion_record list" where
  "unlocated task \<equiv> filter (\<lambda>d. rd_pos d = None) (new_deletions task)"

lemma apply_new_deletions_spec:
  assumes ops: "arrow_bits_ok ops" and wf: "vectors_wf st"
    and ok: "apply_new_deletions ops iops search pq task st = Ok st'"
  shows "\<exists>found ps as.
    (unlocated task \<noteq> [] \<longrightarrow>
       find_records iops search (snap_indices (current_snapshot st)) (sort_deletions (unlocated task)) = Ok found)
    \<and> mset as \<subseteq># mset (new_deletions task)
    \<and> ((\<forall>d \<in> set (new_deletions task). \<not> rd_delete_if_exists d) \<longrightarrow> mset as = mset (new_deletions task))
    \<and> list_all2 (answers task st found) ps as \<and> settled (commit_lsn_baseline task) st ps st'"
proof -
  let ?loc = "filter (\<lambda>d. rd_pos d \<noteq> None) (new_deletions task)"
  let ?ps = "map (\<lambda>d. build_processed_deletion d (location_from_pair (the (rd_pos d)))) ?loc"
  let ?dels = "sort_deletions (unlocated task)"
  have split: "mset (new_deletions task) = mset ?loc + mset (unlocated task)"
    using multiset_partition[of "mset (new_deletions task)" "\<lambda>d. rd_pos d \<noteq> None"] by (simp add: mset_filter)
  obtain st1 where add: "add_processed_deletion ops ?ps (commit_lsn_baseline task) st = Ok st1"
    using ok by (auto simp: apply_new_deletions_def Let_def)
  have s1: "settled (commit_lsn_baseline task) st ?ps st1"
    using settle_all_spec[OF ops wf] add by (simp add: add_processed_deletion_def)
  have loc: "list_all2 (answers task st found) ?ps ?loc" for found by (rule answers_located) simp
  show ?thesis
  proof (cases "unlocated task = []")
    case True
    then have "st' = st1" using ok add by (simp add: apply_new_deletions_def Let_def sort_deletions_def)
    moreover have "mset ?loc = mset (new_deletions task)" using split True by simp
    ultimately show ?thesis using s1 loc True by (intro exI[of _ "[]"] exI[of _ ?ps] exI[of _ ?loc]) simp
  next
    case False
    then have "?dels \<noteq> []" by (metis mset_sort_deletions mset_zero_iff)
    then obtain found where e: "list_ex rd_delete_if_exists ?dels = list_all rd_delete_if_exists ?dels"
      and found: "find_records iops search (snap_indices (current_snapshot st1)) ?dels = Ok found"
      and grp: "apply_groups ops pq task (list_ex rd_delete_if_exists ?dels) ?dels (sort_key fst found) st1 = Ok st'"
      using ok add by (auto simp: apply_new_deletions_def Let_def)
    obtain qs bs where q: "settled (commit_lsn_baseline task) st1 qs st'" "mset bs \<subseteq># mset ?dels"
        "\<not> list_ex rd_delete_if_exists ?dels \<longrightarrow> bs = ?dels" and rel: "list_all2 (answers task st1 (sort_key fst found)) qs bs"
      using apply_groups_spec[OF ops settled_wf[OF s1] _ grp] by auto
    have "list_all2 (answers task st found) qs bs"
      by (rule list_all2_mono[OF rel]) (use settled_mono[OF s1] in \<open>auto elim!: answers_mono\<close>)
    then have "list_all2 (answers task st found) (?ps @ qs) (?loc @ bs)" using loc by (rule list_all2_appendI[rotated])
    moreover have "mset (?loc @ bs) \<subseteq># mset (new_deletions task)"
      unfolding split mset_append using subset_mset.add_left_mono[OF q(2)[unfolded mset_sort_deletions]] .
    moreover have "mset (?loc @ bs) = mset (new_deletions task)"
      if "\<forall>d \<in> set (new_deletions task). \<not> rd_delete_if_exists d"
    proof -
      have "\<not> list_ex rd_delete_if_exists ?dels" using that by (auto simp: list_ex_iff)
      then have "bs = ?dels" using q(3) by blast
      then show ?thesis unfolding split by simp
    qed
    moreover have "snap_indices (current_snapshot st1) = snap_indices (current_snapshot st)"
      using s1 by (simp add: settled_def Let_def)
    ultimately show ?thesis using found settled_trans[OF s1 q(1)]
      by (intro exI[of _ found] exI[of _ "?ps @ qs"] exI[of _ "?loc @ bs"]) simp
  qed
qed

lemma process_deletion_log_spec:
  assumes "arrow_bits_ok ops" and "vectors_wf st"
    and "process_deletion_log ops iops search pq task st = Ok st'"
  shows "\<exists>found processed answered.
    (unlocated task \<noteq> [] \<longrightarrow>
       find_records iops search (snap_indices (current_snapshot st)) (sort_deletions (unlocated task)) = Ok found)
    \<and> mset answered \<subseteq># mset (new_deletions task)
    \<and> ((\<forall>d \<in> set (new_deletions task). \<not> rd_delete_if_exists d) \<longrightarrow> mset answered = mset (new_deletions task))
    \<and> list_all2 (answers task st found) processed answered
    \<and> settled (commit_lsn_baseline task) (st\<lparr>uncommitted_deletion_log := []\<rparr>)
        (map the (uncommitted_deletion_log st) @ processed) st'"
proof -
  let ?s = "st\<lparr>uncommitted_deletion_log := []\<rparr>"
  obtain st1 where adv: "advance_pending_deletions ops task st = Ok st1"
    and new: "apply_new_deletions ops iops search pq task st1 = Ok st'"
    using assms(3) by (auto simp: process_deletion_log_def)
  obtain ds where ds: "uncommitted_deletion_log st = map Some ds"
    and fold: "res_fold (settle_deletion ops (commit_lsn_baseline task)) ?s ds = Ok st1"
    using advance_fold[OF adv[unfolded advance_pending_deletions_def]] by blast
  have s1: "settled (commit_lsn_baseline task) ?s ds st1"
    by (rule settle_all_spec[OF assms(1) _ fold]) (use assms(2) in simp)
  obtain found ps as where r: "unlocated task \<noteq> [] \<longrightarrow>
       find_records iops search (snap_indices (current_snapshot st1)) (sort_deletions (unlocated task)) = Ok found"
    "mset as \<subseteq># mset (new_deletions task)"
    "(\<forall>d \<in> set (new_deletions task). \<not> rd_delete_if_exists d) \<longrightarrow> mset as = mset (new_deletions task)"
    "list_all2 (answers task st1 found) ps as" "settled (commit_lsn_baseline task) st1 ps st'"
    using apply_new_deletions_spec[OF assms(1) settled_wf[OF s1] new] by blast
  have "list_all2 (answers task st found) ps as"
    by (rule list_all2_mono[OF r(4)]) (use settled_mono[OF s1] in \<open>auto elim!: answers_mono\<close>)
  moreover have "snap_indices (current_snapshot st1) = snap_indices (current_snapshot st)"
    using s1 by (simp add: settled_def Let_def)
  moreover have "settled (commit_lsn_baseline task) ?s (map the (uncommitted_deletion_log st) @ ps) st'"
    using settled_trans[OF s1 r(5)] by (simp add: ds comp_def)
  ultimately show ?thesis using r(1-3) by (intro exI[of _ found] exI[of _ ps] exI[of _ as]) simp
qed


text \<open>A witness: one deletion waits at a row in memory, another is looked up and found in a data file.\<close>

definition demo_metadata :: table_metadata where
  "demo_metadata = \<lparr>md_table_name = ''t'', md_table_id = 1, md_schema = [], md_config = demo_config, md_path = ''p''\<rparr>"

definition demo_state :: "(plain_batch, single_primitive_key list, key_with_identity list, (u64 \<times> record_location) list) snapshot_table_state" where
  "demo_state = \<lparr>iceberg_warehouse_location = ''w'', sts_metadata = demo_metadata,
     current_snapshot = (new_snapshot demo_metadata)\<lparr>
       disk_files := [(FileId 7, \<lparr>file_id = FileId 7, file_path = ''f''\<rparr>, new_disk_file_entry 2 100 None)],
       snap_indices := \<lparr>in_memory_index = [], file_indices = [demo_index 7]\<rparr>\<rparr>,
     sts_batches = [(1, new_in_memory_batch 2)], sts_rows = None, committed_deletion_log = [],
     uncommitted_deletion_log = [Some \<lparr>pd_pos = MemoryBatch 1 0, pd_lsn = 3\<rparr>],
     compacting_data_files = {}, last_commit = MemoryBatch 1 2,
     sts_unpersisted_records = new_unpersisted_records demo_config\<rparr>"

definition demo_deletion :: raw_deletion_record where
  "demo_deletion = \<lparr>rd_lookup_key = 5, rd_row_identity = None, rd_pos = None, rd_lsn = 4, rd_delete_if_exists = False\<rparr>"

definition demo_deletion_task :: "lsn \<Rightarrow> raw_deletion_record list \<Rightarrow>
   (plain_batch, single_primitive_key list, key_with_identity list, (u64 \<times> record_location) list) snapshot_task" where
  "demo_deletion_task lsn ds = (new_snapshot_task demo_config)\<lparr>commit_lsn_baseline := lsn, new_deletions := ds\<rparr>"

definition no_parquet :: parquet_reader where
  "no_parquet = \<lparr>pq_row_groups = (\<lambda>_. None), pq_read = (\<lambda>_ _ _ _. None)\<rparr>"

lemma fresh_vector_delete:
  assumes "arrow_bits_ok ar" and "i < n"
  shows "\<exists>dv. delete_row ar (new_deletion_vector n) i = Ok (True, dv)"
  using delete_row_spec[OF assms(1), of "new_deletion_vector n" i] assms(2)
  by (auto simp: dv_wf_def deleted_rows_def new_deletion_vector_def)

lemma demo_state_wf: "vectors_wf (demo_state\<lparr>uncommitted_deletion_log := l\<rparr>)"
  by (auto simp: vectors_wf_def loc_vector_def demo_state_def fm_get_def new_disk_file_entry_def new_in_memory_batch_def
      new_deletion_vector_def dv_wf_def split: record_location.splits if_splits)

lemmas demo_state_eval = process_deletion_log_def advance_pending_deletions_def apply_new_deletions_def
  add_processed_deletion_def settle_deletion_def commit_deletion_def sort_deletions_def find_records_def
  match_deletions_with_identical_key_and_lsn_def live_candidates_def location_is_deleted_def is_visible_def
  build_processed_deletion_def demo_state_def demo_deletion_def demo_deletion_task_def new_snapshot_task_def
  new_snapshot_def fm_get_def fm_set_def new_disk_file_entry_def new_in_memory_batch_def new_deletion_vector_def is_deleted_def


section \<open>A row matched twice\<close>

text \<open>
  C31: a row is matched twice. While a deletion below its commit waits in the snapshot's log at a row, the row still
  counts as live: when a second deletion of an equal row arrives in the next snapshot, the
  comparison of identities finds the same row first. Once both are below the commit LSN, every
  snapshot panics, since the row cannot be deleted twice.
\<close>

theorem row_matched_twice_panics:
  assumes ops: "arrow_bits_ok ops" and wf: "vectors_wf st"
    and pending: "uncommitted_deletion_log st = [Some p]" "commit_lsn_baseline task \<le> pd_lsn p"
    and new: "new_deletions task = [d]" "rd_pos d = None" "\<not> rd_delete_if_exists d" "rd_row_identity d = Some ident"
      "commit_lsn_baseline task \<le> rd_lsn d"
    and found: "find_records iops search (snap_indices (current_snapshot st)) [d] = Ok found"
      "\<forall>r \<in> set found. fst r = rd_lookup_key d"
    and cands: "live_candidates ops st (rd_lsn d) (map snd found) (new_disk_file_lsn_map task) (flushing_batch_lsn_map task)
        = Ok (pd_pos p # c # cs)"
    and same: "matches_identity ops pq st (pd_pos p) ident = Ok True"
    and later: "pd_lsn p < commit_lsn_baseline task'" "rd_lsn d < commit_lsn_baseline task'"
  shows "\<exists>st1. process_deletion_log ops iops search pq task st = Ok st1
    \<and> uncommitted_deletion_log st1 = [Some p, Some \<lparr>pd_pos = pd_pos p, pd_lsn = rd_lsn d\<rparr>]
    \<and> (\<exists>e. process_deletion_log ops iops' search' pq' task' st1 = Panic e)"
proof -
  let ?q = "\<lparr>pd_pos = pd_pos p, pd_lsn = rd_lsn d\<rparr>"
  let ?st1 = "st\<lparr>uncommitted_deletion_log := [Some p, Some ?q]\<rparr>"
  have st: "st\<lparr>uncommitted_deletion_log := [Some p]\<rparr> = st" using pending(1) by (cases st) simp
  have sorted: "sort_key fst found = found"
  proof (rule sort_key_id_if_sorted)
    show "sorted (map fst found)" using found(2) by (induction found) auto
  qed
  have results: "dropWhile (\<lambda>r. fst r < rd_lookup_key d) found = found"
    "takeWhile (\<lambda>r. fst r = rd_lookup_key d) found = found"
    using found(2) by (cases found; simp) (use found(2) in \<open>simp add: takeWhile_eq_all_conv\<close>)
  have match: "match_deletions_with_identical_key_and_lsn ops pq st [d] (map snd found)
      (new_disk_file_lsn_map task) (flushing_batch_lsn_map task) False = Ok [?q]"
    using cands same new(4) by (simp add: match_deletions_with_identical_key_and_lsn_def build_processed_deletion_def)
  have step: "process_deletion_log ops iops search pq task st = Ok ?st1"
    using pending new found(1)
    by (simp add: results match process_deletion_log_def advance_pending_deletions_def apply_new_deletions_def sort_deletions_def
        add_processed_deletion_def settle_deletion_def sorted st Let_def)
  have known: "pd_pos p \<in> known st" using live_candidates_spec(3)[OF ops wf cands, of "pd_pos p"] by simp
  have "\<exists>e. process_deletion_log ops iops' search' pq' task' ?st1 = Panic e"
  proof (cases "process_deletion_log ops iops' search' pq' task' ?st1")
    case (Ok st2)
    have wf1: "vectors_wf ?st1" using wf by simp
    from process_deletion_log_spec[OF ops wf1 Ok] obtain ps where
      "settled (commit_lsn_baseline task') (?st1\<lparr>uncommitted_deletion_log := []\<rparr>) ([p, ?q] @ ps) st2" by auto
    then have "distinct (filter (\<lambda>l. l \<in> known st) (map pd_pos (filter (\<lambda>d. pd_lsn d < commit_lsn_baseline task') ([p, ?q] @ ps))))"
      by (simp add: settled_def Let_def)
    then show ?thesis using later known by simp
  qed simp
  then show ?thesis using step by (intro exI[of _ ?st1]) simp
qed

text \<open>A witness: a table without primary key with two equal rows in a data file.\<close>

definition demo_parquet :: parquet_reader where
  "demo_parquet = \<lparr>pq_row_groups = (\<lambda>_. Some [2]), pq_read = (\<lambda>_ _ _ _. Some ([Int32Array [(True, 7)]], 1))\<rparr>"


definition full_row_state :: "(plain_batch, single_primitive_key list, key_with_identity list, (u64 \<times> record_location) list) snapshot_table_state" where
  "full_row_state = demo_state\<lparr>
     uncommitted_deletion_log := [Some \<lparr>pd_pos = DiskFile (FileId 7) 0, pd_lsn = 3\<rparr>],
     current_snapshot := (current_snapshot demo_state)\<lparr>snap_metadata :=
       demo_metadata\<lparr>md_config := demo_config\<lparr>row_identity := FullRow\<rparr>\<rparr>\<rparr>\<rparr>"

definition full_row_deletion :: raw_deletion_record where
  "full_row_deletion = demo_deletion\<lparr>rd_row_identity := Some \<lparr>row_values = [Int32 7]\<rparr>\<rparr>"

theorem row_matched_twice_panics_witness:
  "\<exists>st1. process_deletion_log plain_arrow list_index
        (\<lambda>_ ks. concat (map (\<lambda>k. [(k, DiskFile (FileId 7) 0), (k, DiskFile (FileId 7) 1)]) ks)) demo_parquet
        (demo_deletion_task 3 [full_row_deletion]) full_row_state = Ok st1
    \<and> (\<exists>e. process_deletion_log plain_arrow list_index (\<lambda>_ _. []) demo_parquet (demo_deletion_task 5 []) st1 = Panic e)"
proof -
  let ?search = "\<lambda>_ ks. concat (map (\<lambda>k. [(k, DiskFile (FileId 7) 0), (k, DiskFile (FileId 7) 1)]) ks)"
  let ?task = "demo_deletion_task 3 [full_row_deletion]"
  let ?found = "[(5, DiskFile (FileId 7) 0), (5, DiskFile (FileId 7) 1)]"
  have bits: "arrow_bits_ok plain_arrow" by (rule batch_ops_okD(2)[OF plain_batch_ops_ok])
  have wf: "vectors_wf full_row_state"
    by (auto simp: full_row_state_def vectors_wf_def loc_vector_def demo_state_def fm_get_def new_disk_file_entry_def
        new_in_memory_batch_def new_snapshot_def new_deletion_vector_def dv_wf_def split: record_location.splits if_splits)
  have new: "new_deletions ?task = [full_row_deletion]" "rd_pos full_row_deletion = None"
    "\<not> rd_delete_if_exists full_row_deletion" "rd_row_identity full_row_deletion = Some \<lparr>row_values = [Int32 7]\<rparr>"
    by (simp_all add: demo_deletion_task_def full_row_deletion_def demo_deletion_def)
  have lsns: "commit_lsn_baseline ?task = 3" "rd_lsn full_row_deletion = 4"
    by (simp_all add: demo_deletion_task_def full_row_deletion_def demo_deletion_def)
  have found: "find_records list_index ?search (snap_indices (current_snapshot full_row_state)) [full_row_deletion] = Ok ?found"
    by (simp add: find_records_def full_row_state_def demo_state_def full_row_deletion_def demo_deletion_def)
  have cands: "live_candidates plain_arrow full_row_state (rd_lsn full_row_deletion) (map snd ?found)
      (new_disk_file_lsn_map ?task) (flushing_batch_lsn_map ?task) = Ok [DiskFile (FileId 7) 0, DiskFile (FileId 7) 1]"
    by (simp add: full_row_state_def demo_state_eval)
  have same: "matches_identity plain_arrow demo_parquet full_row_state (DiskFile (FileId 7) 0) \<lparr>row_values = [Int32 7]\<rparr> = Ok True"
    by (auto simp: matches_identity_def full_row_state_def demo_state_def equals_parquet_at_offset_def demo_parquet_def
        is_extracted_identity_row_def get_key_indices_def sub_checked_def equals_record_batch_at_offset_impl_def
        value_matches_column.simps(1) matches_children.simps)
  have "\<exists>st1. process_deletion_log plain_arrow list_index ?search demo_parquet ?task full_row_state = Ok st1
    \<and> uncommitted_deletion_log st1 = [Some \<lparr>pd_pos = DiskFile (FileId 7) 0, pd_lsn = 3\<rparr>,
        Some \<lparr>pd_pos = pd_pos \<lparr>pd_pos = DiskFile (FileId 7) 0, pd_lsn = 3\<rparr>, pd_lsn = rd_lsn full_row_deletion\<rparr>]
    \<and> (\<exists>e. process_deletion_log plain_arrow list_index (\<lambda>_ _. []) demo_parquet (demo_deletion_task 5 []) st1 = Panic e)"
    by (rule row_matched_twice_panics[OF bits wf _ _ new _ found])
      (use cands same lsns in \<open>simp_all add: full_row_state_def full_row_deletion_def demo_deletion_def demo_deletion_task_def\<close>)
  then show ?thesis by blast
qed

end
