(* ===== verification/Mooncake_Table.thy ===== *)
theory Mooncake_Table
  imports Snapshot_State
begin

text \<open>
  The mooncake table (\<^verbatim>\<open>storage/mooncake_table.rs\<close>): rows of the main transaction go to the mem
  slice, deletions to the next snapshot task; a flush drains the slice into a disk slice that a
  background task writes. Flushes may finish out of order; the table tracks the LSNs that are
  still being flushed and hands a flush LSN to the next snapshot.

  Streaming transactions, the WAL and the replay log are not part of this state; the event
  loop of \<^verbatim>\<open>Table_Handler\<close> reaches them through its interface record.
\<close>

section \<open>State\<close>

record background_task_status =
  bts_mooncake_snapshot_ongoing :: bool
  bts_persistence_snapshot_ongoing :: bool
  bts_index_merge_ongoing :: bool
  bts_data_compaction_ongoing :: bool

text \<open>
  \<open>mt_next_ptr\<close> numbers the shared pointers to in-memory indices; the table manager is only
  tracked as present or lent to a persistence. The map of ongoing flush LSNs is an
  association list from LSN to count, read through its smallest key.
\<close>

record ('b, 's, 'k, 'm) mooncake_table =
  mt_metadata :: table_metadata
  mt_mem_slice :: "('b, 's, 'k, 'm) mem_slice"
  mt_snapshot :: "('b, 's, 'k, 'm) snapshot_table_state"
  mt_background :: background_task_status
  next_snapshot_task :: "('b, 's, 'k, 'm) snapshot_task"
  mt_next_file_id :: u32
  non_streaming_batch_id_counter :: batch_id_counter
  mt_manager_present :: bool
  last_flush_lsn :: "lsn option"
  last_persistence_snapshot_lsn :: "lsn option"
  ongoing_flush_lsns :: "(lsn \<times> nat) list"
  completed_unrecorded_flush_lsns :: "lsn set"
  mt_next_ptr :: nat

definition new_with_table_manager ::
  "('b, 'z) arrow_ops_scheme \<Rightarrow> ('s, 'k, 'm) index_ops \<Rightarrow> table_metadata \<Rightarrow> string \<Rightarrow>
   u32 \<times> ('s, 'k, 'm) snapshot \<Rightarrow> ('b, 's, 'k, 'm) mooncake_table res" where
  "new_with_table_manager ops iops metadata location loaded =
     res_bind (metadata_validate metadata) (\<lambda>_.
     let (file_id_start, snap) = loaded
     in res_bind (new_mem_slice ops iops (md_schema metadata) (batch_size (md_config metadata))
          (row_identity (md_config metadata)) (new_batch_id_counter False)) (\<lambda>(slice, ids). Ok
        \<lparr>mt_metadata = metadata, mt_mem_slice = slice,
         mt_snapshot = new_snapshot_table_state location metadata snap ids,
         mt_background = \<lparr>bts_mooncake_snapshot_ongoing = False, bts_persistence_snapshot_ongoing = False,
           bts_index_merge_ongoing = False, bts_data_compaction_ongoing = False\<rparr>,
         next_snapshot_task = new_snapshot_task (md_config metadata), mt_next_file_id = file_id_start,
         non_streaming_batch_id_counter = ids, mt_manager_present = True, last_flush_lsn = None,
         last_persistence_snapshot_lsn = snap_flush_lsn snap, ongoing_flush_lsns = [],
         completed_unrecorded_flush_lsns = {}, mt_next_ptr = 0\<rparr>))"


section \<open>Flush LSNs\<close>

definition get_min_ongoing_flush_lsn :: "('b, 's, 'k, 'm) mooncake_table \<Rightarrow> lsn" where
  "get_min_ongoing_flush_lsn t =
     (if ongoing_flush_lsns t = [] then U64_MAX else Min (set (map fst (ongoing_flush_lsns t))))"

definition get_last_flush_lsn :: "('b, 's, 'k, 'm) mooncake_table \<Rightarrow> lsn" where
  "get_last_flush_lsn t = (case last_flush_lsn t of None \<Rightarrow> 0 | Some l \<Rightarrow> l)"

definition insert_ongoing_flush_lsn ::
  "lsn \<Rightarrow> nat \<Rightarrow> ('b, 's, 'k, 'm) mooncake_table \<Rightarrow> ('b, 's, 'k, 'm) mooncake_table res" where
  "insert_ongoing_flush_lsn lsn n t =
     res_bind (add_width 32 (case map_of (ongoing_flush_lsns t) lsn of None \<Rightarrow> 0 | Some c \<Rightarrow> c) n) (\<lambda>c.
     check (lsn \<ge> get_last_flush_lsn t) AssertFailed (Ok (
       t\<lparr>ongoing_flush_lsns := AList.update lsn c (ongoing_flush_lsns t), last_flush_lsn := Some lsn\<rparr>)))"

definition remove_ongoing_flush_lsn ::
  "lsn \<Rightarrow> ('b, 's, 'k, 'm) mooncake_table \<Rightarrow> ('b, 's, 'k, 'm) mooncake_table res" where
  "remove_ongoing_flush_lsn lsn t = (case map_of (ongoing_flush_lsns t) lsn of
       None \<Rightarrow> Panic ExplicitPanic
     | Some c \<Rightarrow> Ok (if c > 1 then t\<lparr>ongoing_flush_lsns := AList.update lsn (c - 1) (ongoing_flush_lsns t)\<rparr>
         else t\<lparr>ongoing_flush_lsns := AList.delete lsn (ongoing_flush_lsns t)\<rparr>))"

definition has_ongoing_flush :: "('b, 's, 'k, 'm) mooncake_table \<Rightarrow> bool" where
  "has_ongoing_flush t \<longleftrightarrow> ongoing_flush_lsns t \<noteq> []"

abbreviation set_new_flush_lsn :: "lsn \<Rightarrow> ('b, 's, 'k, 'm) mooncake_table \<Rightarrow> ('b, 's, 'k, 'm) mooncake_table" where
  "set_new_flush_lsn lsn t \<equiv> t\<lparr>next_snapshot_task := (next_snapshot_task t)\<lparr>new_flush_lsn := Some lsn\<rparr>\<rparr>"

definition try_set_next_flush_lsn ::
  "lsn \<Rightarrow> ('b, 's, 'k, 'm) mooncake_table \<Rightarrow> ('b, 's, 'k, 'm) mooncake_table res" where
  "try_set_next_flush_lsn lsn t =
     (let t = t\<lparr>next_snapshot_task := try_set_largest_flush_lsn lsn (next_snapshot_task t)\<rparr>;
          min_pending_lsn = get_min_ongoing_flush_lsn t
      in res_bind (if lsn < min_pending_lsn then
             check (case new_flush_lsn (next_snapshot_task t) of None \<Rightarrow> True | Some old \<Rightarrow> old \<le> lsn) AssertFailed
               (Ok (set_new_flush_lsn lsn t))
           else Ok (t\<lparr>completed_unrecorded_flush_lsns := insert lsn (completed_unrecorded_flush_lsns t)\<rparr>)) (\<lambda>t.
         if ongoing_flush_lsns t = [] then
           res_bind (if completed_unrecorded_flush_lsns t = {} then Ok t
             else let largest_lsn = Max (completed_unrecorded_flush_lsns t)
               in unwrap (new_flush_lsn (next_snapshot_task t)) (\<lambda>l.
                  Ok (if largest_lsn > l then set_new_flush_lsn largest_lsn t else t))) (\<lambda>t.
           Ok (t\<lparr>completed_unrecorded_flush_lsns := {}\<rparr>))
         else Ok t))"


section \<open>Writes of the main transaction\<close>

abbreviation upd_task ::
  "(('b, 's, 'k, 'm) snapshot_task \<Rightarrow> ('b, 's, 'k, 'm) snapshot_task) \<Rightarrow> ('b, 's, 'k, 'm) mooncake_table \<Rightarrow>
   ('b, 's, 'k, 'm) mooncake_table" where
  "upd_task f t \<equiv> t\<lparr>next_snapshot_task := f (next_snapshot_task t)\<rparr>"

definition push_record_batch ::
  "(u64 \<times> 'b) option \<Rightarrow> ('b, 's, 'k, 'm) snapshot_task \<Rightarrow> ('b, 's, 'k, 'm) snapshot_task" where
  "push_record_batch new_batch task = (case new_batch of
       None \<Rightarrow> task
     | Some (batch_id, batch) \<Rightarrow> task\<lparr>new_record_batches := new_record_batches task @
         [\<lparr>rb_batch_id = batch_id, rb_record_batch = batch, rb_deletion_vector = None\<rparr>]\<rparr>)"

definition table_append ::
  "('b, 'z) arrow_ops_scheme \<Rightarrow> ('s, 'k, 'm) index_ops \<Rightarrow> (hash_item list \<Rightarrow> u64) \<Rightarrow> moonlink_row \<Rightarrow>
   ('b, 's, 'k, 'm) mooncake_table \<Rightarrow> ((store_error + unit) \<times> ('b, 's, 'k, 'm) mooncake_table) res" where
  "table_append ops iops ahash row t =
     (let ident = row_identity (md_config (mt_metadata t))
      in res_bind (get_lookup_key ahash ident row) (\<lambda>lookup_key.
         res_bind (extract_identity_for_key ident row) (\<lambda>identity_for_key.
         res_bind (slice_append ops iops (mt_mem_slice t) (non_streaming_batch_id_counter t) lookup_key row identity_for_key)
           (\<lambda>(r, slice, ids).
         let t = t\<lparr>mt_mem_slice := slice, non_streaming_batch_id_counter := ids\<rparr>
         in case r of
              Inl e \<Rightarrow> Ok (Inl e, t)
            | Inr batch \<Rightarrow> Ok (Inr (), upd_task (push_record_batch batch) t)))))"

definition delete_impl ::
  "('b, 'z) arrow_ops_scheme \<Rightarrow> ('s, 'k, 'm) index_ops \<Rightarrow> (hash_item list \<Rightarrow> u64) \<Rightarrow> moonlink_row \<Rightarrow> lsn \<Rightarrow> bool \<Rightarrow>
   ('b, 's, 'k, 'm) mooncake_table \<Rightarrow> ('b, 's, 'k, 'm) mooncake_table res" where
  "delete_impl ops iops ahash row lsn delete_if_exists t =
     (let ident = row_identity (md_config (mt_metadata t))
      in if ident = IdentityNone then Ok t
         else res_bind (get_lookup_key ahash ident row) (\<lambda>lookup_key.
         res_bind (extract_identity_columns ident row) (\<lambda>row_ident.
         let record = \<lparr>rd_lookup_key = lookup_key, rd_row_identity = row_ident, rd_pos = None, rd_lsn = lsn,
                       rd_delete_if_exists = delete_if_exists\<rparr>
         in res_bind (slice_delete ops iops (mt_mem_slice t) record ident) (\<lambda>(pos, slice).
            Ok (upd_task (\<lambda>task. task\<lparr>new_deletions := new_deletions task @ [record\<lparr>rd_pos := pos\<rparr>]\<rparr>)
                 (t\<lparr>mt_mem_slice := slice\<rparr>))))))"

definition table_commit :: "lsn \<Rightarrow> ('b, 's, 'k, 'm) mooncake_table \<Rightarrow> ('b, 's, 'k, 'm) mooncake_table res" where
  "table_commit lsn t =
     (let task = next_snapshot_task t
      in check (lsn \<ge> commit_lsn_baseline task) AssertFailed (
         res_bind (slice_get_commit_check_point (mt_mem_slice t)) (\<lambda>point.
         check (new_deletions task = []
             \<or> rd_lsn (last (new_deletions task)) \<ge> LSN_START_FOR_STREAMING_XACT
             \<or> rd_lsn (last (new_deletions task)) < lsn) AssertFailed (Ok (
           t\<lparr>next_snapshot_task := task\<lparr>commit_lsn_baseline := lsn, new_commit_point := Some point\<rparr>\<rparr>)))))"

section \<open>Flushing\<close>

definition should_flush :: "('b, 's, 'k, 'm) mooncake_table \<Rightarrow> bool" where
  "should_flush t \<longleftrightarrow> slice_get_num_rows (mt_mem_slice t) \<ge> mem_slice_size (md_config (mt_metadata t))"

fun mark_flushing ::
  "lsn \<Rightarrow> 'b batch_entry list \<Rightarrow> (u64 \<rightharpoonup> lsn) \<Rightarrow> (u64 \<rightharpoonup> lsn) res" where
  "mark_flushing lsn [] m = Ok m"
| "mark_flushing lsn (b # bs) m = check (m (be_id b) = None) AssertFailed (mark_flushing lsn bs (m(be_id b \<mapsto> lsn)))"

definition prepare_disk_slice ::
  "('b, 'z) arrow_ops_scheme \<Rightarrow> ('s, 'k, 'm) index_ops \<Rightarrow> lsn \<Rightarrow> ('b, 's, 'k, 'm) mooncake_table \<Rightarrow>
   ((store_error + ('b, 's, 'k, 'm) disk_slice_writer) \<times> ('b, 's, 'k, 'm) mooncake_table) res" where
  "prepare_disk_slice ops iops lsn t =
     res_bind (slice_drain ops iops (mt_mem_slice t) (non_streaming_batch_id_counter t)) (\<lambda>(r, slice, ids).
     let t = t\<lparr>mt_mem_slice := slice, non_streaming_batch_id_counter := ids\<rparr>
     in case r of
          Inl e \<Rightarrow> Ok (Inl e, t)
        | Inr (new_batch, batches, index) \<Rightarrow>
            let ptr = (mt_next_ptr t, index); task = push_record_batch new_batch (next_snapshot_task t)
            in res_bind (mark_flushing lsn batches (flushing_batch_lsn_map task)) (\<lambda>flushing.
               res_bind (checked_add (mt_next_file_id t) 1) (\<lambda>following_id.
               Ok (Inr (new_disk_slice_writer (md_schema (mt_metadata t)) (md_path (mt_metadata t)) batches (Some lsn)
                     (mt_next_file_id t) ptr (parquet_file_size (md_config (mt_metadata t)))),
                   t\<lparr>next_snapshot_task := task\<lparr>flushing_batch_lsn_map := flushing,
                       new_mem_indices := new_mem_indices task @ [ptr]\<rparr>,
                     mt_next_file_id := following_id, mt_next_ptr := Suc (mt_next_ptr t)\<rparr>))))"

text \<open>What \<^verbatim>\<open>flush_disk_slice\<close> does before it spawns the writing of the slice.\<close>

definition flush_disk_slice ::
  "('b, 's, 'k, 'm) disk_slice_writer \<Rightarrow> xact_id option \<Rightarrow> nat \<Rightarrow> ('b, 's, 'k, 'm) mooncake_table \<Rightarrow>
   ('b, 's, 'k, 'm) mooncake_table res" where
  "flush_disk_slice w xact ongoing_flush_count t = (case writer_lsn w of
       Some lsn \<Rightarrow> insert_ongoing_flush_lsn lsn ongoing_flush_count t
     | None \<Rightarrow> check (xact \<noteq> None) AssertFailed (Ok t))"

text \<open>The slice to be written, if any; without one the completion is announced at once.\<close>

definition table_flush ::
  "('b, 'z) arrow_ops_scheme \<Rightarrow> ('s, 'k, 'm) index_ops \<Rightarrow> lsn \<Rightarrow> ('b, 's, 'k, 'm) mooncake_table \<Rightarrow>
   ((store_error + ('b, 's, 'k, 'm) disk_slice_writer option) \<times> ('b, 's, 'k, 'm) mooncake_table) res" where
  "table_flush ops iops lsn t =
     check (case new_flush_lsn (next_snapshot_task t) of None \<Rightarrow> True | Some l \<Rightarrow> l \<le> lsn) AssertFailed (
     if slice_is_empty (mt_mem_slice t) \<or> map_of (ongoing_flush_lsns t) lsn \<noteq> None then
       res_bind (try_set_next_flush_lsn lsn t) (\<lambda>t. Ok (Inr None, t))
     else res_bind (prepare_disk_slice ops iops lsn t) (\<lambda>(r, t). case r of
         Inl e \<Rightarrow> Ok (Inl e, t)
       | Inr w \<Rightarrow> res_bind (flush_disk_slice w None 1 t) (\<lambda>t. Ok (Inr (Some w), t))))"

definition apply_flush_result ::
  "('b, 's, 'k, 'm) disk_slice_writer \<Rightarrow> ('b, 's, 'k, 'm) mooncake_table \<Rightarrow> ('b, 's, 'k, 'm) mooncake_table res" where
  "apply_flush_result w t =
     unwrap (writer_lsn w) (\<lambda>lsn.
     res_bind (remove_ongoing_flush_lsn lsn t) (\<lambda>t.
     res_bind (try_set_next_flush_lsn lsn t) (\<lambda>t.
     Ok (upd_task (\<lambda>task. task\<lparr>new_disk_slices := new_disk_slices task @ [w]\<rparr>) t))))"

section \<open>Snapshots and background results\<close>

definition create_snapshot_impl ::
  "('b, 's, 'k, 'm) mooncake_table \<Rightarrow> (('b, 's, 'k, 'm) snapshot_task \<times> ('b, 's, 'k, 'm) mooncake_table) res" where
  "create_snapshot_impl t =
     check (\<not> bts_mooncake_snapshot_ongoing (mt_background t)) AssertFailed (
     let task = (next_snapshot_task t)\<lparr>new_rows := Some (slice_get_latest_rows (mt_mem_slice t))\<rparr>;
         t = t\<lparr>mt_background := (mt_background t)\<lparr>bts_mooncake_snapshot_ongoing := True\<rparr>,
               next_snapshot_task := (new_snapshot_task (md_config (mt_metadata t)))
                 \<lparr>commit_lsn_baseline := commit_lsn_baseline task, prev_commit_lsn_baseline := commit_lsn_baseline task\<rparr>\<rparr>
     in Ok (task\<lparr>min_ongoing_flush_lsn := get_min_ongoing_flush_lsn t\<rparr>, t))"

definition table_try_create_snapshot ::
  "snapshot_option \<Rightarrow> ('b, 's, 'k, 'm) mooncake_table \<Rightarrow>
   (('b, 's, 'k, 'm) snapshot_task option \<times> ('b, 's, 'k, 'm) mooncake_table) res" where
  "table_try_create_snapshot opt t =
     res_bind (should_create_snapshot (next_snapshot_task t)) (\<lambda>should_create.
     if \<not> should_create \<and> \<not> force_create opt then Ok (None, t)
     else res_bind (create_snapshot_impl t) (\<lambda>(task, t). Ok (Some task, t)))"

definition mark_mooncake_snapshot_completed ::
  "('b, 's, 'k, 'm) mooncake_table \<Rightarrow> ('b, 's, 'k, 'm) mooncake_table res" where
  "mark_mooncake_snapshot_completed t =
     check (bts_mooncake_snapshot_ongoing (mt_background t)) AssertFailed
       (Ok (t\<lparr>mt_background := (mt_background t)\<lparr>bts_mooncake_snapshot_ongoing := False\<rparr>\<rparr>))"

definition force_empty_persistence_payload :: "('b, 's, 'k, 'm) mooncake_table \<Rightarrow> ('b, 's, 'k, 'm) mooncake_table" where
  "force_empty_persistence_payload t = upd_task (\<lambda>task. task\<lparr>st_force_empty_persistence_payload := True\<rparr>) t"

definition persist_iceberg_snapshot ::
  "table_metadata persistence_snapshot_payload \<Rightarrow> ('b, 's, 'k, 'm) mooncake_table \<Rightarrow>
   ((u32 \<times> u32) \<times> ('b, 's, 'k, 'm) mooncake_table) res" where
  "persist_iceberg_snapshot payload t =
     check (mt_manager_present t) UnwrapNone (
     check (\<not> bts_persistence_snapshot_ongoing (mt_background t)) AssertFailed (
     res_bind (get_new_file_ids_num payload) (\<lambda>new_file_ids_to_create.
     res_bind (checked_add (mt_next_file_id t) new_file_ids_to_create) (\<lambda>following_id.
     Ok ((mt_next_file_id t, following_id),
         t\<lparr>mt_manager_present := False, mt_background := (mt_background t)\<lparr>bts_persistence_snapshot_ongoing := True\<rparr>,
           mt_next_file_id := following_id\<rparr>)))))"

text \<open>The new schema of the result is the pointer the table holds; pointers are compared by content.\<close>

definition set_persistence_snapshot_res ::
  "table_metadata persistence_snapshot_result \<Rightarrow> ('b, 's, 'k, 'm) mooncake_table \<Rightarrow> ('b, 's, 'k, 'm) mooncake_table res" where
  "set_persistence_snapshot_res r t =
     check (bts_persistence_snapshot_ongoing (mt_background t)) AssertFailed (
     check (case last_persistence_snapshot_lsn t of None \<Rightarrow> True | Some l \<Rightarrow> l \<le> psr_flush_lsn r) AssertFailed (
     check (case psr_new_table_schema r of None \<Rightarrow> True | Some md \<Rightarrow> md = mt_metadata t) AssertFailed (
     check (\<not> mt_manager_present t) AssertFailed (
     check (st_committed_deletion_logs (next_snapshot_task t) = {}) AssertFailed (
     res_bind (set_persisted_records r (st_persisted_records (next_snapshot_task t))) (\<lambda>records.
     Ok (t\<lparr>mt_background := (mt_background t)\<lparr>bts_persistence_snapshot_ongoing := False\<rparr>,
           last_persistence_snapshot_lsn := Some (psr_flush_lsn r), mt_manager_present := True,
           next_snapshot_task := (next_snapshot_task t)\<lparr>st_committed_deletion_logs := psr_committed_deletion_logs r,
             st_persisted_records := records\<rparr>\<rparr>)))))))"

definition set_file_indices_merge_res ::
  "file_indice_merge_result \<Rightarrow> ('b, 's, 'k, 'm) mooncake_table \<Rightarrow> ('b, 's, 'k, 'm) mooncake_table res" where
  "set_file_indices_merge_res r t =
     check (bts_index_merge_ongoing (mt_background t)) AssertFailed (
     res_bind (file_indice_merge_result_is_empty (st_index_merge_result (next_snapshot_task t))) (\<lambda>empty.
     check empty AssertFailed (Ok (
       upd_task (\<lambda>task. task\<lparr>st_index_merge_result := r\<rparr>)
         (t\<lparr>mt_background := (mt_background t)\<lparr>bts_index_merge_ongoing := False\<rparr>\<rparr>)))))"

definition set_data_compaction_res ::
  "data_compaction_result \<Rightarrow> ('b, 's, 'k, 'm) mooncake_table \<Rightarrow> ('b, 's, 'k, 'm) mooncake_table res" where
  "set_data_compaction_res r t =
     check (bts_data_compaction_ongoing (mt_background t)) AssertFailed (
     res_bind (compaction_result_is_empty (st_data_compaction_result (next_snapshot_task t))) (\<lambda>empty.
     check empty AssertFailed (Ok (
       upd_task (\<lambda>task. task\<lparr>st_data_compaction_result := r\<rparr>)
         (t\<lparr>mt_background := (mt_background t)\<lparr>bts_data_compaction_ongoing := False\<rparr>\<rparr>)))))"

text \<open>The merge and the compaction run in the background; what they are given are their file ids.\<close>

definition perform_index_merge ::
  "('b, 's, 'k, 'm) mooncake_table \<Rightarrow> (u64 \<times> ('b, 's, 'k, 'm) mooncake_table) res" where
  "perform_index_merge t =
     check (\<not> bts_index_merge_ongoing (mt_background t)) AssertFailed (
     res_bind (checked_add (mt_next_file_id t) 1) (\<lambda>following_id.
     Ok (ucast (mt_next_file_id t),
         t\<lparr>mt_background := (mt_background t)\<lparr>bts_index_merge_ongoing := True\<rparr>, mt_next_file_id := following_id\<rparr>)))"

definition perform_data_compaction ::
  "data_compaction_payload \<Rightarrow> ('b, 's, 'k, 'm) mooncake_table \<Rightarrow> ((u32 \<times> u32) \<times> ('b, 's, 'k, 'm) mooncake_table) res" where
  "perform_data_compaction payload t =
     check (\<not> bts_data_compaction_ongoing (mt_background t)) AssertFailed (
     res_bind (get_new_compacted_data_file_ids_number payload) (\<lambda>n.
     res_bind (checked_add (mt_next_file_id t) n) (\<lambda>following_id.
     check (st_compacting_data_files (next_snapshot_task t) = {}) AssertFailed (
     Ok ((mt_next_file_id t, following_id),
         upd_task (\<lambda>task. task\<lparr>st_compacting_data_files := get_data_files payload\<rparr>)
           (t\<lparr>mt_background := (mt_background t)\<lparr>bts_data_compaction_ongoing := True\<rparr>, mt_next_file_id := following_id\<rparr>))))))"

definition alter_table ::
  "('b, 'z) arrow_ops_scheme \<Rightarrow> ('s, 'k, 'm) index_ops \<Rightarrow> arrow_field list \<Rightarrow> string list \<Rightarrow>
   ('b, 's, 'k, 'm) mooncake_table \<Rightarrow> ('b, 's, 'k, 'm) mooncake_table res" where
  "alter_table ops iops added dropped t =
     check (slice_is_empty (mt_mem_slice t)) AssertFailed (
     res_bind (task_is_empty (next_snapshot_task t)) (\<lambda>empty.
     check empty AssertFailed (
     let metadata = new_for_alter_table (mt_metadata t) added dropped
     in res_bind (new_mem_slice ops iops (md_schema metadata) (batch_size (md_config metadata))
          (row_identity (md_config metadata)) (non_streaming_batch_id_counter t)) (\<lambda>(slice, ids).
        check (length (md_schema (mt_metadata t)) \<noteq> length (md_schema metadata)) AssertFailed (Ok (
          t\<lparr>mt_mem_slice := slice, non_streaming_batch_id_counter := ids,
            mt_snapshot := reset_for_alter metadata ids (mt_snapshot t), mt_metadata := metadata\<rparr>))))))"


section \<open>Flush LSNs are sound\<close>

text \<open>
  A run of the table with its history: the LSNs at which a flush was requested, and the flush LSNs
  handed to snapshots.
\<close>

record ('b, 's, 'k, 'm) flush_system =
  fs_table :: "('b, 's, 'k, 'm) mooncake_table"
  fs_requested :: "lsn set"
  fs_handed :: "lsn set"

datatype ('b, 's, 'k, 'm) table_op =
    AppendRow moonlink_row
  | DeleteRow moonlink_row lsn bool
  | CommitAt lsn
  | FlushAt lsn
  | FlushFinished "('b, 's, 'k, 'm) disk_slice_writer"
  | TrySnapshot snapshot_option
  | SnapshotCompleted

fun table_step ::
  "('b, 'z) arrow_ops_scheme \<Rightarrow> ('s, 'k, 'm) index_ops \<Rightarrow> (hash_item list \<Rightarrow> u64) \<Rightarrow>
   ('b, 's, 'k, 'm) flush_system \<Rightarrow> ('b, 's, 'k, 'm) table_op \<Rightarrow> ('b, 's, 'k, 'm) flush_system res" where
  "table_step ops iops ahash s (AppendRow row) =
     res_bind (table_append ops iops ahash row (fs_table s)) (\<lambda>(_, t). Ok (s\<lparr>fs_table := t\<rparr>))"
| "table_step ops iops ahash s (DeleteRow row lsn e) =
     res_bind (delete_impl ops iops ahash row lsn e (fs_table s)) (\<lambda>t. Ok (s\<lparr>fs_table := t\<rparr>))"
| "table_step ops iops ahash s (CommitAt lsn) =
     res_bind (table_commit lsn (fs_table s)) (\<lambda>t. Ok (s\<lparr>fs_table := t\<rparr>))"
| "table_step ops iops ahash s (FlushAt lsn) =
     res_bind (table_flush ops iops lsn (fs_table s)) (\<lambda>(r, t). Ok (case r of
         Inl _ \<Rightarrow> s\<lparr>fs_table := t\<rparr>
       | Inr _ \<Rightarrow> s\<lparr>fs_table := t, fs_requested := insert lsn (fs_requested s)\<rparr>))"
| "table_step ops iops ahash s (FlushFinished w) =
     res_bind (apply_flush_result w (fs_table s)) (\<lambda>t. Ok (s\<lparr>fs_table := t\<rparr>))"
| "table_step ops iops ahash s (TrySnapshot opt) =
     res_bind (table_try_create_snapshot opt (fs_table s)) (\<lambda>(task, t). Ok (case task of
         None \<Rightarrow> s\<lparr>fs_table := t\<rparr>
       | Some task \<Rightarrow> s\<lparr>fs_table := t, fs_handed := fs_handed s \<union> set_option (new_flush_lsn task)\<rparr>))"
| "table_step ops iops ahash s SnapshotCompleted =
     res_bind (mark_mooncake_snapshot_completed (fs_table s)) (\<lambda>t. Ok (s\<lparr>fs_table := t\<rparr>))"

text \<open>
  What the event loop ensures: the LSNs of flushes do not go back, and only a flush that is
  being written finishes.
\<close>

abbreviation flushing_lsns :: "('b, 's, 'k, 'm) mooncake_table \<Rightarrow> lsn set" where
  "flushing_lsns t \<equiv> fst ` set (ongoing_flush_lsns t)"

abbreviation recorded_lsns :: "('b, 's, 'k, 'm) mooncake_table \<Rightarrow> lsn set" where
  "recorded_lsns t \<equiv> set_option (new_flush_lsn (next_snapshot_task t))"

fun table_guard :: "('b, 's, 'k, 'm) flush_system \<Rightarrow> ('b, 's, 'k, 'm) table_op \<Rightarrow> bool" where
  "table_guard s (FlushAt lsn) \<longleftrightarrow> (\<forall>l \<in> fs_requested s. l \<le> lsn) \<and> lsn < U64_MAX"
| "table_guard s (FlushFinished w) \<longleftrightarrow> (\<exists>l \<in> flushing_lsns (fs_table s). writer_lsn w = Some l)"
| "table_guard s _ \<longleftrightarrow> True"

definition flush_inv :: "('b, 's, 'k, 'm) mooncake_table \<Rightarrow> lsn set \<Rightarrow> lsn set \<Rightarrow> bool" where
  "flush_inv t R H \<longleftrightarrow> distinct (map fst (ongoing_flush_lsns t)) \<and> finite R \<and> (\<forall>k \<in> R. k < U64_MAX)
     \<and> flushing_lsns t \<union> completed_unrecorded_flush_lsns t \<union> H \<union> recorded_lsns t \<union> set_option (last_flush_lsn t) \<subseteq> R
     \<and> (\<forall>r \<in> H \<union> recorded_lsns t. \<forall>k \<in> flushing_lsns t. r \<le> k)
     \<and> (ongoing_flush_lsns t = [] \<longrightarrow> completed_unrecorded_flush_lsns t = {})
     \<and> (R \<noteq> {} \<longrightarrow> Max R \<in> flushing_lsns t \<union> completed_unrecorded_flush_lsns t \<union> H \<union> recorded_lsns t)"

text \<open>The parts of the table that the invariant reads.\<close>

definition flush_part :: "('b, 's, 'k, 'm) mooncake_table \<Rightarrow> (lsn \<times> nat) list \<times> lsn set \<times> lsn option \<times> lsn option" where
  "flush_part t = (ongoing_flush_lsns t, completed_unrecorded_flush_lsns t, last_flush_lsn t,
     new_flush_lsn (next_snapshot_task t))"

lemma flush_inv_cong: "flush_part t' = flush_part t \<Longrightarrow> flush_inv t' R H = flush_inv t R H"
  by (simp add: flush_part_def flush_inv_def)

lemma flush_inv_keep: "flush_inv t R H \<Longrightarrow> flush_part t' = flush_part t \<Longrightarrow> flush_inv t' R H"
  by (drule flush_inv_cong) blast

lemma flush_invD:
  assumes "flush_inv t R H"
  shows "distinct (map fst (ongoing_flush_lsns t))" "finite R" "\<forall>k \<in> R. k < U64_MAX"
    "flushing_lsns t \<subseteq> R" "completed_unrecorded_flush_lsns t \<subseteq> R" "H \<subseteq> R" "recorded_lsns t \<subseteq> R" "set_option (last_flush_lsn t) \<subseteq> R"
    "\<forall>r \<in> H \<union> recorded_lsns t. \<forall>k \<in> flushing_lsns t. r \<le> k"
    "R \<noteq> {} \<Longrightarrow> Max R \<in> flushing_lsns t \<union> completed_unrecorded_flush_lsns t \<union> H \<union> recorded_lsns t"
  using assms unfolding flush_inv_def by simp_all

lemma push_record_batch_flush [simp]: "new_flush_lsn (push_record_batch b task) = new_flush_lsn task"
  by (auto simp: push_record_batch_def split: option.splits)

lemma append_keeps_flush_part:
  assumes "table_append ops iops ahash row t = Ok (r, t')"
  shows "flush_part t' = flush_part t"
proof -
  obtain q slice ids where "(case q of
        Inl e \<Rightarrow> Ok (Inl e, t\<lparr>mt_mem_slice := slice, non_streaming_batch_id_counter := ids\<rparr>)
      | Inr batch \<Rightarrow> Ok (Inr (), upd_task (push_record_batch batch)
          (t\<lparr>mt_mem_slice := slice, non_streaming_batch_id_counter := ids\<rparr>))) = Ok (r, t')"
    using assms unfolding table_append_def Let_def by auto
  then show ?thesis by (cases q) (auto simp: flush_part_def)
qed

lemma prepare_keeps_flush_part:
  assumes "prepare_disk_slice ops iops lsn t = Ok (q, t')"
  shows "flush_part t' = flush_part t" and "q = Inr w \<Longrightarrow> writer_lsn w = Some lsn"
proof -
  obtain r slice ids where d: "slice_drain ops iops (mt_mem_slice t) (non_streaming_batch_id_counter t) = Ok (r, slice, ids)"
    using assms unfolding prepare_disk_slice_def by auto
  show "flush_part t' = flush_part t"
    using assms d by (cases r) (auto simp: prepare_disk_slice_def flush_part_def Let_def)
  show "writer_lsn w = Some lsn" if "q = Inr w"
    using assms d that by (cases r) (auto simp: prepare_disk_slice_def new_disk_slice_writer_def Let_def)
qed

lemma delete_keeps_flush_part: "delete_impl ops iops ahash row lsn e t = Ok t' \<Longrightarrow> flush_part t' = flush_part t"
  by (auto simp: delete_impl_def flush_part_def Let_def split: if_splits)

lemma commit_keeps_flush_part: "table_commit lsn t = Ok t' \<Longrightarrow> flush_part t' = flush_part t"
  by (auto simp: table_commit_def flush_part_def Let_def)

lemma completed_keeps_flush_part: "mark_mooncake_snapshot_completed t = Ok t' \<Longrightarrow> flush_part t' = flush_part t"
  by (auto simp: mark_mooncake_snapshot_completed_def flush_part_def)

lemma new_flush_try_largest [simp]: "new_flush_lsn (try_set_largest_flush_lsn l task) = new_flush_lsn task"
  by (auto simp: try_set_largest_flush_lsn_def split: option.splits)

lemma min_ongoing:
  assumes "\<forall>k \<in> flushing_lsns t. k < U64_MAX"
  shows "l < get_min_ongoing_flush_lsn t \<longleftrightarrow> (\<forall>k \<in> flushing_lsns t. l < k) \<and> (ongoing_flush_lsns t = [] \<longrightarrow> l < U64_MAX)"
  by (cases "ongoing_flush_lsns t = []") (auto simp: get_min_ongoing_flush_lsn_def)

lemma try_set_inv:
  assumes R: "finite R" "\<forall>k \<in> R. k < U64_MAX" "l \<in> R"
    and sub: "distinct (map fst (ongoing_flush_lsns t))"
      "flushing_lsns t \<union> completed_unrecorded_flush_lsns t \<union> H \<union> recorded_lsns t \<union> set_option (last_flush_lsn t) \<subseteq> R"
    and below: "\<forall>r \<in> H \<union> recorded_lsns t. \<forall>k \<in> flushing_lsns t. r \<le> k" "\<forall>r \<in> recorded_lsns t. r \<le> l"
    and top: "Max R \<in> insert l (flushing_lsns t \<union> completed_unrecorded_flush_lsns t \<union> H \<union> recorded_lsns t)"
  shows "\<exists>t'. try_set_next_flush_lsn l t = Ok t' \<and> flush_inv t' R H"
proof -
  let ?task = "try_set_largest_flush_lsn l (next_snapshot_task t)"
  let ?U = "completed_unrecorded_flush_lsns t"
  have lU: "l < U64_MAX" "\<forall>k \<in> flushing_lsns t. k < U64_MAX" using R sub(2) by auto
  have finU: "finite ?U" using sub(2) R(1) finite_subset by blast
  have le_max: "r \<le> Max R" if "r \<in> R" for r using R(1) that by simp
  show ?thesis
  proof (cases "\<forall>k \<in> flushing_lsns t. l < k")
    case True
    then have min: "l < get_min_ongoing_flush_lsn (t\<lparr>next_snapshot_task := ?task\<rparr>)"
      using min_ongoing[of "t\<lparr>next_snapshot_task := ?task\<rparr>" l] lU by simp
    have old: "case new_flush_lsn (next_snapshot_task t) of None \<Rightarrow> True | Some old \<Rightarrow> old \<le> l"
      using below(2) by (auto split: option.splits)
    let ?t1 = "set_new_flush_lsn l (t\<lparr>next_snapshot_task := ?task\<rparr>)"
    show ?thesis
    proof (cases "ongoing_flush_lsns t = []")
      case empty: True
      let ?m = "if ?U \<noteq> {} \<and> Max ?U > l then Max ?U else l"
      let ?t2 = "(set_new_flush_lsn ?m (t\<lparr>next_snapshot_task := ?task\<rparr>))\<lparr>completed_unrecorded_flush_lsns := {}\<rparr>"
      have "try_set_next_flush_lsn l t = Ok ?t2"
        using min old empty by (simp add: try_set_next_flush_lsn_def Let_def)
      moreover have mR: "?m \<in> R" using R(3) sub(2) Max_in[OF finU] by auto
      moreover have "Max R \<in> insert ?m H"
      proof -
        have "Max R \<in> H" if "Max R \<notin> insert l ?U" "Max R \<notin> recorded_lsns t"
          using top that empty by auto
        moreover have "Max R = ?m" if "Max R \<in> insert l ?U"
          using that le_max[OF mR] Max_ge[OF finU, of "Max R"] by (auto split: if_splits)
        moreover have "Max R = ?m" if "Max R \<in> recorded_lsns t"
          using that below(2) le_max[OF mR] by (fastforce split: if_splits)
        ultimately show ?thesis by blast
      qed
      ultimately show ?thesis using R sub empty by (intro exI[of _ ?t2]) (auto simp: flush_inv_def)
    next
      case False
      then have "try_set_next_flush_lsn l t = Ok ?t1"
        using min old by (simp add: try_set_next_flush_lsn_def Let_def)
      moreover have "Max R \<in> flushing_lsns t \<union> ?U \<union> H \<union> {l}"
      proof -
        have "Max R = l" if "Max R \<in> recorded_lsns t" using that below(2) le_max[OF R(3)] by force
        then show ?thesis using top by blast
      qed
      moreover have "\<forall>r \<in> H \<union> {l}. \<forall>k \<in> flushing_lsns t. r \<le> k" using below(1) True by auto
      ultimately show ?thesis using R sub False by (intro exI[of _ ?t1]) (auto simp: flush_inv_def)
    qed
  next
    case False
    then have ne: "ongoing_flush_lsns t \<noteq> []" by auto
    have min: "\<not> l < get_min_ongoing_flush_lsn (t\<lparr>next_snapshot_task := ?task\<rparr>)"
      using min_ongoing[of "t\<lparr>next_snapshot_task := ?task\<rparr>" l] lU False by simp
    let ?t1 = "t\<lparr>next_snapshot_task := ?task, completed_unrecorded_flush_lsns := insert l ?U\<rparr>"
    have "try_set_next_flush_lsn l t = Ok ?t1"
      using min ne by (simp add: try_set_next_flush_lsn_def Let_def)
    then show ?thesis using R sub below(1) top ne by (intro exI[of _ ?t1]) (auto simp: flush_inv_def)
  qed
qed


lemma flush_inv_requested:
  assumes "flush_inv t R H" and "\<forall>k \<in> R. k \<le> l"
  shows "\<forall>r \<in> flushing_lsns t \<union> completed_unrecorded_flush_lsns t \<union> H \<union> recorded_lsns t \<union> set_option (last_flush_lsn t). r \<le> l"
  using assms by (auto simp: flush_inv_def)

lemma Max_newest: "finite R \<Longrightarrow> \<forall>k \<in> R. k \<le> l \<Longrightarrow> Max (insert l R) = l"
  by (cases "R = {}") (auto intro: max_absorb1)

lemma flush_at_inv:
  assumes inv: "flush_inv t R H" and new: "\<forall>k \<in> R. k \<le> l" "l < U64_MAX"
    and ok: "table_flush ops iops l t = Ok (r, t')"
  shows "flush_inv t' (if isl r then R else insert l R) H"
proof (cases "slice_is_empty (mt_mem_slice t) \<or> map_of (ongoing_flush_lsns t) l \<noteq> None")
  case True
  then have r: "r = Inr None" and set: "try_set_next_flush_lsn l t = Ok t'" using ok by (auto simp: table_flush_def)
  have "\<exists>t'. try_set_next_flush_lsn l t = Ok t' \<and> flush_inv t' (insert l R) H"
    by (rule try_set_inv)
      (use inv new flush_inv_requested[OF inv new(1)] Max_newest[of R l] in \<open>auto simp: flush_inv_def\<close>)
  then show ?thesis using set r by auto
next
  case False
  then obtain q t1 where prep: "prepare_disk_slice ops iops l t = Ok (q, t1)"
    and fin: "(case q of Inl e \<Rightarrow> Ok (Inl e, t1)
      | Inr w \<Rightarrow> res_bind (flush_disk_slice w None 1 t1) (\<lambda>t. Ok (Inr (Some w), t))) = Ok (r, t')"
    using ok by (auto simp: table_flush_def)
  note part = prepare_keeps_flush_part[OF prep]
  have inv1: "flush_inv t1 R H" using inv flush_inv_cong[OF part(1)] by simp
  show ?thesis
  proof (cases q)
    case (Inl e)
    then show ?thesis using fin inv1 by auto
  next
    case (Inr w)
    then have "insert_ongoing_flush_lsn l 1 t1 = Ok t'" and r: "r = Inr (Some w)"
      using fin part(2) by (auto simp: flush_disk_slice_def)
    then obtain c where t': "t' = t1\<lparr>ongoing_flush_lsns := AList.update l c (ongoing_flush_lsns t1), last_flush_lsn := Some l\<rparr>"
      by (auto simp: insert_ongoing_flush_lsn_def)
    have keys: "flushing_lsns t' = insert l (flushing_lsns t1)"
      using dom_update[of l c "ongoing_flush_lsns t1"] by (simp add: t' dom_map_of_conv_image_fst)
    have "flush_inv t' (insert l R) H"
      unfolding flush_inv_def keys
      using inv1 new flush_inv_requested[OF inv1 new(1)] Max_newest[of R l]
      by (auto simp: flush_inv_def t' distinct_update)
    then show ?thesis using r by simp
  qed
qed

lemma flush_finished_inv:
  assumes inv: "flush_inv t R H" and l: "l \<in> flushing_lsns t" "writer_lsn w = Some l"
  shows "\<exists>t'. apply_flush_result w t = Ok t' \<and> flush_inv t' R H"
proof -
  obtain c where c: "map_of (ongoing_flush_lsns t) l = Some c"
    using l(1) by (metis map_of_eq_None_iff not_Some_eq)
  obtain t1 where rem: "remove_ongoing_flush_lsn l t = Ok t1"
    and keys: "flushing_lsns t1 \<subseteq> flushing_lsns t" "flushing_lsns t \<subseteq> insert l (flushing_lsns t1)"
    and dist: "distinct (map fst (ongoing_flush_lsns t1))"
    and rest: "completed_unrecorded_flush_lsns t1 = completed_unrecorded_flush_lsns t" "last_flush_lsn t1 = last_flush_lsn t"
      "next_snapshot_task t1 = next_snapshot_task t"
  proof (cases "c > 1")
    case True
    have "fst ` set (AList.update l (c - 1) (ongoing_flush_lsns t)) = insert l (flushing_lsns t)"
      using dom_update[of l "c - 1" "ongoing_flush_lsns t"] by (simp add: dom_map_of_conv_image_fst)
    then show thesis using inv c True l(1)
      by (intro that[of "t\<lparr>ongoing_flush_lsns := AList.update l (c - 1) (ongoing_flush_lsns t)\<rparr>"])
        (auto simp: remove_ongoing_flush_lsn_def flush_inv_def distinct_update)
  next
    case False
    then show thesis using inv c
      by (intro that[of "t\<lparr>ongoing_flush_lsns := AList.delete l (ongoing_flush_lsns t)\<rparr>"])
        (auto simp: remove_ongoing_flush_lsn_def flush_inv_def distinct_delete set_delete image_iff)
  qed
  have R: "R \<noteq> {}" using inv l(1) by (auto simp: flush_inv_def)
  note parts = flush_invD[OF inv]
  have lR: "l \<in> R" "flushing_lsns t1 \<subseteq> R" using parts(4) l(1) keys(1) by blast+
  have below: "\<forall>r \<in> H \<union> recorded_lsns t1. \<forall>k \<in> flushing_lsns t1. r \<le> k" "\<forall>r \<in> recorded_lsns t1. r \<le> l"
    using parts(9) l(1) keys(1) unfolding rest by blast+
  have top: "Max R \<in> insert l (flushing_lsns t1 \<union> completed_unrecorded_flush_lsns t1 \<union> H \<union> recorded_lsns t1)"
    using parts(10)[OF R] keys(2) unfolding rest by blast
  have sub: "flushing_lsns t1 \<union> completed_unrecorded_flush_lsns t1 \<union> H \<union> recorded_lsns t1 \<union> set_option (last_flush_lsn t1) \<subseteq> R"
    using parts(5-8) lR(2) unfolding rest by simp
  have "\<exists>t'. try_set_next_flush_lsn l t1 = Ok t' \<and> flush_inv t' R H"
    by (rule try_set_inv[OF _ _ lR(1) dist sub below top]) (use parts(2,3) in blast)+
  then obtain t2 where t2: "try_set_next_flush_lsn l t1 = Ok t2" "flush_inv t2 R H" by blast
  let ?t' = "upd_task (\<lambda>task. task\<lparr>new_disk_slices := new_disk_slices task @ [w]\<rparr>) t2"
  have "flush_inv ?t' R H" using t2(2) flush_inv_cong[of ?t' t2] by (simp add: flush_part_def)
  then show ?thesis using rem t2(1) l(2) by (simp add: apply_flush_result_def)
qed

lemma try_snapshot_inv:
  assumes inv: "flush_inv t R H" and ok: "table_try_create_snapshot opt t = Ok (task, t')"
  shows "flush_inv t' R (case task of None \<Rightarrow> H | Some task \<Rightarrow> H \<union> set_option (new_flush_lsn task))"
    and "task = Some k \<Longrightarrow> new_flush_lsn k = new_flush_lsn (next_snapshot_task t)"
proof -
  show "flush_inv t' R (case task of None \<Rightarrow> H | Some task \<Rightarrow> H \<union> set_option (new_flush_lsn task))"
  proof (cases task)
    case None
    then have "t' = t" using ok by (auto simp: table_try_create_snapshot_def split: if_splits)
    then show ?thesis using inv None by simp
  next
    case (Some k)
    then have k: "new_flush_lsn k = new_flush_lsn (next_snapshot_task t)"
      and t': "ongoing_flush_lsns t' = ongoing_flush_lsns t" "last_flush_lsn t' = last_flush_lsn t"
        "completed_unrecorded_flush_lsns t' = completed_unrecorded_flush_lsns t" "new_flush_lsn (next_snapshot_task t') = None"
      using ok by (auto simp: table_try_create_snapshot_def create_snapshot_impl_def new_snapshot_task_def Let_def split: if_splits)
    show ?thesis using inv unfolding Some flush_inv_def t' by (simp add: k Un_assoc)
  qed
  show "new_flush_lsn k = new_flush_lsn (next_snapshot_task t)" if "task = Some k"
    using ok that by (auto simp: table_try_create_snapshot_def create_snapshot_impl_def Let_def split: if_splits)
qed

interpretation flushes: stateful_component "table_step ops iops ahash" table_guard
  "\<lambda>s. flush_inv (fs_table s) (fs_requested s) (fs_handed s)" for ops iops ahash
proof unfold_locales
  fix s s' e
  assume inv: "flush_inv (fs_table s) (fs_requested s) (fs_handed s)" and guard: "table_guard s e"
    and step: "table_step ops iops ahash s e = Ok s'"
  show "flush_inv (fs_table s') (fs_requested s') (fs_handed s')"
  proof (cases e)
    case (AppendRow row)
    then show ?thesis using step by (auto intro!: flush_inv_keep[OF inv] elim: append_keeps_flush_part)
  next
    case (DeleteRow row lsn e)
    then show ?thesis using step by (auto intro!: flush_inv_keep[OF inv] elim: delete_keeps_flush_part)
  next
    case (CommitAt lsn)
    then show ?thesis using step by (auto intro!: flush_inv_keep[OF inv] elim: commit_keeps_flush_part)
  next
    case (FlushAt lsn)
    then obtain r t where "table_flush ops iops lsn (fs_table s) = Ok (r, t)"
      "s' = (case r of Inl _ \<Rightarrow> s\<lparr>fs_table := t\<rparr> | Inr _ \<Rightarrow> s\<lparr>fs_table := t, fs_requested := insert lsn (fs_requested s)\<rparr>)"
      using step by auto
    then show ?thesis using flush_at_inv[OF inv, of lsn ops iops r t] guard FlushAt by (cases r) auto
  next
    case (FlushFinished w)
    then show ?thesis using inv step guard flush_finished_inv[OF inv] by fastforce
  next
    case (TrySnapshot opt)
    then obtain task t where ok: "table_try_create_snapshot opt (fs_table s) = Ok (task, t)"
      "s' = (case task of None \<Rightarrow> s\<lparr>fs_table := t\<rparr>
        | Some task \<Rightarrow> s\<lparr>fs_table := t, fs_handed := fs_handed s \<union> set_option (new_flush_lsn task)\<rparr>)"
      using step by auto
    then show ?thesis using try_snapshot_inv(1)[OF inv ok(1)] by (cases task) auto
  next
    case SnapshotCompleted
    then show ?thesis using step by (auto intro!: flush_inv_keep[OF inv] elim: completed_keeps_flush_part)
  qed
qed


definition fresh_flush_system :: "('b, 's, 'k, 'm) mooncake_table \<Rightarrow> ('b, 's, 'k, 'm) flush_system" where
  "fresh_flush_system t = \<lparr>fs_table = t, fs_requested = {}, fs_handed = {}\<rparr>"

lemma fresh_flush_inv:
  assumes "new_with_table_manager ops iops md location loaded = Ok t"
  shows "flush_inv t {} {}"
  using assms by (auto simp: new_with_table_manager_def flush_inv_def new_snapshot_task_def Let_def split: prod.splits)

text \<open>
  C13: flush LSNs are sound under flushes that finish in any order. In every run of a new table in which the LSNs of
  flushes do not go back: a flush LSN recorded or handed to a snapshot is never above an LSN
  that is still being written; when nothing is being written, the largest LSN ever flushed
  has been handed to a snapshot or is recorded for the next one; and the completion of a flush
  that is being written never panics.
\<close>

theorem flush_lsns_sound:
  assumes new: "new_with_table_manager ops iops md location loaded = Ok t"
    and guarded: "stateful_component.guarded (table_step ops iops ahash) table_guard (fresh_flush_system t) es"
    and run: "res_fold (table_step ops iops ahash) (fresh_flush_system t) es = Ok s"
  shows "(\<forall>r \<in> fs_handed s \<union> recorded_lsns (fs_table s). \<forall>k \<in> flushing_lsns (fs_table s). r \<le> k)
    \<and> (\<not> has_ongoing_flush (fs_table s) \<and> fs_requested s \<noteq> {} \<longrightarrow>
         Max (fs_requested s) \<in> fs_handed s \<union> recorded_lsns (fs_table s))
    \<and> (\<forall>w. \<forall>l \<in> flushing_lsns (fs_table s). writer_lsn w = Some l \<longrightarrow> is_ok (apply_flush_result w (fs_table s)))"
proof -
  have inv: "flush_inv (fs_table s) (fs_requested s) (fs_handed s)"
    by (rule flushes.run_inv[OF _ guarded run]) (simp add: fresh_flush_system_def fresh_flush_inv[OF new])
  have "is_ok (apply_flush_result w (fs_table s))" if "l \<in> flushing_lsns (fs_table s)" "writer_lsn w = Some l" for w l
    using flush_finished_inv[OF inv that] by auto
  then show ?thesis using inv unfolding flush_inv_def has_ongoing_flush_def by auto
qed

text \<open>A witness: a commit of an empty table is flushed and handed to a snapshot.\<close>

theorem flush_lsns_sound_witness:
  "\<exists>t s. new_with_table_manager plain_arrow list_index demo_metadata ''w'' (0, new_snapshot demo_metadata) = Ok t
    \<and> res_fold (table_step plain_arrow list_index (\<lambda>_. 0)) (fresh_flush_system t)
        [CommitAt 3, FlushAt 3, TrySnapshot \<lparr>opt_uuid = 0, dump_snapshot = False, force_create = True,
          iceberg_snapshot_option = SkipSnapshot, index_merge_option = SkipMaintenance, data_compaction_option = SkipMaintenance\<rparr>]
        = Ok s
    \<and> fs_requested s = {3} \<and> 3 \<in> fs_handed s \<union> recorded_lsns (fs_table s)"
proof -
  let ?opt = "\<lparr>opt_uuid = 0, dump_snapshot = False, force_create = True,
    iceberg_snapshot_option = SkipSnapshot, index_merge_option = SkipMaintenance, data_compaction_option = SkipMaintenance\<rparr>"
  let ?es = "[CommitAt 3, FlushAt 3, TrySnapshot ?opt]"
  have n: "next_batch_id (new_batch_id_counter False) = Ok (0x8000000000000001, \<lparr>counter = 0x8000000000000001, is_streaming = False\<rparr>)"
    by (simp add: next_batch_id_def get_and_next_def new_batch_id_counter_def below_limit_def load_counter_def
      fetch_add_def STREAMING_BATCH_ID_MAX_def)
  obtain t where t: "new_with_table_manager plain_arrow list_index demo_metadata ''w'' (0, new_snapshot demo_metadata) = Ok t"
    and e: "slice_is_empty (mt_mem_slice t)" "ongoing_flush_lsns t = []" "completed_unrecorded_flush_lsns t = {}"
      "next_snapshot_task t = new_snapshot_task demo_config" "\<not> bts_mooncake_snapshot_ongoing (mt_background t)"
      "is_ok (slice_get_commit_check_point (mt_mem_slice t))"
    using n by (simp add: new_with_table_manager_def metadata_validate_def demo_metadata_def demo_config_def
        index_merge_config_validate_def compaction_config_validate_def new_mem_slice_def new_column_store_buffer_def
        new_builders_def slice_is_empty_def cs_get_num_rows_def slice_get_commit_check_point_def cs_get_commit_check_point_def)
  obtain p where p: "slice_get_commit_check_point (mt_mem_slice t) = Ok p" using e(6) by (auto simp: is_ok_iff)
  have ev: "\<exists>s. res_fold (table_step plain_arrow list_index (\<lambda>_. 0)) (fresh_flush_system t) ?es = Ok s \<and> fs_requested s = {3}
      \<and> stateful_component.guarded (table_step plain_arrow list_index (\<lambda>_. 0)) table_guard (fresh_flush_system t) ?es \<and> ongoing_flush_lsns (fs_table s) = []"
    using e(1-5) p
    by (simp add: fresh_flush_system_def table_commit_def table_flush_def try_set_next_flush_lsn_def new_snapshot_task_def
        get_min_ongoing_flush_lsn_def U64_MAX_def try_set_largest_flush_lsn_def table_try_create_snapshot_def
        create_snapshot_impl_def should_create_snapshot_def Let_def)
  then obtain s where s: "res_fold (table_step plain_arrow list_index (\<lambda>_. 0)) (fresh_flush_system t) ?es = Ok s"
    "fs_requested s = {3}" "stateful_component.guarded (table_step plain_arrow list_index (\<lambda>_. 0)) table_guard (fresh_flush_system t) ?es"
    "ongoing_flush_lsns (fs_table s) = []" by blast
  have "3 \<in> fs_handed s \<union> recorded_lsns (fs_table s)"
    using flush_lsns_sound[OF t s(3,1)] s(2,4) by (simp add: has_ongoing_flush_def)
  then show ?thesis using t s by blast
qed

end
