(* ===== verification/Transaction_Stream.thy ===== *)
theory Transaction_Stream
  imports Mooncake_Table
begin

text \<open>
  Streaming transactions (\<^verbatim>\<open>storage/mooncake_table/transaction_stream.rs\<close>). Each has a mem
  slice, flushed files and batches of its own. Its deletions of rows of the main table
  carry an LSN above all real ones until the transaction commits, when the snapshot gives
  them the commit LSN, or aborts, when the snapshot drops them.
\<close>

section \<open>State\<close>

text \<open>The bloom filter is a library type; the table only adds keys to it and asks for them.\<close>

record 'f bloom_ops =
  bloom_new :: 'f
  bloom_insert :: "u64 \<Rightarrow> 'f \<Rightarrow> 'f"
  bloom_contains :: "u64 \<Rightarrow> 'f \<Rightarrow> bool"

datatype transaction_stream_status = StreamPending | StreamIsCommitted | StreamIsAborted

record ('b, 's, 'k, 'm, 'f) transaction_stream_state =
  tss_mem_slice :: "('b, 's, 'k, 'm) mem_slice"
  local_deletions :: "processed_deletion_record list"
  pending_deletions_in_main_mem_slice :: "raw_deletion_record list"
  index_bloom_filter :: 'f
  stream_indices :: "('s, 'k, 'm) mooncake_index"
  tss_flushed_files :: "disk_file_entry file_map"
  tss_new_record_batches :: "(u64 \<times> 'b in_memory_batch) list"
  tss_status :: transaction_stream_status
  ongoing_flush_count :: nat
  tss_commit_lsn :: "lsn option"

definition new_transaction_stream_state ::
  "('b, 'z) arrow_ops_scheme \<Rightarrow> ('s, 'k, 'm) index_ops \<Rightarrow> 'f bloom_ops \<Rightarrow> arrow_field list \<Rightarrow> nat \<Rightarrow> identity_prop \<Rightarrow>
   batch_id_counter \<Rightarrow> (('b, 's, 'k, 'm, 'f) transaction_stream_state \<times> batch_id_counter) res" where
  "new_transaction_stream_state ops iops bl schema rows ident ids =
     res_bind (new_mem_slice ops iops schema rows ident ids) (\<lambda>(slice, ids). Ok
       (\<lparr>tss_mem_slice = slice, local_deletions = [], pending_deletions_in_main_mem_slice = [],
         index_bloom_filter = bloom_new bl, stream_indices = new_mooncake_index, tss_flushed_files = [],
         tss_new_record_batches = [], tss_status = StreamPending, ongoing_flush_count = 0,
         tss_commit_lsn = None\<rparr>, ids))"

text \<open>The table with its streams; the main table is the state of \<^verbatim>\<open>Mooncake_Table\<close>.\<close>

record ('b, 's, 'k, 'm, 'f) streaming_table =
  main_table :: "('b, 's, 'k, 'm) mooncake_table"
  transaction_stream_states :: "(xact_id \<times> ('b, 's, 'k, 'm, 'f) transaction_stream_state) list"
  streaming_batch_id_counter :: batch_id_counter

abbreviation table_identity :: "('b, 's, 'k, 'm, 'f) streaming_table \<Rightarrow> identity_prop" where
  "table_identity t \<equiv> row_identity (md_config (mt_metadata (main_table t)))"

abbreviation put_stream ::
  "xact_id \<Rightarrow> ('b, 's, 'k, 'm, 'f) transaction_stream_state \<Rightarrow> ('b, 's, 'k, 'm, 'f) streaming_table \<Rightarrow>
   ('b, 's, 'k, 'm, 'f) streaming_table" where
  "put_stream x s t \<equiv> t\<lparr>transaction_stream_states := AList.update x s (transaction_stream_states t)\<rparr>"

abbreviation drop_stream :: "xact_id \<Rightarrow> ('b, 's, 'k, 'm, 'f) streaming_table \<Rightarrow> ('b, 's, 'k, 'm, 'f) streaming_table" where
  "drop_stream x t \<equiv> t\<lparr>transaction_stream_states := AList.delete x (transaction_stream_states t)\<rparr>"

abbreviation on_main_task ::
  "(('b, 's, 'k, 'm) snapshot_task \<Rightarrow> ('b, 's, 'k, 'm) snapshot_task) \<Rightarrow> ('b, 's, 'k, 'm, 'f) streaming_table \<Rightarrow>
   ('b, 's, 'k, 'm, 'f) streaming_table" where
  "on_main_task f t \<equiv> t\<lparr>main_table := upd_task f (main_table t)\<rparr>"

definition get_or_create_stream_state ::
  "('b, 'z) arrow_ops_scheme \<Rightarrow> ('s, 'k, 'm) index_ops \<Rightarrow> 'f bloom_ops \<Rightarrow> xact_id \<Rightarrow>
   ('b, 's, 'k, 'm, 'f) streaming_table \<Rightarrow>
   (('b, 's, 'k, 'm, 'f) transaction_stream_state \<times> ('b, 's, 'k, 'm, 'f) streaming_table) res" where
  "get_or_create_stream_state ops iops bl x t = (case map_of (transaction_stream_states t) x of
       Some s \<Rightarrow> Ok (s, t)
     | None \<Rightarrow>
         let metadata = mt_metadata (main_table t)
         in res_bind (new_transaction_stream_state ops iops bl (md_schema metadata) (batch_size (md_config metadata))
              (row_identity (md_config metadata)) (streaming_batch_id_counter t)) (\<lambda>(s, ids).
            Ok (s, put_stream x s (t\<lparr>streaming_batch_id_counter := ids\<rparr>))))"

definition should_transaction_flush :: "xact_id \<Rightarrow> ('b, 's, 'k, 'm, 'f) streaming_table \<Rightarrow> bool res" where
  "should_transaction_flush x t =
     unwrap (map_of (transaction_stream_states t) x) (\<lambda>s.
     Ok (slice_get_num_rows (tss_mem_slice s) \<ge> mem_slice_size (md_config (mt_metadata (main_table t)))))"

section \<open>Writes in a stream\<close>

definition append_in_stream_batch ::
  "('b, 'z) arrow_ops_scheme \<Rightarrow> ('s, 'k, 'm) index_ops \<Rightarrow> (hash_item list \<Rightarrow> u64) \<Rightarrow> 'f bloom_ops \<Rightarrow> moonlink_row \<Rightarrow> xact_id \<Rightarrow>
   ('b, 's, 'k, 'm, 'f) streaming_table \<Rightarrow> ((store_error + unit) \<times> ('b, 's, 'k, 'm, 'f) streaming_table) res" where
  "append_in_stream_batch ops iops ahash bl row x t =
     res_bind (get_lookup_key ahash (table_identity t) row) (\<lambda>lookup_key.
     res_bind (extract_identity_for_key (table_identity t) row) (\<lambda>identity_for_key.
     res_bind (get_or_create_stream_state ops iops bl x t) (\<lambda>(s, t).
     res_bind (slice_append ops iops (tss_mem_slice s) (streaming_batch_id_counter t) lookup_key row identity_for_key)
       (\<lambda>(r, slice, ids).
     let s = s\<lparr>tss_mem_slice := slice\<rparr>; t = t\<lparr>streaming_batch_id_counter := ids\<rparr>
     in case r of
          Inl e \<Rightarrow> Ok (Inl e, put_stream x s t)
        | Inr _ \<Rightarrow> Ok (Inr (), put_stream x (s\<lparr>index_bloom_filter := bloom_insert bl lookup_key (index_bloom_filter s)\<rparr>) t)))))"

text \<open>
  The search among the stream's own batches and files: the first location that is not deleted
  and passes the identity check is marked deleted and logged; \<open>None\<close> if there is none.
\<close>

fun delete_local ::
  "('b, 'z) arrow_ops_scheme \<Rightarrow> parquet_reader \<Rightarrow> identity_prop \<Rightarrow> raw_deletion_record \<Rightarrow> record_location list \<Rightarrow>
   ('b, 's, 'k, 'm, 'f) transaction_stream_state \<Rightarrow> ('b, 's, 'k, 'm, 'f) transaction_stream_state option res" where
  "delete_local ops pq ident record [] s = Ok None"
| "delete_local ops pq ident record (MemoryBatch batch_id row_id # locs) s =
     unwrap (map_of (tss_new_record_batches s) batch_id) (\<lambda>batch.
     res_bind (is_deleted ops (deletions batch) row_id) (\<lambda>gone.
     if gone then delete_local ops pq ident record locs s
     else res_bind (case rd_row_identity record of
           None \<Rightarrow> Ok True
         | Some row \<Rightarrow> res_bind (requires_identity_check_in_mem_slice ident) (\<lambda>req.
             if \<not> req then Ok True
             else unwrap (batch_data batch) (\<lambda>data. equals_record_batch_at_offset ops row data row_id ident))) (\<lambda>same.
       if \<not> same then delete_local ops pq ident record locs s
       else res_bind (delete_row ops (deletions batch) row_id) (\<lambda>(r, dv).
         check r AssertFailed (Ok (Some (
           s\<lparr>local_deletions := local_deletions s @ [\<lparr>pd_pos = MemoryBatch batch_id row_id, pd_lsn = rd_lsn record\<rparr>],
             tss_new_record_batches := AList.update batch_id (batch\<lparr>deletions := dv\<rparr>) (tss_new_record_batches s)\<rparr>)))))))"
| "delete_local ops pq ident record (DiskFile fid row_id # locs) s =
     unwrap (map_of (tss_flushed_files s) fid) (\<lambda>(f, entry).
     res_bind (is_deleted ops (committed_deletion_vector entry) row_id) (\<lambda>gone.
     if gone then delete_local ops pq ident record locs s
     else res_bind (case rd_row_identity record of
           None \<Rightarrow> Ok True
         | Some row \<Rightarrow> equals_parquet_at_offset pq row (file_path f) row_id ident) (\<lambda>same.
       if \<not> same then delete_local ops pq ident record locs s
       else res_bind (delete_row ops (committed_deletion_vector entry) row_id) (\<lambda>(r, dv).
         check r AssertFailed (Ok (Some (
           s\<lparr>local_deletions := local_deletions s @ [\<lparr>pd_pos = DiskFile fid row_id, pd_lsn = rd_lsn record\<rparr>],
             tss_flushed_files := fm_set fid (entry\<lparr>committed_deletion_vector := dv\<rparr>) (tss_flushed_files s)\<rparr>)))))))"

definition delete_in_stream ::
  "('b, 'z) arrow_ops_scheme \<Rightarrow> ('s, 'k, 'm) index_ops \<Rightarrow> index_search \<Rightarrow> parquet_reader \<Rightarrow> 'f bloom_ops \<Rightarrow> identity_prop \<Rightarrow>
   raw_deletion_record \<Rightarrow> ('b, 's, 'k, 'm, 'f) transaction_stream_state \<Rightarrow>
   (bool \<times> ('b, 's, 'k, 'm, 'f) transaction_stream_state) res" where
  "delete_in_stream ops iops search pq bl ident record s =
     (if \<not> bloom_contains bl (rd_lookup_key record) (index_bloom_filter s) then Ok (False, s)
      else res_bind (slice_delete ops iops (tss_mem_slice s) record ident) (\<lambda>(pos, slice).
        let s = s\<lparr>tss_mem_slice := slice\<rparr>
        in if pos \<noteq> None then Ok (True, s)
           else res_bind (index_find_record iops search (stream_indices s) record) (\<lambda>matches.
             res_bind (delete_local ops pq ident record matches s) (\<lambda>found.
             Ok (case found of Some s \<Rightarrow> (True, s) | None \<Rightarrow> (False, s))))))"

definition delete_in_stream_batch ::
  "('b, 'z) arrow_ops_scheme \<Rightarrow> ('s, 'k, 'm) index_ops \<Rightarrow> (hash_item list \<Rightarrow> u64) \<Rightarrow> index_search \<Rightarrow> parquet_reader \<Rightarrow> 'f bloom_ops \<Rightarrow>
   moonlink_row \<Rightarrow> xact_id \<Rightarrow> ('b, 's, 'k, 'm, 'f) streaming_table \<Rightarrow> ('b, 's, 'k, 'm, 'f) streaming_table res" where
  "delete_in_stream_batch ops iops ahash search pq bl row x t =
     (let ident = table_identity t
      in if ident = IdentityNone then Ok t
         else res_bind (get_lookup_key ahash ident row) (\<lambda>lookup_key.
         res_bind (extract_identity_columns ident row) (\<lambda>row_ident.
         let record = \<lparr>rd_lookup_key = lookup_key, rd_row_identity = row_ident, rd_pos = None,
                       rd_lsn = get_lsn_for_pending_xact x, rd_delete_if_exists = False\<rparr>
         in res_bind (get_or_create_stream_state ops iops bl x t) (\<lambda>(s, t).
            res_bind (delete_in_stream ops iops search pq bl ident record s) (\<lambda>(done, s).
            let t = put_stream x s t
            in if done then Ok t
               else res_bind (find_non_deleted_position ops iops (mt_mem_slice (main_table t)) record ident) (\<lambda>pos.
                 if pos \<noteq> None then
                   Ok (put_stream x (s\<lparr>pending_deletions_in_main_mem_slice :=
                         pending_deletions_in_main_mem_slice s @ [record\<lparr>rd_pos := pos\<rparr>]\<rparr>) t)
                 else Ok (on_main_task (\<lambda>task. task\<lparr>new_deletions := new_deletions task @ [record]\<rparr>) t)))))))"

definition abort_in_stream_batch ::
  "xact_id \<Rightarrow> ('b, 's, 'k, 'm, 'f) streaming_table \<Rightarrow> ('b, 's, 'k, 'm, 'f) streaming_table res" where
  "abort_in_stream_batch x t =
     unwrap (map_of (transaction_stream_states t) x) (\<lambda>s.
     let s = s\<lparr>tss_status := StreamIsAborted\<rparr>;
         t = if ongoing_flush_count s = 0 then drop_stream x t else put_stream x s t
     in Ok (on_main_task (\<lambda>task. task\<lparr>new_streaming_xact := new_streaming_xact task @ [StreamAborted x]\<rparr>) t))"

section \<open>Flushing a stream\<close>

definition hold_batches ::
  "'b batch_entry list \<Rightarrow> ('b, 's, 'k, 'm, 'f) transaction_stream_state \<Rightarrow> ('b, 's, 'k, 'm, 'f) transaction_stream_state" where
  "hold_batches bs s = s\<lparr>tss_new_record_batches :=
     fold (\<lambda>b m. AList.update (be_id b) (be_batch b) m) bs (tss_new_record_batches s)\<rparr>"

text \<open>An error of the drain loses the state of the stream, which the caller has taken out of the table.\<close>

definition flush_stream ::
  "('b, 'z) arrow_ops_scheme \<Rightarrow> ('s, 'k, 'm) index_ops \<Rightarrow> xact_id \<Rightarrow> lsn option \<Rightarrow> ('b, 's, 'k, 'm, 'f) streaming_table \<Rightarrow>
   ((store_error + ('b, 's, 'k, 'm) disk_slice_writer) \<times> ('b, 's, 'k, 'm, 'f) streaming_table) res" where
  "flush_stream ops iops x lsn t =
     (case map_of (transaction_stream_states t) x of
        None \<Rightarrow> Panic ExplicitPanic
      | Some s \<Rightarrow>
          let main = main_table t; metadata = mt_metadata main; t = drop_stream x t
          in res_bind (checked_add (mt_next_file_id main) 1) (\<lambda>following_id.
             let main = main\<lparr>mt_next_file_id := following_id\<rparr>
             in res_bind (slice_drain ops iops (tss_mem_slice s) (streaming_batch_id_counter t)) (\<lambda>(r, slice, ids).
                let t = t\<lparr>streaming_batch_id_counter := ids\<rparr>
                in case r of
                     Inl e \<Rightarrow> Ok (Inl e, t\<lparr>main_table := main\<rparr>)
                   | Inr (_, batches, index) \<Rightarrow>
                       let ptr = (mt_next_ptr main, index);
                           s = (hold_batches batches (s\<lparr>tss_mem_slice := slice\<rparr>))
                                 \<lparr>stream_indices := insert_memory_index ptr (stream_indices s)\<rparr>;
                           w = new_disk_slice_writer (md_schema metadata) (md_path metadata) batches lsn
                                 (mt_next_file_id (main_table t)) ptr (parquet_file_size (md_config metadata))
                       in res_bind (add_width 32 (ongoing_flush_count s) 1) (\<lambda>n.
                          res_bind (flush_disk_slice w (Some x) (if lsn \<noteq> None then n else 0)
                              (main\<lparr>mt_next_ptr := Suc (mt_next_ptr main)\<rparr>)) (\<lambda>main.
                          Ok (Inr w, put_stream x (s\<lparr>ongoing_flush_count := n\<rparr>) (t\<lparr>main_table := main\<rparr>)))))))"

fun register_files ::
  "(mooncake_data_file \<times> disk_file_attrs) list \<Rightarrow> disk_file_entry file_map \<Rightarrow> disk_file_entry file_map res" where
  "register_files [] m = Ok m"
| "register_files ((f, a) # fs) m =
     check (attrs_file_size a > 0) AssertFailed (
     check (fm_get m (file_id f) = None) AssertFailed (
     register_files fs (fm_insert f (new_disk_file_entry (attrs_row_num a) (attrs_file_size a) None) m)))"

fun drop_batches :: "'b batch_entry list \<Rightarrow> (u64 \<times> 'v) list \<Rightarrow> (u64 \<times> 'v) list res" where
  "drop_batches [] m = Ok m"
| "drop_batches (b # bs) m = check (map_of m (be_id b) \<noteq> None) AssertFailed (drop_batches bs (AList.delete (be_id b) m))"

text \<open>
  Deletions at rows in memory that were written out are moved to the file and marked there; a
  file that is not in the map is passed over.
\<close>

fun remap_deletions ::
  "'z arrow_bits_scheme \<Rightarrow> ('b, 's, 'k, 'm) disk_slice_writer \<Rightarrow> processed_deletion_record list \<Rightarrow> disk_file_entry file_map \<Rightarrow>
   (processed_deletion_record list \<times> disk_file_entry file_map) res" where
  "remap_deletions ar w [] m = Ok ([], m)"
| "remap_deletions ar w (d # ds) m =
     res_bind (remap_deletion_if_needed w d) (\<lambda>(moved, d).
     res_bind (case moved of
         Some (DiskFile fid row_idx) \<Rightarrow> (case fm_get m fid of
             None \<Rightarrow> Ok m
           | Some entry \<Rightarrow> res_bind (delete_row ar (committed_deletion_vector entry) row_idx) (\<lambda>(r, dv).
               check r AssertFailed (Ok (fm_set fid (entry\<lparr>committed_deletion_vector := dv\<rparr>) m))))
       | _ \<Rightarrow> Ok m) (\<lambda>m.
     res_bind (remap_deletions ar w ds m) (\<lambda>(ds, m). Ok (d # ds, m))))"

definition apply_stream_flush_result ::
  "'z arrow_bits_scheme \<Rightarrow> xact_id \<Rightarrow> ('b, 's, 'k, 'm) disk_slice_writer \<Rightarrow> ('b, 's, 'k, 'm, 'f) streaming_table \<Rightarrow>
   ('b, 's, 'k, 'm, 'f) streaming_table res" where
  "apply_stream_flush_result ar x w t =
     (case map_of (transaction_stream_states t) x of
        None \<Rightarrow> Panic ExplicitPanic
      | Some s \<Rightarrow> res_bind (sub_checked (ongoing_flush_count s) 1) (\<lambda>n.
          let s = s\<lparr>ongoing_flush_count := n\<rparr>; t' = (if n = 0 then drop_stream x t else put_stream x s t)
          in case tss_status s of
               StreamIsCommitted \<Rightarrow>
                 unwrap (tss_commit_lsn s) (\<lambda>commit_lsn.
                 let w = (if writer_lsn w = None then w\<lparr>writer_lsn := Some commit_lsn\<rparr> else w)
                 in res_bind (remove_ongoing_flush_lsn commit_lsn (main_table t)) (\<lambda>main.
                    res_bind (try_set_next_flush_lsn commit_lsn main) (\<lambda>main.
                    Ok (on_main_task (\<lambda>task. task\<lparr>new_disk_slices := new_disk_slices task @ [w]\<rparr>) (t'\<lparr>main_table := main\<rparr>)))))
             | StreamIsAborted \<Rightarrow> Ok t'
             | StreamPending \<Rightarrow>
                 res_bind (register_files (ds_files w) (tss_flushed_files s)) (\<lambda>files.
                 let (index, w) = take_index w;
                     ix = (case index of Some i \<Rightarrow> insert_file_index i (stream_indices s) | None \<Rightarrow> stream_indices s)
                 in res_bind (drop_batches (ds_batches w) (tss_new_record_batches s)) (\<lambda>batches.
                    res_bind (remap_deletions ar w (local_deletions s) files) (\<lambda>(dels, files).
                    Ok (put_stream x (s\<lparr>tss_flushed_files := files, tss_new_record_batches := batches,
                          stream_indices := delete_memory_index (ds_old_index w) ix, local_deletions := dels\<rparr>) t))))))"


section \<open>Committing a stream\<close>

fun settle_pending ::
  "('b, 'z) arrow_ops_scheme \<Rightarrow> raw_deletion_record list \<Rightarrow> ('b, 's, 'k, 'm) mem_slice \<Rightarrow>
   (raw_deletion_record list \<times> ('b, 's, 'k, 'm) mem_slice) res" where
  "settle_pending ops [] sl = Ok ([], sl)"
| "settle_pending ops (d # ds) sl =
     unwrap (rd_pos d) (\<lambda>pos.
     res_bind (slice_try_delete_at_pos ops sl pos) (\<lambda>(r, sl).
     res_bind (settle_pending ops ds sl) (\<lambda>(ds, sl).
     Ok ((if r then d else d\<lparr>rd_pos := None\<rparr>) # ds, sl))))"

fun mark_flushing_ids :: "lsn \<Rightarrow> u64 list \<Rightarrow> (u64 \<rightharpoonup> lsn) \<Rightarrow> (u64 \<rightharpoonup> lsn) res" where
  "mark_flushing_ids lsn [] m = Ok m"
| "mark_flushing_ids lsn (i # is) m = check (m i = None) AssertFailed (mark_flushing_ids lsn is (m(i \<mapsto> lsn)))"

definition stream_batches :: "(u64 \<times> 'b in_memory_batch) list \<Rightarrow> 'b record_batch_with_deletion_vector list res" where
  "stream_batches m = res_map (\<lambda>(i, batch). unwrap (batch_data batch) (\<lambda>data.
     Ok \<lparr>rb_batch_id = i, rb_record_batch = data, rb_deletion_vector = Some (deletions batch)\<rparr>)) m"

definition stamp_local :: "lsn \<Rightarrow> processed_deletion_record list \<Rightarrow> processed_deletion_record list res" where
  "stamp_local lsn ds = res_map (\<lambda>d. res_bind (sub_checked lsn 1) (\<lambda>l. Ok (d\<lparr>pd_lsn := l\<rparr>))) ds"

definition commit_transaction_stream_impl ::
  "('b, 'z) arrow_ops_scheme \<Rightarrow> ('s, 'k, 'm) index_ops \<Rightarrow> xact_id \<Rightarrow> lsn \<Rightarrow> ('b, 's, 'k, 'm, 'f) streaming_table \<Rightarrow>
   ((store_error + unit) \<times> ('b, 's, 'k, 'm, 'f) streaming_table) res" where
  "commit_transaction_stream_impl ops iops x lsn t =
     (case map_of (transaction_stream_states t) x of
        None \<Rightarrow> Panic ExplicitPanic
      | Some s \<Rightarrow>
          res_bind (slice_drain ops iops (tss_mem_slice s) (streaming_batch_id_counter t)) (\<lambda>(r, slice, ids).
          let s = s\<lparr>tss_mem_slice := slice\<rparr>; t = t\<lparr>streaming_batch_id_counter := ids\<rparr>
          in case r of
               Inl e \<Rightarrow> Ok (Inl e, put_stream x s t)
             | Inr (_, batches, index) \<Rightarrow>
                 let s = hold_batches batches s; main = main_table t; task = next_snapshot_task main;
                     s = s\<lparr>stream_indices := insert_memory_index (mt_next_ptr main, index) (stream_indices s)\<rparr>
                 in res_bind (mark_flushing_ids lsn (map fst (tss_new_record_batches s)) (flushing_batch_lsn_map task)) (\<lambda>flushing.
                    res_bind (stream_batches (tss_new_record_batches s)) (\<lambda>new_batches.
                    check (lsn \<ge> commit_lsn_baseline task) AssertFailed (
                    res_bind (settle_pending ops (pending_deletions_in_main_mem_slice s) (mt_mem_slice main)) (\<lambda>(pending, main_slice).
                    res_bind (stamp_local lsn (local_deletions s)) (\<lambda>stamped.
                    let commit = \<lparr>tsc_xact_id = x, tsc_commit_lsn = lsn, tsc_flushed_file_index = stream_indices s,
                          tsc_flushed_files = tss_flushed_files s, tsc_local_deletions = stamped,
                          tsc_pending_deletions = pending\<rparr>;
                        task = task\<lparr>flushing_batch_lsn_map := flushing,
                          new_record_batches := new_record_batches task @ new_batches,
                          new_mem_indices := new_mem_indices task @ in_memory_index (stream_indices s),
                          commit_lsn_baseline := lsn\<rparr>;
                        task = (if tss_flushed_files s \<noteq> [] then try_set_largest_flush_lsn lsn task else task);
                        task = task\<lparr>new_streaming_xact := new_streaming_xact task @ [StreamCommitted commit]\<rparr>;
                        s = s\<lparr>local_deletions := [], pending_deletions_in_main_mem_slice := [],
                          tss_status := StreamIsCommitted, tss_commit_lsn := Some lsn\<rparr>
                    in Ok (Inr (), put_stream x s (t\<lparr>main_table := main\<lparr>next_snapshot_task := task,
                         mt_mem_slice := main_slice, mt_next_ptr := Suc (mt_next_ptr main)\<rparr>\<rparr>)))))))))"

definition commit_transaction_stream ::
  "('b, 'z) arrow_ops_scheme \<Rightarrow> ('s, 'k, 'm) index_ops \<Rightarrow> xact_id \<Rightarrow> lsn \<Rightarrow> ('b, 's, 'k, 'm, 'f) streaming_table \<Rightarrow>
   ((store_error + ('b, 's, 'k, 'm) disk_slice_writer) \<times> ('b, 's, 'k, 'm, 'f) streaming_table) res" where
  "commit_transaction_stream ops iops x lsn t =
     res_bind (flush_stream ops iops x (Some lsn) t) (\<lambda>(r, t). case r of
         Inl e \<Rightarrow> Ok (Inl e, t)
       | Inr w \<Rightarrow> res_bind (commit_transaction_stream_impl ops iops x lsn t) (\<lambda>(r, t).
           Ok (case r of Inl e \<Rightarrow> (Inl e, t) | Inr _ \<Rightarrow> (Inr w, t))))"

section \<open>Streams in the snapshot\<close>

text \<open>The files of a commit join the snapshot and the cache; the cache entry carries the size of the file.\<close>

fun import_stream_files ::
  "'l lru_ops \<Rightarrow> ('b, 's, 'k, 'm) snapshot_table_state \<Rightarrow> lsn \<Rightarrow> disk_file_entry file_map \<Rightarrow>
   'l object_storage_cache \<times> (file_id \<rightharpoonup> lsn) \<times> disk_file_entry file_map \<times> string list \<Rightarrow>
   ('l object_storage_cache \<times> (file_id \<rightharpoonup> lsn) \<times> disk_file_entry file_map \<times> string list) res" where
  "import_stream_files lru st lsn [] acc = Ok acc"
| "import_stream_files lru st lsn ((fid, f, entry) # fs) (c, lsns, files, evicted) =
     res_bind (import_cache_entry lru c (get_table_unique_file_id st fid)
         \<lparr>cache_filepath = file_path f, file_size = df_file_size entry\<rparr>) (\<lambda>(handle, cur_evicted, c).
     import_stream_files lru st lsn fs
       (c, lsns(fid \<mapsto> lsn), fm_insert f (entry\<lparr>df_cache_handle := Some handle\<rparr>) files, evicted @ cur_evicted))"

definition stamp_lsn :: "xact_id \<Rightarrow> lsn \<Rightarrow> lsn \<Rightarrow> lsn res" where
  "stamp_lsn x commit_lsn l = (if l = get_lsn_for_pending_xact x then sub_checked commit_lsn 1 else Ok l)"

definition apply_stream_commit ::
  "'l lru_ops \<Rightarrow> ('s, 'k, 'm) transaction_stream_commit \<Rightarrow>
   'l object_storage_cache \<times> ('b, 's, 'k, 'm) snapshot_task \<times> ('b, 's, 'k, 'm) snapshot_table_state \<times> string list \<Rightarrow>
   ('l object_storage_cache \<times> ('b, 's, 'k, 'm) snapshot_task \<times> ('b, 's, 'k, 'm) snapshot_table_state \<times> string list) res" where
  "apply_stream_commit lru commit acc = (case acc of (c, task, st, evicted) \<Rightarrow>
     res_bind (import_stream_files lru st (tsc_commit_lsn commit) (tsc_flushed_files commit)
         (c, new_disk_file_lsn_map task, sts_disk_files st, evicted)) (\<lambda>(c, lsns, files, evicted).
     let snap = current_snapshot st;
         ix = fold insert_file_index (file_indices (tsc_flushed_file_index commit)) (snap_indices snap);
         stamp = stamp_lsn (tsc_xact_id commit) (tsc_commit_lsn commit)
     in res_bind (res_map (\<lambda>entry. case entry of
            None \<Rightarrow> Ok None
          | Some d \<Rightarrow> res_bind (stamp (pd_lsn d)) (\<lambda>l. Ok (Some (d\<lparr>pd_lsn := l\<rparr>)))) (uncommitted_deletion_log st)) (\<lambda>uncommitted.
        res_bind (res_map (\<lambda>d. res_bind (stamp (rd_lsn d)) (\<lambda>l. Ok (d\<lparr>rd_lsn := l\<rparr>)))
            (new_deletions task @ tsc_pending_deletions commit)) (\<lambda>dels.
        Ok (c, task\<lparr>new_disk_file_lsn_map := lsns, new_deletions := dels\<rparr>,
            st\<lparr>current_snapshot := snap\<lparr>disk_files := files, snap_indices := ix\<rparr>,
               committed_deletion_log := committed_deletion_log st @ tsc_local_deletions commit,
               uncommitted_deletion_log := uncommitted\<rparr>, evicted)))))"

definition apply_stream_abort ::
  "xact_id \<Rightarrow> ('b, 's, 'k, 'm) snapshot_task \<times> ('b, 's, 'k, 'm) snapshot_table_state \<Rightarrow>
   (('b, 's, 'k, 'm) snapshot_task \<times> ('b, 's, 'k, 'm) snapshot_table_state) res" where
  "apply_stream_abort x acc = (case acc of (task, st) \<Rightarrow>
     res_bind (filter_res (\<lambda>entry. unwrap entry (\<lambda>d. Ok (pd_lsn d \<noteq> get_lsn_for_pending_xact x)))
         (uncommitted_deletion_log st)) (\<lambda>uncommitted.
     Ok (task\<lparr>new_deletions := filter (\<lambda>d. rd_lsn d \<noteq> get_lsn_for_pending_xact x) (new_deletions task)\<rparr>,
         st\<lparr>uncommitted_deletion_log := uncommitted\<rparr>)))"

fun apply_stream_outputs ::
  "'l lru_ops \<Rightarrow> ('s, 'k, 'm) transaction_stream_output list \<Rightarrow>
   'l object_storage_cache \<times> ('b, 's, 'k, 'm) snapshot_task \<times> ('b, 's, 'k, 'm) snapshot_table_state \<times> string list \<Rightarrow>
   ('l object_storage_cache \<times> ('b, 's, 'k, 'm) snapshot_task \<times> ('b, 's, 'k, 'm) snapshot_table_state \<times> string list) res" where
  "apply_stream_outputs lru [] acc = Ok acc"
| "apply_stream_outputs lru (StreamCommitted commit # outs) acc =
     res_bind (apply_stream_commit lru commit acc) (apply_stream_outputs lru outs)"
| "apply_stream_outputs lru (StreamAborted x # outs) (c, task, st, evicted) =
     res_bind (apply_stream_abort x (task, st)) (\<lambda>(task, st). apply_stream_outputs lru outs (c, task, st, evicted))"

definition apply_transaction_stream ::
  "'l lru_ops \<Rightarrow> 'l object_storage_cache \<Rightarrow> ('b, 's, 'k, 'm) snapshot_task \<Rightarrow> ('b, 's, 'k, 'm) snapshot_table_state \<Rightarrow>
   ('l object_storage_cache \<times> ('b, 's, 'k, 'm) snapshot_task \<times> ('b, 's, 'k, 'm) snapshot_table_state \<times> string list) res" where
  "apply_transaction_stream lru c task st =
     apply_stream_outputs lru (new_streaming_xact task) (c, task\<lparr>new_streaming_xact := []\<rparr>, st, [])"


section \<open>Streams are atomic\<close>

fun output_xact :: "('s, 'k, 'm) transaction_stream_output \<Rightarrow> xact_id" where
  "output_xact (StreamCommitted commit) = tsc_xact_id commit"
| "output_xact (StreamAborted x) = x"

text \<open>What becomes of a deletion with an LSN when a list of outputs is applied.\<close>

fun fate :: "('s, 'k, 'm) transaction_stream_output list \<Rightarrow> lsn \<Rightarrow> lsn option" where
  "fate [] l = Some l"
| "fate (StreamCommitted commit # outs) l =
     fate outs (if l = get_lsn_for_pending_xact (tsc_xact_id commit) then tsc_commit_lsn commit - 1 else l)"
| "fate (StreamAborted x # outs) l = (if l = get_lsn_for_pending_xact x then None else fate outs l)"

lemma pending_xact_inject [simp]: "get_lsn_for_pending_xact x = get_lsn_for_pending_xact y \<longleftrightarrow> x = y"
  by (simp add: get_lsn_for_pending_xact_def word_unat_eq_iff)

lemma pending_xact_large: "LSN_START_FOR_STREAMING_XACT \<le> get_lsn_for_pending_xact x"
  by (simp add: get_lsn_for_pending_xact_def)

definition restamp ::
  "('s, 'k, 'm) transaction_stream_output list \<Rightarrow> processed_deletion_record list \<Rightarrow> processed_deletion_record list" where
  "restamp outs ds = List.map_filter (\<lambda>d. map_option (\<lambda>l. d\<lparr>pd_lsn := l\<rparr>) (fate outs (pd_lsn d))) ds"

definition outputs_ok :: "lsn \<Rightarrow> ('s, 'k, 'm) transaction_stream_output list \<Rightarrow> bool" where
  "outputs_ok lsn outs \<longleftrightarrow> distinct (map output_xact outs) \<and> (\<forall>commit. StreamCommitted commit \<in> set outs \<longrightarrow>
     0 < tsc_commit_lsn commit \<and> tsc_commit_lsn commit \<le> lsn
     \<and> (\<forall>d \<in> set (tsc_pending_deletions commit). rd_lsn d = get_lsn_for_pending_xact (tsc_xact_id commit))
     \<and> (\<forall>(_, _, e) \<in> set (tsc_flushed_files commit). dv_wf (committed_deletion_vector e)))"

lemma fate_real: "l < LSN_START_FOR_STREAMING_XACT \<Longrightarrow> fate outs l = Some l"
proof (induction outs l rule: fate.induct)
  case (2 commit outs l)
  then show ?case using pending_xact_large[of "tsc_xact_id commit"] by auto
next
  case (3 x outs l)
  then show ?case using pending_xact_large[of x] by auto
qed simp

lemma fate_pending:
  "x \<notin> output_xact ` set outs \<Longrightarrow> fate outs (get_lsn_for_pending_xact x) = Some (get_lsn_for_pending_xact x)"
proof (induction outs)
  case (Cons out outs)
  then show ?case by (cases out) auto
qed simp

lemma fate_aborted:
  "distinct (map output_xact outs) \<Longrightarrow> StreamAborted x \<in> set outs \<Longrightarrow> fate outs (get_lsn_for_pending_xact x) = None"
proof (induction outs)
  case (Cons out outs)
  then show ?case by (cases out) force+
qed simp

lemma fate_committed:
  assumes "distinct (map output_xact outs)" and "StreamCommitted commit \<in> set outs"
    and "tsc_commit_lsn commit \<le> LSN_START_FOR_STREAMING_XACT" "0 < tsc_commit_lsn commit"
  shows "fate outs (get_lsn_for_pending_xact (tsc_xact_id commit)) = Some (tsc_commit_lsn commit - 1)"
  using assms(1,2)
proof (induction outs)
  case (Cons out outs)
  show ?case
  proof (cases "out = StreamCommitted commit")
    case True
    then show ?thesis using assms(3,4) fate_real[of "tsc_commit_lsn commit - 1" outs] by simp
  next
    case False
    then have "StreamCommitted commit \<in> set outs" using Cons.prems by simp
    moreover from this have "output_xact out \<noteq> tsc_xact_id commit" using Cons.prems(1) by force
    ultimately show ?thesis using Cons by (cases out) auto
  qed
qed simp

lemma fate_eq_pending:
  assumes "outputs_ok B outs" and "B \<le> LSN_START_FOR_STREAMING_XACT"
    and "fate outs l = Some (get_lsn_for_pending_xact x)"
  shows "l = get_lsn_for_pending_xact x"
  using assms(1,3)
proof (induction outs arbitrary: l)
  case (Cons out outs)
  have rest: "outputs_ok B outs" using Cons.prems(1) by (auto simp: outputs_ok_def)
  show ?case
  proof (cases out)
    case (StreamCommitted commit)
    then have "0 < tsc_commit_lsn commit" "tsc_commit_lsn commit \<le> B" using Cons.prems(1) by (auto simp: outputs_ok_def)
    then have "tsc_commit_lsn commit - 1 \<noteq> get_lsn_for_pending_xact x"
      using assms(2) pending_xact_large[of x] by linarith
    then show ?thesis using Cons.IH[OF rest] Cons.prems(2) StreamCommitted by (fastforce split: if_splits)
  next
    case (StreamAborted y)
    then show ?thesis using Cons.IH[OF rest] Cons.prems(2) by (simp split: if_splits)
  qed
qed simp

lemma fate_not_aborted:
  assumes "outputs_ok B outs" and "B \<le> LSN_START_FOR_STREAMING_XACT" and "StreamAborted x \<in> set outs"
  shows "fate outs l \<noteq> Some (get_lsn_for_pending_xact x)"
proof
  assume f: "fate outs l = Some (get_lsn_for_pending_xact x)"
  then have "l = get_lsn_for_pending_xact x" by (rule fate_eq_pending[OF assms(1,2)])
  then show False using f fate_aborted[OF _ assms(3)] assms(1) by (simp add: outputs_ok_def)
qed

lemma restamp_Nil [simp]: "restamp [] ds = ds"
  by (induction ds) (auto simp: restamp_def map_filter_simps)

lemma restamp_commit:
  "restamp (StreamCommitted commit # outs) ds = restamp outs (map (\<lambda>d. d\<lparr>pd_lsn :=
     (if pd_lsn d = get_lsn_for_pending_xact (tsc_xact_id commit) then tsc_commit_lsn commit - 1 else pd_lsn d)\<rparr>) ds)"
  by (induction ds) (auto simp: restamp_def map_filter_simps split: option.splits)

lemma restamp_abort:
  "restamp (StreamAborted x # outs) ds = restamp outs (filter (\<lambda>d. pd_lsn d \<noteq> get_lsn_for_pending_xact x) ds)"
  by (induction ds) (auto simp: restamp_def map_filter_simps split: option.splits)

lemma res_map_map: "(\<And>x. x \<in> set xs \<Longrightarrow> f x = Ok (g x)) \<Longrightarrow> res_map f xs = Ok (map g xs)"
  by (induction xs) auto

lemma stamp_lsn_ok: "0 < c \<Longrightarrow> stamp_lsn x c l = Ok (if l = get_lsn_for_pending_xact x then c - 1 else l)"
  by (auto simp: stamp_lsn_def sub_checked_def)

lemma import_stream_files_wf:
  assumes "import_stream_files lru st lsn fs (c, lsns, files, ev) = Ok (c', lsns', files', ev')"
    and "\<forall>(_, _, e) \<in> set fs. dv_wf (committed_deletion_vector e)"
    and "\<forall>fid e. fm_get files fid = Some e \<longrightarrow> dv_wf (committed_deletion_vector e)"
  shows "\<forall>fid e. fm_get files' fid = Some e \<longrightarrow> dv_wf (committed_deletion_vector e)"
  using assms
proof (induction fs arbitrary: c lsns files ev)
  case (Cons p fs)
  obtain fid f e where p: "p = (fid, f, e)" by (cases p)
  then obtain h ev1 c1 where "import_stream_files lru st lsn fs
      (c1, lsns(fid \<mapsto> lsn), fm_insert f (e\<lparr>df_cache_handle := Some h\<rparr>) files, ev @ ev1) = Ok (c', lsns', files', ev')"
    using Cons.prems(1) by auto
  then show ?case by (rule Cons.IH) (use Cons.prems(2,3) p in \<open>auto simp: fm_get_insert\<close>)
qed simp

lemma vectors_wf_files:
  assumes "vectors_wf st" and "\<forall>fid e. fm_get (sts_disk_files st') fid = Some e \<longrightarrow> dv_wf (committed_deletion_vector e)"
    and "sts_batches st' = sts_batches st"
  shows "vectors_wf st'"
  unfolding vectors_wf_def
proof (intro allI impI)
  fix loc dv
  assume dv: "loc_vector st' loc = Some dv"
  show "dv_wf dv"
  proof (cases loc)
    case (MemoryBatch b r)
    then have "loc_vector st loc = Some dv" using dv assms(3) by (simp add: loc_vector_def)
    then show ?thesis using assms(1) by (simp add: vectors_wf_def)
  next
    case (DiskFile f r)
    then show ?thesis using dv assms(2) by (auto simp: loc_vector_def)
  qed
qed

lemma files_of_wf:
  assumes "vectors_wf st" and "fm_get (sts_disk_files st) fid = Some e"
  shows "dv_wf (committed_deletion_vector e)"
  using assms(1)[unfolded vectors_wf_def, rule_format, of "DiskFile fid 0"] assms(2) by (simp add: loc_vector_def)

lemma stream_commit_spec:
  assumes ok: "apply_stream_commit lru commit (c, task, st, ev) = Ok (c', task', st', ev')"
    and us: "uncommitted_deletion_log st = map Some us" and pos: "0 < tsc_commit_lsn commit"
  shows "uncommitted_deletion_log st' = map Some (map (\<lambda>d. d\<lparr>pd_lsn :=
      (if pd_lsn d = get_lsn_for_pending_xact (tsc_xact_id commit) then tsc_commit_lsn commit - 1 else pd_lsn d)\<rparr>) us)"
    and "committed_deletion_log st' = committed_deletion_log st @ tsc_local_deletions commit"
    and "commit_lsn_baseline task' = commit_lsn_baseline task"
    and "new_deletions task' = map (\<lambda>d. d\<lparr>rd_lsn :=
      (if rd_lsn d = get_lsn_for_pending_xact (tsc_xact_id commit) then tsc_commit_lsn commit - 1 else rd_lsn d)\<rparr>)
        (new_deletions task @ tsc_pending_deletions commit)"
    and "vectors_wf st \<Longrightarrow> \<forall>(_, _, e) \<in> set (tsc_flushed_files commit). dv_wf (committed_deletion_vector e) \<Longrightarrow> vectors_wf st'"
proof -
  let ?p = "get_lsn_for_pending_xact (tsc_xact_id commit)" and ?n = "tsc_commit_lsn commit - 1"
  obtain c1 lsns files ev1 where imp: "import_stream_files lru st (tsc_commit_lsn commit) (tsc_flushed_files commit)
      (c, new_disk_file_lsn_map task, sts_disk_files st, ev) = Ok (c1, lsns, files, ev1)"
    using ok by (auto simp: apply_stream_commit_def)
  have r1: "res_map (\<lambda>entry. case entry of None \<Rightarrow> Ok None
      | Some d \<Rightarrow> res_bind (stamp_lsn (tsc_xact_id commit) (tsc_commit_lsn commit) (pd_lsn d)) (\<lambda>l. Ok (Some (d\<lparr>pd_lsn := l\<rparr>))))
      (map Some us) = Ok (map (\<lambda>e. map_option (\<lambda>d. d\<lparr>pd_lsn := if pd_lsn d = ?p then ?n else pd_lsn d\<rparr>) e) (map Some us))"
    by (rule res_map_map) (auto simp: stamp_lsn_ok[OF pos])
  have r2: "res_map (\<lambda>d. res_bind (stamp_lsn (tsc_xact_id commit) (tsc_commit_lsn commit) (rd_lsn d)) (\<lambda>l. Ok (d\<lparr>rd_lsn := l\<rparr>))) xs
      = Ok (map (\<lambda>d. d\<lparr>rd_lsn := if rd_lsn d = ?p then ?n else rd_lsn d\<rparr>) xs)" for xs
    by (rule res_map_map) (auto simp: stamp_lsn_ok[OF pos])
  note eqs = ok[unfolded apply_stream_commit_def us prod.case imp res_bind.simps Let_def r1 r2]
  show "uncommitted_deletion_log st' = map Some (map (\<lambda>d. d\<lparr>pd_lsn := (if pd_lsn d = ?p then ?n else pd_lsn d)\<rparr>) us)"
    and "committed_deletion_log st' = committed_deletion_log st @ tsc_local_deletions commit"
    and "commit_lsn_baseline task' = commit_lsn_baseline task"
    and "new_deletions task' = map (\<lambda>d. d\<lparr>rd_lsn := (if rd_lsn d = ?p then ?n else rd_lsn d)\<rparr>)
        (new_deletions task @ tsc_pending_deletions commit)"
    using eqs by auto
  show "vectors_wf st'" if "vectors_wf st" "\<forall>(_, _, e) \<in> set (tsc_flushed_files commit). dv_wf (committed_deletion_vector e)"
  proof (rule vectors_wf_files[OF that(1)])
    have "\<forall>fid e. fm_get files fid = Some e \<longrightarrow> dv_wf (committed_deletion_vector e)"
      by (rule import_stream_files_wf[OF imp that(2)]) (use files_of_wf[OF that(1)] in blast)
    moreover have "sts_disk_files st' = files" using eqs by auto
    ultimately show "\<forall>fid e. fm_get (sts_disk_files st') fid = Some e \<longrightarrow> dv_wf (committed_deletion_vector e)" by simp
    show "sts_batches st' = sts_batches st" using eqs by auto
  qed
qed


lemma stream_abort_spec:
  assumes ok: "apply_stream_abort x (task, st) = Ok (task', st')" and us: "uncommitted_deletion_log st = map Some us"
  shows "uncommitted_deletion_log st' = map Some (filter (\<lambda>d. pd_lsn d \<noteq> get_lsn_for_pending_xact x) us)"
    and "committed_deletion_log st' = committed_deletion_log st" and "commit_lsn_baseline task' = commit_lsn_baseline task"
    and "new_deletions task' = filter (\<lambda>d. rd_lsn d \<noteq> get_lsn_for_pending_xact x) (new_deletions task)"
    and "vectors_wf st' = vectors_wf st"
proof -
  have f: "filter_res (\<lambda>entry. unwrap entry (\<lambda>d. Ok (pd_lsn d \<noteq> get_lsn_for_pending_xact x))) (map Some us)
      = Ok (filter (\<lambda>e. pd_lsn (the e) \<noteq> get_lsn_for_pending_xact x) (map Some us))"
    by (rule filter_res_Ok) auto
  note eqs = ok[unfolded apply_stream_abort_def us prod.case f res_bind.simps]
  show "uncommitted_deletion_log st' = map Some (filter (\<lambda>d. pd_lsn d \<noteq> get_lsn_for_pending_xact x) us)"
    and "committed_deletion_log st' = committed_deletion_log st" and "commit_lsn_baseline task' = commit_lsn_baseline task"
    and "new_deletions task' = filter (\<lambda>d. rd_lsn d \<noteq> get_lsn_for_pending_xact x) (new_deletions task)"
    and "vectors_wf st' = vectors_wf st"
    using eqs by (auto simp: filter_map comp_def)
qed

lemma outputs_spec:
  assumes "apply_stream_outputs lru outs (c, task, st, ev) = Ok (c', task', st', ev')"
    and "uncommitted_deletion_log st = map Some us" and "outputs_ok B outs" and "vectors_wf st"
  shows "uncommitted_deletion_log st' = map Some (restamp outs us) \<and> vectors_wf st'
    \<and> commit_lsn_baseline task' = commit_lsn_baseline task"
  using assms
proof (induction outs arbitrary: c task st ev us)
  case (Cons out outs)
  have rest: "outputs_ok B outs" using Cons.prems(3) by (auto simp: outputs_ok_def)
  show ?case
  proof (cases out)
    case (StreamCommitted commit)
    then obtain c1 task1 st1 ev1 where step: "apply_stream_commit lru commit (c, task, st, ev) = Ok (c1, task1, st1, ev1)"
      and run: "apply_stream_outputs lru outs (c1, task1, st1, ev1) = Ok (c', task', st', ev')"
      using Cons.prems(1) by auto
    have ok: "0 < tsc_commit_lsn commit" "\<forall>(_, _, e) \<in> set (tsc_flushed_files commit). dv_wf (committed_deletion_vector e)"
      using Cons.prems(3) StreamCommitted by (auto simp: outputs_ok_def)
    note s = stream_commit_spec[OF step Cons.prems(2) ok(1)]
    show ?thesis using Cons.IH[OF run s(1) rest s(5)[OF Cons.prems(4) ok(2)]] s(3) StreamCommitted
      by (simp add: restamp_commit)
  next
    case (StreamAborted x)
    then obtain task1 st1 where step: "apply_stream_abort x (task, st) = Ok (task1, st1)"
      and run: "apply_stream_outputs lru outs (c, task1, st1, ev) = Ok (c', task', st', ev')"
      using Cons.prems(1) by auto
    note s = stream_abort_spec[OF step Cons.prems(2)]
    show ?thesis using Cons.IH[OF run s(1) rest] s(3,5) Cons.prems(4) StreamAborted by (simp add: restamp_abort)
  qed
qed simp

text \<open>A transaction that is not among the outputs adds no raw deletion.\<close>

lemma outputs_no_new:
  assumes "apply_stream_outputs lru outs (c, task, st, ev) = Ok (c', task', st', ev')"
    and "uncommitted_deletion_log st = map Some us" and "outputs_ok B outs" and "B \<le> LSN_START_FOR_STREAMING_XACT"
    and "x \<notin> output_xact ` set outs" and "\<forall>d \<in> set (new_deletions task). rd_lsn d \<noteq> get_lsn_for_pending_xact x"
  shows "\<forall>d \<in> set (new_deletions task'). rd_lsn d \<noteq> get_lsn_for_pending_xact x"
  using assms
proof (induction outs arbitrary: c task st ev us)
  case (Cons out outs)
  have rest: "outputs_ok B outs" using Cons.prems(3) by (auto simp: outputs_ok_def)
  show ?case
  proof (cases out)
    case (StreamCommitted commit)
    then obtain c1 task1 st1 ev1 where step: "apply_stream_commit lru commit (c, task, st, ev) = Ok (c1, task1, st1, ev1)"
      and run: "apply_stream_outputs lru outs (c1, task1, st1, ev1) = Ok (c', task', st', ev')"
      using Cons.prems(1) by auto
    have ok: "0 < tsc_commit_lsn commit" "tsc_commit_lsn commit \<le> B"
      "\<forall>d \<in> set (tsc_pending_deletions commit). rd_lsn d = get_lsn_for_pending_xact (tsc_xact_id commit)"
      using Cons.prems(3) StreamCommitted by (auto simp: outputs_ok_def)
    note s = stream_commit_spec[OF step Cons.prems(2) ok(1)]
    have "tsc_commit_lsn commit - 1 < get_lsn_for_pending_xact x"
      using ok(1,2) Cons.prems(4) pending_xact_large[of x] by linarith
    then have "\<forall>d \<in> set (new_deletions task1). rd_lsn d \<noteq> get_lsn_for_pending_xact x"
      using Cons.prems(5,6) ok(3) StreamCommitted unfolding s(4) by (auto split: if_splits)
    then show ?thesis using Cons.IH[OF run s(1) rest Cons.prems(4)] Cons.prems(5) by simp
  next
    case (StreamAborted y)
    then obtain task1 st1 where step: "apply_stream_abort y (task, st) = Ok (task1, st1)"
      and run: "apply_stream_outputs lru outs (c, task1, st1, ev) = Ok (c', task', st', ev')"
      using Cons.prems(1) by auto
    note s = stream_abort_spec[OF step Cons.prems(2)]
    show ?thesis using Cons.IH[OF run s(1) rest Cons.prems(4)] Cons.prems(5,6) s(4) by simp
  qed
qed simp

lemma outputs_aborted:
  assumes "apply_stream_outputs lru outs (c, task, st, ev) = Ok (c', task', st', ev')"
    and "uncommitted_deletion_log st = map Some us" and "outputs_ok B outs" and "B \<le> LSN_START_FOR_STREAMING_XACT"
    and "StreamAborted x \<in> set outs"
  shows "\<forall>d \<in> set (new_deletions task'). rd_lsn d \<noteq> get_lsn_for_pending_xact x"
  using assms
proof (induction outs arbitrary: c task st ev us)
  case (Cons out outs)
  have rest: "outputs_ok B outs" using Cons.prems(3) by (auto simp: outputs_ok_def)
  show ?case
  proof (cases "out = StreamAborted x")
    case True
    then obtain task1 st1 where step: "apply_stream_abort x (task, st) = Ok (task1, st1)"
      and run: "apply_stream_outputs lru outs (c, task1, st1, ev) = Ok (c', task', st', ev')"
      using Cons.prems(1) by auto
    note s = stream_abort_spec[OF step Cons.prems(2)]
    have "x \<notin> output_xact ` set outs" using Cons.prems(3) True by (auto simp: outputs_ok_def)
    then show ?thesis by (rule outputs_no_new[OF run s(1) rest Cons.prems(4)]) (simp add: s(4))
  next
    case False
    then have x: "StreamAborted x \<in> set outs" using Cons.prems(5) by simp
    show ?thesis
    proof (cases out)
      case (StreamCommitted commit)
      then obtain c1 task1 st1 ev1 where step: "apply_stream_commit lru commit (c, task, st, ev) = Ok (c1, task1, st1, ev1)"
        and run: "apply_stream_outputs lru outs (c1, task1, st1, ev1) = Ok (c', task', st', ev')"
        using Cons.prems(1) by auto
      have "0 < tsc_commit_lsn commit" using Cons.prems(3) StreamCommitted by (auto simp: outputs_ok_def)
      from stream_commit_spec(1)[OF step Cons.prems(2) this] show ?thesis
        by (rule Cons.IH[OF run _ rest Cons.prems(4) x])
    next
      case (StreamAborted y)
      then obtain task1 st1 where step: "apply_stream_abort y (task, st) = Ok (task1, st1)"
        and run: "apply_stream_outputs lru outs (c, task1, st1, ev) = Ok (c', task', st', ev')"
        using Cons.prems(1) by auto
      show ?thesis by (rule Cons.IH[OF run stream_abort_spec(1)[OF step Cons.prems(2)] rest Cons.prems(4) x])
    qed
  qed
qed simp

lemma restamp_member:
  "e \<in> set (restamp outs ds) \<longleftrightarrow> (\<exists>d \<in> set ds. \<exists>l. fate outs (pd_lsn d) = Some l \<and> e = d\<lparr>pd_lsn := l\<rparr>)"
  by (induction ds) (auto simp: restamp_def map_filter_simps split: option.splits)



text \<open>A witness: one transaction with a waiting deletion commits at 5, another one aborts.\<close>

definition demo_stream_state :: "(plain_batch, single_primitive_key list, key_with_identity list, (u64 \<times> record_location) list) snapshot_table_state" where
  "demo_stream_state = demo_state\<lparr>uncommitted_deletion_log :=
     [Some \<lparr>pd_pos = MemoryBatch 1 0, pd_lsn = get_lsn_for_pending_xact 9\<rparr>,
      Some \<lparr>pd_pos = MemoryBatch 1 1, pd_lsn = get_lsn_for_pending_xact 4\<rparr>]\<rparr>"

definition demo_stream_task :: "(plain_batch, single_primitive_key list, key_with_identity list, (u64 \<times> record_location) list) snapshot_task" where
  "demo_stream_task = (demo_deletion_task 5 [])\<lparr>new_streaming_xact :=
     [StreamCommitted ((from_disk_files [] 5)\<lparr>tsc_xact_id := 9\<rparr>), StreamAborted 4]\<rparr>"


end
