(* ===== verification/Snapshot_Maintenance.thy ===== *)
theory Snapshot_Maintenance
  imports Snapshot_State
begin

text \<open>
  Maintenance of the snapshot (\<^verbatim>\<open>storage/mooncake_table/snapshot_maintenance.rs\<close>, with the deletion
  logs of \<^verbatim>\<open>snapshot.rs\<close>): which data files to compact and which file indices to merge, moving the
  logged deletions to the compacted files, and which deletions to persist.

  A \<^verbatim>\<open>HashSet\<close> is a list without repetition whose order stands for the order of iteration; data
  files are compared by id and file indices by the ids of their files.
\<close>

section \<open>Choosing data files to compact\<close>

text \<open>Event id, least and largest number of files, deletion percentage and file size, per option.\<close>

definition compaction_thresholds ::
  "data_compaction_config \<Rightarrow> maintenance_option \<Rightarrow> uuid option \<times> nat \<times> nat \<times> nat \<times> nat" where
  "compaction_thresholds cfg opt = (case opt of
       SkipMaintenance \<Rightarrow> (None, U64_MAX, U64_MAX, 100, 0)
     | ForceRegularOption u \<Rightarrow> (Some u, 2, max_data_file_to_compact cfg, data_file_deletion_percentage cfg, data_file_final_size cfg)
     | ForceFullOption u \<Rightarrow> (Some u, 2, U64_MAX, 1, U64_MAX)
     | BestEffort u \<Rightarrow> (Some u, min_data_file_to_compact cfg, max_data_file_to_compact cfg,
         data_file_deletion_percentage cfg, data_file_final_size cfg))"

definition skip_compaction :: "nat \<Rightarrow> nat \<Rightarrow> disk_file_entry \<Rightarrow> bool res" where
  "skip_compaction percentage_threshold size_threshold entry =
     (if df_file_size entry \<ge> size_threshold then
        if percentage_threshold = 0 then Ok True
        else let deleted = get_num_rows_deleted (committed_deletion_vector entry) * 100
          in check (deleted < 2 ^ 64) Overflow (
             check (df_num_rows entry \<noteq> 0) ExplicitPanic (
             Ok (deleted div df_num_rows entry < percentage_threshold)))
      else Ok False)"

definition file_to_compact ::
  "('b, 's, 'k, 'm) snapshot_table_state \<Rightarrow> mooncake_data_file \<Rightarrow> disk_file_entry \<Rightarrow> single_file_to_compact" where
  "file_to_compact st f entry =
     \<lparr>compact_file_id = get_table_unique_file_id st (file_id f), data_file_cache_handle = df_cache_handle entry,
      compact_filepath = file_path f, compact_deletion_vector = puffin_deletion_blob entry\<rparr>"

fun choose_files ::
  "('b, 's, 'k, 'm) snapshot_table_state \<Rightarrow> file_id set \<Rightarrow> nat \<Rightarrow> nat \<Rightarrow> nat \<Rightarrow> disk_file_entry file_map \<Rightarrow>
   single_file_to_compact list \<Rightarrow> nat \<Rightarrow> (single_file_to_compact list \<times> nat) res" where
  "choose_files st unpersisted max_files percentage size_threshold [] chosen rejected = Ok (chosen, rejected)"
| "choose_files st unpersisted max_files percentage size_threshold ((fid, f, entry) # fs) chosen rejected =
     (if file_id f \<in> unpersisted then
        choose_files st unpersisted max_files percentage size_threshold fs chosen (Suc rejected)
      else res_bind (skip_compaction percentage size_threshold entry) (\<lambda>skip.
        if skip then choose_files st unpersisted max_files percentage size_threshold fs chosen rejected
        else if length chosen \<ge> max_files then Ok (chosen, rejected)
        else check (get_table_unique_file_id st (file_id f) \<notin> compact_file_id ` set chosen) AssertFailed (
          choose_files st unpersisted max_files percentage size_threshold fs (chosen @ [file_to_compact st f entry]) rejected)))"

fun related_indices :: "file_id set \<Rightarrow> global_index list \<Rightarrow> global_index list \<Rightarrow> global_index list res" where
  "related_indices ids [] acc = Ok acc"
| "related_indices ids (i # is) acc =
     (if list_ex (\<lambda>f. file_id f \<in> ids) (gi_files i) then
        check (index_files i \<notin> index_files ` set acc) AssertFailed (related_indices ids is (acc @ [i]))
      else related_indices ids is acc)"

fun unselect_files ::
  "('b, 's, 'k, 'm) snapshot_table_state \<Rightarrow> mooncake_data_file list \<Rightarrow> single_file_to_compact list \<Rightarrow> single_file_to_compact list res" where
  "unselect_files st [] chosen = Ok chosen"
| "unselect_files st (f # fs) chosen =
     (let fid = get_table_unique_file_id st (file_id f)
      in check (fid \<in> compact_file_id ` set chosen) AssertFailed (
         unselect_files st fs (filter (\<lambda>c. compact_file_id c \<noteq> fid) chosen)))"

fun unselect_indices ::
  "('b, 's, 'k, 'm) snapshot_table_state \<Rightarrow> global_index list \<Rightarrow> single_file_to_compact list \<Rightarrow> global_index list \<Rightarrow>
   (single_file_to_compact list \<times> global_index list) res" where
  "unselect_indices st [] chosen indices = Ok (chosen, indices)"
| "unselect_indices st (i # is) chosen indices =
     res_bind (unselect_files st (gi_files i) chosen) (\<lambda>chosen.
     check (index_files i \<in> index_files ` set indices) AssertFailed (
     unselect_indices st is chosen (filter (\<lambda>j. index_files j \<noteq> index_files i) indices)))"

definition validate_compaction_payload :: "('b, 's, 'k, 'm) snapshot_table_state \<Rightarrow> data_compaction_payload \<Rightarrow> unit res" where
  "validate_compaction_payload st payload =
     (if append_only (md_config (sts_metadata st)) then Ok ()
      else check (get_data_files payload = (\<Union>i \<in> set (dcp_file_indices payload). set (index_files i))) AssertFailed (Ok ()))"

definition get_payload_to_compact ::
  "('b, 's, 'k, 'm) snapshot_table_state \<Rightarrow> maintenance_option \<Rightarrow> data_compaction_payload table_maintenance_status res" where
  "get_payload_to_compact st opt =
     (if opt = SkipMaintenance then Ok MaintenanceUnknown
      else let (event_id, min_files, max_files, percentage, size_threshold) =
                 compaction_thresholds (data_compaction_config (md_config (sts_metadata st))) opt
        in if length (sts_disk_files st) < min_files then Ok MaintenanceNothing
           else res_bind (get_unpersisted_data_files_set (sts_unpersisted_records st)) (\<lambda>unpersisted.
             res_bind (choose_files st unpersisted max_files percentage size_threshold (sts_disk_files st) [] 0)
               (\<lambda>(chosen, rejected).
             if length chosen < min_files then
               Ok (if length chosen + rejected \<ge> min_files then MaintenanceUnknown else MaintenanceNothing)
             else res_bind (related_indices (set (map (\<lambda>c. tuf_file_id (compact_file_id c)) chosen))
                 (file_indices (snap_indices (current_snapshot st))) []) (\<lambda>indices.
               res_bind (get_unpersisted_file_indices_set (sts_unpersisted_records st)) (\<lambda>unpersisted_indices.
               res_bind (unselect_indices st (filter (\<lambda>i. index_files i \<in> unpersisted_indices) indices) chosen indices)
                 (\<lambda>(chosen, indices).
               if length chosen < min_files then Ok MaintenanceUnknown
               else unwrap event_id (\<lambda>u.
                 let payload = \<lparr>dcp_uuid = u, dcp_disk_files = chosen, dcp_file_indices = indices\<rparr>
                 in res_bind (validate_compaction_payload st payload) (\<lambda>_. Ok (Payload payload)))))))))"

section \<open>Choosing file indices to merge\<close>

definition get_index_blocks_size :: "global_index \<Rightarrow> nat res" where
  "get_index_blocks_size i = res_fold (\<lambda>n b. add_width 64 n (index_file_size b)) 0 (gi_index_blocks i)"

definition merge_thresholds :: "file_index_merge_config \<Rightarrow> maintenance_option \<Rightarrow> uuid option \<times> nat \<times> nat" where
  "merge_thresholds cfg opt = (case opt of
       SkipMaintenance \<Rightarrow> (None, U64_MAX, U64_MAX)
     | ForceRegularOption u \<Rightarrow> (Some u, 2, index_block_final_size cfg)
     | ForceFullOption u \<Rightarrow> (Some u, 2, 0)
     | BestEffort u \<Rightarrow> (Some u, min_file_indices_to_merge cfg, index_block_final_size cfg))"

fun choose_indices ::
  "file_id list set \<Rightarrow> nat \<Rightarrow> global_index list \<Rightarrow> global_index list \<Rightarrow> nat \<Rightarrow> (global_index list \<times> nat) res" where
  "choose_indices unpersisted size_threshold [] chosen rejected = Ok (chosen, rejected)"
| "choose_indices unpersisted size_threshold (i # is) chosen rejected =
     res_bind (get_index_blocks_size i) (\<lambda>bytes.
     if bytes \<ge> size_threshold then choose_indices unpersisted size_threshold is chosen rejected
     else if index_files i \<in> unpersisted then choose_indices unpersisted size_threshold is chosen (Suc rejected)
     else check (index_files i \<notin> index_files ` set chosen) AssertFailed (
       choose_indices unpersisted size_threshold is (chosen @ [i]) rejected))"

definition get_file_indices_to_merge ::
  "('b, 's, 'k, 'm) snapshot_table_state \<Rightarrow> maintenance_option \<Rightarrow> file_indice_merge_payload table_maintenance_status res" where
  "get_file_indices_to_merge st opt =
     (if opt = SkipMaintenance then Ok MaintenanceUnknown
      else let cfg = file_index_config (md_config (sts_metadata st));
               (event_id, min_indices, size_threshold) = merge_thresholds cfg opt;
               all_indices = file_indices (snap_indices (current_snapshot st))
        in if length all_indices < min_indices then Ok MaintenanceNothing
           else res_bind (get_unpersisted_file_indices_set (sts_unpersisted_records st)) (\<lambda>unpersisted.
             res_bind (choose_indices unpersisted size_threshold all_indices [] 0) (\<lambda>(chosen, rejected).
             if length chosen \<ge> min_indices then
               unwrap event_id (\<lambda>u. Ok (Payload \<lparr>fmp_uuid = u, fmp_file_indices = take (max_file_indices_to_merge cfg) chosen\<rparr>))
             else if length chosen + rejected \<ge> min_indices then Ok MaintenanceUnknown
             else Ok MaintenanceNothing)))"

section \<open>Deletion logs after a compaction\<close>

text \<open>
  A record location is taken out of the remap of the task; both logs of the snapshot share
  the remap, and the uncommitted log goes first.
\<close>

definition remap_record_location_after_compaction ::
  "processed_deletion_record \<Rightarrow> record_remap \<Rightarrow> (processed_deletion_record \<times> record_remap) option" where
  "remap_record_location_after_compaction d remap = (case map_of remap (pd_pos d) of
       None \<Rightarrow> None
     | Some l \<Rightarrow> Some (d\<lparr>pd_pos := remapped_location l\<rparr>, AList.delete (pd_pos d) remap))"

fun remap_uncommitted ::
  "processed_deletion_record option list \<Rightarrow> record_remap \<Rightarrow> processed_deletion_record option list \<times> record_remap" where
  "remap_uncommitted [] remap = ([], remap)"
| "remap_uncommitted (None # ds) remap = (let (ds, remap) = remap_uncommitted ds remap in (None # ds, remap))"
| "remap_uncommitted (Some d # ds) remap =
     (let (d, remap) = (case remap_record_location_after_compaction d remap of None \<Rightarrow> (d, remap) | Some r \<Rightarrow> r);
          (ds, remap) = remap_uncommitted ds remap
      in (Some d # ds, remap))"

definition remap_uncommitted_deletion_logs_after_compaction ::
  "('b, 's, 'k, 'm) snapshot_task \<Rightarrow> ('b, 's, 'k, 'm) snapshot_table_state \<Rightarrow>
   (('b, 's, 'k, 'm) snapshot_task \<times> ('b, 's, 'k, 'm) snapshot_table_state) res" where
  "remap_uncommitted_deletion_logs_after_compaction task st =
     res_bind (compaction_result_is_empty (st_data_compaction_result task)) (\<lambda>empty.
     if empty then Ok (task, st)
     else let (ds, remap) = remap_uncommitted (uncommitted_deletion_log st) (dcr_remapped_data_files (st_data_compaction_result task))
       in Ok (task\<lparr>st_data_compaction_result := (st_data_compaction_result task)\<lparr>dcr_remapped_data_files := remap\<rparr>\<rparr>,
              st\<lparr>uncommitted_deletion_log := ds\<rparr>))"

fun remap_committed ::
  "file_id set \<Rightarrow> processed_deletion_record list \<Rightarrow> record_remap \<Rightarrow> (processed_deletion_record list \<times> record_remap) res" where
  "remap_committed old [] remap = Ok ([], remap)"
| "remap_committed old (d # ds) remap =
     (case get_file_id (pd_pos d) of
        Some fid \<Rightarrow>
          if fid \<notin> old then res_bind (remap_committed old ds remap) (\<lambda>(ds, remap). Ok (d # ds, remap))
          else (case remap_record_location_after_compaction d remap of
              None \<Rightarrow> Panic AssertFailed
            | Some (d, remap) \<Rightarrow> res_bind (remap_committed old ds remap) (\<lambda>(ds, remap). Ok (d # ds, remap)))
      | None \<Rightarrow> res_bind (remap_committed old ds remap) (\<lambda>(ds, remap). Ok (d # ds, remap)))"

definition remap_committed_deletion_logs_after_compaction ::
  "('b, 's, 'k, 'm) snapshot_task \<Rightarrow> ('b, 's, 'k, 'm) snapshot_table_state \<Rightarrow>
   (('b, 's, 'k, 'm) snapshot_task \<times> ('b, 's, 'k, 'm) snapshot_table_state) res" where
  "remap_committed_deletion_logs_after_compaction task st =
     (let r = st_data_compaction_result task
      in res_bind (compaction_result_is_empty r) (\<lambda>empty.
         if empty then Ok (task, st)
         else res_bind (remap_committed (file_id ` set (dcr_old_data_files r)) (committed_deletion_log st)
             (dcr_remapped_data_files r)) (\<lambda>(ds, remap).
           Ok (task\<lparr>st_data_compaction_result := r\<lparr>dcr_remapped_data_files := remap\<rparr>\<rparr>,
               st\<lparr>committed_deletion_log := ds\<rparr>))))"

section \<open>Deletions to persist\<close>

definition validate_deletions_to_persist :: "committed_deletion_to_persist \<Rightarrow> unit res" where
  "validate_deletions_to_persist d =
     check (card (cdp_committed_deletion_logs d) \<ge> length (cdp_new_deletions_to_persist d)) AssertFailed (Ok ())"

text \<open>The vectors are kept as a map from file id to the stored data file and its vector.\<close>

fun aggregate_logs ::
  "'z arrow_bits_scheme \<Rightarrow> ('b, 's, 'k, 'm) snapshot_table_state \<Rightarrow> lsn \<Rightarrow> processed_deletion_record list \<Rightarrow>
   batch_deletion_vector file_map \<Rightarrow> (file_id \<times> nat) set \<Rightarrow> (batch_deletion_vector file_map \<times> (file_id \<times> nat) set) res" where
  "aggregate_logs ar st flush_lsn [] vectors logs = Ok (vectors, logs)"
| "aggregate_logs ar st flush_lsn (d # ds) vectors logs =
     check (pd_lsn d \<le> snapshot_version (current_snapshot st)) AssertFailed (
     if pd_lsn d \<ge> flush_lsn then aggregate_logs ar st flush_lsn ds vectors logs
     else (case pd_pos d of
         MemoryBatch _ _ \<Rightarrow> aggregate_logs ar st flush_lsn ds vectors logs
       | DiskFile fid row_idx \<Rightarrow>
           unwrap (map_of (sts_disk_files st) fid) (\<lambda>(f, entry).
           let v = (case fm_get vectors fid of
               Some v \<Rightarrow> v | None \<Rightarrow> new_deletion_vector (get_max_rows (committed_deletion_vector entry)))
           in res_bind (delete_row ar v row_idx) (\<lambda>(r, v).
              check r AssertFailed (
              check ((fid, row_idx) \<notin> logs) AssertFailed (
              aggregate_logs ar st flush_lsn ds (fm_insert f v vectors) (insert (fid, row_idx) logs)))))))"

definition aggregate_committed_deletion_logs ::
  "'z arrow_bits_scheme \<Rightarrow> ('b, 's, 'k, 'm) snapshot_table_state \<Rightarrow> lsn \<Rightarrow> committed_deletion_to_persist res" where
  "aggregate_committed_deletion_logs ar st flush_lsn =
     res_bind (aggregate_logs ar st flush_lsn (committed_deletion_log st) [] {}) (\<lambda>(vectors, logs).
     Ok \<lparr>cdp_committed_deletion_logs = logs, cdp_new_deletions_to_persist = map snd vectors\<rparr>)"

fun keep_after_persistence ::
  "('b, 's, 'k, 'm) snapshot_table_state \<Rightarrow> (file_id \<times> nat) set \<Rightarrow> processed_deletion_record list \<Rightarrow>
   processed_deletion_record list res" where
  "keep_after_persistence st persisted [] = Ok []"
| "keep_after_persistence st persisted (d # ds) =
     check (pd_lsn d \<le> snapshot_version (current_snapshot st)) AssertFailed (
     res_bind (keep_after_persistence st persisted ds) (\<lambda>kept. Ok (case pd_pos d of
         MemoryBatch _ _ \<Rightarrow> d # kept
       | DiskFile fid row_idx \<Rightarrow>
           if (fid, row_idx) \<notin> persisted \<or> fid \<in> compacting_data_files st then d # kept else kept)))"

definition prune_committed_deletion_logs ::
  "('b, 's, 'k, 'm) snapshot_task \<Rightarrow> ('b, 's, 'k, 'm) snapshot_table_state \<Rightarrow> ('b, 's, 'k, 'm) snapshot_table_state res" where
  "prune_committed_deletion_logs task st =
     (if pr_flush_lsn (st_persisted_records task) = None then Ok st
      else res_bind (keep_after_persistence st (st_committed_deletion_logs task) (committed_deletion_log st))
        (\<lambda>kept. Ok (st\<lparr>committed_deletion_log := kept\<rparr>)))"


section \<open>Maintenance touches persisted files only\<close>

lemma choose_files_spec:
  assumes "choose_files st unpersisted max_files percentage size_threshold fs chosen rejected = Ok (chosen', rejected')"
    and "\<forall>c \<in> set chosen. \<exists>f e. (file_id f, f, e) \<in> set all \<and> file_id f \<notin> unpersisted \<and> c = file_to_compact st f e"
    and "distinct (map compact_file_id chosen)" and "length chosen \<le> max_files"
    and "set fs \<subseteq> set all" and "\<forall>(fid, f, e) \<in> set fs. file_id f = fid"
  shows "(\<forall>c \<in> set chosen'. \<exists>f e. (file_id f, f, e) \<in> set all \<and> file_id f \<notin> unpersisted \<and> c = file_to_compact st f e)
    \<and> distinct (map compact_file_id chosen') \<and> length chosen' \<le> max_files"
  using assms
proof (induction fs arbitrary: chosen rejected)
  case Nil
  then show ?case by simp
next
  case (Cons p fs)
  obtain fid f e where p: "p = (fid, f, e)" by (cases p)
  have tail: "set fs \<subseteq> set all" "\<forall>(fid, f, e) \<in> set fs. file_id f = fid" using Cons.prems(5,6) by auto
  have here: "(file_id f, f, e) \<in> set all" using Cons.prems(5,6) p by auto
  show ?case
  proof (cases "file_id f \<in> unpersisted")
    case True
    then show ?thesis using Cons.prems(1) p Cons.IH[OF _ Cons.prems(2-4) tail] by simp
  next
    case False
    then obtain skip where skip: "skip_compaction percentage size_threshold e = Ok skip" using Cons.prems(1) p by auto
    show ?thesis
    proof (cases skip)
      case True
      then show ?thesis using Cons.prems(1) p False skip Cons.IH[OF _ Cons.prems(2-4) tail] by simp
    next
      case keep: False
      show ?thesis
      proof (cases "length chosen \<ge> max_files")
        case True
        then show ?thesis using Cons.prems(1-4) p False skip keep by simp
      next
        case room: False
        let ?c = "file_to_compact st f e"
        have new: "compact_file_id ?c \<notin> compact_file_id ` set chosen"
          and run: "choose_files st unpersisted max_files percentage size_threshold fs (chosen @ [?c]) rejected = Ok (chosen', rejected')"
          using Cons.prems(1) p False skip keep room by (simp_all add: file_to_compact_def)
        show ?thesis
          by (rule Cons.IH[OF run _ _ _ tail]) (use Cons.prems(2,3) here False new room in auto)
      qed
    qed
  qed
qed

lemma related_indices_spec:
  "related_indices ids is acc = Ok acc' \<Longrightarrow> set acc' \<subseteq> set acc \<union> set is"
  by (induction "is" arbitrary: acc) (fastforce split: if_splits)+

lemma unselect_files_spec:
  "unselect_files st fs chosen = Ok chosen' \<Longrightarrow> \<exists>P. chosen' = filter P chosen"
proof (induction fs arbitrary: chosen)
  case Nil
  then show ?case by (intro exI[of _ "\<lambda>_. True"]) simp
next
  case (Cons f fs)
  then have "unselect_files st fs (filter (\<lambda>c. compact_file_id c \<noteq> get_table_unique_file_id st (file_id f)) chosen) = Ok chosen'"
    by (auto simp: Let_def)
  from Cons.IH[OF this] show ?case by (auto simp: filter_filter)
qed

lemma unselect_indices_spec:
  "unselect_indices st is chosen indices = Ok (chosen', indices') \<Longrightarrow>
   (\<exists>P. chosen' = filter P chosen) \<and> indices' = filter (\<lambda>j. index_files j \<notin> index_files ` set is) indices"
proof (induction "is" arbitrary: chosen indices)
  case Nil
  then show ?case by (auto intro: exI[of _ "\<lambda>_. True"])
next
  case (Cons i "is")
  then obtain c1 where c1: "unselect_files st (gi_files i) chosen = Ok c1"
    and rest: "unselect_indices st is c1 (filter (\<lambda>j. index_files j \<noteq> index_files i) indices) = Ok (chosen', indices')" by auto
  obtain P where P: "c1 = filter P chosen" using unselect_files_spec[OF c1] by blast
  from Cons.IH[OF rest] obtain Q where "chosen' = filter Q c1"
    "indices' = filter (\<lambda>j. index_files j \<notin> index_files ` set is) (filter (\<lambda>j. index_files j \<noteq> index_files i) indices)" by blast
  then show ?case using P by (auto intro: filter_cong)
qed


section \<open>A full index merge\<close>

lemma choose_no_indices:
  "choose_indices unpersisted 0 is chosen rejected = Ok (chosen', rejected') \<Longrightarrow> chosen' = chosen \<and> rejected' = rejected"
  by (induction "is") auto

text \<open>
  C32: a forced full index merge never merges anything. Its size threshold is zero, and the check that is meant to leave
  large indices out skips every index: with the option for a full merge the result is
  always that there is nothing to merge, however many small indices the snapshot has.
\<close>

theorem full_index_merge_does_nothing:
  assumes "get_file_indices_to_merge st (ForceFullOption u) = Ok status"
  shows "status = MaintenanceNothing"
proof (cases "length (file_indices (snap_indices (current_snapshot st))) < 2")
  case True
  then show ?thesis using assms by (simp add: get_file_indices_to_merge_def merge_thresholds_def)
next
  case False
  from assms False obtain unpersisted where
    s: "res_bind (choose_indices unpersisted 0 (file_indices (snap_indices (current_snapshot st))) [] 0)
      (\<lambda>(chosen, rejected). if 2 \<le> length chosen then unwrap (Some u) (\<lambda>u. Ok (Payload \<lparr>fmp_uuid = u, fmp_file_indices =
          take (max_file_indices_to_merge (file_index_config (md_config (sts_metadata st)))) chosen\<rparr>))
        else if 2 \<le> length chosen + rejected then Ok MaintenanceUnknown else Ok MaintenanceNothing) = Ok status"
    unfolding get_file_indices_to_merge_def merge_thresholds_def Let_def
    by (cases "get_unpersisted_file_indices_set (sts_unpersisted_records st)") simp_all
  obtain chosen rejected where
    c: "choose_indices unpersisted 0 (file_indices (snap_indices (current_snapshot st))) [] 0 = Ok (chosen, rejected)"
    using s by (cases "choose_indices unpersisted 0 (file_indices (snap_indices (current_snapshot st))) [] 0") auto
  then show ?thesis using choose_no_indices[OF c] s by simp
qed

definition demo_files :: "(plain_batch, single_primitive_key list, key_with_identity list, (u64 \<times> record_location) list) snapshot_table_state" where
  "demo_files = demo_state\<lparr>current_snapshot := (new_snapshot demo_metadata)\<lparr>
     disk_files := [(FileId 7, \<lparr>file_id = FileId 7, file_path = ''f''\<rparr>, new_disk_file_entry 2 10 None),
       (FileId 8, \<lparr>file_id = FileId 8, file_path = ''g''\<rparr>, new_disk_file_entry 3 10 None)],
     snap_indices := \<lparr>in_memory_index = [], file_indices = [demo_index 7, demo_index 8]\<rparr>\<rparr>\<rparr>"

lemma demo_files_config: "md_config (sts_metadata demo_files) = demo_config"
  by (simp add: demo_files_def demo_state_def demo_metadata_def)

lemma demo_files_indices: "file_indices (snap_indices (current_snapshot demo_files)) = [demo_index 7, demo_index 8]"
  by (simp add: demo_files_def)

lemma demo_files_unpersisted: "sts_unpersisted_records demo_files = new_unpersisted_records demo_config"
  by (simp add: demo_files_def demo_state_def)

lemma demo_nothing_unpersisted:
  "get_unpersisted_file_indices_set (new_unpersisted_records demo_config) = Ok {}"
  "get_unpersisted_data_files_set (new_unpersisted_records demo_config) = Ok {}"
  by (simp_all add: get_unpersisted_file_indices_set_def get_unpersisted_data_files_set_def new_unpersisted_records_def)

lemma demo_index_small: "get_index_blocks_size (demo_index i) = Ok 0" "index_files (demo_index i) = [FileId i]"
    "gi_files (demo_index i) = [\<lparr>file_id = FileId i, file_path = ''f''\<rparr>]"
  by (simp_all add: get_index_blocks_size_def demo_index_def index_files_def)

lemma demo_limits: "data_compaction_config demo_config = \<lparr>min_data_file_to_compact = 2, max_data_file_to_compact = 4,
    data_file_final_size = 100, data_file_deletion_percentage = 50\<rparr>"
  "file_index_config demo_config = \<lparr>min_file_indices_to_merge = 2, max_file_indices_to_merge = 4, index_block_final_size = 100\<rparr>"
  "\<not> append_only demo_config"
  by (simp_all add: demo_config_def)

lemmas demo_files_simps = demo_files_config demo_files_indices demo_files_unpersisted demo_nothing_unpersisted
  demo_index_small demo_limits

theorem full_index_merge_does_nothing_witness:
  "\<exists>status. get_file_indices_to_merge demo_files (ForceFullOption 1) = Ok status \<and> status = MaintenanceNothing
    \<and> get_file_indices_to_merge demo_files (ForceRegularOption 1)
      = Ok (Payload \<lparr>fmp_uuid = 1, fmp_file_indices = [demo_index 7, demo_index 8]\<rparr>)"
proof -
  have full: "get_file_indices_to_merge demo_files (ForceFullOption 1) = Ok MaintenanceNothing"
    by (simp add: get_file_indices_to_merge_def merge_thresholds_def demo_files_simps)
  have regular: "get_file_indices_to_merge demo_files (ForceRegularOption 1)
      = Ok (Payload \<lparr>fmp_uuid = 1, fmp_file_indices = [demo_index 7, demo_index 8]\<rparr>)"
    by (simp add: get_file_indices_to_merge_def merge_thresholds_def demo_files_simps)
  from full_index_merge_does_nothing[OF full] full regular show ?thesis by blast
qed


section \<open>Deletions reach the persisted table once\<close>

text \<open>The deletions of the committed log that a persistence up to a flush LSN takes: on disk and below the LSN.\<close>

definition on_disk_below :: "lsn \<Rightarrow> processed_deletion_record list \<Rightarrow> (file_id \<times> nat) set" where
  "on_disk_below flush_lsn ds = {(fid, row). \<exists>d \<in> set ds. pd_lsn d < flush_lsn \<and> pd_pos d = DiskFile fid row}"

definition vectors_hold ::
  "('b, 's, 'k, 'm) snapshot_table_state \<Rightarrow> batch_deletion_vector file_map \<Rightarrow> (file_id \<times> nat) set \<Rightarrow> bool" where
  "vectors_hold st vectors logs \<longleftrightarrow> fm_wf vectors
     \<and> (\<forall>fid row. (fid, row) \<in> logs \<longrightarrow> fm_get vectors fid \<noteq> None)
     \<and> (\<forall>fid v. fm_get vectors fid = Some v \<longrightarrow> dv_wf v \<and> deleted_rows v = {row. (fid, row) \<in> logs} \<and> deleted_rows v \<noteq> {}
         \<and> (\<forall>e. fm_get (sts_disk_files st) fid = Some e \<longrightarrow> max_rows v = max_rows (committed_deletion_vector e)))"

lemma new_vector_empty: "dv_wf (new_deletion_vector n)" "deleted_rows (new_deletion_vector n) = {}"
    "max_rows (new_deletion_vector n) = n"
  by (simp_all add: dv_wf_def deleted_rows_def new_deletion_vector_def)

lemma vectors_holdD:
  assumes "vectors_hold st vectors logs" and "fm_get vectors fid = Some v"
  shows "dv_wf v" "deleted_rows v = {row. (fid, row) \<in> logs}" "deleted_rows v \<noteq> {}"
    "fm_get (sts_disk_files st) fid = Some e \<Longrightarrow> max_rows v = max_rows (committed_deletion_vector e)"
  using assms unfolding vectors_hold_def by blast+

lemma vectors_hold_insert:
  assumes bits: "arrow_bits_ok ar" and hold: "vectors_hold st vectors logs"
    and f: "map_of (sts_disk_files st) fid = Some (f, e)" "file_id f = fid"
    and del: "delete_row ar (case fm_get vectors fid of Some v \<Rightarrow> v
        | None \<Rightarrow> new_deletion_vector (get_max_rows (committed_deletion_vector e))) row = Ok (r, v')"
  shows "vectors_hold st (fm_insert f v' vectors) (insert (fid, row) logs)"
proof -
  let ?v = "case fm_get vectors fid of Some v \<Rightarrow> v | None \<Rightarrow> new_deletion_vector (get_max_rows (committed_deletion_vector e))"
  have e: "fm_get (sts_disk_files st) fid = Some e" using f(1) by (simp add: fm_get_def)
  have v: "dv_wf ?v" "max_rows ?v = max_rows (committed_deletion_vector e)" "deleted_rows ?v = {row. (fid, row) \<in> logs}"
    using hold e by (auto simp: vectors_hold_def new_vector_empty get_max_rows_def split: option.splits)
  have row: "row < max_rows ?v" using del by (auto simp: delete_row_def)
  have v': "dv_wf v'" "max_rows v' = max_rows ?v" "deleted_rows v' = insert row (deleted_rows ?v)"
    using delete_row_spec[OF bits v(1) row] del by auto
  have wf: "fm_wf (fm_insert f v' vectors)" using hold by (simp add: vectors_hold_def fm_insert_wf)
  have some: "(g, row') \<in> insert (fid, row) logs \<Longrightarrow> fm_get (fm_insert f v' vectors) g \<noteq> None" for g row'
    using hold f(2) by (auto simp: vectors_hold_def fm_get_insert)
  have at: "dv_wf w \<and> deleted_rows w = {row'. (g, row') \<in> insert (fid, row) logs} \<and> deleted_rows w \<noteq> {}
      \<and> (\<forall>e. fm_get (sts_disk_files st) g = Some e \<longrightarrow> max_rows w = max_rows (committed_deletion_vector e))"
    if w: "fm_get (fm_insert f v' vectors) g = Some w" for g w
  proof (cases "g = fid")
    case True
    then have "w = v'" using w f(2) by (simp add: fm_get_insert)
    then show ?thesis using True v v' e by auto
  next
    case False
    then have "fm_get vectors g = Some w" using w f(2) by (simp add: fm_get_insert)
    from vectors_holdD[OF hold this] show ?thesis using False by simp
  qed
  show ?thesis unfolding vectors_hold_def using wf some at by blast
qed

lemma aggregate_logs_spec:
  assumes "aggregate_logs ar st flush_lsn ds vectors logs = Ok (vectors', logs')"
    and "arrow_bits_ok ar" and "fm_wf (sts_disk_files st)" and "vectors_hold st vectors logs"
  shows "vectors_hold st vectors' logs' \<and> logs' = logs \<union> on_disk_below flush_lsn ds"
  using assms
proof (induction ds arbitrary: vectors logs)
  case Nil
  then show ?case by (simp add: on_disk_below_def)
next
  case (Cons d ds)
  show ?case
  proof (cases "pd_lsn d < flush_lsn \<and> (\<exists>fid row. pd_pos d = DiskFile fid row)")
    case False
    then have "aggregate_logs ar st flush_lsn ds vectors logs = Ok (vectors', logs')"
      using Cons.prems(1) by (auto split: record_location.splits if_splits)
    moreover have "on_disk_below flush_lsn (d # ds) = on_disk_below flush_lsn ds" using False by (auto simp: on_disk_below_def)
    ultimately show ?thesis using Cons.IH[OF _ Cons.prems(2-4)] by metis
  next
    case True
    then obtain fid row where d: "pd_lsn d < flush_lsn" "pd_pos d = DiskFile fid row" by blast
    obtain f e r v where f: "map_of (sts_disk_files st) fid = Some (f, e)"
      and del: "delete_row ar (case fm_get vectors fid of Some v \<Rightarrow> v
        | None \<Rightarrow> new_deletion_vector (get_max_rows (committed_deletion_vector e))) row = Ok (r, v)"
      and rest: "aggregate_logs ar st flush_lsn ds (fm_insert f v vectors) (insert (fid, row) logs) = Ok (vectors', logs')"
      using Cons.prems(1) d by (auto simp: Let_def)
    have "file_id f = fid" using Cons.prems(3) f by (simp add: fm_wf_iff)
    then have hold: "vectors_hold st (fm_insert f v vectors) (insert (fid, row) logs)"
      using vectors_hold_insert[OF Cons.prems(2,4) f _ del] by blast
    have "on_disk_below flush_lsn (d # ds) = insert (fid, row) (on_disk_below flush_lsn ds)" using d by (auto simp: on_disk_below_def)
    then show ?thesis using Cons.IH[OF rest Cons.prems(2,3) hold] by auto
  qed
qed

lemma keep_after_persistence_spec:
  "keep_after_persistence st persisted ds = Ok kept \<Longrightarrow>
   kept = filter (\<lambda>d. \<forall>fid row. pd_pos d = DiskFile fid row \<longrightarrow> (fid, row) \<notin> persisted \<or> fid \<in> compacting_data_files st) ds"
proof (induction ds arbitrary: kept)
  case (Cons d ds)
  then show ?case by (cases "pd_pos d") (auto split: if_splits)
qed simp

lemma on_disk_below_finite: "finite (on_disk_below flush_lsn ds)"
proof (rule finite_subset)
  show "on_disk_below flush_lsn ds \<subseteq> (\<lambda>d. case pd_pos d of DiskFile fid row \<Rightarrow> (fid, row)) ` set ds"
    by (force simp: on_disk_below_def)
qed simp

lemma fm_get_in_set: "fm_wf m \<Longrightarrow> (f, v) \<in> snd ` set m \<longleftrightarrow> map_of m (file_id f) = Some (f, v)"
  by (force simp: fm_wf_def image_iff)

lemma vectors_hold_count:
  assumes "vectors_hold st vectors logs" and "finite logs"
  shows "length vectors \<le> card logs"
proof -
  have wf: "distinct (map fst vectors)" using assms(1) by (simp add: vectors_hold_def fm_wf_def)
  have "fid \<in> fst ` logs" if mem: "fid \<in> set (map fst vectors)" for fid
  proof -
    obtain f v where "map_of vectors fid = Some (f, v)" using mem by (metis map_of_eq_None_iff not_None_eq set_map surj_pair)
    then have "fm_get vectors fid = Some v" by (simp add: fm_get_def)
    from vectors_holdD(2,3)[OF assms(1) this] show ?thesis by force
  qed
  then have "card (set (map fst vectors)) \<le> card (fst ` logs)" using assms(2) by (intro card_mono) auto
  also have "\<dots> \<le> card logs" using assms(2) by (rule card_image_le)
  finally show ?thesis using distinct_card[OF wf] by simp
qed

text \<open>
  C17: the deletions of a persistence. The committed deletions that a persistence takes are exactly
  the ones on disk below its flush LSN; their vectors mark, file by file, exactly these rows, and satisfy the
  check that the deletion logs are at least as many as the vectors. Once the persistence
  is reported, pruning drops these deletions and no others from the committed log,
  and keeps the ones of files under compaction.
\<close>

theorem deletions_persisted_exactly:
  assumes bits: "arrow_bits_ok ar" and files_wf: "fm_wf (sts_disk_files st)"
    and taken: "aggregate_committed_deletion_logs ar st flush_lsn = Ok c"
    and reported: "pr_flush_lsn (st_persisted_records task) = Some flush_lsn"
      "st_committed_deletion_logs task = cdp_committed_deletion_logs c"
    and pruned: "prune_committed_deletion_logs task st = Ok st'"
  shows "cdp_committed_deletion_logs c = on_disk_below flush_lsn (committed_deletion_log st)
    \<and> (\<forall>(f, v) \<in> set (cdp_new_deletions_to_persist c).
        deleted_rows v = {row. (file_id f, row) \<in> cdp_committed_deletion_logs c} \<and> deleted_rows v \<noteq> {})
    \<and> fst ` cdp_committed_deletion_logs c = (file_id \<circ> fst) ` set (cdp_new_deletions_to_persist c)
    \<and> validate_deletions_to_persist c = Ok ()
    \<and> committed_deletion_log st' = filter (\<lambda>d. \<forall>fid row. pd_pos d = DiskFile fid row \<longrightarrow>
        (fid, row) \<notin> on_disk_below flush_lsn (committed_deletion_log st) \<or> fid \<in> compacting_data_files st) (committed_deletion_log st)"
proof -
  obtain vectors logs where a: "aggregate_logs ar st flush_lsn (committed_deletion_log st) [] {} = Ok (vectors, logs)"
    and c: "c = \<lparr>cdp_committed_deletion_logs = logs, cdp_new_deletions_to_persist = map snd vectors\<rparr>"
    using taken by (auto simp: aggregate_committed_deletion_logs_def)
  have "vectors_hold st [] {}" by (simp add: vectors_hold_def fm_wf_def fm_get_def)
  from aggregate_logs_spec[OF a bits files_wf this]
  have hold: "vectors_hold st vectors logs" and logs: "logs = on_disk_below flush_lsn (committed_deletion_log st)" by auto
  have wf: "fm_wf vectors" using hold by (simp add: vectors_hold_def)
  have count: "length vectors \<le> card logs" using vectors_hold_count[OF hold] logs on_disk_below_finite by blast
  have rows: "deleted_rows v = {row. (file_id f, row) \<in> logs} \<and> deleted_rows v \<noteq> {}" if "(f, v) \<in> snd ` set vectors" for f v
    using that hold fm_get_in_set[OF wf, of f v] unfolding vectors_hold_def fm_get_def by (metis option.simps(9) snd_conv)
  have sub: "(fid, row) \<in> logs \<Longrightarrow> fid \<in> (file_id \<circ> fst \<circ> snd) ` set vectors" for fid row
  proof -
    assume "(fid, row) \<in> logs"
    then obtain f v where "map_of vectors fid = Some (f, v)"
      using hold unfolding vectors_hold_def fm_get_def by fastforce
    then show ?thesis using wf by (force simp: fm_wf_def dest: map_of_SomeD)
  qed
  have files: "fst ` logs = (file_id \<circ> fst) ` snd ` set vectors"
    using sub rows by (fastforce simp: image_iff)
  obtain kept where "keep_after_persistence st logs (committed_deletion_log st) = Ok kept" "st' = st\<lparr>committed_deletion_log := kept\<rparr>"
    using pruned reported c by (auto simp: prune_committed_deletion_logs_def)
  then have kept: "committed_deletion_log st' = filter (\<lambda>d. \<forall>fid row. pd_pos d = DiskFile fid row \<longrightarrow>
      (fid, row) \<notin> logs \<or> fid \<in> compacting_data_files st) (committed_deletion_log st)"
    using keep_after_persistence_spec by simp
  have all: "\<forall>(f, v) \<in> set (map snd vectors). deleted_rows v = {row. (file_id f, row) \<in> logs} \<and> deleted_rows v \<noteq> {}"
    using rows by (simp only: set_map) blast
  show ?thesis using kept files all count unfolding logs[symmetric] c validate_deletions_to_persist_def by simp
qed

definition demo_deletions :: "(plain_batch, single_primitive_key list, key_with_identity list, (u64 \<times> record_location) list) snapshot_table_state" where
  "demo_deletions = demo_files\<lparr>current_snapshot := (current_snapshot demo_files)\<lparr>snapshot_version := 9\<rparr>,
     committed_deletion_log := [\<lparr>pd_pos = DiskFile (FileId 7) 1, pd_lsn = 3\<rparr>, \<lparr>pd_pos = DiskFile (FileId 8) 0, pd_lsn = 6\<rparr>]\<rparr>"

theorem deletions_persisted_exactly_witness:
  "\<exists>c st'. aggregate_committed_deletion_logs plain_arrow demo_deletions 5 = Ok c
    \<and> cdp_committed_deletion_logs c = {(FileId 7, 1)}
    \<and> (\<forall>(f, v) \<in> set (cdp_new_deletions_to_persist c). deleted_rows v = {row. (file_id f, row) \<in> {(FileId 7, 1)}})
    \<and> prune_committed_deletion_logs ((demo_deletion_task 9 [])\<lparr>st_persisted_records :=
        empty_persisted_records\<lparr>pr_flush_lsn := Some 5\<rparr>, st_committed_deletion_logs := {(FileId 7, 1)}\<rparr>) demo_deletions = Ok st'
    \<and> committed_deletion_log st' = [\<lparr>pd_pos = DiskFile (FileId 8) 0, pd_lsn = 6\<rparr>]"
proof -
  let ?task = "(demo_deletion_task 9 [])\<lparr>st_persisted_records :=
        empty_persisted_records\<lparr>pr_flush_lsn := Some 5\<rparr>, st_committed_deletion_logs := {(FileId 7, 1)}\<rparr>"
  have bits: "arrow_bits_ok plain_arrow" by (rule batch_ops_okD(2)[OF plain_batch_ops_ok])
  obtain v where v: "delete_row plain_arrow (new_deletion_vector 2) 1 = Ok (True, v)"
    using fresh_vector_delete[OF bits, of 1 2] by auto
  let ?c = "\<lparr>cdp_committed_deletion_logs = {(FileId 7, 1)},
      cdp_new_deletions_to_persist = [(\<lparr>file_id = FileId 7, file_path = ''f''\<rparr>, v)]\<rparr>"
  have c: "aggregate_committed_deletion_logs plain_arrow demo_deletions 5 = Ok ?c"
    using v by (simp add: aggregate_committed_deletion_logs_def demo_deletions_def demo_files_def fm_get_def fm_insert_def
        new_disk_file_entry_def get_max_rows_def new_deletion_vector_def)
  have wf: "fm_wf (sts_disk_files demo_deletions)"
    by (simp add: fm_wf_def demo_deletions_def demo_files_def)
  obtain st' where st': "prune_committed_deletion_logs ?task demo_deletions = Ok st'"
    by (auto simp: prune_committed_deletion_logs_def demo_deletions_def)
  have below: "on_disk_below 5 (committed_deletion_log demo_deletions) = {(FileId 7, 1)}"
    by (auto simp: on_disk_below_def demo_deletions_def)
  from deletions_persisted_exactly[OF bits wf c _ _ st'] c st'
  show ?thesis unfolding below by (auto simp: demo_deletions_def demo_files_def demo_state_def)
qed

end
