(* ===== verification/Snapshot_Update.thy ===== *)
theory Snapshot_Update
  imports Transaction_Stream Snapshot_Maintenance
begin

text \<open>
  Updating the mooncake snapshot (\<^verbatim>\<open>snapshot.rs\<close>, \<^verbatim>\<open>snapshot_persistence.rs\<close>, \<^verbatim>\<open>snapshot_cache_utils.rs\<close>,
  \<^verbatim>\<open>snapshot_validation.rs\<close> and \<^verbatim>\<open>index/cache_utils.rs\<close>): a snapshot task reflects what was persisted,
  imports new file indices into the cache, applies the results of index merge and compaction, the
  streaming transactions and the flushed disk slices, processes the deletion log, and decides
  what to persist, to compact and to merge next. Every step is a definition, and \<open>update_snapshot\<close> runs
  them in the order of the code.

  The object storage cache is passed through; the calls of other holders of the cache between
  two steps are the subject of the theory of the cache. Hash maps and sets are lists whose order stands for
  the order of iteration. Whether a file exists, which the consistency checks ask, is a parameter.
\<close>

section \<open>Loops over cache handles\<close>

text \<open>Applies a cache operation to each element of a list and collects the new elements and the evicted files.\<close>

fun cache_map ::
  "('a \<Rightarrow> 'c \<Rightarrow> ('a \<times> string list \<times> 'c) res) \<Rightarrow> 'a list \<Rightarrow> 'c \<Rightarrow> ('a list \<times> string list \<times> 'c) res" where
  "cache_map f [] c = Ok ([], [], c)"
| "cache_map f (x # xs) c = res_bind (f x c) (\<lambda>(y, evicted, c).
     res_bind (cache_map f xs c) (\<lambda>(ys, more, c). Ok (y # ys, evicted @ more, c)))"

definition drop_handle ::
  "'l lru_ops \<Rightarrow> non_evictable_handle \<Rightarrow> string list \<times> 'l object_storage_cache \<Rightarrow>
   (string list \<times> 'l object_storage_cache) res" where
  "drop_handle lru h acc = (case acc of (evicted, c) \<Rightarrow>
     res_bind (unreference_and_delete lru c h) (\<lambda>(cur, c). Ok (evicted @ cur, c)))"

section \<open>File indices in the cache\<close>

definition import_index_block ::
  "'l lru_ops \<Rightarrow> table_id \<Rightarrow> index_block \<Rightarrow> 'l object_storage_cache \<Rightarrow>
   (index_block \<times> string list \<times> 'l object_storage_cache) res" where
  "import_index_block lru tid b c =
     res_bind (import_cache_entry lru c \<lparr>tuf_table_id = tid, tuf_file_id = file_id (index_file b)\<rparr>
         \<lparr>cache_filepath = file_path (index_file b), file_size = index_file_size b\<rparr>) (\<lambda>(h, evicted, c).
     Ok (b\<lparr>index_cache_handle := Some h\<rparr>, evicted, c))"

definition import_file_index_to_cache ::
  "'l lru_ops \<Rightarrow> table_id \<Rightarrow> global_index \<Rightarrow> 'l object_storage_cache \<Rightarrow>
   (global_index \<times> string list \<times> 'l object_storage_cache) res" where
  "import_file_index_to_cache lru tid i c =
     res_bind (cache_map (import_index_block lru tid) (gi_index_blocks i) c) (\<lambda>(bs, evicted, c).
     Ok (i\<lparr>gi_index_blocks := bs\<rparr>, evicted, c))"

definition import_file_indices_to_cache ::
  "'l lru_ops \<Rightarrow> table_id \<Rightarrow> global_index list \<Rightarrow> 'l object_storage_cache \<Rightarrow>
   (global_index list \<times> string list \<times> 'l object_storage_cache) res" where
  "import_file_indices_to_cache lru tid is c = cache_map (import_file_index_to_cache lru tid) is c"

definition delete_index_block ::
  "'l lru_ops \<Rightarrow> string list \<times> 'l object_storage_cache \<Rightarrow> index_block \<Rightarrow> (string list \<times> 'l object_storage_cache) res" where
  "delete_index_block lru acc b = unwrap (index_cache_handle b) (\<lambda>h. drop_handle lru h acc)"

definition unreference_and_delete_file_index_from_cache ::
  "'l lru_ops \<Rightarrow> string list \<times> 'l object_storage_cache \<Rightarrow> global_index \<Rightarrow> (string list \<times> 'l object_storage_cache) res" where
  "unreference_and_delete_file_index_from_cache lru acc i =
     res_fold (\<lambda>acc b. check (index_cache_handle b \<noteq> None) AssertFailed (delete_index_block lru acc b)) acc (gi_index_blocks i)"

definition slice_import_file_indices_to_cache ::
  "'l lru_ops \<Rightarrow> table_id \<Rightarrow> ('b, 's, 'k, 'm) disk_slice_writer \<Rightarrow> 'l object_storage_cache \<Rightarrow>
   (('b, 's, 'k, 'm) disk_slice_writer \<times> string list \<times> 'l object_storage_cache) res" where
  "slice_import_file_indices_to_cache lru tid w c = (case ds_new_index w of
       None \<Rightarrow> Ok (w, [], c)
     | Some i \<Rightarrow> res_bind (import_file_index_to_cache lru tid i c) (\<lambda>(i, evicted, c).
         Ok (w\<lparr>ds_new_index := Some i\<rparr>, evicted, c)))"

definition import_file_index_into_cache ::
  "'l lru_ops \<Rightarrow> table_id \<Rightarrow> ('s, 'k, 'm) transaction_stream_commit \<Rightarrow> 'l object_storage_cache \<Rightarrow>
   (('s, 'k, 'm) transaction_stream_commit \<times> string list \<times> 'l object_storage_cache) res" where
  "import_file_index_into_cache lru tid commit c =
     res_bind (import_file_indices_to_cache lru tid (file_indices (tsc_flushed_file_index commit)) c) (\<lambda>(is, evicted, c).
     Ok (commit\<lparr>tsc_flushed_file_index := (tsc_flushed_file_index commit)\<lparr>file_indices := is\<rparr>\<rparr>, evicted, c))"

definition stream_import_file_index ::
  "'l lru_ops \<Rightarrow> table_id \<Rightarrow> ('s, 'k, 'm) transaction_stream_output \<Rightarrow> 'l object_storage_cache \<Rightarrow>
   (('s, 'k, 'm) transaction_stream_output \<times> string list \<times> 'l object_storage_cache) res" where
  "stream_import_file_index lru tid out c = (case out of
       StreamAborted x \<Rightarrow> Ok (out, [], c)
     | StreamCommitted commit \<Rightarrow> res_bind (import_file_index_into_cache lru tid commit c) (\<lambda>(commit, evicted, c).
         Ok (StreamCommitted commit, evicted, c)))"

definition import_file_indices_into_cache ::
  "'l lru_ops \<Rightarrow> ('b, 's, 'k, 'm) snapshot_table_state \<Rightarrow> ('b, 's, 'k, 'm) snapshot_task \<Rightarrow> 'l object_storage_cache \<Rightarrow>
   (('b, 's, 'k, 'm) snapshot_task \<times> string list \<times> 'l object_storage_cache) res" where
  "import_file_indices_into_cache lru st task c =
     (let tid = TableId (md_table_id (sts_metadata st));
          merge = st_index_merge_result task;
          compaction = st_data_compaction_result task
      in res_bind (cache_map (slice_import_file_indices_to_cache lru tid) (new_disk_slices task) c) (\<lambda>(slices, e1, c).
         res_bind (cache_map (stream_import_file_index lru tid) (new_streaming_xact task) c) (\<lambda>(streams, e2, c).
         res_bind (import_file_indices_to_cache lru tid (fmr_new_file_indices merge) c) (\<lambda>(merged, e3, c).
         res_bind (import_file_indices_to_cache lru tid (dcr_new_file_indices compaction) c) (\<lambda>(compacted, e4, c).
         Ok (task\<lparr>new_disk_slices := slices, new_streaming_xact := streams,
               st_index_merge_result := merge\<lparr>fmr_new_file_indices := merged\<rparr>,
               st_data_compaction_result := compaction\<lparr>dcr_new_file_indices := compacted\<rparr>\<rparr>,
             e1 @ e2 @ e3 @ e4, c))))))"

text \<open>When the table is dropped, every handle of the snapshot is released and its file deleted.\<close>

definition drop_entry_handles ::
  "'l lru_ops \<Rightarrow> string list \<times> 'l object_storage_cache \<Rightarrow> file_id \<times> mooncake_data_file \<times> disk_file_entry \<Rightarrow>
   (string list \<times> 'l object_storage_cache) res" where
  "drop_entry_handles lru acc e = (case e of (_, _, entry) \<Rightarrow>
     res_bind (case df_cache_handle entry of None \<Rightarrow> Ok acc | Some h \<Rightarrow> drop_handle lru h acc) (\<lambda>acc.
     case puffin_deletion_blob entry of None \<Rightarrow> Ok acc | Some b \<Rightarrow> drop_handle lru (puffin_file_cache_handle b) acc))"

definition unreference_and_delete_all_cache_handles ::
  "'l lru_ops \<Rightarrow> ('b, 's, 'k, 'm) snapshot_table_state \<Rightarrow> 'l object_storage_cache \<Rightarrow>
   (string list \<times> 'l object_storage_cache) res" where
  "unreference_and_delete_all_cache_handles lru st c =
     res_bind (res_fold (drop_entry_handles lru) ([], c) (sts_disk_files st)) (\<lambda>acc.
     res_fold (delete_index_block lru) acc (concat (map gi_index_blocks (file_indices (snap_indices (current_snapshot st))))))"

section \<open>Reflecting a persistence\<close>

definition create_iceberg_snapshot_by_committed_logs :: "('b, 's, 'k, 'm) snapshot_table_state \<Rightarrow> bool \<Rightarrow> bool" where
  "create_iceberg_snapshot_by_committed_logs st force =
     (let threshold = (if \<not> force then pc_new_committed_deletion_log (persistence_config (md_config (sts_metadata st))) else 1)
      in length (committed_deletion_log st) \<ge> threshold)"

text \<open>The entry of a persisted file is removed and inserted again under the file with the remote path.\<close>

definition persist_data_file ::
  "'l lru_ops \<Rightarrow> (string \<Rightarrow> bool) \<Rightarrow> disk_file_entry file_map \<times> string list \<times> 'l object_storage_cache \<Rightarrow>
   mooncake_data_file \<Rightarrow> (disk_file_entry file_map \<times> string list \<times> 'l object_storage_cache) res" where
  "persist_data_file lru is_local acc f = (case acc of (files, evicted, c) \<Rightarrow>
     unwrap (fm_get files (file_id f)) (\<lambda>entry.
     unwrap (df_cache_handle entry) (\<lambda>h.
     res_bind (unreference_and_replace_with_remote lru is_local c h (file_path f)) (\<lambda>(cur, c).
     Ok (fm_insert f (entry\<lparr>df_cache_handle := None\<rparr>) (AList.delete (file_id f) files), evicted @ cur, c)))))"

definition update_data_files_to_persisted ::
  "'l lru_ops \<Rightarrow> (string \<Rightarrow> bool) \<Rightarrow> mooncake_data_file list \<Rightarrow> disk_file_entry file_map \<Rightarrow> 'l object_storage_cache \<Rightarrow>
   (disk_file_entry file_map \<times> string list \<times> 'l object_storage_cache) res" where
  "update_data_files_to_persisted lru is_local fs files c = res_fold (persist_data_file lru is_local) (files, [], c) fs"

definition persist_index_block ::
  "(string \<Rightarrow> bool) \<Rightarrow> index_block \<Rightarrow> 'l object_storage_cache \<Rightarrow> (index_block \<times> string list \<times> 'l object_storage_cache) res" where
  "persist_index_block is_local b c =
     unwrap (index_cache_handle b) (\<lambda>h.
     res_bind (replace_with_remote is_local c h (file_path (index_file b))) (\<lambda>(evicted, h, c).
     Ok (b\<lparr>index_cache_handle := Some h,
           index_file := \<lparr>file_id = file_id (index_file b), file_path = cache_filepath (handle_cache_entry h)\<rparr>\<rparr>, evicted, c)))"

definition persist_file_index ::
  "(string \<Rightarrow> bool) \<Rightarrow> global_index \<Rightarrow> 'l object_storage_cache \<Rightarrow> (global_index \<times> string list \<times> 'l object_storage_cache) res" where
  "persist_file_index is_local i c =
     res_bind (cache_map (persist_index_block is_local) (gi_index_blocks i) c) (\<lambda>(bs, evicted, c).
     Ok (i\<lparr>gi_index_blocks := bs\<rparr>, evicted, c))"

definition update_file_indices_to_persisted ::
  "(string \<Rightarrow> bool) \<Rightarrow> global_index list \<Rightarrow> file_id set \<Rightarrow> global_index list \<Rightarrow> 'l object_storage_cache \<Rightarrow>
   (global_index list \<times> string list \<times> 'l object_storage_cache) res" where
  "update_file_indices_to_persisted is_local persisted updated_ids indices c =
     (if persisted = [] \<and> updated_ids = {} then Ok (indices, [], c)
      else let kept = filter (\<lambda>i. \<not> list_ex (\<lambda>f. file_id f \<in> updated_ids) (gi_files i)) indices
        in res_bind (cache_map (persist_file_index is_local) persisted c) (\<lambda>(persisted, evicted, c).
           Ok (kept @ persisted, evicted, c)))"

definition persist_deletion_vector ::
  "'l lru_ops \<Rightarrow> disk_file_entry file_map \<times> string list \<times> 'l object_storage_cache \<Rightarrow> file_id \<times> puffin_blob_ref \<Rightarrow>
   (disk_file_entry file_map \<times> string list \<times> 'l object_storage_cache) res" where
  "persist_deletion_vector lru acc p = (case (acc, p) of ((files, evicted, c), (fid, blob)) \<Rightarrow>
     (case fm_get files fid of
        Some entry \<Rightarrow>
          res_bind (case puffin_deletion_blob entry of
              None \<Rightarrow> Ok (evicted, c)
            | Some old \<Rightarrow> drop_handle lru (puffin_file_cache_handle old) (evicted, c)) (\<lambda>(evicted, c).
          Ok (fm_set fid (entry\<lparr>puffin_deletion_blob := Some blob\<rparr>) files, evicted, c))
      | None \<Rightarrow> res_bind (drop_handle lru (puffin_file_cache_handle blob) (evicted, c)) (\<lambda>(evicted, c).
          Ok (files, evicted, c))))"

definition update_deletion_vector_to_persisted ::
  "'l lru_ops \<Rightarrow> (file_id \<times> puffin_blob_ref) list \<Rightarrow> disk_file_entry file_map \<Rightarrow> 'l object_storage_cache \<Rightarrow>
   (disk_file_entry file_map \<times> string list \<times> 'l object_storage_cache) res" where
  "update_deletion_vector_to_persisted lru blobs files c = res_fold (persist_deletion_vector lru) (files, [], c) blobs"

definition update_snapshot_by_iceberg_snapshot ::
  "'l lru_ops \<Rightarrow> (string \<Rightarrow> bool) \<Rightarrow> ('b, 's, 'k, 'm) snapshot_task \<Rightarrow> ('b, 's, 'k, 'm) snapshot_table_state \<Rightarrow> 'l object_storage_cache \<Rightarrow>
   (('b, 's, 'k, 'm) snapshot_table_state \<times> string list \<times> 'l object_storage_cache) res" where
  "update_snapshot_by_iceberg_snapshot lru is_local task st c =
     (let pr = st_persisted_records task;
          (updated_ids, persisted_indices) = get_file_indices_to_reflect_persistence pr;
          snap = current_snapshot st;
          indices = file_indices (snap_indices snap)
      in res_bind (update_data_files_to_persisted lru is_local (get_data_files_to_reflect_persistence pr) (disk_files snap) c)
           (\<lambda>(files, e1, c).
         res_bind (update_file_indices_to_persisted is_local persisted_indices updated_ids indices c) (\<lambda>(indices', e2, c).
         res_bind (update_deletion_vector_to_persisted lru (res_puffin_blob_ref (pr_import_result pr)) files c) (\<lambda>(files, e3, c).
         check (length (disk_files snap) = length files) AssertFailed (
         check (length indices = length indices') AssertFailed (
         Ok (st\<lparr>current_snapshot := snap\<lparr>disk_files := files, snap_indices := (snap_indices snap)\<lparr>file_indices := indices'\<rparr>\<rparr>\<rparr>,
             e1 @ e2 @ e3, c)))))))"

section \<open>Reflecting index merge and compaction\<close>

text \<open>Each index of the snapshot that is among the old ones is dropped and struck off the set of old ones.\<close>

fun drop_old_indices :: "global_index list \<Rightarrow> global_index list \<Rightarrow> global_index list \<times> global_index list" where
  "drop_old_indices old [] = (old, [])"
| "drop_old_indices old (i # is) =
     (if index_files i \<in> index_files ` set old
      then drop_old_indices (filter (\<lambda>j. index_files j \<noteq> index_files i) old) is
      else let (old, kept) = drop_old_indices old is in (old, i # kept))"

definition update_file_indices_to_mooncake_snapshot_impl ::
  "'l lru_ops \<Rightarrow> global_index list \<Rightarrow> global_index list \<Rightarrow> ('b, 's, 'k, 'm) snapshot_table_state \<Rightarrow> 'l object_storage_cache \<Rightarrow>
   (('b, 's, 'k, 'm) snapshot_table_state \<times> string list \<times> 'l object_storage_cache) res" where
  "update_file_indices_to_mooncake_snapshot_impl lru old new st c =
     (if old = [] then check (new = []) AssertFailed (Ok (st, [], c))
      else res_bind (res_fold (unreference_and_delete_file_index_from_cache lru) ([], c) old) (\<lambda>(evicted, c).
        let snap = current_snapshot st; indices = file_indices (snap_indices snap)
        in check (length old \<le> length indices) AssertFailed (
           let (left, kept) = drop_old_indices old indices
           in check (left = []) AssertFailed (
              Ok (st\<lparr>current_snapshot := snap\<lparr>snap_indices := (snap_indices snap)\<lparr>file_indices := kept @ new\<rparr>\<rparr>\<rparr>, evicted, c)))))"

definition import_compacted_file ::
  "'l lru_ops \<Rightarrow> ('b, 's, 'k, 'm) snapshot_table_state \<Rightarrow> disk_file_entry file_map \<times> string list \<times> 'l object_storage_cache \<Rightarrow>
   mooncake_data_file \<times> compacted_data_entry \<Rightarrow> (disk_file_entry file_map \<times> string list \<times> 'l object_storage_cache) res" where
  "import_compacted_file lru st acc p = (case (acc, p) of ((files, evicted, c), (f, e)) \<Rightarrow>
     check (entry_file_size e > 0) AssertFailed (
     res_bind (import_cache_entry lru c (get_table_unique_file_id st (file_id f))
         \<lparr>cache_filepath = file_path f, file_size = entry_file_size e\<rparr>) (\<lambda>(h, cur, c).
     Ok (fm_insert f (new_disk_file_entry (entry_num_rows e) (entry_file_size e) (Some h)) files, evicted @ cur, c))))"

text \<open>A deleted row of an old file that the compaction kept is deleted at its new place.\<close>

definition carry_deletion ::
  "'z arrow_bits_scheme \<Rightarrow> record_remap \<Rightarrow> file_id \<Rightarrow> disk_file_entry file_map \<Rightarrow> nat \<Rightarrow> disk_file_entry file_map res" where
  "carry_deletion ar remap fid files row = (case map_of remap (DiskFile fid row) of
       None \<Rightarrow> Ok files
     | Some l \<Rightarrow> unwrap (fm_get files (file_id (new_data_file l))) (\<lambda>entry.
         res_bind (delete_row ar (committed_deletion_vector entry) (get_row_idx (remapped_location l))) (\<lambda>(r, v).
         check r AssertFailed (
         Ok (fm_set (file_id (new_data_file l)) (entry\<lparr>committed_deletion_vector := v\<rparr>) files)))))"

definition remove_compacted_file ::
  "'z arrow_bits_scheme \<Rightarrow> 'l lru_ops \<Rightarrow> ('b, 's, 'k, 'm) snapshot_table_state \<Rightarrow> record_remap \<Rightarrow>
   disk_file_entry file_map \<times> string list \<times> 'l object_storage_cache \<Rightarrow> mooncake_data_file \<Rightarrow>
   (disk_file_entry file_map \<times> string list \<times> 'l object_storage_cache) res" where
  "remove_compacted_file ar lru st remap acc f = (case acc of (files, evicted, c) \<Rightarrow>
     check (fm_get files (file_id f) \<noteq> None) AssertFailed (
     unwrap (fm_get files (file_id f)) (\<lambda>old.
     let files = AList.delete (file_id f) files
     in res_bind (case df_cache_handle old of
            Some h \<Rightarrow> unreference_and_delete lru c h
          | None \<Rightarrow> try_delete_cache_entry lru c (get_table_unique_file_id st (file_id f))) (\<lambda>(cur, c).
        if deletion_vector_is_empty (committed_deletion_vector old) then
          check (puffin_deletion_blob old = None) AssertFailed (Ok (files, evicted @ cur, c))
        else res_bind (case puffin_deletion_blob old of
              None \<Rightarrow> Ok (evicted @ cur, c)
            | Some b \<Rightarrow> drop_handle lru (puffin_file_cache_handle b) (evicted @ cur, c)) (\<lambda>(evicted, c).
          res_bind (res_fold (carry_deletion ar remap (file_id f)) files (collect_deleted_rows (committed_deletion_vector old)))
            (\<lambda>files. Ok (files, evicted, c)))))))"

definition update_data_files_to_mooncake_snapshot_impl ::
  "'z arrow_bits_scheme \<Rightarrow> 'l lru_ops \<Rightarrow> mooncake_data_file list \<Rightarrow> (mooncake_data_file \<times> compacted_data_entry) list \<Rightarrow> record_remap \<Rightarrow>
   ('b, 's, 'k, 'm) snapshot_table_state \<Rightarrow> 'l object_storage_cache \<Rightarrow>
   (('b, 's, 'k, 'm) snapshot_table_state \<times> string list \<times> 'l object_storage_cache) res" where
  "update_data_files_to_mooncake_snapshot_impl ar lru old new remap st c =
     (if old = [] then check (new = []) AssertFailed (check (remap = []) AssertFailed (Ok (st, [], c)))
      else check (length (sts_disk_files st) \<ge> length old) AssertFailed (
        res_bind (res_fold (import_compacted_file lru st) (sts_disk_files st, [], c) new) (\<lambda>acc.
        res_bind (res_fold (remove_compacted_file ar lru st remap) acc old) (\<lambda>(files, evicted, c).
        Ok (st\<lparr>current_snapshot := (current_snapshot st)\<lparr>disk_files := files\<rparr>\<rparr>, evicted, c)))))"

definition update_data_compaction_to_mooncake_snapshot ::
  "'z arrow_bits_scheme \<Rightarrow> 'l lru_ops \<Rightarrow> ('b, 's, 'k, 'm) snapshot_task \<Rightarrow> ('b, 's, 'k, 'm) snapshot_table_state \<Rightarrow> 'l object_storage_cache \<Rightarrow>
   (('b, 's, 'k, 'm) snapshot_table_state \<times> string list \<times> 'l object_storage_cache) res" where
  "update_data_compaction_to_mooncake_snapshot ar lru task st c =
     (let r = st_data_compaction_result task
      in res_bind (compaction_result_is_empty r) (\<lambda>empty.
         if empty then Ok (st, [], c)
         else res_bind (update_data_files_to_mooncake_snapshot_impl ar lru (dcr_old_data_files r) (dcr_new_data_files r)
             (dcr_remapped_data_files r) st c) (\<lambda>(st, e1, c).
           res_bind (update_file_indices_to_mooncake_snapshot_impl lru (dcr_old_file_indices r) (dcr_new_file_indices r) st c)
             (\<lambda>(st, e2, c). Ok (st, e1 @ e2 @ dcr_evicted_files_to_delete r, c)))))"

definition update_file_indices_merge_to_mooncake_snapshot ::
  "'l lru_ops \<Rightarrow> ('b, 's, 'k, 'm) snapshot_task \<Rightarrow> ('b, 's, 'k, 'm) snapshot_table_state \<Rightarrow> 'l object_storage_cache \<Rightarrow>
   (('b, 's, 'k, 'm) snapshot_table_state \<times> string list \<times> 'l object_storage_cache) res" where
  "update_file_indices_merge_to_mooncake_snapshot lru task st c =
     update_file_indices_to_mooncake_snapshot_impl lru (fmr_old_file_indices (st_index_merge_result task))
       (fmr_new_file_indices (st_index_merge_result task)) st c"

section \<open>Batches and disk slices\<close>

definition merge_mem_indices ::
  "('b, 's, 'k, 'm) snapshot_task \<Rightarrow> ('b, 's, 'k, 'm) snapshot_table_state \<Rightarrow> ('b, 's, 'k, 'm) snapshot_table_state" where
  "merge_mem_indices task st = st\<lparr>current_snapshot := (current_snapshot st)\<lparr>
     snap_indices := fold insert_memory_index (new_mem_indices task) (snap_indices (current_snapshot st))\<rparr>\<rparr>"

definition add_batch :: "u64 \<Rightarrow> 'b in_memory_batch \<Rightarrow> 'b batch_map \<Rightarrow> 'b batch_map res" where
  "add_batch i b m = check (map_of m i = None) AssertFailed (Ok (bt_insert i b m))"

definition close_open_batch ::
  "nat \<Rightarrow> 'b record_batch_with_deletion_vector list \<Rightarrow> 'b batch_map \<Rightarrow>
   ('b record_batch_with_deletion_vector list \<times> 'b batch_map) res" where
  "close_open_batch capacity batches m = (case batches of
       [] \<Rightarrow> Ok ([], m)
     | b # rest \<Rightarrow>
         check (m \<noteq> []) UnwrapNone (
         let (k, current) = last m
         in check (batch_data current = None) AssertFailed (
            res_bind (checked_add (rb_batch_id (last batches)) 1) (\<lambda>next_id.
            res_bind (add_batch next_id (new_in_memory_batch capacity)
                (butlast m @ [(k, current\<lparr>batch_data := Some (rb_record_batch b)\<rparr>)])) (\<lambda>m.
            Ok (rest, m))))))"

definition finalize_batches ::
  "('b, 'z) arrow_batches_scheme \<Rightarrow> ('b, 's, 'k, 'm) snapshot_task \<Rightarrow> ('b, 's, 'k, 'm) snapshot_table_state \<Rightarrow>
   ('b, 's, 'k, 'm) snapshot_table_state res" where
  "finalize_batches ops task st =
     (let incoming = new_record_batches task;
          streaming = filter (\<lambda>b. rb_batch_id b < push_bit 63 1) incoming;
          regular = filter (\<lambda>b. \<not> rb_batch_id b < push_bit 63 1) incoming
      in res_bind (close_open_batch (batch_size (md_config (snap_metadata (current_snapshot st)))) regular (sts_batches st))
           (\<lambda>(regular, m).
         res_bind (res_fold (\<lambda>m b. add_batch (rb_batch_id b)
             \<lparr>batch_data = Some (rb_record_batch b), deletions = (case rb_deletion_vector b of
                Some dv \<Rightarrow> dv | None \<Rightarrow> new_deletion_vector (num_rows ops (rb_record_batch b)))\<rparr> m) m (streaming @ regular))
           (\<lambda>m. Ok (st\<lparr>sts_batches := m\<rparr>))))"

definition register_slice_file ::
  "'l lru_ops \<Rightarrow> ('b, 's, 'k, 'm) snapshot_table_state \<Rightarrow> lsn \<Rightarrow>
   (file_id \<rightharpoonup> lsn) \<times> disk_file_entry file_map \<times> string list \<times> 'l object_storage_cache \<Rightarrow>
   mooncake_data_file \<times> disk_file_attrs \<Rightarrow>
   ((file_id \<rightharpoonup> lsn) \<times> disk_file_entry file_map \<times> string list \<times> 'l object_storage_cache) res" where
  "register_slice_file lru st write_lsn acc p = (case (acc, p) of ((lsns, files, evicted, c), (f, attrs)) \<Rightarrow>
     check (attrs_file_size attrs > 0) AssertFailed (
     check (lsns (file_id f) = None) AssertFailed (
     res_bind (import_cache_entry lru c (get_table_unique_file_id st (file_id f))
         \<lparr>cache_filepath = file_path f, file_size = attrs_file_size attrs\<rparr>) (\<lambda>(h, cur, c).
     check (fm_get files (file_id f) = None) AssertFailed (
     Ok (lsns(file_id f \<mapsto> write_lsn),
         fm_insert f (new_disk_file_entry (attrs_row_num attrs) (attrs_file_size attrs) (Some h)) files, evicted @ cur, c))))))"

text \<open>A committed deletion in a flushed batch moves to the file, where its row is deleted.\<close>

fun remap_committed_to_disk ::
  "'z arrow_bits_scheme \<Rightarrow> ('b, 's, 'k, 'm) disk_slice_writer \<Rightarrow> processed_deletion_record list \<Rightarrow> disk_file_entry file_map \<Rightarrow>
   (processed_deletion_record list \<times> disk_file_entry file_map) res" where
  "remap_committed_to_disk ar w [] files = Ok ([], files)"
| "remap_committed_to_disk ar w (d # ds) files =
     res_bind (remap_deletion_if_needed w d) (\<lambda>(loc, d).
     res_bind (case loc of
         Some (DiskFile fid row) \<Rightarrow>
           (case fm_get files fid of
              Some entry \<Rightarrow>
                res_bind (delete_row ar (committed_deletion_vector entry) row) (\<lambda>(r, v).
                check r AssertFailed (Ok (fm_set fid (entry\<lparr>committed_deletion_vector := v\<rparr>) files)))
            | None \<Rightarrow> Ok files)
       | _ \<Rightarrow> Ok files) (\<lambda>files.
     res_bind (remap_committed_to_disk ar w ds files) (\<lambda>(ds, files). Ok (d # ds, files))))"

definition remap_uncommitted_to_disk ::
  "('b, 's, 'k, 'm) disk_slice_writer \<Rightarrow> processed_deletion_record option list \<Rightarrow> processed_deletion_record option list res" where
  "remap_uncommitted_to_disk w = res_map (\<lambda>entry. case entry of
       None \<Rightarrow> Ok None
     | Some d \<Rightarrow> res_bind (remap_deletion_if_needed w d) (\<lambda>(_, d). Ok (Some d)))"

definition remove_flushed_batch :: "'b batch_map \<Rightarrow> 'b batch_entry \<Rightarrow> 'b batch_map res" where
  "remove_flushed_batch m b = check (map_of m (be_id b) \<noteq> None) AssertFailed (Ok (AList.delete (be_id b) m))"

definition integrate_disk_slice ::
  "'z arrow_bits_scheme \<Rightarrow> 'l lru_ops \<Rightarrow>
   ('b, 's, 'k, 'm) snapshot_task \<times> ('b, 's, 'k, 'm) snapshot_table_state \<times> string list \<times> 'l object_storage_cache \<Rightarrow>
   ('b, 's, 'k, 'm) disk_slice_writer \<Rightarrow>
   (('b, 's, 'k, 'm) snapshot_task \<times> ('b, 's, 'k, 'm) snapshot_table_state \<times> string list \<times> 'l object_storage_cache) res" where
  "integrate_disk_slice ar lru acc w = (case acc of (task, st, evicted, c) \<Rightarrow>
     unwrap (writer_lsn w) (\<lambda>write_lsn.
     res_bind (res_fold (register_slice_file lru st write_lsn)
         (new_disk_file_lsn_map task, sts_disk_files st, evicted, c) (ds_files w)) (\<lambda>(lsns, files, evicted, c).
     res_bind (remap_committed_to_disk ar w (committed_deletion_log st) files) (\<lambda>(committed, files).
     res_bind (remap_uncommitted_to_disk w (uncommitted_deletion_log st)) (\<lambda>uncommitted.
     let (index, w) = take_index w;
         ix = snap_indices (current_snapshot st);
         ix = (case index of Some i \<Rightarrow> insert_file_index i ix | None \<Rightarrow> ix);
         ix = delete_memory_index (ds_old_index w) ix
     in res_bind (res_fold remove_flushed_batch (sts_batches st) (ds_batches w)) (\<lambda>batches.
        Ok (task\<lparr>new_disk_file_lsn_map := lsns\<rparr>,
            st\<lparr>current_snapshot := (current_snapshot st)\<lparr>disk_files := files, snap_indices := ix\<rparr>, sts_batches := batches,
               committed_deletion_log := committed, uncommitted_deletion_log := uncommitted\<rparr>, evicted, c)))))))"

definition integrate_disk_slices ::
  "'z arrow_bits_scheme \<Rightarrow> 'l lru_ops \<Rightarrow> ('b, 's, 'k, 'm) snapshot_task \<Rightarrow> ('b, 's, 'k, 'm) snapshot_table_state \<Rightarrow> 'l object_storage_cache \<Rightarrow>
   (('b, 's, 'k, 'm) snapshot_task \<times> ('b, 's, 'k, 'm) snapshot_table_state \<times> string list \<times> 'l object_storage_cache) res" where
  "integrate_disk_slices ar lru task st c =
     res_fold (integrate_disk_slice ar lru) (task\<lparr>new_disk_slices := []\<rparr>, st, [], c) (new_disk_slices task)"

section \<open>Checks\<close>

definition validate_mooncake_table_invariants ::
  "('b, 's, 'k, 'm) snapshot_task \<Rightarrow> snapshot_option \<Rightarrow> ('b, 's, 'k, 'm) snapshot_table_state \<Rightarrow> unit res" where
  "validate_mooncake_table_invariants task opt st =
     (case (new_flush_lsn task, snap_flush_lsn (current_snapshot st)) of
        (Some new, Some cur) \<Rightarrow>
          if force_create opt then
            check (cur \<le> new) AssertFailed (
            check (commit_lsn_baseline task = 0 \<or> commit_lsn_baseline task \<ge> new
                \<or> commit_lsn_baseline task = prev_commit_lsn_baseline task) AssertFailed (Ok ()))
          else check (cur < new) AssertFailed (check (commit_lsn_baseline task \<ge> new) AssertFailed (Ok ()))
      | _ \<Rightarrow> Ok ())"

definition data_file_ids :: "('b, 's, 'k, 'm) snapshot_table_state \<Rightarrow> file_id list" where
  "data_file_ids st = map (\<lambda>(_, f, _). file_id f) (sts_disk_files st)"

definition indexed_file_ids :: "('b, 's, 'k, 'm) snapshot_table_state \<Rightarrow> file_id list" where
  "indexed_file_ids st = concat (map index_files (file_indices (snap_indices (current_snapshot st))))"

definition index_block_ids :: "('b, 's, 'k, 'm) snapshot_table_state \<Rightarrow> file_id list" where
  "index_block_ids st = map (\<lambda>b. file_id (index_file b))
     (concat (map gi_index_blocks (file_indices (snap_indices (current_snapshot st)))))"

abbreviation no_identity :: "('b, 's, 'k, 'm) snapshot_table_state \<Rightarrow> bool" where
  "no_identity st \<equiv> row_identity (md_config (sts_metadata st)) = IdentityNone"

definition assert_data_files_and_file_indices_match :: "('b, 's, 'k, 'm) snapshot_table_state \<Rightarrow> unit res" where
  "assert_data_files_and_file_indices_match st =
     (if no_identity st then Ok ()
      else check (set (data_file_ids st) = set (indexed_file_ids st)) AssertFailed (Ok ()))"

definition assert_deletion_records_for_disk_files :: "('b, 's, 'k, 'm) snapshot_table_state \<Rightarrow> unit res" where
  "assert_deletion_records_for_disk_files st =
     check (list_all (\<lambda>(_, _, e). (case puffin_deletion_blob e of None \<Rightarrow> 0 | Some b \<Rightarrow> blob_num_rows b)
         \<le> get_num_rows_deleted (committed_deletion_vector e)) (sts_disk_files st)) AssertFailed (Ok ())"

definition assert_file_indices_no_duplicate :: "('b, 's, 'k, 'm) snapshot_table_state \<Rightarrow> unit res" where
  "assert_file_indices_no_duplicate st =
     (if no_identity st then Ok ()
      else check (distinct (indexed_file_ids st)) AssertFailed (
        check (distinct (index_block_ids st)) AssertFailed (
        check (set (data_file_ids st) = set (indexed_file_ids st)) AssertFailed (Ok ()))))"

definition assert_file_ids_no_duplicate :: "('b, 's, 'k, 'm) snapshot_table_state \<Rightarrow> unit res" where
  "assert_file_ids_no_duplicate st =
     check (distinct (concat (map (\<lambda>(_, f, e). file_id f # (case puffin_deletion_blob e of
           None \<Rightarrow> [] | Some b \<Rightarrow> [tuf_file_id (handle_file_id (puffin_file_cache_handle b))])) (sts_disk_files st))
         @ index_block_ids st)) AssertFailed (Ok ())"

definition assert_index_blocks_cached ::
  "(string \<Rightarrow> bool option) \<Rightarrow> ('b, 's, 'k, 'm) snapshot_table_state \<Rightarrow> unit res" where
  "assert_index_blocks_cached exists st =
     (if no_identity st then Ok ()
      else res_fold (\<lambda>_ b.
          check (index_cache_handle b \<noteq> None) AssertFailed (
          unwrap (index_cache_handle b) (\<lambda>h.
          check (cache_filepath (handle_cache_entry h) = file_path (index_file b)) AssertFailed (
          unwrap (exists (file_path (index_file b))) (\<lambda>r. check r AssertFailed (Ok ()))))))
        () (concat (map gi_index_blocks (file_indices (snap_indices (current_snapshot st))))))"

definition assert_uncommitted_deletion_logs_valid :: "('b, 's, 'k, 'm) snapshot_table_state \<Rightarrow> unit res" where
  "assert_uncommitted_deletion_logs_valid st =
     check (list_all (\<lambda>d. d \<noteq> None) (uncommitted_deletion_log st)) AssertFailed (Ok ())"

definition assert_current_snapshot_consistent ::
  "(string \<Rightarrow> bool option) \<Rightarrow> ('b, 's, 'k, 'm) snapshot_table_state \<Rightarrow> unit res" where
  "assert_current_snapshot_consistent exists st =
     res_bind (assert_data_files_and_file_indices_match st) (\<lambda>_.
     res_bind (assert_deletion_records_for_disk_files st) (\<lambda>_.
     res_bind (assert_file_indices_no_duplicate st) (\<lambda>_.
     res_bind (assert_file_ids_no_duplicate st) (\<lambda>_.
     res_bind (assert_index_blocks_cached exists st) (\<lambda>_.
     res_bind (assert_uncommitted_deletion_logs_valid st) (\<lambda>_.
     validate_invariants (sts_unpersisted_records st)))))))"

text \<open>The expected numbers of data files and file indices; subtractions carry the check of the code.\<close>

definition get_expected_disk_files_count ::
  "('b, 's, 'k, 'm) snapshot_task \<Rightarrow> ('b, 's, 'k, 'm) snapshot_table_state \<Rightarrow> nat res" where
  "get_expected_disk_files_count task st =
     res_bind (sub_checked (length (sts_disk_files st) + sum_list (map (\<lambda>w. length (ds_files w)) (new_disk_slices task))
         + sum_list (map get_committed_persisted_disk_count (new_streaming_xact task)))
       (length (dcr_old_data_files (st_data_compaction_result task)))) (\<lambda>n.
     Ok (n + length (dcr_new_data_files (st_data_compaction_result task))))"

definition get_expected_file_indices_count ::
  "('b, 's, 'k, 'm) snapshot_task \<Rightarrow> ('b, 's, 'k, 'm) snapshot_table_state \<Rightarrow> nat res" where
  "get_expected_file_indices_count task st =
     res_bind (sub_checked (length (file_indices (snap_indices (current_snapshot st))) + length (get_new_file_indices task))
       (length (fmr_old_file_indices (st_index_merge_result task)))) (\<lambda>n.
     res_bind (sub_checked (n + length (fmr_new_file_indices (st_index_merge_result task)))
       (length (dcr_old_file_indices (st_data_compaction_result task)))) (\<lambda>n.
     Ok (n + length (dcr_new_file_indices (st_data_compaction_result task)))))"

section \<open>The snapshot update\<close>

text \<open>The changes of the task reach the state, in the order of the code.\<close>

definition integrate_task ::
  "('b, 'z) arrow_ops_scheme \<Rightarrow> ('s, 'k, 'm) index_ops \<Rightarrow> index_search \<Rightarrow> parquet_reader \<Rightarrow> 'l lru_ops \<Rightarrow> (string \<Rightarrow> bool) \<Rightarrow>
   ('b, 's, 'k, 'm) snapshot_task \<Rightarrow> ('b, 's, 'k, 'm) snapshot_table_state \<Rightarrow> 'l object_storage_cache \<Rightarrow>
   (('b, 's, 'k, 'm) snapshot_task \<times> ('b, 's, 'k, 'm) snapshot_table_state \<times> string list \<times> 'l object_storage_cache) res" where
  "integrate_task ops iops search pq lru is_local task st c =
     (let st = st\<lparr>compacting_data_files := st_compacting_data_files task\<rparr>; task = task\<lparr>st_compacting_data_files := {}\<rparr>
      in res_bind (update_snapshot_by_iceberg_snapshot lru is_local task st c) (\<lambda>(st, e1, c).
         res_bind (import_file_indices_into_cache lru st task c) (\<lambda>(task, e2, c).
         res_bind (update_file_indices_merge_to_mooncake_snapshot lru task st c) (\<lambda>(st, e3, c).
         res_bind (update_data_compaction_to_mooncake_snapshot ops lru task st c) (\<lambda>(st, e4, c).
         res_bind (remap_uncommitted_deletion_logs_after_compaction task st) (\<lambda>(task, st).
         res_bind (remap_committed_deletion_logs_after_compaction task st) (\<lambda>(task, st).
         res_bind (prune_committed_deletion_logs task st) (\<lambda>st.
         res_bind (prune_persisted_records (st_persisted_records task) (sts_unpersisted_records st)) (\<lambda>u.
         res_bind (buffer_unpersisted_records task u) (\<lambda>u.
         res_bind (apply_transaction_stream lru c task (st\<lparr>sts_unpersisted_records := u\<rparr>)) (\<lambda>(c, task, st, e5).
         let st = merge_mem_indices task st; task = task\<lparr>new_mem_indices := []\<rparr>
         in res_bind (finalize_batches ops task st) (\<lambda>st.
            let task = task\<lparr>new_record_batches := []\<rparr>
            in res_bind (integrate_disk_slices ops lru task st c) (\<lambda>(task, st, e6, c).
               let st = st\<lparr>sts_rows := new_rows task\<rparr>; task = task\<lparr>new_rows := None\<rparr>
               in res_bind (process_deletion_log ops iops search pq task st) (\<lambda>st.
                  Ok (task\<lparr>new_deletions := []\<rparr>, st, e1 @ e2 @ e3 @ e4 @ e5 @ e6, c)))))))))))))))"

definition advance_lsns ::
  "('b, 's, 'k, 'm) snapshot_task \<Rightarrow> snapshot_option \<Rightarrow> ('b, 's, 'k, 'm) snapshot_table_state \<Rightarrow>
   ('b, 's, 'k, 'm) snapshot_table_state res" where
  "advance_lsns task opt st =
     (let snap = current_snapshot st
      in check (case (new_flush_lsn task, snap_flush_lsn snap) of
            (Some new, Some cur) \<Rightarrow> force_create opt \<or> cur < new | _ \<Rightarrow> True) AssertFailed (
         let snap = (case new_flush_lsn task of None \<Rightarrow> snap | Some new \<Rightarrow> snap\<lparr>snap_flush_lsn := Some new\<rparr>);
             snap = (case new_largest_flush_lsn task of
                 None \<Rightarrow> snap
               | Some new \<Rightarrow> (case snap_largest_flush_lsn snap of
                     None \<Rightarrow> snap\<lparr>snap_largest_flush_lsn := Some new\<rparr>
                   | Some cur \<Rightarrow> if new > cur then snap\<lparr>snap_largest_flush_lsn := Some new\<rparr> else snap));
             snap = (if commit_lsn_baseline task \<noteq> 0 then snap\<lparr>snapshot_version := commit_lsn_baseline task\<rparr> else snap);
             st = st\<lparr>current_snapshot := snap\<rparr>
         in Ok (case new_commit_point task of None \<Rightarrow> st | Some cp \<Rightarrow> st\<lparr>last_commit := cp\<rparr>)))"

text \<open>The payloads of the next maintenance work; an index merge only when nothing is compacted.\<close>

definition choose_maintenance ::
  "snapshot_option \<Rightarrow> ('b, 's, 'k, 'm) snapshot_table_state \<Rightarrow> 'l object_storage_cache \<Rightarrow>
   (data_compaction_payload table_maintenance_status \<times> file_indice_merge_payload table_maintenance_status \<times>
    'l object_storage_cache) res" where
  "choose_maintenance opt st c =
     res_bind (get_payload_to_compact st (data_compaction_option opt)) (\<lambda>compaction.
     res_bind (case compaction of Payload p \<Rightarrow> pin_referenced_compaction_payload c p | _ \<Rightarrow> Ok c) (\<lambda>c.
     res_bind (if has_payload compaction then Ok MaintenanceUnknown
         else get_file_indices_to_merge st (index_merge_option opt)) (\<lambda>merge.
     Ok (compaction, merge, c))))"

definition choose_persistence ::
  "'z arrow_bits_scheme \<Rightarrow> ('b, 's, 'k, 'm) snapshot_task \<Rightarrow> snapshot_option \<Rightarrow> ('b, 's, 'k, 'm) snapshot_table_state \<Rightarrow>
   'md persistence_snapshot_payload option res" where
  "choose_persistence ar task opt st =
     (let snap = current_snapshot st;
          by_deletion = create_iceberg_snapshot_by_committed_logs st (force_create opt);
          by_files = if_persist_by_new_files_or_maintenance (sts_unpersisted_records st) (force_create opt);
          by_write = snap_flush_lsn snap \<noteq> None \<and> (by_files \<or> by_deletion);
          flush_lsn = (case snap_flush_lsn snap of None \<Rightarrow> 0 | Some l \<Rightarrow> l);
          largest = (case snap_largest_flush_lsn snap of None \<Rightarrow> 0 | Some l \<Rightarrow> l)
      in if iceberg_snapshot_option opt \<noteq> SkipSnapshot \<and> (st_force_empty_persistence_payload task \<or> by_write)
            \<and> flush_lsn < min_ongoing_flush_lsn task \<and> flush_lsn = largest then
           res_bind (aggregate_committed_deletion_logs ar st flush_lsn) (\<lambda>dels.
           res_bind (validate_deletions_to_persist dels) (\<lambda>_.
           if cdp_new_deletions_to_persist dels \<noteq> [] \<or> by_files \<or> st_force_empty_persistence_payload task
           then res_bind (get_persistence_snapshot_payload (sts_unpersisted_records st) (iceberg_snapshot_option opt) flush_lsn dels)
             (\<lambda>p. Ok (Some p))
           else Ok None))
         else Ok None)"

definition update_snapshot ::
  "('b, 'z) arrow_ops_scheme \<Rightarrow> ('s, 'k, 'm) index_ops \<Rightarrow> index_search \<Rightarrow> parquet_reader \<Rightarrow> 'l lru_ops \<Rightarrow> (string \<Rightarrow> bool) \<Rightarrow>
   (string \<Rightarrow> bool option) \<Rightarrow> ('b, 's, 'k, 'm) snapshot_task \<Rightarrow> snapshot_option \<Rightarrow> ('b, 's, 'k, 'm) snapshot_table_state \<Rightarrow>
   'l object_storage_cache \<Rightarrow>
   (('b, 's, 'k, 'm) snapshot_table_state \<times> ('md, ('s, 'k, 'm) snapshot) mooncake_snapshot_output \<times> 'l object_storage_cache) res" where
  "update_snapshot ops iops search pq lru is_local exists task opt st c =
     res_bind (validate_mooncake_table_invariants task opt st) (\<lambda>_.
     res_bind (validate_imported_files_remote (st_persisted_records task) (iceberg_warehouse_location st)) (\<lambda>_.
     res_bind (get_expected_disk_files_count task st) (\<lambda>expected_files.
     res_bind (get_expected_file_indices_count task st) (\<lambda>expected_indices.
     res_bind (integrate_task ops iops search pq lru is_local task st c) (\<lambda>(task, st, evicted, c).
     res_bind (advance_lsns task opt st) (\<lambda>st.
     res_bind (choose_maintenance opt st c) (\<lambda>(compaction, merge, c).
     res_bind (choose_persistence ops task opt st) (\<lambda>payload.
     check (expected_files = length (sts_disk_files st)) AssertFailed (
     check (expected_indices = length (file_indices (snap_indices (current_snapshot st)))) AssertFailed (
     res_bind (assert_current_snapshot_consistent exists st) (\<lambda>_.
     Ok (st, \<lparr>mso_uuid = opt_uuid opt, mso_commit_lsn = snapshot_version (current_snapshot st),
          mso_persistence_snapshot_payload = payload, mso_file_indices_merge_payload = merge,
          mso_data_compaction_payload = compaction, mso_evicted_data_files_to_delete = evicted,
          mso_current_snapshot = (if dump_snapshot opt then Some (current_snapshot st) else None)\<rparr>, c))))))))))))"

end
