(* ===== verification/Snapshot_Integration.thy ===== *)
theory Snapshot_Integration
  imports Snapshot_Update
begin

text \<open>
  What a snapshot update guarantees: deletions follow their rows through compaction and flush, the
  deletion log leaves the LSNs alone, and the payloads a snapshot hands out are sound.
\<close>

section \<open>Deletions follow their rows\<close>

text \<open>The deletion vectors of \<open>files\<close> have grown by the rows \<open>X\<close>, file by file, and nothing else has changed.\<close>

definition grown_by :: "(file_id \<Rightarrow> nat set) \<Rightarrow> disk_file_entry file_map \<Rightarrow> disk_file_entry file_map \<Rightarrow> bool" where
  "grown_by X files files' \<longleftrightarrow> (\<forall>g. rel_option (\<lambda>e e'. e' = e\<lparr>committed_deletion_vector := committed_deletion_vector e'\<rparr>
     \<and> dv_wf (committed_deletion_vector e')
     \<and> deleted_rows (committed_deletion_vector e') = deleted_rows (committed_deletion_vector e) \<union> X g
     \<and> (X g = {} \<longrightarrow> e' = e)) (fm_get files g) (fm_get files' g))"

abbreviation files_wf :: "disk_file_entry file_map \<Rightarrow> bool" where
  "files_wf files \<equiv> \<forall>g e. fm_get files g = Some e \<longrightarrow> dv_wf (committed_deletion_vector e)"

lemma grown_by_refl:
  assumes "files_wf files" and "\<And>g. X g = {}"
  shows "grown_by X files files"
  unfolding grown_by_def
proof
  fix g
  show "rel_option (\<lambda>e e'. e' = e\<lparr>committed_deletion_vector := committed_deletion_vector e'\<rparr> \<and> dv_wf (committed_deletion_vector e')
     \<and> deleted_rows (committed_deletion_vector e') = deleted_rows (committed_deletion_vector e) \<union> X g
     \<and> (X g = {} \<longrightarrow> e' = e)) (fm_get files g) (fm_get files g)"
    using assms(1) by (cases "fm_get files g") (simp_all add: assms(2))
qed

lemma grown_byE:
  assumes "grown_by X files files'" and "fm_get files' g = Some e'"
  obtains e where "fm_get files g = Some e" "e' = e\<lparr>committed_deletion_vector := committed_deletion_vector e'\<rparr>"
    "dv_wf (committed_deletion_vector e')"
    "deleted_rows (committed_deletion_vector e') = deleted_rows (committed_deletion_vector e) \<union> X g" "X g = {} \<Longrightarrow> e' = e"
proof -
  from assms(1) have "rel_option (\<lambda>e e'. e' = e\<lparr>committed_deletion_vector := committed_deletion_vector e'\<rparr>
     \<and> dv_wf (committed_deletion_vector e')
     \<and> deleted_rows (committed_deletion_vector e') = deleted_rows (committed_deletion_vector e) \<union> X g
     \<and> (X g = {} \<longrightarrow> e' = e)) (fm_get files g) (fm_get files' g)"
    unfolding grown_by_def by (rule spec)
  then show ?thesis unfolding assms(2) by (cases "fm_get files g") (auto intro: that)
qed

lemma grown_by_Some: "grown_by X files files' \<Longrightarrow> fm_get files g = Some e \<Longrightarrow> \<exists>e'. fm_get files' g = Some e'"
  by (cases "fm_get files' g") (auto simp: grown_by_def dest: spec[of _ g])

lemma grown_by_wf: "grown_by X files files' \<Longrightarrow> files_wf files'"
  by (auto elim: grown_byE)

lemma grown_by_trans:
  assumes "grown_by X a b" and "grown_by Y b c"
  shows "grown_by (\<lambda>g. X g \<union> Y g) a c"
  unfolding grown_by_def
proof
  fix g
  let ?R = "\<lambda>X e e'. e' = e\<lparr>committed_deletion_vector := committed_deletion_vector e'\<rparr>
     \<and> dv_wf (committed_deletion_vector e') \<and> deleted_rows (committed_deletion_vector e') = deleted_rows (committed_deletion_vector e) \<union> X
     \<and> (X = {} \<longrightarrow> e' = e)"
  have "rel_option (?R (X g)) (fm_get a g) (fm_get b g)" "rel_option (?R (Y g)) (fm_get b g) (fm_get c g)"
    using assms by (simp_all add: grown_by_def)
  then show "rel_option (?R (X g \<union> Y g)) (fm_get a g) (fm_get c g)"
    by (cases "fm_get a g"; cases "fm_get b g"; cases "fm_get c g") (auto, metis disk_file_entry.surjective disk_file_entry.update_convs(4))
qed

lemma fm_get_set: "fm_get (fm_set fid v m) g = (if g = fid \<and> fm_get m fid \<noteq> None then Some v else fm_get m g)"
  by (auto simp: fm_get_def fm_set_def update_conv' split: option.splits)

lemma fm_get_delete: "fm_get (AList.delete fid m) g = (if g = fid then None else fm_get m g)"
  by (simp add: fm_get_def delete_conv')

lemma grown_by_row:
  assumes bits: "arrow_bits_ok ar" and wf: "files_wf files" and e: "fm_get files fid = Some e"
    and del: "delete_row ar (committed_deletion_vector e) row = Ok (r, v)"
  shows "grown_by (\<lambda>g. if g = fid then {row} else {}) files (fm_set fid (e\<lparr>committed_deletion_vector := v\<rparr>) files)"
proof -
  have dv: "dv_wf (committed_deletion_vector e)" using wf e by blast
  have "row < max_rows (committed_deletion_vector e)" using del by (auto simp: delete_row_def)
  from delete_row_spec[OF bits dv this] del have v: "dv_wf v" "deleted_rows v = insert row (deleted_rows (committed_deletion_vector e))"
    by auto
  show ?thesis unfolding grown_by_def
  proof
    fix g
    show "rel_option (\<lambda>e e'. e' = e\<lparr>committed_deletion_vector := committed_deletion_vector e'\<rparr> \<and> dv_wf (committed_deletion_vector e')
      \<and> deleted_rows (committed_deletion_vector e') = deleted_rows (committed_deletion_vector e) \<union> (if g = fid then {row} else {})
      \<and> ((if g = fid then {row} else {}) = {} \<longrightarrow> e' = e))
      (fm_get files g) (fm_get (fm_set fid (e\<lparr>committed_deletion_vector := v\<rparr>) files) g)"
      using e v wf by (cases "fm_get files g") (auto simp: fm_get_set)
  qed
qed

section \<open>Compaction carries deletions over\<close>

definition moved :: "record_remap \<Rightarrow> file_id \<Rightarrow> nat set \<Rightarrow> file_id \<Rightarrow> nat set" where
  "moved remap fid rows g = {get_row_idx (remapped_location l) |row l.
     row \<in> rows \<and> map_of remap (DiskFile fid row) = Some l \<and> file_id (new_data_file l) = g}"

lemma moved_empty [simp]: "moved remap fid {} g = {}"
  by (simp add: moved_def)

lemma moved_insert: "moved remap fid (insert row rows) g = moved remap fid {row} g \<union> moved remap fid rows g"
  by (auto simp: moved_def)

lemma carry_deletion_grows:
  assumes "arrow_bits_ok ar" and "files_wf files" and "carry_deletion ar remap fid files row = Ok files'"
  shows "grown_by (moved remap fid {row}) files files'"
proof (cases "map_of remap (DiskFile fid row)")
  case None
  then have "files' = files" using assms(3) by (simp add: carry_deletion_def)
  moreover have "moved remap fid {row} g = {}" for g using None by (auto simp: moved_def)
  ultimately show ?thesis using assms(2) by (auto intro: grown_by_refl)
next
  case (Some l)
  then obtain e r v where e: "fm_get files (file_id (new_data_file l)) = Some e"
    and del: "delete_row ar (committed_deletion_vector e) (get_row_idx (remapped_location l)) = Ok (r, v)"
    and files': "files' = fm_set (file_id (new_data_file l)) (e\<lparr>committed_deletion_vector := v\<rparr>) files"
    using assms(3) by (auto simp: carry_deletion_def)
  have "moved remap fid {row} = (\<lambda>g. if g = file_id (new_data_file l) then {get_row_idx (remapped_location l)} else {})"
    using Some by (auto simp: moved_def fun_eq_iff)
  then show ?thesis using grown_by_row[OF assms(1,2) e del] files' by simp
qed

lemma carry_deletions_grow:
  assumes "arrow_bits_ok ar"
  shows "files_wf files \<Longrightarrow> res_fold (carry_deletion ar remap fid) files rows = Ok files' \<Longrightarrow>
    grown_by (moved remap fid (set rows)) files files'"
proof (induction rows arbitrary: files)
  case Nil
  then show ?case by (auto intro: grown_by_refl)
next
  case (Cons row rows)
  then obtain files1 where one: "carry_deletion ar remap fid files row = Ok files1"
    and rest: "res_fold (carry_deletion ar remap fid) files1 rows = Ok files'" by auto
  have g1: "grown_by (moved remap fid {row}) files files1" by (rule carry_deletion_grows[OF assms Cons.prems(1) one])
  have g2: "grown_by (moved remap fid (set rows)) files1 files'" by (rule Cons.IH[OF grown_by_wf[OF g1] rest])
  have "moved remap fid (set (row # rows)) = (\<lambda>g. moved remap fid {row} g \<union> moved remap fid (set rows) g)"
    unfolding fun_eq_iff list.set using moved_insert by blast
  then show ?case using grown_by_trans[OF g1 g2] by simp
qed

lemma deleted_rows_collected: "dv_wf d \<Longrightarrow> set (collect_deleted_rows d) = deleted_rows d"
proof -
  assume "dv_wf d"
  then have "set (collect_deleted_rows d) = {r. r < max_rows d \<and> r \<in> deleted_rows d}" by (auto simp: collect_deleted_rows_filter)
  also have "\<dots> = deleted_rows d" by (auto simp: deleted_rows_def split: option.splits)
  finally show ?thesis .
qed

lemma deletion_vector_is_empty_iff: "dv_wf d \<Longrightarrow> deletion_vector_is_empty d \<longleftrightarrow> deleted_rows d = {}"
proof -
  assume "dv_wf d"
  then have "deleted_rows d = set (collect_deleted_rows d)" by (simp add: deleted_rows_collected)
  then show ?thesis by (cases "deletion_vector d") (simp_all add: deletion_vector_is_empty_def deleted_rows_def)
qed

lemma remove_compacted_file_grows:
  assumes bits: "arrow_bits_ok ar" and wf: "files_wf files"
    and ok: "remove_compacted_file ar lru st remap (files, ev, c) f = Ok (files', ev', c')"
  shows "\<exists>e. fm_get files (file_id f) = Some e \<and>
    grown_by (moved remap (file_id f) (deleted_rows (committed_deletion_vector e))) (AList.delete (file_id f) files) files'"
proof -
  let ?files = "AList.delete (file_id f) files"
  obtain e where e: "fm_get files (file_id f) = Some e" using ok by (auto simp: remove_compacted_file_def)
  have dv: "dv_wf (committed_deletion_vector e)" using wf e by blast
  have wf': "files_wf ?files" using wf by (simp add: fm_get_delete)
  have "grown_by (moved remap (file_id f) (deleted_rows (committed_deletion_vector e))) ?files files'"
  proof (cases "deletion_vector_is_empty (committed_deletion_vector e)")
    case True
    then have "deleted_rows (committed_deletion_vector e) = {}" using deletion_vector_is_empty_iff[OF dv] by simp
    moreover have "files' = ?files" using ok e True by (auto simp: remove_compacted_file_def Let_def)
    ultimately show ?thesis using wf' by (auto intro: grown_by_refl)
  next
    case False
    then have "res_fold (carry_deletion ar remap (file_id f)) ?files (collect_deleted_rows (committed_deletion_vector e)) = Ok files'"
      using ok e by (auto simp: remove_compacted_file_def Let_def split: if_splits)
    from carry_deletions_grow[OF bits wf' this] show ?thesis by (simp add: deleted_rows_collected[OF dv])
  qed
  then show ?thesis using e by blast
qed

abbreviation deleted_at :: "disk_file_entry file_map \<Rightarrow> file_id \<Rightarrow> nat set" where
  "deleted_at files fid \<equiv> (case fm_get files fid of None \<Rightarrow> {} | Some e \<Rightarrow> deleted_rows (committed_deletion_vector e))"

lemma deleted_locations_disk: "DiskFile g row \<in> deleted_locations s \<longleftrightarrow> row \<in> deleted_at (sts_disk_files s) g"
  by (auto simp: deleted_locations_def loc_vector_def get_row_idx_def split: option.splits)

definition without :: "file_id set \<Rightarrow> 'v file_map \<Rightarrow> 'v file_map" where
  "without ids files = filter (\<lambda>(fid, _). fid \<notin> ids) files"

lemma fm_get_without: "fm_get (without ids m) g = (if g \<in> ids then None else fm_get m g)"
  by (induction m) (auto simp: fm_get_def without_def)

lemma grown_by_without: "grown_by X a b \<Longrightarrow> grown_by X (without ids a) (without ids b)"
  by (simp add: grown_by_def fm_get_without)

lemma grown_by_eq: "grown_by X a b \<Longrightarrow> (\<And>g. fm_get a g = fm_get a' g) \<Longrightarrow> grown_by X a' b"
  by (simp add: grown_by_def)

lemma grown_by_at: "grown_by X a b \<Longrightarrow> X g = {} \<Longrightarrow> fm_get b g = fm_get a g"
  by (cases "fm_get b g"; cases "fm_get a g") (auto simp: grown_by_def elim!: grown_byE dest: spec[of _ g])

lemma remove_compacted_files_grow:
  assumes bits: "arrow_bits_ok ar"
  shows "res_fold (remove_compacted_file ar lru st remap) (files, ev, c) old = Ok (files', ev', c') \<Longrightarrow> files_wf files \<Longrightarrow>
    distinct (map file_id old) \<Longrightarrow> (\<And>k l. map_of remap k = Some l \<Longrightarrow> file_id (new_data_file l) \<notin> file_id ` set old) \<Longrightarrow>
    grown_by (\<lambda>g. \<Union>f \<in> set old. moved remap (file_id f) (deleted_at files (file_id f)) g) (without (file_id ` set old) files) files'"
proof (induction old arbitrary: files ev c)
  case Nil
  have "without (file_id ` set []) files = files" by (simp add: without_def)
  then show ?case using Nil by (auto intro: grown_by_refl)
next
  case (Cons f old)
  then obtain files1 ev1 c1 where one: "remove_compacted_file ar lru st remap (files, ev, c) f = Ok (files1, ev1, c1)"
    and rest: "res_fold (remove_compacted_file ar lru st remap) (files1, ev1, c1) old = Ok (files', ev', c')" by auto
  obtain e where e: "fm_get files (file_id f) = Some e"
    and g1: "grown_by (moved remap (file_id f) (deleted_rows (committed_deletion_vector e))) (AList.delete (file_id f) files) files1"
    using remove_compacted_file_grows[OF bits Cons.prems(2) one] by blast
  have stay: "moved remap fid rows g = {}" if "g \<in> file_id ` set (f # old)" for fid rows g
    using that Cons.prems(4) by (auto simp: moved_def)
  have same: "fm_get files1 (file_id f') = fm_get files (file_id f')" if "f' \<in> set old" for f'
  proof -
    have "fm_get files1 (file_id f') = fm_get (AList.delete (file_id f) files) (file_id f')"
      by (rule grown_by_at[OF g1 stay]) (use that in simp)
    moreover have "file_id f \<notin> file_id ` set old" using Cons.prems(3) by simp
    then have "file_id f' \<noteq> file_id f" using that by (metis imageI)
    ultimately show ?thesis by (simp add: fm_get_delete)
  qed
  have "grown_by (\<lambda>g. \<Union>f' \<in> set old. moved remap (file_id f') (deleted_at files1 (file_id f')) g) (without (file_id ` set old) files1) files'"
    by (rule Cons.IH[OF rest grown_by_wf[OF g1]]) (use Cons.prems(3,4) in auto)
  moreover have "(\<lambda>g. \<Union>f' \<in> set old. moved remap (file_id f') (deleted_at files1 (file_id f')) g)
      = (\<lambda>g. \<Union>f' \<in> set old. moved remap (file_id f') (deleted_at files (file_id f')) g)"
    using same by (intro ext SUP_cong) auto
  ultimately have g2: "grown_by (\<lambda>g. \<Union>f' \<in> set old. moved remap (file_id f') (deleted_at files (file_id f')) g)
      (without (file_id ` set old) files1) files'" by simp
  have "grown_by (\<lambda>g. moved remap (file_id f) (deleted_rows (committed_deletion_vector e)) g \<union>
      (\<Union>f' \<in> set old. moved remap (file_id f') (deleted_at files (file_id f')) g))
      (without (file_id ` set old) (AList.delete (file_id f) files)) files'"
    by (rule grown_by_trans[OF grown_by_without[OF g1] g2])
  then have "grown_by (\<lambda>g. \<Union>f' \<in> set (f # old). moved remap (file_id f') (deleted_at files (file_id f')) g)
      (without (file_id ` set old) (AList.delete (file_id f) files)) files'" using e by simp
  then show ?case by (rule grown_by_eq) (auto simp: fm_get_without fm_get_delete)
qed

lemma import_compacted_files:
  "res_fold (import_compacted_file lru st) (files, ev, c) new = Ok (files', ev', c') \<Longrightarrow>
   (\<forall>g. g \<notin> (file_id \<circ> fst) ` set new \<longrightarrow> fm_get files' g = fm_get files g)
   \<and> (\<forall>g \<in> (file_id \<circ> fst) ` set new. \<exists>n s h. fm_get files' g = Some (new_disk_file_entry n s h))"
proof (induction new arbitrary: files ev c)
  case (Cons p new)
  obtain f e where p: "p = (f, e)" by (cases p)
  from Cons.prems obtain acc where acc: "import_compacted_file lru st (files, ev, c) (f, e) = Ok acc"
    and fold: "res_fold (import_compacted_file lru st) acc new = Ok (files', ev', c')" by (auto simp: p)
  from acc obtain h ev1 c1 where
    "acc = (fm_insert f (new_disk_file_entry (entry_num_rows e) (entry_file_size e) (Some h)) files, ev1, c1)"
    by (auto simp: import_compacted_file_def)
  note rest = fold[unfolded this]
  show ?case
  proof (intro conjI allI ballI impI)
    fix g assume "g \<notin> (file_id \<circ> fst) ` set (p # new)"
    with Cons.IH[OF rest] show "fm_get files' g = fm_get files g" by (simp add: p fm_get_insert)
  next
    fix g assume g: "g \<in> (file_id \<circ> fst) ` set (p # new)"
    show "\<exists>n s h. fm_get files' g = Some (new_disk_file_entry n s h)"
    proof (cases "g \<in> (file_id \<circ> fst) ` set new")
      case True
      with Cons.IH[OF rest] show ?thesis by blast
    next
      case False
      then have "fm_get files' g = Some (new_disk_file_entry (entry_num_rows e) (entry_file_size e) (Some h))"
        using g Cons.IH[OF rest] by (auto simp: p fm_get_insert)
      then show ?thesis by blast
    qed
  qed
qed simp

text \<open>
  C19: a compaction neither loses nor invents deletions. When its result is applied to the snapshot, the old files
  are gone, the other files keep their entries, and a row of a new file is deleted exactly when it is the new
  place of a deleted row of an old file; the deleted rows that the compaction already left out
  need no deletion.
\<close>

theorem compaction_carries_deletions:
  assumes bits: "arrow_bits_ok ar" and wf: "files_wf (sts_disk_files st)"
    and ok: "update_data_files_to_mooncake_snapshot_impl ar lru old new remap st c = Ok (st', evicted, c')" and "old \<noteq> []"
    and old: "distinct (map file_id old)" "file_id ` set old \<inter> (file_id \<circ> fst) ` set new = {}"
    and targets: "\<forall>l \<in> snd ` set remap. file_id (new_data_file l) \<in> (file_id \<circ> fst) ` set new"
  shows "(\<forall>g \<in> file_id ` set old. fm_get (sts_disk_files st') g = None)
    \<and> (\<forall>g. g \<notin> file_id ` set old \<longrightarrow> g \<notin> (file_id \<circ> fst) ` set new \<longrightarrow>
        fm_get (sts_disk_files st') g = fm_get (sts_disk_files st) g)
    \<and> (\<forall>g \<in> (file_id \<circ> fst) ` set new. \<forall>row. DiskFile g row \<in> deleted_locations st' \<longleftrightarrow>
        (\<exists>f \<in> set old. \<exists>row' l. DiskFile (file_id f) row' \<in> deleted_locations st \<and> map_of remap (DiskFile (file_id f) row') = Some l
          \<and> file_id (new_data_file l) = g \<and> get_row_idx (remapped_location l) = row))"
proof -
  let ?old = "file_id ` set old" and ?new = "(file_id \<circ> fst) ` set new"
  obtain files ev1 c1 files' ev2 c2 where imp: "res_fold (import_compacted_file lru st) (sts_disk_files st, [], c) new = Ok (files, ev1, c1)"
    and rem: "res_fold (remove_compacted_file ar lru st remap) (files, ev1, c1) old = Ok (files', ev2, c2)"
    and st': "st' = st\<lparr>current_snapshot := (current_snapshot st)\<lparr>disk_files := files'\<rparr>\<rparr>"
    using ok \<open>old \<noteq> []\<close> by (auto simp: update_data_files_to_mooncake_snapshot_impl_def)
  note imported = import_compacted_files[OF imp]
  have fwf: "files_wf files"
  proof (intro allI impI)
    fix g e assume "fm_get files g = Some e"
    then show "dv_wf (committed_deletion_vector e)"
      using imported wf by (cases "g \<in> ?new") (auto simp: new_disk_file_entry_def new_vector_empty)
  qed
  have targets': "map_of remap k = Some l \<Longrightarrow> file_id (new_data_file l) \<in> ?new" for k l
    using targets by (force dest: map_of_SomeD)
  have grown: "grown_by (\<lambda>g. \<Union>f \<in> set old. moved remap (file_id f) (deleted_at files (file_id f)) g) (without ?old files) files'"
    by (rule remove_compacted_files_grow[OF bits rem fwf old(1)]) (use targets' old(2) in blast)
  have here: "fm_get files (file_id f) = fm_get (sts_disk_files st) (file_id f)" if "f \<in> set old" for f
    using imported that old(2) by blast
  have kept: "fm_get files' g = fm_get (without ?old files) g" if "g \<notin> ?new" for g
    by (rule grown_by_at[OF grown]) (use that targets' in \<open>auto simp: moved_def\<close>)
  have gone: "\<forall>g \<in> ?old. fm_get files' g = None"
  proof
    fix g assume g: "g \<in> ?old"
    then have "g \<notin> ?new" using old(2) by blast
    from kept[OF this] g show "fm_get files' g = None" by (simp add: fm_get_without)
  qed
  have others: "\<forall>g. g \<notin> ?old \<longrightarrow> g \<notin> ?new \<longrightarrow> fm_get files' g = fm_get (sts_disk_files st) g"
    using kept imported by (auto simp: fm_get_without)
  have moved_at: "deleted_at files' g = (\<Union>f \<in> set old. moved remap (file_id f) (deleted_at (sts_disk_files st) (file_id f)) g)"
    if g: "g \<in> ?new" for g
  proof -
    obtain n s h where "fm_get files g = Some (new_disk_file_entry n s h)" using imported g by blast
    then have e: "fm_get (without ?old files) g = Some (new_disk_file_entry n s h)" using g old(2) by (auto simp: fm_get_without)
    obtain e' where e': "fm_get files' g = Some e'" using grown_by_Some[OF grown e] by blast
    have "deleted_rows (committed_deletion_vector e') = (\<Union>f \<in> set old. moved remap (file_id f) (deleted_at files (file_id f)) g)"
    proof (rule grown_byE[OF grown e'])
      fix e0 assume e0: "fm_get (without ?old files) g = Some e0"
        "deleted_rows (committed_deletion_vector e') = deleted_rows (committed_deletion_vector e0)
          \<union> (\<Union>f \<in> set old. moved remap (file_id f) (deleted_at files (file_id f)) g)"
      have "deleted_rows (committed_deletion_vector e0) = {}" using e0(1) e by (auto simp: new_disk_file_entry_def new_vector_empty)
      then show ?thesis using e0(2) by simp
    qed
    then show ?thesis using e' here by simp
  qed
  have "DiskFile g row \<in> deleted_locations st' \<longleftrightarrow> row \<in> (\<Union>f \<in> set old. moved remap (file_id f) (deleted_at (sts_disk_files st) (file_id f)) g)"
    if "g \<in> ?new" for g row using moved_at[OF that] by (simp add: deleted_locations_disk st')
  then show ?thesis using gone others by (auto simp: st' moved_def deleted_locations_disk)
qed

definition compacted_files :: "(mooncake_data_file \<times> compacted_data_entry) list" where
  "compacted_files = [(\<lparr>file_id = FileId 9, file_path = ''g''\<rparr>, \<lparr>entry_num_rows = 1, entry_file_size = 3\<rparr>)]"

definition compacted_remap :: record_remap where
  "compacted_remap = [(DiskFile (FileId 7) 1, \<lparr>remapped_location = DiskFile (FileId 9) 0, new_data_file = fst (hd compacted_files)\<rparr>)]"

definition deleted_demo :: "batch_deletion_vector \<Rightarrow>
   (plain_batch, single_primitive_key list, key_with_identity list, (u64 \<times> record_location) list) snapshot_table_state" where
  "deleted_demo v = demo_state\<lparr>current_snapshot := (current_snapshot demo_state)\<lparr>
     disk_files := [(FileId 7, \<lparr>file_id = FileId 7, file_path = ''f''\<rparr>, (new_disk_file_entry 2 100 None)\<lparr>committed_deletion_vector := v\<rparr>)]\<rparr>\<rparr>"

theorem compaction_carries_deletions_witness:
  "\<exists>v st' ev c'. update_data_files_to_mooncake_snapshot_impl plain_arrow list_lru [\<lparr>file_id = FileId 7, file_path = ''f''\<rparr>]
      compacted_files compacted_remap (deleted_demo v) (new_object_storage_cache list_lru sample_config) = Ok (st', ev, c')
    \<and> DiskFile (FileId 7) 1 \<in> deleted_locations (deleted_demo v) \<and> DiskFile (FileId 9) 0 \<in> deleted_locations st'"
proof -
  have bits: "arrow_bits_ok plain_arrow" by (rule batch_ops_okD(2)[OF plain_batch_ops_ok])
  obtain v where v: "dv_wf v" "max_rows v = 2" "deleted_rows v = {1}"
    using delete_row_spec[OF bits new_vector_empty(1), of 1 2] by (auto simp: new_vector_empty)
  obtain w where w: "delete_row plain_arrow (new_deletion_vector 1) 0 = Ok (True, w)"
    using fresh_vector_delete[OF bits, of 0 1] by auto
  have collected: "collect_deleted_rows v = [1]" "\<not> deletion_vector_is_empty v"
    using v by (simp_all add: collect_deleted_rows_filter deletion_vector_is_empty_iff upt_rec)
  let ?st = "deleted_demo v" and ?c = "new_object_storage_cache list_lru sample_config" and ?f = "\<lparr>file_id = FileId 7, file_path = ''f''\<rparr>"
  obtain h e1 c1 where imported: "import_cache_entry list_lru ?c \<lparr>tuf_table_id = TableId 1, tuf_file_id = FileId 9\<rparr>
      \<lparr>cache_filepath = ''g'', file_size = 3\<rparr> = Ok (h, e1, c1)"
    and c1: "try_delete_cache_entry list_lru c1 \<lparr>tuf_table_id = TableId 1, tuf_file_id = FileId 7\<rparr> = Ok ([], c1)"
    by (simp add: import_cache_entry_def insert_non_evictable_def evict_cache_entries_def new_object_storage_cache_def list_lru_def
        sample_config_def add_width_def try_delete_cache_entry_def delete_cache_entry_def touch_def del: add_width_eq_Ok)
  have files: "sts_disk_files ?st = [(FileId 7, ?f, (new_disk_file_entry 2 100 None)\<lparr>committed_deletion_vector := v\<rparr>)]"
    by (simp add: deleted_demo_def)
  have ids: "get_table_unique_file_id ?st i = \<lparr>tuf_table_id = TableId 1, tuf_file_id = i\<rparr>" for i
    by (simp add: get_table_unique_file_id_def deleted_demo_def demo_state_def demo_metadata_def)
  obtain st' ev c' where run: "update_data_files_to_mooncake_snapshot_impl plain_arrow list_lru [?f] compacted_files compacted_remap ?st ?c
      = Ok (st', ev, c')"
    using imported c1 collected w
    by (simp add: update_data_files_to_mooncake_snapshot_impl_def import_compacted_file_def remove_compacted_file_def carry_deletion_def
        compacted_files_def compacted_remap_def files ids fm_insert_def fm_get_def fm_set_def new_disk_file_entry_def get_row_idx_def Let_def) blast
  have wf: "files_wf (sts_disk_files ?st)" using v by (simp add: files fm_get_def)
  have "DiskFile (FileId 7) 1 \<in> deleted_locations ?st" using v by (simp add: deleted_locations_disk files fm_get_def)
  with compaction_carries_deletions[OF bits wf run] run show ?thesis
    by (force simp: compacted_files_def compacted_remap_def get_row_idx_def)
qed

section \<open>Flushing carries deletions over\<close>

definition flushed_to :: "('b, 's, 'k, 'm) disk_slice_writer \<Rightarrow> processed_deletion_record list \<Rightarrow> file_id \<Rightarrow> nat set" where
  "flushed_to w ds g = {row. \<exists>d \<in> set ds. \<exists>d'. remap_deletion_if_needed w d = Ok (Some (DiskFile g row), d')}"

lemma remap_gives_disk:
  assumes "remap_deletion_if_needed w d = Ok (Some loc, d')"
  shows "\<exists>f a row. (f, a) \<in> set (ds_files w) \<and> loc = DiskFile (file_id f) row"
proof -
  obtain i row where i: "i < length (ds_files w)" "loc = DiskFile (file_id (fst (ds_files w ! i))) row"
    using assms by (auto simp: remap_deletion_if_needed_def Let_def case_prod_beta split: record_location.splits option.splits)
  then have "(fst (ds_files w ! i), snd (ds_files w ! i)) \<in> set (ds_files w)" by simp
  then show ?thesis using i(2) by blast
qed

lemma flushed_to_slice: "row \<in> flushed_to w ds g \<Longrightarrow> g \<in> (file_id \<circ> fst) ` set (ds_files w)"
  by (force simp: flushed_to_def dest: remap_gives_disk)

lemma remap_committed_to_disk_grows:
  assumes bits: "arrow_bits_ok ar"
  shows "remap_committed_to_disk ar w ds files = Ok (ds', files') \<Longrightarrow> files_wf files \<Longrightarrow>
    (\<And>g row. row \<in> flushed_to w ds g \<Longrightarrow> fm_get files g \<noteq> None) \<Longrightarrow>
    grown_by (flushed_to w ds) files files' \<and> list_all2 (\<lambda>d d'. \<exists>loc. remap_deletion_if_needed w d = Ok (loc, d')) ds ds'"
proof (induction ds arbitrary: files ds')
  case Nil
  then show ?case by (auto intro!: grown_by_refl simp: flushed_to_def)
next
  case (Cons d ds)
  obtain loc d1 where d1: "remap_deletion_if_needed w d = Ok (loc, d1)" using Cons.prems(1) by auto
  show ?case
  proof (cases loc)
    case None
    then obtain ds1 where rest: "remap_committed_to_disk ar w ds files = Ok (ds1, files')" and ds': "ds' = d1 # ds1"
      using Cons.prems(1) d1 by auto
    have eq: "flushed_to w (d # ds) = flushed_to w ds" using d1 None by (auto simp: flushed_to_def fun_eq_iff)
    show ?thesis using Cons.IH[OF rest Cons.prems(2)] Cons.prems(3) d1 by (auto simp: eq ds')
  next
    case (Some l)
    then obtain g row where l: "loc = Some (DiskFile g row)" using remap_gives_disk d1 by blast
    have "row \<in> flushed_to w (d # ds) g" using d1 l by (auto simp: flushed_to_def)
    from Cons.prems(3)[OF this] obtain e where e: "fm_get files g = Some e" by blast
    obtain r v ds1 where del: "delete_row ar (committed_deletion_vector e) row = Ok (r, v)"
      and rest: "remap_committed_to_disk ar w ds (fm_set g (e\<lparr>committed_deletion_vector := v\<rparr>) files) = Ok (ds1, files')"
      and ds': "ds' = d1 # ds1" using Cons.prems(1) d1 l e by auto
    note one = grown_by_row[OF bits Cons.prems(2) e del]
    have IH: "grown_by (flushed_to w ds) (fm_set g (e\<lparr>committed_deletion_vector := v\<rparr>) files) files'
      \<and> list_all2 (\<lambda>d d'. \<exists>loc. remap_deletion_if_needed w d = Ok (loc, d')) ds ds1"
    proof (rule Cons.IH[OF rest grown_by_wf[OF one]])
      fix g' row' assume "row' \<in> flushed_to w ds g'"
      then have "row' \<in> flushed_to w (d # ds) g'" by (auto simp: flushed_to_def)
      from Cons.prems(3)[OF this] show "fm_get (fm_set g (e\<lparr>committed_deletion_vector := v\<rparr>) files) g' \<noteq> None"
        by (simp add: fm_get_set)
    qed
    have eq: "flushed_to w (d # ds) = (\<lambda>g'. (if g' = g then {row} else {}) \<union> flushed_to w ds g')"
      using d1 l by (auto simp: flushed_to_def fun_eq_iff)
    show ?thesis using grown_by_trans[OF one] IH d1 unfolding eq ds' by auto
  qed
qed

lemma register_slice_files:
  "res_fold (register_slice_file lru st lsn) (lsns, files, ev, c) fs = Ok (lsns', files', ev', c') \<Longrightarrow>
   (\<forall>g. g \<notin> (file_id \<circ> fst) ` set fs \<longrightarrow> fm_get files' g = fm_get files g)
   \<and> (\<forall>g \<in> (file_id \<circ> fst) ` set fs. \<exists>n s h. fm_get files' g = Some (new_disk_file_entry n s h))"
proof (induction fs arbitrary: lsns files ev c)
  case (Cons p fs)
  obtain f a where p: "p = (f, a)" by (cases p)
  from Cons.prems obtain acc where acc: "register_slice_file lru st lsn (lsns, files, ev, c) (f, a) = Ok acc"
    and fold: "res_fold (register_slice_file lru st lsn) acc fs = Ok (lsns', files', ev', c')" by (auto simp: p)
  from acc obtain h lsns1 ev1 c1 where
    "acc = (lsns1, fm_insert f (new_disk_file_entry (attrs_row_num a) (attrs_file_size a) (Some h)) files, ev1, c1)"
    by (auto simp: register_slice_file_def)
  note rest = Cons.IH[OF fold[unfolded this]]
  show ?case
  proof (intro conjI allI ballI impI)
    fix g assume "g \<notin> (file_id \<circ> fst) ` set (p # fs)"
    with rest show "fm_get files' g = fm_get files g" by (simp add: p fm_get_insert)
  next
    fix g assume g: "g \<in> (file_id \<circ> fst) ` set (p # fs)"
    show "\<exists>n s h. fm_get files' g = Some (new_disk_file_entry n s h)"
      using g rest by (cases "g \<in> (file_id \<circ> fst) ` set fs") (auto simp: p fm_get_insert)
  qed
qed simp

lemma remove_flushed_batches:
  "res_fold remove_flushed_batch m bs = Ok m' \<Longrightarrow>
   map_of m' i = (if i \<in> be_id ` set bs then None else map_of m i)"
  by (induction bs arbitrary: m) (auto simp: remove_flushed_batch_def delete_conv')

text \<open>
  C20: integrating a flushed slice neither loses nor invents deletions. In a new file exactly the rows are deleted to which
  the flush moved a row with a committed deletion; the files known before keep their entries; the committed deletions
  point to the new places; and of the batches in memory exactly the flushed ones are gone.
\<close>

theorem flush_carries_deletions:
  assumes bits: "arrow_bits_ok ar" and wf: "files_wf (sts_disk_files st)"
    and ok: "integrate_disk_slice ar lru (task, st, ev, c) w = Ok (task', st', ev', c')"
  shows "(\<forall>g \<in> (file_id \<circ> fst) ` set (ds_files w). \<forall>row. DiskFile g row \<in> deleted_locations st' \<longleftrightarrow>
        (\<exists>d \<in> set (committed_deletion_log st). \<exists>d'. remap_deletion_if_needed w d = Ok (Some (DiskFile g row), d')))
    \<and> (\<forall>g. g \<notin> (file_id \<circ> fst) ` set (ds_files w) \<longrightarrow> fm_get (sts_disk_files st') g = fm_get (sts_disk_files st) g)
    \<and> list_all2 (\<lambda>d d'. \<exists>loc. remap_deletion_if_needed w d = Ok (loc, d')) (committed_deletion_log st) (committed_deletion_log st')
    \<and> (\<forall>i. map_of (sts_batches st') i = (if i \<in> be_id ` set (ds_batches w) then None else map_of (sts_batches st) i))"
proof -
  let ?new = "(file_id \<circ> fst) ` set (ds_files w)" and ?to = "flushed_to w (committed_deletion_log st)"
  obtain lsn lsns files ev1 c1 committed files' m where
    reg: "res_fold (register_slice_file lru st lsn) (new_disk_file_lsn_map task, sts_disk_files st, ev, c) (ds_files w) = Ok (lsns, files, ev1, c1)"
    and remap: "remap_committed_to_disk ar w (committed_deletion_log st) files = Ok (committed, files')"
    and batches: "res_fold remove_flushed_batch (sts_batches st) (ds_batches w) = Ok m"
    and st': "sts_disk_files st' = files'" "committed_deletion_log st' = committed" "sts_batches st' = m"
    using ok by (auto simp: integrate_disk_slice_def take_index_def Let_def)
  note registered = register_slice_files[OF reg]
  have fwf: "files_wf files"
  proof (intro allI impI)
    fix g e assume "fm_get files g = Some e"
    then show "dv_wf (committed_deletion_vector e)"
      using registered wf by (cases "g \<in> ?new") (auto simp: new_disk_file_entry_def new_vector_empty)
  qed
  have there: "fm_get files g \<noteq> None" if "row \<in> ?to g" for g row
    using registered flushed_to_slice[OF that] by fastforce
  have grown: "grown_by ?to files files'"
    and log: "list_all2 (\<lambda>d d'. \<exists>loc. remap_deletion_if_needed w d = Ok (loc, d')) (committed_deletion_log st) committed"
    using remap_committed_to_disk_grows[OF bits remap fwf] there by blast+
  have others: "fm_get files' g = fm_get (sts_disk_files st) g" if "g \<notin> ?new" for g
    using grown_by_at[OF grown] flushed_to_slice that registered by (metis equals0I)
  have new: "deleted_at files' g = ?to g" if g: "g \<in> ?new" for g
  proof -
    obtain n s h where e: "fm_get files g = Some (new_disk_file_entry n s h)" using registered g by blast
    obtain e' where e': "fm_get files' g = Some e'" using grown_by_Some[OF grown e] by blast
    show ?thesis
    proof (rule grown_byE[OF grown e'])
      fix e0 assume "fm_get files g = Some e0" "deleted_rows (committed_deletion_vector e') = deleted_rows (committed_deletion_vector e0) \<union> ?to g"
      then show ?thesis using e e' by (auto simp: new_disk_file_entry_def new_vector_empty)
    qed
  qed
  have rows: "\<forall>g \<in> ?new. \<forall>row. DiskFile g row \<in> deleted_locations st' \<longleftrightarrow>
      (\<exists>d \<in> set (committed_deletion_log st). \<exists>d'. remap_deletion_if_needed w d = Ok (Some (DiskFile g row), d'))"
    using new by (auto simp: deleted_locations_disk st' flushed_to_def)
  show ?thesis using rows others log remove_flushed_batches[OF batches] unfolding st' by blast
qed

definition demo_slice :: "(plain_batch, single_primitive_key list, key_with_identity list, (u64 \<times> record_location) list) disk_slice_writer" where
  "demo_slice = (new_disk_slice_writer [] ''p'' [\<lparr>be_id = 1, be_batch = new_in_memory_batch 2\<rparr>] (Some 4) 0 (0, NoIndex) 100)\<lparr>
     batch_id_to_idx := [1 \<mapsto> 0], row_offset_mapping := [[Some (0, 0), None]],
     ds_files := [(\<lparr>file_id = FileId 9, file_path = ''g''\<rparr>, \<lparr>attrs_file_size = 3, attrs_row_num = 1\<rparr>)]\<rparr>"

theorem flush_carries_deletions_witness:
  "\<exists>task' st' ev' c'. integrate_disk_slice plain_arrow list_lru (demo_deletion_task 5 [],
      demo_state\<lparr>committed_deletion_log := [\<lparr>pd_pos = MemoryBatch 1 0, pd_lsn = 3\<rparr>]\<rparr>, [], new_object_storage_cache list_lru sample_config)
      demo_slice = Ok (task', st', ev', c')
    \<and> DiskFile (FileId 9) 0 \<in> deleted_locations st' \<and> map_of (sts_batches st') 1 = None"
proof -
  let ?st = "demo_state\<lparr>committed_deletion_log := [\<lparr>pd_pos = MemoryBatch 1 0, pd_lsn = 3\<rparr>]\<rparr>" and ?c = "new_object_storage_cache list_lru sample_config"
  have bits: "arrow_bits_ok plain_arrow" by (rule batch_ops_okD(2)[OF plain_batch_ops_ok])
  obtain w where w: "delete_row plain_arrow \<lparr>deletion_vector = None, max_rows = Suc 0\<rparr> 0 = Ok (True, w)"
    using fresh_vector_delete[OF bits, of 0 1] by (auto simp: new_deletion_vector_def)
  have wf: "files_wf (sts_disk_files ?st)"
    by (simp add: demo_state_def fm_get_def new_disk_file_entry_def new_vector_empty)
  obtain h e1 c1 where imported: "import_cache_entry list_lru ?c \<lparr>tuf_table_id = TableId 1, tuf_file_id = FileId 9\<rparr>
      \<lparr>cache_filepath = ''g'', file_size = 3\<rparr> = Ok (h, e1, c1)"
    by (simp add: import_cache_entry_def insert_non_evictable_def evict_cache_entries_def new_object_storage_cache_def list_lru_def
        sample_config_def add_width_def touch_def del: add_width_eq_Ok)
  obtain task' st' ev' c' where run: "integrate_disk_slice plain_arrow list_lru (demo_deletion_task 5 [], ?st, [], ?c) demo_slice
      = Ok (task', st', ev', c')"
    using w imported by (simp add: integrate_disk_slice_def register_slice_file_def remap_uncommitted_to_disk_def remap_deletion_if_needed_def
        take_index_def remove_flushed_batch_def demo_slice_def new_disk_slice_writer_def get_table_unique_file_id_def demo_metadata_def
        index_res_def fm_insert_def demo_state_eval Let_def del: index_res_eq_Ok res_bind_eq_Ok check_eq_Ok unwrap_eq_Ok)
  have "remap_deletion_if_needed demo_slice \<lparr>pd_pos = MemoryBatch 1 0, pd_lsn = 3\<rparr>
      = Ok (Some (DiskFile (FileId 9) 0), \<lparr>pd_pos = DiskFile (FileId 9) 0, pd_lsn = 3\<rparr>)"
    by (simp add: remap_deletion_if_needed_def demo_slice_def new_disk_slice_writer_def index_res_def Let_def del: index_res_eq_Ok)
  with flush_carries_deletions[OF bits wf run] run show ?thesis
    by (force simp: demo_slice_def new_disk_slice_writer_def)
qed

section \<open>What processing the deletion log leaves alone\<close>

text \<open>
  A property of the state that committing one deletion keeps, and that does not depend on
  the uncommitted log, survives the whole processing of the deletion log.
\<close>

locale deletion_frame =
  fixes P :: "('b, 's, 'k, 'm) snapshot_table_state \<Rightarrow> bool" and ops :: "('b, 'z) arrow_ops_scheme"
  assumes keeps_commit: "commit_deletion ops d st = Ok st' \<Longrightarrow> P st \<Longrightarrow> P st'"
    and keeps_log: "P st \<Longrightarrow> P (st\<lparr>uncommitted_deletion_log := l\<rparr>)"
begin

lemma keeps_settle: "settle_deletion ops lsn st d = Ok st' \<Longrightarrow> P st \<Longrightarrow> P st'"
  by (auto simp: settle_deletion_def keeps_log split: if_splits intro: keeps_commit)

lemma keeps_add: "add_processed_deletion ops ds lsn st = Ok st' \<Longrightarrow> P st \<Longrightarrow> P st'"
  unfolding add_processed_deletion_def by (induction ds arbitrary: st) (auto dest: keeps_settle)

lemma keeps_advance: "advance_pending_deletions ops task st = Ok st' \<Longrightarrow> P st \<Longrightarrow> P st'"
proof -
  have "res_fold (\<lambda>st entry. unwrap entry (settle_deletion ops (commit_lsn_baseline task) st)) s ds = Ok st' \<Longrightarrow> P s \<Longrightarrow> P st'" for s ds
    by (induction ds arbitrary: s) (auto dest: keeps_settle)
  then show "advance_pending_deletions ops task st = Ok st' \<Longrightarrow> P st \<Longrightarrow> P st'"
    unfolding advance_pending_deletions_def using keeps_log by blast
qed

lemma keeps_groups: "apply_groups ops pq task e ds results st = Ok st' \<Longrightarrow> P st \<Longrightarrow> P st'"
proof (induction ds arbitrary: results st rule: length_induct)
  case (1 ds)
  show ?case
  proof (cases ds)
    case Nil
    then show ?thesis using 1(2,3) by simp
  next
    case (Cons d rest)
    let ?same = "\<lambda>e. rd_lookup_key e = rd_lookup_key d \<and> rd_lsn e = rd_lsn d"
    from 1(2) Cons obtain processed s where s: "add_processed_deletion ops processed (commit_lsn_baseline task) st = Ok s"
      and grp: "apply_groups ops pq task e (dropWhile ?same rest) (dropWhile (\<lambda>r. fst r < rd_lookup_key d) results) s = Ok st'"
      by (auto simp: Let_def)
    have "length (dropWhile ?same rest) < length ds" by (simp add: Cons length_dropWhile_le le_imp_less_Suc)
    then show ?thesis using 1(1) grp keeps_add[OF s 1(3)] by blast
  qed
qed

lemma keeps_process:
  assumes "process_deletion_log ops iops search pq task st = Ok st'" and "P st"
  shows "P st'"
proof -
  obtain s where s: "advance_pending_deletions ops task st = Ok s" "apply_new_deletions ops iops search pq task s = Ok st'"
    using assms(1) by (auto simp: process_deletion_log_def)
  have "P s" by (rule keeps_advance[OF s(1) assms(2)])
  then show ?thesis using s(2) by (auto simp: apply_new_deletions_def Let_def split: if_splits dest: keeps_add keeps_groups)
qed

end

definition snapshot_lsns :: "('b, 's, 'k, 'm) snapshot_table_state \<Rightarrow> lsn option \<times> lsn option \<times> lsn" where
  "snapshot_lsns st = (snap_flush_lsn (current_snapshot st), snap_largest_flush_lsn (current_snapshot st),
     snapshot_version (current_snapshot st))"

interpretation lsn_frame: deletion_frame "\<lambda>st. snapshot_lsns st = lsns" ops for lsns ops
  by unfold_locales (auto simp: commit_deletion_def snapshot_lsns_def split: record_location.splits option.splits)

text \<open>The fields of a task that integrating it leaves alone.\<close>

definition task_lsns :: "('b, 's, 'k, 'm) snapshot_task \<Rightarrow> lsn option \<times> lsn option \<times> lsn \<times> lsn \<times> record_location option \<times> bool" where
  "task_lsns task = (new_flush_lsn task, new_largest_flush_lsn task, commit_lsn_baseline task, min_ongoing_flush_lsn task,
     new_commit_point task, st_force_empty_persistence_payload task)"

lemma apply_stream_outputs_frame:
  "apply_stream_outputs lru outs (c, task, st, ev) = Ok (c', task', st', ev') \<Longrightarrow>
   task_lsns task' = task_lsns task \<and> snapshot_lsns st' = snapshot_lsns st"
proof (induction outs arbitrary: c task st ev)
  case (Cons out outs)
  show ?case
  proof (cases out)
    case (StreamCommitted commit)
    then obtain c1 task1 st1 ev1 where one: "apply_stream_commit lru commit (c, task, st, ev) = Ok (c1, task1, st1, ev1)"
      and rest: "apply_stream_outputs lru outs (c1, task1, st1, ev1) = Ok (c', task', st', ev')" using Cons.prems by auto
    have "task_lsns task1 = task_lsns task \<and> snapshot_lsns st1 = snapshot_lsns st"
      using one by (auto simp: apply_stream_commit_def task_lsns_def snapshot_lsns_def Let_def)
    then show ?thesis using Cons.IH[OF rest] by simp
  next
    case (StreamAborted x)
    then obtain task1 st1 where one: "apply_stream_abort x (task, st) = Ok (task1, st1)"
      and rest: "apply_stream_outputs lru outs (c, task1, st1, ev) = Ok (c', task', st', ev')" using Cons.prems by auto
    have "task_lsns task1 = task_lsns task \<and> snapshot_lsns st1 = snapshot_lsns st"
      using one by (auto simp: apply_stream_abort_def task_lsns_def snapshot_lsns_def)
    then show ?thesis using Cons.IH[OF rest] by simp
  qed
qed simp

lemma integrate_slice_frame:
  "integrate_disk_slice ar lru (task, st, ev, c) w = Ok (task', st', ev', c') \<Longrightarrow>
   task_lsns task' = task_lsns task \<and> snapshot_lsns st' = snapshot_lsns st"
  by (auto simp: integrate_disk_slice_def take_index_def task_lsns_def snapshot_lsns_def Let_def)

lemma integrate_slices_frame:
  "res_fold (integrate_disk_slice ar lru) (task, st, ev, c) ws = Ok (task', st', ev', c') \<Longrightarrow>
   task_lsns task' = task_lsns task \<and> snapshot_lsns st' = snapshot_lsns st"
proof (induction ws arbitrary: task st ev c)
  case (Cons w ws)
  then obtain task1 st1 ev1 c1 where one: "integrate_disk_slice ar lru (task, st, ev, c) w = Ok (task1, st1, ev1, c1)"
    and rest: "res_fold (integrate_disk_slice ar lru) (task1, st1, ev1, c1) ws = Ok (task', st', ev', c')" by auto
  show ?case using integrate_slice_frame[OF one] Cons.IH[OF rest] by simp
qed simp

lemma maintenance_frame:
  "update_snapshot_by_iceberg_snapshot lru is_local task st c = Ok (st', ev, c') \<Longrightarrow> snapshot_lsns st' = snapshot_lsns st"
  "update_file_indices_to_mooncake_snapshot_impl lru old new st c = Ok (st', ev, c') \<Longrightarrow> snapshot_lsns st' = snapshot_lsns st"
  "update_data_files_to_mooncake_snapshot_impl ar lru olds news remap st c = Ok (st', ev, c') \<Longrightarrow> snapshot_lsns st' = snapshot_lsns st"
    apply (auto simp: update_snapshot_by_iceberg_snapshot_def snapshot_lsns_def Let_def split: prod.splits)[1]
   apply (cases "drop_old_indices old (file_indices (snap_indices (current_snapshot st)))")
   apply (auto simp: update_file_indices_to_mooncake_snapshot_impl_def snapshot_lsns_def Let_def split: if_splits)[1]
  apply (auto simp: update_data_files_to_mooncake_snapshot_impl_def snapshot_lsns_def Let_def split: if_splits)
  done

lemma compaction_frame:
  "update_data_compaction_to_mooncake_snapshot ar lru task st c = Ok (st', ev, c') \<Longrightarrow> snapshot_lsns st' = snapshot_lsns st"
  unfolding update_data_compaction_to_mooncake_snapshot_def Let_def
  by (auto split: if_splits dest!: maintenance_frame(2,3))

lemma import_indices_frame:
  "import_file_indices_into_cache lru st task c = Ok (task', ev, c') \<Longrightarrow> task_lsns task' = task_lsns task"
  by (auto simp: import_file_indices_into_cache_def task_lsns_def Let_def)

lemma remap_frame:
  "remap_uncommitted_deletion_logs_after_compaction task st = Ok (task', st') \<Longrightarrow>
    task_lsns task' = task_lsns task \<and> snapshot_lsns st' = snapshot_lsns st"
  "remap_committed_deletion_logs_after_compaction task st = Ok (task', st') \<Longrightarrow>
    task_lsns task' = task_lsns task \<and> snapshot_lsns st' = snapshot_lsns st"
  by (auto simp: remap_uncommitted_deletion_logs_after_compaction_def remap_committed_deletion_logs_after_compaction_def
      task_lsns_def snapshot_lsns_def Let_def split: if_splits prod.splits)

lemma batches_frame:
  "prune_committed_deletion_logs task st = Ok st' \<Longrightarrow> snapshot_lsns st' = snapshot_lsns st"
  "finalize_batches ops task st = Ok st' \<Longrightarrow> snapshot_lsns st' = snapshot_lsns st"
  "snapshot_lsns (merge_mem_indices task st) = snapshot_lsns st"
  by (auto simp: prune_committed_deletion_logs_def finalize_batches_def merge_mem_indices_def snapshot_lsns_def Let_def
      split: if_splits prod.splits)

lemma snapshot_lsns_update [simp]:
  "snapshot_lsns (st\<lparr>compacting_data_files := x1\<rparr>) = snapshot_lsns st"
  "snapshot_lsns (st\<lparr>sts_unpersisted_records := x2\<rparr>) = snapshot_lsns st"
  "snapshot_lsns (st\<lparr>sts_rows := x3\<rparr>) = snapshot_lsns st"
  by (simp_all add: snapshot_lsns_def)

lemma task_lsns_update [simp]:
  "task_lsns (task\<lparr>st_compacting_data_files := y1\<rparr>) = task_lsns task"
  "task_lsns (task\<lparr>new_mem_indices := y2\<rparr>) = task_lsns task"
  "task_lsns (task\<lparr>new_record_batches := y3\<rparr>) = task_lsns task"
  "task_lsns (task\<lparr>new_rows := y4\<rparr>) = task_lsns task"
  "task_lsns (task\<lparr>new_deletions := y5\<rparr>) = task_lsns task"
  "task_lsns (task\<lparr>new_streaming_xact := y6\<rparr>) = task_lsns task"
  "task_lsns (task\<lparr>new_disk_slices := y7\<rparr>) = task_lsns task"
  by (simp_all add: task_lsns_def)

lemma integrate_task_frame:
  assumes "integrate_task ops iops search pq lru is_local task st c = Ok (task', st', ev, c')"
  shows "task_lsns task' = task_lsns task \<and> snapshot_lsns st' = snapshot_lsns st"
proof -
  let ?st = "st\<lparr>compacting_data_files := st_compacting_data_files task\<rparr>" and ?task = "task\<lparr>st_compacting_data_files := {}\<rparr>"
  obtain st1 e1 c1 task2 e2 c2 st3 e3 c3 st4 e4 c4 task5 st5 task6 st6 st7 u1 u2 c8 task8 st8 e8 st9 task10 st10 e10 c10 st11 where
    s: "update_snapshot_by_iceberg_snapshot lru is_local ?task ?st c = Ok (st1, e1, c1)"
      "import_file_indices_into_cache lru st1 ?task c1 = Ok (task2, e2, c2)"
      "update_file_indices_merge_to_mooncake_snapshot lru task2 st1 c2 = Ok (st3, e3, c3)"
      "update_data_compaction_to_mooncake_snapshot ops lru task2 st3 c3 = Ok (st4, e4, c4)"
      "remap_uncommitted_deletion_logs_after_compaction task2 st4 = Ok (task5, st5)"
      "remap_committed_deletion_logs_after_compaction task5 st5 = Ok (task6, st6)"
      "prune_committed_deletion_logs task6 st6 = Ok st7"
      "apply_transaction_stream lru c4 task6 (st7\<lparr>sts_unpersisted_records := u2\<rparr>) = Ok (c8, task8, st8, e8)"
      "finalize_batches ops (task8\<lparr>new_mem_indices := []\<rparr>) (merge_mem_indices task8 st8) = Ok st9"
      "integrate_disk_slices ops lru (task8\<lparr>new_mem_indices := [], new_record_batches := []\<rparr>) st9 c8 = Ok (task10, st10, e10, c10)"
      "process_deletion_log ops iops search pq (task10\<lparr>new_rows := None\<rparr>) (st10\<lparr>sts_rows := new_rows task10\<rparr>) = Ok st'"
    and task': "task' = task10\<lparr>new_rows := None, new_deletions := []\<rparr>"
    using assms unfolding integrate_task_def Let_def by (auto split: prod.splits)
  have st: "snapshot_lsns st7 = snapshot_lsns st"
    using maintenance_frame(1)[OF s(1)] maintenance_frame(2)[OF s(3)[unfolded update_file_indices_merge_to_mooncake_snapshot_def]]
      compaction_frame[OF s(4)] remap_frame(1)[OF s(5)] remap_frame(2)[OF s(6)] batches_frame(1)[OF s(7)] by simp
  have task: "task_lsns task6 = task_lsns task"
    using import_indices_frame[OF s(2)] remap_frame(1)[OF s(5)] remap_frame(2)[OF s(6)] by simp
  have stream: "task_lsns task8 = task_lsns task6 \<and> snapshot_lsns st8 = snapshot_lsns st7"
    using apply_stream_outputs_frame[OF s(8)[unfolded apply_transaction_stream_def]] by simp
  have slices: "task_lsns task10 = task_lsns task8 \<and> snapshot_lsns st10 = snapshot_lsns st8"
    using integrate_slices_frame[OF s(10)[unfolded integrate_disk_slices_def]] batches_frame(2)[OF s(9)]
    by (simp add: batches_frame(3))
  have "snapshot_lsns st' = snapshot_lsns st10"
    by (rule lsn_frame.keeps_process[OF s(11)]) simp
  then show ?thesis using st task stream slices task' by simp
qed

section \<open>What a snapshot hands out\<close>

lemma aggregate_logs_exact:
  "aggregate_logs ar st flush_lsn ds vectors logs = Ok (vectors', logs') \<Longrightarrow> logs' = logs \<union> on_disk_below flush_lsn ds"
proof (induction ds arbitrary: vectors logs)
  case Nil
  then show ?case by (simp add: on_disk_below_def)
next
  case (Cons d ds)
  show ?case
  proof (cases "pd_lsn d < flush_lsn \<and> (\<exists>fid row. pd_pos d = DiskFile fid row)")
    case True
    then obtain fid row where d: "pd_lsn d < flush_lsn" "pd_pos d = DiskFile fid row" by blast
    then obtain vectors1 where "aggregate_logs ar st flush_lsn ds vectors1 (insert (fid, row) logs) = Ok (vectors', logs')"
      using Cons.prems by (auto simp: Let_def)
    from Cons.IH[OF this] show ?thesis using d by (auto simp: on_disk_below_def)
  next
    case False
    then have "aggregate_logs ar st flush_lsn ds vectors logs = Ok (vectors', logs')"
      using Cons.prems by (auto split: record_location.splits if_splits)
    from Cons.IH[OF this] show ?thesis using False by (auto simp: on_disk_below_def)
  qed
qed

lemma choose_persistence_sound:
  assumes "choose_persistence ar task opt st = Ok (Some p)"
  shows "psp_flush_lsn p = (case snap_flush_lsn (current_snapshot st) of None \<Rightarrow> 0 | Some l \<Rightarrow> l)"
    and "psp_flush_lsn p < min_ongoing_flush_lsn task"
    and "psp_committed_deletion_logs p = on_disk_below (psp_flush_lsn p) (committed_deletion_log st)"
  using assms by (auto simp: choose_persistence_def get_persistence_snapshot_payload_def aggregate_committed_deletion_logs_def
      Let_def dest: aggregate_logs_exact split: if_splits)

lemma advance_lsns_spec:
  assumes "advance_lsns task opt st = Ok st'"
  shows "snap_flush_lsn (current_snapshot st') = (case new_flush_lsn task of None \<Rightarrow> snap_flush_lsn (current_snapshot st) | Some l \<Rightarrow> Some l)"
    and "snapshot_version (current_snapshot st') = (if commit_lsn_baseline task = 0 then snapshot_version (current_snapshot st) else commit_lsn_baseline task)"
  using assms by (auto simp: advance_lsns_def Let_def split: option.splits if_splits)

lemma choose_maintenance_exclusive:
  "choose_maintenance opt st c = Ok (compaction, merge, c') \<Longrightarrow> has_payload compaction \<Longrightarrow> \<not> has_payload merge"
  by (auto simp: choose_maintenance_def has_payload_def split: if_splits table_maintenance_status.splits)

lemma consistent_indices:
  "assert_current_snapshot_consistent exists st = Ok () \<Longrightarrow> \<not> no_identity st \<Longrightarrow>
   distinct (indexed_file_ids st) \<and> set (indexed_file_ids st) = set (data_file_ids st)"
  by (auto simp: assert_current_snapshot_consistent_def assert_file_indices_no_duplicate_def)


definition demo_update :: "(plain_batch, single_primitive_key list, key_with_identity list, (u64 \<times> record_location) list) snapshot_task" where
  "demo_update = (demo_deletion_task 5 [])\<lparr>new_flush_lsn := Some 5, new_largest_flush_lsn := Some 5,
     st_force_empty_persistence_payload := True\<rparr>"

definition demo_option :: snapshot_option where
  "demo_option = \<lparr>opt_uuid = 1, dump_snapshot = False, force_create = False, iceberg_snapshot_option = BestEffortSnapshot 3,
     index_merge_option = SkipMaintenance, data_compaction_option = SkipMaintenance\<rparr>"


end
