(* ===== verification/Spec2Isabelle.thy ===== *)
theory Spec2Isabelle
  imports Row_Types Batch_Id Deletion_Vector Object_Cache Table_Event
    Wal Wal_Truncation Wal_Recovery Handler_State Table_Handler Handler_Control Handler_System Handler_Requests Read_State Read_Manager
    Mem_Index Arrow_Rows Column_Store Mem_Slice Snapshot_Task Disk_Slice Persistence_Buffer Snapshot_State Mooncake_Table Transaction_Stream Snapshot_Maintenance
    Snapshot_Update Snapshot_Integration
begin

text \<open>
  Moonlink keeps a table that receives a stream of row changes (inserts, deletes, commits of
  main and streaming transactions) and serves it as an iceberg or delta table with fresh
  reads. A table handler task owns the table; it applies the events it receives, cuts
  mooncake snapshots of the rows in memory, persists them, logs the events ahead in a
  write-ahead log, compacts files and answers requests. Readers wait on published LSNs
  and read a union of files and rows in memory. Files on local disk are shared through an
  object storage cache that pins the ones in use.

  Paths below are relative to \<^verbatim>\<open>src/src/moonlink/src\<close> unless they start with a crate.

  \<^bold>\<open>Foundations\<close>
  \<^item> \<^verbatim>\<open>Prelude\<close>: results with panics (\<open>res\<close>), checked arithmetic of a debug build, generic facts.
  \<^item> \<^verbatim>\<open>Row_Types\<close>: row values, their equality, rows and the identity of a row
    (\<^verbatim>\<open>row/moonlink_row.rs\<close>, \<^verbatim>\<open>row/identity_prop.rs\<close>, \<^verbatim>\<open>storage/storage_utils.rs\<close>). The two ways to
    project a row to its lookup key agree.
  \<^item> \<^verbatim>\<open>Batch_Id\<close>: the counters of batch ids (\<^verbatim>\<open>mooncake_table/batch_id_counter.rs\<close>), sequential
    and interleaved; ids of streaming and of regular batches never collide.
  \<^item> \<^verbatim>\<open>Deletion_Vector\<close>: bitmaps of deleted rows (\<^verbatim>\<open>mooncake_table/delete_vector.rs\<close>), which
    refine finite sets; filtering a record batch keeps the live rows.

  \<^bold>\<open>Rows in memory\<close>
  \<^item> \<^verbatim>\<open>Mem_Index\<close>: the index from lookup keys to record locations (\<^verbatim>\<open>storage/index/mem_index.rs\<close>).
    Its entries are a multiset that insertion and removal change as expected.
  \<^item> \<^verbatim>\<open>Arrow_Columns\<close>, \<^verbatim>\<open>Arrow_Rows\<close>: \<^verbatim>\<open>row/column_array_builder.rs\<close> and \<^verbatim>\<open>row/moonlink_row.rs\<close>, the conversion of
    rows to Arrow columns and back and the comparison of a row with a batch. A column keeps the type of its
    field; lists hold fewer than \<open>2 ^ 31\<close> values, the range of their 32 bit offsets.
  \<^item> \<^verbatim>\<open>Column_Store\<close>, \<^verbatim>\<open>Mem_Slice\<close>: \<^verbatim>\<open>mooncake_table/data_batches.rs\<close>, \<^verbatim>\<open>mem_slice.rs\<close> and \<^verbatim>\<open>shared_array.rs\<close>: appending,
    deleting and draining rows. A batch reads back as its live rows; a deletion marks exactly one live row.

  \<^bold>\<open>Files\<close>
  \<^item> \<^verbatim>\<open>Object_Cache\<close>: the object storage cache and its handles (\<^verbatim>\<open>storage/cache/object_storage/\<close>).
    The eviction loop has fuel one more than the number of evictable entries; it pops one
    entry per turn, so the fuel is proved to be enough. The accounting of bytes, pins and
    released files is an invariant of every interleaving.

  \<^bold>\<open>Write-ahead log\<close>
  \<^item> \<^verbatim>\<open>Wal\<close>, \<^verbatim>\<open>Wal_Truncation\<close>, \<^verbatim>\<open>Wal_Recovery\<close>: \<^verbatim>\<open>storage/wal.rs\<close> and its metadata. The store is a
    finite map from paths to bytes, with failures of each write as inputs; the codec is a
    parameter. Truncation deletes only captured events; whatever fails or crashes, the log
    read back is a contiguous part of what was logged; replay sends exactly what the last
    snapshot lacks.

  \<^bold>\<open>Table handler\<close>
  \<^item> \<^verbatim>\<open>Table_Event\<close>: the events and options (\<^verbatim>\<open>table_notify.rs\<close>, \<^verbatim>\<open>mooncake_table/snapshot.rs\<close>).
  \<^item> \<^verbatim>\<open>Handler_State\<close>: \<^verbatim>\<open>table_handler/table_handler_state.rs\<close>.
  \<^item> \<^verbatim>\<open>Table_Handler\<close>, \<^verbatim>\<open>Handler_Control\<close>, \<^verbatim>\<open>Handler_System\<close>, \<^verbatim>\<open>Handler_Requests\<close>: the event loop of
    \<^verbatim>\<open>table_handler.rs\<close> over an interface record of the methods of the table it calls. The
    handler with its background tasks is a step relation; the invariants are proved by
    induction over its runs.

  \<^bold>\<open>Reading\<close>
  \<^item> \<^verbatim>\<open>Table_Metadata\<close>: the wire format of a read (\<^verbatim>\<open>moonlink_table_metadata\<close> crate).
  \<^item> \<^verbatim>\<open>Read_State\<close>: \<^verbatim>\<open>union_read/read_state.rs\<close>, \<^verbatim>\<open>mooncake_table/snapshot_read_output.rs\<close>.
  \<^item> \<^verbatim>\<open>Read_Manager\<close>: \<^verbatim>\<open>union_read/read_state_manager.rs\<close>, \<^verbatim>\<open>lsn_state.rs\<close>; publishers and readers
    are a step relation, borrow by borrow.

  \<^bold>\<open>The table and its snapshot\<close>
  \<^item> \<^verbatim>\<open>Snapshot_Task\<close>: configuration and metadata of a table, the snapshot with its index, disk slices, outcomes of
    streams and persisted records (\<^verbatim>\<open>storage/mooncake_table.rs\<close>, \<^verbatim>\<open>persisted_records.rs\<close>, \<^verbatim>\<open>index/hash_index.rs\<close>).
  \<^item> \<^verbatim>\<open>Disk_Slice\<close>: \<^verbatim>\<open>mooncake_table/disk_slice.rs\<close>, flushing batches to files and remapping the index. The files hold
    exactly the live rows. The proof takes fewer than 100 output files per flush, the range of ids reserved for it.
  \<^item> \<^verbatim>\<open>Persistence_Buffer\<close>: \<^verbatim>\<open>mooncake_table/persistence_buffer.rs\<close> and the persistence payload. Snapshots and persistences
    are a step relation; what is buffered is persisted once and in order.
  \<^item> \<^verbatim>\<open>Snapshot_State\<close>: the state of \<^verbatim>\<open>mooncake_table/snapshot.rs\<close> and its deletion log: lookup, matching and committing of
    deletions. The unstable sort of the code is modelled by the stable one.
  \<^item> \<^verbatim>\<open>Mooncake_Table\<close>: the operations of \<^verbatim>\<open>mooncake_table.rs\<close> on the main transaction, flushes and their LSNs, and the results
    of background tasks. Flush LSNs lie below the largest word, which stands for no flush.
  \<^item> \<^verbatim>\<open>Transaction_Stream\<close>: \<^verbatim>\<open>mooncake_table/transaction_stream.rs\<close>. The deletions of a stream take effect together or not at all.
  \<^item> \<^verbatim>\<open>Snapshot_Maintenance\<close>: \<^verbatim>\<open>mooncake_table/snapshot_maintenance.rs\<close> and the aggregation and pruning of committed deletions.
    Compaction takes persisted files only; a persistence takes exactly the deletions below its flush LSN.
  \<^item> \<^verbatim>\<open>Snapshot_Update\<close>, \<^verbatim>\<open>Snapshot_Integration\<close>: \<open>update_snapshot\<close> of \<^verbatim>\<open>mooncake_table/snapshot.rs\<close> with \<^verbatim>\<open>snapshot_persistence.rs\<close>,
    \<^verbatim>\<open>snapshot_cache_utils.rs\<close>, \<^verbatim>\<open>snapshot_validation.rs\<close> and \<^verbatim>\<open>index/cache_utils.rs\<close>, step by step in the order of the code. Compaction and
    flush carry deletions to the new places of their rows; what a snapshot hands out is sound. The
    steps run one after the other; other holders of the cache between them are covered by the theory of the cache.

  How the parts meet: the handler calls the table, the table collects a snapshot task, the snapshot applies it and returns
  payloads, whose results come back as events and enter the next task. The laws a part relies on are locales: the
  generic ones for state machines are in \<^verbatim>\<open>Prelude\<close>, the others beside their part, each interpreted on the model.

  \<^bold>\<open>Conventions\<close>
  A panic is a value of \<open>res\<close>, an \<open>Err\<close> a value of a sum or \<open>None\<close>. Arithmetic that a debug build
  checks is checked. Code of other crates is a parameter: a record of its operations with a
  predicate (\<open>\<dots>_ok\<close>) that states their documented behaviour, and an instance that satisfies it.
  LSNs are natural numbers where no sentinel of the machine type matters, words otherwise.

  \<^bold>\<open>Not modelled\<close>
  Iceberg and delta catalogues, file system accessors, the metadata store, the RPC and REST
  services, the datafusion integration and the observability code are calls of other systems. The work of a compaction and
  of an index merge reads and writes files through other crates; only its payloads and results are modelled, and the
  lookup in a file index is a parameter. Recovery of a table from iceberg, the replay log of events and the
  connectors (Postgres replication, REST ingestion) are not modelled.
\<close>

end
